(* ===== verification/Prelude.thy ===== *)
theory Prelude
  imports Complex_Main
begin

text \<open>
  What every component of the development shares: the exceptions the program raises
  on purpose, as values; the composition of fallible steps; the Python objects that
  the construction-time guards look at; the collections of facts the component proofs
  draw on; and a locale for state machines, from which every state machine of the
  program gets its invariant and reachability facts.
\<close>

section \<open>Collections of facts\<close>

named_theorems guard_simps \<open>when a construction-time guard accepts its argument\<close>
named_theorems post_init_defs \<open>the checks a dataclass runs in its post-init hook\<close>
named_theorems rounding_simps \<open>facts on the process-wide decimal context\<close>

section \<open>Exceptions as values\<close>

text \<open>
  One constructor per exception class that the modelled code raises. The string names
  the check that failed (the field, or the rule); the wording of the message is not
  modelled.
\<close>

datatype exn =
    DomainError string
  | ValueError string
  | InvalidOperation string
  | DivisionByZero
  | RunConfigError string
  | BacktestError string
  | CausalityError string
  | EventBudgetExhaustedError
  | UnregisteredSpecificationError
  | ExecutionReportError string
  | DrawdownStateError string
  | CalibrationError string
  | RiskModelError string
  | IndexError
  | KeyError
  | StopIteration
  | TypeError string
  | KillSwitchTrippedError string
  | ResumeRefusedError "string list"
  | HandlerError string
  | RateBudgetExhausted string rat
  | VenueIpBannedError
  | ThrottleConfigurationError string
  | ExchangeError string
  | VenueSimulationError string
  | IllegalTransitionError string
  | LifecycleTransitionError string
  | LineageError string
  | LineageCycleError
  | WalkForwardConfigError string
  | ScheduleRefusedError string
  | CpcvConfigError string
  | CpcvPartitionError string
  | DataIntegrityError string
  | DataUnavailableError string
  | TriggerObservationError string
  | DegradedModeError string
  | TrialSpecificationError string
  | TrialLedgerError string
  | StrategyContractError string
  | JobRegistrationError string
  | CostModelConfigError string
  | CalibrationProvenanceError string
  | PortfolioAccountingError string
  | MarkPriceMissingError string
  | EquityPathError string
  | SafetyViolation string
  | KeyboardInterrupt

text \<open>
  The classes that \<open>except Exception\<close> does not catch: \<open>SafetyViolation\<close> derives from
  \<open>BaseException\<close> on purpose.
\<close>

definition is_exception :: "exn \<Rightarrow> bool" where
  "is_exception e \<longleftrightarrow> (case e of SafetyViolation _ \<Rightarrow> False | KeyboardInterrupt \<Rightarrow> False | _ \<Rightarrow> True)"

type_synonym 'a result = "exn + 'a"

text \<open>Sequencing: a step that raised ends the computation with its exception.\<close>

definition and_then :: "'a result \<Rightarrow> ('a \<Rightarrow> 'b result) \<Rightarrow> 'b result" where
  "and_then r f = (case r of Inl e \<Rightarrow> Inl e | Inr x \<Rightarrow> f x)"

lemma and_then_simps [simp]:
  "and_then (Inl e) f = Inl e"
  "and_then (Inr x) f = f x"
  by (simp_all add: and_then_def)

lemma and_then_Inr_iff: "and_then r f = Inr y \<longleftrightarrow> (\<exists>x. r = Inr x \<and> f x = Inr y)"
  by (cases r) simp_all

lemma and_then_Inl_iff:
  "and_then r f = Inl e \<longleftrightarrow> r = Inl e \<or> (\<exists>x. r = Inr x \<and> f x = Inl e)"
  by (cases r) auto

lemma and_thenE [elim?]:
  assumes "and_then r f = Inr y"
  obtains x where "r = Inr x" and "f x = Inr y"
  using assms by (auto simp: and_then_Inr_iff)

text \<open>A list of checks run in order: the first one that raises wins.\<close>

definition void :: "'a result \<Rightarrow> unit result" where
  "void r = and_then r (\<lambda>_. Inr ())"

definition ensure :: "bool \<Rightarrow> exn \<Rightarrow> unit result" where
  "ensure b e = (if b then Inr () else Inl e)"

fun run_checks :: "unit result list \<Rightarrow> unit result" where
  "run_checks [] = Inr ()"
| "run_checks (c # cs) = and_then c (\<lambda>_. run_checks cs)"

lemma void_ok [simp]: "void r = Inr () \<longleftrightarrow> (\<exists>x. r = Inr x)"
  by (cases r) (simp_all add: void_def)

lemma void_Inr [simp]: "void (Inr x) = Inr ()"
  by (simp add: void_def)

lemma ensure_ok [simp]: "ensure b e = Inr () \<longleftrightarrow> b"
  by (simp add: ensure_def)

lemma run_checks_ok: "run_checks cs = Inr () \<longleftrightarrow> (\<forall>c \<in> set cs. c = Inr ())"
  by (induction cs) (auto simp: and_then_Inr_iff)

lemma run_checks_ok_Cons [simp]:
  "run_checks (c # cs) = Inr () \<longleftrightarrow> c = Inr () \<and> run_checks cs = Inr ()"
  by (auto simp: run_checks.simps(2) and_then_Inr_iff)

declare run_checks.simps(2) [simp del]

lemma run_checks_append [simp]:
  "run_checks (cs @ ds) = Inr () \<longleftrightarrow> run_checks cs = Inr () \<and> run_checks ds = Inr ()"
  by (auto simp: run_checks_ok)

text \<open>A dataclass instance: the record itself when its post-init hook accepts it.\<close>

definition construct :: "('r \<Rightarrow> unit result) \<Rightarrow> 'r \<Rightarrow> 'r result" where
  "construct post_init r = and_then (post_init r) (\<lambda>_. Inr r)"

lemma construct_Inr_iff [simp]:
  "construct p r = Inr s \<longleftrightarrow> s = r \<and> p r = Inr ()"
  by (auto simp: construct_def and_then_Inr_iff)

lemma construct_ok: "p r = Inr () \<Longrightarrow> construct p r = Inr r"
  by simp

text \<open>A fallible step mapped over a list, left to right, stopping at the first exception.\<close>

fun map_result :: "('a \<Rightarrow> 'b result) \<Rightarrow> 'a list \<Rightarrow> 'b list result" where
  "map_result f [] = Inr []"
| "map_result f (x # xs) =
     and_then (f x) (\<lambda>y. and_then (map_result f xs) (\<lambda>ys. Inr (y # ys)))"

lemma map_result_Inr: "(\<And>x. x \<in> set xs \<Longrightarrow> f x = Inr (g x)) \<Longrightarrow> map_result f xs = Inr (map g xs)"
  by (induction xs) simp_all

lemma map_result_list_all2:
  "map_result f xs = Inr ys \<Longrightarrow> list_all2 (\<lambda>x y. f x = Inr y) xs ys"
  by (induction xs arbitrary: ys) (auto simp: and_then_Inr_iff)

lemma map_result_Inl: "map_result f xs = Inl e \<Longrightarrow> \<exists>x \<in> set xs. f x = Inl e"
  by (induction xs) (auto simp: and_then_Inl_iff)

lemma map_result_cong: "(\<And>x. x \<in> set xs \<Longrightarrow> f x = g x) \<Longrightarrow> map_result f xs = map_result g xs"
  by (induction xs) simp_all

lemma map_result_pure: "map_result (\<lambda>x. Inr (f x)) xs = Inr (map f xs)"
  by (induction xs) simp_all

lemma map_result_nth:
  assumes "map_result f xs = Inr ys"
  shows "length ys = length xs" "i < length xs \<Longrightarrow> f (xs ! i) = Inr (ys ! i)"
  using map_result_list_all2 [OF assms] by (auto simp: list_all2_conv_all_nth)

lemma map_result_totals:
  "\<forall>x \<in> set xs. \<exists>y. f x = Inr y \<Longrightarrow> \<exists>ys. map_result f xs = Inr ys \<and> length ys = length xs"
  by (induction xs) fastforce+

lemma map_result_total:
  "\<forall>x \<in> set xs. \<exists>y. f x = Inr y \<and> P y \<Longrightarrow>
    \<exists>ys. map_result f xs = Inr ys \<and> length ys = length xs \<and> (\<forall>y \<in> set ys. P y)"
  by (induction xs) fastforce+

section \<open>Python objects, as the guards see them\<close>

text \<open>
  A guard takes an object that has been checked by nothing. A decimal is a finite
  number, a NaN or an infinity; a datetime is its wall-clock reading in microseconds
  since the epoch and its UTC offset in microseconds, if it has one; a timedelta is a
  count of microseconds; a UUID is its 128-bit number. \<open>PyOther\<close> is an object of any
  other type.
\<close>

datatype decval = Finite rat | NaN | Infinity

datatype pyobj =
    PyNone
  | PyBool bool
  | PyInt int
  | PyFloat string
  | PyDecimal decval
  | PyStr string
  | PyDatetime int "int option"
  | PyTimedelta int
  | PyUUID nat
  | PyOther string

abbreviation utc :: "int \<Rightarrow> pyobj" where
  "utc t \<equiv> PyDatetime t (Some 0)"

abbreviation dec :: "rat \<Rightarrow> pyobj" where
  "dec x \<equiv> PyDecimal (Finite x)"

abbreviation (input) microseconds_per_second :: int where
  "microseconds_per_second \<equiv> 1000000"

text \<open>
  Strings are lists of code points below 256. \<open>str.strip\<close> removes Python's white space
  at both ends; a string is blank when nothing else is in it.
\<close>

definition is_py_space :: "char \<Rightarrow> bool" where
  "is_py_space c \<longleftrightarrow> of_char c \<in> {9, 10, 11, 12, 13, 28, 29, 30, 31, 32, 133, 160 :: nat}"

definition strip :: "string \<Rightarrow> string" where
  "strip s = rev (dropWhile is_py_space (rev (dropWhile is_py_space s)))"

lemma strip_Nil [simp]: "strip [] = []"
  by (simp add: strip_def)

lemma strip_blank: "strip s = [] \<longleftrightarrow> list_all is_py_space s"
  by (auto simp: strip_def list_all_iff dropWhile_eq_Nil_conv dest: set_dropWhileD)
    (metis dropWhile_eq_Nil_conv hd_dropWhile list.set_sel(1) set_dropWhileD)

lemma strip_length_le: "length (strip s) \<le> length s"
  using length_dropWhile_le [of is_py_space "rev (dropWhile is_py_space s)"]
    length_dropWhile_le [of is_py_space s]
  by (simp add: strip_def)

section \<open>State machines\<close>

text \<open>
  A state machine of the program: what a fresh instance holds, what one event does to
  it, which events its callers can present, and a property that every such event keeps.
  The client facts are on runs: a list of events applied in order.
\<close>

locale state_machine =
  fixes init :: "'s \<Rightarrow> bool"
    and step :: "'s \<Rightarrow> 'e \<Rightarrow> 's"
    and admissible :: "'e \<Rightarrow> bool"
    and inv :: "'s \<Rightarrow> bool"
  assumes inv_init: "init s \<Longrightarrow> inv s"
    and inv_step: "inv s \<Longrightarrow> admissible e \<Longrightarrow> inv (step s e)"
begin

lemma inv_foldl: "inv s \<Longrightarrow> list_all admissible es \<Longrightarrow> inv (foldl step s es)"
  by (induction es arbitrary: s) (auto intro: inv_step)

lemma inv_run: "init s \<Longrightarrow> list_all admissible es \<Longrightarrow> inv (foldl step s es)"
  by (blast intro: inv_foldl inv_init)

end

text \<open>
  A machine with a quantity that never moves the wrong way: what holds of two
  consecutive states (a reflexive, transitive relation) holds of any two states of a run.
\<close>

locale monotone_machine = state_machine +
  fixes before :: "'a \<Rightarrow> 'a \<Rightarrow> bool"
  assumes before_refl: "before s s"
    and before_trans: "before s t \<Longrightarrow> before t u \<Longrightarrow> before s u"
    and before_step: "inv s \<Longrightarrow> admissible e \<Longrightarrow> before s (step s e)"
begin

lemma before_run: "inv s \<Longrightarrow> list_all admissible es \<Longrightarrow> before s (foldl step s es)"
proof (induction es arbitrary: s)
  case Nil
  show ?case by (simp add: before_refl)
next
  case (Cons e es)
  then have "before s (step s e)" and "inv (step s e)" by (simp_all add: before_step inv_step)
  then show ?case using Cons by (auto intro: before_trans)
qed

end

section \<open>Keyed stores\<close>

text \<open>
  The contract of a collection that holds at most one value per key, as its clients use
  it: storing never fails on a well-formed collection and keeps it well-formed, and a
  lookup sees the last value stored under the key. The client facts are on sequences of
  stores.
\<close>

locale keyed_store =
  fixes lookup :: "'s \<Rightarrow> 'k \<Rightarrow> 'v option"
    and store :: "'s \<Rightarrow> 'v \<Rightarrow> 's result"
    and key :: "'v \<Rightarrow> 'k"
    and wf :: "'s \<Rightarrow> bool"
  assumes store_total: "wf s \<Longrightarrow> \<exists>t. store s v = Inr t"
    and store_wf: "wf s \<Longrightarrow> store s v = Inr t \<Longrightarrow> wf t"
    and lookup_store: "wf s \<Longrightarrow> store s v = Inr t \<Longrightarrow>
      lookup t k = (if k = key v then Some v else lookup s k)"
begin

fun store_all :: "'s \<Rightarrow> 'v list \<Rightarrow> 's result" where
  "store_all s [] = Inr s"
| "store_all s (v # vs) = and_then (store s v) (\<lambda>t. store_all t vs)"

lemma store_all_total: "wf s \<Longrightarrow> \<exists>t. store_all s vs = Inr t \<and> wf t"
proof (induction vs arbitrary: s)
  case Nil
  then show ?case by simp
next
  case (Cons v vs)
  obtain t where "store s v = Inr t" using store_total [OF Cons.prems] by blast
  with Cons.IH [of t] store_wf [OF Cons.prems] show ?case by simp
qed

lemma lookup_store_all:
  "wf s \<Longrightarrow> store_all s vs = Inr t \<Longrightarrow>
    lookup t k = (case find (\<lambda>v. key v = k) (rev vs) of Some v \<Rightarrow> Some v | None \<Rightarrow> lookup s k)"
proof (induction vs arbitrary: s)
  case Nil
  then show ?case by simp
next
  case (Cons v vs)
  from Cons.prems(2) obtain u where u: "store s v = Inr u" "store_all u vs = Inr t"
    by (auto simp: and_then_Inr_iff)
  have "find P (xs @ ys) = (case find P xs of Some y \<Rightarrow> Some y | None \<Rightarrow> find P ys)" for P and xs ys :: "'v list"
    by (induction xs) auto
  then show ?case
    using Cons.IH [OF store_wf [OF Cons.prems(1) u(1)] u(2)] lookup_store [OF Cons.prems(1) u(1)]
    by (auto split: option.splits)
qed

end

section \<open>Lists\<close>

lemma sorted_wrt_last: "sorted_wrt R (xs @ [x]) \<longleftrightarrow> sorted_wrt R xs \<and> (\<forall>y \<in> set xs. R y x)"
  by (induction xs) auto

lemma filter_eq_takeWhile_sorted:
  assumes "sorted_wrt (\<lambda>x y. P y \<longrightarrow> P x) xs"
  shows "filter P xs = takeWhile P xs"
  using assms by (induction xs) (auto simp: filter_empty_conv)

text \<open>Order statistics of a list, by sorting it.\<close>

lemma sorted_counts:
  fixes xs :: "'a :: linorder list"
  assumes "sorted xs" "k < length xs"
  shows "Suc k \<le> length (filter (\<lambda>x. x \<le> xs ! k) xs)" "length (filter (\<lambda>x. x < xs ! k) xs) \<le> k"
proof -
  have "filter (\<lambda>x. x \<le> xs ! k) (take (Suc k) xs) = take (Suc k) xs"
    using assms by (auto simp: filter_id_conv in_set_conv_nth sorted_nth_mono)
  then have "length (filter (\<lambda>x. x \<le> xs ! k) (take (Suc k) xs)) = Suc k" using assms(2) by simp
  moreover have "filter (\<lambda>x. x \<le> xs ! k) xs = filter (\<lambda>x. x \<le> xs ! k) (take (Suc k) xs) @ filter (\<lambda>x. x \<le> xs ! k) (drop (Suc k) xs)"
    by (metis append_take_drop_id filter_append)
  ultimately show "Suc k \<le> length (filter (\<lambda>x. x \<le> xs ! k) xs)" by simp
  have "filter (\<lambda>x. x < xs ! k) (drop k xs) = []"
    using assms by (auto simp: filter_empty_conv in_set_conv_nth not_less sorted_nth_mono)
  then have "filter (\<lambda>x. x < xs ! k) xs = filter (\<lambda>x. x < xs ! k) (take k xs)"
    by (metis append_Nil2 append_take_drop_id filter_append)
  then show "length (filter (\<lambda>x. x < xs ! k) xs) \<le> k"
    using length_filter_le [of "\<lambda>x. x < xs ! k" "take k xs"] assms(2) by simp
qed

lemma length_filter_sort: "length (filter P (sort xs)) = length (filter P xs)"
  by (simp only: filter_sort length_sort)

end
