(* ===== verification/Decimals.thy ===== *)
theory Decimals
  imports Prelude
begin

text \<open>
  The process-wide decimal context of \<open>src/fking/platform/numeric.py\<close>: 38 significant
  digits, ties to even. A Decimal is the rational number it denotes (two spellings of
  one number, such as 1.0 and 1.00, compare equal in the program too); an arithmetic
  operation computes the exact result and rounds it to the context, as the decimal
  module does. The traps for an exponent out of range (Overflow, Underflow, Clamped)
  cannot fire for exponents between -999999 and 999999 and are not modelled; division
  by zero and a quantize result of more than 38 digits raise.

  What the rest of the development uses of the rounding is the locale \<open>rounding\<close>
  (monotone, odd, idempotent); \<open>context_round\<close> is shown to be one, and values of at
  most 38 digits are shown to pass through unchanged.
\<close>

section \<open>Decimal digits and the position of the leading one\<close>

definition DECIMAL_PRECISION :: nat where
  "DECIMAL_PRECISION = 38"

function ndigits :: "int \<Rightarrow> nat" where
  "ndigits n = (if n < 10 then 1 else Suc (ndigits (n div 10)))"
  by pat_completeness auto
termination
  by (relation "measure nat") auto

declare ndigits.simps [simp del]

lemma ndigits_pos [simp]: "0 < ndigits n"
  by (simp add: ndigits.simps [of n])

lemma ndigits_bounds: "0 < n \<Longrightarrow> 10 ^ (ndigits n - 1) \<le> n \<and> n < 10 ^ ndigits n"
proof (induction n rule: ndigits.induct)
  case (1 n)
  show ?case
  proof (cases "n < 10")
    case True
    with "1.prems" show ?thesis by (simp add: ndigits.simps [of n])
  next
    case False
    define d where "d = ndigits (n div 10)"
    have d_pos: "0 < d" by (simp add: d_def)
    from "1.IH" False have "10 ^ (d - 1) \<le> n div 10" and hi: "n div 10 < 10 ^ d"
      by (auto simp: d_def)
    then have "10 * 10 ^ (d - 1) \<le> n" by linarith
    with d_pos have "10 ^ d \<le> n" by (simp add: power_eq_if split: if_splits)
    moreover from hi have "n < 10 * 10 ^ d" by linarith
    ultimately show ?thesis using False by (simp add: ndigits.simps [of n] d_def)
  qed
qed

lemma of_int_digits:
  assumes "0 < n"
  shows "(10::rat) ^ (ndigits n - 1) \<le> of_int n" and "of_int n + 1 \<le> (10::rat) ^ ndigits n"
proof -
  have "of_int (10 ^ (ndigits n - 1)) \<le> (of_int n :: rat)"
    using ndigits_bounds [OF assms] by (simp only: of_int_le_iff)
  then show "(10::rat) ^ (ndigits n - 1) \<le> of_int n" by simp
  have "of_int (n + 1) \<le> (of_int (10 ^ ndigits n) :: rat)"
    using ndigits_bounds [OF assms] by (simp only: of_int_le_iff zless_imp_add1_zle)
  then show "of_int n + 1 \<le> (10::rat) ^ ndigits n" by simp
qed

text \<open>The exponent of the leading digit: \<open>Decimal.adjusted()\<close>.\<close>

definition adjusted :: "rat \<Rightarrow> int" where
  "adjusted x =
     (if 1 \<le> \<bar>x\<bar> then int (ndigits \<lfloor>\<bar>x\<bar>\<rfloor>) - 1
      else - int (ndigits (\<lceil>1 / \<bar>x\<bar>\<rceil> - 1)))"

lemma adjusted_bounds:
  assumes "x \<noteq> 0"
  shows "10 powi adjusted x \<le> \<bar>x\<bar>" and "\<bar>x\<bar> < 10 powi (adjusted x + 1)"
proof -
  let ?a = "\<bar>x\<bar>"
  have a_pos: "0 < ?a" using assms by simp
  have "10 powi adjusted x \<le> ?a \<and> ?a < 10 powi (adjusted x + 1)"
  proof (cases "1 \<le> ?a")
    case True
    define n where "n = \<lfloor>?a\<rfloor>"
    define d where "d = ndigits n"
    have n: "0 < n" using True unfolding n_def by linarith
    have d: "0 < d" by (simp add: d_def)
    have "of_int n \<le> ?a" "?a < of_int n + 1" using floor_correct [of ?a] by (simp_all add: n_def)
    with of_int_digits [OF n] have b: "(10::rat) ^ (d - 1) \<le> ?a" "?a < 10 ^ d"
      unfolding d_def by linarith+
    have adj: "adjusted x = int (d - 1)" using True d
      by (simp add: adjusted_def d_def n_def of_nat_diff Suc_leI)
    have adj1: "adjusted x + 1 = int d" unfolding adj using d by simp
    show ?thesis using b unfolding adj1 unfolding adj by (simp only: power_int_of_nat simp_thms)
  next
    case False
    let ?y = "1 / ?a"
    have y: "1 < ?y" using False a_pos by (simp add: field_simps)
    define n where "n = \<lceil>?y\<rceil> - 1"
    define d where "d = ndigits n"
    have n: "0 < n" using y unfolding n_def by linarith
    have d: "0 < d" by (simp add: d_def)
    have "of_int n < ?y" "?y \<le> of_int n + 1" using ceiling_correct [of ?y] by (simp_all add: n_def)
    with of_int_digits [OF n] have b: "(10::rat) ^ (d - 1) < ?y" "?y \<le> 10 ^ d"
      unfolding d_def by linarith+
    have lo: "inverse (10 ^ d) \<le> ?a" using b(2) a_pos by (simp add: field_simps)
    have hi: "?a < inverse (10 ^ (d - 1))" using b(1) a_pos by (simp add: field_simps)
    have adj: "adjusted x = - int d" using False by (simp add: adjusted_def d_def n_def)
    have adj1: "adjusted x + 1 = - int (d - 1)" unfolding adj using d by simp
    show ?thesis using lo hi unfolding adj1 unfolding adj
      by (simp only: power_int_minus power_int_of_nat simp_thms)
  qed
  then show "10 powi adjusted x \<le> ?a" and "?a < 10 powi (adjusted x + 1)" by simp_all
qed

lemma powi10_less_cancel: "(10::rat) powi i < 10 powi j \<Longrightarrow> i < j"
  by (meson linorder_not_le one_le_numeral power_int_increasing)

lemma adjusted_unique:
  assumes "10 powi e \<le> \<bar>x\<bar>" and "\<bar>x\<bar> < 10 powi (e + 1)"
  shows "adjusted x = e"
proof -
  have "0 < (10::rat) powi e" by simp
  with assms(1) have "0 < \<bar>x\<bar>" by linarith
  then have "x \<noteq> 0" by simp
  note b = adjusted_bounds [OF this]
  have "10 powi e < (10::rat) powi (adjusted x + 1)" using assms b by linarith
  then have "e < adjusted x + 1" by (rule powi10_less_cancel)
  moreover have "10 powi adjusted x < (10::rat) powi (e + 1)" using assms b by linarith
  then have "adjusted x < e + 1" by (rule powi10_less_cancel)
  ultimately show ?thesis by simp
qed

lemma adjusted_mono:
  assumes "x \<noteq> 0" and "\<bar>x\<bar> \<le> \<bar>y\<bar>"
  shows "adjusted x \<le> adjusted y"
proof -
  have "y \<noteq> 0" using assms by auto
  have "10 powi adjusted x < (10::rat) powi (adjusted y + 1)"
    using adjusted_bounds [OF assms(1)] adjusted_bounds [OF \<open>y \<noteq> 0\<close>] assms(2) by linarith
  then have "adjusted x < adjusted y + 1" by (rule powi10_less_cancel)
  then show ?thesis by simp
qed

section \<open>Rounding half to even\<close>

definition round_half_even :: "rat \<Rightarrow> int" where
  "round_half_even y =
     (let n = \<lfloor>y\<rfloor>; f = y - of_int n
      in if f < 1 / 2 then n else if 1 / 2 < f then n + 1 else if even n then n else n + 1)"

lemma round_half_even_of_int [simp]: "round_half_even (of_int n) = n"
  by (simp add: round_half_even_def)

lemma round_half_even_0 [simp]: "round_half_even 0 = 0"
  using round_half_even_of_int [of 0] by simp

lemma round_half_even_error: "\<bar>of_int (round_half_even y) - y\<bar> \<le> 1 / 2"
proof -
  obtain n where n: "\<lfloor>y\<rfloor> = n" "of_int n \<le> y" "y < of_int n + 1"
    using floor_correct [of y] by (intro that [of "\<lfloor>y\<rfloor>"]) simp_all
  then show ?thesis by (auto simp: round_half_even_def Let_def abs_le_iff)
qed

lemma round_half_even_mono:
  assumes "x \<le> y"
  shows "round_half_even x \<le> round_half_even y"
proof (cases "\<lfloor>x\<rfloor> = \<lfloor>y\<rfloor>")
  case True
  with assms show ?thesis by (auto simp: round_half_even_def Let_def)
next
  case False
  with assms have "\<lfloor>x\<rfloor> + 1 \<le> \<lfloor>y\<rfloor>" using floor_mono [OF assms] by linarith
  moreover have "round_half_even x \<le> \<lfloor>x\<rfloor> + 1" "\<lfloor>y\<rfloor> \<le> round_half_even y"
    by (auto simp: round_half_even_def Let_def)
  ultimately show ?thesis by linarith
qed

lemma round_half_even_minus [simp]: "round_half_even (- y) = - round_half_even y"
proof (cases "y = of_int \<lfloor>y\<rfloor>")
  case True
  then show ?thesis by (metis of_int_minus round_half_even_of_int)
next
  case False
  then have fr: "of_int \<lfloor>y\<rfloor> < y" using of_int_floor_le [of y] by linarith
  then have fl: "\<lfloor>- y\<rfloor> = - \<lfloor>y\<rfloor> - 1"
    by (intro floor_unique) (use floor_correct [of y] in auto)
  define n where "n = \<lfloor>y\<rfloor>"
  show ?thesis unfolding round_half_even_def Let_def fl n_def [symmetric]
    by (auto simp: field_simps)
qed

section \<open>The context: every result has at most 38 digits\<close>

definition ulp :: "rat \<Rightarrow> rat" where
  "ulp x = 10 powi (adjusted x - (int DECIMAL_PRECISION - 1))"

definition context_round :: "rat \<Rightarrow> rat" where
  "context_round x = (if x = 0 then 0 else of_int (round_half_even (x / ulp x)) * ulp x)"

definition representable :: "rat \<Rightarrow> bool" where
  "representable x \<longleftrightarrow> (\<exists>c e. x = of_int c * 10 powi e \<and> \<bar>c\<bar> < 10 ^ DECIMAL_PRECISION)"

lemma ulp_pos [simp]: "0 < ulp x"
  by (simp add: ulp_def)

lemma ulp_nonzero [simp]: "ulp x \<noteq> 0"
  using ulp_pos [of x] by linarith

lemma ulp_abs [simp]: "\<bar>ulp x\<bar> = ulp x"
  by (simp add: less_imp_le)

lemma ulp_minus [simp]: "ulp (- x) = ulp x"
  by (simp add: ulp_def adjusted_def)

lemma ulp_powi: "10 powi j * ulp x = 10 powi (adjusted x + (j - 37))"
proof -
  have "10 powi (j + (adjusted x - 37)) = (10::rat) powi j * 10 powi (adjusted x - 37)"
    by (rule power_int_add) simp
  then show ?thesis by (simp add: ulp_def DECIMAL_PRECISION_def algebra_simps)
qed

lemma ulp_scaled: "10 ^ 37 * ulp x = 10 powi adjusted x" "10 ^ 38 * ulp x = 10 powi (adjusted x + 1)"
  using ulp_powi [of 37 x] ulp_powi [of 38 x] by (simp_all only: power_int_numeral) simp_all

lemma ulp_coefficient:
  assumes "x \<noteq> 0"
  shows "10 ^ 37 \<le> \<bar>x\<bar> / ulp x" and "\<bar>x\<bar> / ulp x < 10 ^ 38"
  using adjusted_bounds [OF assms] unfolding ulp_scaled [symmetric]
  by (simp_all only: pos_le_divide_eq pos_divide_less_eq ulp_pos)

lemma context_round_minus: "context_round (- x) = - context_round x"
  by (simp add: context_round_def)

lemma context_round_pos_bounds:
  assumes "0 < x"
  shows "10 powi adjusted x \<le> context_round x" and "context_round x \<le> 10 powi (adjusted x + 1)"
proof -
  have x: "x \<noteq> 0" "\<bar>x\<bar> = x" using assms by auto
  let ?r = "round_half_even (x / ulp x)"
  have "round_half_even (of_int (10 ^ 37)) \<le> ?r" "?r \<le> round_half_even (of_int (10 ^ 38))"
    using ulp_coefficient [OF x(1)] x(2)
    by (auto intro!: round_half_even_mono simp del: round_half_even_of_int)
  then have "10 ^ 37 \<le> ?r" "?r \<le> 10 ^ 38" by (simp_all only: round_half_even_of_int)
  then have "of_int (10 ^ 37) \<le> (of_int ?r :: rat)" "(of_int ?r :: rat) \<le> of_int (10 ^ 38)"
    by (simp_all only: of_int_le_iff)
  then have "10 ^ 37 * ulp x \<le> of_int ?r * ulp x" "of_int ?r * ulp x \<le> 10 ^ 38 * ulp x"
    by (simp_all add: mult_right_mono)
  then show "10 powi adjusted x \<le> context_round x" "context_round x \<le> 10 powi (adjusted x + 1)"
    using x(1) by (simp_all only: context_round_def ulp_scaled if_False)
qed

lemma context_round_0 [simp]: "context_round 0 = 0"
  by (simp add: context_round_def)

lemma context_round_mono_pos:
  assumes "0 < x" and "x \<le> y"
  shows "context_round x \<le> context_round y"
proof (cases "adjusted x = adjusted y")
  case True
  then have u: "ulp x = ulp y" by (simp add: ulp_def)
  have "round_half_even (x / ulp y) \<le> round_half_even (y / ulp y)"
    using assms by (intro round_half_even_mono divide_right_mono) (simp_all add: less_imp_le)
  then show ?thesis using assms u
    by (simp add: context_round_def mult_right_mono less_imp_le)
next
  case False
  moreover have "adjusted x \<le> adjusted y" using assms by (intro adjusted_mono) auto
  ultimately have "(10::rat) powi (adjusted x + 1) \<le> 10 powi adjusted y"
    by (intro power_int_increasing) auto
  moreover have "0 < y" using assms by linarith
  ultimately show ?thesis
    using context_round_pos_bounds [OF assms(1)] context_round_pos_bounds [of y] by linarith
qed

lemma context_round_pos: "0 < x \<Longrightarrow> 0 < context_round x"
proof -
  assume "0 < x"
  then have "10 powi adjusted x \<le> context_round x" by (rule context_round_pos_bounds)
  moreover have "0 < (10::rat) powi adjusted x" by simp
  ultimately show ?thesis by linarith
qed

lemma context_round_mono: "x \<le> y \<Longrightarrow> context_round x \<le> context_round y"
proof -
  assume le: "x \<le> y"
  consider "0 < x" | "x \<le> 0" "0 \<le> y" | "y < 0" by linarith
  then show ?thesis
  proof cases
    case 1
    then show ?thesis using le by (rule context_round_mono_pos)
  next
    case 2
    have "context_round x \<le> 0"
      using context_round_pos [of "- x"] 2 context_round_minus [of x]
      by (cases "x = 0") auto
    moreover have "0 \<le> context_round y"
      using context_round_pos [of y] 2 by (cases "y = 0") auto
    ultimately show ?thesis by linarith
  next
    case 3
    then have "context_round (- y) \<le> context_round (- x)"
      using le by (intro context_round_mono_pos) auto
    then show ?thesis by (simp add: context_round_minus)
  qed
qed

text \<open>A number of at most 38 digits passes through the context unchanged.\<close>

lemma context_round_representable:
  assumes "representable x"
  shows "context_round x = x"
proof (cases "x = 0")
  case True
  then show ?thesis by simp
next
  case False
  from assms obtain c e where x: "x = of_int c * 10 powi e" and c: "\<bar>c\<bar> < 10 ^ 38"
    by (auto simp: representable_def DECIMAL_PRECISION_def)
  have "\<bar>x\<bar> = of_int \<bar>c\<bar> * 10 powi e" using x by (simp add: abs_mult)
  also have "\<dots> < of_int (10 ^ 38) * 10 powi e"
    by (intro mult_strict_right_mono) (simp_all only: of_int_less_iff c, simp)
  also have "\<dots> = 10 powi (38 + e)" by (simp add: power_int_add)
  finally have "10 powi adjusted x < (10::rat) powi (38 + e)"
    using adjusted_bounds(1) [OF False] by linarith
  then have "adjusted x < 38 + e" by (rule powi10_less_cancel)
  then have k: "adjusted x - 37 \<le> e" by simp
  define a where "a = adjusted x - 37"
  define k where "k = nat (e - a)"
  have e: "e = a + int k" using k by (simp add: k_def a_def)
  have u: "ulp x = 10 powi a" by (simp add: ulp_def DECIMAL_PRECISION_def a_def)
  have "of_int (c * 10 ^ k) * (10::rat) powi a = of_int c * 10 powi (a + int k)"
    by (simp add: power_int_add)
  then have "of_int (c * 10 ^ k) * ulp x = of_int c * 10 powi (a + int k)" by (simp only: u)
  also have "\<dots> = x" by (simp only: x e)
  finally have eq: "of_int (c * 10 ^ k) * ulp x = x" .
  have "x / ulp x = of_int (c * 10 ^ k)" by (rule eq_divide_imp [OF ulp_nonzero eq, symmetric])
  then have "context_round x = of_int (c * 10 ^ k) * ulp x"
    using False by (simp only: context_round_def round_half_even_of_int if_False)
  from this eq show ?thesis by (rule trans)
qed

lemma representable_0 [simp]: "representable 0"
  by (auto simp: representable_def DECIMAL_PRECISION_def intro!: exI [of _ 0])

lemma representable_powi: "representable (10 powi e)"
  unfolding representable_def by (rule exI [of _ 1], rule exI [of _ e])
    (simp add: DECIMAL_PRECISION_def)

lemma representable_of_int: "\<bar>n\<bar> < 10 ^ 38 \<Longrightarrow> representable (of_int n)"
  unfolding representable_def by (rule exI [of _ n], rule exI [of _ 0])
    (simp add: DECIMAL_PRECISION_def)

lemma representable_minus: "representable (- x) \<longleftrightarrow> representable x"
proof -
  have "representable (- x)" if "representable x" for x
  proof -
    from that obtain c e where "x = of_int c * 10 powi e" "\<bar>c\<bar> < 10 ^ DECIMAL_PRECISION"
      by (auto simp: representable_def)
    then show ?thesis unfolding representable_def
      by (intro exI [of _ "- c"] exI [of _ e]) simp
  qed
  from this [of x] this [of "- x"] show ?thesis by auto
qed

lemma representable_abs: "representable x \<Longrightarrow> representable \<bar>x\<bar>"
  by (simp add: abs_if representable_minus)

lemma context_round_fits: "representable (context_round x)"
proof (cases "x = 0")
  case True
  then show ?thesis by simp
next
  case False
  let ?r = "round_half_even (x / ulp x)"
  have abs_r: "\<bar>?r\<bar> \<le> 10 ^ 38"
  proof -
    have "\<bar>x / ulp x\<bar> < 10 ^ 38" using ulp_coefficient(2) [OF False] by (simp add: abs_divide)
    then have "\<bar>x / ulp x\<bar> < of_int (10 ^ 38)" by simp
    then have lo: "- of_int (10 ^ 38) \<le> x / ulp x" and hi: "x / ulp x \<le> of_int (10 ^ 38)"
      by linarith+
    note round_half_even_mono [OF lo] round_half_even_mono [OF hi]
    then show ?thesis unfolding round_half_even_minus round_half_even_of_int by linarith
  qed
  have u: "ulp x = 10 powi (adjusted x - 37)" by (simp add: ulp_def DECIMAL_PRECISION_def)
  have cr: "context_round x = of_int ?r * ulp x" using False by (simp add: context_round_def)
  show ?thesis
  proof (cases "\<bar>?r\<bar> = 10 ^ 38")
    case True
    then have "\<bar>context_round x\<bar> = of_int (10 ^ 38) * ulp x"
      unfolding cr abs_mult by (simp only: abs_of_pos [OF ulp_pos] of_int_abs [symmetric])
    also have "\<dots> = 10 powi (adjusted x + 1)" using ulp_scaled(2) [of x] by simp
    finally have "\<bar>context_round x\<bar> = 10 powi (adjusted x + 1)" .
    then have "representable \<bar>context_round x\<bar>" by (simp only: representable_powi)
    then show ?thesis by (simp add: abs_if representable_minus split: if_splits)
  next
    case False
    then have "\<bar>?r\<bar> < 10 ^ DECIMAL_PRECISION" using abs_r unfolding DECIMAL_PRECISION_def by linarith
    then show ?thesis unfolding representable_def cr u by blast
  qed
qed

lemma context_round_idem: "context_round (context_round x) = context_round x"
  by (rule context_round_representable [OF context_round_fits])

lemma context_round_error: "\<bar>context_round x - x\<bar> \<le> ulp x / 2"
proof (cases "x = 0")
  case True
  then show ?thesis by (simp add: less_imp_le)
next
  case False
  have "context_round x - x = (of_int (round_half_even (x / ulp x)) - x / ulp x) * ulp x"
    using False by (simp add: context_round_def algebra_simps)
  then have "\<bar>context_round x - x\<bar> = \<bar>of_int (round_half_even (x / ulp x)) - x / ulp x\<bar> * ulp x"
    by (simp add: abs_mult)
  also have "\<dots> \<le> 1 / 2 * ulp x" by (intro mult_right_mono round_half_even_error) (simp add: less_imp_le)
  finally show ?thesis by simp
qed

section \<open>The interface the components rely on\<close>

locale rounding =
  fixes rnd :: "rat \<Rightarrow> rat"
  assumes rnd_mono: "x \<le> y \<Longrightarrow> rnd x \<le> rnd y"
    and rnd_minus: "rnd (- x) = - rnd x"
    and rnd_idem: "rnd (rnd x) = rnd x"
    and rnd_positive: "0 < x \<Longrightarrow> 0 < rnd x"
    and rnd_one: "rnd 1 = 1"
begin

lemma rnd_zero [simp]: "rnd 0 = 0"
  using rnd_minus [of 0] by simp

lemma rnd_negative: "x < 0 \<Longrightarrow> rnd x < 0"
  using rnd_positive [of "- x"] rnd_minus [of x] by simp

lemma rnd_pos_iff [simp]: "0 < rnd x \<longleftrightarrow> 0 < x"
  by (metis linorder_neqE_linordered_idom order_less_asym rnd_negative rnd_positive rnd_zero)

lemma rnd_neg_iff [simp]: "rnd x < 0 \<longleftrightarrow> x < 0"
  by (metis linorder_neqE_linordered_idom order_less_asym rnd_negative rnd_positive rnd_zero)

lemma rnd_nonneg_iff [simp]: "0 \<le> rnd x \<longleftrightarrow> 0 \<le> x"
  using rnd_neg_iff [of x] by (simp only: not_less [symmetric])

lemma rnd_nonpos_iff [simp]: "rnd x \<le> 0 \<longleftrightarrow> x \<le> 0"
  using rnd_pos_iff [of x] by (simp only: not_less [symmetric])

lemma rnd_eq_0_iff [simp]: "rnd x = 0 \<longleftrightarrow> x = 0"
  by (metis order_antisym_conv order_refl rnd_nonneg_iff rnd_nonpos_iff)

lemma rnd_abs: "rnd \<bar>x\<bar> = \<bar>rnd x\<bar>"
  by (simp add: abs_if rnd_minus)

text \<open>A bound that is itself in the context survives the rounding.\<close>

lemma rnd_le_fixed: "x \<le> y \<Longrightarrow> rnd y = y \<Longrightarrow> rnd x \<le> y"
  using rnd_mono [of x y] by simp

lemma rnd_ge_fixed: "y \<le> x \<Longrightarrow> rnd y = y \<Longrightarrow> y \<le> rnd x"
  using rnd_mono [of y x] by simp

lemma rnd_le_one: "x \<le> 1 \<Longrightarrow> rnd x \<le> 1"
  by (rule rnd_le_fixed [OF _ rnd_one])

lemma rnd_ge_one: "1 \<le> x \<Longrightarrow> 1 \<le> rnd x"
  by (rule rnd_ge_fixed [OF _ rnd_one])

end

lemma context_round_one: "context_round 1 = 1"
  using context_round_representable [OF representable_of_int [of 1]] by simp

interpretation ctx: rounding context_round
  by unfold_locales
    (simp_all add: context_round_mono context_round_minus context_round_idem context_round_pos
      context_round_one)

section \<open>Decimal arithmetic\<close>

definition dadd :: "rat \<Rightarrow> rat \<Rightarrow> rat" where
  "dadd x y = context_round (x + y)"

definition dsub :: "rat \<Rightarrow> rat \<Rightarrow> rat" where
  "dsub x y = context_round (x - y)"

definition dmul :: "rat \<Rightarrow> rat \<Rightarrow> rat" where
  "dmul x y = context_round (x * y)"

definition ddiv :: "rat \<Rightarrow> rat \<Rightarrow> rat result" where
  "ddiv x y =
     (if y = 0 then if x = 0 then Inl (InvalidOperation ''0/0'') else Inl DivisionByZero
      else Inr (context_round (x / y)))"

text \<open>\<open>abs\<close> and unary minus apply the context to their operand.\<close>

definition dabs :: "rat \<Rightarrow> rat" where
  "dabs x = context_round \<bar>x\<bar>"

definition dneg :: "rat \<Rightarrow> rat" where
  "dneg x = context_round (- x)"

text \<open>\<open>sum(..., start=Decimal(0))\<close>: a left fold of the rounded addition.\<close>

definition dsum :: "rat list \<Rightarrow> rat" where
  "dsum xs = foldl dadd 0 xs"

text \<open>
  \<open>Decimal.quantize(Decimal(1), rounding)\<close>: round to an integer; a result of more than 38
  digits raises InvalidOperation.
\<close>

datatype rounding_mode = ROUND_DOWN | ROUND_UP

fun round_to_int :: "rounding_mode \<Rightarrow> rat \<Rightarrow> int" where
  "round_to_int ROUND_DOWN y = (if 0 \<le> y then \<lfloor>y\<rfloor> else - \<lfloor>- y\<rfloor>)"
| "round_to_int ROUND_UP y = (if 0 \<le> y then \<lceil>y\<rceil> else - \<lceil>- y\<rceil>)"

definition quantize_one :: "rounding_mode \<Rightarrow> rat \<Rightarrow> rat result" where
  "quantize_one m y =
     (let n = round_to_int m y
      in if 10 ^ DECIMAL_PRECISION \<le> \<bar>n\<bar> then Inl (InvalidOperation ''quantize'')
         else Inr (of_int n))"

lemmas decimal_ops = dadd_def dsub_def dmul_def dabs_def dneg_def

lemma dadd_pos [rounding_simps]: "0 < x + y \<Longrightarrow> 0 < dadd x y"
  by (simp add: dadd_def)

lemma dadd_nonneg [rounding_simps]: "0 \<le> x \<Longrightarrow> 0 \<le> y \<Longrightarrow> 0 \<le> dadd x y"
  by (simp add: dadd_def)

lemma dmul_nonneg [rounding_simps]: "0 \<le> x \<Longrightarrow> 0 \<le> y \<Longrightarrow> 0 \<le> dmul x y"
  by (simp add: dmul_def)

lemma dmul_pos [rounding_simps]: "0 < x \<Longrightarrow> 0 < y \<Longrightarrow> 0 < dmul x y"
  by (simp add: dmul_def)

lemma dabs_nonneg [rounding_simps]: "0 \<le> dabs x"
  by (simp add: dabs_def)

lemma dabs_eq_0 [rounding_simps]: "dabs x = 0 \<longleftrightarrow> x = 0"
  by (simp add: dabs_def)

lemma dadd_eq_0 [rounding_simps]: "dadd x y = 0 \<longleftrightarrow> x + y = 0"
  by (simp add: dadd_def)

lemma dadd_0 [rounding_simps]: "context_round x = x \<Longrightarrow> dadd 0 x = x" "context_round x = x \<Longrightarrow> dadd x 0 = x"
  by (simp_all add: dadd_def)

section \<open>Exact values: the NUMERIC(38, 18) lattice\<close>

text \<open>
  \<open>DECIMAL_PRECISION\<close> is chosen so that every value of the database's NUMERIC(38, 18)
  columns is in the context. A number on the lattice of multiples of 10^-18 below 10^20
  is not rounded, so sums and differences of such values are exact while they stay below
  that bound.
\<close>

definition on_lattice :: "rat \<Rightarrow> bool" where
  "on_lattice x \<longleftrightarrow> of_int \<lfloor>x * 10 ^ 18\<rfloor> = x * 10 ^ 18"

definition numeric_38_18 :: "rat \<Rightarrow> bool" where
  "numeric_38_18 x \<longleftrightarrow> on_lattice x \<and> \<bar>x\<bar> < 10 ^ 20"

lemma on_latticeE:
  assumes "on_lattice x"
  obtains n where "x = of_int n / 10 ^ 18"
proof
  show "x = of_int \<lfloor>x * 10 ^ 18\<rfloor> / 10 ^ 18"
    unfolding assms [unfolded on_lattice_def] by simp
qed

lemma on_latticeI: "x * 10 ^ 18 = of_int n \<Longrightarrow> on_lattice x"
  unfolding on_lattice_def by (metis floor_of_int)

lemma on_lattice_of_int [simp, intro]: "on_lattice (of_int n)"
  by (rule on_latticeI [of _ "n * 10 ^ 18"]) simp

lemma on_lattice_0 [simp]: "on_lattice 0"
  using on_lattice_of_int [of 0] by simp

lemma on_lattice_add [intro]: "on_lattice x \<Longrightarrow> on_lattice y \<Longrightarrow> on_lattice (x + y)"
proof (elim on_latticeE)
  fix n m assume "x = of_int n / 10 ^ 18" "y = of_int m / 10 ^ 18"
  then show "on_lattice (x + y)" by (intro on_latticeI [of _ "n + m"]) (simp add: field_simps)
qed

lemma on_lattice_minus [simp]: "on_lattice (- x) \<longleftrightarrow> on_lattice x"
proof -
  have "on_lattice (- x)" if "on_lattice x" for x
  proof -
    from that obtain n where "x = of_int n / 10 ^ 18" by (rule on_latticeE)
    then show ?thesis by (intro on_latticeI [of _ "- n"]) simp
  qed
  from this [of x] this [of "- x"] show ?thesis by auto
qed

lemma on_lattice_diff [intro]: "on_lattice x \<Longrightarrow> on_lattice y \<Longrightarrow> on_lattice (x - y)"
  using on_lattice_add [of x "- y"] by simp

lemma on_lattice_mult_int [intro]: "on_lattice x \<Longrightarrow> on_lattice (of_int k * x)"
proof (elim on_latticeE)
  fix n assume "x = of_int n / 10 ^ 18"
  then show "on_lattice (of_int k * x)" by (intro on_latticeI [of _ "k * n"]) (simp add: field_simps)
qed

lemma on_lattice_abs [intro]: "on_lattice x \<Longrightarrow> on_lattice \<bar>x\<bar>"
  by (simp add: abs_if)

lemma on_lattice_sum_list [intro]: "(\<And>x. x \<in> set xs \<Longrightarrow> on_lattice x) \<Longrightarrow> on_lattice (sum_list xs)"
  by (induction xs) auto

lemma lattice_representable:
  assumes "on_lattice x" and "\<bar>x\<bar> < 10 ^ 20"
  shows "representable x"
proof -
  from assms(1) obtain n where x: "x = of_int n / 10 ^ 18" by (rule on_latticeE)
  have "\<bar>x\<bar> = of_int \<bar>n\<bar> / 10 ^ 18" unfolding x by simp
  with assms(2) have "of_int \<bar>n\<bar> < 10 ^ 20 * (10 ^ 18 :: rat)" by (simp only: pos_divide_less_eq zero_less_power zero_less_numeral)
  also have "\<dots> = of_int (10 ^ 38)" by simp
  finally have "of_int \<bar>n\<bar> < (of_int (10 ^ 38) :: rat)" .
  then have n: "\<bar>n\<bar> < 10 ^ 38" by (simp only: of_int_less_iff)
  have "x = of_int n * inverse (10 ^ 18)" unfolding x by (rule divide_inverse)
  also have "inverse (10 ^ 18) = (10::rat) powi (- 18)" by (simp only: power_int_minus power_int_numeral)
  finally have "x = of_int n * 10 powi (- 18)" .
  with n show ?thesis unfolding representable_def DECIMAL_PRECISION_def by (intro exI conjI)
qed

lemma lattice_exact [rounding_simps]:
  "on_lattice x \<Longrightarrow> \<bar>x\<bar> < 10 ^ 20 \<Longrightarrow> context_round x = x"
  by (intro context_round_representable lattice_representable)

lemma numeric_exact: "numeric_38_18 x \<Longrightarrow> context_round x = x"
  by (simp add: numeric_38_18_def lattice_exact)

text \<open>A left fold of the rounded addition is the exact sum while its magnitude is bounded.\<close>

lemma foldl_dadd_exact:
  assumes "on_lattice a" and "\<And>x. x \<in> set xs \<Longrightarrow> on_lattice x"
    and "\<bar>a\<bar> + (\<Sum>x\<leftarrow>xs. \<bar>x\<bar>) < 10 ^ 20"
  shows "foldl dadd a xs = a + sum_list xs"
  using assms
proof (induction xs arbitrary: a)
  case Nil
  then show ?case by simp
next
  case (Cons x xs)
  have nonneg: "0 \<le> (\<Sum>x\<leftarrow>xs. \<bar>x\<bar>)" by (intro sum_list_nonneg) auto
  have lattice: "on_lattice (a + x)" using Cons.prems by auto
  have "\<bar>a + x\<bar> < 10 ^ 20" using Cons.prems(3) nonneg by simp
  then have step: "dadd a x = a + x" using lattice by (simp add: dadd_def lattice_exact)
  have "foldl dadd (a + x) xs = (a + x) + sum_list xs"
  proof (rule Cons.IH [OF lattice])
    show "\<And>y. y \<in> set xs \<Longrightarrow> on_lattice y" using Cons.prems(2) by simp
    show "\<bar>a + x\<bar> + (\<Sum>x\<leftarrow>xs. \<bar>x\<bar>) < 10 ^ 20" using Cons.prems(3) by simp
  qed
  then show ?case using step by simp
qed

lemma dsum_exact:
  assumes "\<And>x. x \<in> set xs \<Longrightarrow> on_lattice x" and "(\<Sum>x\<leftarrow>xs. \<bar>x\<bar>) < 10 ^ 20"
  shows "dsum xs = sum_list xs"
  using foldl_dadd_exact [of 0 xs] assms by (simp add: dsum_def)

end
