(* ===== verification/Guards.thy ===== *)
theory Guards
  imports Decimals
begin

text \<open>
  The construction-time validators of \<open>src/fking/domain/_guards.py\<close>. The engine
  (\<open>src/fking/backtest/_guards.py\<close>), the kill switch and the drawdown limits carry
  copies of four of them that differ in the exception they raise, so the shared ones
  take the exception class as their first argument. A guard looks at an object that
  nothing has checked and returns the checked value or raises; it never coerces.
\<close>

section \<open>The guards that several packages copy\<close>

definition utc_guard :: "(string \<Rightarrow> exn) \<Rightarrow> pyobj \<Rightarrow> string \<Rightarrow> int result" where
  "utc_guard E candidate field =
     (case candidate of
        PyDatetime t None \<Rightarrow> Inl (E (field @ '' naive''))
      | PyDatetime t (Some offset) \<Rightarrow>
          if offset \<noteq> 0 then Inl (E (field @ '' offset'')) else Inr t
      | _ \<Rightarrow> Inl (E (field @ '' type'')))"

definition decimal_guard :: "(string \<Rightarrow> exn) \<Rightarrow> pyobj \<Rightarrow> string \<Rightarrow> rat result" where
  "decimal_guard E candidate field =
     (case candidate of
        PyFloat _ \<Rightarrow> Inl (E (field @ '' float''))
      | PyDecimal (Finite x) \<Rightarrow> Inr x
      | PyDecimal _ \<Rightarrow> Inl (E (field @ '' not finite''))
      | _ \<Rightarrow> Inl (E (field @ '' type'')))"

definition text_guard :: "(string \<Rightarrow> exn) \<Rightarrow> pyobj \<Rightarrow> string \<Rightarrow> string result" where
  "text_guard E candidate field =
     (case candidate of
        PyStr s \<Rightarrow> if strip s = [] then Inl (E (field @ '' blank'')) else Inr s
      | _ \<Rightarrow> Inl (E (field @ '' type'')))"

definition uuid_guard :: "(string \<Rightarrow> exn) \<Rightarrow> pyobj \<Rightarrow> string \<Rightarrow> nat result" where
  "uuid_guard E candidate field =
     (case candidate of PyUUID u \<Rightarrow> Inr u | _ \<Rightarrow> Inl (E (field @ '' type'')))"

section \<open>The domain's guards\<close>

definition require_utc :: "pyobj \<Rightarrow> string \<Rightarrow> int result" where
  "require_utc = utc_guard DomainError"

definition require_decimal :: "pyobj \<Rightarrow> string \<Rightarrow> rat result" where
  "require_decimal = decimal_guard DomainError"

definition require_positive_decimal :: "pyobj \<Rightarrow> string \<Rightarrow> rat result" where
  "require_positive_decimal candidate field =
     and_then (require_decimal candidate field) (\<lambda>quantity.
       if quantity \<le> 0 then Inl (DomainError (field @ '' not positive'')) else Inr quantity)"

definition require_non_negative_decimal :: "pyobj \<Rightarrow> string \<Rightarrow> rat result" where
  "require_non_negative_decimal candidate field =
     and_then (require_decimal candidate field) (\<lambda>quantity.
       if quantity < 0 then Inl (DomainError (field @ '' negative'')) else Inr quantity)"

definition require_fraction :: "pyobj \<Rightarrow> string \<Rightarrow> rat result" where
  "require_fraction candidate field =
     and_then (require_decimal candidate field) (\<lambda>fraction.
       if \<not> (0 \<le> fraction \<and> fraction \<le> 1) then Inl (DomainError (field @ '' not in [0, 1]''))
       else Inr fraction)"

definition require_positive_duration :: "pyobj \<Rightarrow> string \<Rightarrow> int result" where
  "require_positive_duration candidate field =
     (case candidate of
        PyTimedelta d \<Rightarrow>
          if d \<le> 0 then Inl (DomainError (field @ '' not positive'')) else Inr d
      | _ \<Rightarrow> Inl (DomainError (field @ '' type'')))"

definition require_text :: "pyobj \<Rightarrow> string \<Rightarrow> string result" where
  "require_text = text_guard DomainError"

text \<open>
  An asset code is ASCII, alphanumeric and equal to its own upper case. On ASCII text
  \<open>isalnum\<close> is letters and digits, and \<open>upper\<close> changes the lower-case letters only.
\<close>

definition is_ascii :: "char \<Rightarrow> bool" where
  "is_ascii c \<longleftrightarrow> of_char c < (128 :: nat)"

definition is_digit :: "char \<Rightarrow> bool" where
  "is_digit c \<longleftrightarrow> of_char c \<in> {48 .. 57 :: nat}"

definition is_upper :: "char \<Rightarrow> bool" where
  "is_upper c \<longleftrightarrow> of_char c \<in> {65 .. 90 :: nat}"

definition is_lower :: "char \<Rightarrow> bool" where
  "is_lower c \<longleftrightarrow> of_char c \<in> {97 .. 122 :: nat}"

definition is_alnum :: "string \<Rightarrow> bool" where
  "is_alnum s \<longleftrightarrow> s \<noteq> [] \<and> list_all (\<lambda>c. is_digit c \<or> is_upper c \<or> is_lower c) s"

definition upper :: "string \<Rightarrow> string" where
  "upper s = map (\<lambda>c. if is_lower c then char_of (of_char c - 32 :: nat) else c) s"

definition require_asset_code :: "pyobj \<Rightarrow> string \<Rightarrow> string result" where
  "require_asset_code candidate field =
     and_then (require_text candidate field) (\<lambda>code.
       if \<not> list_all is_ascii code \<or> \<not> is_alnum code \<or> code \<noteq> upper code
       then Inl (DomainError (field @ '' asset code'')) else Inr code)"

section \<open>When a guard accepts a value of the type it wants\<close>

text \<open>
  The guards read off on typed values: what is left of each is the comparison it makes.
  A record of the model holds typed values, so these are the facts its post-init hook
  reduces to.
\<close>

lemma utc_guard_utc [simp]: "utc_guard E (utc t) f = Inr t"
  by (simp add: utc_guard_def)

lemma decimal_guard_dec [simp]: "decimal_guard E (dec x) f = Inr x"
  by (simp add: decimal_guard_def)

lemma uuid_guard_uuid [simp]: "uuid_guard E (PyUUID u) f = Inr u"
  by (simp add: uuid_guard_def)

lemma text_guard_str [guard_simps]:
  "text_guard E (PyStr s) f = Inr t \<longleftrightarrow> t = s \<and> strip s \<noteq> []"
  by (auto simp: text_guard_def)

lemma require_utc_utc [simp]: "require_utc (utc t) f = Inr t"
  by (simp add: require_utc_def)

lemma require_decimal_dec [simp]: "require_decimal (dec x) f = Inr x"
  by (simp add: require_decimal_def)

lemma require_positive_decimal_dec [guard_simps]:
  "require_positive_decimal (dec x) f = Inr y \<longleftrightarrow> y = x \<and> 0 < x"
  by (auto simp: require_positive_decimal_def)

lemma require_non_negative_decimal_dec [guard_simps]:
  "require_non_negative_decimal (dec x) f = Inr y \<longleftrightarrow> y = x \<and> 0 \<le> x"
  by (auto simp: require_non_negative_decimal_def)

lemma require_fraction_dec [guard_simps]:
  "require_fraction (dec x) f = Inr y \<longleftrightarrow> y = x \<and> 0 \<le> x \<and> x \<le> 1"
  by (auto simp: require_fraction_def)

lemma require_positive_duration_td [guard_simps]:
  "require_positive_duration (PyTimedelta d) f = Inr e \<longleftrightarrow> e = d \<and> 0 < d"
  by (auto simp: require_positive_duration_def)

lemma require_text_str [guard_simps]:
  "require_text (PyStr s) f = Inr t \<longleftrightarrow> t = s \<and> strip s \<noteq> []"
  by (simp add: require_text_def guard_simps)

section \<open>What a guard accepts, whatever it is given\<close>

text \<open>
  No guard coerces: an accepted object already is the value returned, of the exact type
  asked for. In particular a float, a NaN, an infinity and a datetime that is naive or
  not at offset zero are never accepted.
\<close>

lemma utc_guard_accepts: "utc_guard E c f = Inr t \<longleftrightarrow> c = utc t"
  by (auto simp: utc_guard_def split: pyobj.splits option.splits if_splits)

lemma decimal_guard_accepts: "decimal_guard E c f = Inr x \<longleftrightarrow> c = dec x"
  by (auto simp: decimal_guard_def split: pyobj.splits decval.splits)

lemma uuid_guard_accepts: "uuid_guard E c f = Inr u \<longleftrightarrow> c = PyUUID u"
  by (auto simp: uuid_guard_def split: pyobj.splits)

lemma text_guard_accepts: "text_guard E c f = Inr s \<longleftrightarrow> c = PyStr s \<and> strip s \<noteq> []"
  by (auto simp: text_guard_def split: pyobj.splits if_splits)

lemma require_positive_decimal_accepts:
  "require_positive_decimal c f = Inr x \<longleftrightarrow> c = dec x \<and> 0 < x"
  by (cases c) (auto simp: require_positive_decimal_def require_decimal_def decimal_guard_def
      split: decval.splits)

lemma require_non_negative_decimal_accepts:
  "require_non_negative_decimal c f = Inr x \<longleftrightarrow> c = dec x \<and> 0 \<le> x"
  by (cases c) (auto simp: require_non_negative_decimal_def require_decimal_def decimal_guard_def
      split: decval.splits)

lemma require_fraction_accepts:
  "require_fraction c f = Inr x \<longleftrightarrow> c = dec x \<and> 0 \<le> x \<and> x \<le> 1"
  by (cases c) (auto simp: require_fraction_def require_decimal_def decimal_guard_def
      split: decval.splits)

lemma require_positive_duration_accepts:
  "require_positive_duration c f = Inr d \<longleftrightarrow> c = PyTimedelta d \<and> 0 < d"
  by (auto simp: require_positive_duration_def split: pyobj.splits if_splits)

lemma upper_lower_changes:
  assumes "is_lower c"
  shows "char_of (of_char c - 32 :: nat) \<noteq> c"
proof
  assume "char_of (of_char c - 32 :: nat) = c"
  then have "of_char (char_of (of_char c - 32 :: nat)) = (of_char c :: nat)" by simp
  moreover have "(of_char c - 32 :: nat) < 256" "32 < (of_char c :: nat)"
    using assms by (auto simp: is_lower_def)
  ultimately show False using assms by (auto simp: is_lower_def)
qed

lemma upper_fixed_iff: "s = upper s \<longleftrightarrow> list_all (\<lambda>c. \<not> is_lower c) s"
  by (induction s) (auto simp: upper_def upper_lower_changes [symmetric])

lemma asset_code_chars:
  "list_all is_ascii s \<and> is_alnum s \<and> list_all (\<lambda>c. \<not> is_lower c) s \<longleftrightarrow>
     s \<noteq> [] \<and> list_all (\<lambda>c. is_digit c \<or> is_upper c) s"
  by (auto simp: list_all_iff is_alnum_def is_ascii_def is_digit_def is_upper_def is_lower_def)

text \<open>An accepted asset code consists of ASCII digits and upper-case letters only.\<close>

lemma require_asset_code_accepts:
  "require_asset_code c f = Inr s \<longleftrightarrow>
     c = PyStr s \<and> strip s \<noteq> [] \<and> s \<noteq> [] \<and> list_all (\<lambda>c. is_digit c \<or> is_upper c) s"
proof -
  have "require_asset_code c f = Inr s \<longleftrightarrow>
      c = PyStr s \<and> strip s \<noteq> [] \<and> (list_all is_ascii s \<and> is_alnum s \<and> s = upper s)"
    by (cases c) (auto simp: require_asset_code_def require_text_def text_guard_def)
  then show ?thesis unfolding upper_fixed_iff asset_code_chars .
qed

end
