(* ===== verification/Instruments.thy ===== *)
theory Instruments
  imports Guards
begin

text \<open>
  The closed vocabularies (\<open>src/fking/domain/enums.py\<close>) and the instrument with the
  filters its venue enforces (\<open>src/fking/domain/instrument.py\<close>), down to the snapping of
  quantities and prices onto the venue's lattice under the decimal context.
\<close>

section \<open>Enumerations\<close>

datatype venue = BINANCE_SPOT_TESTNET | BINANCE_FUTURES_TESTNET | BYBIT_TESTNET

fun venue_value :: "venue \<Rightarrow> string" where
  "venue_value BINANCE_SPOT_TESTNET = ''binance-spot-testnet''"
| "venue_value BINANCE_FUTURES_TESTNET = ''binance-futures-testnet''"
| "venue_value BYBIT_TESTNET = ''bybit-testnet''"

datatype direction = LONG | SHORT | FLAT

datatype side = BUY | SELL

fun signed_multiplier :: "side \<Rightarrow> rat" where
  "signed_multiplier BUY = 1"
| "signed_multiplier SELL = - 1"

datatype order_type = MARKET | LIMIT

datatype time_in_force = GTC | IOC | FOK

datatype risk_verdict = APPROVED | REJECTED

section \<open>Snapping onto a lattice\<close>

definition snap :: "rat \<Rightarrow> rat \<Rightarrow> rounding_mode \<Rightarrow> rat result" where
  "snap quantity step mode =
     and_then (ddiv quantity step) (\<lambda>ratio.
     and_then (quantize_one mode ratio) (\<lambda>n. Inr (dmul n step)))"

section \<open>Instruments\<close>

record instrument =
  venue :: venue
  symbol :: string
  base_asset :: string
  quote_asset :: string
  tick_size :: rat
  lot_step :: rat
  min_notional_quote :: rat

definition instrument_post_init :: "instrument \<Rightarrow> unit result" where
  [post_init_defs]: "instrument_post_init i = run_checks
     [void (require_text (PyStr (symbol i)) ''symbol''),
      void (require_asset_code (PyStr (base_asset i)) ''base_asset''),
      void (require_asset_code (PyStr (quote_asset i)) ''quote_asset''),
      void (require_positive_decimal (dec (tick_size i)) ''tick_size''),
      void (require_positive_decimal (dec (lot_step i)) ''lot_step''),
      void (require_positive_decimal (dec (min_notional_quote i)) ''min_notional_quote''),
      ensure (base_asset i \<noteq> quote_asset i) (DomainError ''base asset is quote asset'')]"

definition quantize_base_quantity :: "instrument \<Rightarrow> rat \<Rightarrow> rat result" where
  "quantize_base_quantity i base_quantity = snap base_quantity (lot_step i) ROUND_DOWN"

definition quantize_quote_price :: "instrument \<Rightarrow> rat \<Rightarrow> side \<Rightarrow> rat result" where
  "quantize_quote_price i quote_price side =
     snap quote_price (tick_size i) (if side = BUY then ROUND_DOWN else ROUND_UP)"

definition notional_quote :: "rat \<Rightarrow> rat \<Rightarrow> rat" where
  "notional_quote base_quantity quote_price = dmul base_quantity quote_price"

definition meets_min_notional :: "instrument \<Rightarrow> rat \<Rightarrow> rat \<Rightarrow> bool" where
  "meets_min_notional i base_quantity quote_price \<longleftrightarrow>
     min_notional_quote i \<le> dabs (notional_quote base_quantity quote_price)"

section \<open>What a constructed instrument guarantees\<close>

definition valid_instrument :: "instrument \<Rightarrow> bool" where
  "valid_instrument i \<longleftrightarrow> instrument_post_init i = Inr ()"

lemma valid_instrument_filters:
  assumes "valid_instrument i"
  shows "0 < tick_size i" "0 < lot_step i" "0 < min_notional_quote i"
    "base_asset i \<noteq> quote_asset i"
  using assms by (simp_all add: valid_instrument_def post_init_defs guard_simps)

lemma signed_multiplier_cases:
  "0 < x \<Longrightarrow> 0 < x * signed_multiplier s \<longleftrightarrow> s = BUY"
  "0 < x \<Longrightarrow> x * signed_multiplier s < 0 \<longleftrightarrow> s = SELL"
  "\<bar>x * signed_multiplier s\<bar> = \<bar>x\<bar>"
  by (cases s; simp)+

section \<open>Snapping is exact on the database's lattice\<close>

text \<open>
  The quotient of \<open>snap\<close> is rounded to 38 digits before it is truncated. For values of the
  NUMERIC(38, 18) lattice below 10^18 the rounding error is smaller than the distance of
  the quotient from the next integer, so the truncation is that of the exact quotient, no
  digit limit is hit, and the product is exact.
\<close>

lemma ulp_le_relative:
  assumes "x \<noteq> 0"
  shows "10 ^ 37 * ulp x \<le> \<bar>x\<bar>"
  using adjusted_bounds(1) [OF assms] unfolding ulp_scaled .

lemma quotient_error:
  assumes a: "0 < a" "a < 10 ^ 36" and b: "0 < b"
  shows "\<bar>context_round (of_int a / of_int b) - of_int a / of_int b\<bar> < 1 / (of_int b :: rat)"
proof -
  let ?x = "of_int a / of_int b :: rat"
  have x: "0 < ?x" using a b by simp
  have "?x \<noteq> 0" "\<bar>?x\<bar> = ?x" using x by linarith+
  then have "10 ^ 37 * ulp ?x \<le> ?x" using ulp_le_relative [of ?x] by simp
  then have "10 ^ 37 * ulp ?x * of_int b \<le> of_int a" using b by (simp add: pos_le_divide_eq)
  also have "\<dots> < of_int (10 ^ 36)" using a(2) by (simp only: of_int_less_iff)
  finally have "ulp ?x * of_int b < 1 / 10" by (simp add: mult.commute)
  then have "ulp ?x / 2 < 1 / of_int b" using b by (simp add: field_simps)
  then show ?thesis using context_round_error [of ?x] by linarith
qed

lemma frac_gap:
  fixes a b :: int
  assumes "0 < b"
  shows "of_int a / of_int b + 1 / of_int b \<le> (of_int \<lfloor>of_int a / (of_int b :: rat)\<rfloor> + 1 :: rat)"
    and "of_int \<lceil>of_int a / (of_int b :: rat)\<rceil> - 1 \<le> (of_int a / of_int b - 1 / of_int b :: rat)"
proof -
  have b: "0 < (of_int b :: rat)" using assms by simp
  define k where "k = \<lfloor>of_int a / (of_int b :: rat)\<rfloor>"
  have "of_int a / of_int b < (of_int (k + 1) :: rat)" unfolding k_def using floor_correct by blast
  then have "of_int a < (of_int ((k + 1) * b) :: rat)" using b by (simp add: pos_divide_less_eq)
  then have "a + 1 \<le> (k + 1) * b" by (simp only: of_int_less_iff zless_imp_add1_zle)
  then have "(of_int (a + 1) :: rat) \<le> of_int ((k + 1) * b)" by (simp only: of_int_le_iff)
  then have "(of_int a + 1) / of_int b \<le> (of_int k + 1 :: rat)" using b by (simp add: pos_divide_le_eq)
  then show "of_int a / of_int b + 1 / of_int b \<le> (of_int \<lfloor>of_int a / (of_int b :: rat)\<rfloor> + 1 :: rat)"
    by (simp add: k_def add_divide_distrib)
  define j where "j = \<lceil>of_int a / (of_int b :: rat)\<rceil>"
  have "of_int (j - 1) < of_int a / (of_int b :: rat)" unfolding j_def using ceiling_correct
    by (metis of_int_1 of_int_diff)
  then have "of_int ((j - 1) * b) < (of_int a :: rat)" using b by (simp add: pos_less_divide_eq)
  then have "(j - 1) * b + 1 \<le> a" by (simp only: of_int_less_iff zless_imp_add1_zle)
  then have "(of_int ((j - 1) * b + 1) :: rat) \<le> of_int a" by (simp only: of_int_le_iff)
  then have "(of_int j - 1 :: rat) \<le> (of_int a - 1) / of_int b" using b by (simp add: pos_le_divide_eq)
  then show "of_int \<lceil>of_int a / (of_int b :: rat)\<rceil> - 1 \<le> (of_int a / of_int b - 1 / of_int b :: rat)"
    by (simp add: j_def diff_divide_distrib)
qed

lemma round_to_int_of_quotient:
  assumes a: "0 < a" "a < 10 ^ 36" and b: "0 < b"
  shows "round_to_int m (context_round (of_int a / of_int b)) = round_to_int m (of_int a / of_int b)"
proof -
  let ?x = "of_int a / of_int b :: rat" and ?d = "context_round (of_int a / of_int b)"
  have b': "0 < (of_int b :: rat)" using b by simp
  have x: "0 < ?x" "?x \<le> of_int a"
    using a b by (simp_all add: pos_divide_le_eq mult_le_cancel_left1)
  have d: "0 < ?d" using x(1) by simp
  note err = quotient_error [OF a b] and gap = frac_gap [OF b, of a]
  have small: "context_round (of_int n) = of_int n" if "0 \<le> n" "n \<le> a + 1" for n
    using that a by (intro context_round_representable representable_of_int) simp
  show ?thesis
  proof (cases m)
    case ROUND_DOWN
    define k where "k = \<lfloor>?x\<rfloor>"
    have k: "0 \<le> k" "of_int k \<le> ?x" "k \<le> a"
      using x floor_mono [OF x(2)] unfolding k_def by simp_all
    have "of_int k \<le> ?d" using ctx.rnd_ge_fixed [OF k(2)] small [of k] k by simp
    moreover have "?d < of_int k + 1" using err gap(1) unfolding k_def by linarith
    ultimately have "\<lfloor>?d\<rfloor> = k" by (simp add: floor_unique)
    then show ?thesis using d x(1) ROUND_DOWN by (simp add: k_def)
  next
    case ROUND_UP
    define j where "j = \<lceil>?x\<rceil>"
    have j: "0 \<le> j" "?x \<le> of_int j" "j \<le> a"
      using x ceiling_mono [OF x(2)] unfolding j_def by simp_all
    have "?d \<le> of_int j" using ctx.rnd_le_fixed [OF j(2)] small [of j] j by simp
    moreover have "of_int j - 1 < ?d" using err gap(2) unfolding j_def by linarith
    ultimately have "\<lceil>?d\<rceil> = j" by (simp add: ceiling_unique)
    then show ?thesis using d x(1) ROUND_UP by (simp add: j_def)
  qed
qed

lemma context_round_minus_div:
  "context_round (of_int (- a) / of_int b) = - context_round (of_int a / of_int b)"
  using context_round_minus [of "of_int a / of_int b"] by simp

lemma round_to_int_minus: "round_to_int m (- y) = - round_to_int m y"
  by (cases m; cases "y = 0") auto

declare round_to_int.simps [simp del]

text \<open>A value of the database's lattice below 10^18, as snap and its clients need it.\<close>

definition snappable :: "rat \<Rightarrow> bool" where
  "snappable x \<longleftrightarrow> on_lattice x \<and> \<bar>x\<bar> < 10 ^ 18"

lemma snappable_ratio:
  assumes "snappable q" and "on_lattice s" and "0 < s"
  shows "round_to_int m (context_round (q / s)) = round_to_int m (q / s)"
proof -
  obtain a where q: "q = of_int a / 10 ^ 18"
    using assms(1) by (auto simp: snappable_def elim: on_latticeE)
  obtain b where s: "s = of_int b / 10 ^ 18" using assms(2) by (rule on_latticeE)
  have b: "0 < b" using assms(3) unfolding s by simp
  have ratio: "q / s = of_int a / of_int b" unfolding q s by simp
  have "\<bar>q\<bar> = of_int \<bar>a\<bar> / 10 ^ 18" unfolding q by simp
  then have "of_int \<bar>a\<bar> < 10 ^ 18 * (10 ^ 18 :: rat)"
    using assms(1) by (simp only: snappable_def pos_divide_less_eq zero_less_power zero_less_numeral)
  also have "\<dots> = of_int (10 ^ 36)" by simp
  finally have "(of_int \<bar>a\<bar> :: rat) < of_int (10 ^ 36)" .
  then have a: "\<bar>a\<bar> < 10 ^ 36" by (simp only: of_int_less_iff)
  consider "a = 0" | "0 < a" | "a < 0" by linarith
  then show ?thesis
  proof cases
    case 1
    then show ?thesis by (simp add: ratio)
  next
    case 2
    then show ?thesis unfolding ratio using round_to_int_of_quotient [of a b m] a b by simp
  next
    case 3
    then have "round_to_int m (context_round (of_int (- a) / of_int b)) =
        round_to_int m (of_int (- a) / of_int b)"
      using round_to_int_of_quotient [of "- a" b m] a b by simp
    then show ?thesis unfolding ratio
      by (simp add: context_round_minus_div round_to_int_minus context_round_minus)
  qed
qed

lemma floor_facts:
  fixes y :: rat
  obtains n where "\<lfloor>y\<rfloor> = n" "of_int n \<le> y" "y < of_int n + 1"
  using floor_correct [of y] by (intro that [of "\<lfloor>y\<rfloor>"]) simp_all

lemma ceiling_facts:
  fixes y :: rat
  obtains n where "\<lceil>y\<rceil> = n" "y \<le> of_int n" "of_int n < y + 1"
  using ceiling_correct [of y] by (intro that [of "\<lceil>y\<rceil>"]) simp_all

lemma round_to_int_down_nonneg:
  assumes "0 \<le> y"
  shows "0 \<le> round_to_int ROUND_DOWN y" "of_int (round_to_int ROUND_DOWN y) \<le> y"
    "y < of_int (round_to_int ROUND_DOWN y) + 1"
  using assms by (rule_tac [!] floor_facts [of y]) (auto simp: round_to_int.simps)

lemma round_to_int_up_nonneg:
  assumes "0 \<le> y"
  shows "y \<le> of_int (round_to_int ROUND_UP y)" "of_int (round_to_int ROUND_UP y) < y + 1"
  using assms by (rule_tac [!] ceiling_facts [of y]) (auto simp: round_to_int.simps)

lemma round_to_int_near: "\<bar>of_int (round_to_int m y) - y\<bar> < 1"
proof -
  have "\<bar>of_int (round_to_int m y) - y\<bar> < 1" if "0 \<le> y" for y
    using round_to_int_down_nonneg [OF that] round_to_int_up_nonneg [OF that]
    by (cases m; simp only: abs_less_iff) linarith+
  from this [of y] this [of "- y"] show ?thesis
    by (cases "0 \<le> y") (simp_all only: round_to_int_minus of_int_minus abs_less_iff, linarith+)
qed

lemma round_to_int_of_int [simp]: "round_to_int m (of_int k) = k"
proof -
  have "\<bar>of_int (round_to_int m (of_int k) - k)\<bar> < (1::rat)"
    using round_to_int_near [of m "of_int k"] by simp
  then show ?thesis by linarith
qed

lemma round_to_int_0 [simp]: "round_to_int m 0 = 0"
  using round_to_int_of_int [of m 0] by simp

lemma snap_exact:
  assumes q: "snappable q" and s: "snappable s" "0 < s"
  shows "snap q s m = Inr (of_int (round_to_int m (q / s)) * s)"
proof -
  let ?n = "round_to_int m (q / s)"
  have lat: "on_lattice s" using s(1) by (simp add: snappable_def)
  have near: "\<bar>of_int ?n * s - q\<bar> < s"
  proof -
    have "\<bar>of_int ?n * s - q\<bar> = \<bar>of_int ?n - q / s\<bar> * s"
    proof -
      have "of_int ?n * s - q = (of_int ?n - q / s) * s" using s(2) by (simp add: algebra_simps)
      then show ?thesis using s(2) by (simp add: abs_mult)
    qed
    also have "\<dots> < 1 * s" using round_to_int_near [of m "q / s"] s(2) by (intro mult_strict_right_mono)
    finally show ?thesis by simp
  qed
  then have bound: "\<bar>of_int ?n * s\<bar> < 10 ^ 20"
  proof -
    have q_s: "\<bar>q\<bar> < 10 ^ 18" "\<bar>s\<bar> < 10 ^ 18" using q s(1) by (simp_all only: snappable_def)
    have "\<bar>of_int ?n * s\<bar> \<le> \<bar>of_int ?n * s - q\<bar> + \<bar>q\<bar>" by arith
    also have "\<dots> < s + \<bar>q\<bar>" using near by simp
    also have "\<dots> \<le> 10 ^ 18 + 10 ^ 18" using q_s by (intro add_mono) auto
    also have "\<dots> \<le> 10 ^ 20" by simp
    finally show ?thesis .
  qed
  moreover have "on_lattice (of_int ?n * s)" using lat by blast
  ultimately have prod: "dmul (of_int ?n) s = of_int ?n * s"
    by (simp add: dmul_def lattice_exact)
  obtain b where b: "s = of_int b / 10 ^ 18" using lat by (rule on_latticeE)
  then have "0 < b" using s(2) by simp
  then have "1 / 10 ^ 18 \<le> s" unfolding b by (simp add: divide_right_mono)
  then have "\<bar>of_int ?n\<bar> * (1 / 10 ^ 18) \<le> \<bar>of_int ?n\<bar> * s" by (intro mult_left_mono) auto
  also have "\<dots> < 10 ^ 20" using bound s(2) by (simp add: abs_mult)
  finally have "of_int \<bar>?n\<bar> < (of_int (10 ^ 38) :: rat)" by simp
  then have "\<bar>?n\<bar> < 10 ^ 38" by (simp only: of_int_less_iff)
  then have "quantize_one m (context_round (q / s)) = Inr (of_int ?n)"
    unfolding quantize_one_def snappable_ratio [OF q lat s(2)] Let_def DECIMAL_PRECISION_def by simp
  then show ?thesis using s(2) prod by (simp add: snap_def ddiv_def)
qed

section \<open>Properties of the venue filters\<close>

lemma snap_down:
  assumes q: "snappable q" and s: "snappable s" "0 < s"
  obtains k where "snap q s ROUND_DOWN = Inr (of_int k * s)" "\<bar>of_int k * s\<bar> \<le> \<bar>q\<bar>"
    "\<bar>q - of_int k * s\<bar> < s" "0 \<le> q \<Longrightarrow> 0 \<le> k" "q \<le> 0 \<Longrightarrow> k \<le> 0"
proof
  let ?k = "round_to_int ROUND_DOWN (q / s)"
  show "snap q s ROUND_DOWN = Inr (of_int ?k * s)" by (rule snap_exact [OF assms])
  have bounds: "0 \<le> round_to_int ROUND_DOWN y \<and> of_int (round_to_int ROUND_DOWN y) * s \<le> y * s \<and>
      y * s < of_int (round_to_int ROUND_DOWN y) * s + s" if "0 \<le> y" for y
  proof -
    have "y * s < (of_int (round_to_int ROUND_DOWN y) + 1) * s"
      using round_to_int_down_nonneg(3) [OF that] s(2) by (rule mult_strict_right_mono)
    moreover have "of_int (round_to_int ROUND_DOWN y) * s \<le> y * s"
      using round_to_int_down_nonneg(2) [OF that] s(2) by (intro mult_right_mono) auto
    ultimately show ?thesis using round_to_int_down_nonneg(1) [OF that] by (simp only: distrib_right mult_1 simp_thms)
  qed
  have qs: "q / s * s = q" "- (q / s) * s = - q" using s(2) by simp_all
  consider "0 \<le> q" | "q \<le> 0" by linarith
  then have "\<bar>of_int ?k * s\<bar> \<le> \<bar>q\<bar> \<and> \<bar>q - of_int ?k * s\<bar> < s \<and> (0 \<le> q \<longrightarrow> 0 \<le> ?k) \<and> (q \<le> 0 \<longrightarrow> ?k \<le> 0)"
  proof cases
    case 1
    then have "0 \<le> q / s" using s(2) by simp
    note b = bounds [OF this, unfolded qs]
    then have "0 \<le> of_int ?k * s" using s(2) by simp
    moreover have "q \<le> 0 \<longrightarrow> ?k \<le> 0" using 1 by auto
    ultimately show ?thesis using b 1 by auto
  next
    case 2
    then have "0 \<le> - (q / s)" using s(2) by (simp add: divide_nonpos_pos)
    note b = bounds [OF this, unfolded qs round_to_int_minus of_int_minus mult_minus_left]
    then have "of_int ?k * s \<le> 0" using s(2) by (simp add: mult_nonpos_nonneg)
    moreover have "0 \<le> q \<longrightarrow> 0 \<le> ?k" using 2 by auto
    ultimately show ?thesis using b 2 by (intro conjI) (linarith | blast | (rule impI, linarith))+
  qed
  then show "\<bar>of_int ?k * s\<bar> \<le> \<bar>q\<bar>" "\<bar>q - of_int ?k * s\<bar> < s"
    "0 \<le> q \<Longrightarrow> 0 \<le> ?k" "q \<le> 0 \<Longrightarrow> ?k \<le> 0" by blast+
qed

lemma snap_multiple:
  assumes "snappable (of_int k * s)" and "snappable s" "0 < s"
  shows "snap (of_int k * s) s m = Inr (of_int k * s)"
proof -
  have "of_int k * s / s = of_int k" using assms(3) by simp
  then show ?thesis using snap_exact [OF assms(1-3), of m] by simp
qed

lemma quantized:
  assumes "valid_instrument i" and "snappable (lot_step i)" and "snappable q"
  shows "\<exists>k. quantize_base_quantity i q = Inr (of_int k * lot_step i) \<and>
    \<bar>of_int k * lot_step i\<bar> \<le> \<bar>q\<bar> \<and> \<bar>q - of_int k * lot_step i\<bar> < lot_step i \<and>
    0 \<le> q * (of_int k * lot_step i)"
proof -
  have step: "0 < lot_step i" using assms(1) by (rule valid_instrument_filters)
  obtain k where k: "snap q (lot_step i) ROUND_DOWN = Inr (of_int k * lot_step i)"
      "\<bar>of_int k * lot_step i\<bar> \<le> \<bar>q\<bar>" "\<bar>q - of_int k * lot_step i\<bar> < lot_step i"
      "0 \<le> q \<Longrightarrow> 0 \<le> k" "q \<le> 0 \<Longrightarrow> k \<le> 0"
    using snap_down [OF assms(3,2) step] by blast
  have "0 \<le> q * (of_int k * lot_step i)"
    using step k(4,5) by (cases "0 \<le> q") (auto simp: zero_le_mult_iff mult_le_0_iff)
  with k show ?thesis unfolding quantize_base_quantity_def by blast
qed

text \<open>
  Snapping an order quantity never enlarges the position. For an instrument that its
  constructor accepted, with a lot step and a quantity on the NUMERIC(38, 18) lattice
  below 10^18, \<open>quantize_base_quantity\<close> returns a whole multiple of the lot step that is no
  larger in magnitude than the request, less than one step away from it, and on the same
  side of zero, although the quotient is rounded to 38 digits before it is truncated.
\<close>

theorem quantize_base_quantity_toward_zero:
  assumes "valid_instrument i" and "snappable (lot_step i)" and "snappable q"
  shows "\<exists>k. quantize_base_quantity i q = Inr (of_int k * lot_step i) \<and>
    \<bar>of_int k * lot_step i\<bar> \<le> \<bar>q\<bar> \<and> \<bar>q - of_int k * lot_step i\<bar> < lot_step i \<and>
    0 \<le> q * (of_int k * lot_step i)"
  using assms by (rule quantized)

definition btcusdt :: instrument where
  "btcusdt = \<lparr>venue = BINANCE_SPOT_TESTNET, symbol = ''BTCUSDT'', base_asset = ''BTC'',
     quote_asset = ''USDT'', tick_size = 1 / 100, lot_step = 5 / 1000, min_notional_quote = 10\<rparr>"

lemma btcusdt_valid: "valid_instrument btcusdt"
  unfolding valid_instrument_def by code_simp

lemma btcusdt_snappable: "snappable (lot_step btcusdt)" "snappable (tick_size btcusdt)"
  unfolding snappable_def by code_simp+

theorem quantize_base_quantity_toward_zero_witness:
  "valid_instrument btcusdt \<and> snappable (lot_step btcusdt) \<and> snappable (- 1007 / 1000) \<and>
   quantize_base_quantity btcusdt (- 1007 / 1000) = Inr (- 1005 / 1000) \<and>
   (\<exists>k. quantize_base_quantity btcusdt (- 1007 / 1000) = Inr (of_int k * lot_step btcusdt))"
proof -
  have q: "snappable (- 1007 / 1000)" unfolding snappable_def by code_simp
  have "quantize_base_quantity btcusdt (- 1007 / 1000) = Inr (- 1005 / 1000)" by code_simp
  then show ?thesis
    using quantize_base_quantity_toward_zero [OF btcusdt_valid btcusdt_snappable(1) q]
      btcusdt_valid btcusdt_snappable(1) q by blast
qed

text \<open>
  Snapping a price never reaches further into the book than the decision did: a
  bid moves down, an ask moves up, by less than one tick, onto a multiple of the tick.
\<close>

theorem quantize_quote_price_away_from_book:
  assumes "valid_instrument i" and "snappable (tick_size i)" and "snappable p" and "0 < p"
  shows "\<exists>k. quantize_quote_price i p s = Inr (of_int k * tick_size i) \<and>
    (if s = BUY then of_int k * tick_size i \<le> p else p \<le> of_int k * tick_size i) \<and>
    \<bar>p - of_int k * tick_size i\<bar> < tick_size i"
proof -
  let ?t = "tick_size i" and ?m = "if s = BUY then ROUND_DOWN else ROUND_UP"
  let ?k = "round_to_int ?m (p / ?t)"
  have t: "0 < ?t" using assms(1) by (rule valid_instrument_filters)
  then have y: "0 \<le> p / ?t" "p / ?t * ?t = p" using assms(4) by simp_all
  have "\<bar>of_int ?k * ?t - p\<bar> = \<bar>of_int ?k - p / ?t\<bar> * ?t"
    using t by (simp add: abs_mult [of _ ?t, unfolded abs_of_pos [OF t], symmetric] left_diff_distrib)
  also have "\<dots> < 1 * ?t" using round_to_int_near t by (rule mult_strict_right_mono)
  finally have near: "\<bar>p - of_int ?k * ?t\<bar> < ?t" by (simp add: abs_minus_commute)
  have "if s = BUY then of_int ?k \<le> p / ?t else p / ?t \<le> of_int ?k"
    using round_to_int_down_nonneg [OF y(1)] round_to_int_up_nonneg [OF y(1)]
    by simp
  then have "if s = BUY then of_int ?k * ?t \<le> p / ?t * ?t else p / ?t * ?t \<le> of_int ?k * ?t"
    using t by (cases "s = BUY") (simp_all del: times_divide_eq_left)
  then show ?thesis using snap_exact [OF assms(3,2) t] near
    unfolding quantize_quote_price_def y(2) by (intro exI [of _ ?k]) simp
qed

theorem quantize_quote_price_away_from_book_witness:
  "valid_instrument btcusdt \<and> snappable (tick_size btcusdt) \<and> snappable (100017 / 1000) \<and>
   (0::rat) < 100017 / 1000 \<and>
   quantize_quote_price btcusdt (100017 / 1000) BUY = Inr (10001 / 100) \<and>
   quantize_quote_price btcusdt (100017 / 1000) SELL = Inr (10002 / 100) \<and>
   (\<exists>k. quantize_quote_price btcusdt (100017 / 1000) SELL = Inr (of_int k * tick_size btcusdt))"
proof -
  have p: "snappable (100017 / 1000)" unfolding snappable_def by code_simp
  have pos: "(0::rat) < 100017 / 1000" by simp
  have "quantize_quote_price btcusdt (100017 / 1000) BUY = Inr (10001 / 100)"
    "quantize_quote_price btcusdt (100017 / 1000) SELL = Inr (10002 / 100)" by code_simp+
  then show ?thesis
    using quantize_quote_price_away_from_book [OF btcusdt_valid btcusdt_snappable(2) p pos, of SELL]
      btcusdt_valid btcusdt_snappable(2) p pos by blast
qed

end
