(* ===== verification/Orders.thy ===== *)
theory Orders
  imports Instruments
begin

text \<open>
  The domain's records beside the position: amounts (\<open>money.py\<close>), observations of the
  market (\<open>market.py\<close>), a strategy's signal (\<open>signal.py\<close>), orders and fills
  (\<open>order.py\<close>) and the risk engine's verdict (\<open>risk_decision.py\<close>), each with the checks
  of its post-init hook in the source's order. A datetime field is its UTC instant in
  microseconds since the epoch, a duration a count of microseconds.
\<close>

section \<open>Amounts: src/fking/domain/money.py\<close>

record money =
  money_asset :: string
  money_quantity :: rat

definition money_post_init :: "money \<Rightarrow> unit result" where
  [post_init_defs]: "money_post_init m = run_checks
     [void (require_asset_code (PyStr (money_asset m)) ''asset''),
      void (require_decimal (dec (money_quantity m)) ''quantity'')]"

definition money_plus :: "money \<Rightarrow> money \<Rightarrow> money result" where
  "money_plus m other =
     (if money_asset other \<noteq> money_asset m then Inl (DomainError ''asset mismatch'')
      else construct money_post_init
        \<lparr>money_asset = money_asset m,
         money_quantity = dadd (money_quantity m) (money_quantity other)\<rparr>)"

record balance =
  balance_asset :: string
  free_quantity :: rat
  locked_quantity :: rat

definition balance_post_init :: "balance \<Rightarrow> unit result" where
  [post_init_defs]: "balance_post_init b = run_checks
     [void (require_asset_code (PyStr (balance_asset b)) ''asset''),
      void (require_non_negative_decimal (dec (free_quantity b)) ''free_quantity''),
      void (require_non_negative_decimal (dec (locked_quantity b)) ''locked_quantity'')]"

definition total_quantity :: "balance \<Rightarrow> rat" where
  "total_quantity b = dadd (free_quantity b) (locked_quantity b)"

section \<open>Market observations: src/fking/domain/market.py\<close>

record bar =
  bar_instrument :: instrument
  open_time_utc :: int
  close_time_utc :: int
  open_quote_price :: rat
  high_quote_price :: rat
  low_quote_price :: rat
  close_quote_price :: rat
  base_volume :: rat
  trade_count :: int

definition bar_post_init :: "bar \<Rightarrow> unit result" where
  [post_init_defs]: "bar_post_init b = run_checks
     [void (require_utc (utc (open_time_utc b)) ''open_time_utc''),
      void (require_utc (utc (close_time_utc b)) ''close_time_utc''),
      void (require_positive_decimal (dec (open_quote_price b)) ''open_quote_price''),
      void (require_positive_decimal (dec (high_quote_price b)) ''high_quote_price''),
      void (require_positive_decimal (dec (low_quote_price b)) ''low_quote_price''),
      void (require_positive_decimal (dec (close_quote_price b)) ''close_quote_price''),
      void (require_non_negative_decimal (dec (base_volume b)) ''base_volume''),
      ensure (open_time_utc b < close_time_utc b) (DomainError ''close_time_utc order''),
      ensure (0 \<le> trade_count b) (DomainError ''trade_count negative''),
      ensure (\<not> (high_quote_price b < max (open_quote_price b) (close_quote_price b) \<or>
                 low_quote_price b > min (open_quote_price b) (close_quote_price b)))
        (DomainError ''ohlc bracket'')]"

definition bar_is_empty :: "bar \<Rightarrow> bool" where
  "bar_is_empty b \<longleftrightarrow> trade_count b = 0"

record tick =
  tick_instrument :: instrument
  tick_venue_trade_id :: string
  tick_event_time_utc :: int
  tick_quote_price :: rat
  tick_base_quantity :: rat
  aggressor_side :: side

definition tick_post_init :: "tick \<Rightarrow> unit result" where
  [post_init_defs]: "tick_post_init t = run_checks
     [void (require_text (PyStr (tick_venue_trade_id t)) ''venue_trade_id''),
      void (require_utc (utc (tick_event_time_utc t)) ''event_time_utc''),
      void (require_positive_decimal (dec (tick_quote_price t)) ''quote_price''),
      void (require_positive_decimal (dec (tick_base_quantity t)) ''base_quantity'')]"

definition tick_notional_quote :: "tick \<Rightarrow> rat" where
  "tick_notional_quote t = dmul (tick_quote_price t) (tick_base_quantity t)"

section \<open>Signals: src/fking/domain/signal.py\<close>

record signal =
  strategy_id :: string
  signal_instrument :: instrument
  signal_direction :: direction
  conviction :: rat
  horizon :: int
  invalidation_quote_price :: "rat option"
  rationale :: string
  signal_decided_at_utc :: int

definition signal_post_init :: "signal \<Rightarrow> unit result" where
  [post_init_defs]: "signal_post_init s = run_checks
     [void (require_text (PyStr (strategy_id s)) ''strategy_id''),
      void (require_fraction (dec (conviction s)) ''conviction''),
      void (require_positive_duration (PyTimedelta (horizon s)) ''horizon''),
      void (require_text (PyStr (rationale s)) ''rationale''),
      void (require_utc (utc (signal_decided_at_utc s)) ''decided_at_utc''),
      (case invalidation_quote_price s of
         None \<Rightarrow> ensure (signal_direction s = FLAT) (DomainError ''no invalidation level'')
       | Some p \<Rightarrow>
           if signal_direction s = FLAT then Inl (DomainError ''flat carries invalidation'')
           else void (require_positive_decimal (dec p) ''invalidation_quote_price''))]"

definition signal_is_actionable :: "signal \<Rightarrow> bool" where
  "signal_is_actionable s \<longleftrightarrow> signal_direction s \<noteq> FLAT"

section \<open>Orders and fills: src/fking/domain/order.py\<close>

record order =
  order_id :: nat
  client_order_id :: string
  order_correlation_id :: nat
  order_instrument :: instrument
  order_side :: side
  order_type_of :: order_type
  time_in_force :: time_in_force
  order_base_quantity :: rat
  limit_quote_price :: "rat option"
  created_at_utc :: int

definition require_uuid :: "pyobj \<Rightarrow> string \<Rightarrow> nat result" where
  "require_uuid = uuid_guard DomainError"

definition order_post_init :: "order \<Rightarrow> unit result" where
  [post_init_defs]: "order_post_init r = run_checks
     [void (require_uuid (PyUUID (order_id r)) ''order_id''),
      void (require_uuid (PyUUID (order_correlation_id r)) ''correlation_id''),
      void (require_text (PyStr (client_order_id r)) ''client_order_id''),
      void (require_positive_decimal (dec (order_base_quantity r)) ''base_quantity''),
      void (require_utc (utc (created_at_utc r)) ''created_at_utc''),
      (if order_type_of r = LIMIT then
         (case limit_quote_price r of
            None \<Rightarrow> Inl (DomainError ''limit order without price'')
          | Some p \<Rightarrow> void (require_positive_decimal (dec p) ''limit_quote_price''))
       else ensure (limit_quote_price r = None) (DomainError ''market order with price''))]"

definition order_signed_base_quantity :: "order \<Rightarrow> rat" where
  "order_signed_base_quantity r = dmul (order_base_quantity r) (signed_multiplier (order_side r))"

record fill =
  fill_id :: nat
  fill_order_id :: nat
  fill_venue_trade_id :: string
  fill_instrument :: instrument
  fill_side :: side
  fill_event_time_utc :: int
  fill_quote_price :: rat
  fill_base_quantity :: rat
  fee_quote :: rat

definition fill_post_init :: "fill \<Rightarrow> unit result" where
  [post_init_defs]: "fill_post_init f = run_checks
     [void (require_uuid (PyUUID (fill_id f)) ''fill_id''),
      void (require_uuid (PyUUID (fill_order_id f)) ''order_id''),
      void (require_text (PyStr (fill_venue_trade_id f)) ''venue_trade_id''),
      void (require_utc (utc (fill_event_time_utc f)) ''event_time_utc''),
      void (require_positive_decimal (dec (fill_quote_price f)) ''quote_price''),
      void (require_positive_decimal (dec (fill_base_quantity f)) ''base_quantity''),
      void (require_non_negative_decimal (dec (fee_quote f)) ''fee_quote'')]"

definition fill_signed_base_quantity :: "fill \<Rightarrow> rat" where
  "fill_signed_base_quantity f = dmul (fill_base_quantity f) (signed_multiplier (fill_side f))"

definition fill_notional_quote :: "fill \<Rightarrow> rat" where
  "fill_notional_quote f = dmul (fill_quote_price f) (fill_base_quantity f)"

section \<open>Risk decisions: src/fking/domain/risk_decision.py\<close>

record risk_decision =
  decision_id :: nat
  decision_correlation_id :: nat
  decided_at_utc :: int
  verdict :: risk_verdict
  decision_order :: "order option"
  rejection_reason :: "string option"

definition risk_decision_post_init :: "risk_decision \<Rightarrow> unit result" where
  [post_init_defs]: "risk_decision_post_init d = run_checks
     [void (uuid_guard DomainError (PyUUID (decision_id d)) ''decision_id''),
      void (uuid_guard DomainError (PyUUID (decision_correlation_id d)) ''correlation_id''),
      void (require_utc (utc (decided_at_utc d)) ''decided_at_utc''),
      (if verdict d = APPROVED then
         (if decision_order d = None then Inl (DomainError ''approved without order'')
          else ensure (rejection_reason d = None) (DomainError ''approved with reason''))
       else
         (if decision_order d \<noteq> None then Inl (DomainError ''rejected with order'')
          else void (require_text
            (case rejection_reason d of None \<Rightarrow> PyNone | Some s \<Rightarrow> PyStr s) ''rejection_reason'')))]"

definition is_approved :: "risk_decision \<Rightarrow> bool" where
  "is_approved d \<longleftrightarrow> verdict d = APPROVED"

section \<open>What the constructors guarantee\<close>

abbreviation valid_fill :: "fill \<Rightarrow> bool" where
  "valid_fill f \<equiv> fill_post_init f = Inr ()"

abbreviation valid_order :: "order \<Rightarrow> bool" where
  "valid_order r \<equiv> order_post_init r = Inr ()"

lemma valid_fillD:
  assumes "valid_fill f"
  shows "0 < fill_quote_price f" "0 < fill_base_quantity f" "0 \<le> fee_quote f"
  using assms by (simp_all add: post_init_defs guard_simps)

lemma valid_orderD:
  assumes "valid_order r"
  shows "0 < order_base_quantity r" "(limit_quote_price r = None) = (order_type_of r = MARKET)"
  using assms by (cases "order_type_of r"; simp add: post_init_defs guard_simps split: option.splits)+

lemma fill_signed_nonzero:
  assumes "valid_fill f"
  shows "fill_signed_base_quantity f \<noteq> 0"
    and "0 < fill_signed_base_quantity f \<longleftrightarrow> fill_side f = BUY"
    and "fill_signed_base_quantity f < 0 \<longleftrightarrow> fill_side f = SELL"
  using valid_fillD(2) [OF assms]
  by (cases "fill_side f"; simp add: fill_signed_base_quantity_def dmul_def)+

text \<open>A quantity that is in the context keeps its magnitude when its side is attached.\<close>

lemma fill_signed_exact:
  assumes "context_round (fill_base_quantity f) = fill_base_quantity f"
  shows "fill_signed_base_quantity f = fill_base_quantity f * signed_multiplier (fill_side f)"
  using assms
  by (cases "fill_side f") (simp_all add: fill_signed_base_quantity_def dmul_def context_round_minus)

text \<open>
  A bar exists only if its prices are positive and its high and low bracket its open
  and close: the constructor accepts exactly the well-formed intervals, and rejects every
  other one.
\<close>

theorem bar_accepted_iff:
  "construct bar_post_init b = Inr b \<longleftrightarrow>
     open_time_utc b < close_time_utc b \<and> 0 \<le> trade_count b \<and> 0 \<le> base_volume b \<and>
     0 < low_quote_price b \<and>
     low_quote_price b \<le> open_quote_price b \<and> open_quote_price b \<le> high_quote_price b \<and>
     low_quote_price b \<le> close_quote_price b \<and> close_quote_price b \<le> high_quote_price b"
  by (auto simp: post_init_defs guard_simps)

text \<open>
  The verdict and the two fields it governs never disagree: a decision the
  constructor accepts carries an order exactly when it is approved and a (non-blank)
  reason exactly when it is rejected.
\<close>

theorem risk_decision_exclusive:
  assumes "construct risk_decision_post_init d = Inr d"
  shows "(decision_order d \<noteq> None) = is_approved d \<and>
    (rejection_reason d \<noteq> None) = (\<not> is_approved d) \<and>
    (\<forall>s. rejection_reason d = Some s \<longrightarrow> strip s \<noteq> [])"
  using assms
  by (cases "rejection_reason d"; cases "verdict d")
    (auto simp: post_init_defs guard_simps is_approved_def require_text_def text_guard_accepts
      split: if_splits)

theorem risk_decision_exclusive_witness:
  "construct risk_decision_post_init
     \<lparr>decision_id = 1, decision_correlation_id = 2, decided_at_utc = 3, verdict = REJECTED,
      decision_order = None, rejection_reason = Some ''gross exposure''\<rparr> =
     Inr \<lparr>decision_id = 1, decision_correlation_id = 2, decided_at_utc = 3, verdict = REJECTED,
      decision_order = None, rejection_reason = Some ''gross exposure''\<rparr> \<and>
   \<not> is_approved \<lparr>decision_id = 1, decision_correlation_id = 2, decided_at_utc = 3,
      verdict = REJECTED, decision_order = None, rejection_reason = Some ''gross exposure''\<rparr>"
proof -
  let ?d = "\<lparr>decision_id = 1, decision_correlation_id = 2, decided_at_utc = 3, verdict = REJECTED,
      decision_order = None, rejection_reason = Some ''gross exposure''\<rparr>"
  have "construct risk_decision_post_init ?d = Inr ?d" by code_simp
  with risk_decision_exclusive [OF this] show ?thesis by simp
qed

text \<open>
  No directional signal exists without an invalidation level: a signal the
  constructor accepts states a positive level exactly when it points somewhere, and its
  conviction is a fraction.
\<close>

theorem signal_states_invalidation:
  assumes "construct signal_post_init s = Inr s"
  shows "signal_is_actionable s = (\<exists>p. invalidation_quote_price s = Some p \<and> 0 < p) \<and>
    (\<not> signal_is_actionable s) = (invalidation_quote_price s = None) \<and>
    0 \<le> conviction s \<and> conviction s \<le> 1 \<and> 0 < horizon s"
  using assms
  by (cases "invalidation_quote_price s")
    (auto simp: post_init_defs guard_simps signal_is_actionable_def split: if_splits)

theorem signal_states_invalidation_witness:
  "\<exists>s. construct signal_post_init s = Inr s \<and> signal_is_actionable s \<and>
     invalidation_quote_price s = Some 90"
proof -
  let ?s = "\<lparr>strategy_id = ''donchian'', signal_instrument = btcusdt, signal_direction = LONG,
     conviction = 3 / 5, horizon = 3600000000, invalidation_quote_price = Some 90,
     rationale = ''breakout'', signal_decided_at_utc = 0\<rparr>"
  have ok: "construct signal_post_init ?s = Inr ?s" by code_simp
  from signal_states_invalidation [OF ok] have "signal_is_actionable ?s" by simp
  with ok show ?thesis by (intro exI [of _ ?s]) simp
qed

end
