(* ===== verification/Positions.thy ===== *)
theory Positions
  imports Orders
begin

text \<open>
  Position arithmetic (\<open>src/fking/domain/position.py\<close>): what one fill does to one
  position, as a value. Every operation goes through the decimal context, and every
  replaced position is checked again by its constructor.
\<close>

section \<open>Positions and transitions\<close>

record position =
  position_instrument :: instrument
  signed_base_quantity :: rat
  average_entry_quote_price :: rat
  realised_pnl_quote :: rat
  fee_quote_paid :: rat
  opened_at_utc :: "int option"
  applied_fill_ids :: "nat set"

definition position_post_init :: "position \<Rightarrow> unit result" where
  [post_init_defs]: "position_post_init p = run_checks
     ([void (require_decimal (dec (signed_base_quantity p)) ''signed_base_quantity''),
       void (require_non_negative_decimal (dec (average_entry_quote_price p))
         ''average_entry_quote_price''),
       void (require_decimal (dec (realised_pnl_quote p)) ''realised_pnl_quote''),
       void (require_non_negative_decimal (dec (fee_quote_paid p)) ''fee_quote_paid'')] @
      (if signed_base_quantity p = 0 then
         [ensure (average_entry_quote_price p = 0) (DomainError ''flat with entry price''),
          ensure (opened_at_utc p = None) (DomainError ''flat with open time'')]
       else
         [void (require_positive_decimal (dec (average_entry_quote_price p))
            ''average_entry_quote_price''),
          (case opened_at_utc p of
             None \<Rightarrow> Inl (DomainError ''open without open time'')
           | Some t \<Rightarrow> void (require_utc (utc t) ''opened_at_utc''))]))"

definition flat :: "instrument \<Rightarrow> position" where
  "flat i =
     \<lparr>position_instrument = i, signed_base_quantity = 0, average_entry_quote_price = 0,
      realised_pnl_quote = 0, fee_quote_paid = 0, opened_at_utc = None, applied_fill_ids = {}\<rparr>"

definition direction_of :: "position \<Rightarrow> direction" where
  "direction_of p =
     (if 0 < signed_base_quantity p then LONG
      else if signed_base_quantity p < 0 then SHORT else FLAT)"

definition net_realised_pnl_quote :: "position \<Rightarrow> rat" where
  "net_realised_pnl_quote p = dsub (realised_pnl_quote p) (fee_quote_paid p)"

definition position_notional_quote :: "position \<Rightarrow> rat \<Rightarrow> rat result" where
  "position_notional_quote p mark =
     and_then (require_positive_decimal (dec mark) ''mark_quote_price'')
       (\<lambda>_. Inr (dmul (dabs (signed_base_quantity p)) mark))"

definition unrealised_pnl_quote :: "position \<Rightarrow> rat \<Rightarrow> rat result" where
  "unrealised_pnl_quote p mark =
     and_then (require_positive_decimal (dec mark) ''mark_quote_price'')
       (\<lambda>_. Inr (dmul (signed_base_quantity p) (dsub mark (average_entry_quote_price p))))"

record position_transition =
  before :: position
  after :: position
  closed_base_quantity :: rat
  opened_base_quantity :: rat
  transition_realised_pnl_quote :: rat
  crossed_flat :: bool

definition transition_post_init :: "position_transition \<Rightarrow> unit result" where
  [post_init_defs]: "transition_post_init t = run_checks
     [void (require_non_negative_decimal (dec (closed_base_quantity t)) ''closed_base_quantity''),
      void (require_non_negative_decimal (dec (opened_base_quantity t)) ''opened_base_quantity''),
      void (require_decimal (dec (transition_realised_pnl_quote t)) ''realised_pnl_quote''),
      ensure (position_instrument (before t) = position_instrument (after t))
        (DomainError ''transition spans two instruments''),
      ensure (\<not> (crossed_flat t \<and>
                 \<not> (0 < closed_base_quantity t \<and> 0 < opened_base_quantity t)))
        (DomainError ''crossed_flat without flip'')]"

definition is_noop :: "position_transition \<Rightarrow> bool" where
  "is_noop t \<longleftrightarrow> before t = after t"

section \<open>Applying a fill\<close>

definition opened :: "position \<Rightarrow> fill \<Rightarrow> position_transition result" where
  "opened p f =
     (let after_base_quantity = dadd (signed_base_quantity p) (fill_signed_base_quantity f);
          prior_cost_quote = dmul (dabs (signed_base_quantity p)) (average_entry_quote_price p);
          added_cost_quote = dmul (fill_base_quantity f) (fill_quote_price f)
      in and_then (ddiv (dadd prior_cost_quote added_cost_quote) (dabs after_base_quantity))
           (\<lambda>average.
         and_then (construct position_post_init
           (p\<lparr>signed_base_quantity := after_base_quantity,
              average_entry_quote_price := average,
              fee_quote_paid := dadd (fee_quote_paid p) (fee_quote f),
              opened_at_utc :=
                (case opened_at_utc p of None \<Rightarrow> Some (fill_event_time_utc f) | Some t \<Rightarrow> Some t),
              applied_fill_ids := insert (fill_id f) (applied_fill_ids p)\<rparr>))
           (\<lambda>p'. construct transition_post_init
             \<lparr>before = p, after = p', closed_base_quantity = 0,
              opened_base_quantity = fill_base_quantity f,
              transition_realised_pnl_quote = 0, crossed_flat = False\<rparr>)))"

definition reduced :: "position \<Rightarrow> fill \<Rightarrow> position_transition result" where
  "reduced p f =
     (let held_base_quantity = dabs (signed_base_quantity p);
          closed = min (fill_base_quantity f) held_base_quantity;
          held_sign = (if 0 < signed_base_quantity p then 1 else - 1);
          realised = dmul (dmul closed (dsub (fill_quote_price f) (average_entry_quote_price p)))
            held_sign;
          after_base_quantity = dadd (signed_base_quantity p) (fill_signed_base_quantity f);
          opened_quantity = dsub (fill_base_quantity f) closed;
          crossed = (0 < opened_quantity);
          (average, opened_at) =
            (if crossed then (fill_quote_price f, Some (fill_event_time_utc f))
             else if after_base_quantity = 0 then (0, None)
             else (average_entry_quote_price p, opened_at_utc p))
      in and_then (construct position_post_init
           (p\<lparr>signed_base_quantity := after_base_quantity,
              average_entry_quote_price := average,
              realised_pnl_quote := dadd (realised_pnl_quote p) realised,
              fee_quote_paid := dadd (fee_quote_paid p) (fee_quote f),
              opened_at_utc := opened_at,
              applied_fill_ids := insert (fill_id f) (applied_fill_ids p)\<rparr>))
           (\<lambda>p'. construct transition_post_init
             \<lparr>before = p, after = p', closed_base_quantity = closed,
              opened_base_quantity = opened_quantity,
              transition_realised_pnl_quote = realised, crossed_flat = crossed\<rparr>))"

definition with_fill :: "position \<Rightarrow> fill \<Rightarrow> position_transition result" where
  "with_fill p f =
     (if fill_instrument f \<noteq> position_instrument p then Inl (DomainError ''instrument mismatch'')
      else if fill_id f \<in> applied_fill_ids p then
        construct transition_post_init
          \<lparr>before = p, after = p, closed_base_quantity = 0, opened_base_quantity = 0,
           transition_realised_pnl_quote = 0, crossed_flat = False\<rparr>
      else if signed_base_quantity p = 0 \<or>
          (0 < signed_base_quantity p) = (0 < fill_signed_base_quantity f)
        then opened p f else reduced p f)"

section \<open>The invariant and the shape of a transition\<close>

text \<open>
  A position in the context: its constructor accepted it, and its quantity and its fees
  have at most 38 digits (every number that came out of an operation or out of a
  NUMERIC(38, 18) column has). Outside of it \<open>abs\<close> itself rounds, and a held magnitude can differ from the
  quantity it is the magnitude of.
\<close>

definition sound_position :: "position \<Rightarrow> bool" where
  "sound_position p \<longleftrightarrow>
     position_post_init p = Inr () \<and>
     context_round (signed_base_quantity p) = signed_base_quantity p \<and>
     context_round (fee_quote_paid p) = fee_quote_paid p"

definition sound_fill :: "fill \<Rightarrow> bool" where
  "sound_fill f \<longleftrightarrow>
     fill_post_init f = Inr () \<and> context_round (fill_base_quantity f) = fill_base_quantity f"

lemma position_post_init_iff:
  "position_post_init p = Inr () \<longleftrightarrow>
     0 \<le> average_entry_quote_price p \<and> 0 \<le> fee_quote_paid p \<and>
     (if signed_base_quantity p = 0 then average_entry_quote_price p = 0 \<and> opened_at_utc p = None
      else 0 < average_entry_quote_price p \<and> opened_at_utc p \<noteq> None)"
  by (auto simp: post_init_defs guard_simps split: option.splits)

lemma sound_positionD:
  assumes "sound_position p"
  shows "0 \<le> average_entry_quote_price p" "0 \<le> fee_quote_paid p"
    "signed_base_quantity p = 0 \<Longrightarrow> average_entry_quote_price p = 0"
    "signed_base_quantity p = 0 \<Longrightarrow> opened_at_utc p = None"
    "signed_base_quantity p \<noteq> 0 \<Longrightarrow> 0 < average_entry_quote_price p"
    "signed_base_quantity p \<noteq> 0 \<Longrightarrow> opened_at_utc p \<noteq> None"
    "context_round (signed_base_quantity p) = signed_base_quantity p"
    "context_round (fee_quote_paid p) = fee_quote_paid p"
    "dabs (signed_base_quantity p) = \<bar>signed_base_quantity p\<bar>"
  using assms unfolding sound_position_def position_post_init_iff
  by (auto simp: dabs_def ctx.rnd_abs split: if_splits)

lemma sound_fillD:
  assumes "sound_fill f"
  shows "valid_fill f" "0 < fill_quote_price f" "0 < fill_base_quantity f" "0 \<le> fee_quote f"
    "fill_signed_base_quantity f = fill_base_quantity f * signed_multiplier (fill_side f)"
    "\<bar>fill_signed_base_quantity f\<bar> = fill_base_quantity f"
proof -
  show v: "valid_fill f" using assms by (simp add: sound_fill_def)
  show pos: "0 < fill_quote_price f" "0 < fill_base_quantity f" "0 \<le> fee_quote f"
    using valid_fillD [OF v] by simp_all
  show signed: "fill_signed_base_quantity f = fill_base_quantity f * signed_multiplier (fill_side f)"
    using assms by (simp add: sound_fill_def fill_signed_exact)
  show "\<bar>fill_signed_base_quantity f\<bar> = fill_base_quantity f"
    unfolding signed using pos(2) by (cases "fill_side f") auto
qed

lemma flat_sound: "sound_position (flat i)"
  by (simp add: sound_position_def position_post_init_iff flat_def)

text \<open>Opening or adding: the position grows on its own side, the average blends.\<close>

lemma opened_ok:
  assumes p: "sound_position p" and f: "sound_fill f"
    and side: "signed_base_quantity p = 0 \<or>
      (0 < signed_base_quantity p) = (0 < fill_signed_base_quantity f)"
  obtains t where "opened p f = Inr t" "before t = p" "sound_position (after t)"
    "signed_base_quantity (after t) = dadd (signed_base_quantity p) (fill_signed_base_quantity f)"
    "signed_base_quantity (after t) \<noteq> 0"
    "0 < signed_base_quantity (after t) \<longleftrightarrow> 0 < fill_signed_base_quantity f"
    "applied_fill_ids (after t) = insert (fill_id f) (applied_fill_ids p)"
    "position_instrument (after t) = position_instrument p"
    "realised_pnl_quote (after t) = realised_pnl_quote p"
    "fee_quote_paid (after t) = dadd (fee_quote_paid p) (fee_quote f)"
    "closed_base_quantity t = 0" "opened_base_quantity t = fill_base_quantity f"
    "transition_realised_pnl_quote t = 0" "\<not> crossed_flat t"
    "average_entry_quote_price (after t) = context_round
       (dadd (dmul \<bar>signed_base_quantity p\<bar> (average_entry_quote_price p))
         (dmul (fill_base_quantity f) (fill_quote_price f)) / \<bar>signed_base_quantity (after t)\<bar>)"
proof -
  let ?s = "signed_base_quantity p" and ?g = "fill_signed_base_quantity f"
  let ?a = "dadd ?s ?g"
  let ?cost = "dadd (dmul \<bar>?s\<bar> (average_entry_quote_price p))
    (dmul (fill_base_quantity f) (fill_quote_price f))"
  note P = sound_positionD [OF p] and F = sound_fillD [OF f]
  have g: "?g \<noteq> 0" using F(3,6) by auto
  have sg: "?s + ?g \<noteq> 0" "0 < ?s + ?g \<longleftrightarrow> 0 < ?g"
    using side g by (auto simp: not_less)
  then have a: "?a \<noteq> 0" "0 < ?a \<longleftrightarrow> 0 < ?g" "dabs ?a = \<bar>?a\<bar>"
    by (simp_all add: dadd_def dabs_def ctx.rnd_abs ctx.rnd_idem)
  have "0 < dmul (fill_base_quantity f) (fill_quote_price f)" by (intro dmul_pos F)
  moreover have "0 \<le> dmul \<bar>?s\<bar> (average_entry_quote_price p)" using P(1) by (simp add: dmul_nonneg)
  ultimately have cost: "0 < ?cost" by (intro dadd_pos) linarith
  then have avg: "0 < context_round (?cost / \<bar>?a\<bar>)" using a(1) by simp
  have fee: "0 \<le> dadd (fee_quote_paid p) (fee_quote f)" using P(2) F(4) by (rule dadd_nonneg)
  define p' where "p' = p\<lparr>signed_base_quantity := ?a,
    average_entry_quote_price := context_round (?cost / \<bar>?a\<bar>),
    fee_quote_paid := dadd (fee_quote_paid p) (fee_quote f),
    opened_at_utc := (case opened_at_utc p of None \<Rightarrow> Some (fill_event_time_utc f) | Some t \<Rightarrow> Some t),
    applied_fill_ids := insert (fill_id f) (applied_fill_ids p)\<rparr>"
  have p': "position_post_init p' = Inr ()"
    unfolding position_post_init_iff using a avg fee less_imp_le [OF cost]
    by (simp add: p'_def split: option.splits)
  define t where "t = \<lparr>before = p, after = p', closed_base_quantity = 0,
    opened_base_quantity = fill_base_quantity f,
    transition_realised_pnl_quote = 0, crossed_flat = False\<rparr>"
  have t: "transition_post_init t = Inr ()"
    using F(3) by (simp add: post_init_defs guard_simps t_def p'_def)
  have "opened p f = Inr t"
    using a p' t unfolding opened_def
    by (simp add: P(9) ddiv_def p'_def [symmetric] t_def [symmetric] construct_def)
  moreover have "sound_position p'"
    using p' by (simp add: sound_position_def p'_def dadd_def ctx.rnd_idem)
  ultimately show ?thesis
    using a by (intro that [of t]) (simp_all add: t_def p'_def)
qed

text \<open>Reducing: a partial close, an exact close, or a flip through flat.\<close>

lemma reduced_ok:
  assumes p: "sound_position p" and f: "sound_fill f"
    and nonflat: "signed_base_quantity p \<noteq> 0"
    and side: "(0 < signed_base_quantity p) \<noteq> (0 < fill_signed_base_quantity f)"
  obtains t where "reduced p f = Inr t" "before t = p" "sound_position (after t)"
    "signed_base_quantity (after t) = dadd (signed_base_quantity p) (fill_signed_base_quantity f)"
    "applied_fill_ids (after t) = insert (fill_id f) (applied_fill_ids p)"
    "position_instrument (after t) = position_instrument p"
    "realised_pnl_quote (after t) = dadd (realised_pnl_quote p) (transition_realised_pnl_quote t)"
    "fee_quote_paid (after t) = dadd (fee_quote_paid p) (fee_quote f)"
    "closed_base_quantity t = min (fill_base_quantity f) \<bar>signed_base_quantity p\<bar>"
    "opened_base_quantity t = dsub (fill_base_quantity f) (closed_base_quantity t)"
    "crossed_flat t \<longleftrightarrow> \<bar>signed_base_quantity p\<bar> < fill_base_quantity f"
    "transition_realised_pnl_quote t =
       dmul (dmul (closed_base_quantity t) (dsub (fill_quote_price f) (average_entry_quote_price p)))
         (if 0 < signed_base_quantity p then 1 else - 1)"
    "average_entry_quote_price (after t) =
       (if \<bar>signed_base_quantity p\<bar> < fill_base_quantity f then fill_quote_price f
        else if fill_base_quantity f = \<bar>signed_base_quantity p\<bar> then 0
        else average_entry_quote_price p)"
proof -
  let ?s = "signed_base_quantity p" and ?g = "fill_signed_base_quantity f"
  let ?b = "fill_base_quantity f" and ?a = "dadd (signed_base_quantity p) (fill_signed_base_quantity f)"
  note P = sound_positionD [OF p] and F = sound_fillD [OF f]
  have g: "?g \<noteq> 0" using F(3,6) by auto
  have flat: "?a = 0 \<longleftrightarrow> ?b = \<bar>?s\<bar>"
    using side nonflat g F(6) by (auto simp: dadd_eq_0 abs_if split: if_splits)
  have cross: "0 < dsub ?b (min ?b \<bar>?s\<bar>) \<longleftrightarrow> \<bar>?s\<bar> < ?b" by (auto simp: dsub_def min_def)
  define closed where "closed = min ?b \<bar>?s\<bar>"
  define realised where "realised = dmul (dmul closed (dsub (fill_quote_price f)
    (average_entry_quote_price p))) (if 0 < ?s then 1 else - 1)"
  define avg where "avg = (if \<bar>?s\<bar> < ?b then fill_quote_price f else if ?b = \<bar>?s\<bar> then 0
    else average_entry_quote_price p)"
  define opn where "opn = (if \<bar>?s\<bar> < ?b then Some (fill_event_time_utc f) else if ?b = \<bar>?s\<bar> then None
    else opened_at_utc p)"
  define p' where "p' = p\<lparr>signed_base_quantity := ?a, average_entry_quote_price := avg,
    realised_pnl_quote := dadd (realised_pnl_quote p) realised,
    fee_quote_paid := dadd (fee_quote_paid p) (fee_quote f), opened_at_utc := opn,
    applied_fill_ids := insert (fill_id f) (applied_fill_ids p)\<rparr>"
  have fee: "0 \<le> dadd (fee_quote_paid p) (fee_quote f)" using P(2) F(4) by (rule dadd_nonneg)
  have p': "position_post_init p' = Inr ()"
    unfolding position_post_init_iff using fee flat P(1,5,6) F(2) nonflat
    by (auto simp: p'_def avg_def opn_def)
  define t where "t = \<lparr>before = p, after = p', closed_base_quantity = closed,
    opened_base_quantity = dsub ?b closed, transition_realised_pnl_quote = realised,
    crossed_flat = (\<bar>?s\<bar> < ?b)\<rparr>"
  have t: "transition_post_init t = Inr ()"
    using F(3) nonflat cross
    by (auto simp: post_init_defs guard_simps t_def p'_def closed_def dsub_def min_def)
  have pair: "(if 0 < dsub ?b (min ?b \<bar>?s\<bar>) then (fill_quote_price f, Some (fill_event_time_utc f))
      else if ?a = 0 then (0, None) else (average_entry_quote_price p, opened_at_utc p)) = (avg, opn)"
    using cross flat by (simp add: avg_def opn_def)
  have "reduced p f = Inr t"
    using p' t cross unfolding reduced_def Let_def P(9) pair
    by (simp add: p'_def [symmetric] t_def [symmetric] construct_def
        closed_def [symmetric] realised_def [symmetric])
  moreover have "sound_position p'"
    using p' by (simp add: sound_position_def p'_def dadd_def ctx.rnd_idem)
  ultimately show ?thesis
    by (intro that [of t]) (simp_all add: t_def p'_def closed_def realised_def avg_def)
qed

section \<open>One fill\<close>

lemma dadd_increasing: "context_round x = x \<Longrightarrow> 0 \<le> y \<Longrightarrow> x \<le> dadd x y"
  unfolding dadd_def by (rule ctx.rnd_ge_fixed) simp_all

lemma with_fill_fresh:
  assumes p: "sound_position p" and f: "sound_fill f"
    and i: "fill_instrument f = position_instrument p" and fresh: "fill_id f \<notin> applied_fill_ids p"
  obtains t where "with_fill p f = Inr t" "before t = p" "sound_position (after t)"
    "signed_base_quantity (after t) = dadd (signed_base_quantity p) (fill_signed_base_quantity f)"
    "applied_fill_ids (after t) = insert (fill_id f) (applied_fill_ids p)"
    "position_instrument (after t) = position_instrument p"
    "fee_quote_paid (after t) = dadd (fee_quote_paid p) (fee_quote f)"
proof (cases "signed_base_quantity p = 0 \<or>
    (0 < signed_base_quantity p) = (0 < fill_signed_base_quantity f)")
  case True
  then have "with_fill p f = opened p f" using i fresh by (simp add: with_fill_def)
  with opened_ok [OF p f True] that show ?thesis by metis
next
  case False
  then have "with_fill p f = reduced p f" using i fresh by (simp add: with_fill_def)
  with reduced_ok [OF p f] False that show ?thesis by metis
qed

definition noop :: "position \<Rightarrow> position_transition" where
  "noop p = \<lparr>before = p, after = p, closed_base_quantity = 0, opened_base_quantity = 0,
     transition_realised_pnl_quote = 0, crossed_flat = False\<rparr>"

lemma with_fill_repeat:
  assumes "fill_instrument f = position_instrument p" and "fill_id f \<in> applied_fill_ids p"
  shows "with_fill p f = Inr (noop p)"
  using assms by (simp add: with_fill_def noop_def post_init_defs guard_simps)

lemma noop_simps [simp]: "after (noop p) = p" "before (noop p) = p" "is_noop (noop p)"
  by (simp_all add: noop_def is_noop_def)

lemma with_fill_ok:
  assumes "sound_position p" and "sound_fill f" and "fill_instrument f = position_instrument p"
  shows "\<exists>t. with_fill p f = Inr t \<and> sound_position (after t) \<and>
    position_instrument (after t) = position_instrument p \<and>
    fill_id f \<in> applied_fill_ids (after t)"
proof (cases "fill_id f \<in> applied_fill_ids p")
  case True
  then show ?thesis using with_fill_repeat [OF assms(3)] assms(1) by auto
next
  case False
  obtain t where "with_fill p f = Inr t" "sound_position (after t)"
      "position_instrument (after t) = position_instrument p"
      "applied_fill_ids (after t) = insert (fill_id f) (applied_fill_ids p)"
    using with_fill_fresh [OF assms False] by metis
  then show ?thesis by blast
qed

text \<open>
  Applying a fill never raises and never leaves a malformed position: for a position
  and a fill in the decimal context, on one instrument, \<open>with_fill\<close> returns a transition
  whose new position its constructor accepts (in particular the blended average is
  positive and a closed position carries neither an entry price nor an open time).
\<close>

theorem with_fill_keeps_position_sound:
  assumes "sound_position p" and "sound_fill f" and "fill_instrument f = position_instrument p"
  shows "\<exists>t. with_fill p f = Inr t \<and> position_post_init (after t) = Inr () \<and>
    sound_position (after t) \<and> position_instrument (after t) = position_instrument p"
  using with_fill_ok [OF assms] by (auto simp: sound_position_def)

text \<open>A concrete purchase and a larger sale, for the witnesses.\<close>

definition buy_2 :: fill where
  "buy_2 = \<lparr>fill_id = 7, fill_order_id = 1, fill_venue_trade_id = ''t7'', fill_instrument = btcusdt,
     fill_side = BUY, fill_event_time_utc = 1000, fill_quote_price = 100, fill_base_quantity = 2,
     fee_quote = 1 / 5\<rparr>"

definition sell_3 :: fill where
  "sell_3 = \<lparr>fill_id = 8, fill_order_id = 2, fill_venue_trade_id = ''t8'', fill_instrument = btcusdt,
     fill_side = SELL, fill_event_time_utc = 2000, fill_quote_price = 110, fill_base_quantity = 3,
     fee_quote = 3 / 10\<rparr>"

definition long_2 :: position where
  "long_2 = \<lparr>position_instrument = btcusdt, signed_base_quantity = 2,
     average_entry_quote_price = 100, realised_pnl_quote = 0, fee_quote_paid = 1 / 5,
     opened_at_utc = Some 1000, applied_fill_ids = {7}\<rparr>"

lemma example_fills: "sound_fill buy_2" "sound_fill sell_3" "sound_position long_2"
  unfolding sound_fill_def sound_position_def by code_simp+

lemma example_instruments: "fill_instrument buy_2 = position_instrument (flat btcusdt)"
  "fill_instrument sell_3 = position_instrument long_2"
  by (simp_all add: buy_2_def sell_3_def flat_def long_2_def)

theorem with_fill_keeps_position_sound_witness:
  "sound_position long_2 \<and> sound_fill sell_3 \<and>
   (\<exists>t. with_fill long_2 sell_3 = Inr t \<and> sound_position (after t))"
  using with_fill_keeps_position_sound [OF example_fills(3,2) example_instruments(2)]
    example_fills by blast

text \<open>
  At-least-once delivery is harmless: a fill that has been applied is recognised, and
  applying it again returns a transition that changed nothing.
\<close>

theorem with_fill_idempotent:
  assumes "sound_position p" and "sound_fill f" and "with_fill p f = Inr t"
  shows "\<exists>t'. with_fill (after t) f = Inr t' \<and> is_noop t' \<and> after t' = after t"
proof -
  have i: "fill_instrument f = position_instrument p"
    using assms(3) by (auto simp: with_fill_def split: if_splits)
  from with_fill_ok [OF assms(1,2) i] assms(3)
  have "position_instrument (after t) = position_instrument p" "fill_id f \<in> applied_fill_ids (after t)"
    by auto
  then have "with_fill (after t) f = Inr (noop (after t))" using i by (simp add: with_fill_repeat)
  then show ?thesis by simp
qed

theorem with_fill_idempotent_witness:
  "\<exists>t. sound_position (flat btcusdt) \<and> sound_fill buy_2 \<and> with_fill (flat btcusdt) buy_2 = Inr t \<and>
     signed_base_quantity (after t) = 2 \<and>
     (\<exists>t'. with_fill (after t) buy_2 = Inr t' \<and> is_noop t' \<and> after t' = after t)"
proof -
  obtain t where t: "with_fill (flat btcusdt) buy_2 = Inr t"
    using with_fill_ok [OF flat_sound example_fills(1) example_instruments(1)] by blast
  have "(case with_fill (flat btcusdt) buy_2 of Inr t \<Rightarrow> signed_base_quantity (after t) | Inl _ \<Rightarrow> 0) = 2"
    by code_simp
  then have "signed_base_quantity (after t) = 2" by (simp add: t)
  then show ?thesis
    using t flat_sound example_fills(1) with_fill_idempotent [OF flat_sound example_fills(1) t] by blast
qed

section \<open>Flips\<close>

lemma with_fill_reduces:
  assumes "sound_position p" and "sound_fill f" and "fill_instrument f = position_instrument p"
    and "fill_id f \<notin> applied_fill_ids p"
    and "signed_base_quantity p * fill_signed_base_quantity f < 0"
  shows "with_fill p f = reduced p f" "signed_base_quantity p \<noteq> 0"
    "(0 < signed_base_quantity p) \<noteq> (0 < fill_signed_base_quantity f)"
  using assms(3-5) by (auto simp: with_fill_def mult_less_0_iff)

text \<open>
  \<open>crossed_flat\<close> marks genuine flips and nothing else: after a fresh fill it is true
  exactly when the position was on one side and is now on the other, and then the new
  position starts at the fill's own price with the fill's own time.
\<close>

theorem crossed_flat_iff_side_flips:
  assumes p: "sound_position p" and f: "sound_fill f" and t: "with_fill p f = Inr t"
    and fresh: "fill_id f \<notin> applied_fill_ids p"
  shows "crossed_flat t = (signed_base_quantity p * signed_base_quantity (after t) < 0) \<and>
    (crossed_flat t \<longrightarrow> average_entry_quote_price (after t) = fill_quote_price f)"
proof -
  have i: "fill_instrument f = position_instrument p"
    using t by (auto simp: with_fill_def split: if_splits)
  let ?s = "signed_base_quantity p" and ?g = "fill_signed_base_quantity f"
  have g: "?g \<noteq> 0" "\<bar>?g\<bar> = fill_base_quantity f" using sound_fillD [OF f] by auto
  show ?thesis
  proof (cases "?s * ?g < 0")
    case False
    then have side: "?s = 0 \<or> (0 < ?s) = (0 < ?g)"
      using g(1) by (auto simp: mult_less_0_iff not_less)
    obtain t' where t': "opened p f = Inr t'" "\<not> crossed_flat t'"
        "signed_base_quantity (after t') \<noteq> 0" "0 < signed_base_quantity (after t') \<longleftrightarrow> 0 < ?g"
      using opened_ok [OF p f side] by metis
    have "t' = t" using t t'(1) side i fresh by (simp add: with_fill_def)
    then show ?thesis using t' side by (auto simp: mult_less_0_iff)
  next
    case True
    note r = with_fill_reduces [OF p f i fresh True]
    obtain t' where t': "reduced p f = Inr t'"
        "crossed_flat t' \<longleftrightarrow> \<bar>?s\<bar> < fill_base_quantity f"
        "signed_base_quantity (after t') = dadd ?s ?g"
        "average_entry_quote_price (after t') =
          (if \<bar>?s\<bar> < fill_base_quantity f then fill_quote_price f
           else if fill_base_quantity f = \<bar>?s\<bar> then 0 else average_entry_quote_price p)"
      using reduced_ok [OF p f r(2,3)] by metis
    have "t' = t" using t t'(1) r(1) by simp
    moreover have "?s * dadd ?s ?g < 0 \<longleftrightarrow> \<bar>?s\<bar> < \<bar>?g\<bar>"
      using True by (auto simp: dadd_def mult_less_0_iff abs_if split: if_splits)
    ultimately show ?thesis using t' g(2) by simp
  qed
qed

theorem crossed_flat_iff_side_flips_witness:
  "\<exists>t. sound_position long_2 \<and> sound_fill sell_3 \<and> with_fill long_2 sell_3 = Inr t \<and>
     fill_id sell_3 \<notin> applied_fill_ids long_2 \<and>
     crossed_flat t \<and> average_entry_quote_price (after t) = 110"
proof -
  obtain t where t: "with_fill long_2 sell_3 = Inr t"
    using with_fill_ok [OF example_fills(3,2) example_instruments(2)] by blast
  have fresh: "fill_id sell_3 \<notin> applied_fill_ids long_2" by (simp add: sell_3_def long_2_def)
  have "(case with_fill long_2 sell_3 of Inr t \<Rightarrow> signed_base_quantity (after t) | Inl _ \<Rightarrow> 0) = - 1"
    by code_simp
  then have "signed_base_quantity (after t) = - 1" by (simp add: t)
  moreover have "signed_base_quantity long_2 = 2" by (simp add: long_2_def)
  ultimately have "crossed_flat t \<and> average_entry_quote_price (after t) = fill_quote_price sell_3"
    using crossed_flat_iff_side_flips [OF example_fills(3,2) t fresh] by simp
  then show ?thesis using t fresh example_fills by (auto simp: sell_3_def)
qed

section \<open>Conservation of cash\<close>

text \<open>
  What a position accounts for in cash: the realised result less the cost of what is held.
  Where no rounding happens, a fill changes it by exactly what the fill paid or received.
\<close>

definition booked_cash :: "position \<Rightarrow> rat" where
  "booked_cash p = realised_pnl_quote p - signed_base_quantity p * average_entry_quote_price p"

definition exact :: "rat \<Rightarrow> bool" where
  "exact x \<longleftrightarrow> context_round x = x"

definition exact_fill :: "position \<Rightarrow> fill \<Rightarrow> bool" where
  "exact_fill p f =
     (let s = signed_base_quantity p; g = fill_signed_base_quantity f; b = fill_base_quantity f;
          average = average_entry_quote_price p; price = fill_quote_price f
      in exact (s + g) \<and>
         (if s = 0 \<or> (0 < s) = (0 < g) then
            exact (\<bar>s\<bar> * average) \<and> exact (b * price) \<and> exact (\<bar>s\<bar> * average + b * price) \<and>
            exact ((\<bar>s\<bar> * average + b * price) / \<bar>s + g\<bar>)
          else
            exact (price - average) \<and> exact (min b \<bar>s\<bar> * (price - average)) \<and>
            exact (realised_pnl_quote p + min b \<bar>s\<bar> * (price - average) * sgn s)))"

lemma cost_on_one_side:
  fixes a :: rat
  assumes "s + g \<noteq> 0" and "sg \<noteq> 0" and "a = sg * s" and "b = sg * g" and "c = sg * (s + g)"
  shows "(s + g) * ((a * v + b * r) / c) = s * v + g * r"
proof -
  have "(a * v + b * r) / c = (sg * (s * v + g * r)) / (sg * (s + g))"
    unfolding assms(3-5) by (simp add: algebra_simps)
  also have "\<dots> = (s * v + g * r) / (s + g)" using assms(2) by simp
  finally show ?thesis using assms(1) by simp
qed

lemma reduced_cash:
  fixes s g :: rat
  assumes "s \<noteq> 0" and "g \<noteq> 0" and "(0 < s) \<noteq> (0 < g)" and b: "b = \<bar>g\<bar>"
  shows "q + min b \<bar>s\<bar> * (r - v) * sgn s -
      (s + g) * (if \<bar>s\<bar> < b then r else if b = \<bar>s\<bar> then 0 else v) = q - s * v - g * r"
proof -
  consider "0 < s" "g < 0" | "s < 0" "0 < g" using assms(1-3) by linarith
  then show ?thesis
  proof cases
    case 1
    then show ?thesis
      by (cases "- g" s rule: linorder_cases) (auto simp: b min_def sgn_if algebra_simps)
  next
    case 2
    then show ?thesis
      by (cases "g" "- s" rule: linorder_cases) (auto simp: b min_def sgn_if algebra_simps)
  qed
qed

lemma dmul_sign:
  "context_round x = x \<Longrightarrow> s \<noteq> 0 \<Longrightarrow> dmul x (if 0 < s then 1 else - 1) = x * sgn (s::rat)"
  by (auto simp: dmul_def sgn_if context_round_minus)

lemma with_fill_cash:
  assumes p: "sound_position p" and f: "sound_fill f" and t: "with_fill p f = Inr t"
    and fresh: "fill_id f \<notin> applied_fill_ids p" and exact: "exact_fill p f"
  shows "booked_cash (after t) =
    booked_cash p - fill_signed_base_quantity f * fill_quote_price f"
proof -
  have i: "fill_instrument f = position_instrument p"
    using t by (auto simp: with_fill_def split: if_splits)
  let ?s = "signed_base_quantity p" and ?g = "fill_signed_base_quantity f"
  let ?b = "fill_base_quantity f" and ?v = "average_entry_quote_price p" and ?r = "fill_quote_price f"
  have g: "?g \<noteq> 0" "\<bar>?g\<bar> = ?b" using sound_fillD [OF f] by auto
  have sum: "dadd ?s ?g = ?s + ?g"
    using exact by (simp add: exact_fill_def Let_def exact_def dadd_def)
  show ?thesis
  proof (cases "?s = 0 \<or> (0 < ?s) = (0 < ?g)")
    case side: True
    let ?cost = "\<bar>?s\<bar> * ?v + ?b * ?r"
    from exact side have e: "dadd (dmul \<bar>?s\<bar> ?v) (dmul ?b ?r) = ?cost"
        "context_round (?cost / \<bar>?s + ?g\<bar>) = ?cost / \<bar>?s + ?g\<bar>"
      by (simp_all add: exact_fill_def Let_def exact_def dadd_def dmul_def)
    obtain t' where t': "opened p f = Inr t'" "signed_base_quantity (after t') = dadd ?s ?g"
        "realised_pnl_quote (after t') = realised_pnl_quote p" "signed_base_quantity (after t') \<noteq> 0"
        "average_entry_quote_price (after t') =
          context_round (dadd (dmul \<bar>?s\<bar> ?v) (dmul ?b ?r) / \<bar>signed_base_quantity (after t')\<bar>)"
      using opened_ok [OF p f side] by metis
    have "t' = t" using t t'(1) side i fresh by (simp add: with_fill_def)
    moreover have "(?s + ?g) * (?cost / \<bar>?s + ?g\<bar>) = ?s * ?v + ?g * ?r"
    proof (rule cost_on_one_side)
      show "?s + ?g \<noteq> 0" using t'(2,4) sum by simp
      show "sgn ?g \<noteq> 0" using g(1) by (simp add: sgn_if)
      show "\<bar>?s\<bar> = sgn ?g * ?s" "?b = sgn ?g * ?g" "\<bar>?s + ?g\<bar> = sgn ?g * (?s + ?g)"
        using side g by (auto simp: abs_if sgn_if split: if_splits)
    qed
    ultimately show ?thesis using t' e by (simp add: booked_cash_def sum)
  next
    case side: False
    then have r: "with_fill p f = reduced p f" "?s \<noteq> 0" "(0 < ?s) \<noteq> (0 < ?g)"
      using i fresh by (auto simp: with_fill_def)
    obtain t' where t': "reduced p f = Inr t'" "signed_base_quantity (after t') = dadd ?s ?g"
        "realised_pnl_quote (after t') = dadd (realised_pnl_quote p) (transition_realised_pnl_quote t')"
        "transition_realised_pnl_quote t' =
          dmul (dmul (closed_base_quantity t') (dsub ?r ?v)) (if 0 < ?s then 1 else - 1)"
        "closed_base_quantity t' = min ?b \<bar>?s\<bar>"
        "average_entry_quote_price (after t') =
          (if \<bar>?s\<bar> < ?b then ?r else if ?b = \<bar>?s\<bar> then 0 else ?v)"
      using reduced_ok [OF p f r(2,3)] by metis
    have "t' = t" using t t'(1) r(1) by simp
    from exact side have e: "dsub ?r ?v = ?r - ?v" "dmul (min ?b \<bar>?s\<bar>) (?r - ?v) = min ?b \<bar>?s\<bar> * (?r - ?v)"
        "context_round (min ?b \<bar>?s\<bar> * (?r - ?v)) = min ?b \<bar>?s\<bar> * (?r - ?v)"
        "context_round (realised_pnl_quote p + min ?b \<bar>?s\<bar> * (?r - ?v) * sgn ?s) =
          realised_pnl_quote p + min ?b \<bar>?s\<bar> * (?r - ?v) * sgn ?s"
      by (simp_all add: exact_fill_def Let_def exact_def dsub_def dmul_def)
    have "transition_realised_pnl_quote t' = min ?b \<bar>?s\<bar> * (?r - ?v) * sgn ?s"
      unfolding t'(4,5) e(1,2) by (rule dmul_sign [OF e(3) r(2)])
    then have "realised_pnl_quote (after t') = realised_pnl_quote p + min ?b \<bar>?s\<bar> * (?r - ?v) * sgn ?s"
      unfolding t'(3) using e(4) by (simp add: dadd_def)
    then show ?thesis
      using \<open>t' = t\<close> t'(2,6) sum reduced_cash [OF r(2) g(1) r(3) g(2) [symmetric]]
      by (simp add: booked_cash_def)
  qed
qed

text \<open>
  C24. No fill creates or loses money: over a fresh fill whose arithmetic is exact in the
  context, the position's booked cash (realised profit less the cost of the open quantity)
  changes by exactly the signed value of the fill, whether it opens, adds, reduces, closes
  or flips.
\<close>

theorem with_fill_conserves_cash:
  assumes p: "sound_position p" and f: "sound_fill f" and t: "with_fill p f = Inr t"
    and fresh: "fill_id f \<notin> applied_fill_ids p" and exact: "exact_fill p f"
  shows "booked_cash (after t) =
    booked_cash p - fill_signed_base_quantity f * fill_quote_price f"
  by (rule with_fill_cash [OF assms])

theorem with_fill_conserves_cash_witness:
  "\<exists>t. sound_position long_2 \<and> sound_fill sell_3 \<and> with_fill long_2 sell_3 = Inr t \<and>
     fill_id sell_3 \<notin> applied_fill_ids long_2 \<and> exact_fill long_2 sell_3 \<and>
     booked_cash (after t) = booked_cash long_2 + 330"
proof -
  obtain t where t: "with_fill long_2 sell_3 = Inr t"
    using with_fill_ok [OF example_fills(3,2) example_instruments(2)] by blast
  have fresh: "fill_id sell_3 \<notin> applied_fill_ids long_2" by (simp add: sell_3_def long_2_def)
  have exact: "exact_fill long_2 sell_3" by code_simp
  have "fill_signed_base_quantity sell_3 * fill_quote_price sell_3 = - 330"
    using sound_fillD(5) [OF example_fills(2)] by (simp add: sell_3_def)
  then have "booked_cash (after t) = booked_cash long_2 + 330"
    using with_fill_conserves_cash [OF example_fills(3,2) t fresh exact] by simp
  then show ?thesis using t fresh exact example_fills by blast
qed

section \<open>A stream of fills\<close>

text \<open>
  A consumer of fill events: it keeps the position that \<open>with_fill\<close> returns. Delivery is
  at least once and in any order, so the stream may repeat and reorder fills.
\<close>

definition apply_fill :: "position \<Rightarrow> fill \<Rightarrow> position" where
  "apply_fill p f = (case with_fill p f of Inl _ \<Rightarrow> p | Inr t \<Rightarrow> after t)"

lemma apply_fill_other: "fill_instrument f \<noteq> position_instrument p \<Longrightarrow> apply_fill p f = p"
  by (simp add: apply_fill_def with_fill_def)

lemma apply_fill_keeps:
  assumes "sound_position p" and "sound_fill f"
  shows "sound_position (apply_fill p f)"
    "position_instrument (apply_fill p f) = position_instrument p"
proof -
  have "sound_position (apply_fill p f) \<and> position_instrument (apply_fill p f) = position_instrument p"
  proof (cases "fill_instrument f = position_instrument p")
    case True
    from with_fill_ok [OF assms True] show ?thesis by (auto simp: apply_fill_def)
  next
    case False
    then show ?thesis using assms(1) by (simp add: apply_fill_other)
  qed
  then show "sound_position (apply_fill p f)"
    "position_instrument (apply_fill p f) = position_instrument p" by simp_all
qed

lemma apply_fill_fees:
  assumes p: "sound_position p" and f: "sound_fill f"
  shows "fee_quote_paid p \<le> fee_quote_paid (apply_fill p f) \<and>
    applied_fill_ids p \<subseteq> applied_fill_ids (apply_fill p f)"
proof -
  consider "fill_instrument f \<noteq> position_instrument p"
    | "fill_instrument f = position_instrument p" "fill_id f \<in> applied_fill_ids p"
    | "fill_instrument f = position_instrument p" "fill_id f \<notin> applied_fill_ids p" by blast
  then show ?thesis
  proof cases
    case 1
    then show ?thesis by (simp add: apply_fill_def with_fill_def)
  next
    case 2
    then show ?thesis by (simp add: apply_fill_def with_fill_repeat)
  next
    case 3
    obtain t where "with_fill p f = Inr t" "fee_quote_paid (after t) = dadd (fee_quote_paid p) (fee_quote f)"
        "applied_fill_ids (after t) = insert (fill_id f) (applied_fill_ids p)"
      using with_fill_fresh [OF p f 3] by metis
    then show ?thesis
      using dadd_increasing [OF sound_positionD(8) [OF p] sound_fillD(4) [OF f]]
      by (auto simp: apply_fill_def)
  qed
qed

interpretation fills: monotone_machine
  "\<lambda>p. \<exists>i. p = flat i" apply_fill sound_fill sound_position
  "\<lambda>p q. fee_quote_paid p \<le> fee_quote_paid q \<and> applied_fill_ids p \<subseteq> applied_fill_ids q"
  by unfold_locales (auto simp: flat_sound apply_fill_keeps apply_fill_fees)

text \<open>
  Whatever stream of fills a position is given, it stays well-formed, its fees never
  shrink and no applied fill is forgotten.
\<close>

theorem fill_stream_keeps_position_sound:
  assumes "list_all sound_fill (fs @ gs)"
  shows "sound_position (foldl apply_fill (flat i) (fs @ gs)) \<and>
    fee_quote_paid (foldl apply_fill (flat i) fs) \<le>
      fee_quote_paid (foldl apply_fill (flat i) (fs @ gs)) \<and>
    applied_fill_ids (foldl apply_fill (flat i) fs) \<subseteq>
      applied_fill_ids (foldl apply_fill (flat i) (fs @ gs))"
proof -
  have fs: "sound_position (foldl apply_fill (flat i) fs)"
    using assms by (intro fills.inv_run) auto
  have "sound_position (foldl apply_fill (flat i) (fs @ gs))"
    using assms by (intro fills.inv_run) auto
  with fills.before_run [OF fs, of gs] assms show ?thesis by simp
qed

theorem fill_stream_keeps_position_sound_witness:
  "list_all sound_fill ([buy_2, buy_2] @ [sell_3]) \<and>
   sound_position (foldl apply_fill (flat btcusdt) ([buy_2, buy_2] @ [sell_3]))"
  using fill_stream_keeps_position_sound [of "[buy_2, buy_2]" "[sell_3]" btcusdt] example_fills
  by simp

text \<open>
  The held quantity as a sum: over fills of one instrument on the database's lattice, the
  quantity after the stream is the sum over the set of fills delivered.
\<close>

lemma apply_fill_new:
  assumes "sound_position p" and "sound_fill f" and "fill_instrument f = position_instrument p"
    and "fill_id f \<notin> applied_fill_ids p"
  shows "signed_base_quantity (apply_fill p f) =
      dadd (signed_base_quantity p) (fill_signed_base_quantity f)"
    "applied_fill_ids (apply_fill p f) = insert (fill_id f) (applied_fill_ids p)"
  using with_fill_fresh [OF assms] by (metis apply_fill_def sum.case(2))+

definition quantity_bound :: "fill set \<Rightarrow> bool" where
  "quantity_bound F \<longleftrightarrow> finite F \<and> (\<forall>f \<in> F. on_lattice (fill_signed_base_quantity f)) \<and>
     (\<Sum>f \<in> F. \<bar>fill_signed_base_quantity f\<bar>) < 10 ^ 20"

lemma quantity_bound_subset:
  assumes "quantity_bound F" and "G \<subseteq> F"
  shows "context_round (\<Sum>f \<in> G. fill_signed_base_quantity f) = (\<Sum>f \<in> G. fill_signed_base_quantity f)"
proof (rule lattice_exact)
  have G: "finite G" "\<forall>f \<in> G. on_lattice (fill_signed_base_quantity f)"
    using assms by (auto simp: quantity_bound_def finite_subset)
  then show "on_lattice (\<Sum>f \<in> G. fill_signed_base_quantity f)"
    by (induction G rule: finite_induct) auto
  have "\<bar>\<Sum>f \<in> G. fill_signed_base_quantity f\<bar> \<le> (\<Sum>f \<in> G. \<bar>fill_signed_base_quantity f\<bar>)" by (rule sum_abs)
  also have "\<dots> \<le> (\<Sum>f \<in> F. \<bar>fill_signed_base_quantity f\<bar>)"
    using assms by (intro sum_mono2) (auto simp: quantity_bound_def)
  also have "\<dots> < 10 ^ 20" using assms(1) by (simp add: quantity_bound_def)
  finally show "\<bar>\<Sum>f \<in> G. fill_signed_base_quantity f\<bar> < 10 ^ 20" .
qed

lemma fill_stream_quantity:
  assumes "list_all sound_fill fs" and "\<forall>f \<in> set fs. fill_instrument f = i"
    and "inj_on fill_id (set fs)" and "quantity_bound (set fs)"
  shows "signed_base_quantity (foldl apply_fill (flat i) fs) = (\<Sum>f \<in> set fs. fill_signed_base_quantity f) \<and>
    applied_fill_ids (foldl apply_fill (flat i) fs) = fill_id ` set fs \<and>
    position_instrument (foldl apply_fill (flat i) fs) = i"
  using assms
proof (induction fs rule: rev_induct)
  case Nil
  then show ?case by (simp add: flat_def)
next
  case (snoc f fs)
  let ?p = "foldl apply_fill (flat i) fs"
  have sub: "set fs \<subseteq> set (fs @ [f])" by auto
  then have "inj_on fill_id (set fs)" using snoc.prems(3) by (rule inj_on_subset [rotated])
  moreover have "quantity_bound (set fs)"
  proof -
    have "(\<Sum>f \<in> set fs. \<bar>fill_signed_base_quantity f\<bar>) \<le> (\<Sum>f \<in> set (fs @ [f]). \<bar>fill_signed_base_quantity f\<bar>)"
      by (intro sum_mono2 sub) auto
    then show ?thesis using snoc.prems(4) sub by (auto simp: quantity_bound_def)
  qed
  ultimately have IH: "signed_base_quantity ?p = (\<Sum>f \<in> set fs. fill_signed_base_quantity f)"
      "applied_fill_ids ?p = fill_id ` set fs" "position_instrument ?p = i"
    using snoc.IH snoc.prems by auto
  have p: "sound_position ?p" using snoc.prems(1) by (intro fills.inv_run) auto
  have f: "sound_fill f" "fill_instrument f = position_instrument ?p" using snoc.prems IH by auto
  show ?case
  proof (cases "f \<in> set fs")
    case True
    then have "apply_fill ?p f = ?p" using f(2) IH by (simp add: apply_fill_def with_fill_repeat)
    then show ?thesis using True IH by (simp add: insert_absorb)
  next
    case False
    then have "fill_id f \<notin> applied_fill_ids ?p" using snoc.prems(3) IH(2) by (auto simp: inj_on_def)
    note new = apply_fill_new [OF p f this]
    have "context_round (\<Sum>f \<in> set (fs @ [f]). fill_signed_base_quantity f) =
        (\<Sum>f \<in> set (fs @ [f]). fill_signed_base_quantity f)"
      by (rule quantity_bound_subset [OF snoc.prems(4)]) simp
    then show ?thesis
      using False new IH apply_fill_keeps(2) [OF p f(1)] by (simp add: dadd_def add.commute)
  qed
qed

text \<open>
  C25. The held quantity does not depend on delivery: two streams that deliver the same
  set of fills, in any order and with any repetitions, leave the same signed quantity, the
  exact sum of the fills' signed quantities (on the NUMERIC(38, 18) lattice, with a total
  volume below 10^20).
\<close>

theorem fill_delivery_order_irrelevant:
  assumes "list_all sound_fill fs" and "set gs = set fs"
    and "\<forall>f \<in> set fs. fill_instrument f = i" and "inj_on fill_id (set fs)"
    and "quantity_bound (set fs)"
  shows "signed_base_quantity (foldl apply_fill (flat i) fs) =
      signed_base_quantity (foldl apply_fill (flat i) gs) \<and>
    signed_base_quantity (foldl apply_fill (flat i) fs) = (\<Sum>f \<in> set fs. fill_signed_base_quantity f)"
proof -
  have "list_all sound_fill gs" using assms(1,2) by (simp add: list_all_iff)
  then show ?thesis using fill_stream_quantity [of fs i] fill_stream_quantity [of gs i] assms by simp
qed

theorem fill_delivery_order_irrelevant_witness:
  "signed_base_quantity (foldl apply_fill (flat btcusdt) [buy_2, sell_3]) =
     signed_base_quantity (foldl apply_fill (flat btcusdt) [sell_3, buy_2, sell_3]) \<and>
   signed_base_quantity (foldl apply_fill (flat btcusdt) [buy_2, sell_3]) = - 1"
proof -
  have q: "fill_signed_base_quantity buy_2 = 2" "fill_signed_base_quantity sell_3 = - 3"
    using sound_fillD(5) example_fills by (simp_all add: buy_2_def sell_3_def)
  have ids: "fill_id buy_2 \<noteq> fill_id sell_3" by (simp add: buy_2_def sell_3_def)
  then have ne: "buy_2 \<noteq> sell_3" by auto
  have lat: "on_lattice 2" "on_lattice (- 3)"
    using on_lattice_of_int [of 2] on_lattice_of_int [of "- 3"] by simp_all
  have "quantity_bound (set [buy_2, sell_3])" using ne q lat by (simp add: quantity_bound_def)
  moreover have "inj_on fill_id (set [buy_2, sell_3])" using ids by auto
  moreover have "\<forall>f \<in> set [buy_2, sell_3]. fill_instrument f = btcusdt" by (simp add: buy_2_def sell_3_def)
  ultimately show ?thesis
    using fill_delivery_order_irrelevant [of "[buy_2, sell_3]" "[sell_3, buy_2, sell_3]" btcusdt]
      example_fills ne q by (simp add: insert_commute)
qed

end
