(* ===== verification/Portfolios.thy ===== *)
theory Portfolios
  imports Positions
begin

text \<open>
  The aggregates of \<open>src/fking/domain/portfolio.py\<close>: the account of one venue and the
  portfolio of every position and cash balance. A Python mapping is its list of items in
  insertion order, with distinct keys. Positions are a tuple, looked up by the whole
  instrument; \<open>position_for\<close> and \<open>with_position\<close> are shown to be a keyed store.
\<close>

section \<open>Accounts\<close>

type_synonym balances = "(string \<times> balance) list"

definition frozen_balances :: "balances \<Rightarrow> string \<Rightarrow> unit result" where
  "frozen_balances balances field = run_checks
     (map (\<lambda>(asset, held). ensure (balance_asset held = asset) (DomainError field)) balances)"

record account =
  account_venue :: venue
  account_id :: string
  balances :: balances
  updated_at_utc :: int

definition account_post_init :: "account \<Rightarrow> unit result" where
  [post_init_defs]: "account_post_init a = run_checks
     [void (require_text (PyStr (account_id a)) ''account_id''),
      void (require_utc (utc (updated_at_utc a)) ''updated_at_utc''),
      frozen_balances (balances a) ''balances'']"

definition account_free_quantity :: "account \<Rightarrow> string \<Rightarrow> rat" where
  "account_free_quantity a asset =
     (case map_of (balances a) asset of Some held \<Rightarrow> free_quantity held | None \<Rightarrow> 0)"

section \<open>Portfolios\<close>

record portfolio =
  as_of_utc :: int
  positions :: "position list"
  cash_balances :: balances

fun one_position_each :: "instrument set \<Rightarrow> position list \<Rightarrow> unit result" where
  "one_position_each seen [] = Inr ()"
| "one_position_each seen (p # ps) =
     (if position_instrument p \<in> seen then Inl (DomainError ''two positions in one instrument'')
      else one_position_each (insert (position_instrument p) seen) ps)"

definition portfolio_post_init :: "portfolio \<Rightarrow> unit result" where
  [post_init_defs]: "portfolio_post_init p = run_checks
     [void (require_utc (utc (as_of_utc p)) ''as_of_utc''),
      frozen_balances (cash_balances p) ''cash_balances'',
      one_position_each {} (positions p)]"

definition position_for :: "portfolio \<Rightarrow> instrument \<Rightarrow> position option" where
  "position_for p i = find (\<lambda>held. position_instrument held = i) (positions p)"

definition with_position :: "portfolio \<Rightarrow> position \<Rightarrow> portfolio result" where
  "with_position p position =
     (let others = filter (\<lambda>held. position_instrument held \<noteq> position_instrument position) (positions p)
      in construct portfolio_post_init (p\<lparr>positions := others @ [position]\<rparr>))"

definition open_positions :: "portfolio \<Rightarrow> position list" where
  "open_positions p = filter (\<lambda>position. signed_base_quantity position \<noteq> 0) (positions p)"

section \<open>One position per instrument\<close>

definition valid_portfolio :: "portfolio \<Rightarrow> bool" where
  "valid_portfolio p \<longleftrightarrow> portfolio_post_init p = Inr ()"

lemma one_position_each_iff:
  "one_position_each seen ps = Inr () \<longleftrightarrow>
     distinct (map position_instrument ps) \<and> position_instrument ` set ps \<inter> seen = {}"
  by (induction ps arbitrary: seen) auto

lemma frozen_balances_iff:
  "frozen_balances bs f = Inr () \<longleftrightarrow> (\<forall>(asset, held) \<in> set bs. balance_asset held = asset)"
  by (auto simp: frozen_balances_def run_checks_ok)

lemma valid_portfolio_iff:
  "valid_portfolio p \<longleftrightarrow> distinct (map position_instrument (positions p)) \<and>
     (\<forall>(asset, held) \<in> set (cash_balances p). balance_asset held = asset)"
  by (auto simp: valid_portfolio_def post_init_defs one_position_each_iff frozen_balances_iff)

lemma with_position_ok:
  assumes "valid_portfolio p"
  shows "with_position p q = Inr (p\<lparr>positions :=
      filter (\<lambda>held. position_instrument held \<noteq> position_instrument q) (positions p) @ [q]\<rparr>)"
    and "valid_portfolio (p\<lparr>positions :=
      filter (\<lambda>held. position_instrument held \<noteq> position_instrument q) (positions p) @ [q]\<rparr>)"
proof -
  have "distinct (map position_instrument
      (filter (\<lambda>held. position_instrument held \<noteq> position_instrument q) (positions p)))"
    using assms by (simp add: valid_portfolio_iff distinct_map inj_on_filter_key_eq
        inj_on_subset [of position_instrument "set (positions p)"])
  then show *: "valid_portfolio (p\<lparr>positions :=
      filter (\<lambda>held. position_instrument held \<noteq> position_instrument q) (positions p) @ [q]\<rparr>)"
    using assms by (auto simp: valid_portfolio_iff)
  then show "with_position p q = Inr (p\<lparr>positions :=
      filter (\<lambda>held. position_instrument held \<noteq> position_instrument q) (positions p) @ [q]\<rparr>)"
    by (simp add: with_position_def Let_def valid_portfolio_def)
qed

lemma find_filter_other:
  "k \<noteq> k' \<Longrightarrow> find (\<lambda>x. f x = k) (filter (\<lambda>x. f x \<noteq> k') xs @ [y]) =
    (if f y = k then find (\<lambda>x. f x = k) (xs @ [y]) else find (\<lambda>x. f x = k) xs)"
  by (induction xs) auto

lemma find_filter_same: "find (\<lambda>x. f x = k) (filter (\<lambda>x. f x \<noteq> k) xs @ [y]) = (if f y = k then Some y else None)"
  by (induction xs) auto

interpretation book: keyed_store position_for with_position position_instrument valid_portfolio
proof
  show "\<exists>t. with_position s v = Inr t" if "valid_portfolio s" for s v
    using with_position_ok(1) [OF that] by blast
  show "valid_portfolio t" if "valid_portfolio s" "with_position s v = Inr t" for s v t
    using with_position_ok [OF that(1), of v] that(2) by simp
  show "position_for t k = (if k = position_instrument v then Some v else position_for s k)"
    if "valid_portfolio s" "with_position s v = Inr t" for s v t k
    using with_position_ok(1) [OF that(1), of v] that(2)
      find_filter_other [of k "position_instrument v" position_instrument "positions s" v]
      find_filter_same [of position_instrument "position_instrument v" "positions s" v]
    by (auto simp: position_for_def)
qed

fun with_positions :: "portfolio \<Rightarrow> position list \<Rightarrow> portfolio result" where
  "with_positions p [] = Inr p"
| "with_positions p (q # qs) = and_then (with_position p q) (\<lambda>p'. with_positions p' qs)"

lemma with_positions_store_all: "with_positions p qs = book.store_all p qs"
  by (induction qs arbitrary: p) simp_all

text \<open>
  A portfolio never holds two positions in one instrument and never loses one:
  recording positions in sequence always succeeds, keeps the portfolio well-formed, and
  afterwards \<open>position_for\<close> answers the last position recorded for the instrument, or what
  it answered before when none was.
\<close>

theorem portfolio_records_last_position:
  assumes "valid_portfolio p"
  shows "\<exists>p'. with_positions p qs = Inr p' \<and> valid_portfolio p' \<and>
    (\<forall>i. position_for p' i =
      (case find (\<lambda>q. position_instrument q = i) (rev qs) of Some q \<Rightarrow> Some q
       | None \<Rightarrow> position_for p i))"
proof -
  obtain p' where "book.store_all p qs = Inr p'" "valid_portfolio p'"
    using book.store_all_total [OF assms] by blast
  with book.lookup_store_all [OF assms this(1)] show ?thesis
    by (auto simp: with_positions_store_all)
qed

definition empty_portfolio :: portfolio where
  "empty_portfolio = \<lparr>as_of_utc = 0, positions = [], cash_balances = []\<rparr>"

lemma empty_portfolio_valid: "valid_portfolio empty_portfolio"
  by (simp add: valid_portfolio_iff empty_portfolio_def)

theorem portfolio_records_last_position_witness:
  "valid_portfolio empty_portfolio \<and>
   (\<exists>p'. with_positions empty_portfolio [long_2, flat btcusdt] = Inr p' \<and>
      position_for p' btcusdt = Some (flat btcusdt))"
proof -
  obtain p' where p': "with_positions empty_portfolio [long_2, flat btcusdt] = Inr p'"
      "\<forall>i. position_for p' i =
        (case find (\<lambda>q. position_instrument q = i) (rev [long_2, flat btcusdt]) of Some q \<Rightarrow> Some q
         | None \<Rightarrow> position_for empty_portfolio i)"
    using portfolio_records_last_position [OF empty_portfolio_valid] by blast
  have "position_for p' btcusdt = Some (flat btcusdt)" using p'(2) by (simp add: flat_def)
  then show ?thesis using p'(1) empty_portfolio_valid by blast
qed

end
