(* ===== verification/KillSwitch.thy ===== *)
theory KillSwitch
  imports Portfolios "HOL-Library.Product_Lexorder" "HOL-Library.Multiset"
begin

text \<open>
  The kill switch: the journal's rows and the state derived from them
  (\<open>src/fking/risk/_state.py\<close>), the trip sequence, the two-step resume and the gate the
  order path reads (\<open>src/fking/risk/_killswitch.py\<close>). The state is a function of the
  journal; it is shown to be the one of an abstract description: the earliest trip that
  no later resume of its incident answers, whatever order the rows arrive in.
\<close>

section \<open>The journal's rows\<close>

definition HUMAN_OPERATOR_PREFIX :: string where
  "HUMAN_OPERATOR_PREFIX = ''human:''"

definition MIN_ROOT_CAUSE_LENGTH :: nat where
  "MIN_ROOT_CAUSE_LENGTH = 20"

definition ARM_VALIDITY :: int where
  "ARM_VALIDITY = 120 * microseconds_per_second"

definition kill_require_text :: "string \<Rightarrow> string \<Rightarrow> unit result" where
  "kill_require_text s field = void (text_guard DomainError (PyStr s) field)"

definition kill_require_exact_decimal :: "rat \<Rightarrow> string \<Rightarrow> unit result" where
  "kill_require_exact_decimal x field = void (decimal_guard DomainError (dec x) field)"

definition kill_require_utc :: "int \<Rightarrow> string \<Rightarrow> unit result" where
  "kill_require_utc t field = void (utc_guard DomainError (utc t) field)"

definition require_human_operator :: "string \<Rightarrow> unit result" where
  "require_human_operator candidate =
     and_then (kill_require_text candidate ''operator_id'') (\<lambda>_.
       if take (length HUMAN_OPERATOR_PREFIX) candidate \<noteq> HUMAN_OPERATOR_PREFIX
       then Inl (DomainError ''operator_id names no person'')
       else if strip (drop (length HUMAN_OPERATOR_PREFIX) candidate) = []
       then Inl (DomainError ''operator_id names nobody'')
       else Inr ())"

record trip_trigger =
  trigger_id :: string
  unit_of_measure :: string
  observed_value :: rat
  threshold_value :: rat
  detail :: string

definition trigger_post_init :: "trip_trigger \<Rightarrow> unit result" where
  [post_init_defs]: "trigger_post_init t = run_checks
     [kill_require_text (trigger_id t) ''trigger_id'',
      kill_require_text (unit_of_measure t) ''unit'',
      kill_require_text (detail t) ''detail'',
      kill_require_exact_decimal (observed_value t) ''observed_value'',
      kill_require_exact_decimal (threshold_value t) ''threshold_value'']"

record book_snapshot =
  snapshot_portfolio :: portfolio
  open_client_order_ids :: "string list"
  protective_client_order_ids :: "string list"
  reconciled_at_utc :: "int option"
  snapshot_reconciliation_is_clean :: bool

definition snapshot_post_init :: "book_snapshot \<Rightarrow> unit result" where
  [post_init_defs]: "snapshot_post_init s = run_checks
     (map (\<lambda>order_id. kill_require_text order_id ''client_order_id'')
        (open_client_order_ids s @ protective_client_order_ids s) @
      [ensure (set (protective_client_order_ids s) - set (open_client_order_ids s) = {})
         (DomainError ''protective orders not open''),
       (case reconciled_at_utc s of
          Some t \<Rightarrow> kill_require_utc t ''reconciled_at_utc''
        | None \<Rightarrow> ensure (\<not> snapshot_reconciliation_is_clean s)
            (DomainError ''clean reconciliation without a time''))])"

text \<open>The four fields every row has, and what each kind of row adds.\<close>

record journal_row =
  event_id :: nat
  incident_id :: nat
  correlation_id :: nat
  occurred_at_utc :: int

record trip_event = journal_row +
  actor :: string
  trip_trigger :: trip_trigger
  snapshot :: book_snapshot

record arm_event = journal_row +
  arm_operator_id :: string

record resume_event = journal_row +
  resume_operator_id :: string
  root_cause :: string

definition require_uuids :: "'a journal_row_scheme \<Rightarrow> unit result" where
  "require_uuids e = run_checks
     [void (uuid_guard DomainError (PyUUID (event_id e)) ''event_id''),
      void (uuid_guard DomainError (PyUUID (incident_id e)) ''incident_id''),
      void (uuid_guard DomainError (PyUUID (correlation_id e)) ''correlation_id'')]"

definition trip_event_post_init :: "trip_event \<Rightarrow> unit result" where
  [post_init_defs]: "trip_event_post_init e = run_checks
     [require_uuids e,
      kill_require_utc (occurred_at_utc e) ''occurred_at_utc'',
      kill_require_text (actor e) ''actor'']"

definition arm_event_post_init :: "arm_event \<Rightarrow> unit result" where
  [post_init_defs]: "arm_event_post_init e = run_checks
     [require_uuids e,
      kill_require_utc (occurred_at_utc e) ''occurred_at_utc'',
      require_human_operator (arm_operator_id e)]"

definition resume_event_post_init :: "resume_event \<Rightarrow> unit result" where
  [post_init_defs]: "resume_event_post_init e = run_checks
     [require_uuids e,
      kill_require_utc (occurred_at_utc e) ''occurred_at_utc'',
      require_human_operator (resume_operator_id e),
      kill_require_text (root_cause e) ''root_cause'',
      ensure (\<not> length (strip (root_cause e)) < MIN_ROOT_CAUSE_LENGTH)
        (DomainError ''root_cause too short'')]"

definition expires_at_utc :: "arm_event \<Rightarrow> int" where
  "expires_at_utc e = occurred_at_utc e + ARM_VALIDITY"

datatype kill_switch_event = Trip trip_event | Arm arm_event | Resume resume_event

datatype journal_read_outcome = JournalRead "kill_switch_event list" | JournalUnreadable string

definition unreadable_post_init :: "string \<Rightarrow> unit result" where
  "unreadable_post_init reason = kill_require_text reason ''reason''"

section \<open>The derived state\<close>

datatype kill_switch_status = TRADING | HALTED

text \<open>
  The sentence a halted state quotes: a text, the boot reason followed by why the journal
  was unreadable, or the rendering of a trigger's fields. Only the first can be empty;
  the other two begin with fixed words.
\<close>

datatype halted_reason =
    Reason string
  | UnreadableReason string
  | TrippedByReason trip_trigger

primrec reason_is_empty :: "halted_reason \<Rightarrow> bool" where
  "reason_is_empty (Reason s) \<longleftrightarrow> s = []"
| "reason_is_empty (UnreadableReason s) \<longleftrightarrow> False"
| "reason_is_empty (TrippedByReason t) \<longleftrightarrow> False"

record kill_switch_state =
  status :: kill_switch_status
  state_incident_id :: "nat option"
  tripped_at_utc :: "int option"
  state_trigger :: "trip_trigger option"
  state_halted_reason :: "halted_reason option"

definition kill_switch_state_post_init :: "kill_switch_state \<Rightarrow> unit result" where
  [post_init_defs]: "kill_switch_state_post_init s = run_checks
     [(if status s = HALTED
       then (case state_halted_reason s of
               None \<Rightarrow> Inl (DomainError ''halted without a reason'')
             | Some r \<Rightarrow> ensure (\<not> reason_is_empty r) (DomainError ''halted without a reason''))
       else ensure (\<not> (state_halted_reason s \<noteq> None \<or> state_incident_id s \<noteq> None \<or>
                       tripped_at_utc s \<noteq> None \<or> state_trigger s \<noteq> None))
              (DomainError ''trading carries an incident'')),
      (case tripped_at_utc s of
         Some t \<Rightarrow> kill_require_utc t ''tripped_at_utc''
       | None \<Rightarrow> Inr ())]"

definition is_halted :: "kill_switch_state \<Rightarrow> bool" where
  "is_halted s \<longleftrightarrow> status s = HALTED"

primrec event_key :: "kill_switch_event \<Rightarrow> int \<times> nat" where
  "event_key (Trip e) = (occurred_at_utc e, event_id e)"
| "event_key (Arm e) = (occurred_at_utc e, event_id e)"
| "event_key (Resume e) = (occurred_at_utc e, event_id e)"

definition in_journal_order :: "kill_switch_event list \<Rightarrow> kill_switch_event list" where
  "in_journal_order events = sort_key event_key events"

text \<open>
  The dict of open trips is its list of items in insertion order. \<open>setdefault\<close> keeps an
  existing item; \<open>pop\<close> with a default removes the item if there is one.
\<close>

primrec open_trips_step :: "(nat \<times> trip_event) list \<Rightarrow> kill_switch_event \<Rightarrow> (nat \<times> trip_event) list" where
  "open_trips_step open_trips (Trip e) =
     (case map_of open_trips (incident_id e) of
        Some _ \<Rightarrow> open_trips
      | None \<Rightarrow> open_trips @ [(incident_id e, e)])"
| "open_trips_step open_trips (Arm e) = open_trips"
| "open_trips_step open_trips (Resume e) = filter (\<lambda>(i, _). i \<noteq> incident_id e) open_trips"

definition trip_key :: "trip_event \<Rightarrow> int \<times> nat" where
  "trip_key e = (occurred_at_utc e, event_id e)"

text \<open>Python's \<open>min\<close> with a key and a default: the first of the least elements.\<close>

primrec min_by :: "('a \<Rightarrow> 'k::linorder) \<Rightarrow> 'a list \<Rightarrow> 'a option" where
  "min_by key [] = None"
| "min_by key (x # xs) =
     Some (foldl (\<lambda>least y. if key y < key least then y else least) x xs)"

definition trading_state :: kill_switch_state where
  "trading_state = \<lparr>status = TRADING, state_incident_id = None, tripped_at_utc = None,
     state_trigger = None, state_halted_reason = None\<rparr>"

definition tripped_state :: "trip_event \<Rightarrow> kill_switch_state" where
  "tripped_state e = \<lparr>status = HALTED, state_incident_id = Some (incident_id e),
     tripped_at_utc = Some (occurred_at_utc e), state_trigger = Some (trip_trigger e),
     state_halted_reason = Some (TrippedByReason (trip_trigger e))\<rparr>"

definition derive_state :: "journal_read_outcome \<Rightarrow> kill_switch_state result" where
  "derive_state outcome =
     (case outcome of
        JournalUnreadable reason \<Rightarrow>
          construct kill_switch_state_post_init
            \<lparr>status = HALTED, state_incident_id = None, tripped_at_utc = None,
             state_trigger = None, state_halted_reason = Some (UnreadableReason reason)\<rparr>
      | JournalRead events \<Rightarrow>
          (let open_trips = foldl open_trips_step [] (in_journal_order events) in
           case min_by trip_key (map snd open_trips) of
             None \<Rightarrow> construct kill_switch_state_post_init trading_state
           | Some open_trip \<Rightarrow> construct kill_switch_state_post_init (tripped_state open_trip)))"

definition derive_state_from :: "kill_switch_event list \<Rightarrow> kill_switch_state result" where
  "derive_state_from events = derive_state (JournalRead events)"

definition boot_halted_state :: "string option \<Rightarrow> kill_switch_state result" where
  "boot_halted_state reason = construct kill_switch_state_post_init
     \<lparr>status = HALTED, state_incident_id = None, tripped_at_utc = None, state_trigger = None,
      state_halted_reason = Some (Reason
        (case reason of
           Some s \<Rightarrow> if s = [] then ''the kill-switch journal has not been read yet'' else s
         | None \<Rightarrow> ''the kill-switch journal has not been read yet''))\<rparr>"

section \<open>The trip sequence\<close>

datatype trip_step =
    BLOCK_ORDER_ENTRY
  | RECORD_TRIP_EVENT
  | CANCEL_RESTING_ORDERS
  | FLATTEN_FROM_VENUE_STATE
  | RAISE_FLATTEN_BLOCKED

record trip_policy =
  on_trip_flatten :: bool
  cancel_protective_orders :: bool

definition trip_sequence :: "trip_policy \<Rightarrow> bool \<Rightarrow> trip_step list" where
  "trip_sequence policy venue_state_is_readable =
     [BLOCK_ORDER_ENTRY, RECORD_TRIP_EVENT, CANCEL_RESTING_ORDERS] @
     (if on_trip_flatten policy
      then [if venue_state_is_readable then FLATTEN_FROM_VENUE_STATE else RAISE_FLATTEN_BLOCKED]
      else [])"

definition orders_to_cancel :: "book_snapshot \<Rightarrow> trip_policy \<Rightarrow> string list" where
  "orders_to_cancel s policy =
     (if cancel_protective_orders policy then open_client_order_ids s
      else filter (\<lambda>order_id. order_id \<notin> set (protective_client_order_ids s)) (open_client_order_ids s))"

definition trip :: "nat \<Rightarrow> nat \<Rightarrow> nat \<Rightarrow> string \<Rightarrow> trip_trigger \<Rightarrow> book_snapshot \<Rightarrow> int \<Rightarrow> trip_event result" where
  "trip event incident correlation by trigger book now_utc = construct trip_event_post_init
     \<lparr>event_id = event, incident_id = incident, correlation_id = correlation,
      occurred_at_utc = now_utc, actor = by, trip_trigger = trigger, snapshot = book\<rparr>"

section \<open>Arm, then resume\<close>

definition RECONCILIATION_FRESHNESS :: int where
  "RECONCILIATION_FRESHNESS = 5 * 60 * microseconds_per_second"

definition REQUIRED_RECOVERY_STEP :: int where
  "REQUIRED_RECOVERY_STEP = 7"

record resume_preconditions =
  reconciliation_is_clean :: bool
  reconciliation_completed_at_utc :: "int option"
  trigger_condition_still_true :: bool
  recovery_step_completed :: int

definition arm :: "nat \<Rightarrow> nat \<Rightarrow> nat \<Rightarrow> string \<Rightarrow> int \<Rightarrow> arm_event result" where
  "arm event incident correlation operator_id now_utc = construct arm_event_post_init
     \<lparr>event_id = event, incident_id = incident, correlation_id = correlation,
      occurred_at_utc = now_utc, arm_operator_id = operator_id\<rparr>"

definition refuse_if :: "bool \<Rightarrow> string \<Rightarrow> string list" where
  "refuse_if b reason = (if b then [reason] else [])"

definition resume_refusals ::
  "kill_switch_state \<Rightarrow> arm_event option \<Rightarrow> string \<Rightarrow> string \<Rightarrow> resume_preconditions \<Rightarrow> int \<Rightarrow> string list" where
  "resume_refusals state armed_by operator_id cause preconditions now_utc =
     refuse_if (\<not> is_halted state) ''not halted'' @
     refuse_if (state_incident_id state = None) ''no incident is open'' @
     (case armed_by of
        None \<Rightarrow> [''no arm precedes this resume'']
      | Some a \<Rightarrow>
          refuse_if (state_incident_id state \<noteq> None \<and> Some (incident_id a) \<noteq> state_incident_id state)
            ''the arm names another incident'' @
          refuse_if (now_utc \<ge> expires_at_utc a) ''the arm expired'' @
          refuse_if (now_utc < occurred_at_utc a) ''resume before its arm'' @
          refuse_if (arm_operator_id a \<noteq> operator_id) ''armed by another operator'') @
     refuse_if (strip operator_id = []) ''no operator identity'' @
     (if strip cause = [] then [''the root cause is empty'']
      else refuse_if (length (strip cause) < MIN_ROOT_CAUSE_LENGTH) ''the root cause is too short'') @
     (if \<not> reconciliation_is_clean preconditions then [''the reconciliation was not clean'']
      else case reconciliation_completed_at_utc preconditions of
        None \<Rightarrow> [''no reconciliation completion time'']
      | Some completed \<Rightarrow>
          refuse_if (now_utc - completed > RECONCILIATION_FRESHNESS) ''the reconciliation is stale'') @
     refuse_if (trigger_condition_still_true preconditions) ''the trigger still evaluates true'' @
     refuse_if (recovery_step_completed preconditions < REQUIRED_RECOVERY_STEP) ''recovery is incomplete''"

definition resume ::
  "nat \<Rightarrow> nat \<Rightarrow> kill_switch_state \<Rightarrow> arm_event option \<Rightarrow> string \<Rightarrow> string \<Rightarrow> resume_preconditions \<Rightarrow> int \<Rightarrow>
   resume_event result" where
  "resume event correlation state armed_by operator_id cause preconditions now_utc =
     (let refusals = resume_refusals state armed_by operator_id cause preconditions now_utc in
      if refusals \<noteq> [] then Inl (ResumeRefusedError refusals)
      else case state_incident_id state of
        None \<Rightarrow> Inl (ResumeRefusedError [''no incident is open''])
      | Some incident \<Rightarrow> construct resume_event_post_init
          \<lparr>event_id = event, incident_id = incident, correlation_id = correlation,
           occurred_at_utc = now_utc, resume_operator_id = operator_id, root_cause = cause\<rparr>)"

section \<open>The gate\<close>

record kill_switch_gate =
  gate_state :: kill_switch_state

definition gate_init :: "kill_switch_state option \<Rightarrow> kill_switch_gate result" where
  "gate_init state =
     (case state of
        Some s \<Rightarrow> Inr \<lparr>gate_state = s\<rparr>
      | None \<Rightarrow> and_then (boot_halted_state None) (\<lambda>s. Inr \<lparr>gate_state = s\<rparr>))"

definition adopt :: "kill_switch_gate \<Rightarrow> kill_switch_state \<Rightarrow> kill_switch_gate" where
  "adopt g state = g\<lparr>gate_state := state\<rparr>"

definition ensure_trading :: "kill_switch_gate \<Rightarrow> unit result" where
  "ensure_trading g =
     (if status (gate_state g) = HALTED then Inl (KillSwitchTrippedError ''halted'') else Inr ())"

section \<open>What the guards of this package accept\<close>

lemma kill_require_text_ok [guard_simps]: "kill_require_text s f = Inr () \<longleftrightarrow> strip s \<noteq> []"
  by (simp add: kill_require_text_def guard_simps)

lemma kill_require_utc_ok [simp]: "kill_require_utc t f = Inr ()"
  by (simp add: kill_require_utc_def)

lemma kill_require_exact_decimal_ok [simp]: "kill_require_exact_decimal x f = Inr ()"
  by (simp add: kill_require_exact_decimal_def)

lemma require_uuids_ok [simp]: "require_uuids e = Inr ()"
  by (simp add: require_uuids_def)

text \<open>A name in the human namespace: the prefix, and somebody after it.\<close>

definition names_a_person :: "string \<Rightarrow> bool" where
  "names_a_person s \<longleftrightarrow> (\<exists>handle. s = ''human:'' @ handle \<and> strip handle \<noteq> [])"

lemma names_a_person_iff:
  "names_a_person s \<longleftrightarrow> take 6 s = ''human:'' \<and> strip (drop 6 s) \<noteq> []"
proof
  assume "names_a_person s"
  then show "take 6 s = ''human:'' \<and> strip (drop 6 s) \<noteq> []" by (auto simp: names_a_person_def)
next
  assume "take 6 s = ''human:'' \<and> strip (drop 6 s) \<noteq> []"
  then show "names_a_person s" unfolding names_a_person_def by (metis append_take_drop_id)
qed

lemma names_a_person_not_blank: "names_a_person s \<Longrightarrow> strip s \<noteq> []"
  by (auto simp: names_a_person_def strip_blank is_py_space_def)

lemma ex_unit: "(\<exists>x :: unit. P x) \<longleftrightarrow> P ()"
  by (metis (full_types) unit.exhaust)

lemma require_human_operator_ok [guard_simps]: "require_human_operator s = Inr () \<longleftrightarrow> names_a_person s"
proof -
  have "length HUMAN_OPERATOR_PREFIX = 6" by (simp add: HUMAN_OPERATOR_PREFIX_def)
  then show ?thesis
    using names_a_person_not_blank [of s]
    unfolding require_human_operator_def names_a_person_iff HUMAN_OPERATOR_PREFIX_def
    by (auto simp only: and_then_Inr_iff ex_unit guard_simps split: if_splits)
qed

lemma trading_state_valid [simp]: "kill_switch_state_post_init trading_state = Inr ()"
  by (simp add: trading_state_def kill_switch_state_post_init_def)

lemma tripped_state_valid [simp]: "kill_switch_state_post_init (tripped_state e) = Inr ()"
  by (simp add: tripped_state_def kill_switch_state_post_init_def)

section \<open>The abstract description of the state\<close>

text \<open>
  A trip of the journal is unresolved when every resume of its incident comes before it.
\<close>

primrec resumes_before :: "trip_event \<Rightarrow> kill_switch_event \<Rightarrow> bool" where
  "resumes_before t (Trip e) \<longleftrightarrow> True"
| "resumes_before t (Arm e) \<longleftrightarrow> True"
| "resumes_before t (Resume r) \<longleftrightarrow> (incident_id r = incident_id t \<longrightarrow> event_key (Resume r) < trip_key t)"

primrec trips_of :: "kill_switch_event \<Rightarrow> trip_event list" where
  "trips_of (Trip e) = [e]"
| "trips_of (Arm e) = []"
| "trips_of (Resume e) = []"

definition unresolved_trips :: "kill_switch_event list \<Rightarrow> trip_event list" where
  "unresolved_trips es = filter (\<lambda>t. list_all (resumes_before t) es) (concat (map trips_of es))"

definition described_state :: "kill_switch_event list \<Rightarrow> kill_switch_state" where
  "described_state es =
     (case sort_key trip_key (unresolved_trips es) of
        [] \<Rightarrow> trading_state
      | t # _ \<Rightarrow> tripped_state t)"

lemma event_key_Trip: "event_key (Trip t) = trip_key t"
  by (simp add: trip_key_def)

lemma trips_of_set: "t \<in> set (concat (map trips_of es)) \<longleftrightarrow> Trip t \<in> set es"
proof -
  have "t \<in> set (trips_of e) \<longleftrightarrow> e = Trip t" for e by (cases e) auto
  then show ?thesis by auto
qed

lemma unresolved_trips_set:
  "t \<in> set (unresolved_trips es) \<longleftrightarrow> Trip t \<in> set es \<and>
     (\<forall>r. Resume r \<in> set es \<longrightarrow> incident_id r = incident_id t \<longrightarrow> event_key (Resume r) < trip_key t)"
proof -
  have "list_all (resumes_before t) es \<longleftrightarrow>
      (\<forall>r. Resume r \<in> set es \<longrightarrow> incident_id r = incident_id t \<longrightarrow> event_key (Resume r) < trip_key t)"
  proof -
    have "resumes_before t e \<longleftrightarrow>
        (\<forall>r. e = Resume r \<longrightarrow> incident_id r = incident_id t \<longrightarrow> event_key (Resume r) < trip_key t)" for e
      by (cases e) auto
    then show ?thesis by (auto simp: list_all_iff)
  qed
  then show ?thesis unfolding unresolved_trips_def using trips_of_set [of t es] by auto
qed

lemma foldl_open_trips_snoc [simp]:
  "foldl open_trips_step d (es @ [e]) = open_trips_step (foldl open_trips_step d es) e"
  by simp

text \<open>
  The dict after a prefix of the ordered journal: under each incident, its earliest
  unresolved trip.
\<close>

lemma map_of_filter_neq:
  "map_of (filter (\<lambda>(i, _). i \<noteq> k) xs) j = (if j = k then None else map_of xs j)"
  by (induction xs) auto

lemma open_trips_distinct: "distinct (map fst (foldl open_trips_step [] es))"
proof (induction es rule: rev_induct)
  case Nil
  show ?case by simp
next
  case (snoc e es)
  then show ?case
    by (cases e) (auto simp: map_of_eq_None_iff distinct_map_filter split: option.splits)
qed

definition earliest_unresolved :: "kill_switch_event list \<Rightarrow> nat \<Rightarrow> trip_event \<Rightarrow> bool" where
  "earliest_unresolved es i t \<longleftrightarrow> t \<in> set (unresolved_trips es) \<and> incident_id t = i \<and>
     (\<forall>u \<in> set (unresolved_trips es). incident_id u = i \<longrightarrow> trip_key t \<le> trip_key u)"

lemma unresolved_snoc:
  assumes later: "\<forall>e \<in> set es. event_key e < event_key x"
  shows "set (unresolved_trips (es @ [x])) =
    (case x of
       Trip t \<Rightarrow> insert t (set (unresolved_trips es))
     | Arm a \<Rightarrow> set (unresolved_trips es)
     | Resume r \<Rightarrow> {t \<in> set (unresolved_trips es). incident_id t \<noteq> incident_id r})"
proof (cases x)
  case (Trip t)
  have "event_key (Resume r) < trip_key t" if "Resume r \<in> set es" for r
    using bspec [OF later that] by (simp only: Trip event_key_Trip)
  then show ?thesis unfolding Trip by (auto simp: unresolved_trips_set simp del: event_key.simps)
next
  case (Arm a)
  then show ?thesis by (auto simp: unresolved_trips_set)
next
  case (Resume r)
  have "trip_key t < event_key (Resume r)" if "Trip t \<in> set es" for t
    using bspec [OF later that] by (simp only: Resume event_key_Trip)
  then have "\<not> event_key (Resume r) < trip_key t" if "Trip t \<in> set es" for t
    using that by (meson order_less_asym)
  then show ?thesis unfolding Resume
    by (simp add: set_eq_iff unresolved_trips_set del: event_key.simps) metis
qed

definition dict_entry_ok :: "kill_switch_event list \<Rightarrow> nat \<Rightarrow> trip_event option \<Rightarrow> bool" where
  "dict_entry_ok es i entry \<longleftrightarrow>
     (case entry of
        Some t \<Rightarrow> earliest_unresolved es i t
      | None \<Rightarrow> \<forall>u \<in> set (unresolved_trips es). incident_id u \<noteq> i)"

lemma open_trips_earliest:
  "sorted_wrt (\<lambda>x y. event_key x < event_key y) es \<Longrightarrow>
    dict_entry_ok es i (map_of (foldl open_trips_step [] es) i)"
proof (induction es rule: rev_induct)
  case Nil
  show ?case by (simp add: dict_entry_ok_def unresolved_trips_def)
next
  case (snoc x es)
  let ?d = "foldl open_trips_step [] es"
  from snoc.prems have later: "\<forall>e \<in> set es. event_key e < event_key x"
    by (simp add: sorted_wrt_last)
  from snoc have IH: "dict_entry_ok es i (map_of ?d i)" by (simp add: sorted_wrt_last)
  show ?case
  proof (cases x)
    case (Trip t)
    have "trip_key u < trip_key t" if "u \<in> set (unresolved_trips es)" for u
      using that later unfolding Trip
      by (metis event_key_Trip unresolved_trips_set)
    with IH show ?thesis
      unfolding Trip
      by (auto simp: dict_entry_ok_def earliest_unresolved_def
          unresolved_snoc [OF later, unfolded Trip kill_switch_event.case]
          split: option.splits intro: order_less_imp_le)
  next
    case (Arm a)
    with IH show ?thesis
      unfolding Arm
      by (auto simp: dict_entry_ok_def earliest_unresolved_def
          unresolved_snoc [OF later, unfolded Arm kill_switch_event.case] split: option.splits)
  next
    case (Resume r)
    with IH show ?thesis
      unfolding Resume
      by (auto simp: dict_entry_ok_def earliest_unresolved_def map_of_filter_neq
          unresolved_snoc [OF later, unfolded Resume kill_switch_event.case] split: option.splits)
  qed
qed

lemma min_by_least:
  "min_by key xs = Some m \<Longrightarrow> m \<in> set xs \<and> (\<forall>x \<in> set xs. key m \<le> key x)"
proof -
  have "foldl (\<lambda>least y. if key y < key least then y else least) x ys \<in> set (x # ys) \<and>
      (\<forall>z \<in> set (x # ys). key (foldl (\<lambda>least y. if key y < key least then y else least) x ys) \<le> key z)"
    for x ys
  proof (induction ys arbitrary: x)
    case Nil
    show ?case by simp
  next
    case (Cons y ys)
    from Cons.IH [of "if key y < key x then y else x"] show ?case by (fastforce split: if_splits)
  qed
  then show "min_by key xs = Some m \<Longrightarrow> m \<in> set xs \<and> (\<forall>x \<in> set xs. key m \<le> key x)"
    by (cases xs) auto
qed

lemma min_by_None [simp]: "min_by key xs = None \<longleftrightarrow> xs = []"
  by (cases xs) auto

lemma min_by_eqI:
  assumes "m \<in> set xs" "\<And>x. x \<in> set xs \<Longrightarrow> x \<noteq> m \<Longrightarrow> key m < key x"
  shows "min_by key xs = Some m"
proof -
  from assms(1) obtain n where n: "min_by key xs = Some n"
    by (cases "min_by key xs") auto
  from min_by_least [OF n] assms show ?thesis by (metis leD n)
qed

section \<open>The fold computes the described state\<close>

lemma in_journal_order_strict:
  assumes "distinct (map event_key es)"
  shows "sorted_wrt (\<lambda>x y. event_key x < event_key y) (in_journal_order es)"
proof -
  have "distinct (map event_key (in_journal_order es))"
    using assms by (metis in_journal_order_def mset_map mset_sort mset_eq_imp_distinct_iff)
  then have "sorted_wrt (<) (map event_key (in_journal_order es))"
    by (simp add: strict_sorted_iff in_journal_order_def)
  then show ?thesis by (simp add: sorted_wrt_map)
qed

lemma set_unresolved_in_order [simp]:
  "set (unresolved_trips (in_journal_order es)) = set (unresolved_trips es)"
  by (auto simp: unresolved_trips_set in_journal_order_def)

lemma trip_key_inj:
  assumes "distinct (map event_key es)"
  shows "inj_on trip_key (set (unresolved_trips es))"
proof (rule inj_onI)
  fix t u
  assume "t \<in> set (unresolved_trips es)" "u \<in> set (unresolved_trips es)" "trip_key t = trip_key u"
  then have "Trip t \<in> set es" "Trip u \<in> set es" "event_key (Trip t) = event_key (Trip u)"
    by (simp_all only: unresolved_trips_set event_key_Trip)
  then have "Trip t = Trip u"
    using assms by (auto simp: distinct_map dest: inj_onD simp del: event_key.simps)
  then show "t = u" by simp
qed

lemma sort_key_hd_min_by:
  assumes "set ys \<subseteq> set xs" "inj_on key (set xs)"
    and "\<And>x. x \<in> set xs \<Longrightarrow> \<exists>y \<in> set ys. key y \<le> key x"
  shows "min_by key ys = (case sort_key key xs of [] \<Rightarrow> None | x # _ \<Rightarrow> Some x)"
proof (cases "sort_key key xs")
  case Nil
  then have "xs = []" by (metis length_0_conv length_sort)
  then show ?thesis using assms(1) Nil by simp
next
  case (Cons x zs)
  have sorted: "sorted (map key (x # zs))" by (metis Cons sorted_sort_key)
  have set: "set xs = insert x (set zs)" by (metis Cons set_sort list.simps(15))
  then obtain y where y: "y \<in> set ys" "key y \<le> key x" using assms(3) [of x] by blast
  moreover have "key x \<le> key y" using sorted set y(1) assms(1) by auto
  ultimately have "y = x"
    using assms(1,2) set by (metis inj_onD insertI1 order_antisym subsetD)
  have "min_by key ys = Some x"
  proof (rule min_by_eqI)
    show "x \<in> set ys" using y(1) \<open>y = x\<close> by simp
    fix z assume z: "z \<in> set ys" "z \<noteq> x"
    then have "z \<in> set xs" using assms(1) by blast
    moreover have "key x \<le> key z" using sorted set \<open>z \<in> set xs\<close> by auto
    ultimately show "key x < key z"
      using z(2) assms(2) set by (metis inj_onD insertI1 order_le_imp_less_or_eq)
  qed
  then show ?thesis using Cons by simp
qed

lemma derive_state_described:
  assumes "distinct (map event_key es)"
  shows "derive_state (JournalRead es) = Inr (described_state es)"
proof -
  let ?d = "foldl open_trips_step [] (in_journal_order es)"
  have entry: "dict_entry_ok (in_journal_order es) i (map_of ?d i)" for i
    using open_trips_earliest [OF in_journal_order_strict [OF assms]] .
  have "min_by trip_key (map snd ?d) =
      (case sort_key trip_key (unresolved_trips es) of [] \<Rightarrow> None | x # _ \<Rightarrow> Some x)"
  proof (rule sort_key_hd_min_by)
    show "inj_on trip_key (set (unresolved_trips es))" by (rule trip_key_inj [OF assms])
    have "snd p \<in> set (unresolved_trips es)" if "p \<in> set ?d" for p
    proof -
      have "map_of ?d (fst p) = Some (snd p)"
        using that open_trips_distinct by (simp add: map_of_eq_Some_iff)
      then show ?thesis
        using entry [of "fst p"] by (simp add: dict_entry_ok_def earliest_unresolved_def)
    qed
    then show "set (map snd ?d) \<subseteq> set (unresolved_trips es)" by auto
    fix u assume u: "u \<in> set (unresolved_trips es)"
    with entry [of "incident_id u"] obtain t where
      t: "map_of ?d (incident_id u) = Some t" "trip_key t \<le> trip_key u"
      by (auto simp: dict_entry_ok_def earliest_unresolved_def split: option.splits)
    from map_of_SomeD [OF t(1)] have "t \<in> set (map snd ?d)" by force
    with t(2) show "\<exists>t \<in> set (map snd ?d). trip_key t \<le> trip_key u" by blast
  qed
  then show ?thesis
    by (simp add: derive_state_def described_state_def Let_def split: list.splits)
qed

lemma described_state_status:
  "status (described_state es) = TRADING \<longleftrightarrow> unresolved_trips es = []"
proof -
  have "sort_key trip_key (unresolved_trips es) = [] \<longleftrightarrow> unresolved_trips es = []"
    by (metis length_0_conv length_sort)
  then show ?thesis
    by (auto simp: described_state_def trading_state_def tripped_state_def split: list.splits)
qed

lemma derive_state_unreadable:
  "derive_state (JournalUnreadable reason) = Inr \<lparr>status = HALTED, state_incident_id = None,
     tripped_at_utc = None, state_trigger = None,
     state_halted_reason = Some (UnreadableReason reason)\<rparr>"
  by (simp add: derive_state_def kill_switch_state_post_init_def)
section \<open>The two-step resume\<close>

lemma refuse_if_Nil [simp]: "refuse_if b r = [] \<longleftrightarrow> \<not> b"
  by (simp add: refuse_if_def)

definition resume_permitted ::
  "kill_switch_state \<Rightarrow> arm_event option \<Rightarrow> string \<Rightarrow> string \<Rightarrow> resume_preconditions \<Rightarrow> int \<Rightarrow> bool" where
  "resume_permitted state armed_by operator_id cause preconditions now_utc \<longleftrightarrow>
     status state = HALTED \<and>
     (\<exists>a incident. armed_by = Some a \<and> state_incident_id state = Some incident \<and>
        incident_id a = incident \<and> arm_operator_id a = operator_id \<and>
        occurred_at_utc a \<le> now_utc \<and> now_utc < occurred_at_utc a + 120000000) \<and>
     names_a_person operator_id \<and> 20 \<le> length (strip cause) \<and>
     reconciliation_is_clean preconditions \<and>
     (\<exists>completed. reconciliation_completed_at_utc preconditions = Some completed \<and>
        now_utc - completed \<le> 300000000) \<and>
     \<not> trigger_condition_still_true preconditions \<and>
     7 \<le> recovery_step_completed preconditions"

lemma no_refusals_iff:
  "resume_refusals state armed_by operator_id cause preconditions now_utc = [] \<and>
     names_a_person operator_id \<longleftrightarrow>
   resume_permitted state armed_by operator_id cause preconditions now_utc"
  by (auto simp: resume_refusals_def resume_permitted_def is_halted_def names_a_person_not_blank
      MIN_ROOT_CAUSE_LENGTH_def expires_at_utc_def ARM_VALIDITY_def RECONCILIATION_FRESHNESS_def
      REQUIRED_RECOVERY_STEP_def split: option.splits if_splits)

lemma resume_Inr_iff:
  "resume event correlation state armed_by operator_id cause preconditions now_utc = Inr r \<longleftrightarrow>
     resume_permitted state armed_by operator_id cause preconditions now_utc \<and>
     r = \<lparr>event_id = event, incident_id = the (state_incident_id state),
          correlation_id = correlation, occurred_at_utc = now_utc,
          resume_operator_id = operator_id, root_cause = cause\<rparr>"
proof -
  have long: "strip cause \<noteq> [] \<and> \<not> length (strip cause) < MIN_ROOT_CAUSE_LENGTH \<longleftrightarrow> 20 \<le> length (strip cause)"
    by (auto simp: MIN_ROOT_CAUSE_LENGTH_def)
  have "state_incident_id state \<noteq> None \<and> 20 \<le> length (strip cause)"
    if "resume_refusals state armed_by operator_id cause preconditions now_utc = []"
    using that long by (auto simp: resume_refusals_def split: if_splits)
  then show ?thesis
    unfolding no_refusals_iff [symmetric]
    using long
    by (auto simp: resume_def Let_def resume_event_post_init_def guard_simps split: option.splits)
qed

lemma resume_unrefused:
  assumes "resume_refusals state (Some a) operator_id cause preconditions now_utc = []"
    and "arm_event_post_init a = Inr ()"
  shows "\<exists>r. resume event correlation state (Some a) operator_id cause preconditions now_utc = Inr r"
proof -
  from assms(1) have "arm_operator_id a = operator_id" by (auto simp: resume_refusals_def)
  then have "resume_permitted state (Some a) operator_id cause preconditions now_utc"
    using assms by (simp add: no_refusals_iff [symmetric] arm_event_post_init_def guard_simps)
  then show ?thesis unfolding resume_Inr_iff by blast
qed

lemma unresolved_after_resume:
  assumes later: "\<forall>e \<in> set es. event_key e < event_key (Resume r)"
  shows "unresolved_trips (es @ [Resume r]) =
    filter (\<lambda>t. incident_id t \<noteq> incident_id r) (unresolved_trips es)"
proof -
  have "\<not> event_key (Resume r) < trip_key t" if "Trip t \<in> set es" for t
    using bspec [OF later that] unfolding event_key_Trip by (rule order_less_not_sym)
  then have "resumes_before t (Resume r) \<longleftrightarrow> incident_id t \<noteq> incident_id r"
    if "t \<in> set (concat (map trips_of es))" for t
    using that by (auto simp only: trips_of_set resumes_before.simps)
  then show ?thesis
    by (simp add: unresolved_trips_def conj_commute cong: filter_cong del: resumes_before.simps set_concat)
qed

section \<open>What a trip does to the resting orders\<close>

lemma snapshot_accepted:
  "snapshot_post_init s = Inr () \<longleftrightarrow>
     (\<forall>order_id \<in> set (open_client_order_ids s). strip order_id \<noteq> []) \<and>
     set (protective_client_order_ids s) \<subseteq> set (open_client_order_ids s) \<and>
     (snapshot_reconciliation_is_clean s \<longrightarrow> reconciled_at_utc s \<noteq> None)"
proof -
  have "(\<forall>c \<in> set (map (\<lambda>order_id. kill_require_text order_id f) xs). c = Inr ()) \<longleftrightarrow>
      (\<forall>x \<in> set xs. strip x \<noteq> [])" for f xs
    by (simp add: guard_simps)
  then show ?thesis
    by (simp add: snapshot_post_init_def run_checks_ok split: option.splits) blast
qed

text \<open>
  Under the default policy the cancelled and the protective orders split the open ones.
\<close>

lemma orders_to_cancel_partition:
  assumes "snapshot_post_init s = Inr ()" and "\<not> cancel_protective_orders policy"
  shows "set (orders_to_cancel s policy) \<union> set (protective_client_order_ids s) = set (open_client_order_ids s)"
    and "set (orders_to_cancel s policy) \<inter> set (protective_client_order_ids s) = {}"
  using assms by (auto simp: orders_to_cancel_def snapshot_accepted)

lemma trip_sequence_flattens_last:
  "FLATTEN_FROM_VENUE_STATE \<in> set (trip_sequence policy readable) \<longleftrightarrow> on_trip_flatten policy \<and> readable"
  "take 3 (trip_sequence policy readable) = [BLOCK_ORDER_ENTRY, RECORD_TRIP_EVENT, CANCEL_RESTING_ORDERS]"
  by (simp_all add: trip_sequence_def)

section \<open>The gate is a state machine\<close>

lemma boot_halted_state_ok:
  "boot_halted_state None = Inr \<lparr>status = HALTED, state_incident_id = None, tripped_at_utc = None,
     state_trigger = None,
     state_halted_reason = Some (Reason ''the kill-switch journal has not been read yet'')\<rparr>"
  by (simp add: boot_halted_state_def kill_switch_state_post_init_def)

text \<open>
  A gate of a process that boots and then adopts states: it holds only states their
  post-init hook accepted.
\<close>

interpretation gates: state_machine
  "\<lambda>g. gate_init None = Inr g" adopt "\<lambda>s. kill_switch_state_post_init s = Inr ()"
  "\<lambda>g. kill_switch_state_post_init (gate_state g) = Inr ()"
proof unfold_locales
  show "kill_switch_state_post_init (gate_state g) = Inr ()" if "gate_init None = Inr g" for g
    using that by (auto simp: gate_init_def boot_halted_state_ok kill_switch_state_post_init_def)
qed (simp add: adopt_def)

lemma foldl_adopt: "gate_state (foldl adopt g ss) = (if ss = [] then gate_state g else last ss)"
  by (induction ss rule: rev_induct) (simp_all add: adopt_def)

lemma derive_state_valid: "derive_state outcome = Inr s \<Longrightarrow> kill_switch_state_post_init s = Inr ()"
  by (auto simp: derive_state_def Let_def kill_switch_state_post_init_def trading_state_def
      tripped_state_def split: journal_read_outcome.splits option.splits)

text \<open>A boot: a fresh gate that adopts the state of each journal read in turn.\<close>

definition booted_gate :: "journal_read_outcome list \<Rightarrow> kill_switch_gate result" where
  "booted_gate outcomes = and_then (gate_init None) (\<lambda>g.
     and_then (map_result derive_state outcomes) (\<lambda>states. Inr (foldl adopt g states)))"

definition outcome_state :: "journal_read_outcome \<Rightarrow> kill_switch_state" where
  "outcome_state outcome = (case derive_state outcome of Inr s \<Rightarrow> s | Inl _ \<Rightarrow> trading_state)"

lemma derive_state_total: "derive_state outcome = Inr (outcome_state outcome)"
proof -
  have "\<exists>s. derive_state outcome = Inr s"
    by (cases outcome)
      (auto simp: derive_state_unreadable derive_state_def Let_def kill_switch_state_post_init_def
        trading_state_def tripped_state_def split: option.splits)
  then show ?thesis by (auto simp: outcome_state_def)
qed

lemma booted_gate_ok:
  "\<exists>g. booted_gate outcomes = Inr g \<and> kill_switch_state_post_init (gate_state g) = Inr () \<and>
     (status (gate_state g) = TRADING \<longleftrightarrow>
        outcomes \<noteq> [] \<and> status (outcome_state (last outcomes)) = TRADING)"
proof -
  obtain g where g: "gate_init None = Inr g" "status (gate_state g) = HALTED"
    by (simp add: gate_init_def boot_halted_state_ok)
  have "map_result derive_state outcomes = Inr (map outcome_state outcomes)"
    by (rule map_result_Inr) (rule derive_state_total)
  moreover have "list_all (\<lambda>s. kill_switch_state_post_init s = Inr ()) (map outcome_state outcomes)"
    by (auto simp: list_all_iff intro: derive_state_valid [OF derive_state_total])
  from gates.inv_run [OF g(1) this]
  have "kill_switch_state_post_init (gate_state (foldl adopt g (map outcome_state outcomes))) = Inr ()" .
  ultimately show ?thesis
    using g by (simp add: booted_gate_def foldl_adopt last_map)
qed

section \<open>A concrete journal\<close>

definition example_trigger :: trip_trigger where
  "example_trigger = \<lparr>trigger_id = ''equity_drawdown'', unit_of_measure = ''ratio'',
     observed_value = 1 / 4, threshold_value = 1 / 5, detail = ''drawdown past the halt''\<rparr>"

definition example_book :: book_snapshot where
  "example_book = \<lparr>snapshot_portfolio = \<lparr>as_of_utc = 0, positions = [], cash_balances = []\<rparr>,
     open_client_order_ids = [''a'', ''b'', ''c''], protective_client_order_ids = [''b''],
     reconciled_at_utc = None, snapshot_reconciliation_is_clean = False\<rparr>"

definition example_trip :: "nat \<Rightarrow> nat \<Rightarrow> int \<Rightarrow> trip_event" where
  "example_trip event incident t = \<lparr>event_id = event, incident_id = incident, correlation_id = 9,
     occurred_at_utc = t, actor = ''risk'', trip_trigger = example_trigger, snapshot = example_book\<rparr>"

definition example_arm :: arm_event where
  "example_arm = \<lparr>event_id = 30, incident_id = 1, correlation_id = 9, occurred_at_utc = 1000000,
     arm_operator_id = ''human:ada''\<rparr>"

definition example_cause :: string where
  "example_cause = ''the testnet was wiped at midnight''"

definition example_preconditions :: resume_preconditions where
  "example_preconditions = \<lparr>reconciliation_is_clean = True,
     reconciliation_completed_at_utc = Some 900000, trigger_condition_still_true = False,
     recovery_step_completed = 7\<rparr>"

definition example_resume :: resume_event where
  "example_resume = \<lparr>event_id = 40, incident_id = 1, correlation_id = 9, occurred_at_utc = 2000000,
     resume_operator_id = ''human:ada'', root_cause = example_cause\<rparr>"

text \<open>Two correlated incidents trip at the same instant; the operator arms for the first.\<close>

definition example_journal :: "kill_switch_event list" where
  "example_journal = [Arm example_arm, Trip (example_trip 20 2 500), Trip (example_trip 10 1 500),
     Trip (example_trip 21 2 700)]"

lemmas example_journal_defs = example_journal_def example_trip_def example_arm_def example_resume_def

lemma example_unresolved:
  "unresolved_trips example_journal = [example_trip 20 2 500, example_trip 10 1 500, example_trip 21 2 700]"
  by (simp add: unresolved_trips_def example_journal_defs)

lemma example_keys: "distinct (map event_key (example_journal @ [Resume example_resume]))"
  by (simp add: example_journal_defs)

lemma example_described: "described_state example_journal = tripped_state (example_trip 10 1 500)"
  by (simp add: described_state_def example_unresolved trip_key_def) (simp add: example_trip_def)

section \<open>Properties\<close>

text \<open>
  C5. On a journal whose rows have distinct (time, event id) pairs, the state derived by
  folding the ordered rows is the described one: trading when every trip is answered by a
  later resume of its incident; otherwise halted by the earliest trip that is not, naming
  its incident, time and trigger. In particular arms and elapsed time open nothing, and a
  resume clears the one incident it names.
\<close>

theorem derive_state_refines_journal:
  assumes "distinct (map event_key es)"
  shows "derive_state (JournalRead es) = Inr (described_state es)"
  by (rule derive_state_described [OF assms])

theorem derive_state_refines_journal_witness:
  "derive_state (JournalRead example_journal) = Inr (tripped_state (example_trip 10 1 500))"
  using derive_state_refines_journal [of example_journal] example_keys
  by (simp add: example_described)

text \<open>
  The state does not depend on the order in which the reader returns the rows, even
  when rows share a timestamp.
\<close>

theorem journal_order_irrelevant:
  assumes "distinct (map event_key es)" and "mset es = mset es'"
  shows "derive_state_from es = derive_state_from es'"
proof -
  have "in_journal_order es = in_journal_order es'"
    unfolding in_journal_order_def
    using assms by (intro sort_key_inj_key_eq) (simp_all add: distinct_map)
  then show ?thesis by (simp add: derive_state_from_def derive_state_def)
qed

theorem journal_order_irrelevant_witness:
  "derive_state_from (rev example_journal) = derive_state_from example_journal"
  using journal_order_irrelevant [of "rev example_journal" example_journal] example_keys
  by (simp add: rev_map [symmetric])

text \<open>
  A resume event is returned exactly when the whole procedure holds: the switch is
  halted on an incident, an arm for that incident by the same person is at most 120
  seconds old and not in the future, the operator is a named person, the root cause has
  at least twenty characters, the last reconciliation was clean and completed no more
  than five minutes ago, the trigger no longer holds and all seven recovery steps are
  done. The event then names that incident.
\<close>

theorem resume_iff_permitted:
  "resume event correlation state armed_by operator_id cause preconditions now_utc = Inr r \<longleftrightarrow>
     status state = HALTED \<and>
     (\<exists>a incident. armed_by = Some a \<and> state_incident_id state = Some incident \<and>
        incident_id a = incident \<and> arm_operator_id a = operator_id \<and>
        occurred_at_utc a \<le> now_utc \<and> now_utc < occurred_at_utc a + 120000000) \<and>
     (\<exists>handle. operator_id = ''human:'' @ handle \<and> strip handle \<noteq> []) \<and>
     20 \<le> length (strip cause) \<and> reconciliation_is_clean preconditions \<and>
     (\<exists>completed. reconciliation_completed_at_utc preconditions = Some completed \<and>
        now_utc - completed \<le> 300000000) \<and>
     \<not> trigger_condition_still_true preconditions \<and>
     7 \<le> recovery_step_completed preconditions \<and>
     r = \<lparr>event_id = event, incident_id = the (state_incident_id state),
          correlation_id = correlation, occurred_at_utc = now_utc,
          resume_operator_id = operator_id, root_cause = cause\<rparr>"
  unfolding resume_Inr_iff resume_permitted_def names_a_person_def by blast

text \<open>
  Whatever a resume attempt backed by a recorded arm raises is a refusal that names
  at least one reason, and it is raised exactly when some reason holds.
\<close>

theorem resume_refuses_with_reasons:
  assumes "arm_event_post_init a = Inr ()"
  shows "case resume event correlation state (Some a) operator_id cause preconditions now_utc of
      Inr r \<Rightarrow> resume_refusals state (Some a) operator_id cause preconditions now_utc = []
    | Inl e \<Rightarrow> e = ResumeRefusedError
          (resume_refusals state (Some a) operator_id cause preconditions now_utc) \<and>
        resume_refusals state (Some a) operator_id cause preconditions now_utc \<noteq> []"
proof (cases "resume_refusals state (Some a) operator_id cause preconditions now_utc = []")
  case True
  from resume_unrefused [OF this assms, of event correlation] True show ?thesis
    by (auto split: sum.splits)
next
  case False
  then show ?thesis by (simp add: resume_def)
qed

theorem resume_refuses_with_reasons_witness:
  "case resume 40 9 trading_state (Some example_arm) ''human:ada'' example_cause example_preconditions 2000000 of
      Inr r \<Rightarrow> False
    | Inl e \<Rightarrow> e = ResumeRefusedError [''not halted'', ''no incident is open'']"
proof -
  have "arm_event_post_init example_arm = Inr ()"
    by (simp add: arm_event_post_init_def guard_simps names_a_person_def example_arm_def strip_blank
        is_py_space_def)
  from resume_refuses_with_reasons [OF this, where event = 40 and correlation = 9
      and state = trading_state and operator_id = "''human:ada''" and cause = example_cause
      and preconditions = example_preconditions and now_utc = 2000000]
  show ?thesis
    by (simp add: resume_refusals_def example_arm_def example_preconditions_def trading_state_def
        is_halted_def expires_at_utc_def ARM_VALIDITY_def example_cause_def strip_def is_py_space_def
        MIN_ROOT_CAUSE_LENGTH_def RECONCILIATION_FRESHNESS_def REQUIRED_RECOVERY_STEP_def refuse_if_def
        split: sum.splits)
qed

text \<open>
  C26. A resume that the procedure returned, appended as the latest row, closes exactly
  the incident the state named: the next state is halted by the earliest unresolved trip
  of the other incidents, and trading only when there is none.
\<close>

theorem resume_closes_exactly_its_incident:
  assumes "distinct (map event_key es)"
    and "derive_state (JournalRead es) = Inr state"
    and "resume event correlation state armed_by operator_id cause preconditions now_utc = Inr r"
    and "\<forall>e \<in> set es. event_key e < (now_utc, event)"
  shows "\<exists>t. Trip t \<in> set es \<and> state = tripped_state t \<and>
    derive_state (JournalRead (es @ [Resume r])) =
      Inr (case sort_key trip_key (filter (\<lambda>u. incident_id u \<noteq> incident_id t) (unresolved_trips es)) of
             [] \<Rightarrow> trading_state
           | u # _ \<Rightarrow> tripped_state u)"
proof -
  have state: "state = described_state es"
    using assms(2) derive_state_described [OF assms(1)] by simp
  from assms(3) have r: "status state = HALTED" "event_key (Resume r) = (now_utc, event)"
      "incident_id r = the (state_incident_id state)"
    by (auto simp: resume_Inr_iff resume_permitted_def)
  from state r(1) obtain t where t: "t \<in> set (unresolved_trips es)" "state = tripped_state t"
    by (auto simp: described_state_def trading_state_def split: list.splits)
      (metis list.set_intros(1) set_sort)
  have later: "\<forall>e \<in> set es. event_key e < event_key (Resume r)" using assms(4) r(2) by simp
  then have "distinct (map event_key (es @ [Resume r]))" using assms(1) by auto
  from derive_state_described [OF this] have "derive_state (JournalRead (es @ [Resume r])) =
      Inr (case sort_key trip_key (filter (\<lambda>u. incident_id u \<noteq> incident_id r) (unresolved_trips es)) of
             [] \<Rightarrow> trading_state
           | u # _ \<Rightarrow> tripped_state u)"
    unfolding described_state_def unresolved_after_resume [OF later] .
  moreover have "incident_id r = incident_id t" using r(3) t(2) by (simp add: tripped_state_def)
  ultimately show ?thesis using t by (auto simp: unresolved_trips_set)
qed

theorem resume_closes_exactly_its_incident_witness:
  "derive_state (JournalRead (example_journal @ [Resume example_resume])) =
     Inr (tripped_state (example_trip 20 2 500))"
proof -
  have "resume 40 9 (tripped_state (example_trip 10 1 500)) (Some example_arm) ''human:ada'' example_cause
      example_preconditions 2000000 = Inr example_resume"
    by (simp add: resume_Inr_iff resume_permitted_def tripped_state_def names_a_person_def
        example_journal_defs example_preconditions_def example_cause_def strip_def is_py_space_def)
  from resume_closes_exactly_its_incident [OF _ _ this, of example_journal] example_keys
    derive_state_described [of example_journal]
  obtain t where "tripped_state (example_trip 10 1 500) = tripped_state t"
    "derive_state (JournalRead (example_journal @ [Resume example_resume])) =
      Inr (case sort_key trip_key (filter (\<lambda>u. incident_id u \<noteq> incident_id t) (unresolved_trips example_journal)) of
             [] \<Rightarrow> trading_state
           | u # _ \<Rightarrow> tripped_state u)"
    by (auto simp: example_described) (auto simp: example_journal_defs)
  then show ?thesis
    by (simp add: example_unresolved tripped_state_def) (simp add: example_trip_def trip_key_def)
qed

text \<open>
  C4. A gate starts closed, and after any number of journal reads it lets orders through
  exactly when the last read succeeded and found every trip answered. While it is closed,
  its state says why.
\<close>

theorem gate_opens_only_on_proof:
  assumes "\<forall>es. JournalRead es \<in> set outcomes \<longrightarrow> distinct (map event_key es)"
  shows "\<exists>g. booted_gate outcomes = Inr g \<and>
    (ensure_trading g = Inr () \<longleftrightarrow>
       outcomes \<noteq> [] \<and> (\<exists>es. last outcomes = JournalRead es \<and> unresolved_trips es = [])) \<and>
    (ensure_trading g \<noteq> Inr () \<longrightarrow>
       (\<exists>reason. state_halted_reason (gate_state g) = Some reason \<and> \<not> reason_is_empty reason))"
proof -
  obtain g where g: "booted_gate outcomes = Inr g" "kill_switch_state_post_init (gate_state g) = Inr ()"
      "status (gate_state g) = TRADING \<longleftrightarrow>
        outcomes \<noteq> [] \<and> status (outcome_state (last outcomes)) = TRADING"
    using booted_gate_ok by blast
  have "status (outcome_state (last outcomes)) = TRADING \<longleftrightarrow>
      (\<exists>es. last outcomes = JournalRead es \<and> unresolved_trips es = [])" if "outcomes \<noteq> []"
    using assms that last_in_set [OF that]
    by (cases "last outcomes") (auto simp: outcome_state_def derive_state_described
        described_state_status derive_state_unreadable)
  moreover have "ensure_trading g = Inr () \<longleftrightarrow> status (gate_state g) = TRADING"
    by (cases "status (gate_state g)") (simp_all add: ensure_trading_def)
  moreover have "status (gate_state g) \<noteq> TRADING \<longrightarrow>
      (\<exists>reason. state_halted_reason (gate_state g) = Some reason \<and> \<not> reason_is_empty reason)"
    using g(2) by (cases "status (gate_state g)")
      (auto simp: kill_switch_state_post_init_def split: option.splits)
  ultimately show ?thesis using g by auto
qed

theorem gate_opens_only_on_proof_witness:
  "\<exists>g. booted_gate [JournalUnreadable ''grant revoked'', JournalRead example_journal,
       JournalRead [Arm example_arm]] = Inr g \<and> ensure_trading g = Inr ()"
  using gate_opens_only_on_proof [of "[JournalUnreadable ''grant revoked'', JournalRead example_journal,
      JournalRead [Arm example_arm]]"] example_keys
  by (auto simp: unresolved_trips_def)

end
