(* ===== verification/EventQueues.thy ===== *)
theory EventQueues
  imports Orders "HOL-Library.Product_Lexorder" "HOL-Library.Multiset"
begin

text \<open>
  What the backtest engine's loop runs on: its guards (\<open>src/fking/backtest/_guards.py\<close>),
  the events and their priority bands (\<open>_events.py\<close>), the simulation clock
  (\<open>_clock.py\<close>) and the event queue (\<open>_queue.py\<close>). The queue is shown to be a priority
  queue whose keys are distinct, so that draining it is sorting.
\<close>

section \<open>The engine's guards\<close>

definition engine_require_utc :: "pyobj \<Rightarrow> string \<Rightarrow> int result" where
  "engine_require_utc = utc_guard RunConfigError"

definition engine_require_finite_decimal :: "pyobj \<Rightarrow> string \<Rightarrow> rat result" where
  "engine_require_finite_decimal = decimal_guard RunConfigError"

definition engine_require_text :: "pyobj \<Rightarrow> string \<Rightarrow> string result" where
  "engine_require_text = text_guard RunConfigError"

definition engine_require_positive_int :: "pyobj \<Rightarrow> string \<Rightarrow> int result" where
  "engine_require_positive_int candidate field =
     (case candidate of
        PyInt n \<Rightarrow> if n \<le> 0 then Inl (RunConfigError (field @ '' not positive'')) else Inr n
      | _ \<Rightarrow> Inl (RunConfigError (field @ '' type'')))"

lemma engine_guards_typed [simp]:
  "engine_require_utc (utc t) f = Inr t"
  "engine_require_finite_decimal (dec x) f = Inr x"
  by (simp_all add: engine_require_utc_def engine_require_finite_decimal_def)

lemma engine_require_text_str [guard_simps]:
  "engine_require_text (PyStr s) f = Inr t \<longleftrightarrow> t = s \<and> strip s \<noteq> []"
  by (simp add: engine_require_text_def guard_simps)

lemma engine_require_positive_int_accepts [guard_simps]:
  "engine_require_positive_int c f = Inr n \<longleftrightarrow> c = PyInt n \<and> 0 < n"
  by (auto simp: engine_require_positive_int_def split: pyobj.splits if_splits)

section \<open>Events\<close>

text \<open>The bands and their numbers; the lower one is dispatched first.\<close>

datatype event_priority = MARKET_DATA | FUNDING | VENUE | TIMER | RECONCILIATION

primrec priority_value :: "event_priority \<Rightarrow> int" where
  "priority_value MARKET_DATA = 0"
| "priority_value FUNDING = 1"
| "priority_value VENUE = 2"
| "priority_value TIMER = 3"
| "priority_value RECONCILIATION = 4"

datatype observation = ObservedBar bar | ObservedTick tick

datatype event =
    MarketDataEvent observation
  | FundingEvent instrument int rat
  | OrderAckEvent order int
  | FillEvent fill
  | RejectEvent order int string
  | TimerEvent string int string
  | ReconciliationEvent venue int

text \<open>A bar is knowable at its close, a tick and a fill at the instant stamped on them.\<close>

primrec observation_occurs_at_utc :: "observation \<Rightarrow> int" where
  "observation_occurs_at_utc (ObservedBar b) = close_time_utc b"
| "observation_occurs_at_utc (ObservedTick t) = tick_event_time_utc t"

primrec event_occurs_at_utc :: "event \<Rightarrow> int" where
  "event_occurs_at_utc (MarketDataEvent obs) = observation_occurs_at_utc obs"
| "event_occurs_at_utc (FundingEvent i t rate) = t"
| "event_occurs_at_utc (OrderAckEvent r t) = t"
| "event_occurs_at_utc (FillEvent f) = fill_event_time_utc f"
| "event_occurs_at_utc (RejectEvent r t reason) = t"
| "event_occurs_at_utc (TimerEvent s t label) = t"
| "event_occurs_at_utc (ReconciliationEvent v t) = t"

primrec priority_of :: "event \<Rightarrow> event_priority" where
  "priority_of (MarketDataEvent obs) = MARKET_DATA"
| "priority_of (FundingEvent i t rate) = FUNDING"
| "priority_of (OrderAckEvent r t) = VENUE"
| "priority_of (FillEvent f) = VENUE"
| "priority_of (RejectEvent r t reason) = VENUE"
| "priority_of (TimerEvent s t label) = TIMER"
| "priority_of (ReconciliationEvent v t) = RECONCILIATION"

primrec event_post_init :: "event \<Rightarrow> unit result" where
  "event_post_init (MarketDataEvent obs) = Inr ()"
| "event_post_init (FundingEvent i t rate) = run_checks
     [void (engine_require_utc (utc t) ''occurs_at_utc''),
      void (engine_require_finite_decimal (dec rate) ''funding_rate'')]"
| "event_post_init (OrderAckEvent r t) = void (engine_require_utc (utc t) ''occurs_at_utc'')"
| "event_post_init (FillEvent f) = Inr ()"
| "event_post_init (RejectEvent r t reason) = run_checks
     [void (engine_require_utc (utc t) ''occurs_at_utc''),
      void (engine_require_text (PyStr reason) ''reason'')]"
| "event_post_init (TimerEvent s t label) = run_checks
     [void (engine_require_text (PyStr s) ''strategy_id''),
      void (engine_require_utc (utc t) ''occurs_at_utc''),
      void (engine_require_text (PyStr label) ''label'')]"
| "event_post_init (ReconciliationEvent v t) = void (engine_require_utc (utc t) ''occurs_at_utc'')"

primrec event_type_name :: "event \<Rightarrow> string" where
  "event_type_name (MarketDataEvent obs) = ''MarketDataEvent''"
| "event_type_name (FundingEvent i t rate) = ''FundingEvent''"
| "event_type_name (OrderAckEvent r t) = ''OrderAckEvent''"
| "event_type_name (FillEvent f) = ''FillEvent''"
| "event_type_name (RejectEvent r t reason) = ''RejectEvent''"
| "event_type_name (TimerEvent s t label) = ''TimerEvent''"
| "event_type_name (ReconciliationEvent v t) = ''ReconciliationEvent''"

section \<open>The clock\<close>

record simulation_clock =
  clock_now_utc :: int

definition clock_init :: "pyobj \<Rightarrow> simulation_clock result" where
  "clock_init start_utc = and_then (engine_require_utc start_utc ''start_utc'')
     (\<lambda>t. Inr \<lparr>clock_now_utc = t\<rparr>)"

definition advance_to :: "simulation_clock \<Rightarrow> pyobj \<Rightarrow> simulation_clock result" where
  "advance_to c instant_utc =
     and_then (engine_require_utc instant_utc ''instant_utc'') (\<lambda>t.
       if t < clock_now_utc c then Inl (CausalityError ''simulated time moved backwards'')
       else Inr (c\<lparr>clock_now_utc := t\<rparr>))"

lemma advance_to_utc [simp]:
  "advance_to c (utc t) =
     (if t < clock_now_utc c then Inl (CausalityError ''simulated time moved backwards'')
      else Inr (c\<lparr>clock_now_utc := t\<rparr>))"
  by (simp add: advance_to_def)

section \<open>The queue\<close>

text \<open>
  \<open>heapq\<close> is observed through the heap's length, its first element and its pops; it is
  modelled as the list of its elements in increasing order of key.
\<close>

record queued_event =
  queued_occurs_at_utc :: int
  queued_priority :: event_priority
  queued_sequence :: nat
  queued_event :: event

definition ordering_key :: "queued_event \<Rightarrow> int \<times> int \<times> nat" where
  "ordering_key q = (queued_occurs_at_utc q, priority_value (queued_priority q), queued_sequence q)"

definition heappush :: "queued_event list \<Rightarrow> queued_event \<Rightarrow> queued_event list" where
  "heappush heap queued = insort_key ordering_key queued heap"

record event_queue =
  heap :: "queued_event list"
  sequence :: nat

definition queue_init :: event_queue where
  "queue_init = \<lparr>heap = [], sequence = 0\<rparr>"

definition queue_length :: "event_queue \<Rightarrow> nat" where
  "queue_length q = length (heap q)"

definition queue_schedule :: "event_queue \<Rightarrow> event \<Rightarrow> queued_event \<times> event_queue" where
  "queue_schedule q e =
     (let queued = \<lparr>queued_occurs_at_utc = event_occurs_at_utc e,
            queued_priority = priority_of e, queued_sequence = sequence q, queued_event = e\<rparr>
      in (queued, q\<lparr>sequence := sequence q + 1, heap := heappush (heap q) queued\<rparr>))"

definition queue_peek :: "event_queue \<Rightarrow> queued_event option" where
  "queue_peek q = (case heap q of [] \<Rightarrow> None | x # _ \<Rightarrow> Some x)"

definition queue_pop :: "event_queue \<Rightarrow> (queued_event \<times> event_queue) result" where
  "queue_pop q =
     (case heap q of
        [] \<Rightarrow> Inl (BacktestError ''pop from an empty event queue'')
      | x # xs \<Rightarrow> Inr (x, q\<lparr>heap := xs\<rparr>))"

section \<open>The contract of a priority queue\<close>

lemma sort_key_eqI:
  assumes "mset ys = mset xs" "sorted (map key ys)" "inj_on key (set ys)"
  shows "ys = sort_key key xs"
proof -
  have "sort_key key ys = sort_key key xs"
    using assms(1,3) by (intro sort_key_inj_key_eq) simp_all
  then show ?thesis using assms(2) by (simp add: sort_key_id_if_sorted)
qed

text \<open>
  What a client of a priority queue relies on: pushing adds one item, popping a non-empty
  queue removes one whose key is less than every other one's. The client fact is that
  popping until nothing is left yields the items in the order of their keys, and that no
  other order does.
\<close>

locale priority_queue =
  fixes items :: "'q \<Rightarrow> 'i list"
    and key :: "'i \<Rightarrow> 'k::linorder"
    and push :: "'q \<Rightarrow> 'a \<Rightarrow> 'i \<times> 'q"
    and pop :: "'q \<Rightarrow> ('i \<times> 'q) result"
    and wf :: "'q \<Rightarrow> bool"
  assumes push_wf: "wf q \<Longrightarrow> wf (snd (push q a))"
    and push_items: "wf q \<Longrightarrow> mset (items (snd (push q a))) = add_mset (fst (push q a)) (mset (items q))"
    and pop_empty: "items q = [] \<Longrightarrow> \<exists>e. pop q = Inl e"
    and pop_least: "wf q \<Longrightarrow> items q \<noteq> [] \<Longrightarrow>
      \<exists>i r. pop q = Inr (i, r) \<and> wf r \<and> mset (items q) = add_mset i (mset (items r)) \<and>
        (\<forall>j \<in> set (items r). key i < key j)"
begin

primrec drain :: "nat \<Rightarrow> 'q \<Rightarrow> 'i list" where
  "drain 0 q = []"
| "drain (Suc n) q = (case pop q of Inl e \<Rightarrow> [] | Inr (i, r) \<Rightarrow> i # drain n r)"

lemma drain_items:
  "wf q \<Longrightarrow> length (items q) = n \<Longrightarrow>
    mset (drain n q) = mset (items q) \<and> sorted_wrt (\<lambda>i j. key i < key j) (drain n q)"
proof (induction n arbitrary: q)
  case 0
  then show ?case by simp
next
  case (Suc n)
  then have "items q \<noteq> []" by auto
  from pop_least [OF Suc.prems(1) this] obtain i r where
    pop: "pop q = Inr (i, r)" "wf r" "mset (items q) = add_mset i (mset (items r))"
      "\<forall>j \<in> set (items r). key i < key j" by blast
  from pop(3) Suc.prems(2) have "length (items r) = n" by (metis size_mset size_add_mset nat.inject)
  from Suc.IH [OF pop(2) this] pop show ?case by (auto dest: mset_eq_setD)
qed

lemma drain_sort: "wf q \<Longrightarrow> drain (length (items q)) q = sort_key key (items q)"
proof -
  assume "wf q"
  note drained = drain_items [OF this refl]
  then have "sorted_wrt (<) (map key (drain (length (items q)) q))"
    by (simp add: sorted_wrt_map)
  then have "distinct (map key (drain (length (items q)) q))"
    and "sorted (map key (drain (length (items q)) q))"
    by (simp_all only: strict_sorted_iff)
  with drained show ?thesis
    by (intro sort_key_eqI) (simp_all add: distinct_map)
qed

end

section \<open>The event queue is one\<close>

definition queue_wf :: "event_queue \<Rightarrow> bool" where
  "queue_wf q \<longleftrightarrow> sorted_wrt (\<lambda>x y. ordering_key x < ordering_key y) (heap q) \<and>
     (\<forall>x \<in> set (heap q). queued_sequence x < sequence q)"


lemma sorted_wrt_insort_key:
  "sorted_wrt (\<lambda>x y. key x < key y) xs \<Longrightarrow> key a \<notin> key ` set xs \<Longrightarrow>
    sorted_wrt (\<lambda>x y. key x < key y) (insort_key key a xs)"
  by (induction xs) (auto simp: set_insort_key not_le intro: order_le_neq_trans)

lemma queue_schedule_items:
  "heap (snd (queue_schedule q e)) = insort_key ordering_key (fst (queue_schedule q e)) (heap q)"
  by (simp add: queue_schedule_def heappush_def Let_def)

lemma queue_schedule_wf: "queue_wf q \<Longrightarrow> queue_wf (snd (queue_schedule q e))"
proof -
  assume "queue_wf q"
  then have "ordering_key (fst (queue_schedule q e)) \<notin> ordering_key ` set (heap q)"
    by (auto simp: queue_wf_def queue_schedule_def ordering_key_def Let_def)
  with \<open>queue_wf q\<close> show ?thesis
    unfolding queue_wf_def queue_schedule_items
    by (auto simp: queue_schedule_def Let_def set_insort_key intro: sorted_wrt_insort_key)
qed

lemma queue_init_wf [simp]: "queue_wf queue_init"
  by (simp add: queue_init_def queue_wf_def)

interpretation pending: priority_queue heap ordering_key "\<lambda>q e. queue_schedule q e" queue_pop queue_wf
proof unfold_locales
  show "queue_wf (snd (queue_schedule q e))" if "queue_wf q" for q e
    using that by (rule queue_schedule_wf)
  show "mset (heap (snd (queue_schedule q e))) = add_mset (fst (queue_schedule q e)) (mset (heap q))" for q e
    by (simp add: queue_schedule_items)
  show "\<exists>e. queue_pop q = Inl e" if "heap q = []" for q
    using that by (simp add: queue_pop_def)
  show "\<exists>i r. queue_pop q = Inr (i, r) \<and> queue_wf r \<and> mset (heap q) = add_mset i (mset (heap r)) \<and>
      (\<forall>j \<in> set (heap r). ordering_key i < ordering_key j)" if "queue_wf q" "heap q \<noteq> []" for q
    using that by (cases "heap q") (auto simp: queue_pop_def queue_wf_def)
qed

lemma queue_pop_cases:
  assumes "queue_pop q = Inr (x, r)"
  shows "heap q = x # heap r" "sequence r = sequence q"
  using assms by (auto simp: queue_pop_def split: list.splits)

end
