(* ===== verification/Engine.thy ===== *)
theory Engine
  imports EventQueues "HOL-Library.Sublist"
begin

text \<open>
  The event loop of \<open>src/fking/backtest/_engine.py\<close> and the configuration it runs under
  (\<open>_config.py\<close>): the context a handler gets, the dispatch loop, the trace it leaves and
  the report it owes the trial ledger. Three things are arguments of the model: the
  handler (a protocol the loop's callers implement), the reporter (the ledger's side) and
  the digests of canonical JSON, which the loop only records.
\<close>

section \<open>Run configurations\<close>

record run_config =
  config_strategy_id :: string
  strategy_version :: string
  symbols :: "string list"
  parameters :: "(string \<times> rat) list"
  start_utc :: int
  end_utc :: int
  run_seed :: int
  event_budget :: int

definition DEFAULT_EVENT_BUDGET :: int where
  "DEFAULT_EVENT_BUDGET = 1000000"

definition run_config_post_init :: "run_config \<Rightarrow> unit result" where
  [post_init_defs]: "run_config_post_init c = run_checks
     ([void (engine_require_text (PyStr (config_strategy_id c)) ''strategy_id''),
       void (engine_require_text (PyStr (strategy_version c)) ''strategy_version''),
       void (engine_require_utc (utc (start_utc c)) ''start_utc''),
       void (engine_require_utc (utc (end_utc c)) ''end_utc''),
       void (engine_require_positive_int (PyInt (event_budget c)) ''event_budget''),
       ensure (0 \<le> run_seed c) (RunConfigError ''run_seed negative''),
       ensure (start_utc c < end_utc c) (RunConfigError ''end_utc order''),
       ensure (symbols c \<noteq> []) (RunConfigError ''no symbols'')] @
      map (\<lambda>symbol. void (engine_require_text (PyStr symbol) ''symbol'')) (symbols c) @
      [ensure (distinct (symbols c)) (RunConfigError ''duplicate symbol'')] @
      concat (map (\<lambda>(name, parameter).
        [void (engine_require_text (PyStr name) ''parameter name''),
         void (engine_require_finite_decimal (dec parameter) name)]) (parameters c)))"

lemma run_config_accepted:
  assumes "run_config_post_init c = Inr ()"
  shows "start_utc c < end_utc c" "0 < event_budget c" "0 \<le> run_seed c" "distinct (symbols c)"
  using assms by (simp_all add: run_config_post_init_def guard_simps)

section \<open>What the trial ledger says, and what it is told\<close>

record spec_registration =
  spec_hash :: string
  trials_charged :: int

definition lower :: "string \<Rightarrow> string" where
  "lower s = map (\<lambda>c. if is_upper c then char_of (of_char c + 32 :: nat) else c) s"

definition spec_registration_post_init :: "spec_registration \<Rightarrow> unit result" where
  [post_init_defs]: "spec_registration_post_init r = run_checks
     [ensure (length (spec_hash r) = 64) (RunConfigError ''spec_hash length''),
      ensure (spec_hash r = lower (spec_hash r) \<and>
              list_all (\<lambda>c. c \<in> set ''0123456789abcdef'') (spec_hash r))
        (RunConfigError ''spec_hash hex''),
      ensure (0 \<le> trials_charged r) (RunConfigError ''trials_charged negative'')]"

definition is_registered :: "spec_registration \<Rightarrow> bool" where
  "is_registered r \<longleftrightarrow> 0 < trials_charged r"

datatype execution_outcome = COMPLETED | FAILED

record execution_report =
  report_spec_hash :: string
  report_config_hash :: string
  report_path_label :: string
  report_outcome :: execution_outcome
  failure_detail :: "string option"
  dispatched_event_count :: int

definition FAILURE_DETAIL_LIMIT_BYTES :: nat where
  "FAILURE_DETAIL_LIMIT_BYTES = 16384"

text \<open>
  UTF-8 on the model's code points: one byte below 128, two from 128 to 255. Decoding
  with \<open>errors="ignore"\<close> drops the bytes that start no character.
\<close>

fun utf8_encode :: "string \<Rightarrow> nat list" where
  "utf8_encode [] = []"
| "utf8_encode (c # cs) =
     (let n = of_char c in
      (if n < 128 then [n] else [192 + n div 64, 128 + n mod 64]) @ utf8_encode cs)"

fun utf8_decode_ignore :: "nat list \<Rightarrow> string" where
  "utf8_decode_ignore [] = []"
| "utf8_decode_ignore (b # bs) =
     (if b < 128 then char_of b # utf8_decode_ignore bs
      else if b \<in> {194, 195} then
        (case bs of
           c # cs \<Rightarrow>
             if 128 \<le> c \<and> c < 192 then char_of ((b - 192) * 64 + (c - 128)) # utf8_decode_ignore cs
             else utf8_decode_ignore bs
         | [] \<Rightarrow> [])
      else utf8_decode_ignore bs)"

definition execution_report_post_init :: "execution_report \<Rightarrow> unit result" where
  [post_init_defs]: "execution_report_post_init r = run_checks
     [void (engine_require_text (PyStr (report_path_label r)) ''path_label''),
      ensure (0 \<le> dispatched_event_count r) (ExecutionReportError ''dispatched_event_count''),
      ensure ((failure_detail r \<noteq> None) = (report_outcome r = FAILED))
        (ExecutionReportError ''outcome and failure_detail''),
      (case failure_detail r of
         None \<Rightarrow> Inr ()
       | Some detail \<Rightarrow> run_checks
           [void (engine_require_text (PyStr detail) ''failure_detail''),
            ensure (length (utf8_encode detail) \<le> FAILURE_DETAIL_LIMIT_BYTES)
              (ExecutionReportError ''failure_detail limit'')])]"

definition TRUNCATION_MARKER :: string where
  "TRUNCATION_MARKER = ''[traceback truncated; showing the final frames]'' @ [char_of (10 :: nat)]"

text \<open>The argument is what \<open>traceback.format_exception\<close> renders for the exception.\<close>

definition failure_detail_for :: "string \<Rightarrow> string" where
  "failure_detail_for rendered =
     (let encoded = utf8_encode rendered in
      if length encoded \<le> FAILURE_DETAIL_LIMIT_BYTES then rendered
      else
        (let marker_bytes = length (utf8_encode TRUNCATION_MARKER);
             kept = FAILURE_DETAIL_LIMIT_BYTES - marker_bytes;
             tail = drop (length encoded - kept) encoded
         in TRUNCATION_MARKER @ utf8_decode_ignore tail))"

section \<open>Traces\<close>

record trace_entry =
  entry_occurs_at_utc :: int
  entry_priority :: event_priority
  entry_sequence :: nat
  event_type :: string
  event_digest :: string

record run_trace =
  trace_config_hash :: string
  trace_spec_hash :: string
  trace_entries :: "trace_entry list"
  trace_digest :: string
  trace_events_beyond_window :: nat

definition event_count :: "run_trace \<Rightarrow> nat" where
  "event_count t = length (trace_entries t)"

text \<open>The canonical digests the loop records, as functions of what they digest.\<close>

record digests =
  digest_of_event :: "event \<Rightarrow> string"
  digest_of_entries :: "trace_entry list \<Rightarrow> string"
  digest_of_config :: "run_config \<Rightarrow> string"

section \<open>The context a handler gets\<close>

record run_context =
  queue :: event_queue
  clock :: simulation_clock
  events_beyond_window :: nat

definition now_utc :: "'a run_context_scheme \<Rightarrow> int" where
  "now_utc s = clock_now_utc (clock s)"

definition context_schedule ::
  "run_config \<Rightarrow> event \<Rightarrow> 'a run_context_scheme \<Rightarrow> 'a run_context_scheme \<times> unit result" where
  "context_schedule config e s =
     (if event_occurs_at_utc e < now_utc s then (s, Inl (CausalityError ''scheduled before now''))
      else if event_occurs_at_utc e > end_utc config
      then (s\<lparr>events_beyond_window := events_beyond_window s + 1\<rparr>, Inr ())
      else (s\<lparr>queue := snd (queue_schedule (queue s) e)\<rparr>, Inr ()))"

text \<open>
  What a handler can do with its context while it handles one event: end, raise, schedule
  an event (and see whether that raised), read the clock, read the count of dropped
  events. Everything else it does is a function of its own state, the event and what it
  read. Programs are finite: a handler that never returns is not one.
\<close>

datatype 'h handler_program =
    Return 'h
  | Raise exn
  | Schedule event "unit result \<Rightarrow> 'h handler_program"
  | ReadClock "int \<Rightarrow> 'h handler_program"
  | ReadBeyondWindow "nat \<Rightarrow> 'h handler_program"

primrec run_program ::
  "run_config \<Rightarrow> 'h handler_program \<Rightarrow> 'a run_context_scheme \<Rightarrow> 'a run_context_scheme \<times> 'h result" where
  "run_program config (Return h) s = (s, Inr h)"
| "run_program config (Raise e) s = (s, Inl e)"
| "run_program config (Schedule e k) s =
     (let (t, r) = context_schedule config e s in run_program config (k r) t)"
| "run_program config (ReadClock k) s = run_program config (k (now_utc s)) s"
| "run_program config (ReadBeyondWindow k) s = run_program config (k (events_beyond_window s)) s"

type_synonym 'h handler = "'h \<Rightarrow> event \<Rightarrow> 'h handler_program"

section \<open>The dispatch loop\<close>

record 'h loop_state = run_context +
  entries :: "trace_entry list"
  handler_state :: 'h

definition trace_entry_of :: "digests \<Rightarrow> queued_event \<Rightarrow> trace_entry" where
  "trace_entry_of d q = \<lparr>entry_occurs_at_utc = queued_occurs_at_utc q,
     entry_priority = queued_priority q, entry_sequence = queued_sequence q,
     event_type = event_type_name (queued_event q),
     event_digest = digest_of_event d (queued_event q)\<rparr>"

text \<open>One iteration, from the pop to the handler's return.\<close>

definition dispatch_one ::
  "run_config \<Rightarrow> digests \<Rightarrow> 'h handler \<Rightarrow> 'h loop_state \<Rightarrow> 'h loop_state \<times> unit result" where
  "dispatch_one config d handler s =
     (case queue_pop (queue s) of
        Inl e \<Rightarrow> (s, Inl e)
      | Inr (queued, rest) \<Rightarrow>
          (case advance_to (clock s) (utc (queued_occurs_at_utc queued)) of
             Inl e \<Rightarrow> (s\<lparr>queue := rest\<rparr>, Inl e)
           | Inr c \<Rightarrow>
               (let t = s\<lparr>queue := rest, clock := c, entries := entries s @ [trace_entry_of d queued]\<rparr>;
                    (u, r) = run_program config (handler (handler_state s) (queued_event queued)) t
                in case r of
                     Inl e \<Rightarrow> (u, Inl e)
                   | Inr h \<Rightarrow> (u\<lparr>handler_state := h\<rparr>, Inr ()))))"

lemma context_schedule_keeps [simp]:
  "entries (fst (context_schedule config e s)) = entries s"
  "handler_state (fst (context_schedule config e s)) = handler_state s"
  by (simp_all add: context_schedule_def)

lemma context_schedule_clock [simp]: "clock (fst (context_schedule config e s)) = clock s"
  by (simp add: context_schedule_def)

lemma run_program_keeps [simp]:
  "entries (fst (run_program config p s)) = entries s"
  "handler_state (fst (run_program config p s)) = handler_state s"
  by (induction p arbitrary: s) (auto simp: Let_def split_beta)

lemma dispatch_one_grows:
  "dispatch_one config d handler s = (t, Inr ()) \<Longrightarrow> length (entries t) = Suc (length (entries s))"
  by (auto simp: dispatch_one_def Let_def split_beta split: sum.splits prod.splits if_splits)

function dispatch_loop ::
  "run_config \<Rightarrow> digests \<Rightarrow> 'h handler \<Rightarrow> 'h loop_state \<Rightarrow> 'h loop_state \<times> unit result" where
  "dispatch_loop config d handler s =
     (if queue_length (queue s) = 0 then (s, Inr ())
      else if int (length (entries s)) \<ge> event_budget config then (s, Inl EventBudgetExhaustedError)
      else case dispatch_one config d handler s of
             (t, Inl e) \<Rightarrow> (t, Inl e)
           | (t, Inr u) \<Rightarrow> dispatch_loop config d handler t)"
  by pat_completeness auto

text \<open>Each iteration records an entry, and the budget bounds the entries.\<close>

termination dispatch_loop
  by (relation "measure (\<lambda>(config, d, handler, s). nat (event_budget config) - length (entries s))")
    (auto dest!: dispatch_one_grows [OF sym])

declare dispatch_loop.simps [simp del]

fun schedule_initial ::
  "run_config \<Rightarrow> event list \<Rightarrow> 'a run_context_scheme \<Rightarrow> 'a run_context_scheme \<times> unit result" where
  "schedule_initial config [] s = (s, Inr ())"
| "schedule_initial config (e # es) s =
     (case context_schedule config e s of
        (t, Inl x) \<Rightarrow> (t, Inl x)
      | (t, Inr u) \<Rightarrow> schedule_initial config es t)"

definition initial_state :: "run_config \<Rightarrow> 'h \<Rightarrow> 'h loop_state" where
  "initial_state config h = \<lparr>queue = queue_init, clock = \<lparr>clock_now_utc = start_utc config\<rparr>,
     events_beyond_window = 0, entries = [], handler_state = h\<rparr>"

definition dispatch ::
  "run_config \<Rightarrow> digests \<Rightarrow> 'h handler \<Rightarrow> 'h \<Rightarrow> event list \<Rightarrow> 'h loop_state \<times> unit result" where
  "dispatch config d handler h initial_events =
     (case clock_init (utc (start_utc config)) of
        Inl e \<Rightarrow> (initial_state config h, Inl e)
      | Inr c \<Rightarrow>
          (case schedule_initial config initial_events ((initial_state config h)\<lparr>clock := c\<rparr>) of
             (s, Inl e) \<Rightarrow> (s, Inl e)
           | (s, Inr u) \<Rightarrow> dispatch_loop config d handler s))"

section \<open>A run\<close>

record event_loop =
  loop_config :: run_config
  registration :: spec_registration
  path_label :: string

definition event_loop_init :: "event_loop \<Rightarrow> event_loop result" where
  "event_loop_init l = and_then (engine_require_text (PyStr (path_label l)) ''path_label'') (\<lambda>_. Inr l)"

text \<open>
  The reports made so far, and whether making the last one raised. The reporter is the
  ledger's side of the protocol; \<open>render\<close> is what the standard library renders for an
  exception.
\<close>

definition report ::
  "event_loop \<Rightarrow> digests \<Rightarrow> (execution_report \<Rightarrow> unit result) \<Rightarrow> execution_outcome \<Rightarrow> string option \<Rightarrow> nat \<Rightarrow>
   execution_report list \<times> unit result" where
  "report l d reporter outcome detail dispatched =
     (case construct execution_report_post_init
        \<lparr>report_spec_hash = spec_hash (registration l), report_config_hash = digest_of_config d (loop_config l),
         report_path_label = path_label l, report_outcome = outcome, failure_detail = detail,
         dispatched_event_count = int dispatched\<rparr> of
        Inl e \<Rightarrow> ([], Inl e)
      | Inr r \<Rightarrow> ([r], reporter r))"

definition run ::
  "event_loop \<Rightarrow> digests \<Rightarrow> (execution_report \<Rightarrow> unit result) \<Rightarrow> (exn \<Rightarrow> string) \<Rightarrow>
   'h handler \<Rightarrow> 'h \<Rightarrow> event list \<Rightarrow> execution_report list \<times> run_trace result" where
  "run l d reporter render handler h initial_events =
     (if \<not> is_registered (registration l) then ([], Inl UnregisteredSpecificationError)
      else case dispatch (loop_config l) d handler h initial_events of
        (s, Inl e) \<Rightarrow>
          if is_exception e then
            (case report l d reporter FAILED (Some (failure_detail_for (render e))) (length (entries s)) of
               (rs, Inl e') \<Rightarrow> (rs, Inl e')
             | (rs, Inr u) \<Rightarrow> (rs, Inl e))
          else ([], Inl e)
      | (s, Inr u) \<Rightarrow>
          (case report l d reporter COMPLETED None (length (entries s)) of
             (rs, Inl e) \<Rightarrow> (rs, Inl e)
           | (rs, Inr u) \<Rightarrow>
               (rs, Inr \<lparr>trace_config_hash = digest_of_config d (loop_config l),
                  trace_spec_hash = spec_hash (registration l), trace_entries = entries s,
                  trace_digest = digest_of_entries d (entries s),
                  trace_events_beyond_window = events_beyond_window s\<rparr>)))"

section \<open>The states a run goes through\<close>

inductive reached :: "run_config \<Rightarrow> digests \<Rightarrow> 'h handler \<Rightarrow> 'h loop_state \<Rightarrow> bool"
  for config d handler where
  reached_start: "fst (schedule_initial config es (initial_state config h)) = s \<Longrightarrow>
    reached config d handler s"
| reached_step: "reached config d handler s \<Longrightarrow> fst (dispatch_one config d handler s) = t \<Longrightarrow>
    reached config d handler t"

lemma dispatch_loop_reached:
  "reached config d handler s \<Longrightarrow> reached config d handler (fst (dispatch_loop config d handler s))"
proof (induction config d handler s rule: dispatch_loop.induct)
  case (1 config d handler s)
  obtain t r where t: "dispatch_one config d handler s = (t, r)" by fastforce
  with "1.prems" have "reached config d handler t" by (auto intro: reached_step)
  with 1 t show ?case
    by (cases r) (auto simp: dispatch_loop.simps [of config d handler s])
qed

lemma dispatch_reached: "dispatch config d handler h es = (s, r) \<Longrightarrow> reached config d handler s"
proof -
  assume run: "dispatch config d handler h es = (s, r)"
  obtain t x where t: "schedule_initial config es (initial_state config h) = (t, x)" by fastforce
  then have "reached config d handler t" using reached_start [of config es h t] by simp
  moreover have "(initial_state config h)\<lparr>clock := \<lparr>clock_now_utc = start_utc config\<rparr>\<rparr> = initial_state config h"
    by (simp add: initial_state_def)
  ultimately show ?thesis
    using run t dispatch_loop_reached [of config d handler t]
    by (cases x) (auto simp: dispatch_def clock_init_def)
qed

section \<open>The loop's invariant\<close>

definition entry_key :: "trace_entry \<Rightarrow> int \<times> int \<times> nat" where
  "entry_key e = (entry_occurs_at_utc e, priority_value (entry_priority e), entry_sequence e)"

text \<open>
  An entry that comes after the \<open>i\<close>-th one is either later in the total order, or was
  scheduled after everything dispatched up to then.
\<close>

definition follows :: "trace_entry list \<Rightarrow> nat \<Rightarrow> trace_entry \<Rightarrow> bool" where
  "follows es i e \<longleftrightarrow> entry_key (es ! i) < entry_key e \<or>
     (\<forall>k \<le> i. entry_sequence (es ! k) < entry_sequence e)"

definition in_order :: "trace_entry list \<Rightarrow> bool" where
  "in_order es \<longleftrightarrow> (\<forall>j < length es. \<forall>i < j. follows es i (es ! j))"

definition accounted :: "'a run_context_scheme \<Rightarrow> trace_entry list \<Rightarrow> bool" where
  "accounted s es \<longleftrightarrow> distinct (map entry_sequence es @ map queued_sequence (heap (queue s))) \<and>
     set (map entry_sequence es @ map queued_sequence (heap (queue s))) = {..<sequence (queue s)}"

definition context_inv :: "run_config \<Rightarrow> digests \<Rightarrow> 'a run_context_scheme \<Rightarrow> trace_entry list \<Rightarrow> bool" where
  "context_inv config d s es \<longleftrightarrow> queue_wf (queue s) \<and> start_utc config \<le> now_utc s \<and>
     (\<forall>q \<in> set (heap (queue s)). now_utc s \<le> queued_occurs_at_utc q \<and> queued_occurs_at_utc q \<le> end_utc config) \<and>
     accounted s es \<and>
     (\<forall>q \<in> set (heap (queue s)). \<forall>i < length es. follows es i (trace_entry_of d q)) \<and>
     in_order es \<and> sorted (map entry_occurs_at_utc es) \<and>
     (\<forall>e \<in> set es. start_utc config \<le> entry_occurs_at_utc e \<and> entry_occurs_at_utc e \<le> now_utc s \<and>
        entry_occurs_at_utc e \<le> end_utc config)"

lemma entry_key_of [simp]: "entry_key (trace_entry_of d q) = ordering_key q"
  by (simp add: entry_key_def trace_entry_of_def ordering_key_def)

lemma entry_of_simps [simp]:
  "entry_sequence (trace_entry_of d q) = queued_sequence q"
  "entry_occurs_at_utc (trace_entry_of d q) = queued_occurs_at_utc q"
  by (simp_all add: trace_entry_of_def)

lemma follows_snoc: "i < length es \<Longrightarrow> follows (es @ [e]) i x = follows es i x"
  by (auto simp: follows_def nth_append)

lemma in_order_snoc: "in_order (es @ [e]) \<longleftrightarrow> in_order es \<and> (\<forall>i < length es. follows es i e)"
  by (auto simp: in_order_def less_Suc_eq follows_snoc nth_append all_conj_distrib)

lemma context_schedule_inv:
  assumes "context_inv config d s es"
  shows "context_inv config d (fst (context_schedule config e s)) es"
proof (cases "event_occurs_at_utc e < now_utc s \<or> event_occurs_at_utc e > end_utc config")
  case True
  with assms show ?thesis by (auto simp: context_schedule_def context_inv_def now_utc_def accounted_def)
next
  case False
  let ?q = "fst (queue_schedule (queue s) e)"
  have heap: "set (heap (snd (queue_schedule (queue s) e))) = insert ?q (set (heap (queue s)))"
    by (simp add: queue_schedule_items set_insort_key)
  have q: "queued_sequence ?q = sequence (queue s)" "queued_occurs_at_utc ?q = event_occurs_at_utc e"
      "sequence (snd (queue_schedule (queue s) e)) = Suc (sequence (queue s))"
    by (simp_all add: queue_schedule_def Let_def)
  have "follows es i (trace_entry_of d ?q)" if "i < length es" for i
  proof -
    have "entry_sequence (es ! k) < sequence (queue s)" if "k \<le> i" for k
    proof -
      have "es ! k \<in> set es" using that \<open>i < length es\<close> by simp
      then show ?thesis using assms by (auto simp: context_inv_def accounted_def)
    qed
    then show ?thesis by (simp add: follows_def q)
  qed
  moreover have "accounted (fst (context_schedule config e s)) es"
  proof -
    have "mset (map queued_sequence (heap (snd (queue_schedule (queue s) e)))) =
        mset (sequence (queue s) # map queued_sequence (heap (queue s)))"
      using q(1) by (simp add: queue_schedule_items)
    then have "mset (map entry_sequence es @ map queued_sequence (heap (snd (queue_schedule (queue s) e)))) =
        mset (sequence (queue s) # map entry_sequence es @ map queued_sequence (heap (queue s)))"
      by simp
    from mset_eq_imp_distinct_iff [OF this] mset_eq_setD [OF this] show ?thesis
      using assms False
      by (auto simp: accounted_def context_inv_def context_schedule_def q lessThan_Suc)
  qed
  ultimately show ?thesis
    using assms False queue_schedule_wf [of "queue s" e]
    by (auto simp: context_schedule_def context_inv_def heap q now_utc_def)
qed

lemma run_program_inv:
  "context_inv config d s es \<Longrightarrow> context_inv config d (fst (run_program config p s)) es"
  by (induction p arbitrary: s) (auto simp: split_beta intro: context_schedule_inv)

lemma context_inv_handler_state [simp]:
  "context_inv config d (s\<lparr>handler_state := h\<rparr>) es = context_inv config d s es"
  by (simp add: context_inv_def now_utc_def accounted_def)

lemma schedule_initial_inv:
  "context_inv config d s es \<Longrightarrow> context_inv config d (fst (schedule_initial config evs s)) es"
proof (induction evs arbitrary: s)
  case Nil
  then show ?case by simp
next
  case (Cons e evs)
  from context_schedule_inv [OF Cons.prems, of e] Cons.IH show ?case
    by (auto split: prod.splits sum.splits)
qed

lemma schedule_initial_keeps [simp]:
  "entries (fst (schedule_initial config evs s)) = entries s"
  "handler_state (fst (schedule_initial config evs s)) = handler_state s"
  by (induction evs arbitrary: s)
    (auto split: prod.splits sum.splits, (metis context_schedule_keeps fst_conv)+)

lemma dispatch_one_inv:
  assumes "context_inv config d s (entries s)"
  shows "context_inv config d (fst (dispatch_one config d handler s)) (entries (fst (dispatch_one config d handler s)))"
proof (cases "heap (queue s)")
  case Nil
  with assms show ?thesis by (simp add: dispatch_one_def queue_pop_def)
next
  case (Cons x xs)
  let ?t = "s\<lparr>queue := (queue s)\<lparr>heap := xs\<rparr>, clock := (clock s)\<lparr>clock_now_utc := queued_occurs_at_utc x\<rparr>,
    entries := entries s @ [trace_entry_of d x]\<rparr>"
  have now: "now_utc s \<le> queued_occurs_at_utc x" using assms Cons by (simp add: context_inv_def)
  have "context_inv config d ?t (entries ?t)"
  proof -
    have "follows (entries s @ [trace_entry_of d x]) i (trace_entry_of d q)"
      if "q \<in> set xs" "i < Suc (length (entries s))" for q i
    proof (cases "i < length (entries s)")
      case True
      with assms Cons that show ?thesis by (simp add: context_inv_def follows_snoc)
    next
      case False
      with that(2) have "i = length (entries s)" by simp
      with assms Cons that(1) show ?thesis by (simp add: follows_def context_inv_def queue_wf_def)
    qed
    moreover have "queued_occurs_at_utc x \<le> queued_occurs_at_utc q" if "q \<in> set xs" for q
      using assms Cons that by (auto simp: context_inv_def queue_wf_def ordering_key_def)
    ultimately show ?thesis
      using assms Cons now
      by (auto simp: context_inv_def now_utc_def accounted_def in_order_snoc queue_wf_def sorted_append
          intro: order_trans)
  qed
  from run_program_inv [OF this] show ?thesis
    using Cons now
    by (auto simp: dispatch_one_def queue_pop_def now_utc_def Let_def split_beta split: sum.splits)
qed

lemma initial_state_inv: "context_inv config d (initial_state config h) []"
  by (simp add: initial_state_def context_inv_def accounted_def in_order_def now_utc_def queue_init_def
      queue_wf_def)

lemma reached_inv: "reached config d handler s \<Longrightarrow> context_inv config d s (entries s)"
proof (induction rule: reached.induct)
  case (reached_start es h s)
  then show ?case
    using schedule_initial_inv [OF initial_state_inv] by (auto simp: initial_state_def)
next
  case (reached_step s t)
  then show ?case using dispatch_one_inv by blast
qed

section \<open>How the loop ends\<close>

lemma dispatch_one_bound: "length (entries (fst (dispatch_one config d handler s))) \<le> Suc (length (entries s))"
  by (auto simp: dispatch_one_def Let_def split_beta split: sum.splits)

lemma dispatch_loop_bound:
  "int (length (entries s)) \<le> event_budget config \<Longrightarrow>
    int (length (entries (fst (dispatch_loop config d handler s)))) \<le> event_budget config"
proof (induction config d handler s rule: dispatch_loop.induct)
  case (1 config d handler s)
  obtain t r where t: "dispatch_one config d handler s = (t, r)" by fastforce
  with dispatch_one_bound [of config d handler s] have "length (entries t) \<le> Suc (length (entries s))" by simp
  with 1 t show ?case
    by (cases r) (auto simp: dispatch_loop.simps [of config d handler s])
qed

lemma dispatch_loop_completed:
  "dispatch_loop config d handler s = (t, Inr ()) \<Longrightarrow> heap (queue t) = []"
proof (induction config d handler s rule: dispatch_loop.induct)
  case (1 config d handler s)
  then show ?case
    by (cases "dispatch_one config d handler s")
      (auto simp: dispatch_loop.simps [of config d handler s] queue_length_def split: if_splits sum.splits)
qed

primrec never_raises :: "'h handler_program \<Rightarrow> bool" where
  "never_raises (Return h) \<longleftrightarrow> True"
| "never_raises (Raise e) \<longleftrightarrow> False"
| "never_raises (Schedule e k) \<longleftrightarrow> (\<forall>r. never_raises (k r))"
| "never_raises (ReadClock k) \<longleftrightarrow> (\<forall>t. never_raises (k t))"
| "never_raises (ReadBeyondWindow k) \<longleftrightarrow> (\<forall>n. never_raises (k n))"

lemma run_program_returns: "never_raises p \<Longrightarrow> \<exists>h. snd (run_program config p s) = Inr h"
  by (induction p arbitrary: s) (auto simp: split_beta)

lemma dispatch_one_returns:
  assumes "context_inv config d s (entries s)" "heap (queue s) \<noteq> []" "\<forall>h e. never_raises (handler h e)"
  shows "\<exists>t. dispatch_one config d handler s = (t, Inr ())"
proof -
  from assms(2) obtain x xs where x: "heap (queue s) = x # xs" by (cases "heap (queue s)") auto
  with assms(1) have "\<not> queued_occurs_at_utc x < clock_now_utc (clock s)"
    by (auto simp: context_inv_def now_utc_def)
  with x assms(3) show ?thesis
    by (auto simp: dispatch_one_def queue_pop_def Let_def split_beta split: sum.splits)
      (metis run_program_returns sum.distinct(1))
qed

lemma dispatch_loop_returns:
  "context_inv config d s (entries s) \<Longrightarrow> \<forall>h e. never_raises (handler h e) \<Longrightarrow>
    int (length (entries s)) \<le> event_budget config \<Longrightarrow>
    dispatch_loop config d handler s = (t, r) \<Longrightarrow>
    r = Inr () \<or> r = Inl EventBudgetExhaustedError \<and> int (length (entries t)) = event_budget config"
proof (induction config d handler s rule: dispatch_loop.induct)
  case (1 config d handler s)
  show ?case
  proof (cases "heap (queue s) = [] \<or> int (length (entries s)) \<ge> event_budget config")
    case True
    with "1.prems"(3,4) show ?thesis
      by (auto simp: dispatch_loop.simps [of config d handler s] queue_length_def split: if_splits)
  next
    case False
    then obtain u where u: "dispatch_one config d handler s = (u, Inr ())"
      using dispatch_one_returns [OF "1.prems"(1) _ "1.prems"(2)] by blast
    from dispatch_one_inv [OF "1.prems"(1), of handler] u have "context_inv config d u (entries u)" by simp
    moreover have "int (length (entries u)) \<le> event_budget config"
      using dispatch_one_grows [OF u] False by simp
    moreover have "dispatch_loop config d handler u = (t, r)"
      using "1.prems"(4) False u
      by (simp add: dispatch_loop.simps [of config d handler s] queue_length_def)
    ultimately show ?thesis
      using "1.IH" [OF _ _ u [symmetric] refl _ "1.prems"(2)] False by (simp add: queue_length_def)
  qed
qed

lemma schedule_initial_ok:
  "\<forall>e \<in> set es. now_utc s \<le> event_occurs_at_utc e \<Longrightarrow> \<exists>t. schedule_initial config es s = (t, Inr ())"
proof (induction es arbitrary: s)
  case Nil
  then show ?case by simp
next
  case (Cons e es)
  obtain t where t: "context_schedule config e s = (t, Inr ())"
    using Cons.prems by (cases "event_occurs_at_utc e > end_utc config") (auto simp: context_schedule_def)
  have "clock t = clock s" using context_schedule_clock [of config e s] t by simp
  with Cons t show ?case by (simp add: now_utc_def)
qed

lemma dispatch_unfold:
  "dispatch config d handler h es =
     (case schedule_initial config es (initial_state config h) of
        (s, Inl e) \<Rightarrow> (s, Inl e)
      | (s, Inr u) \<Rightarrow> dispatch_loop config d handler s)"
proof -
  have "(initial_state config h)\<lparr>clock := \<lparr>clock_now_utc = start_utc config\<rparr>\<rparr> = initial_state config h"
    by (simp add: initial_state_def)
  then show ?thesis by (simp add: dispatch_def clock_init_def)
qed

section \<open>A passive handler folds over the sorted events\<close>

text \<open>
  A handler that schedules nothing. \<open>dispatch_key\<close> is the order of the documentation,
  without the insertion counter: sorting is stable.
\<close>

definition quiet :: "('h \<Rightarrow> event \<Rightarrow> 'h) \<Rightarrow> 'h handler" where
  "quiet f h e = Return (f h e)"

definition dispatch_key :: "event \<Rightarrow> int \<times> int" where
  "dispatch_key e = (event_occurs_at_utc e, priority_value (priority_of e))"

primrec number_events :: "nat \<Rightarrow> event list \<Rightarrow> queued_event list" where
  "number_events n [] = []"
| "number_events n (e # es) =
     \<lparr>queued_occurs_at_utc = event_occurs_at_utc e, queued_priority = priority_of e,
      queued_sequence = n, queued_event = e\<rparr> # number_events (Suc n) es"

lemma number_events_sequence: "q \<in> set (number_events n es) \<Longrightarrow> n \<le> queued_sequence q"
  by (induction es arbitrary: n) fastforce+

lemma number_events_key:
  "q \<in> set (number_events n es) \<Longrightarrow>
    ordering_key q = (fst (dispatch_key (queued_event q)), snd (dispatch_key (queued_event q)), queued_sequence q)"
  by (induction es arbitrary: n) (auto simp: ordering_key_def dispatch_key_def)

lemma insort_numbered:
  assumes "\<forall>y \<in> set ys. queued_sequence x < queued_sequence y"
    and "\<forall>y \<in> insert x (set ys). ordering_key y =
      (fst (dispatch_key (queued_event y)), snd (dispatch_key (queued_event y)), queued_sequence y)"
  shows "map queued_event (insort_key ordering_key x ys) =
    insort_key dispatch_key (queued_event x) (map queued_event ys)"
  using assms by (induction ys) (auto simp: less_eq_prod_def)

lemma sort_numbered:
  "map queued_event (sort_key ordering_key (number_events n es)) = sort_key dispatch_key es"
proof (induction es arbitrary: n)
  case Nil
  show ?case by (simp add: sort_key_def)
next
  case (Cons e es)
  let ?x = "\<lparr>queued_occurs_at_utc = event_occurs_at_utc e, queued_priority = priority_of e,
      queued_sequence = n, queued_event = e\<rparr>"
  have "map queued_event (insort_key ordering_key ?x (sort_key ordering_key (number_events (Suc n) es))) =
      insort_key dispatch_key (queued_event ?x)
        (map queued_event (sort_key ordering_key (number_events (Suc n) es)))"
  proof (rule insort_numbered)
    show "\<forall>y \<in> set (sort_key ordering_key (number_events (Suc n) es)). queued_sequence ?x < queued_sequence y"
      using number_events_sequence [of _ "Suc n" es] by fastforce
    show "\<forall>y \<in> insert ?x (set (sort_key ordering_key (number_events (Suc n) es))). ordering_key y =
      (fst (dispatch_key (queued_event y)), snd (dispatch_key (queued_event y)), queued_sequence y)"
      using number_events_key [of _ "Suc n" es] by (auto simp: ordering_key_def dispatch_key_def)
  qed
  with Cons [of "Suc n"] show ?case by (simp add: sort_key_def)
qed

lemma schedule_initial_numbered:
  "\<forall>e \<in> set es. now_utc s \<le> event_occurs_at_utc e \<Longrightarrow>
    schedule_initial config es s = (t, Inr ()) \<Longrightarrow>
    mset (heap (queue t)) = mset (heap (queue s)) +
        mset (number_events (sequence (queue s)) (filter (\<lambda>e. event_occurs_at_utc e \<le> end_utc config) es)) \<and>
    events_beyond_window t = events_beyond_window s +
        length (filter (\<lambda>e. event_occurs_at_utc e > end_utc config) es)"
proof (induction es arbitrary: s)
  case Nil
  then show ?case by simp
next
  case (Cons e es)
  obtain u where u: "context_schedule config e s = (u, Inr ())"
    using Cons.prems(1) by (cases "event_occurs_at_utc e > end_utc config") (auto simp: context_schedule_def)
  have "clock u = clock s" using context_schedule_clock [of config e s] u by simp
  with Cons u have IH: "mset (heap (queue t)) = mset (heap (queue u)) +
        mset (number_events (sequence (queue u)) (filter (\<lambda>e. event_occurs_at_utc e \<le> end_utc config) es)) \<and>
    events_beyond_window t = events_beyond_window u +
        length (filter (\<lambda>e. event_occurs_at_utc e > end_utc config) es)"
    by (simp add: now_utc_def)
  show ?case
  proof (cases "event_occurs_at_utc e > end_utc config")
    case True
    with u Cons.prems(1) have "queue u = queue s" "events_beyond_window u = Suc (events_beyond_window s)"
      by (auto simp: context_schedule_def)
    with IH True show ?thesis by simp
  next
    case False
    with u Cons.prems(1) have "queue u = snd (queue_schedule (queue s) e)"
      "events_beyond_window u = events_beyond_window s"
      by (auto simp: context_schedule_def)
    with IH False show ?thesis
      by (simp add: queue_schedule_items) (simp add: queue_schedule_def Let_def)
  qed
qed

lemma dispatch_loop_quiet:
  "context_inv config d s (entries s) \<Longrightarrow> length (heap (queue s)) = n \<Longrightarrow>
    int (length (entries s)) + int n \<le> event_budget config \<Longrightarrow>
    \<exists>t. dispatch_loop config d (quiet f) s = (t, Inr ()) \<and>
      entries t = entries s @ map (trace_entry_of d) (pending.drain n (queue s)) \<and>
      events_beyond_window t = events_beyond_window s \<and>
      handler_state t = foldl f (handler_state s) (map queued_event (pending.drain n (queue s)))"
proof (induction n arbitrary: s)
  case 0
  then show ?case by (simp add: dispatch_loop.simps [of config d "quiet f" s] queue_length_def)
next
  case (Suc n)
  then obtain x xs where x: "heap (queue s) = x # xs" by (cases "heap (queue s)") auto
  let ?q = "(queue s)\<lparr>heap := xs\<rparr>"
  let ?t = "s\<lparr>queue := ?q, clock := (clock s)\<lparr>clock_now_utc := queued_occurs_at_utc x\<rparr>,
    entries := entries s @ [trace_entry_of d x], handler_state := f (handler_state s) (queued_event x)\<rparr>"
  have one: "dispatch_one config d (quiet f) s = (?t, Inr ())"
    using Suc.prems(1) x
    by (auto simp: dispatch_one_def queue_pop_def quiet_def context_inv_def now_utc_def)
  have "context_inv config d ?t (entries ?t)"
    using dispatch_one_inv [OF Suc.prems(1), of "quiet f"] one by simp
  from Suc.IH [OF this] x Suc.prems(2,3) obtain u where
    u: "dispatch_loop config d (quiet f) ?t = (u, Inr ())"
      "entries u = entries s @ trace_entry_of d x # map (trace_entry_of d) (pending.drain n ?q)"
      "events_beyond_window u = events_beyond_window s"
      "handler_state u = foldl f (f (handler_state s) (queued_event x)) (map queued_event (pending.drain n ?q))"
    by auto
  have "queue_pop (queue s) = Inr (x, ?q)" using x by (simp add: queue_pop_def)
  then have "pending.drain (Suc n) (queue s) = x # pending.drain n ?q"
    by (simp add: pending.drain.simps(2))
  moreover have "dispatch_loop config d (quiet f) s = (u, Inr ())"
    using x Suc.prems(3) u(1)
    by (simp add: dispatch_loop.simps [of config d "quiet f" s] queue_length_def one)
  ultimately show ?case using u by simp
qed

lemma inj_number_events: "inj_on ordering_key (set (number_events n es))"
proof (induction es arbitrary: n)
  case Nil
  show ?case by simp
next
  case (Cons e es)
  let ?x = "\<lparr>queued_occurs_at_utc = event_occurs_at_utc e, queued_priority = priority_of e,
      queued_sequence = n, queued_event = e\<rparr>"
  have "ordering_key ?x \<noteq> ordering_key q" if "q \<in> set (number_events (Suc n) es)" for q
    using number_events_sequence [OF that] by (simp add: ordering_key_def)
  then show ?case using Cons [of "Suc n"] by fastforce
qed

text \<open>The events of the window, in the order the caller listed them.\<close>

abbreviation within_window :: "run_config \<Rightarrow> event list \<Rightarrow> event list" where
  "within_window config \<equiv> filter (\<lambda>e. event_occurs_at_utc e \<le> end_utc config)"

lemma dispatch_quiet:
  assumes "\<forall>e \<in> set es. start_utc config \<le> event_occurs_at_utc e"
    and "int (length (within_window config es)) \<le> event_budget config"
  shows "\<exists>s. dispatch config d (quiet f) h es = (s, Inr ()) \<and>
    handler_state s = foldl f h (sort_key dispatch_key (within_window config es)) \<and>
    map event_digest (entries s) = map (digest_of_event d) (sort_key dispatch_key (within_window config es)) \<and>
    events_beyond_window s = length es - length (within_window config es)"
proof -
  let ?s = "initial_state config h" and ?numbered = "number_events 0 (within_window config es)"
  have early: "\<forall>e \<in> set es. now_utc ?s \<le> event_occurs_at_utc e"
    using assms(1) by (simp add: initial_state_def now_utc_def)
  from schedule_initial_ok [OF this] obtain t where t: "schedule_initial config es ?s = (t, Inr ())"
    by blast
  from schedule_initial_numbered [OF early t]
  have heap: "mset (heap (queue t)) = mset ?numbered"
    and beyond: "events_beyond_window t = length (filter (\<lambda>e. event_occurs_at_utc e > end_utc config) es)"
    by (simp_all add: initial_state_def queue_init_def)
  have "length (filter (\<lambda>e. event_occurs_at_utc e > end_utc config) es) = length es - length (within_window config es)"
    using sum_length_filter_compl [of "\<lambda>e. event_occurs_at_utc e \<le> end_utc config" es]
    by (simp add: not_le)
  note beyond = beyond [unfolded this]
  have kept: "entries t = []" "handler_state t = h"
    using schedule_initial_keeps [of config es ?s] unfolding t by (simp_all add: initial_state_def)
  have inv: "context_inv config d t (entries t)"
    using schedule_initial_inv [OF initial_state_inv [of config d h], of es] t kept by simp
  have n: "length (heap (queue t)) = length (within_window config es)"
  proof -
    have "length (number_events k xs) = length xs" for k xs by (induction xs arbitrary: k) auto
    then show ?thesis using mset_eq_length [OF heap] by simp
  qed
  have "pending.drain (length (within_window config es)) (queue t) = sort_key ordering_key ?numbered"
  proof -
    have "sort_key ordering_key (heap (queue t)) = sort_key ordering_key ?numbered"
      using heap inj_number_events mset_eq_setD [OF heap] by (intro sort_key_eqI) simp_all
    moreover have "queue_wf (queue t)" using inv by (simp add: context_inv_def)
    ultimately show ?thesis using pending.drain_sort [of "queue t"] n by simp
  qed
  with sort_numbered [of 0 "within_window config es"]
  have drained: "map queued_event (pending.drain (length (within_window config es)) (queue t)) =
      sort_key dispatch_key (within_window config es)" by simp
  from dispatch_loop_quiet [OF inv n, of f] assms(2) kept obtain u where
    u: "dispatch_loop config d (quiet f) t = (u, Inr ())"
      "entries u = map (trace_entry_of d) (pending.drain (length (within_window config es)) (queue t))"
      "events_beyond_window u = events_beyond_window t"
      "handler_state u = foldl f h (sort_key dispatch_key (within_window config es))"
    by (auto simp: drained)
  moreover have "map event_digest (entries u) = map (digest_of_event d) (sort_key dispatch_key (within_window config es))"
    unfolding u(2) drained [symmetric] by (simp add: trace_entry_of_def)
  ultimately show ?thesis using t beyond by (simp add: dispatch_unfold)
qed

section \<open>What is kept of a traceback\<close>

lemma utf8_encode_append: "utf8_encode (s @ t) = utf8_encode s @ utf8_encode t"
  by (induction s) (simp_all add: Let_def)

lemma utf8_two_bytes:
  assumes "\<not> of_char c < (128 :: nat)"
  shows "192 + of_char c div 64 \<in> {194, 195 :: nat}"
    and "(192 + of_char c div 64 - 192) * 64 + (128 + of_char c mod 64 - 128) = (of_char c :: nat)"
    and "128 + of_char c mod 64 < (192 :: nat)"
proof -
  have "of_char c < (256 :: nat)" by simp
  with assms have "of_char c div 64 = (2 :: nat) \<or> of_char c div 64 = (3 :: nat)" by linarith
  then show "192 + of_char c div 64 \<in> {194, 195 :: nat}" by auto
qed simp_all

lemma utf8_round_trip: "utf8_decode_ignore (utf8_encode s) = s"
proof (induction s)
  case Nil
  show ?case by simp
next
  case (Cons c s)
  then show ?case
    using utf8_two_bytes [of c] by (cases "of_char c < (128 :: nat)") (auto simp: Let_def)
qed

text \<open>
  Decoding from the middle of an encoding yields a suffix of the text, and loses at most
  the one byte of a character cut in half.
\<close>

lemma utf8_decode_drop:
  "\<exists>kept. suffix kept s \<and> utf8_decode_ignore (drop n (utf8_encode s)) = kept \<and>
     length (utf8_encode kept) \<le> length (utf8_encode s) - n \<and>
     length (utf8_encode s) - n \<le> Suc (length (utf8_encode kept))"
proof (induction s arbitrary: n)
  case Nil
  show ?case by simp
next
  case (Cons c s)
  show ?case
  proof (cases n)
    case 0
    then show ?thesis using utf8_round_trip [of "c # s"] by (intro exI [of _ "c # s"]) simp
  next
    case (Suc m)
    show ?thesis
    proof (cases "of_char c < (128 :: nat)")
      case True
      with Suc Cons [of m] show ?thesis by (auto simp: Let_def intro: suffix_ConsI)
    next
      case False
      show ?thesis
      proof (cases m)
        case 0
        have "utf8_decode_ignore ((128 + of_char c mod 64) # utf8_encode s) = s"
        proof -
          have "of_char c mod 64 \<noteq> (66 :: nat)" "of_char c mod 64 \<noteq> (67 :: nat)"
            using utf8_two_bytes(3) [OF False] by auto
          then show ?thesis by (simp add: utf8_round_trip)
        qed
        with False Suc 0 show ?thesis by (auto simp: Let_def intro: suffix_ConsI)
      next
        case (Suc k)
        with False \<open>n = Suc m\<close> Cons [of k] show ?thesis by (auto simp: Let_def intro: suffix_ConsI)
      qed
    qed
  qed
qed

lemma marker_bytes: "length (utf8_encode TRUNCATION_MARKER) = 48"
  by (simp add: TRUNCATION_MARKER_def Let_def)

lemma marker_not_blank: "strip (TRUNCATION_MARKER @ s) \<noteq> []"
  by (simp add: strip_blank TRUNCATION_MARKER_def is_py_space_def)

lemma failure_detail_cases:
  "failure_detail_for rendered = rendered \<and> length (utf8_encode rendered) \<le> 16384 \<or>
   (\<exists>kept. suffix kept rendered \<and> failure_detail_for rendered = TRUNCATION_MARKER @ kept \<and>
      16384 < length (utf8_encode rendered) \<and>
      length (utf8_encode (TRUNCATION_MARKER @ kept)) \<in> {16383, 16384})"
proof (cases "length (utf8_encode rendered) \<le> 16384")
  case True
  then show ?thesis by (simp add: failure_detail_for_def FAILURE_DETAIL_LIMIT_BYTES_def)
next
  case False
  obtain kept where "suffix kept rendered"
      "utf8_decode_ignore (drop (length (utf8_encode rendered) - 16336) (utf8_encode rendered)) = kept"
      "length (utf8_encode kept) \<le> 16336" "16336 \<le> Suc (length (utf8_encode kept))"
    using utf8_decode_drop [of rendered "length (utf8_encode rendered) - 16336"] False by auto
  with False show ?thesis
    by (intro disjI2 exI [of _ kept])
      (auto simp: failure_detail_for_def FAILURE_DETAIL_LIMIT_BYTES_def marker_bytes Let_def
        utf8_encode_append)
qed

lemma failure_detail_accepted:
  assumes "strip rendered \<noteq> []"
  shows "strip (failure_detail_for rendered) \<noteq> []"
    and "length (utf8_encode (failure_detail_for rendered)) \<le> FAILURE_DETAIL_LIMIT_BYTES"
  using failure_detail_cases [of rendered] assms marker_not_blank
  by (auto simp: FAILURE_DETAIL_LIMIT_BYTES_def)

section \<open>Reports\<close>

lemma report_completed:
  assumes "strip (path_label l) \<noteq> []"
  shows "report l d reporter COMPLETED None n =
    (let r = \<lparr>report_spec_hash = spec_hash (registration l),
         report_config_hash = digest_of_config d (loop_config l), report_path_label = path_label l,
         report_outcome = COMPLETED, failure_detail = None, dispatched_event_count = int n\<rparr>
     in ([r], reporter r))"
proof -
  let ?r = "\<lparr>report_spec_hash = spec_hash (registration l),
         report_config_hash = digest_of_config d (loop_config l), report_path_label = path_label l,
         report_outcome = COMPLETED, failure_detail = None, dispatched_event_count = int n\<rparr>"
  have "construct execution_report_post_init ?r = Inr ?r"
    using assms by (simp add: post_init_defs guard_simps)
  then show ?thesis by (simp add: report_def Let_def del: construct_Inr_iff)
qed

lemma report_failed:
  assumes "strip (path_label l) \<noteq> []" "strip rendered \<noteq> []"
  shows "report l d reporter FAILED (Some (failure_detail_for rendered)) n =
    (let r = \<lparr>report_spec_hash = spec_hash (registration l),
         report_config_hash = digest_of_config d (loop_config l), report_path_label = path_label l,
         report_outcome = FAILED, failure_detail = Some (failure_detail_for rendered),
         dispatched_event_count = int n\<rparr>
     in ([r], reporter r))"
proof -
  let ?r = "\<lparr>report_spec_hash = spec_hash (registration l),
         report_config_hash = digest_of_config d (loop_config l), report_path_label = path_label l,
         report_outcome = FAILED, failure_detail = Some (failure_detail_for rendered),
         dispatched_event_count = int n\<rparr>"
  have "construct execution_report_post_init ?r = Inr ?r"
    using assms failure_detail_accepted [OF assms(2)] by (simp add: post_init_defs guard_simps)
  then show ?thesis by (simp add: report_def Let_def del: construct_Inr_iff)
qed

lemma event_loop_init_ok: "event_loop_init l = Inr l \<longleftrightarrow> strip (path_label l) \<noteq> []"
  by (simp add: event_loop_init_def engine_require_text_def text_guard_def)

lemmas run_defs = run_def report_completed report_failed

section \<open>A concrete run\<close>

text \<open>A timer and a reconciliation of one instant, and a timer beyond the window.\<close>

definition example_config :: run_config where
  "example_config = \<lparr>config_strategy_id = ''s'', strategy_version = ''1'', symbols = [''BTCUSDT''],
     parameters = [], start_utc = 0, end_utc = 100, run_seed = 7, event_budget = 3\<rparr>"

definition example_digests :: digests where
  "example_digests = \<lparr>digest_of_event = event_type_name, digest_of_entries = \<lambda>es. [],
     digest_of_config = config_strategy_id\<rparr>"

definition example_events :: "event list" where
  "example_events = [ReconciliationEvent BINANCE_SPOT_TESTNET 50, TimerEvent ''s'' 50 ''wake'', TimerEvent ''s'' 101 ''late'']"

text \<open>Each timer schedules a funding settlement at its own instant.\<close>

definition example_handler :: "nat handler" where
  "example_handler n e =
     (case e of
        TimerEvent s t label \<Rightarrow>
          ReadClock (\<lambda>now. Schedule (FundingEvent btcusdt now 0) (\<lambda>_. Return (Suc n)))
      | _ \<Rightarrow> Return n)"

definition restless_handler :: "nat handler" where
  "restless_handler n e = ReadClock (\<lambda>now. Schedule (TimerEvent ''s'' now ''again'') (\<lambda>_. Return (Suc n)))"

lemma example_trace:
  "map entry_sequence (entries (fst (dispatch example_config example_digests example_handler 0 example_events))) =
     [1, 2, 0]"
  "snd (dispatch example_config example_digests example_handler 0 example_events) = Inr ()"
  by code_simp+


section \<open>Properties\<close>

text \<open>
  C10. Causality and the total order of the trace. Whatever the handler does, every
  dispatched event lies in the run's window, time never goes back along the trace, and an
  event comes after another one either because its (time, priority, insertion) key is
  larger or because it was scheduled only after that one, and everything before it, had
  been dispatched. So no event that was waiting is overtaken.
\<close>

theorem dispatch_order:
  assumes "dispatch config d handler h evs = (s, r)" and "i < j" and "j < length (entries s)"
  shows "start_utc config \<le> entry_occurs_at_utc (entries s ! i) \<and>
    entry_occurs_at_utc (entries s ! i) \<le> entry_occurs_at_utc (entries s ! j) \<and>
    entry_occurs_at_utc (entries s ! j) \<le> end_utc config \<and>
    (entry_key (entries s ! i) < entry_key (entries s ! j) \<or>
     (\<forall>k \<le> i. entry_sequence (entries s ! k) < entry_sequence (entries s ! j)))"
proof -
  have inv: "context_inv config d s (entries s)"
    using reached_inv [OF dispatch_reached [OF assms(1)]] .
  then have "follows (entries s) i (entries s ! j)"
    using assms(2,3) by (simp add: context_inv_def in_order_def)
  moreover have "entry_occurs_at_utc (entries s ! i) \<le> entry_occurs_at_utc (entries s ! j)"
    using inv assms(2,3) sorted_nth_mono [of "map entry_occurs_at_utc (entries s)" i j]
    by (simp add: context_inv_def)
  moreover have "entries s ! i \<in> set (entries s)" "entries s ! j \<in> set (entries s)"
    using assms(2,3) by simp_all
  ultimately show ?thesis using inv by (simp add: context_inv_def follows_def)
qed

theorem dispatch_order_witness:
  "\<exists>s. dispatch example_config example_digests example_handler 0 example_events = (s, Inr ()) \<and>
    map entry_sequence (entries s) = [1, 2, 0] \<and>
    (entry_key (entries s ! 0) < entry_key (entries s ! 1) \<or>
     (\<forall>k \<le> 0. entry_sequence (entries s ! k) < entry_sequence (entries s ! 1)))"
proof -
  obtain s where s: "dispatch example_config example_digests example_handler 0 example_events = (s, Inr ())"
    "map entry_sequence (entries s) = [1, 2, 0]"
    using example_trace by (metis prod.collapse)
  from arg_cong [OF s(2), of length] have "length (entries s) = 3" by simp
  with dispatch_order [OF s(1), of 0 1] s show ?thesis by simp
qed

text \<open>
  C27. A run that completes has dispatched every event its queue accepted, exactly once:
  the sequence numbers of the trace are those handed out, each one once.
\<close>

theorem every_event_exactly_once:
  assumes "dispatch config d handler h evs = (s, Inr ())"
  shows "mset (map entry_sequence (entries s)) = mset [0..<sequence (queue s)]"
proof -
  obtain t where t: "schedule_initial config evs (initial_state config h) = (t, Inr ())"
      "dispatch_loop config d handler t = (s, Inr ())"
    using assms by (auto simp: dispatch_unfold split: prod.splits sum.splits)
  have "heap (queue s) = []" by (rule dispatch_loop_completed [OF t(2)])
  moreover have "context_inv config d s (entries s)"
    using reached_inv [OF dispatch_reached [OF assms]] .
  ultimately have "distinct (map entry_sequence (entries s))"
    "set (map entry_sequence (entries s)) = set [0..<sequence (queue s)]"
    by (auto simp: context_inv_def accounted_def)
  then show ?thesis by (simp only: set_eq_iff_mset_eq_distinct distinct_upt)
qed

theorem every_event_exactly_once_witness:
  "mset (map entry_sequence (entries (fst (dispatch example_config example_digests example_handler 0
     example_events)))) = {#0, 1, 2#}"
proof -
  obtain s where s: "dispatch example_config example_digests example_handler 0 example_events = (s, Inr ())"
    using example_trace(2) by (metis prod.collapse)
  have "sequence (queue (fst (dispatch example_config example_digests example_handler 0 example_events))) = 3"
    by code_simp
  moreover have "mset [0..<3] = {#0, 1, 2#}" by (simp add: upt_rec)
  ultimately show ?thesis using every_event_exactly_once [OF s] s by (metis fst_conv)
qed

text \<open>
  C29. The event budget bounds every run: with handlers that do not raise, a run started
  on events of its window ends, with the queue empty, or with the budget error after
  exactly the budgeted number of events.
\<close>

theorem run_ends_within_budget:
  assumes "run_config_post_init config = Inr ()"
    and "\<forall>h e. never_raises (handler h e)"
    and "\<forall>e \<in> set evs. start_utc config \<le> event_occurs_at_utc e"
  shows "\<exists>s r. dispatch config d handler h evs = (s, r) \<and>
    int (length (entries s)) \<le> event_budget config \<and>
    (r = Inr () \<and> heap (queue s) = [] \<or>
     r = Inl EventBudgetExhaustedError \<and> int (length (entries s)) = event_budget config)"
proof -
  obtain t where t: "schedule_initial config evs (initial_state config h) = (t, Inr ())"
    using schedule_initial_ok [of evs "initial_state config h" config] assms(3)
    by (auto simp: initial_state_def now_utc_def)
  have kept: "entries t = []"
    using schedule_initial_keeps(1) [of config evs "initial_state config h"] unfolding t
    by (simp add: initial_state_def)
  have inv: "context_inv config d t (entries t)"
    using schedule_initial_inv [OF initial_state_inv [of config d h], of evs] t kept by simp
  have budget: "int (length (entries t)) \<le> event_budget config"
    using run_config_accepted(2) [OF assms(1)] kept by simp
  obtain s r where s: "dispatch_loop config d handler t = (s, r)" by fastforce
  from dispatch_loop_returns [OF inv assms(2) budget s] dispatch_loop_bound [OF budget, of d handler]
    dispatch_loop_completed [of config d handler t s] s
  show ?thesis by (auto simp: dispatch_unfold t)
qed

theorem run_ends_within_budget_witness:
  "\<exists>s. dispatch example_config example_digests restless_handler 0 [TimerEvent ''s'' 50 ''wake''] =
     (s, Inl EventBudgetExhaustedError) \<and> length (entries s) = 3"
proof -
  have "run_config_post_init example_config = Inr ()"
    by (simp add: run_config_post_init_def example_config_def guard_simps strip_blank is_py_space_def)
  moreover have "\<forall>h e. never_raises (restless_handler h e)" by (simp add: restless_handler_def)
  moreover have "snd (dispatch example_config example_digests restless_handler 0 [TimerEvent ''s'' 50 ''wake'']) =
      Inl EventBudgetExhaustedError" by code_simp
  ultimately show ?thesis
    using run_ends_within_budget [of example_config restless_handler "[TimerEvent ''s'' 50 ''wake'']"
        example_digests 0]
    by (auto simp: example_config_def)
qed

text \<open>
  Replaying events through a handler that schedules nothing is folding the handler
  over the events of the window, stably sorted by (time, priority): bars before fills
  before timers of one instant, and the caller's order inside a band. The events beyond
  the window are dropped and counted.
\<close>

theorem quiet_run_is_sorted_fold:
  assumes "\<forall>e \<in> set evs. start_utc config \<le> event_occurs_at_utc e"
    and "int (length (filter (\<lambda>e. event_occurs_at_utc e \<le> end_utc config) evs)) \<le> event_budget config"
  shows "\<exists>s. dispatch config d (\<lambda>h e. Return (f h e)) h evs = (s, Inr ()) \<and>
    handler_state s = foldl f h (sort_key (\<lambda>e. (event_occurs_at_utc e, priority_value (priority_of e)))
      (filter (\<lambda>e. event_occurs_at_utc e \<le> end_utc config) evs)) \<and>
    length (entries s) + events_beyond_window s = length evs"
proof -
  have quiet: "quiet f = (\<lambda>h e. Return (f h e))" by (intro ext) (simp add: quiet_def)
  have key: "dispatch_key = (\<lambda>e. (event_occurs_at_utc e, priority_value (priority_of e)))"
    by (intro ext) (simp add: dispatch_key_def)
  from dispatch_quiet [OF assms, of d f h, unfolded quiet] obtain s where
    s: "dispatch config d (\<lambda>h e. Return (f h e)) h evs = (s, Inr ())"
      "handler_state s = foldl f h (sort_key dispatch_key (within_window config evs))"
      "map event_digest (entries s) = map (digest_of_event d) (sort_key dispatch_key (within_window config evs))"
      "events_beyond_window s = length evs - length (within_window config evs)"
    by blast
  from arg_cong [OF s(3), of length] have "length (entries s) = length (within_window config evs)" by simp
  with s show ?thesis
    using length_filter_le [of "\<lambda>e. event_occurs_at_utc e \<le> end_utc config" evs] by (simp add: key)
qed

theorem quiet_run_is_sorted_fold_witness:
  "\<exists>s. dispatch example_config example_digests (\<lambda>h e. Return (h @ [event_type_name e])) [] example_events =
     (s, Inr ()) \<and> handler_state s = [''TimerEvent'', ''ReconciliationEvent''] \<and>
     length (entries s) + events_beyond_window s = 3"
  using quiet_run_is_sorted_fold [of example_events example_config example_digests
      "\<lambda>h e. h @ [event_type_name e]" "[]"]
  by (simp add: example_events_def example_config_def numeral_3_eq_3)

text \<open>
  The traceback kept for a failed run always fits the ledger's limit of 16384 bytes
  in UTF-8: it is the whole text, or the marker and the text's tail, short of the limit
  by at most the byte of a character cut in half.
\<close>

theorem failure_detail_fits:
  "length (utf8_encode (failure_detail_for rendered)) \<le> 16384 \<and>
   (failure_detail_for rendered = rendered \<or>
    (\<exists>kept. suffix kept rendered \<and> failure_detail_for rendered = TRUNCATION_MARKER @ kept \<and>
       16383 \<le> length (utf8_encode (failure_detail_for rendered))))"
  using failure_detail_cases [of rendered] by auto

text \<open>
  C30. Every run is paid for. A run of an unregistered specification dispatches and
  reports nothing. A registered run makes exactly one report, which the ledger's checks
  accept: completed with no detail, or failed with one when an \<open>Exception\<close> ended it, and
  in both cases with the number of dispatched events. Only what is not an \<open>Exception\<close>
  passes unreported. A trace is returned only for a completed, reported run.
\<close>

theorem run_reports_exactly_once:
  assumes "event_loop_init l = Inr l" and "\<forall>e. strip (render e) \<noteq> []"
  shows "case (run l d reporter render handler h evs, dispatch (loop_config l) d handler h evs) of
      ((reports, outcome), (s, ended)) \<Rightarrow>
        if \<not> 0 < trials_charged (registration l)
        then reports = [] \<and> outcome = Inl UnregisteredSpecificationError
        else if \<exists>e. ended = Inl e \<and> \<not> is_exception e
        then reports = [] \<and> (\<exists>e. ended = Inl e \<and> outcome = Inl e)
        else (\<exists>r. reports = [r] \<and> execution_report_post_init r = Inr () \<and>
            report_spec_hash r = spec_hash (registration l) \<and>
            report_outcome r = (if ended = Inr () then COMPLETED else FAILED) \<and>
            dispatched_event_count r = int (length (entries s)) \<and>
            (\<forall>trace. outcome = Inr trace \<longrightarrow> ended = Inr () \<and> trace_entries trace = entries s))"
proof -
  have label: "strip (path_label l) \<noteq> []" using assms(1) by (simp add: event_loop_init_ok)
  obtain s ended where ended: "dispatch (loop_config l) d handler h evs = (s, ended)" by fastforce
  show ?thesis
    using assms(2) label failure_detail_accepted
    by (cases ended)
      (auto simp: run_def ended is_registered_def report_completed report_failed Let_def
        execution_report_post_init_def guard_simps split: sum.splits)
qed

theorem run_reports_exactly_once_witness:
  "\<exists>r. run \<lparr>loop_config = example_config,
        registration = \<lparr>spec_hash = replicate 64 CHR ''a'', trials_charged = 1\<rparr>, path_label = ''path 0''\<rparr>
      example_digests (\<lambda>_. Inr ()) (\<lambda>_. ''Traceback'') restless_handler 0 [TimerEvent ''s'' 50 ''wake''] =
      ([r], Inl EventBudgetExhaustedError) \<and>
    report_outcome r = FAILED \<and> dispatched_event_count r = 3"
  (is "\<exists>r. run ?l _ _ _ _ _ _ = _ \<and> _")
proof -
  let ?d = "dispatch example_config example_digests restless_handler 0 [TimerEvent ''s'' 50 ''wake'']"
  have d: "snd ?d = Inl EventBudgetExhaustedError" "length (entries (fst ?d)) = 3" by code_simp+
  then obtain s where s: "?d = (s, Inl EventBudgetExhaustedError)" "length (entries s) = 3"
    by (metis prod.collapse)
  have l: "event_loop_init ?l = Inr ?l" by (simp add: event_loop_init_ok strip_blank is_py_space_def)
  have "strip ''Traceback'' \<noteq> []" by (simp add: strip_blank is_py_space_def)
  from run_reports_exactly_once [OF l, of "\<lambda>_. ''Traceback''" example_digests "\<lambda>_. Inr ()" restless_handler 0
      "[TimerEvent ''s'' 50 ''wake'']"] this s
  obtain r where r: "fst (run ?l example_digests (\<lambda>_. Inr ()) (\<lambda>_. ''Traceback'') restless_handler 0
      [TimerEvent ''s'' 50 ''wake'']) = [r]" "report_outcome r = FAILED" "dispatched_event_count r = 3"
    by (auto simp: is_exception_def split: prod.splits)
  have "snd (run ?l example_digests (\<lambda>_. Inr ()) (\<lambda>_. ''Traceback'') restless_handler 0
      [TimerEvent ''s'' 50 ''wake'']) = Inl EventBudgetExhaustedError"
    using \<open>strip ''Traceback'' \<noteq> []\<close>
    by (simp add: run_def s is_registered_def is_exception_def report_failed Let_def strip_blank is_py_space_def)
  with r show ?thesis by (intro exI [of _ r]) (simp add: prod_eq_iff)
qed

end
