(* ===== verification/Risk_Limits.thy ===== *)
theory Risk_Limits
  imports Guards
begin

text \<open>
  The compiled-in bounds on the risk configuration: their values
  (\<open>src/fking/platform/config/_ceilings.py\<close>), the two directions as two types with one
  check each (\<open>src/fking/risk/ceilings.py\<close>) and the limits they guard
  (\<open>src/fking/risk/limits.py\<close>). A Python mapping is its list of items.
\<close>

section \<open>The bounds\<close>

datatype ceiling = Ceiling rat
datatype floor_bound = Floor rat

primrec is_exceeded_by :: "ceiling \<Rightarrow> rat \<Rightarrow> bool" where
  "is_exceeded_by (Ceiling bound) requested \<longleftrightarrow> requested > bound"

primrec is_undercut_by :: "floor_bound \<Rightarrow> rat \<Rightarrow> bool" where
  "is_undercut_by (Floor bound) requested \<longleftrightarrow> requested < bound"

definition CONFIGURED_CEILINGS :: "(string \<times> rat) list" where
  "CONFIGURED_CEILINGS =
     [(''max_portfolio_notional_usd'', 100000),
      (''max_position_notional_usd'', 25000),
      (''max_leverage'', 3),
      (''max_daily_drawdown_ratio'', 5 / 100),
      (''max_total_drawdown_ratio'', 20 / 100),
      (''max_open_positions'', 10),
      (''max_orders_per_minute'', 30),
      (''max_single_order_notional_usd'', 10000),
      (''max_correlated_exposure_ratio'', 40 / 100)]"

definition CONFIGURED_FLOORS :: "(string \<times> rat) list" where
  "CONFIGURED_FLOORS =
     [(''min_free_margin_ratio'', 25 / 100),
      (''min_trades_for_kelly'', 100),
      (''conviction_floor'', 10 / 100)]"

definition HARD_CEILINGS :: "(string \<times> ceiling) list" where
  "HARD_CEILINGS = map (\<lambda>(name, bound). (name, Ceiling bound)) CONFIGURED_CEILINGS"

definition HARD_FLOORS :: "(string \<times> floor_bound) list" where
  "HARD_FLOORS = map (\<lambda>(name, bound). (name, Floor bound)) CONFIGURED_FLOORS"

section \<open>The validators\<close>

text \<open>A refusal names every breach; the exception carries the breached names.\<close>

definition joined :: "string list \<Rightarrow> string" where
  "joined names = concat (map (\<lambda>name. name @ ''; '') names)"

definition refuse :: "string list \<Rightarrow> unit result" where
  "refuse breaches = (if breaches \<noteq> [] then Inl (ValueError (joined breaches)) else Inr ())"

definition assert_bounds_are_observed :: "(string \<times> rat) list \<Rightarrow> string list \<Rightarrow> unit result" where
  "assert_bounds_are_observed observed names =
     (let missing = filter (\<lambda>name. name \<notin> fst ` set observed) names in
      if missing \<noteq> [] then Inl (ValueError ''bounds not submitted'') else Inr ())"

definition ceiling_breaches :: "(string \<times> rat) list \<Rightarrow> (string \<times> ceiling) list \<Rightarrow> string list" where
  "ceiling_breaches observed ceilings =
     map fst (filter (\<lambda>(name, ceiling). is_exceeded_by ceiling (the (map_of observed name))) ceilings)"

definition floor_breaches :: "(string \<times> rat) list \<Rightarrow> (string \<times> floor_bound) list \<Rightarrow> string list" where
  "floor_breaches observed floors =
     map fst (filter (\<lambda>(name, floor). is_undercut_by floor (the (map_of observed name))) floors)"

definition assert_within_ceilings :: "(string \<times> rat) list \<Rightarrow> (string \<times> ceiling) list \<Rightarrow> unit result" where
  "assert_within_ceilings observed ceilings =
     and_then (assert_bounds_are_observed observed (map fst ceilings)) (\<lambda>_.
       refuse (ceiling_breaches observed ceilings))"

definition assert_above_floors :: "(string \<times> rat) list \<Rightarrow> (string \<times> floor_bound) list \<Rightarrow> unit result" where
  "assert_above_floors observed floors =
     and_then (assert_bounds_are_observed observed (map fst floors)) (\<lambda>_.
       refuse (floor_breaches observed floors))"

lemma refuse_ok [simp]: "refuse breaches = Inr () \<longleftrightarrow> breaches = []"
  by (simp add: refuse_def)

lemma bounds_observed_ok:
  "assert_bounds_are_observed observed names = Inr () \<longleftrightarrow> set names \<subseteq> fst ` set observed"
  by (auto simp: assert_bounds_are_observed_def filter_empty_conv)

text \<open>Both validators ask of each bound that its field was submitted and is on its side.\<close>

lemma every_bound_holds:
  "set (map fst bounds) \<subseteq> fst ` set observed \<and>
     map fst (filter (\<lambda>(name, b). crossed b (the (map_of observed name))) bounds) = [] \<longleftrightarrow>
   (\<forall>(name, b) \<in> set bounds. \<exists>x. map_of observed name = Some x \<and> \<not> crossed b x)"
proof -
  have "name \<in> fst ` set observed \<and> \<not> crossed b (the (map_of observed name)) \<longleftrightarrow>
      (\<exists>x. map_of observed name = Some x \<and> \<not> crossed b x)" for name b
    using map_of_eq_None_iff [of observed name] by (cases "map_of observed name") auto
  moreover have "set (map fst bounds) \<subseteq> fst ` set observed \<and>
     map fst (filter (\<lambda>(name, b). crossed b (the (map_of observed name))) bounds) = [] \<longleftrightarrow>
     (\<forall>(name, b) \<in> set bounds. name \<in> fst ` set observed \<and> \<not> crossed b (the (map_of observed name)))"
    unfolding split_beta by (simp only: map_is_Nil_conv filter_empty_conv set_map image_subset_iff) blast
  ultimately show ?thesis by simp
qed

lemma assert_within_ceilings_ok:
  "assert_within_ceilings observed ceilings = Inr () \<longleftrightarrow>
     (\<forall>(name, ceiling) \<in> set ceilings. \<exists>x. map_of observed name = Some x \<and> \<not> is_exceeded_by ceiling x)"
  unfolding every_bound_holds [symmetric] assert_within_ceilings_def ceiling_breaches_def and_then_Inr_iff
  by (simp add: bounds_observed_ok)

lemma assert_above_floors_ok:
  "assert_above_floors observed floors = Inr () \<longleftrightarrow>
     (\<forall>(name, floor) \<in> set floors. \<exists>x. map_of observed name = Some x \<and> \<not> is_undercut_by floor x)"
  unfolding every_bound_holds [symmetric] assert_above_floors_def floor_breaches_def and_then_Inr_iff
  by (simp add: bounds_observed_ok)

section \<open>The limits\<close>

text \<open>A gate is whatever object the caller passed: only the object \<open>True\<close> engages it.\<close>

record risk_limits =
  max_portfolio_notional_usd :: rat
  max_position_notional_usd :: rat
  max_leverage :: rat
  max_daily_drawdown_ratio :: rat
  max_total_drawdown_ratio :: rat
  max_open_positions :: int
  max_orders_per_minute :: int
  max_single_order_notional_usd :: rat
  max_correlated_exposure_ratio :: rat
  min_free_margin_ratio :: rat
  min_trades_for_kelly :: int
  conviction_floor :: rat
  kill_switch_enabled :: pyobj
  require_invalidation_level :: pyobj

definition default_limits :: risk_limits where
  "default_limits = \<lparr>max_portfolio_notional_usd = 25000, max_position_notional_usd = 5000,
     max_leverage = 2, max_daily_drawdown_ratio = 3 / 100, max_total_drawdown_ratio = 10 / 100,
     max_open_positions = 5, max_orders_per_minute = 10, max_single_order_notional_usd = 2000,
     max_correlated_exposure_ratio = 25 / 100, min_free_margin_ratio = 40 / 100,
     min_trades_for_kelly = 100, conviction_floor = 15 / 100,
     kill_switch_enabled = PyBool True, require_invalidation_level = PyBool True\<rparr>"

definition bounded_values :: "risk_limits \<Rightarrow> (string \<times> rat) list" where
  "bounded_values l =
     [(''max_portfolio_notional_usd'', max_portfolio_notional_usd l),
      (''max_position_notional_usd'', max_position_notional_usd l),
      (''max_leverage'', max_leverage l),
      (''max_daily_drawdown_ratio'', max_daily_drawdown_ratio l),
      (''max_total_drawdown_ratio'', max_total_drawdown_ratio l),
      (''max_open_positions'', of_int (max_open_positions l)),
      (''max_orders_per_minute'', of_int (max_orders_per_minute l)),
      (''max_single_order_notional_usd'', max_single_order_notional_usd l),
      (''max_correlated_exposure_ratio'', max_correlated_exposure_ratio l),
      (''min_free_margin_ratio'', min_free_margin_ratio l),
      (''min_trades_for_kelly'', of_int (min_trades_for_kelly l)),
      (''conviction_floor'', conviction_floor l)]"

definition assert_gates_are_engaged :: "risk_limits \<Rightarrow> unit result" where
  "assert_gates_are_engaged l =
     (let states = [(''kill_switch_enabled'', kill_switch_enabled l),
            (''require_invalidation_level'', require_invalidation_level l)];
          disabled = map fst (filter (\<lambda>(name, state). state \<noteq> PyBool True) states)
      in if disabled \<noteq> [] then Inl (ValueError (joined disabled)) else Inr ())"

definition risk_limits_post_init :: "risk_limits \<Rightarrow> unit result" where
  [post_init_defs]: "risk_limits_post_init l = run_checks
     [assert_gates_are_engaged l,
      assert_within_ceilings (bounded_values l) HARD_CEILINGS,
      assert_above_floors (bounded_values l) HARD_FLOORS]"

text \<open>
  Configuration can only make the system more conservative: limits exist if and only
  if both gates are engaged and every value is on the safe side of its compiled-in bound,
  the nine ceilings from below and the three floors from above.
\<close>

theorem risk_limits_accepted_iff:
  "construct risk_limits_post_init l = Inr l \<longleftrightarrow>
     kill_switch_enabled l = PyBool True \<and> require_invalidation_level l = PyBool True \<and>
     max_portfolio_notional_usd l \<le> 100000 \<and> max_position_notional_usd l \<le> 25000 \<and>
     max_leverage l \<le> 3 \<and> max_daily_drawdown_ratio l \<le> 5 / 100 \<and>
     max_total_drawdown_ratio l \<le> 20 / 100 \<and> max_open_positions l \<le> 10 \<and>
     max_orders_per_minute l \<le> 30 \<and> max_single_order_notional_usd l \<le> 10000 \<and>
     max_correlated_exposure_ratio l \<le> 40 / 100 \<and> 25 / 100 \<le> min_free_margin_ratio l \<and>
     100 \<le> min_trades_for_kelly l \<and> 10 / 100 \<le> conviction_floor l"
proof -
  have "assert_gates_are_engaged l = Inr () \<longleftrightarrow>
      kill_switch_enabled l = PyBool True \<and> require_invalidation_level l = PyBool True"
    by (simp add: assert_gates_are_engaged_def Let_def)
  moreover have "assert_within_ceilings (bounded_values l) HARD_CEILINGS = Inr () \<longleftrightarrow>
     max_portfolio_notional_usd l \<le> 100000 \<and> max_position_notional_usd l \<le> 25000 \<and>
     max_leverage l \<le> 3 \<and> max_daily_drawdown_ratio l \<le> 5 / 100 \<and>
     max_total_drawdown_ratio l \<le> 20 / 100 \<and> max_open_positions l \<le> 10 \<and>
     max_orders_per_minute l \<le> 30 \<and> max_single_order_notional_usd l \<le> 10000 \<and>
     max_correlated_exposure_ratio l \<le> 40 / 100"
    unfolding assert_within_ceilings_ok
    by (simp add: HARD_CEILINGS_def CONFIGURED_CEILINGS_def bounded_values_def not_less)
  moreover have "assert_above_floors (bounded_values l) HARD_FLOORS = Inr () \<longleftrightarrow>
     25 / 100 \<le> min_free_margin_ratio l \<and> 100 \<le> min_trades_for_kelly l \<and>
     10 / 100 \<le> conviction_floor l"
    unfolding assert_above_floors_ok
    by (simp add: HARD_FLOORS_def CONFIGURED_FLOORS_def bounded_values_def not_less)
  ultimately show ?thesis by (simp add: risk_limits_post_init_def)
qed

lemma default_limits_accepted: "risk_limits_post_init default_limits = Inr ()"
  by code_simp

end
