(* ===== verification/Rows.thy ===== *)
theory Rows
  imports Prelude
begin

text \<open>
  Persisted rows as the codecs of \<open>src/fking/risk\<close> see them: mappings of primitives, and the
  renderings of decimals and instants as text with their parsers, which belong to the standard
  library and are one argument, a codec.
\<close>

section \<open>Rows and codecs\<close>

datatype row_value =
    RowNone
  | RowStr string
  | RowInt int
  | RowBool bool
  | RowSeq "row_value list"
  | RowMap "(string \<times> row_value) list"
  | RowOther string

type_synonym row = "(string \<times> row_value) list"

text \<open>
  What the standard library does with text: \<open>str\<close> and \<open>Decimal\<close> on decimals,
  \<open>isoformat\<close> and \<open>fromisoformat\<close> on instants.
\<close>

record text_codec =
  decimal_text :: "rat \<Rightarrow> string"
  decimal_of_text :: "string \<Rightarrow> decval result"
  moment_text :: "int \<Rightarrow> string"
  moment_of_text :: "string \<Rightarrow> pyobj result"

definition codec_ok :: "text_codec \<Rightarrow> bool" where
  "codec_ok c \<longleftrightarrow> (\<forall>x. decimal_of_text c (decimal_text c x) = Inr (Finite x)) \<and>
     (\<forall>t. moment_of_text c (moment_text c t) = Inr (utc t))"

section \<open>A codec\<close>

text \<open>A codec, to see that there is one: numerator and denominator in unary.\<close>

definition unary_text :: "rat \<Rightarrow> string" where
  "unary_text x = (case quotient_of x of (p, q) \<Rightarrow>
     (if p < 0 then [CHR ''-''] else []) @ replicate (nat \<bar>p\<bar>) CHR ''1'' @ CHR ''/'' # replicate (nat q) CHR ''1'')"

definition unary_value :: "string \<Rightarrow> rat" where
  "unary_value s =
     (let body = (if take 1 s = [CHR ''-''] then tl s else s);
          p = length (takeWhile (\<lambda>c. c = CHR ''1'') body);
          q = length (drop (Suc p) body);
          x = of_nat p / of_nat q
      in if take 1 s = [CHR ''-''] then - x else x)"

definition unary_codec :: text_codec where
  "unary_codec = \<lparr>decimal_text = unary_text, decimal_of_text = \<lambda>s. Inr (Finite (unary_value s)),
     moment_text = \<lambda>t. unary_text (of_int t), moment_of_text = \<lambda>s. Inr (utc \<lfloor>unary_value s\<rfloor>)\<rparr>"

lemma unary_value_text:
  "unary_value (replicate n CHR ''1'' @ CHR ''/'' # replicate m CHR ''1'') = of_nat n / of_nat m"
  "unary_value (CHR ''-'' # replicate n CHR ''1'' @ CHR ''/'' # replicate m CHR ''1'') = - (of_nat n / of_nat m)"
proof -
  have ones: "takeWhile (\<lambda>c. c = CHR ''1'') (replicate n CHR ''1'' @ CHR ''/'' # r) = replicate n CHR ''1''" for r
    by (induction n) simp_all
  have "take 1 (replicate n CHR ''1'' @ CHR ''/'' # replicate m CHR ''1'') \<noteq> [CHR ''-'']"
    by (cases n) simp_all
  then show "unary_value (replicate n CHR ''1'' @ CHR ''/'' # replicate m CHR ''1'') = of_nat n / of_nat m"
    by (simp add: unary_value_def ones)
  show "unary_value (CHR ''-'' # replicate n CHR ''1'' @ CHR ''/'' # replicate m CHR ''1'') = - (of_nat n / of_nat m)"
    by (simp add: unary_value_def ones)
qed

lemma unary_round_trip: "unary_value (unary_text x) = x"
proof -
  obtain p q where pq: "quotient_of x = (p, q)" by fastforce
  then have q: "0 < q" "x = of_int p / of_int q"
    by (auto intro: quotient_of_denom_pos quotient_of_div)
  have "unary_value (unary_text x) =
      (if p < 0 then - (of_nat (nat \<bar>p\<bar>) / of_nat (nat q)) else of_nat (nat \<bar>p\<bar>) / of_nat (nat q))"
    by (simp add: unary_text_def pq unary_value_text)
  with q show ?thesis by simp
qed

lemma unary_codec_ok: "codec_ok unary_codec"
  by (simp add: codec_ok_def unary_codec_def unary_round_trip)

end
