(* ===== verification/Drawdown.thy ===== *)
theory Drawdown
  imports Risk_Limits Rows
begin

text \<open>
  Drawdown, daily-loss and rolling-24h-loss limits: \<open>src/fking/risk/drawdown.py\<close>. The
  state that is restored and never recomputed, its transitions on an equity mark, the
  size taper, the evaluation that latches a breach, and the persisted form. The renderings
  of decimals and instants as text and their parsers belong to the standard library and
  are one argument, a codec.
\<close>

section \<open>Constants\<close>

definition ROLLING_WINDOW :: int where
  "ROLLING_WINDOW = 24 * 60 * 60 * microseconds_per_second"

definition DERISK_ONSET_RATIO :: rat where
  "DERISK_ONSET_RATIO = 6 / 10"

definition DERISK_TAPER_WIDTH :: rat where
  "DERISK_TAPER_WIDTH = 4 / 10"

definition ROLLING_MULTIPLE :: rat where
  "ROLLING_MULTIPLE = 15 / 10"

definition DRAWDOWN_HARD_CEILINGS :: "(string \<times> ceiling) list" where
  "DRAWDOWN_HARD_CEILINGS =
     [(''strategy_drawdown_ratio'', Ceiling (25 / 100)),
      (''portfolio_drawdown_ratio'', Ceiling (20 / 100)),
      (''daily_loss_ratio'', Ceiling (5 / 100)),
      (''rolling_loss_ratio'', Ceiling (75 / 1000))]"

datatype scope = StrategyScope | PortfolioScope

primrec scope_name :: "scope \<Rightarrow> string" where
  "scope_name StrategyScope = ''strategy''"
| "scope_name PortfolioScope = ''portfolio''"

definition SCOPES :: "(string \<times> scope) list" where
  "SCOPES = [(''strategy'', StrategyScope), (''portfolio'', PortfolioScope)]"

datatype limit_name = DrawdownLimit | DailyLossLimit | RollingLossLimit

primrec limit_text :: "limit_name \<Rightarrow> string" where
  "limit_text DrawdownLimit = ''drawdown''"
| "limit_text DailyLossLimit = ''daily_loss''"
| "limit_text RollingLossLimit = ''rolling_loss''"

definition LIMIT_NAMES :: "(string \<times> limit_name) list" where
  "LIMIT_NAMES = [(''drawdown'', DrawdownLimit), (''daily_loss'', DailyLossLimit),
     (''rolling_loss'', RollingLossLimit)]"

definition LIMIT_ORDER :: "limit_name list" where
  "LIMIT_ORDER = [DrawdownLimit, DailyLossLimit, RollingLossLimit]"

datatype breach_response = SuspendStrategy | RequestKillSwitchTrip

primrec response_text :: "breach_response \<Rightarrow> string" where
  "response_text SuspendStrategy = ''suspend_strategy''"
| "response_text RequestKillSwitchTrip = ''request_kill_switch_trip''"

primrec response_by_scope :: "scope \<Rightarrow> breach_response" where
  "response_by_scope StrategyScope = SuspendStrategy"
| "response_by_scope PortfolioScope = RequestKillSwitchTrip"

section \<open>Guards\<close>

definition drawdown_require_utc :: "pyobj \<Rightarrow> string \<Rightarrow> int result" where
  "drawdown_require_utc = utc_guard DrawdownStateError"

definition require_positive_equity :: "pyobj \<Rightarrow> string \<Rightarrow> rat result" where
  "require_positive_equity candidate field =
     and_then (decimal_guard DrawdownStateError candidate field) (\<lambda>equity.
       if equity \<le> 0 then Inl (DrawdownStateError (field @ '' not positive'')) else Inr equity)"

text \<open>Midnight of the instant's day: the epoch is a midnight and days have no leap seconds.\<close>

definition utc_day_start :: "int \<Rightarrow> int" where
  "utc_day_start moment = moment - moment mod (24 * 60 * 60 * microseconds_per_second)"

section \<open>Records\<close>

record equity_mark =
  mark_observed_at_utc :: int
  equity_usd :: rat

definition equity_mark_post_init :: "equity_mark \<Rightarrow> unit result" where
  [post_init_defs]: "equity_mark_post_init m = run_checks
     [void (drawdown_require_utc (utc (mark_observed_at_utc m)) ''observed_at_utc''),
      void (require_positive_equity (dec (equity_usd m)) ''equity_usd'')]"

record breach_record =
  breach_scope :: scope
  breach_subject_id :: string
  breach_limit_name :: limit_name
  observed_ratio :: rat
  budget_ratio :: rat
  breached_at_utc :: int
  response :: breach_response

definition breach_post_init :: "breach_record \<Rightarrow> unit result" where
  [post_init_defs]: "breach_post_init b =
     void (drawdown_require_utc (utc (breached_at_utc b)) ''breached_at_utc'')"

record drawdown_budgets =
  budgets_scope :: scope
  budget_drawdown_ratio :: rat
  budget_daily_loss_ratio :: rat

definition budget_rolling_loss_ratio :: "drawdown_budgets \<Rightarrow> rat" where
  "budget_rolling_loss_ratio b = dmul (budget_daily_loss_ratio b) ROLLING_MULTIPLE"

definition budgets_post_init :: "drawdown_budgets \<Rightarrow> unit result" where
  [post_init_defs]: "budgets_post_init b =
     (let drawdown_field = scope_name (budgets_scope b) @ ''_drawdown_ratio'';
          submitted = [(drawdown_field, budget_drawdown_ratio b),
            (''daily_loss_ratio'', budget_daily_loss_ratio b),
            (''rolling_loss_ratio'', budget_rolling_loss_ratio b)];
          ceilings = filter (\<lambda>(name, bound). name \<in> set (map fst submitted)) DRAWDOWN_HARD_CEILINGS
      in assert_within_ceilings submitted ceilings)"

primrec budget_for :: "drawdown_budgets \<Rightarrow> limit_name \<Rightarrow> rat" where
  "budget_for b DrawdownLimit = budget_drawdown_ratio b"
| "budget_for b DailyLossLimit = budget_daily_loss_ratio b"
| "budget_for b RollingLossLimit = budget_rolling_loss_ratio b"

record drawdown_state =
  state_scope :: scope
  state_subject_id :: string
  peak_equity_usd :: rat
  current_equity_usd :: rat
  day_start_utc :: int
  day_open_equity_usd :: rat
  rolling_marks :: "equity_mark list"
  observed_at_utc :: int
  latched_breach :: "breach_record option"

definition drawdown_state_post_init :: "drawdown_state \<Rightarrow> unit result" where
  [post_init_defs]: "drawdown_state_post_init s = run_checks
     [void (require_positive_equity (dec (peak_equity_usd s)) ''peak_equity_usd''),
      void (require_positive_equity (dec (current_equity_usd s)) ''current_equity_usd''),
      void (require_positive_equity (dec (day_open_equity_usd s)) ''day_open_equity_usd''),
      void (drawdown_require_utc (utc (observed_at_utc s)) ''observed_at_utc''),
      ensure (day_start_utc s = utc_day_start (day_start_utc s)) (DrawdownStateError ''day_start_utc''),
      ensure (\<not> peak_equity_usd s < current_equity_usd s) (DrawdownStateError ''peak below current''),
      ensure (rolling_marks s \<noteq> []) (DrawdownStateError ''rolling_marks empty''),
      ensure (sorted (map mark_observed_at_utc (rolling_marks s))) (DrawdownStateError ''rolling_marks order'')]"

definition drawdown_ratio :: "drawdown_state \<Rightarrow> rat result" where
  "drawdown_ratio s = ddiv (dsub (peak_equity_usd s) (current_equity_usd s)) (peak_equity_usd s)"

definition daily_loss_ratio :: "drawdown_state \<Rightarrow> rat result" where
  "daily_loss_ratio s =
     and_then (ddiv (dsub (day_open_equity_usd s) (current_equity_usd s)) (day_open_equity_usd s))
       (\<lambda>loss. Inr (max 0 loss))"

definition window_high :: "drawdown_state \<Rightarrow> rat" where
  "window_high s = max (foldl max (hd (map equity_usd (rolling_marks s))) (tl (map equity_usd (rolling_marks s))))
     (current_equity_usd s)"

definition rolling_loss_ratio :: "drawdown_state \<Rightarrow> rat result" where
  "rolling_loss_ratio s =
     and_then (ddiv (dsub (window_high s) (current_equity_usd s)) (window_high s))
       (\<lambda>loss. Inr (max 0 loss))"

primrec observed_ratio_for :: "drawdown_state \<Rightarrow> limit_name \<Rightarrow> rat result" where
  "observed_ratio_for s DrawdownLimit = drawdown_ratio s"
| "observed_ratio_for s DailyLossLimit = daily_loss_ratio s"
| "observed_ratio_for s RollingLossLimit = rolling_loss_ratio s"

section \<open>Opening, restoring and observing\<close>

definition open_first_time :: "scope \<Rightarrow> string \<Rightarrow> pyobj \<Rightarrow> pyobj \<Rightarrow> drawdown_state result" where
  "open_first_time scope subject opening_equity as_of_utc =
     and_then (require_positive_equity opening_equity ''opening_equity_usd'') (\<lambda>equity.
     and_then (drawdown_require_utc as_of_utc ''as_of_utc'') (\<lambda>moment.
     and_then (construct equity_mark_post_init \<lparr>mark_observed_at_utc = moment, equity_usd = equity\<rparr>) (\<lambda>mark.
     construct drawdown_state_post_init
       \<lparr>state_scope = scope, state_subject_id = subject, peak_equity_usd = equity,
        current_equity_usd = equity, day_start_utc = utc_day_start moment,
        day_open_equity_usd = equity, rolling_marks = [mark], observed_at_utc = moment,
        latched_breach = None\<rparr>)))"

definition restore :: "scope \<Rightarrow> string \<Rightarrow> rat \<Rightarrow> rat \<Rightarrow> int \<Rightarrow> rat \<Rightarrow> equity_mark list \<Rightarrow> int \<Rightarrow>
    breach_record option \<Rightarrow> drawdown_state result" where
  "restore scope subject peak current day_start day_open marks observed_at breach =
     construct drawdown_state_post_init
       \<lparr>state_scope = scope, state_subject_id = subject, peak_equity_usd = peak,
        current_equity_usd = current, day_start_utc = day_start, day_open_equity_usd = day_open,
        rolling_marks = marks, observed_at_utc = observed_at, latched_breach = breach\<rparr>"

definition prune :: "equity_mark list \<Rightarrow> int \<Rightarrow> equity_mark list" where
  "prune marks as_of_utc =
     (let window_start = as_of_utc - ROLLING_WINDOW;
          inside = filter (\<lambda>m. mark_observed_at_utc m > window_start) marks;
          before = filter (\<lambda>m. mark_observed_at_utc m \<le> window_start) marks
      in if before \<noteq> [] then last before # inside else inside)"

definition with_equity :: "drawdown_state \<Rightarrow> pyobj \<Rightarrow> pyobj \<Rightarrow> drawdown_state result" where
  "with_equity s candidate as_of_utc =
     and_then (require_positive_equity candidate ''equity_usd'') (\<lambda>equity.
     and_then (drawdown_require_utc as_of_utc ''as_of_utc'') (\<lambda>moment.
     if moment < observed_at_utc s then Inl (DrawdownStateError ''not reorderable'')
     else
       (let day_start = utc_day_start moment;
            rolled = day_start > day_start_utc s
        in and_then (construct equity_mark_post_init \<lparr>mark_observed_at_utc = moment, equity_usd = equity\<rparr>)
          (\<lambda>mark.
            construct drawdown_state_post_init
              (s\<lparr>peak_equity_usd := max (peak_equity_usd s) equity, current_equity_usd := equity,
                 day_start_utc := day_start,
                 day_open_equity_usd := if rolled then equity else day_open_equity_usd s,
                 rolling_marks := prune (rolling_marks s @ [mark]) moment,
                 observed_at_utc := moment\<rparr>)))))"

section \<open>The taper and the evaluation\<close>

definition derisk_scalar :: "rat \<Rightarrow> rat \<Rightarrow> rat result" where
  "derisk_scalar observed budget =
     (if budget \<le> 0 then Inr 0
      else and_then (ddiv (max 0 observed) budget) (\<lambda>utilisation_ratio.
        and_then (ddiv (dsub utilisation_ratio DERISK_ONSET_RATIO) DERISK_TAPER_WIDTH) (\<lambda>consumed.
          Inr (min 1 (max 0 (dsub 1 consumed))))))"

record limit_verdict =
  verdict_state :: drawdown_state
  observed_ratios :: "(limit_name \<times> rat) list"
  derisk_multiplier :: rat
  verdict_breach :: "breach_record option"

definition verdict_is_halted :: "limit_verdict \<Rightarrow> bool" where
  "verdict_is_halted v \<longleftrightarrow> verdict_breach v \<noteq> None"

definition first_breach :: "drawdown_state \<Rightarrow> drawdown_budgets \<Rightarrow> (limit_name \<times> rat) list \<Rightarrow> breach_record option" where
  "first_breach s budgets observed =
     (case find (\<lambda>(name, ratio). ratio \<ge> budget_for budgets name) observed of
        None \<Rightarrow> None
      | Some (name, ratio) \<Rightarrow> Some
          \<lparr>breach_scope = state_scope s, breach_subject_id = state_subject_id s, breach_limit_name = name,
           observed_ratio = ratio, budget_ratio = budget_for budgets name,
           breached_at_utc = observed_at_utc s, response = response_by_scope (state_scope s)\<rparr>)"

definition evaluate :: "drawdown_state \<Rightarrow> drawdown_budgets \<Rightarrow> limit_verdict result" where
  "evaluate s budgets =
     (if budgets_scope budgets \<noteq> state_scope s then Inl (DrawdownStateError ''budgets of another scope'')
      else
        and_then (map_result (\<lambda>name. and_then (observed_ratio_for s name) (\<lambda>ratio. Inr (name, ratio))) LIMIT_ORDER)
          (\<lambda>observed.
        and_then (case latched_breach s of
            Some b \<Rightarrow> Inr (Some b)
          | None \<Rightarrow>
              (case first_breach s budgets observed of
                 None \<Rightarrow> Inr None
               | Some b \<Rightarrow> and_then (construct breach_post_init b) (\<lambda>b. Inr (Some b)))) (\<lambda>breach.
        and_then (map_result (\<lambda>(name, ratio). derisk_scalar ratio (budget_for budgets name)) observed) (\<lambda>multipliers.
        and_then (construct drawdown_state_post_init (s\<lparr>latched_breach := breach\<rparr>)) (\<lambda>t.
        Inr \<lparr>verdict_state = t, observed_ratios = observed,
             derisk_multiplier = (if breach \<noteq> None then 0 else foldl min (hd multipliers) (tl multipliers)),
             verdict_breach = breach\<rparr>)))))"

section \<open>The persisted form\<close>

definition mark_to_row :: "text_codec \<Rightarrow> equity_mark \<Rightarrow> row_value" where
  "mark_to_row c m = RowMap
     [(''observed_at_utc'', RowStr (moment_text c (mark_observed_at_utc m))),
      (''equity_usd'', RowStr (decimal_text c (equity_usd m)))]"

definition breach_to_row :: "text_codec \<Rightarrow> breach_record \<Rightarrow> row_value" where
  "breach_to_row c b = RowMap
     [(''limit_name'', RowStr (limit_text (breach_limit_name b))),
      (''observed_ratio'', RowStr (decimal_text c (observed_ratio b))),
      (''budget_ratio'', RowStr (decimal_text c (budget_ratio b))),
      (''breached_at_utc'', RowStr (moment_text c (breached_at_utc b))),
      (''response'', RowStr (response_text (response b)))]"

definition to_row :: "text_codec \<Rightarrow> drawdown_state \<Rightarrow> row" where
  "to_row c s =
     [(''scope'', RowStr (scope_name (state_scope s))),
      (''subject_id'', RowStr (state_subject_id s)),
      (''peak_equity_usd'', RowStr (decimal_text c (peak_equity_usd s))),
      (''current_equity_usd'', RowStr (decimal_text c (current_equity_usd s))),
      (''day_start_utc'', RowStr (moment_text c (day_start_utc s))),
      (''day_open_equity_usd'', RowStr (decimal_text c (day_open_equity_usd s))),
      (''observed_at_utc'', RowStr (moment_text c (observed_at_utc s))),
      (''rolling_marks'', RowSeq (map (mark_to_row c) (rolling_marks s))),
      (''latched_breach'',
         (case latched_breach s of None \<Rightarrow> RowNone | Some b \<Rightarrow> breach_to_row c b))]"

definition get_str :: "row \<Rightarrow> string \<Rightarrow> string result" where
  "get_str row field =
     (case map_of row field of
        Some (RowStr raw) \<Rightarrow> Inr raw
      | _ \<Rightarrow> Inl (DrawdownStateError (''persisted '' @ field)))"

definition decode_moment :: "text_codec \<Rightarrow> row \<Rightarrow> string \<Rightarrow> int result" where
  "decode_moment c row field =
     and_then (get_str row field) (\<lambda>raw.
     and_then (moment_of_text c raw) (\<lambda>moment. drawdown_require_utc moment field))"

definition decode_ratio :: "text_codec \<Rightarrow> row \<Rightarrow> string \<Rightarrow> rat result" where
  "decode_ratio c row field =
     and_then (get_str row field) (\<lambda>raw.
     and_then (decimal_of_text c raw) (\<lambda>ratio.
       (case ratio of
          Finite x \<Rightarrow> if x < 0 then Inl (DrawdownStateError (''persisted '' @ field)) else Inr x
        | _ \<Rightarrow> Inl (DrawdownStateError (''persisted '' @ field)))))"

definition decode_equity :: "text_codec \<Rightarrow> row \<Rightarrow> string \<Rightarrow> rat result" where
  "decode_equity c row field =
     and_then (get_str row field) (\<lambda>raw.
     and_then (decimal_of_text c raw) (\<lambda>equity. require_positive_equity (PyDecimal equity) field))"

primrec mark_from_row :: "text_codec \<Rightarrow> row_value \<Rightarrow> equity_mark result" where
  "mark_from_row c (RowMap entry) =
     and_then (decode_moment c entry ''observed_at_utc'') (\<lambda>moment.
     and_then (decode_equity c entry ''equity_usd'') (\<lambda>equity.
     construct equity_mark_post_init \<lparr>mark_observed_at_utc = moment, equity_usd = equity\<rparr>))"
| "mark_from_row c RowNone = Inl (DrawdownStateError ''persisted rolling mark'')"
| "mark_from_row c (RowStr s) = Inl (DrawdownStateError ''persisted rolling mark'')"
| "mark_from_row c (RowInt n) = Inl (DrawdownStateError ''persisted rolling mark'')"
| "mark_from_row c (RowBool b) = Inl (DrawdownStateError ''persisted rolling mark'')"
| "mark_from_row c (RowSeq vs) = Inl (DrawdownStateError ''persisted rolling mark'')"
| "mark_from_row c (RowOther s) = Inl (DrawdownStateError ''persisted rolling mark'')"

definition breach_from_row :: "text_codec \<Rightarrow> scope \<Rightarrow> string \<Rightarrow> row_value option \<Rightarrow> breach_record option result" where
  "breach_from_row c scope subject raw_breach =
     (case raw_breach of
        None \<Rightarrow> Inr None
      | Some RowNone \<Rightarrow> Inr None
      | Some (RowMap raw) \<Rightarrow>
          (case map_of raw ''limit_name'' of
             Some (RowStr name) \<Rightarrow>
               (case map_of LIMIT_NAMES name of
                  None \<Rightarrow> Inl (DrawdownStateError ''persisted limit_name'')
                | Some limit \<Rightarrow>
                    and_then (decode_ratio c raw ''observed_ratio'') (\<lambda>observed.
                    and_then (decode_ratio c raw ''budget_ratio'') (\<lambda>budget.
                    and_then (decode_moment c raw ''breached_at_utc'') (\<lambda>moment.
                    and_then (construct breach_post_init
                      \<lparr>breach_scope = scope, breach_subject_id = subject, breach_limit_name = limit,
                       observed_ratio = observed, budget_ratio = budget, breached_at_utc = moment,
                       response = response_by_scope scope\<rparr>) (\<lambda>b. Inr (Some b))))))
           | _ \<Rightarrow> Inl (DrawdownStateError ''persisted limit_name''))
      | Some _ \<Rightarrow> Inl (DrawdownStateError ''persisted latched_breach''))"

definition from_row :: "text_codec \<Rightarrow> row \<Rightarrow> drawdown_state result" where
  "from_row c row =
     and_then (case map_of row ''scope'' of
         Some (RowStr raw) \<Rightarrow>
           (case map_of SCOPES raw of
              Some scope \<Rightarrow> Inr scope
            | None \<Rightarrow> Inl (DrawdownStateError ''persisted scope''))
       | _ \<Rightarrow> Inl (DrawdownStateError ''persisted scope'')) (\<lambda>scope.
     and_then (case map_of row ''subject_id'' of
         Some (RowStr s) \<Rightarrow>
           if strip s = [] then Inl (DrawdownStateError ''persisted subject_id'') else Inr s
       | _ \<Rightarrow> Inl (DrawdownStateError ''persisted subject_id'')) (\<lambda>subject.
     and_then (case map_of row ''rolling_marks'' of
         Some (RowSeq entries) \<Rightarrow>
           if entries = [] then Inl (DrawdownStateError ''persisted rolling_marks'')
           else map_result (mark_from_row c) entries
       | _ \<Rightarrow> Inl (DrawdownStateError ''persisted rolling_marks'')) (\<lambda>marks.
     and_then (breach_from_row c scope subject (map_of row ''latched_breach'')) (\<lambda>breach.
     and_then (decode_equity c row ''peak_equity_usd'') (\<lambda>peak.
     and_then (decode_equity c row ''current_equity_usd'') (\<lambda>current.
     and_then (decode_moment c row ''day_start_utc'') (\<lambda>day_start.
     and_then (decode_equity c row ''day_open_equity_usd'') (\<lambda>day_open.
     and_then (decode_moment c row ''observed_at_utc'') (\<lambda>observed_at.
       restore scope subject peak current day_start day_open marks observed_at breach)))))))))"

section \<open>What the constructors accept\<close>

lemma drawdown_guards_typed [simp]: "drawdown_require_utc (utc t) f = Inr t"
  by (simp add: drawdown_require_utc_def)

lemma require_positive_equity_accepts [guard_simps]:
  "require_positive_equity c f = Inr x \<longleftrightarrow> c = dec x \<and> 0 < x"
  by (cases c) (auto simp: require_positive_equity_def decimal_guard_def split: decval.splits)

lemma drawdown_state_accepted:
  "drawdown_state_post_init s = Inr () \<longleftrightarrow>
     0 < peak_equity_usd s \<and> 0 < current_equity_usd s \<and> 0 < day_open_equity_usd s \<and>
     day_start_utc s = utc_day_start (day_start_utc s) \<and> current_equity_usd s \<le> peak_equity_usd s \<and>
     rolling_marks s \<noteq> [] \<and> sorted (map mark_observed_at_utc (rolling_marks s))"
  by (auto simp: drawdown_state_post_init_def guard_simps)

lemma utc_day_start_idem [simp]: "utc_day_start (utc_day_start t) = utc_day_start t"
  by (simp add: utc_day_start_def)

lemma utc_day_start_mono: "s \<le> t \<Longrightarrow> utc_day_start s \<le> utc_day_start t"
proof -
  assume "s \<le> t"
  then have "s div 86400000000 * 86400000000 \<le> t div 86400000000 * (86400000000 :: int)"
    by (simp add: zdiv_mono1)
  then show ?thesis by (simp add: utc_day_start_def minus_mod_eq_div_mult)
qed

text \<open>
  Beside what its constructor checks, a state that grew from its first observation is
  anchored on the day of its last observation and holds no mark from after it.
\<close>

definition sound_drawdown :: "drawdown_state \<Rightarrow> bool" where
  "sound_drawdown s \<longleftrightarrow> drawdown_state_post_init s = Inr () \<and>
     day_start_utc s = utc_day_start (observed_at_utc s) \<and>
     (\<forall>m \<in> set (rolling_marks s). mark_observed_at_utc m \<le> observed_at_utc s \<and> 0 < equity_usd m)"

lemma open_first_time_Inr:
  "open_first_time scope subject e t = Inr s \<longleftrightarrow>
     (\<exists>equity moment. e = dec equity \<and> 0 < equity \<and> t = utc moment \<and>
        s = \<lparr>state_scope = scope, state_subject_id = subject, peak_equity_usd = equity,
          current_equity_usd = equity, day_start_utc = utc_day_start moment,
          day_open_equity_usd = equity,
          rolling_marks = [\<lparr>mark_observed_at_utc = moment, equity_usd = equity\<rparr>],
          observed_at_utc = moment, latched_breach = None\<rparr>)"
  by (auto simp: open_first_time_def and_then_Inr_iff guard_simps drawdown_require_utc_def
      utc_guard_accepts equity_mark_post_init_def drawdown_state_accepted)

lemma open_first_time_sound: "open_first_time scope subject e t = Inr s \<Longrightarrow> sound_drawdown s"
  by (auto simp: open_first_time_Inr sound_drawdown_def drawdown_state_accepted)

section \<open>The rolling window\<close>

lemma sorted_split:
  assumes "sorted (map f xs)"
  shows "filter (\<lambda>x. f x \<le> c) xs @ filter (\<lambda>x. c < f x) xs = xs"
  using assms
proof (induction xs)
  case Nil
  show ?case by simp
next
  case (Cons x xs)
  then have "filter (\<lambda>y. f y \<le> c) xs = []" if "c < f x"
    using that by (auto simp: filter_empty_conv)
  with Cons show ?case by auto
qed

lemma filter_later: "a \<le> b \<Longrightarrow> filter (\<lambda>x. f x > b - w) (filter (\<lambda>x. f x > a - w) xs) = filter (\<lambda>x. f x > b - (w :: int)) xs"
  by (induction xs) auto

text \<open>Pruning at each observation leaves what pruning once at the last one would.\<close>

lemma prune_prune:
  assumes "sorted (map mark_observed_at_utc xs)" and "a \<le> b"
  shows "prune (prune xs a @ ys) b = prune (xs @ ys) b"
proof -
  let ?t = mark_observed_at_utc
  let ?before = "filter (\<lambda>m. ?t m \<le> a - ROLLING_WINDOW) xs"
  let ?inside = "filter (\<lambda>m. a - ROLLING_WINDOW < ?t m) xs"
  have split: "?before @ ?inside = xs" by (rule sorted_split [OF assms(1)])
  have old: "?t m \<le> b - ROLLING_WINDOW" if "m \<in> set ?before" for m using that assms(2) by auto
  have "filter (\<lambda>m. ?t m \<le> b - ROLLING_WINDOW) ?before = ?before"
    "filter (\<lambda>m. b - ROLLING_WINDOW < ?t m) ?before = []"
    using old by (intro filter_True filter_False, fastforce)+
  then have whole: "filter (\<lambda>m. ?t m \<le> b - ROLLING_WINDOW) (xs @ ys) =
      ?before @ filter (\<lambda>m. ?t m \<le> b - ROLLING_WINDOW) (?inside @ ys)"
    "filter (\<lambda>m. b - ROLLING_WINDOW < ?t m) (xs @ ys) = filter (\<lambda>m. b - ROLLING_WINDOW < ?t m) (?inside @ ys)"
    by (metis append_assoc filter_append split, metis append_Nil append_assoc filter_append split)
  show ?thesis
  proof (cases "?before = []")
    case True
    then have "prune xs a = ?inside" by (simp add: prune_def)
    moreover have "?inside = xs" using split True by simp
    ultimately show ?thesis by simp
  next
    case False
    then have pruned: "prune xs a = last ?before # ?inside" by (simp add: prune_def Let_def)
    have "?t (last ?before) \<le> b - ROLLING_WINDOW" using old False last_in_set by blast
    then show ?thesis
      unfolding prune_def [of _ b] Let_def whole pruned
      using False by (auto simp: not_less)
  qed
qed

lemma prune_sorted:
  assumes "sorted (map mark_observed_at_utc xs)"
  shows "sorted (map mark_observed_at_utc (prune xs a))"
proof -
  have "sorted (map mark_observed_at_utc (filter P xs))" for P using assms by (rule sorted_filter)
  moreover have "mark_observed_at_utc (last (filter (\<lambda>m. mark_observed_at_utc m \<le> a - ROLLING_WINDOW) xs)) \<le> a - ROLLING_WINDOW"
    if "filter (\<lambda>m. mark_observed_at_utc m \<le> a - ROLLING_WINDOW) xs \<noteq> []"
    using last_in_set [OF that] by simp
  ultimately show ?thesis by (fastforce simp: prune_def Let_def)
qed

lemma prune_subset: "set (prune xs a) \<subseteq> set xs"
proof -
  have "last (filter P xs) \<in> set xs" if "filter P xs \<noteq> []" for P
    using last_in_set [OF that] by simp
  then show ?thesis by (auto simp: prune_def Let_def)
qed

lemma prune_keeps: "m \<in> set xs \<Longrightarrow> a - ROLLING_WINDOW < mark_observed_at_utc m \<Longrightarrow> m \<in> set (prune xs a)"
  by (simp add: prune_def Let_def)

lemma ROLLING_WINDOW_pos: "0 < ROLLING_WINDOW"
  by (simp add: ROLLING_WINDOW_def)

section \<open>Observing\<close>

definition observed :: "drawdown_state \<Rightarrow> rat \<Rightarrow> int \<Rightarrow> drawdown_state" where
  "observed s e t = s\<lparr>peak_equity_usd := max (peak_equity_usd s) e, current_equity_usd := e,
     day_start_utc := utc_day_start t,
     day_open_equity_usd := if utc_day_start t > day_start_utc s then e else day_open_equity_usd s,
     rolling_marks := prune (rolling_marks s @ [\<lparr>mark_observed_at_utc = t, equity_usd = e\<rparr>]) t,
     observed_at_utc := t\<rparr>"

lemma observed_sound:
  assumes "sound_drawdown s" "0 < e" "observed_at_utc s \<le> t"
  shows "sound_drawdown (observed s e t)"
proof -
  let ?marks = "rolling_marks s @ [\<lparr>mark_observed_at_utc = t, equity_usd = e\<rparr>]"
  have le: "\<forall>m \<in> set (rolling_marks s). mark_observed_at_utc m \<le> t \<and> 0 < equity_usd m"
    using assms by (force simp: sound_drawdown_def)
  have "sorted (map mark_observed_at_utc ?marks)"
    using assms(1) le by (auto simp: sound_drawdown_def drawdown_state_accepted sorted_append)
  then have "sorted (map mark_observed_at_utc (prune ?marks t))" by (rule prune_sorted)
  moreover have "prune ?marks t \<noteq> []"
    using prune_keeps [of "\<lparr>mark_observed_at_utc = t, equity_usd = e\<rparr>" ?marks t] ROLLING_WINDOW_pos
    by (metis add.right_neutral diff_less_eq equity_mark.select_convs(1) in_set_conv_decomp
        less_add_same_cancel1 list.set_cases list.distinct(1) empty_iff list.set(1))
  moreover have "\<forall>m \<in> set (prune ?marks t). mark_observed_at_utc m \<le> t \<and> 0 < equity_usd m"
    using le assms(2) prune_subset [of ?marks t] by auto
  ultimately show ?thesis
    using assms by (auto simp: sound_drawdown_def drawdown_state_accepted observed_def)
qed

lemma with_equity_Inr:
  assumes "sound_drawdown s"
  shows "with_equity s c m = Inr u \<longleftrightarrow>
    (\<exists>e t. c = dec e \<and> m = utc t \<and> 0 < e \<and> observed_at_utc s \<le> t \<and> u = observed s e t)"
proof -
  have typed: "with_equity s (dec e) (utc t) =
      (if t < observed_at_utc s then Inl (DrawdownStateError ''not reorderable'')
       else construct drawdown_state_post_init (observed s e t))" if "0 < e" for e t
  proof -
    have "require_positive_equity (dec e) ''equity_usd'' = Inr e"
      and "construct equity_mark_post_init \<lparr>mark_observed_at_utc = t, equity_usd = e\<rparr> =
        Inr \<lparr>mark_observed_at_utc = t, equity_usd = e\<rparr>"
      using that by (simp_all add: guard_simps equity_mark_post_init_def)
    then show ?thesis by (simp add: with_equity_def observed_def Let_def del: construct_Inr_iff)
  qed
  have "\<exists>e t. c = dec e \<and> m = utc t \<and> 0 < e" if "with_equity s c m = Inr u"
    using that by (auto simp: with_equity_def and_then_Inr_iff guard_simps drawdown_require_utc_def
        utc_guard_accepts)
  moreover have "drawdown_state_post_init (observed s e t) = Inr ()" if "0 < e" "observed_at_utc s \<le> t" for e t
    using observed_sound [OF assms that] by (simp add: sound_drawdown_def)
  ultimately show ?thesis by (auto simp: typed split: if_splits)
qed

section \<open>A stream of observations\<close>

primrec observe_all :: "drawdown_state \<Rightarrow> (int \<times> rat) list \<Rightarrow> drawdown_state result" where
  "observe_all s [] = Inr s"
| "observe_all s (x # xs) = and_then (with_equity s (dec (snd x)) (utc (fst x))) (\<lambda>t. observe_all t xs)"

lemma observe_all_append:
  "observe_all s (xs @ ys) = and_then (observe_all s xs) (\<lambda>t. observe_all t ys)"
  by (induction xs arbitrary: s) (auto simp: and_then_def split: sum.splits)

definition mark_of :: "int \<times> rat \<Rightarrow> equity_mark" where
  "mark_of x = \<lparr>mark_observed_at_utc = fst x, equity_usd = snd x\<rparr>"

text \<open>The state a stream ends in, computed from the whole stream at once.\<close>

definition batch :: "drawdown_state \<Rightarrow> (int \<times> rat) list \<Rightarrow> drawdown_state" where
  "batch s xs =
     (if xs = [] then s
      else
        (let now = fst (last xs); today = utc_day_start now in
         s\<lparr>peak_equity_usd := foldl max (peak_equity_usd s) (map snd xs),
           current_equity_usd := snd (last xs),
           day_start_utc := today,
           day_open_equity_usd :=
             if today > day_start_utc s then snd (hd (filter (\<lambda>x. utc_day_start (fst x) = today) xs))
             else day_open_equity_usd s,
           rolling_marks := prune (rolling_marks s @ map mark_of xs) now,
           observed_at_utc := now\<rparr>))"

lemma observed_batch: "observed s (snd x) (fst x) = batch s [x]"
  by (simp add: observed_def batch_def Let_def mark_of_def)

lemma batch_snoc:
  assumes "sound_drawdown s" and "sorted (map fst (xs @ [x]))" and "\<forall>y \<in> set (xs @ [x]). observed_at_utc s \<le> fst y"
  shows "observed (batch s xs) (snd x) (fst x) = batch s (xs @ [x])"
proof (cases xs rule: rev_cases)
  case Nil
  then show ?thesis using observed_batch [of s x] by (simp add: batch_def)
next
  case (snoc ps p)
  let ?today = "utc_day_start (fst x)" and ?yesterday = "utc_day_start (fst p)"
  have p: "fst p \<le> fst x" "\<forall>y \<in> set ps. fst y \<le> fst p" "observed_at_utc s \<le> fst p"
    using assms(2,3) snoc by (auto simp: sorted_append)
  have order: "?yesterday \<le> ?today" "day_start_utc s \<le> ?yesterday"
    "\<forall>y \<in> set ps. utc_day_start (fst y) \<le> ?yesterday"
    using p assms(1) by (auto simp: sound_drawdown_def intro: utc_day_start_mono)
  have marks: "prune (prune (rolling_marks s @ map mark_of xs) (fst p) @ [mark_of x]) (fst x) =
      prune (rolling_marks s @ map mark_of (xs @ [x])) (fst x)"
  proof -
    have "sorted (map mark_observed_at_utc (rolling_marks s @ map mark_of xs))"
      using assms by (fastforce simp: sound_drawdown_def drawdown_state_accepted sorted_append mark_of_def comp_def)
    from prune_prune [OF this p(1)] show ?thesis by simp
  qed
  have day: "day_open_equity_usd (observed (batch s xs) (snd x) (fst x)) = day_open_equity_usd (batch s (xs @ [x]))"
  proof (cases "?yesterday < ?today")
    case True
    then have "filter (\<lambda>y. utc_day_start (fst y) = ?today) xs = []"
      using order snoc by (force simp: filter_empty_conv)
    with True order show ?thesis by (simp add: observed_def batch_def Let_def snoc)
  next
    case False
    then have "?yesterday = ?today" using order by simp
    with snoc show ?thesis by (simp add: observed_def batch_def Let_def hd_append)
  qed
  have "xs \<noteq> []" "fst (last xs) = fst p" using snoc by simp_all
  with day marks show ?thesis
    by (simp add: observed_def batch_def Let_def mark_of_def)
qed

lemma observe_all_batch:
  "sound_drawdown s \<Longrightarrow> sorted (map fst xs) \<Longrightarrow> \<forall>x \<in> set xs. observed_at_utc s \<le> fst x \<and> 0 < snd x \<Longrightarrow>
    observe_all s xs = Inr (batch s xs) \<and> sound_drawdown (batch s xs)"
proof (induction xs rule: rev_induct)
  case Nil
  then show ?case by (simp add: batch_def)
next
  case (snoc x xs)
  then have IH: "observe_all s xs = Inr (batch s xs)" "sound_drawdown (batch s xs)"
    by (auto simp: sorted_append)
  have "observed_at_utc (batch s xs) \<le> fst x"
    using snoc.prems(2,3) by (cases xs rule: rev_cases) (auto simp: batch_def Let_def sorted_append)
  moreover have "observed (batch s xs) (snd x) (fst x) = batch s (xs @ [x])"
    using snoc.prems by (intro batch_snoc) auto
  moreover from calculation have "with_equity (batch s xs) (dec (snd x)) (utc (fst x)) = Inr (batch s (xs @ [x]))"
    using snoc.prems(3) by (simp add: with_equity_Inr [OF IH(2)])
  ultimately show ?case
    using snoc.prems(3) IH observed_sound [OF IH(2), of "snd x" "fst x"]
    by (simp add: observe_all_append)
qed

section \<open>The taper\<close>

lemma tenths_exact: "context_round (6 / 10) = 6 / 10" "context_round (4 / 10) = 4 / 10"
proof -
  show "context_round (6 / 10) = 6 / 10"
    by (rule lattice_exact, rule on_latticeI [of _ "6 * 10 ^ 17"]) simp_all
  show "context_round (4 / 10) = 4 / 10"
    by (rule lattice_exact, rule on_latticeI [of _ "4 * 10 ^ 17"]) simp_all
qed

text \<open>The unclipped taper at a given utilisation of the budget.\<close>

definition taper :: "rat \<Rightarrow> rat" where
  "taper u = dsub 1 (context_round (dsub (context_round u) (6 / 10) / (4 / 10)))"

lemma derisk_scalar_eq:
  "derisk_scalar seen budget =
     Inr (if budget \<le> 0 then 0 else min 1 (max 0 (taper (max 0 seen / budget))))"
  by (simp add: derisk_scalar_def ddiv_def DERISK_ONSET_RATIO_def DERISK_TAPER_WIDTH_def taper_def)

lemma taper_antimono: "u \<le> v \<Longrightarrow> taper v \<le> taper u"
  unfolding taper_def dsub_def
  by (intro context_round_mono diff_left_mono divide_right_mono diff_right_mono) simp_all

lemma taper_full: "u \<le> 6 / 10 \<Longrightarrow> 1 \<le> taper u"
proof -
  assume "u \<le> 6 / 10"
  then have "context_round u \<le> 6 / 10" by (rule ctx.rnd_le_fixed) (rule tenths_exact)
  then have "context_round (dsub (context_round u) (6 / 10) / (4 / 10)) \<le> 0" by (simp add: dsub_def)
  then show ?thesis unfolding taper_def dsub_def by (intro ctx.rnd_ge_one) simp
qed

lemma taper_none: "1 \<le> u \<Longrightarrow> taper u \<le> 0"
proof -
  assume "1 \<le> u"
  then have "1 \<le> context_round u" by (rule ctx.rnd_ge_one)
  then have "4 / 10 \<le> dsub (context_round u) (6 / 10)"
    unfolding dsub_def by (intro ctx.rnd_ge_fixed tenths_exact) simp
  then have "1 \<le> dsub (context_round u) (6 / 10) / (4 / 10)" by (simp add: field_simps)
  then have "1 \<le> context_round (dsub (context_round u) (6 / 10) / (4 / 10))" by (rule ctx.rnd_ge_one)
  then show ?thesis by (simp add: taper_def dsub_def)
qed

section \<open>Evaluating\<close>

lemma foldl_max_ge: "x \<in> set (a # xs) \<Longrightarrow> x \<le> foldl max a (xs :: rat list)"
proof -
  assume "x \<in> set (a # xs)"
  have "(\<lambda>y acc. max acc y) = (max :: rat \<Rightarrow> rat \<Rightarrow> rat)" by (intro ext max.commute)
  then have "foldl max a xs = Max (set (a # xs))"
    unfolding Max.set_eq_fold by (simp add: foldl_conv_fold)
  with \<open>x \<in> set (a # xs)\<close> show ?thesis by (simp only:) (rule Max_ge, simp_all)
qed

lemma window_high_ge:
  "m \<in> set (rolling_marks s) \<Longrightarrow> equity_usd m \<le> window_high s" "current_equity_usd s \<le> window_high s"
proof -
  assume m: "m \<in> set (rolling_marks s)"
  then obtain a ms where "rolling_marks s = a # ms" by (cases "rolling_marks s") auto
  with m have "equity_usd m \<in> set (hd (map equity_usd (rolling_marks s)) # tl (map equity_usd (rolling_marks s)))"
    by auto
  from foldl_max_ge [OF this] show "equity_usd m \<le> window_high s"
    by (simp add: window_high_def max.coboundedI1)
qed (simp add: window_high_def)

definition ratio_of :: "drawdown_state \<Rightarrow> limit_name \<Rightarrow> rat" where
  "ratio_of s name = (case observed_ratio_for s name of Inr x \<Rightarrow> x | Inl e \<Rightarrow> 0)"

lemma observed_ratio_ok:
  assumes "drawdown_state_post_init s = Inr ()"
  shows "observed_ratio_for s name = Inr (ratio_of s name)" and "0 \<le> ratio_of s name"
proof -
  have "0 < window_high s"
    using window_high_ge(2) [of s] assms by (simp add: drawdown_state_accepted)
  with assms have "observed_ratio_for s name = Inr (ratio_of s name) \<and> 0 \<le> ratio_of s name"
    by (cases name)
      (simp_all add: ratio_of_def drawdown_ratio_def daily_loss_ratio_def rolling_loss_ratio_def
        ddiv_def dsub_def drawdown_state_accepted)
  then show "observed_ratio_for s name = Inr (ratio_of s name)" "0 \<le> ratio_of s name" by simp_all
qed

definition multiplier_of :: "drawdown_state \<Rightarrow> drawdown_budgets \<Rightarrow> limit_name \<Rightarrow> rat" where
  "multiplier_of s b name =
     (case derisk_scalar (ratio_of s name) (budget_for b name) of Inr m \<Rightarrow> m | Inl e \<Rightarrow> 0)"

definition verdict_for :: "drawdown_state \<Rightarrow> drawdown_budgets \<Rightarrow> breach_record option" where
  "verdict_for s b = (case latched_breach s of
       Some l \<Rightarrow> Some l
     | None \<Rightarrow> first_breach s b (map (\<lambda>name. (name, ratio_of s name)) LIMIT_ORDER))"

lemma evaluate_eq:
  assumes "drawdown_state_post_init s = Inr ()"
  shows "evaluate s b =
    (if budgets_scope b \<noteq> state_scope s then Inl (DrawdownStateError ''budgets of another scope'')
     else Inr \<lparr>verdict_state = s\<lparr>latched_breach := verdict_for s b\<rparr>,
       observed_ratios = map (\<lambda>name. (name, ratio_of s name)) LIMIT_ORDER,
       derisk_multiplier = (if verdict_for s b \<noteq> None then 0
         else min (min (multiplier_of s b DrawdownLimit) (multiplier_of s b DailyLossLimit))
           (multiplier_of s b RollingLossLimit)),
       verdict_breach = verdict_for s b\<rparr>)"
proof -
  have ratios: "map_result (\<lambda>name. and_then (observed_ratio_for s name) (\<lambda>ratio. Inr (name, ratio))) LIMIT_ORDER =
      Inr (map (\<lambda>name. (name, ratio_of s name)) LIMIT_ORDER)"
    by (rule map_result_Inr) (simp add: observed_ratio_ok(1) [OF assms])
  have latch: "(case latched_breach s of
            Some b \<Rightarrow> Inr (Some b)
          | None \<Rightarrow>
              (case first_breach s b (map (\<lambda>name. (name, ratio_of s name)) LIMIT_ORDER) of
                 None \<Rightarrow> Inr None
               | Some b \<Rightarrow> and_then (construct breach_post_init b) (\<lambda>b. Inr (Some b)))) = Inr (verdict_for s b)"
  proof -
    have accepted: "construct breach_post_init r = Inr r" for r by (simp add: breach_post_init_def)
    show ?thesis by (auto simp: verdict_for_def accepted simp del: construct_Inr_iff split: option.splits)
  qed
  have multipliers: "map_result (\<lambda>(name, ratio). derisk_scalar ratio (budget_for b name))
        (map (\<lambda>name. (name, ratio_of s name)) LIMIT_ORDER) =
      Inr (map (multiplier_of s b) LIMIT_ORDER)"
    by (simp add: LIMIT_ORDER_def multiplier_of_def derisk_scalar_eq)
  have kept: "construct drawdown_state_post_init (s\<lparr>latched_breach := l\<rparr>) = Inr (s\<lparr>latched_breach := l\<rparr>)" for l
    using assms by (simp add: drawdown_state_accepted)
  show ?thesis
    by (simp add: evaluate_def ratios latch multipliers kept del: construct_Inr_iff)
      (simp add: LIMIT_ORDER_def)
qed

lemma verdict_for_None:
  "verdict_for s b = None \<longleftrightarrow> latched_breach s = None \<and> (\<forall>name. ratio_of s name < budget_for b name)"
proof -
  have all: "(\<forall>name. P name) \<longleftrightarrow> P DrawdownLimit \<and> P DailyLossLimit \<and> P RollingLossLimit" for P
    by (metis limit_name.exhaust)
  show ?thesis
    by (auto simp: verdict_for_def first_breach_def LIMIT_ORDER_def all split: option.splits if_splits)
qed

section \<open>The state never loosens\<close>

datatype drawdown_event = Observe pyobj pyobj | Evaluate drawdown_budgets

text \<open>An operation that raises leaves the caller with the state it had.\<close>

primrec apply_event :: "drawdown_state \<Rightarrow> drawdown_event \<Rightarrow> drawdown_state" where
  "apply_event s (Observe e t) = (case with_equity s e t of Inr u \<Rightarrow> u | Inl _ \<Rightarrow> s)"
| "apply_event s (Evaluate b) = (case evaluate s b of Inr v \<Rightarrow> verdict_state v | Inl _ \<Rightarrow> s)"

definition no_looser :: "drawdown_state \<Rightarrow> drawdown_state \<Rightarrow> bool" where
  "no_looser s t \<longleftrightarrow> peak_equity_usd s \<le> peak_equity_usd t \<and> observed_at_utc s \<le> observed_at_utc t \<and>
     state_scope t = state_scope s \<and> state_subject_id t = state_subject_id s \<and>
     (latched_breach s = None \<or> latched_breach t = latched_breach s)"

lemma apply_event_cases:
  assumes "sound_drawdown s"
  shows "apply_event s e = s \<or>
    (\<exists>x t. 0 < x \<and> observed_at_utc s \<le> t \<and> apply_event s e = observed s x t) \<or>
    (\<exists>b. apply_event s e = s\<lparr>latched_breach := verdict_for s b\<rparr>)"
proof (cases e)
  case (Observe c m)
  show ?thesis
  proof (cases "with_equity s c m")
    case (Inr u)
    then obtain x t where "0 < x" "observed_at_utc s \<le> t" "u = observed s x t"
      using with_equity_Inr [OF assms] by blast
    with Observe Inr show ?thesis by auto
  qed (simp add: Observe)
next
  case (Evaluate b)
  then show ?thesis
    using assms by (auto simp: sound_drawdown_def evaluate_eq)
qed

interpretation drawdowns: monotone_machine
  "\<lambda>s. \<exists>scope subject e t. open_first_time scope subject e t = Inr s"
  apply_event "\<lambda>_. True" sound_drawdown no_looser
proof unfold_locales
  fix s t u e
  show "sound_drawdown s" if "\<exists>scope subject e t. open_first_time scope subject e t = Inr s"
    using that open_first_time_sound by blast
  show "sound_drawdown (apply_event s e)" if "sound_drawdown s"
    using apply_event_cases [OF that, of e] that observed_sound [OF that]
    by (auto simp: sound_drawdown_def drawdown_state_accepted)
  show "no_looser s s" by (simp add: no_looser_def)
  show "no_looser s u" if "no_looser s t" "no_looser t u" using that by (auto simp: no_looser_def)
  show "no_looser s (apply_event s e)" if "sound_drawdown s"
    using apply_event_cases [OF that, of e]
    by (cases "latched_breach s") (auto simp: no_looser_def observed_def verdict_for_def)
qed

section \<open>What is persisted is read back\<close>

lemma decode_moment_row:
  "codec_ok c \<Longrightarrow> map_of row field = Some (RowStr (moment_text c t)) \<Longrightarrow> decode_moment c row field = Inr t"
  by (simp add: decode_moment_def get_str_def codec_ok_def)

lemma decode_ratio_row:
  "codec_ok c \<Longrightarrow> map_of row field = Some (RowStr (decimal_text c x)) \<Longrightarrow> 0 \<le> x \<Longrightarrow>
    decode_ratio c row field = Inr x"
  by (simp add: decode_ratio_def get_str_def codec_ok_def)

lemma decode_equity_row:
  "codec_ok c \<Longrightarrow> map_of row field = Some (RowStr (decimal_text c x)) \<Longrightarrow> 0 < x \<Longrightarrow>
    decode_equity c row field = Inr x"
  by (simp add: decode_equity_def get_str_def codec_ok_def guard_simps)

lemmas decode_rows = decode_moment_row decode_ratio_row decode_equity_row

lemma mark_row: "codec_ok c \<Longrightarrow> 0 < equity_usd m \<Longrightarrow> mark_from_row c (mark_to_row c m) = Inr m"
  by (simp add: mark_to_row_def decode_rows equity_mark_post_init_def guard_simps)

lemma limit_names_text: "map_of LIMIT_NAMES (limit_text n) = Some n"
  by (cases n) (simp_all add: LIMIT_NAMES_def)

lemma scopes_name: "map_of SCOPES (scope_name sc) = Some sc"
  by (cases sc) (simp_all add: SCOPES_def)

text \<open>A breach as an evaluation of the state latches it, against budgets that are not negative.\<close>

definition breach_of_state :: "drawdown_state \<Rightarrow> breach_record \<Rightarrow> bool" where
  "breach_of_state s b \<longleftrightarrow> breach_scope b = state_scope s \<and> breach_subject_id b = state_subject_id s \<and>
     0 \<le> observed_ratio b \<and> 0 \<le> budget_ratio b \<and> response b = response_by_scope (state_scope s)"

lemma breach_row:
  assumes "codec_ok c" and "breach_of_state s b"
  shows "breach_from_row c (state_scope s) (state_subject_id s) (Some (breach_to_row c b)) = Inr (Some b)"
proof -
  have "construct breach_post_init r = Inr r" for r by (simp add: breach_post_init_def)
  with assms show ?thesis
    by (simp add: breach_to_row_def breach_from_row_def limit_names_text decode_rows breach_of_state_def
        del: construct_Inr_iff)
qed

lemma evaluated_breach_of_state:
  assumes "drawdown_state_post_init s = Inr ()" and "\<forall>name. 0 \<le> budget_for budgets name"
    and "latched_breach s = None" and "evaluate s budgets = Inr v" and "verdict_breach v = Some b"
  shows "breach_of_state (verdict_state v) b"
  using assms(3-) observed_ratio_ok(2) [OF assms(1)] assms(2) [rule_format, of DrawdownLimit]
    assms(2) [rule_format, of DailyLossLimit] assms(2) [rule_format, of RollingLossLimit]
  by (auto simp: evaluate_eq [OF assms(1)] verdict_for_def first_breach_def LIMIT_ORDER_def
      breach_of_state_def split: option.splits if_splits)

lemma from_row_to_row:
  assumes "codec_ok c" and "sound_drawdown s" and "strip (state_subject_id s) \<noteq> []"
    and "\<forall>b. latched_breach s = Some b \<longrightarrow> breach_of_state s b"
  shows "from_row c (to_row c s) = Inr s"
proof -
  have marks: "map_result (mark_from_row c) (map (mark_to_row c) (rolling_marks s)) = Inr (rolling_marks s)"
  proof -
    have "map_result (mark_from_row c) (map (mark_to_row c) ms) = Inr ms" if "\<forall>m \<in> set ms. 0 < equity_usd m" for ms
      using that by (induction ms) (simp_all add: mark_row [OF assms(1)])
    then show ?thesis using assms(2) by (simp add: sound_drawdown_def)
  qed
  have breach: "breach_from_row c (state_scope s) (state_subject_id s)
      (Some (case latched_breach s of None \<Rightarrow> RowNone | Some b \<Rightarrow> breach_to_row c b)) = Inr (latched_breach s)"
    using assms(4) breach_row [OF assms(1), of s]
    by (cases "latched_breach s") (auto simp: breach_from_row_def)
  have "0 < peak_equity_usd s" "0 < current_equity_usd s" "0 < day_open_equity_usd s" "rolling_marks s \<noteq> []"
    "drawdown_state_post_init s = Inr ()"
    using assms(2) by (auto simp: sound_drawdown_def drawdown_state_accepted)
  moreover have "restore (state_scope s) (state_subject_id s) (peak_equity_usd s) (current_equity_usd s)
      (day_start_utc s) (day_open_equity_usd s) (rolling_marks s) (observed_at_utc s) (latched_breach s) = Inr s"
    using calculation by (cases s) (simp add: restore_def)
  ultimately show ?thesis
    using assms(1,3) by (simp add: from_row_def to_row_def scopes_name marks breach decode_rows)
qed

text \<open>
  What the persisted form needs of a subject is kept by every event whose budgets are not
  negative: a name, and a breach latched by an evaluation of this very subject.
\<close>

definition budgets_not_negative :: "drawdown_budgets \<Rightarrow> bool" where
  "budgets_not_negative b \<longleftrightarrow> 0 \<le> budget_drawdown_ratio b \<and> 0 \<le> budget_daily_loss_ratio b"

definition persistable :: "drawdown_state \<Rightarrow> bool" where
  "persistable s \<longleftrightarrow> sound_drawdown s \<and> strip (state_subject_id s) \<noteq> [] \<and>
     (\<forall>b. latched_breach s = Some b \<longrightarrow> breach_of_state s b)"

lemma budgets_not_negative_for: "budgets_not_negative b \<Longrightarrow> 0 \<le> budget_for b name"
  by (cases name) (auto simp: budgets_not_negative_def budget_rolling_loss_ratio_def ROLLING_MULTIPLE_def intro: dmul_nonneg)

lemma persistable_step:
  assumes "persistable s" and "\<forall>b. e = Evaluate b \<longrightarrow> budgets_not_negative b"
  shows "persistable (apply_event s e)"
proof -
  have sound: "sound_drawdown s" using assms(1) by (simp add: persistable_def)
  then have sound': "sound_drawdown (apply_event s e)"
    using drawdowns.inv_step by simp
  show ?thesis
  proof (cases e)
    case (Observe c m)
    show ?thesis
    proof (cases "with_equity s c m")
      case (Inr u)
      then obtain x t where "u = observed s x t" using with_equity_Inr [OF sound] by blast
      then have "state_subject_id u = state_subject_id s" "state_scope u = state_scope s"
        "latched_breach u = latched_breach s" by (simp_all add: observed_def)
      with sound' assms(1) Observe Inr show ?thesis by (simp add: persistable_def breach_of_state_def)
    qed (use assms(1) Observe in simp)
  next
    case (Evaluate b)
    have init: "drawdown_state_post_init s = Inr ()" using sound by (simp add: sound_drawdown_def)
    show ?thesis
    proof (cases "latched_breach s = None")
      case True
      have "breach_of_state (verdict_state v) l"
        if v: "evaluate s b = Inr v" and l: "latched_breach (verdict_state v) = Some l" for v l
      proof -
        have "verdict_breach v = Some l" using v l by (auto simp: evaluate_eq [OF init] split: if_splits)
        then show ?thesis
          using evaluated_breach_of_state [OF init _ True v] assms(2) Evaluate budgets_not_negative_for by blast
      qed
      moreover have "state_subject_id (verdict_state v) = state_subject_id s" if "evaluate s b = Inr v" for v
        using that by (auto simp: evaluate_eq [OF init] split: if_splits)
      ultimately show ?thesis
        using sound' assms(1) Evaluate by (auto simp: persistable_def split: sum.splits)
    next
      case False
      then have "apply_event s e = s"
        using Evaluate by (auto simp: evaluate_eq [OF init] verdict_for_def split: option.splits)
      with assms(1) show ?thesis by simp
    qed
  qed
qed

interpretation persisted: state_machine
  "\<lambda>s. \<exists>scope subject e t. open_first_time scope subject e t = Inr s \<and> strip subject \<noteq> []"
  apply_event "\<lambda>e. \<forall>b. e = Evaluate b \<longrightarrow> budgets_not_negative b" persistable
proof
  fix s assume "\<exists>scope subject e t. open_first_time scope subject e t = Inr s \<and> strip subject \<noteq> []"
  then show "persistable s"
    using open_first_time_sound by (auto simp: persistable_def open_first_time_Inr)
qed (rule persistable_step)

section \<open>A concrete subject\<close>

abbreviation (input) hours :: "int \<Rightarrow> int" where
  "hours n \<equiv> n * 3600000000"

definition example_opening :: drawdown_state where
  "example_opening = \<lparr>state_scope = StrategyScope, state_subject_id = ''momentum'', peak_equity_usd = 100,
     current_equity_usd = 100, day_start_utc = 0, day_open_equity_usd = 100,
     rolling_marks = [\<lparr>mark_observed_at_utc = hours 1, equity_usd = 100\<rparr>], observed_at_utc = hours 1,
     latched_breach = None\<rparr>"

definition example_budgets :: drawdown_budgets where
  "example_budgets = \<lparr>budgets_scope = StrategyScope, budget_drawdown_ratio = 15 / 100,
     budget_daily_loss_ratio = 3 / 100\<rparr>"

lemma example_opening_opens: "open_first_time StrategyScope ''momentum'' (dec 100) (utc (hours 1)) = Inr example_opening"
  by (simp add: open_first_time_Inr example_opening_def utc_day_start_def)

lemmas example_opening_sound = open_first_time_sound [OF example_opening_opens]

text \<open>The subject an hour later, at a lower equity, and the breach an evaluation latches then.\<close>

definition fell :: "rat \<Rightarrow> drawdown_state" where
  "fell equity = example_opening\<lparr>current_equity_usd := equity, observed_at_utc := hours 2,
     rolling_marks := rolling_marks example_opening @ [\<lparr>mark_observed_at_utc = hours 2, equity_usd = equity\<rparr>]\<rparr>"

lemma fell_observed:
  "with_equity example_opening (dec 84) (utc (hours 2)) = Inr (fell 84)"
  "with_equity example_opening (dec 96) (utc (hours 2)) = Inr (fell 96)"
  by code_simp+

definition drawdown_breach :: breach_record where
  "drawdown_breach = \<lparr>breach_scope = StrategyScope, breach_subject_id = ''momentum'',
     breach_limit_name = DrawdownLimit, observed_ratio = 16 / 100, budget_ratio = 15 / 100,
     breached_at_utc = hours 2, response = response_by_scope StrategyScope\<rparr>"

definition daily_breach :: breach_record where
  "daily_breach = drawdown_breach\<lparr>breach_limit_name := DailyLossLimit, observed_ratio := 4 / 100, budget_ratio := 3 / 100\<rparr>"

lemma fell_ratios:
  "ratio_of (fell 84) DrawdownLimit = 16 / 100"
  "ratio_of (fell 96) DrawdownLimit = 4 / 100"
  "ratio_of (fell 96) DailyLossLimit = 4 / 100"
  by code_simp+

lemma fell_post_init: "drawdown_state_post_init (fell 84) = Inr ()" "drawdown_state_post_init (fell 96) = Inr ()"
  by code_simp+

lemma fell_verdicts:
  "verdict_for (fell 84) example_budgets = Some drawdown_breach"
  "verdict_for (fell 96) example_budgets = Some daily_breach"
  using fell_ratios
  by (simp_all add: verdict_for_def first_breach_def LIMIT_ORDER_def drawdown_breach_def daily_breach_def
      example_budgets_def fell_def example_opening_def)

lemma fell_84_evaluated:
  "apply_event (fell 84) (Evaluate example_budgets) = (fell 84)\<lparr>latched_breach := Some drawdown_breach\<rparr>"
  by (simp add: evaluate_eq [OF fell_post_init(1)] fell_verdicts)
    (simp add: example_budgets_def fell_def example_opening_def)

lemma fell_96_evaluated:
  "apply_event (fell 96) (Evaluate example_budgets) = (fell 96)\<lparr>latched_breach := Some daily_breach\<rparr>"
  by (simp add: evaluate_eq [OF fell_post_init(2)] fell_verdicts)
    (simp add: example_budgets_def fell_def example_opening_def)

lemma fell_84_recovers:
  "with_equity ((fell 84)\<lparr>latched_breach := Some drawdown_breach\<rparr>) (dec 99) (utc (hours 3)) =
     Inr ((fell 84)\<lparr>latched_breach := Some drawdown_breach, current_equity_usd := 99,
       rolling_marks := rolling_marks (fell 84) @ [\<lparr>mark_observed_at_utc = hours 3, equity_usd = 99\<rparr>],
       observed_at_utc := hours 3\<rparr>)"
  by code_simp

lemma fell_96_next_day:
  "with_equity ((fell 96)\<lparr>latched_breach := Some daily_breach\<rparr>) (dec 100) (utc (hours 50)) =
     Inr ((fell 96)\<lparr>latched_breach := Some daily_breach, current_equity_usd := 100, day_start_utc := hours 48,
       day_open_equity_usd := 100, observed_at_utc := hours 50,
       rolling_marks := [\<lparr>mark_observed_at_utc = hours 2, equity_usd = 96\<rparr>, \<lparr>mark_observed_at_utc = hours 50, equity_usd = 100\<rparr>]\<rparr>)"
  by code_simp

text \<open>
  A daily loss of four percent against a budget of three halts the subject; two days later,
  with the day's anchor rolled and no loss on the new day, it is halted still, on the same
  daily breach.
\<close>

lemma daily_halt_outlives_its_day:
  "case evaluate (foldl apply_event example_opening
      [Observe (dec 96) (utc (hours 2)), Evaluate example_budgets, Observe (dec 100) (utc (hours 50))])
      example_budgets of
     Inl _ \<Rightarrow> False
   | Inr v \<Rightarrow> (case verdict_breach v of None \<Rightarrow> False
       | Some b \<Rightarrow> breach_limit_name b = DailyLossLimit \<and> breached_at_utc b = hours 2) \<and>
       daily_loss_ratio (verdict_state v) = Inr 0 \<and>
       day_start_utc (verdict_state v) = hours 48 \<and> derisk_multiplier v = 0"
proof -
  let ?u = "(fell 96)\<lparr>latched_breach := Some daily_breach, current_equity_usd := 100, day_start_utc := hours 48,
      day_open_equity_usd := 100, observed_at_utc := hours 50,
      rolling_marks := [\<lparr>mark_observed_at_utc = hours 2, equity_usd = 96\<rparr>, \<lparr>mark_observed_at_utc = hours 50, equity_usd = 100\<rparr>]\<rparr>"
  have u: "foldl apply_event example_opening
      [Observe (dec 96) (utc (hours 2)), Evaluate example_budgets, Observe (dec 100) (utc (hours 50))] = ?u"
    by (simp only: foldl.simps fell_96_evaluated apply_event.simps(1) fell_observed fell_96_next_day sum.case)
  have "drawdown_state_post_init ?u = Inr ()" "daily_loss_ratio ?u = Inr 0" by code_simp+
  moreover have "?u\<lparr>latched_breach := Some daily_breach\<rparr> = ?u" by simp
  ultimately show ?thesis
    unfolding u by (simp add: evaluate_eq verdict_for_def daily_breach_def drawdown_breach_def fell_def example_opening_def example_budgets_def)
qed

section \<open>Properties\<close>

text \<open>
  Limits never loosen by themselves. From the opening of a subject on, through any
  sequence of observations and evaluations, accepted or refused, the state stays valid,
  the high-water mark and the time of the last observation never go down, the mark never
  trails current equity, and a latched breach stays, as it was latched.
\<close>

theorem drawdown_history_never_loosens:
  assumes "open_first_time scope subject e t = Inr s0"
  shows "let s = foldl apply_event s0 earlier; u = foldl apply_event s later in
    drawdown_state_post_init u = Inr () \<and> current_equity_usd u \<le> peak_equity_usd u \<and>
    peak_equity_usd s \<le> peak_equity_usd u \<and> observed_at_utc s \<le> observed_at_utc u \<and>
    (\<forall>b. latched_breach s = Some b \<longrightarrow> latched_breach u = Some b)"
proof -
  have "sound_drawdown (foldl apply_event s0 earlier)"
    by (rule drawdowns.inv_run) (use assms in \<open>auto simp: list_all_iff\<close>)
  moreover have all: "list_all (\<lambda>_. True) later" by (simp add: list_all_iff)
  ultimately show ?thesis
    using drawdowns.before_run [OF _ all] drawdowns.inv_foldl [OF _ all]
    by (fastforce simp: Let_def no_looser_def sound_drawdown_def drawdown_state_accepted)
qed

theorem drawdown_history_never_loosens_witness:
  "let u = foldl apply_event example_opening
      [Observe (dec 80) (utc (hours 2)), Evaluate example_budgets, Observe (dec 99) (utc (hours 3)),
       Evaluate example_budgets] in
    drawdown_state_post_init u = Inr () \<and> 100 \<le> peak_equity_usd u"
  using drawdown_history_never_loosens [OF example_opening_opens, of "[]"
      "[Observe (dec 80) (utc (hours 2)), Evaluate example_budgets, Observe (dec 99) (utc (hours 3)),
       Evaluate example_budgets]"]
  by (simp add: Let_def example_opening_def)

text \<open>
  C31. Observing equity mark by mark is computing over the whole stream at once: the
  high-water mark is the maximum, the day's opening equity is the first mark of the last
  day (when the day rolled), and the rolling window holds the marks of the trailing 24
  hours plus the last one before them, nothing else.
\<close>

theorem observing_is_batch:
  assumes "sound_drawdown s" and "sorted (map fst xs)" and "xs \<noteq> []"
    and "\<forall>x \<in> set xs. observed_at_utc s \<le> fst x \<and> 0 < snd x"
  shows "\<exists>t. observe_all s xs = Inr t \<and> sound_drawdown t \<and>
    peak_equity_usd t = foldl max (peak_equity_usd s) (map snd xs) \<and>
    current_equity_usd t = snd (last xs) \<and> observed_at_utc t = fst (last xs) \<and>
    day_open_equity_usd t =
      (if utc_day_start (fst (last xs)) > day_start_utc s
       then snd (hd (filter (\<lambda>x. utc_day_start (fst x) = utc_day_start (fst (last xs))) xs))
       else day_open_equity_usd s) \<and>
    rolling_marks t = prune (rolling_marks s @ map mark_of xs) (fst (last xs))"
  using observe_all_batch [OF assms(1,2,4)] assms(3) by (simp add: batch_def Let_def)

theorem observing_is_batch_witness:
  "\<exists>t. observe_all example_opening [(hours 2, 120), (hours 20, 90), (hours 30, 95), (hours 50, 91)] = Inr t \<and>
    peak_equity_usd t = 120 \<and> day_open_equity_usd t = 91 \<and>
    map equity_usd (rolling_marks t) = [90, 95, 91]"
proof -
  let ?xs = "[(hours 2, 120), (hours 20, 90), (hours 30, 95), (hours 50, 91)] :: (int \<times> rat) list"
  have "sorted (map fst ?xs)" "\<forall>x \<in> set ?xs. observed_at_utc example_opening \<le> fst x \<and> 0 < snd x"
    by (simp_all add: example_opening_def)
  from observing_is_batch [OF example_opening_sound this(1) _ this(2)] show ?thesis
    by (auto simp: example_opening_def utc_day_start_def mark_of_def prune_def Let_def ROLLING_WINDOW_def)
qed

text \<open>
  C16. An evaluation halts exactly when a breach was latched before or some ratio has
  reached its budget, and then sizes at zero. Once it has halted, no later history of
  observations and evaluations lets the subject trade again: every evaluation after any
  events reports the same breach and sizes at zero. This is what the code's docstrings
  promise (a latched breach is cleared only by the lifecycle), and it holds of all three
  limits alike: a daily-loss breach outlives its UTC day, although RISK_PHILOSOPHY.md
  section 7 halts "for the remainder of the UTC day"
  (\<open>daily_halt_outlives_its_day\<close> is such a history).
\<close>

theorem evaluation_halts_and_latches:
  assumes "sound_drawdown s" and "evaluate s budgets = Inr v"
  shows "(verdict_is_halted v \<longleftrightarrow> latched_breach s \<noteq> None \<or>
      (\<exists>name x. observed_ratio_for s name = Inr x \<and> budget_for budgets name \<le> x)) \<and>
    (verdict_is_halted v \<longrightarrow> derisk_multiplier v = 0) \<and>
    (verdict_is_halted v \<longrightarrow>
      (\<forall>later w budgets'. evaluate (foldl apply_event (verdict_state v) later) budgets' = Inr w \<longrightarrow>
        verdict_breach w = verdict_breach v \<and> derisk_multiplier w = 0))"
proof -
  have init: "drawdown_state_post_init s = Inr ()" using assms(1) by (simp add: sound_drawdown_def)
  have v: "verdict_breach v = verdict_for s budgets" "verdict_state v = s\<lparr>latched_breach := verdict_for s budgets\<rparr>"
    "verdict_for s budgets \<noteq> None \<Longrightarrow> derisk_multiplier v = 0"
    using assms(2) by (auto simp: evaluate_eq [OF init] split: if_splits)
  have "verdict_for s budgets \<noteq> None \<longleftrightarrow> latched_breach s \<noteq> None \<or>
      (\<exists>name x. observed_ratio_for s name = Inr x \<and> budget_for budgets name \<le> x)"
    unfolding verdict_for_None [of s budgets] observed_ratio_ok(1) [OF init] by (auto simp: not_less)
  moreover have "verdict_breach w = verdict_breach v \<and> derisk_multiplier w = 0"
    if halted: "verdict_for s budgets \<noteq> None"
      and w: "evaluate (foldl apply_event (verdict_state v) later) budgets' = Inr w" for later w budgets'
  proof -
    let ?u = "foldl apply_event (verdict_state v) later"
    have "sound_drawdown (verdict_state v)"
      using assms(1) by (simp add: v(2) sound_drawdown_def drawdown_state_accepted)
    then have "sound_drawdown ?u" "no_looser (verdict_state v) ?u"
      by (auto intro!: drawdowns.inv_foldl drawdowns.before_run simp: list_all_iff)
    moreover from this(2) halted have "latched_breach ?u = verdict_for s budgets"
      by (auto simp: no_looser_def v(2))
    ultimately show ?thesis
      using w halted v(1)
      by (auto simp: sound_drawdown_def evaluate_eq verdict_for_def split: if_splits)
  qed
  ultimately show ?thesis using v by (simp add: verdict_is_halted_def)
qed

theorem evaluation_halts_and_latches_witness:
  "\<exists>s v. observe_all example_opening [(hours 2, 84)] = Inr s \<and> evaluate s example_budgets = Inr v \<and>
     verdict_is_halted v \<and> derisk_multiplier v = 0"
proof -
  have "sound_drawdown (batch example_opening [(hours 2, 84)])"
    and batch: "observe_all example_opening [(hours 2, 84)] = Inr (batch example_opening [(hours 2, 84)])"
    using observe_all_batch [OF example_opening_sound, of "[(hours 2, 84)]"]
    by (simp_all add: example_opening_def)
  moreover have "on_lattice (16 / 100)" by (rule on_latticeI [of _ "16 * 10 ^ 16"]) simp
  then have "context_round (16 / 100) = 16 / 100" by (rule lattice_exact) simp
  then have "observed_ratio_for (batch example_opening [(hours 2, 84)]) DrawdownLimit = Inr (16 / 100)"
    by (simp add: batch_def Let_def example_opening_def drawdown_ratio_def ddiv_def dsub_def
        lattice_exact [OF on_lattice_of_int [of 16, simplified], simplified])
  moreover have "budgets_scope example_budgets = state_scope (batch example_opening [(hours 2, 84)])"
    by (simp add: batch_def Let_def example_opening_def example_budgets_def)
  moreover obtain v where "evaluate (batch example_opening [(hours 2, 84)]) example_budgets = Inr v"
    using calculation(1,4) by (auto simp: sound_drawdown_def evaluate_eq)
  moreover have "budget_for example_budgets DrawdownLimit \<le> 16 / 100" by (simp add: example_budgets_def)
  ultimately show ?thesis using evaluation_halts_and_latches by blast
qed

text \<open>
  De-risking is a taper, not a cliff: for a positive budget the size multiplier is in
  [0, 1] and never grows with the observed ratio; it is one up to 60% of the budget and
  zero from the whole budget on. For any other budget it is zero.
\<close>

theorem derisk_scalar_tapers:
  assumes "seen \<le> worse"
  shows "\<exists>m n. derisk_scalar seen budget = Inr m \<and> derisk_scalar worse budget = Inr n \<and>
    0 \<le> n \<and> n \<le> m \<and> m \<le> 1 \<and> (budget \<le> 0 \<longrightarrow> m = 0) \<and>
    (0 < budget \<and> seen \<le> 6 / 10 * budget \<longrightarrow> m = 1) \<and> (budget \<le> worse \<longrightarrow> n = 0)"
proof (cases "budget \<le> 0")
  case True
  then show ?thesis by (simp add: derisk_scalar_eq)
next
  case False
  let ?u = "max 0 seen / budget" and ?w = "max 0 worse / budget"
  define p q where pq: "p = taper ?u" "q = taper ?w"
  have "q \<le> p"
    unfolding pq by (rule taper_antimono) (use assms False in \<open>simp add: divide_right_mono max.coboundedI2\<close>)
  moreover have "1 \<le> p" if "seen \<le> 6 / 10 * budget"
    unfolding pq using taper_full [of ?u] that False by (simp add: pos_divide_le_eq)
  moreover have "q \<le> 0" if "budget \<le> worse"
    unfolding pq using taper_none [of ?w] that False by (simp add: pos_le_divide_eq)
  ultimately show ?thesis
    using False unfolding derisk_scalar_eq pq [symmetric] by (auto simp: min_def max_def)
qed

theorem derisk_scalar_tapers_witness:
  "\<exists>m n. derisk_scalar (9 / 100) (15 / 100) = Inr m \<and> derisk_scalar (16 / 100) (15 / 100) = Inr n \<and>
     m = 1 \<and> n = 0"
  using derisk_scalar_tapers [of "9 / 100" "16 / 100" "15 / 100"] by auto

text \<open>
  C32. What is persisted is what is restored. Let a named subject be opened and driven by any
  sequence of observations and evaluations, accepted or refused, whose budgets are not
  negative: with a codec whose texts read back, the row of the state it is left in decodes
  to that very state, the high-water mark, the day's anchor, the rolling window and the
  latched breach included. (A negative budget is accepted too, and there the claim fails:
  see \<open>negative_budget_breach_unreadable\<close>.)
\<close>

theorem persisted_state_restored:
  assumes "codec_ok c" and "strip subject \<noteq> []" and "open_first_time scope subject e t = Inr s0"
    and "\<forall>b. Evaluate b \<in> set events \<longrightarrow> 0 \<le> budget_drawdown_ratio b \<and> 0 \<le> budget_daily_loss_ratio b"
  shows "from_row c (to_row c (foldl apply_event s0 events)) = Inr (foldl apply_event s0 events)"
proof -
  have "list_all (\<lambda>e. \<forall>b. e = Evaluate b \<longrightarrow> budgets_not_negative b) events"
    using assms(4) by (auto simp: list_all_iff budgets_not_negative_def)
  then have "persistable (foldl apply_event s0 events)"
    using assms(2,3) by (intro persisted.inv_run) blast
  then show ?thesis using from_row_to_row [OF assms(1)] by (simp add: persistable_def)
qed

theorem persisted_state_restored_witness:
  "\<exists>s b. foldl apply_event example_opening
       [Observe (dec 84) (utc (hours 2)), Evaluate example_budgets, Observe (dec 99) (utc (hours 3))] = s \<and>
     latched_breach s = Some b \<and> breach_limit_name b = DrawdownLimit \<and> current_equity_usd s = 99 \<and>
     peak_equity_usd s = 100 \<and> from_row unary_codec (to_row unary_codec s) = Inr s"
proof -
  let ?events = "[Observe (dec 84) (utc (hours 2)), Evaluate example_budgets, Observe (dec 99) (utc (hours 3))]"
  have "strip ''momentum'' \<noteq> []" by code_simp
  moreover have "\<forall>b. Evaluate b \<in> set ?events \<longrightarrow> 0 \<le> budget_drawdown_ratio b \<and> 0 \<le> budget_daily_loss_ratio b"
    by (simp add: example_budgets_def)
  ultimately have "from_row unary_codec (to_row unary_codec (foldl apply_event example_opening ?events)) =
      Inr (foldl apply_event example_opening ?events)"
    using persisted_state_restored [OF unary_codec_ok _ example_opening_opens] by blast
  moreover have "foldl apply_event example_opening ?events =
      (fell 84)\<lparr>latched_breach := Some (drawdown_breach), current_equity_usd := 99,
        rolling_marks := rolling_marks (fell 84) @ [\<lparr>mark_observed_at_utc = hours 3, equity_usd = 99\<rparr>],
        observed_at_utc := hours 3\<rparr>"
    by (simp only: foldl.simps fell_84_evaluated apply_event.simps(1) fell_observed fell_84_recovers sum.case)
  ultimately show ?thesis by (simp add: drawdown_breach_def fell_def example_opening_def)
qed

text \<open>
  C33. A negative budget is accepted and halts the subject at its first evaluation, but the
  breach it latches is written with that budget and refused when it is read back.
\<close>

theorem negative_budget_breach_unreadable:
  assumes "codec_ok c" and "sound_drawdown s" and "strip (state_subject_id s) \<noteq> []"
    and "latched_breach s = None" and "budget_drawdown_ratio budgets < 0" and "evaluate s budgets = Inr v"
  shows "\<exists>e. from_row c (to_row c (verdict_state v)) = Inl e"
proof -
  have init: "drawdown_state_post_init s = Inr ()" using assms(2) by (simp add: sound_drawdown_def)
  have "\<not> ratio_of s DrawdownLimit < budget_drawdown_ratio budgets"
    using observed_ratio_ok(2) [OF init, of DrawdownLimit] assms(5) by simp
  then obtain b where b: "verdict_state v = s\<lparr>latched_breach := Some b\<rparr>" "budget_ratio b < 0"
      "0 \<le> observed_ratio b"
    using assms(4-6) observed_ratio_ok(2) [OF init, of DrawdownLimit]
    by (auto simp: evaluate_eq [OF init] verdict_for_def first_breach_def LIMIT_ORDER_def split: if_splits)
  have "\<exists>e. decode_ratio c [(''limit_name'', RowStr (limit_text (breach_limit_name b))),
      (''observed_ratio'', RowStr (decimal_text c (observed_ratio b))),
      (''budget_ratio'', RowStr (decimal_text c (budget_ratio b))),
      (''breached_at_utc'', RowStr (moment_text c (breached_at_utc b))),
      (''response'', RowStr (response_text (response b)))] ''budget_ratio'' = Inl e"
    using assms(1) b(2) by (simp add: decode_ratio_def get_str_def codec_ok_def)
  then obtain e where "breach_from_row c (state_scope s) (state_subject_id s) (Some (breach_to_row c b)) = Inl e"
    using assms(1) b(3)
    by (auto simp: breach_to_row_def breach_from_row_def limit_names_text decode_ratio_row)
  moreover have "map_result (mark_from_row c) (map (mark_to_row c) (rolling_marks s)) = Inr (rolling_marks s)"
  proof -
    have "map_result (mark_from_row c) (map (mark_to_row c) ms) = Inr ms" if "\<forall>m \<in> set ms. 0 < equity_usd m" for ms
      using that by (induction ms) (simp_all add: mark_row [OF assms(1)])
    then show ?thesis using assms(2) by (simp add: sound_drawdown_def)
  qed
  ultimately show ?thesis
    using assms(3) init by (simp add: b(1) from_row_def to_row_def scopes_name drawdown_state_accepted)
qed

theorem negative_budget_breach_unreadable_witness:
  "\<exists>v e. evaluate example_opening (example_budgets\<lparr>budget_drawdown_ratio := - 1\<rparr>) = Inr v \<and>
     from_row unary_codec (to_row unary_codec (verdict_state v)) = Inl e"
proof -
  have "drawdown_state_post_init example_opening = Inr ()"
    using example_opening_sound by (simp add: sound_drawdown_def)
  moreover have "budgets_scope (example_budgets\<lparr>budget_drawdown_ratio := - 1\<rparr>) = state_scope example_opening"
    by (simp add: example_budgets_def example_opening_def)
  ultimately obtain v where v: "evaluate example_opening (example_budgets\<lparr>budget_drawdown_ratio := - 1\<rparr>) = Inr v"
    by (simp add: evaluate_eq)
  from negative_budget_breach_unreadable [OF unary_codec_ok example_opening_sound _ _ _ v] v show ?thesis
    by (auto simp: example_opening_def strip_blank is_py_space_def)
qed

end
