(* ===== verification/Netting.thy ===== *)
theory Netting
  imports Instruments "HOL-Library.Product_Lexorder" "HOL-Library.List_Lexorder" "HOL-Library.Char_ord" "HOL-Library.Multiset"
begin

text \<open>
  \<open>src/fking/risk/netting.py\<close>: the requests of several strategies on one instrument become
  one net order, snapped onto the venue's lot, and every strategy is attributed a slice of
  it. What snapping takes off the net is taken off the slices of the surplus side, the
  largest first; the loop over the indices of the Python list is \<open>absorb_loop\<close>. The lemmas
  give the slices as a function of the requests and lift it to the whole plan.
\<close>

section \<open>Requests, attributions and residuals\<close>

datatype booking_basis = VENUE_VWAP | DECISION_MID

definition CROSSING_RESIDUAL_ACCOUNT :: string where
  "CROSSING_RESIDUAL_ACCOUNT = ''crossing_residual''"

definition require_positive_price :: "pyobj \<Rightarrow> string \<Rightarrow> rat result" where
  "require_positive_price candidate field =
     and_then (decimal_guard DomainError candidate field) (\<lambda>price.
       if price \<le> 0 then Inl (DomainError (field @ '' not positive'')) else Inr price)"

definition require_finite_quantity :: "pyobj \<Rightarrow> string \<Rightarrow> rat result" where
  "require_finite_quantity = decimal_guard DomainError"

record strategy_request =
  request_strategy_id :: string
  requested_base_quantity :: rat

definition strategy_request_post_init :: "strategy_request \<Rightarrow> unit result" where
  "strategy_request_post_init r = run_checks
     [ensure (request_strategy_id r \<noteq> []) (DomainError ''strategy_id''),
      void (require_finite_quantity (dec (requested_base_quantity r)) ''signed_base_quantity'')]"

record attribution =
  attributed_strategy_id :: string
  attributed_base_quantity :: rat
  booked_quote_price :: rat
  booking_basis :: booking_basis

definition attribution_post_init :: "attribution \<Rightarrow> unit result" where
  "attribution_post_init a = void (require_positive_price (dec (booked_quote_price a)) ''booked_quote_price'')"

definition signed_notional_quote :: "attribution \<Rightarrow> rat" where
  "signed_notional_quote a = dmul (attributed_base_quantity a) (booked_quote_price a)"

definition rebook :: "attribution \<Rightarrow> pyobj \<Rightarrow> attribution result" where
  "rebook a realised_vwap_quote_price =
     (if booking_basis a \<noteq> VENUE_VWAP then Inl (DomainError ''no venue trade to rebook at'')
      else and_then (require_positive_price realised_vwap_quote_price ''realised_vwap_quote_price'')
        (\<lambda>vwap. construct attribution_post_init (a\<lparr>booked_quote_price := vwap\<rparr>)))"

record crossing_residual =
  residual_symbol :: string
  residual_crossed_base_quantity :: rat
  residual_booked_quote_price :: rat
  residual_booking_basis :: booking_basis
  residual_account :: string

definition crossing_residual_post_init :: "crossing_residual \<Rightarrow> unit result" where
  "crossing_residual_post_init c = run_checks
     [ensure (0 < residual_crossed_base_quantity c) (DomainError ''crossed_base_quantity''),
      void (require_positive_price (dec (residual_booked_quote_price c)) ''booked_quote_price''),
      ensure (residual_account c = CROSSING_RESIDUAL_ACCOUNT) (DomainError ''account'')]"

definition settle_against :: "crossing_residual \<Rightarrow> pyobj \<Rightarrow> rat result" where
  "settle_against c next_observed_quote_price =
     (if residual_booking_basis c \<noteq> DECISION_MID then Inr 0
      else and_then (require_positive_price next_observed_quote_price ''next_observed_quote_price'')
        (\<lambda>price. Inr (dmul (residual_crossed_base_quantity c) (dsub price (residual_booked_quote_price c)))))"

section \<open>The plan of one net order\<close>

record net_order_plan =
  plan_instrument :: instrument
  net_signed_base_quantity :: rat
  plan_reference_quote_price :: rat
  attributions :: "attribution list"
  plan_crossed_base_quantity :: rat
  residual :: "crossing_residual option"

definition plan_symbol :: "net_order_plan \<Rightarrow> string" where
  "plan_symbol p = symbol (plan_instrument p)"

definition has_venue_portion :: "net_order_plan \<Rightarrow> bool" where
  "has_venue_portion p \<longleftrightarrow> net_signed_base_quantity p \<noteq> 0"

definition venue_signed_notional_quote :: "net_order_plan \<Rightarrow> rat" where
  "venue_signed_notional_quote p = dmul (net_signed_base_quantity p) (plan_reference_quote_price p)"

definition attributed_signed_base_quantity :: "net_order_plan \<Rightarrow> rat" where
  "attributed_signed_base_quantity p = dsum (map attributed_base_quantity (attributions p))"

definition attributed_signed_notional_quote :: "net_order_plan \<Rightarrow> rat" where
  "attributed_signed_notional_quote p = dsum (map signed_notional_quote (attributions p))"

definition crossing_residual_at_decision_quote :: "net_order_plan \<Rightarrow> rat" where
  "crossing_residual_at_decision_quote p =
     dsub (attributed_signed_notional_quote p) (venue_signed_notional_quote p)"

text \<open>
  The loop over the indices of the surplus side: the list of quantities is updated in
  place, and what is left to take is carried along. Reaching the end of the list and the
  early \<open>break\<close> both leave the loop.
\<close>

fun absorb_loop :: "bool \<Rightarrow> nat list \<Rightarrow> rat list \<Rightarrow> rat \<Rightarrow> rat list \<times> rat" where
  "absorb_loop surplus_is_long [] quantities remaining = (quantities, remaining)"
| "absorb_loop surplus_is_long (i # is) quantities remaining =
     (if remaining \<le> 0 then (quantities, remaining)
      else
        (let taken = min (dabs (quantities ! i)) remaining
         in absorb_loop surplus_is_long is
              (quantities[i := dadd (quantities ! i) (if surplus_is_long then dneg taken else taken)])
              (dsub remaining taken)))"

definition on_surplus_side :: "bool \<Rightarrow> rat \<Rightarrow> bool" where
  "on_surplus_side surplus_is_long quantity \<longleftrightarrow> (if surplus_is_long then 0 < quantity else quantity < 0)"

definition absorb_quantization :: "strategy_request list \<Rightarrow> rat \<Rightarrow> rat list result" where
  "absorb_quantization requests adjustment =
     (let quantities = map requested_base_quantity requests
      in if adjustment = 0 then Inr quantities
         else
           (let surplus_is_long = (adjustment < 0);
                surplus = sort_key (\<lambda>i. (dneg (dabs (quantities ! i)), request_strategy_id (requests ! i)))
                  (filter (\<lambda>i. on_surplus_side surplus_is_long (quantities ! i)) [0..<length quantities]);
                (adjusted, remaining) = absorb_loop surplus_is_long surplus quantities (dabs adjustment)
            in if 0 < remaining then Inl (DomainError ''truncation could not be attributed'')
               else Inr adjusted))"

definition residual_for ::
  "instrument \<Rightarrow> rat \<Rightarrow> rat \<Rightarrow> booking_basis \<Rightarrow> crossing_residual option result" where
  "residual_for i crossed booked basis =
     (if 0 < crossed then
        and_then (construct crossing_residual_post_init
          \<lparr>residual_symbol = symbol i, residual_crossed_base_quantity = crossed,
           residual_booked_quote_price = booked, residual_booking_basis = basis,
           residual_account = CROSSING_RESIDUAL_ACCOUNT\<rparr>) (\<lambda>c. Inr (Some c))
      else Inr None)"

definition net_requests ::
  "instrument \<Rightarrow> strategy_request list \<Rightarrow> pyobj \<Rightarrow> pyobj \<Rightarrow> net_order_plan result" where
  "net_requests i requests reference_quote_price decision_mid_quote_price =
     (if requests = [] then Inl (DomainError ''no requests'')
      else if \<not> distinct (map request_strategy_id requests) then Inl (DomainError ''strategy twice'')
      else
        and_then (require_positive_price reference_quote_price ''reference_quote_price'') (\<lambda>reference.
        and_then (require_positive_price decision_mid_quote_price ''decision_mid_quote_price'') (\<lambda>mid.
        let raw_net = dsum (map requested_base_quantity requests) in
        and_then (quantize_base_quantity i raw_net) (\<lambda>net.
        and_then (absorb_quantization requests (dsub net raw_net)) (\<lambda>adjusted.
        let venue_portion = (net \<noteq> 0);
            basis = (if venue_portion then VENUE_VWAP else DECISION_MID);
            booked = (if venue_portion then reference else mid) in
        and_then (map_result (\<lambda>(request, quantity). construct attribution_post_init
            \<lparr>attributed_strategy_id = request_strategy_id request,
             attributed_base_quantity = quantity, booked_quote_price = booked,
             booking_basis = basis\<rparr>) (zip requests adjusted)) (\<lambda>slices.
        let gross_long = dsum (filter (\<lambda>q. 0 < q) adjusted);
            gross_short = dneg (dsum (filter (\<lambda>q. q < 0) adjusted));
            crossed = min gross_long gross_short in
        and_then (residual_for i crossed booked basis) (\<lambda>left_over.
        Inr \<lparr>plan_instrument = i, net_signed_base_quantity = net, plan_reference_quote_price = booked,
             attributions = slices, plan_crossed_base_quantity = crossed, residual = left_over\<rparr>)))))))"

section \<open>The loop as a function of the requests\<close>

text \<open>
  What each of a list of holdings gives up, in order, when an amount has to be taken off
  them: all of it, until the amount is used up.
\<close>

fun given_up :: "rat list \<Rightarrow> rat \<Rightarrow> rat list" where
  "given_up [] remaining = []"
| "given_up (m # ms) remaining = (let t = min m remaining in t # given_up ms (remaining - t))"

lemma given_up_length [simp]: "length (given_up ms remaining) = length ms"
  by (induction ms remaining rule: given_up.induct) (simp_all add: Let_def)

lemma given_up_nothing: "\<forall>m \<in> set ms. 0 \<le> m \<Longrightarrow> given_up ms 0 = replicate (length ms) 0"
  by (induction ms) (auto simp: Let_def)

lemma given_up_sum:
  "\<forall>m \<in> set ms. 0 \<le> m \<Longrightarrow> 0 \<le> remaining \<Longrightarrow>
    sum_list (given_up ms remaining) = min remaining (sum_list ms)"
proof (induction ms remaining rule: given_up.induct)
  case (1 remaining)
  then show ?case by simp
next
  case (2 m ms remaining)
  then have "0 \<le> sum_list ms" by (simp add: sum_list_nonneg)
  with 2 show ?case by (simp add: Let_def min_def)
qed

lemma given_up_le:
  "\<forall>m \<in> set ms. 0 \<le> m \<Longrightarrow> 0 \<le> remaining \<Longrightarrow> list_all2 (\<lambda>t m. 0 \<le> t \<and> t \<le> m) (given_up ms remaining) ms"
  by (induction ms remaining rule: given_up.induct) (auto simp: Let_def)

text \<open>The quantities whose sums and differences, and whose values at one price, are exact.\<close>

definition lattice_for :: "rat \<Rightarrow> rat \<Rightarrow> bool" where
  "lattice_for p x \<longleftrightarrow> on_lattice x \<and> on_lattice (x * p)"

lemma lattice_for_simps [simp]:
  "lattice_for p 0" "lattice_for p (- x) \<longleftrightarrow> lattice_for p x" "lattice_for 1 x \<longleftrightarrow> on_lattice x"
  by (simp_all add: lattice_for_def)

lemma lattice_for_add [intro]: "lattice_for p x \<Longrightarrow> lattice_for p y \<Longrightarrow> lattice_for p (x + y)"
  by (auto simp: lattice_for_def distrib_right)

lemma lattice_for_diff [intro]: "lattice_for p x \<Longrightarrow> lattice_for p y \<Longrightarrow> lattice_for p (x - y)"
  by (auto simp: lattice_for_def left_diff_distrib)

lemma lattice_for_abs [intro]: "lattice_for p x \<Longrightarrow> lattice_for p \<bar>x\<bar>"
  by (simp add: abs_if)

lemma lattice_for_mult_int [intro]: "lattice_for p x \<Longrightarrow> lattice_for p (of_int k * x)"
  by (auto simp: lattice_for_def mult.assoc)

lemma lattice_for_sum_list [intro]:
  "(\<And>x. x \<in> set xs \<Longrightarrow> lattice_for p x) \<Longrightarrow> lattice_for p (sum_list xs)"
  by (induction xs) auto

lemma given_up_lattice:
  "\<forall>m \<in> set ms. lattice_for p m \<Longrightarrow> lattice_for p remaining \<Longrightarrow>
    \<forall>t \<in> set (given_up ms remaining). lattice_for p t"
  by (induction ms remaining rule: given_up.induct) (auto simp: Let_def min_def lattice_for_diff)

definition amount :: "('k \<rightharpoonup> rat) \<Rightarrow> 'k \<Rightarrow> rat" where
  "amount m k = (case m k of None \<Rightarrow> 0 | Some t \<Rightarrow> t)"

lemma amount_upd [simp]: "amount (m(k \<mapsto> t)) j = (if j = k then t else amount m j)"
  by (simp add: amount_def)

abbreviation surplus_sign :: "bool \<Rightarrow> rat" where
  "surplus_sign surplus_is_long \<equiv> (if surplus_is_long then 1 else - 1)"

lemma absorb_loop_eq:
  assumes "distinct is" and "\<forall>i \<in> set is. i < length qs \<and> on_surplus_side long (qs ! i)"
    and "\<forall>q \<in> set qs. on_lattice q \<and> \<bar>q\<bar> < 10 ^ 20" and "on_lattice rem" "0 \<le> rem" "rem < 10 ^ 20"
  shows "absorb_loop long is qs rem =
    (map (\<lambda>j. qs ! j - surplus_sign long * amount (map_of (zip is (given_up (map (\<lambda>i. \<bar>qs ! i\<bar>) is) rem))) j)
       [0..<length qs],
     rem - sum_list (given_up (map (\<lambda>i. \<bar>qs ! i\<bar>) is) rem))"
  using assms
proof (induction "is" arbitrary: qs rem)
  case Nil
  have "map ((!) qs) [0..<length qs] = qs" by (rule map_nth)
  then show ?case by (simp add: amount_def)
next
  case (Cons i "is")
  show ?case
  proof (cases "rem = 0")
    case True
    have "amount (map_of (zip (i # is) (replicate (length (i # is)) 0))) j = 0" for j
      by (auto simp: amount_def zip_replicate2 dest!: map_of_SomeD split: option.splits)
    then show ?thesis
      using given_up_nothing [of "map (\<lambda>i. \<bar>qs ! i\<bar>) (i # is)"] True
      by (simp add: map_nth sum_list_replicate del: replicate.simps zip_Cons_Cons given_up.simps list.map)
  next
    case False
    define t where "t = min \<bar>qs ! i\<bar> rem"
    let ?s = "surplus_sign long"
    let ?qs = "qs[i := qs ! i - ?s * t]"
    have i: "i < length qs" "on_surplus_side long (qs ! i)" "on_lattice (qs ! i)" "\<bar>qs ! i\<bar> < 10 ^ 20"
      using Cons.prems(2,3) by auto
    have t: "on_lattice t" "0 \<le> t" "t \<le> rem" "t \<le> \<bar>qs ! i\<bar>"
      using i(3) Cons.prems(4,5) by (auto simp: t_def min_def)
    have new: "on_lattice (qs ! i - ?s * t)" "\<bar>qs ! i - ?s * t\<bar> < 10 ^ 20"
      using i t by (auto simp: on_surplus_side_def)
    have others: "map (\<lambda>k. \<bar>?qs ! k\<bar>) is = map (\<lambda>k. \<bar>qs ! k\<bar>) is"
      using Cons.prems(1) by (intro map_cong refl arg_cong [where f = abs] nth_list_update_neq) auto
    have i_off: "amount (map_of (zip is (given_up (map (\<lambda>k. \<bar>qs ! k\<bar>) is) (rem - t)))) i = 0"
      using Cons.prems(1) by (auto simp: amount_def dest!: map_of_SomeD set_zip_leftD split: option.splits)
    have rem: "on_lattice (rem - t)" "\<bar>rem - t\<bar> < 10 ^ 20" "\<bar>t\<bar> < 10 ^ 20"
      using t Cons.prems(4-6) by auto
    have "dabs (qs ! i) = \<bar>qs ! i\<bar>" using i by (simp add: dabs_def lattice_exact on_lattice_abs)
    moreover have "dneg t = - t" using t(1) rem(3) by (simp add: dneg_def lattice_exact)
    moreover have "dsub rem t = rem - t" using rem(1,2) by (simp add: dsub_def lattice_exact)
    moreover have "dadd (qs ! i) (if long then - t else t) = qs ! i - ?s * t"
      using new by (cases long) (simp_all add: dadd_def lattice_exact)
    ultimately have "absorb_loop long (i # is) qs rem = absorb_loop long is ?qs (rem - t)"
      using False Cons.prems(5) by (simp add: t_def [symmetric] Let_def split: if_splits)
    also have "\<dots> = (map (\<lambda>j. ?qs ! j - ?s *
          amount (map_of (zip is (given_up (map (\<lambda>i. \<bar>?qs ! i\<bar>) is) (rem - t)))) j) [0..<length ?qs],
        rem - t - sum_list (given_up (map (\<lambda>i. \<bar>?qs ! i\<bar>) is) (rem - t)))"
      using Cons.prems i t new
      by (intro Cons.IH) (auto simp: nth_list_update dest: set_update_subset_insert [THEN subsetD])
    also have "\<dots> = (map (\<lambda>j. qs ! j - ?s * amount (map_of (zip (i # is)
          (given_up (map (\<lambda>i. \<bar>qs ! i\<bar>) (i # is)) rem))) j) [0..<length qs],
        rem - sum_list (given_up (map (\<lambda>i. \<bar>qs ! i\<bar>) (i # is)) rem))"
      using i(1) i_off unfolding others
      by (auto simp: t_def [symmetric] Let_def nth_list_update)
    finally show ?thesis .
  qed
qed


lemma amount_sum:
  assumes "distinct ks" and "length ts = length ks" and "finite A" and "set ks \<subseteq> A"
  shows "(\<Sum>k\<in>A. amount (map_of (zip ks ts)) k) = sum_list ts"
  using assms
proof (induction ks arbitrary: ts A)
  case Nil
  then show ?case by (simp add: amount_def)
next
  case (Cons k ks)
  then obtain t us where ts: "ts = t # us" by (cases ts) auto
  have "(\<Sum>j\<in>A - {k}. amount (map_of (zip ks us)) j) = sum_list us"
    using Cons.prems by (intro Cons.IH) (auto simp: ts)
  moreover have "(\<Sum>j\<in>A - {k}. amount (map_of (zip (k # ks) ts)) j) = (\<Sum>j\<in>A - {k}. amount (map_of (zip ks us)) j)"
    by (rule sum.cong) (auto simp: ts amount_def)
  moreover have "(\<Sum>j\<in>A. amount (map_of (zip (k # ks) ts)) j) =
      amount (map_of (zip (k # ks) ts)) k + (\<Sum>j\<in>A - {k}. amount (map_of (zip (k # ks) ts)) j)"
    using Cons.prems by (intro sum.remove) auto
  ultimately show ?case by (simp add: ts amount_def)
qed

lemma amount_cases:
  assumes "length ts = length ks"
  shows "amount (map_of (zip ks ts)) k = 0 \<or> amount (map_of (zip ks ts)) k \<in> set ts"
  using assms by (auto simp: amount_def split: option.splits dest!: map_of_SomeD set_zip_rightD)

lemma amount_list_all2:
  assumes "list_all2 (\<lambda>t m. 0 \<le> t \<and> t \<le> f m) ts ks" and "\<forall>k \<in> set ks. 0 \<le> f k" and "distinct ks"
  shows "0 \<le> amount (map_of (zip ks ts)) k \<and> (k \<in> set ks \<longrightarrow> amount (map_of (zip ks ts)) k \<le> f k) \<and>
    (k \<notin> set ks \<longrightarrow> amount (map_of (zip ks ts)) k = 0)"
  using assms by (induction ts ks rule: list_all2_induct) (auto simp: amount_def)

lemma map_of_zip_map:
  assumes "inj_on f (insert j (set ks))" and "length ts = length ks"
  shows "map_of (zip (map f ks) ts) (f j) = map_of (zip ks ts) j"
  using assms
proof (induction ks arbitrary: ts)
  case (Cons k ks)
  then obtain t us where "ts = t # us" by (cases ts) auto
  moreover have "inj_on f (insert j (set ks))" using Cons.prems(1) by (auto simp: inj_on_def)
  ultimately show ?case using Cons by (auto simp: inj_on_def)
qed simp

lemma map_insort_key: "map f (insort_key (\<lambda>x. k (f x)) x xs) = insort_key k (f x) (map f xs)"
  by (induction xs) auto

lemma insort_key_eq_on: "\<forall>y \<in> insert x (set xs). f y = g y \<Longrightarrow> insort_key f x xs = insort_key g x xs"
  by (induction xs) auto

lemma sort_key_eq_on: "\<forall>x \<in> set xs. f x = g x \<Longrightarrow> sort_key f xs = sort_key g xs"
proof (induction xs)
  case (Cons x xs)
  have "insort_key f x (sort_key g xs) = insort_key g x (sort_key g xs)"
    using Cons.prems by (intro insort_key_eq_on) simp
  with Cons show ?case by (simp add: sort_key_def)
qed simp

lemma map_sort_key: "map f (sort_key (\<lambda>x. k (f x)) xs) = sort_key k (map f xs)"
  by (induction xs) (simp_all add: sort_key_def map_insort_key)

section \<open>The slices\<close>

text \<open>
  The surplus side in the order the loop visits it, as requests instead of indices, and
  the slice that a request is left with.
\<close>

definition surplus_requests :: "bool \<Rightarrow> strategy_request list \<Rightarrow> strategy_request list" where
  "surplus_requests long requests =
     sort_key (\<lambda>r. (dneg (dabs (requested_base_quantity r)), request_strategy_id r))
       (filter (\<lambda>r. on_surplus_side long (requested_base_quantity r)) requests)"

definition taken_off :: "strategy_request list \<Rightarrow> rat \<Rightarrow> string \<Rightarrow> rat" where
  "taken_off requests adjustment =
     (let S = surplus_requests (adjustment < 0) requests
      in amount (map_of (zip (map request_strategy_id S)
           (given_up (map (\<lambda>r. \<bar>requested_base_quantity r\<bar>) S) \<bar>adjustment\<bar>))))"

definition slice_of :: "strategy_request list \<Rightarrow> rat \<Rightarrow> strategy_request \<Rightarrow> rat" where
  "slice_of requests adjustment r =
     requested_base_quantity r -
       surplus_sign (adjustment < 0) * taken_off requests adjustment (request_strategy_id r)"

definition exact_requests :: "rat \<Rightarrow> strategy_request list \<Rightarrow> bool" where
  "exact_requests p requests \<longleftrightarrow>
     (\<forall>r \<in> set requests. lattice_for p (requested_base_quantity r)) \<and>
     (\<Sum>r\<leftarrow>requests. \<bar>requested_base_quantity r\<bar>) < 10 ^ 18"

lemma exact_requests_bound:
  assumes "exact_requests p requests" and "r \<in> set requests"
  shows "on_lattice (requested_base_quantity r)" "\<bar>requested_base_quantity r\<bar> < 10 ^ 18"
proof -
  have "\<bar>requested_base_quantity r\<bar> \<le> (\<Sum>r\<leftarrow>requests. \<bar>requested_base_quantity r\<bar>)"
    using assms(2) by (intro member_le_sum_list) auto
  then show "\<bar>requested_base_quantity r\<bar> < 10 ^ 18" using assms(1) by (simp add: exact_requests_def)
  show "on_lattice (requested_base_quantity r)"
    using assms by (auto simp: exact_requests_def lattice_for_def)
qed

lemma set_surplus_requests [simp]:
  "set (surplus_requests long requests) = {r \<in> set requests. on_surplus_side long (requested_base_quantity r)}"
  by (auto simp: surplus_requests_def)

lemma surplus_requests_perm:
  assumes "mset requests = mset requests'" and "distinct (map request_strategy_id requests)"
  shows "surplus_requests long requests = surplus_requests long requests'"
  unfolding surplus_requests_def
  using assms by (intro sort_key_inj_key_eq) (auto simp: distinct_map inj_on_def)


lemma absorb_quantization_eq:
  assumes "exact_requests p requests" and "distinct (map request_strategy_id requests)"
    and "on_lattice adjustment"
    and enough: "\<bar>adjustment\<bar> \<le>
      (\<Sum>r\<leftarrow>surplus_requests (adjustment < 0) requests. \<bar>requested_base_quantity r\<bar>)"
    and "\<bar>adjustment\<bar> < 10 ^ 20"
  shows "absorb_quantization requests adjustment = Inr (map (slice_of requests adjustment) requests)"
proof (cases "adjustment = 0")
  case True
  have "amount (map_of (zip (map f S) (replicate (length S) 0))) k = 0"
    for f :: "strategy_request \<Rightarrow> string" and S k
    by (auto simp: amount_def dest!: map_of_SomeD set_zip_rightD split: option.splits)
  then show ?thesis
    using True by (simp add: absorb_quantization_def slice_of_def taken_off_def given_up_nothing Let_def)
next
  case False
  let ?long = "adjustment < 0" and ?qs = "map requested_base_quantity requests"
  let ?key = "\<lambda>r. (dneg (dabs (requested_base_quantity r)), request_strategy_id r)"
  let ?key_at = "\<lambda>i. (dneg (dabs (?qs ! i)), request_strategy_id (requests ! i))"
  define side where "side = filter (\<lambda>i. on_surplus_side ?long (?qs ! i)) [0..<length ?qs]"
  define order where "order = sort_key ?key_at side"
  let ?given = "given_up (map (\<lambda>i. \<bar>?qs ! i\<bar>) order) \<bar>adjustment\<bar>"
  have side: "\<forall>i \<in> set side. i < length requests" by (simp add: side_def)
  have S: "map ((!) requests) order = surplus_requests ?long requests"
  proof -
    have "map ((!) requests) order = map ((!) requests) (sort_key (\<lambda>i. ?key (requests ! i)) side)"
      unfolding order_def using side by (intro arg_cong [where f = "map ((!) requests)"] sort_key_eq_on) simp
    also have "\<dots> = sort_key ?key (map ((!) requests) side)" by (rule map_sort_key)
    also have "map ((!) requests) side = filter (\<lambda>r. on_surplus_side ?long (requested_base_quantity r))
        (map ((!) requests) [0..<length requests])"
      by (auto simp: side_def filter_map o_def intro!: arg_cong [where f = "map ((!) requests)"] filter_cong)
    finally show ?thesis by (simp add: surplus_requests_def map_nth)
  qed
  have "set order = set side" by (simp add: order_def)
  then have order: "distinct order" "\<forall>i \<in> set order. i < length requests \<and> on_surplus_side ?long (?qs ! i)"
    by (auto simp: order_def side_def)
  have mags: "map (\<lambda>i. \<bar>?qs ! i\<bar>) order = map (\<lambda>r. \<bar>requested_base_quantity r\<bar>) (surplus_requests ?long requests)"
    unfolding S [symmetric] using order(2) by (auto simp: o_def)
  have bounds: "\<forall>q \<in> set ?qs. on_lattice q \<and> \<bar>q\<bar> < 10 ^ 20"
    using exact_requests_bound [OF assms(1)] by fastforce
  have "sum_list ?given = \<bar>adjustment\<bar>"
    using enough unfolding mags by (subst given_up_sum) auto
  then have "absorb_loop ?long order ?qs (dabs adjustment) =
      (map (\<lambda>j. ?qs ! j - surplus_sign ?long * amount (map_of (zip order ?given)) j) [0..<length ?qs], 0)"
    using order bounds assms(3,5)
    by (subst absorb_loop_eq) (auto simp: decimal_ops lattice_exact on_lattice_abs)
  also have "map (\<lambda>j. ?qs ! j - surplus_sign ?long * amount (map_of (zip order ?given)) j) [0..<length ?qs] =
      map (\<lambda>j. slice_of requests adjustment (requests ! j)) [0..<length requests]"
  proof (intro map_cong)
    fix j assume "j \<in> set [0..<length requests]"
    then have "inj_on (\<lambda>i. request_strategy_id (requests ! i)) (insert j (set order))"
      using assms(2) order(2) by (auto simp: inj_on_def distinct_conv_nth)
    then have "map_of (zip (map (\<lambda>i. request_strategy_id (requests ! i)) order) ?given)
        (request_strategy_id (requests ! j)) = map_of (zip order ?given) j"
      by (rule map_of_zip_map) simp
    moreover have "map (\<lambda>i. request_strategy_id (requests ! i)) order =
        map request_strategy_id (surplus_requests ?long requests)"
      unfolding S [symmetric] by simp
    ultimately show "?qs ! j - surplus_sign ?long * amount (map_of (zip order ?given)) j =
        slice_of requests adjustment (requests ! j)"
      using \<open>j \<in> _\<close> by (simp add: slice_of_def taken_off_def Let_def mags amount_def)
  qed simp
  also have "\<dots> = map (slice_of requests adjustment) (map ((!) requests) [0..<length requests])"
    by simp
  finally have loop: "absorb_loop ?long order ?qs (dabs adjustment) = (map (slice_of requests adjustment) requests, 0)"
    unfolding map_nth .
  show ?thesis
    unfolding absorb_quantization_def Let_def side_def [symmetric] order_def [symmetric] loop
    using False by simp
qed


lemma taken_off_eq:
  assumes "distinct (map request_strategy_id requests)" and "r \<in> set requests"
  shows "taken_off requests adjustment (request_strategy_id r) =
    (let S = surplus_requests (adjustment < 0) requests
     in amount (map_of (zip S (given_up (map (\<lambda>r. \<bar>requested_base_quantity r\<bar>) S) \<bar>adjustment\<bar>))) r)"
proof -
  have "inj_on request_strategy_id (insert r (set (surplus_requests (adjustment < 0) requests)))"
    using assms by (auto simp: distinct_map inj_on_def)
  then show ?thesis by (simp add: taken_off_def Let_def amount_def map_of_zip_map)
qed

lemma taken_off_bounds:
  assumes "distinct (map request_strategy_id requests)" and "r \<in> set requests"
  shows "0 \<le> taken_off requests adjustment (request_strategy_id r)"
    and "on_surplus_side (adjustment < 0) (requested_base_quantity r) \<Longrightarrow>
      taken_off requests adjustment (request_strategy_id r) \<le> \<bar>requested_base_quantity r\<bar>"
    and "\<not> on_surplus_side (adjustment < 0) (requested_base_quantity r) \<Longrightarrow>
      taken_off requests adjustment (request_strategy_id r) = 0"
proof -
  let ?S = "surplus_requests (adjustment < 0) requests"
  have "distinct ?S"
    using assms(1) by (simp add: surplus_requests_def distinct_map)
  moreover have "list_all2 (\<lambda>t m. 0 \<le> t \<and> t \<le> m)
      (given_up (map (\<lambda>r. \<bar>requested_base_quantity r\<bar>) ?S) \<bar>adjustment\<bar>) (map (\<lambda>r. \<bar>requested_base_quantity r\<bar>) ?S)"
    by (rule given_up_le) auto
  ultimately have "0 \<le> amount (map_of (zip ?S (given_up (map (\<lambda>r. \<bar>requested_base_quantity r\<bar>) ?S) \<bar>adjustment\<bar>))) r \<and>
      (r \<in> set ?S \<longrightarrow> amount (map_of (zip ?S (given_up (map (\<lambda>r. \<bar>requested_base_quantity r\<bar>) ?S) \<bar>adjustment\<bar>))) r
         \<le> \<bar>requested_base_quantity r\<bar>) \<and>
      (r \<notin> set ?S \<longrightarrow> amount (map_of (zip ?S (given_up (map (\<lambda>r. \<bar>requested_base_quantity r\<bar>) ?S) \<bar>adjustment\<bar>))) r = 0)"
    by (intro amount_list_all2 [of "\<lambda>r. \<bar>requested_base_quantity r\<bar>"]) (simp_all add: list_all2_map2)
  then show "0 \<le> taken_off requests adjustment (request_strategy_id r)"
    and "on_surplus_side (adjustment < 0) (requested_base_quantity r) \<Longrightarrow>
      taken_off requests adjustment (request_strategy_id r) \<le> \<bar>requested_base_quantity r\<bar>"
    and "\<not> on_surplus_side (adjustment < 0) (requested_base_quantity r) \<Longrightarrow>
      taken_off requests adjustment (request_strategy_id r) = 0"
    using assms(2) by (simp_all add: taken_off_eq [OF assms] Let_def)
qed

lemma slice_bounds:
  assumes "distinct (map request_strategy_id requests)" and "r \<in> set requests"
  shows "\<bar>slice_of requests adjustment r\<bar> \<le> \<bar>requested_base_quantity r\<bar>"
    and "0 \<le> slice_of requests adjustment r * requested_base_quantity r"
proof -
  have "\<bar>slice_of requests adjustment r\<bar> \<le> \<bar>requested_base_quantity r\<bar> \<and>
      (0 \<le> slice_of requests adjustment r \<and> 0 \<le> requested_base_quantity r \<or>
       slice_of requests adjustment r \<le> 0 \<and> requested_base_quantity r \<le> 0)"
    using taken_off_bounds [OF assms, of adjustment]
    by (cases "on_surplus_side (adjustment < 0) (requested_base_quantity r)")
      (auto simp: slice_of_def on_surplus_side_def split: if_splits)
  then show "\<bar>slice_of requests adjustment r\<bar> \<le> \<bar>requested_base_quantity r\<bar>"
    and "0 \<le> slice_of requests adjustment r * requested_base_quantity r"
    by (auto simp: zero_le_mult_iff)
qed

lemma slice_lattice:
  assumes "\<forall>r \<in> set requests. lattice_for p (requested_base_quantity r)" and "lattice_for p adjustment"
    and "r \<in> set requests"
  shows "lattice_for p (slice_of requests adjustment r)"
proof -
  let ?S = "surplus_requests (adjustment < 0) requests"
  let ?given = "given_up (map (\<lambda>r. \<bar>requested_base_quantity r\<bar>) ?S) \<bar>adjustment\<bar>"
  have "\<forall>t \<in> set ?given. lattice_for p t"
    using assms(1,2) by (intro given_up_lattice) auto
  then have "lattice_for p (taken_off requests adjustment (request_strategy_id r))"
    using amount_cases [of ?given "map request_strategy_id ?S" "request_strategy_id r"]
    by (auto simp: taken_off_def Let_def)
  then show ?thesis using assms(1,3) by (auto simp: slice_of_def)
qed

lemma sum_list_sort_key: "(\<Sum>x\<leftarrow>sort_key k xs. f x) = (\<Sum>x\<leftarrow>xs. f x)" for f :: "'a \<Rightarrow> rat"
  by (simp flip: sum_mset_sum_list)

lemma slice_sum:
  assumes "distinct (map request_strategy_id requests)"
    and "\<bar>adjustment\<bar> \<le> (\<Sum>r\<leftarrow>surplus_requests (adjustment < 0) requests. \<bar>requested_base_quantity r\<bar>)"
  shows "(\<Sum>r\<leftarrow>requests. slice_of requests adjustment r) =
    (\<Sum>r\<leftarrow>requests. requested_base_quantity r) + adjustment"
proof -
  let ?S = "surplus_requests (adjustment < 0) requests"
  let ?given = "given_up (map (\<lambda>r. \<bar>requested_base_quantity r\<bar>) ?S) \<bar>adjustment\<bar>"
  have distinct: "distinct requests" "distinct ?S"
    using assms(1) by (auto simp: surplus_requests_def distinct_map)
  have "(\<Sum>r\<leftarrow>requests. taken_off requests adjustment (request_strategy_id r)) =
      (\<Sum>r\<in>set requests. amount (map_of (zip ?S ?given)) r)"
    using distinct(1) taken_off_eq [OF assms(1)]
    by (simp add: sum_list_distinct_conv_sum_set Let_def)
  also have "\<dots> = sum_list ?given" by (rule amount_sum) (use distinct in auto)
  also have "\<dots> = \<bar>adjustment\<bar>" using assms(2) by (subst given_up_sum) auto
  finally have "(\<Sum>r\<leftarrow>requests. surplus_sign (adjustment < 0) * taken_off requests adjustment (request_strategy_id r)) =
      surplus_sign (adjustment < 0) * \<bar>adjustment\<bar>"
    by (simp add: sum_list_const_mult)
  then show ?thesis by (simp add: slice_of_def sum_list_subtractf split: if_splits)
qed

text \<open>The surplus side is large enough for what snapping toward zero takes off.\<close>

lemma surplus_enough:
  fixes requests :: "strategy_request list"
  defines "raw \<equiv> \<Sum>r\<leftarrow>requests. requested_base_quantity r"
  assumes "\<bar>net\<bar> \<le> \<bar>raw\<bar>" and "0 \<le> raw * net"
  shows "\<bar>net - raw\<bar> \<le> (\<Sum>r\<leftarrow>surplus_requests (net - raw < 0) requests. \<bar>requested_base_quantity r\<bar>)"
proof -
  have side: "(\<Sum>r\<leftarrow>requests. \<bar>requested_base_quantity r\<bar> * (if on_surplus_side long (requested_base_quantity r) then 1 else 0)) =
      (\<Sum>r\<leftarrow>surplus_requests long requests. \<bar>requested_base_quantity r\<bar>)" for long
    unfolding surplus_requests_def sum_list_sort_key by (induction requests) auto
  have "raw \<le> (\<Sum>r\<leftarrow>requests. \<bar>requested_base_quantity r\<bar> * (if on_surplus_side True (requested_base_quantity r) then 1 else 0))"
    unfolding raw_def by (intro sum_list_mono) (auto simp: on_surplus_side_def)
  moreover have "- raw \<le> (\<Sum>r\<leftarrow>requests. \<bar>requested_base_quantity r\<bar> * (if on_surplus_side False (requested_base_quantity r) then 1 else 0))"
    unfolding raw_def uminus_sum_list_map by (intro sum_list_mono) (auto simp: on_surplus_side_def)
  ultimately have bound: "raw \<le> (\<Sum>r\<leftarrow>surplus_requests True requests. \<bar>requested_base_quantity r\<bar>)"
    "- raw \<le> (\<Sum>r\<leftarrow>surplus_requests False requests. \<bar>requested_base_quantity r\<bar>)"
    unfolding side by auto
  show ?thesis
  proof (cases "net - raw < 0")
    case True
    then have "0 \<le> net" "0 < raw" using assms(2,3) by (auto simp: zero_le_mult_iff)
    with True bound(1) show ?thesis by simp
  next
    case False
    then have "net \<le> 0 \<or> net = raw" using assms(2,3) by (auto simp: zero_le_mult_iff)
    moreover have "0 \<le> (\<Sum>r\<leftarrow>surplus_requests False requests. \<bar>requested_base_quantity r\<bar>)"
      by (intro sum_list_nonneg) auto
    ultimately show ?thesis using False bound(2) by auto
  qed
qed


section \<open>The whole plan\<close>

definition raw_net :: "strategy_request list \<Rightarrow> rat" where
  "raw_net requests = (\<Sum>r\<leftarrow>requests. requested_base_quantity r)"

definition basis_of :: "rat \<Rightarrow> booking_basis" where
  "basis_of net = (if net \<noteq> 0 then VENUE_VWAP else DECISION_MID)"

definition crossed_of :: "rat list \<Rightarrow> rat" where
  "crossed_of slices = min (dsum (filter (\<lambda>q. 0 < q) slices)) (dneg (dsum (filter (\<lambda>q. q < 0) slices)))"

definition plan_of :: "instrument \<Rightarrow> strategy_request list \<Rightarrow> rat \<Rightarrow> rat \<Rightarrow> net_order_plan" where
  "plan_of i requests net booked =
     (let slices = map (slice_of requests (net - raw_net requests)) requests;
          crossed = crossed_of slices
      in \<lparr>plan_instrument = i, net_signed_base_quantity = net, plan_reference_quote_price = booked,
          attributions = map (\<lambda>r. \<lparr>attributed_strategy_id = request_strategy_id r,
            attributed_base_quantity = slice_of requests (net - raw_net requests) r,
            booked_quote_price = booked, booking_basis = basis_of net\<rparr>) requests,
          plan_crossed_base_quantity = crossed,
          residual = (if 0 < crossed then Some \<lparr>residual_symbol = symbol i,
            residual_crossed_base_quantity = crossed, residual_booked_quote_price = booked,
            residual_booking_basis = basis_of net, residual_account = CROSSING_RESIDUAL_ACCOUNT\<rparr>
            else None)\<rparr>)"

lemma require_positive_price_dec [guard_simps]:
  "require_positive_price (dec x) f = Inr y \<longleftrightarrow> y = x \<and> 0 < x"
  by (auto simp: require_positive_price_def)

lemma map_result_zip_map:
  "(\<And>r. r \<in> set xs \<Longrightarrow> f (r, g r) = Inr (h r)) \<Longrightarrow> map_result f (zip xs (map g xs)) = Inr (map h xs)"
  by (induction xs) auto

lemma exact_requests_raw:
  assumes "exact_requests p requests"
  shows "dsum (map requested_base_quantity requests) = raw_net requests" "\<bar>raw_net requests\<bar> < 10 ^ 18"
    "lattice_for p (raw_net requests)" "snappable (raw_net requests)"
proof -
  have sum: "(\<Sum>r\<leftarrow>requests. \<bar>requested_base_quantity r\<bar>) < 10 ^ 18"
    using assms by (simp add: exact_requests_def)
  have le: "\<bar>raw_net requests\<bar> \<le> (\<Sum>r\<leftarrow>requests. \<bar>requested_base_quantity r\<bar>)"
    using sum_list_abs [of "map requested_base_quantity requests"] by (simp add: raw_net_def o_def)
  show "dsum (map requested_base_quantity requests) = raw_net requests"
    unfolding raw_net_def
  proof (rule dsum_exact)
    show "(\<Sum>x\<leftarrow>map requested_base_quantity requests. \<bar>x\<bar>) < 10 ^ 20"
      using sum by (simp add: o_def)
  qed (use exact_requests_bound [OF assms] in auto)
  show "lattice_for p (raw_net requests)"
    using assms unfolding raw_net_def by (intro lattice_for_sum_list) (auto simp: exact_requests_def)
  then show "\<bar>raw_net requests\<bar> < 10 ^ 18" "snappable (raw_net requests)"
    using le sum by (auto simp: snappable_def lattice_for_def)
qed

lemma net_requests_plan:
  assumes i: "valid_instrument i" "snappable (lot_step i)"
    and requests: "requests \<noteq> []" "distinct (map request_strategy_id requests)" "exact_requests 1 requests"
    and prices: "0 < reference" "0 < mid"
  obtains k where "quantize_base_quantity i (raw_net requests) = Inr (of_int k * lot_step i)"
    and "\<bar>of_int k * lot_step i\<bar> \<le> \<bar>raw_net requests\<bar>"
    and "\<bar>raw_net requests - of_int k * lot_step i\<bar> < lot_step i"
    and "0 \<le> raw_net requests * (of_int k * lot_step i)"
    and "net_requests i requests (dec reference) (dec mid) =
      Inr (plan_of i requests (of_int k * lot_step i) (if of_int k * lot_step i \<noteq> 0 then reference else mid))"
proof -
  note raw = exact_requests_raw [OF requests(3)]
  obtain k where k: "quantize_base_quantity i (raw_net requests) = Inr (of_int k * lot_step i)"
      "\<bar>of_int k * lot_step i\<bar> \<le> \<bar>raw_net requests\<bar>"
      "\<bar>raw_net requests - of_int k * lot_step i\<bar> < lot_step i"
      "0 \<le> raw_net requests * (of_int k * lot_step i)"
    using quantized [OF i raw(4)] by blast
  define net where "net = of_int k * lot_step i"
  define booked where "booked = (if net \<noteq> 0 then reference else mid)"
  have booked: "0 < booked" using prices by (simp add: booked_def)
  note k = k [folded net_def]
  let ?adjustment = "net - raw_net requests"
  have "on_lattice net" using i(2) by (auto simp: snappable_def net_def)
  then have lattice: "on_lattice ?adjustment" using raw(3) by (auto simp: lattice_for_def)
  have small: "\<bar>?adjustment\<bar> < 10 ^ 20" using k(2) raw(2) by simp
  have steps: "dsub net (raw_net requests) = ?adjustment"
    "absorb_quantization requests ?adjustment = Inr (map (slice_of requests ?adjustment) requests)"
    using surplus_enough [of net requests] k(2,4) lattice small
      absorb_quantization_eq [OF requests(3,2) lattice _ small]
    by (simp_all add: dsub_def lattice_exact raw_net_def)
  have accepted: "require_positive_price (dec reference) f = Inr reference"
    "require_positive_price (dec mid) f = Inr mid" for f
    using prices by (simp_all add: guard_simps)
  have accepted_booked: "require_positive_price (dec booked) f = Inr booked" for f
    using booked by (simp add: guard_simps)
  have "attribution_post_init \<lparr>attributed_strategy_id = n, attributed_base_quantity = q,
      booked_quote_price = booked, booking_basis = b\<rparr> = Inr ()" for n q b
    using booked by (simp add: attribution_post_init_def guard_simps)
  then have slices: "map_result (\<lambda>(request, quantity). construct attribution_post_init
      \<lparr>attributed_strategy_id = request_strategy_id request, attributed_base_quantity = quantity,
       booked_quote_price = booked, booking_basis = basis_of net\<rparr>)
      (zip requests (map (slice_of requests ?adjustment) requests)) =
    Inr (attributions (plan_of i requests net booked))"
    unfolding plan_of_def Let_def net_order_plan.simps
    by (intro map_result_zip_map) (simp add: construct_def)
  have crossed: "residual_for i crossed booked (basis_of net) =
      Inr (if 0 < crossed then Some \<lparr>residual_symbol = symbol i,
          residual_crossed_base_quantity = crossed,
          residual_booked_quote_price = booked,
          residual_booking_basis = basis_of net, residual_account = CROSSING_RESIDUAL_ACCOUNT\<rparr>
        else None)" for crossed
    by (simp add: residual_for_def construct_def crossing_residual_post_init_def accepted_booked ensure_def
        run_checks.simps(2))
  have "net_requests i requests (dec reference) (dec mid) =
      Inr (plan_of i requests net booked)"
    using requests(1,2) 
    by (simp only: net_requests_def accepted and_then_simps Let_def raw(1) k(1) steps basis_of_def [symmetric] booked_def [symmetric]
        slices crossed if_False simp_thms)
      (simp add: plan_of_def Let_def crossed_of_def)
  note k this [unfolded booked_def]
  then show ?thesis unfolding net_def by (rule that)
qed


lemma attributed_sum:
  assumes "distinct (map request_strategy_id requests)" "exact_requests 1 requests" "on_lattice net"
    and "\<bar>net\<bar> \<le> \<bar>raw_net requests\<bar>" "0 \<le> raw_net requests * net"
  shows "attributed_signed_base_quantity (plan_of i requests net booked) = net"
proof -
  let ?slice = "slice_of requests (net - raw_net requests)"
  have lattice: "\<forall>r \<in> set requests. lattice_for 1 (requested_base_quantity r)"
    using assms(2) by (simp add: exact_requests_def)
  have adjustment: "lattice_for 1 (net - raw_net requests)"
    using assms(3) exact_requests_raw(3) [OF assms(2)] by auto
  have "(\<Sum>r\<leftarrow>requests. \<bar>?slice r\<bar>) \<le> (\<Sum>r\<leftarrow>requests. \<bar>requested_base_quantity r\<bar>)"
    by (rule sum_list_mono) (rule slice_bounds(1) [OF assms(1)])
  then have small: "(\<Sum>r\<leftarrow>requests. \<bar>?slice r\<bar>) < 10 ^ 20"
    using assms(2) by (simp add: exact_requests_def)
  have "dsum (map ?slice requests) = sum_list (map ?slice requests)"
    by (rule dsum_exact) (use slice_lattice [OF lattice adjustment] small in \<open>auto simp: o_def\<close>)
  also have "\<dots> = raw_net requests + (net - raw_net requests)"
    unfolding raw_net_def
    by (rule slice_sum [OF assms(1)]) (use surplus_enough [of net requests] assms(4,5) in \<open>simp add: raw_net_def\<close>)
  finally show ?thesis by (simp add: attributed_signed_base_quantity_def plan_of_def Let_def o_def)
qed

lemma residual_zero:
  assumes "distinct (map request_strategy_id requests)" "exact_requests booked requests" "lattice_for booked net"
    and "(\<Sum>r\<leftarrow>requests. \<bar>requested_base_quantity r * booked\<bar>) < 10 ^ 20"
    and "\<bar>net\<bar> \<le> \<bar>raw_net requests\<bar>" "0 \<le> raw_net requests * net"
  shows "crossing_residual_at_decision_quote (plan_of i requests net booked) = 0"
proof -
  let ?slice = "slice_of requests (net - raw_net requests)"
  have lattice: "\<forall>r \<in> set requests. lattice_for booked (requested_base_quantity r)"
    using assms(2) by (simp add: exact_requests_def)
  have "lattice_for booked (net - raw_net requests)"
    using assms(3) exact_requests_raw(3) [OF assms(2)] by auto
  note slices = slice_lattice [OF lattice this]
  have le: "\<bar>?slice r * booked\<bar> \<le> \<bar>requested_base_quantity r * booked\<bar>" if "r \<in> set requests" for r
    using slice_bounds(1) [OF assms(1) that] by (simp add: abs_mult mult_right_mono)
  then have "(\<Sum>r\<leftarrow>requests. \<bar>?slice r * booked\<bar>) \<le> (\<Sum>r\<leftarrow>requests. \<bar>requested_base_quantity r * booked\<bar>)"
    by (rule sum_list_mono)
  then have small: "(\<Sum>r\<leftarrow>requests. \<bar>?slice r * booked\<bar>) < 10 ^ 20" using assms(4) by simp
  have sum: "(\<Sum>r\<leftarrow>requests. ?slice r * booked) = net * booked"
    using slice_sum [OF assms(1), of "net - raw_net requests"] surplus_enough [of net requests] assms(5,6)
    by (simp add: raw_net_def sum_list_mult_const)
  have exact: "dmul (?slice r) booked = ?slice r * booked" if "r \<in> set requests" for r
  proof -
    have "\<bar>?slice r * booked\<bar> \<le> (\<Sum>r\<leftarrow>requests. \<bar>?slice r * booked\<bar>)"
      using that by (intro member_le_sum_list) auto
    then show ?thesis
      using slices [OF that] small by (simp add: dmul_def lattice_exact lattice_for_def)
  qed
  have "attributed_signed_notional_quote (plan_of i requests net booked) = dsum (map (\<lambda>r. ?slice r * booked) requests)"
    by (auto simp: attributed_signed_notional_quote_def plan_of_def Let_def o_def signed_notional_quote_def exact
        intro!: arg_cong [where f = dsum])
  also have "\<dots> = net * booked"
    unfolding sum [symmetric]
    by (rule dsum_exact) (use slices small in \<open>auto simp: o_def lattice_for_def\<close>)
  moreover have "\<bar>net * booked\<bar> < 10 ^ 20"
    using sum_list_abs [of "map (\<lambda>r. ?slice r * booked) requests"] small by (simp add: sum o_def)
  then have "dmul net booked = net * booked" 
    using assms(3) by (simp add: dmul_def lattice_exact lattice_for_def)
  ultimately show ?thesis
    by (simp add: crossing_residual_at_decision_quote_def venue_signed_notional_quote_def plan_of_def Let_def dsub_def)
qed

lemma slice_perm:
  assumes "mset requests = mset requests'" and "distinct (map request_strategy_id requests)"
  shows "slice_of requests adjustment = slice_of requests' adjustment"
  using surplus_requests_perm [OF assms] by (intro ext) (simp add: slice_of_def taken_off_def)


lemma crossed_of_perm:
  assumes "mset xs = mset ys" and "\<forall>x \<in> set xs. on_lattice x" and "(\<Sum>x\<leftarrow>xs. \<bar>x\<bar>) < 10 ^ 20"
  shows "crossed_of xs = crossed_of ys"
proof -
  have sums: "dsum (filter P xs) = dsum (filter P ys)" for P
  proof -
    have exact: "dsum (filter P zs) = sum_list (filter P zs)" if "mset xs = mset zs" for zs
    proof (rule dsum_exact)
      have "set zs = set xs" using mset_eq_setD [OF that] by simp
      then show "\<And>x. x \<in> set (filter P zs) \<Longrightarrow> on_lattice x" using assms(2) by auto
      have "(\<Sum>x\<leftarrow>filter P zs. \<bar>x\<bar>) \<le> (\<Sum>x\<leftarrow>zs. \<bar>x\<bar>)" by (induction zs) auto
      also have "(\<Sum>x\<leftarrow>zs. \<bar>x\<bar>) = (\<Sum>x\<leftarrow>xs. \<bar>x\<bar>)" using that by (simp flip: sum_mset_sum_list)
      finally show "(\<Sum>x\<leftarrow>filter P zs. \<bar>x\<bar>) < 10 ^ 20" using assms(3) by simp
    qed
    have "sum_list (filter P xs) = sum_list (filter P ys)"
      using assms(1) by (simp flip: sum_mset_sum_list)
    then show ?thesis using exact [of xs] exact [OF assms(1)] by simp
  qed
  show ?thesis by (simp add: crossed_of_def sums)
qed

lemma exact_requests_perm:
  "mset requests = mset requests' \<Longrightarrow> exact_requests p requests \<Longrightarrow> exact_requests p requests'"
  by (auto simp: exact_requests_def simp flip: sum_mset_sum_list dest: mset_eq_setD)

lemma exact_requests_one: "exact_requests p requests \<Longrightarrow> exact_requests 1 requests"
  by (simp add: exact_requests_def lattice_for_def)

lemma plan_of_perm:
  assumes "mset requests = mset requests'" and ids: "distinct (map request_strategy_id requests)"
    and "exact_requests 1 requests" and "on_lattice net"
  shows "plan_of i requests' net booked =
    (plan_of i requests net booked)\<lparr>attributions := attributions (plan_of i requests' net booked)\<rparr>"
    and "mset (attributions (plan_of i requests' net booked)) = mset (attributions (plan_of i requests net booked))"
    and "raw_net requests' = raw_net requests"
proof -
  show raw: "raw_net requests' = raw_net requests"
    using assms(1) by (simp add: raw_net_def flip: sum_mset_sum_list)
  let ?slice = "slice_of requests (net - raw_net requests)"
  have slice: "slice_of requests' (net - raw_net requests) = ?slice" using slice_perm [OF assms(1,2)] by simp
  have "\<forall>r \<in> set requests. lattice_for 1 (requested_base_quantity r)"
    using assms(3) by (simp add: exact_requests_def)
  moreover have "lattice_for 1 (net - raw_net requests)"
    using assms(4) exact_requests_raw(3) [OF assms(3)] by auto
  ultimately have "\<forall>x \<in> set (map ?slice requests). on_lattice x" using slice_lattice [of requests 1] by (fastforce simp: lattice_for_def)
  moreover have "(\<Sum>r\<leftarrow>requests. \<bar>?slice r\<bar>) \<le> (\<Sum>r\<leftarrow>requests. \<bar>requested_base_quantity r\<bar>)"
    by (rule sum_list_mono) (rule slice_bounds(1) [OF ids])
  then have "(\<Sum>x\<leftarrow>map ?slice requests. \<bar>x\<bar>) < 10 ^ 20"
    using assms(3) by (simp add: exact_requests_def o_def)
  moreover have "mset (map ?slice requests) = mset (map ?slice requests')" using assms(1) by simp
  ultimately have "crossed_of (map ?slice requests') = crossed_of (map ?slice requests)"
    using crossed_of_perm by metis
  then show "plan_of i requests' net booked =
    (plan_of i requests net booked)\<lparr>attributions := attributions (plan_of i requests' net booked)\<rparr>"
    by (simp add: plan_of_def Let_def raw slice)
  show "mset (attributions (plan_of i requests' net booked)) = mset (attributions (plan_of i requests net booked))"
    using assms(1) by (simp add: plan_of_def Let_def raw slice)
qed

definition example_requests :: "strategy_request list" where
  "example_requests =
     [\<lparr>request_strategy_id = ''alpha'', requested_base_quantity = 1004 / 1000\<rparr>,
      \<lparr>request_strategy_id = ''beta'', requested_base_quantity = - 300 / 1000\<rparr>]"

lemma example_requests_ok:
  "example_requests \<noteq> []" "distinct (map request_strategy_id example_requests)"
  "exact_requests 1 example_requests" "exact_requests 100 example_requests" "exact_requests 101 example_requests"
  unfolding example_requests_def exact_requests_def lattice_for_def on_lattice_def by code_simp+

section \<open>Properties\<close>

text \<open>
  C34. Attribution sums to reality. For an accepted instrument and requests on the
  NUMERIC(38, 18) lattice, netting never raises: the net order is a whole multiple of the
  lot step, no larger than the requests' sum and less than one step away from it; every
  request is attributed one slice, on its own side and no larger than it asked for, at one
  price and basis; and the slices sum to the net order exactly.
\<close>

theorem attributions_sum_to_the_net_order:
  assumes "valid_instrument i" "snappable (lot_step i)"
    and "requests \<noteq> []" "distinct (map request_strategy_id requests)" "exact_requests 1 requests"
    and "0 < reference" "0 < mid"
  shows "\<exists>p k. net_requests i requests (dec reference) (dec mid) = Inr p \<and>
    net_signed_base_quantity p = of_int k * lot_step i \<and>
    \<bar>net_signed_base_quantity p\<bar> \<le> \<bar>raw_net requests\<bar> \<and>
    \<bar>raw_net requests - net_signed_base_quantity p\<bar> < lot_step i \<and>
    list_all2 (\<lambda>r a. attributed_strategy_id a = request_strategy_id r \<and>
      \<bar>attributed_base_quantity a\<bar> \<le> \<bar>requested_base_quantity r\<bar> \<and>
      0 \<le> attributed_base_quantity a * requested_base_quantity r \<and>
      booked_quote_price a = (if has_venue_portion p then reference else mid) \<and>
      booking_basis a = (if has_venue_portion p then VENUE_VWAP else DECISION_MID)) requests (attributions p) \<and>
    attributed_signed_base_quantity p = net_signed_base_quantity p"
proof -
  obtain k where k: "\<bar>of_int k * lot_step i\<bar> \<le> \<bar>raw_net requests\<bar>"
      "\<bar>raw_net requests - of_int k * lot_step i\<bar> < lot_step i"
      "0 \<le> raw_net requests * (of_int k * lot_step i)"
    and plan: "net_requests i requests (dec reference) (dec mid) =
      Inr (plan_of i requests (of_int k * lot_step i) (if of_int k * lot_step i \<noteq> 0 then reference else mid))"
      (is "_ = Inr ?p")
    using net_requests_plan [OF assms] by blast
  have "on_lattice (of_int k * lot_step i)" using assms(2) by (auto simp: snappable_def)
  then have "attributed_signed_base_quantity ?p = of_int k * lot_step i"
    using k by (intro attributed_sum [OF assms(4,5)]) auto
  then have "net_signed_base_quantity ?p = of_int k * lot_step i \<and>
    \<bar>net_signed_base_quantity ?p\<bar> \<le> \<bar>raw_net requests\<bar> \<and>
    \<bar>raw_net requests - net_signed_base_quantity ?p\<bar> < lot_step i \<and>
    attributed_signed_base_quantity ?p = net_signed_base_quantity ?p"
    using k by (simp add: plan_of_def Let_def)
  moreover have "list_all2 (\<lambda>r a. attributed_strategy_id a = request_strategy_id r \<and>
      \<bar>attributed_base_quantity a\<bar> \<le> \<bar>requested_base_quantity r\<bar> \<and>
      0 \<le> attributed_base_quantity a * requested_base_quantity r \<and>
      booked_quote_price a = (if has_venue_portion ?p then reference else mid) \<and>
      booking_basis a = (if has_venue_portion ?p then VENUE_VWAP else DECISION_MID)) requests (attributions ?p)"
    using slice_bounds [OF assms(4)]
    by (auto simp: plan_of_def Let_def list_all2_map2 list_all2_same has_venue_portion_def basis_of_def)
  ultimately show ?thesis using plan by blast
qed

theorem attributions_sum_to_the_net_order_witness:
  "\<exists>p k. net_requests btcusdt example_requests (dec 100) (dec 101) = Inr p \<and>
    net_signed_base_quantity p = of_int k * (5 / 1000) \<and> \<bar>704 / 1000 - net_signed_base_quantity p\<bar> < 5 / 1000 \<and>
    attributed_signed_base_quantity p = net_signed_base_quantity p"
  using attributions_sum_to_the_net_order [OF btcusdt_valid btcusdt_snappable(1) example_requests_ok(1-3),
      of 100 101]
  by (auto simp: raw_net_def example_requests_def btcusdt_def)

text \<open>
  No synthetic price. When the requests and the lot, valued at either price, stay on
  the lattice, the attributed value minus the venue's value at decision time is zero, for a
  partial and for a perfect cross; with a venue portion nothing is charged to the residual
  account later either.
\<close>

theorem decision_residual_is_zero:
  assumes "valid_instrument i" "snappable (lot_step i)"
    and "requests \<noteq> []" "distinct (map request_strategy_id requests)"
    and "0 < reference" "0 < mid"
    and "\<forall>p \<in> {reference, mid}. exact_requests p requests \<and> lattice_for p (lot_step i) \<and>
      (\<Sum>r\<leftarrow>requests. \<bar>requested_base_quantity r * p\<bar>) < 10 ^ 20"
  shows "\<exists>p. net_requests i requests (dec reference) (dec mid) = Inr p \<and>
    crossing_residual_at_decision_quote p = 0 \<and>
    (\<forall>c. residual p = Some c \<longrightarrow> has_venue_portion p \<longrightarrow> settle_against c observed = Inr 0)"
proof -
  have exact: "exact_requests 1 requests" using assms(7) exact_requests_one by blast
  obtain k where k: "\<bar>of_int k * lot_step i\<bar> \<le> \<bar>raw_net requests\<bar>"
      "0 \<le> raw_net requests * (of_int k * lot_step i)"
    and plan: "net_requests i requests (dec reference) (dec mid) =
      Inr (plan_of i requests (of_int k * lot_step i) (if of_int k * lot_step i \<noteq> 0 then reference else mid))"
      (is "_ = Inr ?p")
    using net_requests_plan [OF assms(1-4) exact assms(5,6)] by blast
  have "crossing_residual_at_decision_quote ?p = 0"
    using assms(7) k by (intro residual_zero [OF assms(4)]) auto
  moreover have "\<forall>c. residual ?p = Some c \<longrightarrow> has_venue_portion ?p \<longrightarrow> settle_against c observed = Inr 0"
    by (simp add: plan_of_def Let_def has_venue_portion_def settle_against_def basis_of_def)
  ultimately show ?thesis using plan by blast
qed

theorem decision_residual_is_zero_witness:
  "\<exists>p. net_requests btcusdt example_requests (dec 100) (dec 101) = Inr p \<and>
    crossing_residual_at_decision_quote p = 0"
proof -
  have "\<forall>p \<in> {100, 101}. exact_requests p example_requests \<and> lattice_for p (lot_step btcusdt) \<and>
      (\<Sum>r\<leftarrow>example_requests. \<bar>requested_base_quantity r * p\<bar>) < 10 ^ 20"
    using example_requests_ok(4,5) unfolding lattice_for_def on_lattice_def
    by (auto simp: example_requests_def btcusdt_def)
  from decision_residual_is_zero [OF btcusdt_valid btcusdt_snappable(1) example_requests_ok(1,2) _ _ this]
  show ?thesis by auto
qed

text \<open>
  C35. Attribution is a pure function of the batch: presenting the requests in another
  order changes nothing but the order of the attributions.
\<close>

theorem netting_order_irrelevant:
  assumes "valid_instrument i" "snappable (lot_step i)"
    and "requests \<noteq> []" "distinct (map request_strategy_id requests)" "exact_requests 1 requests"
    and "0 < reference" "0 < mid" and "mset requests = mset requests'"
  shows "\<exists>p p'. net_requests i requests (dec reference) (dec mid) = Inr p \<and>
    net_requests i requests' (dec reference) (dec mid) = Inr p' \<and>
    p' = p\<lparr>attributions := attributions p'\<rparr> \<and> mset (attributions p') = mset (attributions p)"
proof -
  have raw: "raw_net requests' = raw_net requests"
    using assms(8) by (simp add: raw_net_def flip: sum_mset_sum_list)
  have ids: "distinct (map request_strategy_id requests')"
    using assms(4) mset_eq_imp_distinct_iff [of "map request_strategy_id requests"] assms(8) by simp
  have others: "requests' \<noteq> []" "exact_requests 1 requests'"
    using assms(3,8) exact_requests_perm [OF assms(8,5)] by auto
  obtain k where k: "quantize_base_quantity i (raw_net requests) = Inr (of_int k * lot_step i)"
    and plan: "net_requests i requests (dec reference) (dec mid) =
      Inr (plan_of i requests (of_int k * lot_step i) (if of_int k * lot_step i \<noteq> 0 then reference else mid))"
    using net_requests_plan [OF assms(1-7)] by blast
  obtain k' where k': "quantize_base_quantity i (raw_net requests') = Inr (of_int k' * lot_step i)"
    and plan': "net_requests i requests' (dec reference) (dec mid) =
      Inr (plan_of i requests' (of_int k' * lot_step i) (if of_int k' * lot_step i \<noteq> 0 then reference else mid))"
    using net_requests_plan [OF assms(1,2) others(1) ids others(2) assms(6,7)] by blast
  have "of_int k' * lot_step i = of_int k * lot_step i" using k k' raw by auto
  note plan' = plan' [unfolded this]
  have "on_lattice (of_int k * lot_step i)" using assms(2) by (auto simp: snappable_def)
  from plan_of_perm(1,2) [OF assms(8,4,5) this] plan plan' show ?thesis by blast
qed

theorem netting_order_irrelevant_witness:
  "\<exists>p p'. net_requests btcusdt example_requests (dec 100) (dec 101) = Inr p \<and>
    net_requests btcusdt (rev example_requests) (dec 100) (dec 101) = Inr p' \<and>
    net_signed_base_quantity p' = net_signed_base_quantity p"
proof -
  obtain p p' where "net_requests btcusdt example_requests (dec 100) (dec 101) = Inr p"
    "net_requests btcusdt (rev example_requests) (dec 100) (dec 101) = Inr p'"
    and eq: "p' = p\<lparr>attributions := attributions p'\<rparr>"
    using netting_order_irrelevant [OF btcusdt_valid btcusdt_snappable(1) example_requests_ok(1-3),
        of 100 101 "rev example_requests"] by auto
  moreover have "net_signed_base_quantity p' = net_signed_base_quantity p" by (subst eq) simp
  ultimately show ?thesis by blast
qed

end
