(* ===== verification/Throttle.thy ===== *)
theory Throttle
  imports Orders
begin

text \<open>
  \<open>src/fking/execution/throttle.py\<close>: admission control for one venue's request budget, with
  the fields of \<open>venue_profile.py\<close> it reads. The two injected clocks are streams of readings:
  the n-th call of the monotonic clock returns \<open>monotonic c n\<close>, and the state counts the
  calls. Readings are rational seconds; the rounding of the floats that carry them is not
  modelled. The invariant relates the order slots a governor keeps to the whole history of
  orders it admitted.
\<close>

section \<open>Request classes, costs and profiles\<close>

datatype request_class = ORDER | RECONCILIATION | MARKET_DATA | RESEARCH | BACKFILL

definition ORDER_WINDOW_SECONDS :: rat where "ORDER_WINDOW_SECONDS = 10"

definition WEIGHT_WINDOW_SECONDS :: rat where "WEIGHT_WINDOW_SECONDS = 60"

definition USED_WEIGHT_HEADER :: string where "USED_WEIGHT_HEADER = ''x-mbx-used-weight-1m''"

definition RETRY_AFTER_HEADER :: string where "RETRY_AFTER_HEADER = ''retry-after''"

primrec weight_ceiling_percent :: "request_class \<Rightarrow> int" where
  "weight_ceiling_percent ORDER = 100"
| "weight_ceiling_percent RECONCILIATION = 95"
| "weight_ceiling_percent MARKET_DATA = 90"
| "weight_ceiling_percent RESEARCH = 80"
| "weight_ceiling_percent BACKFILL = 80"

record endpoint_cost =
  request_weight :: int
  consumes_order_slot :: bool

datatype market = Spot | Futures

definition weighing :: "int \<Rightarrow> bool \<Rightarrow> endpoint_cost" where
  "weighing w slot = \<lparr>request_weight = w, consumes_order_slot = slot\<rparr>"

definition SPOT_ENDPOINT_COSTS :: "(string \<times> endpoint_cost) list" where
  "SPOT_ENDPOINT_COSTS =
     [(''publicGetExchangeInfo'', weighing 20 False),
      (''privateGetAccount'', weighing 20 False),
      (''privateGetOpenOrders'', weighing 80 False),
      (''privateGetMyTrades'', weighing 20 False),
      (''privatePostOrder'', weighing 1 True),
      (''privateDeleteOrder'', weighing 1 False),
      (''privatePostOrderCancelReplace'', weighing 1 True)]"

definition FUTURES_ENDPOINT_COSTS :: "(string \<times> endpoint_cost) list" where
  "FUTURES_ENDPOINT_COSTS =
     [(''fapiPublicGetExchangeInfo'', weighing 1 False),
      (''fapiPrivateV3GetBalance'', weighing 5 False),
      (''fapiPrivateV3GetPositionRisk'', weighing 5 False),
      (''fapiPrivateGetOpenOrders'', weighing 40 False),
      (''fapiPrivateGetUserTrades'', weighing 5 False),
      (''fapiPrivatePostOrder'', weighing 1 True),
      (''fapiPrivateDeleteOrder'', weighing 1 False),
      (''fapiPrivatePutOrder'', weighing 1 True)]"

primrec endpoint_costs :: "market \<Rightarrow> (string \<times> endpoint_cost) list" where
  "endpoint_costs Spot = SPOT_ENDPOINT_COSTS"
| "endpoint_costs Futures = FUTURES_ENDPOINT_COSTS"

record venue_profile =
  profile_venue_id :: venue
  profile_market :: market
  order_rate_per_10s :: nat
  request_weight_per_minute :: "int option"

text \<open>The bounds that the profile's fields declare: both budgets are positive.\<close>

definition venue_profile_valid :: "venue_profile \<Rightarrow> bool" where
  "venue_profile_valid p \<longleftrightarrow> 0 < order_rate_per_10s p \<and>
     (case request_weight_per_minute p of None \<Rightarrow> True | Some w \<Rightarrow> 0 < w)"

definition spot_testnet_profile :: venue_profile where
  "spot_testnet_profile = \<lparr>profile_venue_id = BINANCE_SPOT_TESTNET, profile_market = Spot,
     order_rate_per_10s = 50, request_weight_per_minute = Some 6000\<rparr>"

section \<open>What a response says about the budget\<close>

record response_metadata =
  response_http_status :: int
  response_headers :: "(string \<times> string) list"

record rate_limit_observation =
  observed_http_status :: int
  used_request_weight_1m :: "int option"
  retry_after_seconds :: "int option"
  malformed_headers :: "string list"

definition int_of_digits :: "string \<Rightarrow> int" where
  "int_of_digits s = foldl (\<lambda>n c. 10 * n + (of_char c - 48)) 0 s"

definition parse_non_negative_header ::
  "(string \<times> string) list \<Rightarrow> string \<Rightarrow> string list \<Rightarrow> int option \<times> string list" where
  "parse_non_negative_header headers name malformed =
     (case map_of headers name of
        None \<Rightarrow> (None, malformed)
      | Some raw \<Rightarrow>
          (let stripped = strip raw
           in if \<not> list_all is_ascii stripped \<or> \<not> (stripped \<noteq> [] \<and> list_all is_digit stripped)
              then (None, malformed @ [name])
              else (Some (int_of_digits stripped), malformed)))"

definition parse_rate_limit_headers :: "response_metadata \<Rightarrow> rate_limit_observation" where
  "parse_rate_limit_headers m =
     (let (used, malformed) = parse_non_negative_header (response_headers m) USED_WEIGHT_HEADER [];
          (retry, malformed') = parse_non_negative_header (response_headers m) RETRY_AFTER_HEADER malformed
      in \<lparr>observed_http_status = response_http_status m, used_request_weight_1m = used,
          retry_after_seconds = retry, malformed_headers = malformed'\<rparr>)"

section \<open>The governor\<close>

record rate_limit_incident =
  incident_venue_id :: venue
  incident_http_status :: int
  incident_observed_at_utc :: int
  incident_retry_after_seconds :: "int option"
  incident_used_request_weight_1m :: "int option"
  incident_reason :: string

record clocks =
  monotonic :: "nat \<Rightarrow> rat"
  wall_clock :: "nat \<Rightarrow> int"

record governor =
  governor_profile :: venue_profile
  clock_calls :: nat
  order_slots_used_at :: "rat list"
  weight_charged :: "(rat \<times> int) list"
  observed_used_weight :: "int option"
  observed_at_seconds :: "rat option"
  refuse_until_seconds :: "rat option"
  is_banned :: bool
  incidents :: "rate_limit_incident list"

definition governor_init :: "venue_profile \<Rightarrow> governor" where
  "governor_init p = \<lparr>governor_profile = p, clock_calls = 0, order_slots_used_at = [],
     weight_charged = [], observed_used_weight = None, observed_at_seconds = None,
     refuse_until_seconds = None, is_banned = False, incidents = []\<rparr>"

definition monotonic_seconds :: "clocks \<Rightarrow> governor \<Rightarrow> rat \<times> governor" where
  "monotonic_seconds c g = (monotonic c (clock_calls g), g\<lparr>clock_calls := clock_calls g + 1\<rparr>)"

definition expire :: "rat \<Rightarrow> governor \<Rightarrow> governor" where
  "expire now_seconds g =
     (let order_floor = now_seconds - ORDER_WINDOW_SECONDS;
          weight_floor = now_seconds - WEIGHT_WINDOW_SECONDS;
          g = g\<lparr>order_slots_used_at := dropWhile (\<lambda>t. t \<le> order_floor) (order_slots_used_at g),
                weight_charged := dropWhile (\<lambda>(t, _). t \<le> weight_floor) (weight_charged g)\<rparr>
      in case observed_at_seconds g of
           Some t \<Rightarrow> if t \<le> weight_floor
             then g\<lparr>observed_used_weight := None, observed_at_seconds := None\<rparr> else g
         | None \<Rightarrow> g)"

definition weight_estimate :: "governor \<Rightarrow> int" where
  "weight_estimate g =
     (let local_total = sum_list (map snd (weight_charged g))
      in case (observed_used_weight g, observed_at_seconds g) of
           (Some used, Some seen_at) \<Rightarrow>
             max local_total (used + sum_list (map snd (filter (\<lambda>(t, _). t \<ge> seen_at) (weight_charged g))))
         | _ \<Rightarrow> local_total)"

definition used_request_weight :: "clocks \<Rightarrow> governor \<Rightarrow> int \<times> governor" where
  "used_request_weight c g =
     (let (now_seconds, g) = monotonic_seconds c g; g = expire now_seconds g
      in (weight_estimate g, g))"

definition orders_in_window :: "clocks \<Rightarrow> governor \<Rightarrow> nat \<times> governor" where
  "orders_in_window c g =
     (let (now_seconds, g) = monotonic_seconds c g; g = expire now_seconds g
      in (length (order_slots_used_at g), g))"

definition publish_weight_utilisation :: "clocks \<Rightarrow> governor \<Rightarrow> governor" where
  "publish_weight_utilisation c g =
     (case request_weight_per_minute (governor_profile g) of
        None \<Rightarrow> g
      | Some _ \<Rightarrow> snd (used_request_weight c g))"

definition refuse_if_cooling_down :: "rat \<Rightarrow> governor \<Rightarrow> governor \<times> unit result" where
  "refuse_if_cooling_down now_seconds g =
     (case refuse_until_seconds g of
        None \<Rightarrow> (g, Inr ())
      | Some until \<Rightarrow>
          if now_seconds \<ge> until then (g\<lparr>refuse_until_seconds := None\<rparr>, Inr ())
          else (g, Inl (RateBudgetExhausted ''retry_after_cooldown'' (until - now_seconds))))"

definition refuse_if_order_rate_exhausted :: "rat \<Rightarrow> governor \<Rightarrow> unit result" where
  "refuse_if_order_rate_exhausted now_seconds g =
     (if length (order_slots_used_at g) < order_rate_per_10s (governor_profile g) then Inr ()
      else Inl (RateBudgetExhausted ''order_rate''
        (hd (order_slots_used_at g) + ORDER_WINDOW_SECONDS - now_seconds)))"

definition refuse_if_weight_exhausted ::
  "clocks \<Rightarrow> request_class \<Rightarrow> endpoint_cost \<Rightarrow> rat \<Rightarrow> governor \<Rightarrow> governor \<times> unit result" where
  "refuse_if_weight_exhausted c request_class cost now_seconds g =
     (case request_weight_per_minute (governor_profile g) of
        None \<Rightarrow> (g, Inr ())
      | Some budget \<Rightarrow>
          (let shed_above = budget * weight_ceiling_percent request_class div 100;
               (used, g) = used_request_weight c g;
               projected = used + request_weight cost
           in if projected \<le> shed_above then (g, Inr ())
              else
                (let oldest = (case weight_charged g of (t, _) # _ \<Rightarrow> Some t | [] \<Rightarrow> observed_at_seconds g)
                 in (g, Inl (RateBudgetExhausted ''request_weight''
                      (case oldest of Some t \<Rightarrow> t + WEIGHT_WINDOW_SECONDS - now_seconds
                       | None \<Rightarrow> WEIGHT_WINDOW_SECONDS))))))"

definition charge :: "clocks \<Rightarrow> endpoint_cost \<Rightarrow> rat \<Rightarrow> governor \<Rightarrow> governor" where
  "charge c cost now_seconds g =
     publish_weight_utilisation c
       (g\<lparr>order_slots_used_at := order_slots_used_at g @ (if consumes_order_slot cost then [now_seconds] else []),
          weight_charged := weight_charged g @ [(now_seconds, request_weight cost)]\<rparr>)"

definition admit :: "clocks \<Rightarrow> request_class \<Rightarrow> endpoint_cost \<Rightarrow> governor \<Rightarrow> governor \<times> unit result" where
  "admit c request_class cost g =
     (if is_banned g then (g, Inl VenueIpBannedError)
      else
        (let (now_seconds, g) = monotonic_seconds c g;
             (g, cooled) = refuse_if_cooling_down now_seconds (expire now_seconds g)
         in case cooled of Inl e \<Rightarrow> (g, Inl e) | Inr _ \<Rightarrow>
           (case (if consumes_order_slot cost then refuse_if_order_rate_exhausted now_seconds g else Inr ()) of
              Inl e \<Rightarrow> (g, Inl e)
            | Inr _ \<Rightarrow>
                (case refuse_if_weight_exhausted c request_class cost now_seconds g of
                   (g, Inl e) \<Rightarrow> (g, Inl e)
                 | (g, Inr _) \<Rightarrow> (charge c cost now_seconds g, Inr ())))))"

definition assume_budget_spent :: "rat \<Rightarrow> governor \<Rightarrow> governor" where
  "assume_budget_spent now_seconds g =
     (case request_weight_per_minute (governor_profile g) of
        None \<Rightarrow> g
      | Some budget \<Rightarrow> g\<lparr>observed_used_weight := Some budget, observed_at_seconds := Some now_seconds\<rparr>)"

definition incident_of :: "clocks \<Rightarrow> governor \<Rightarrow> rate_limit_observation \<Rightarrow> string \<Rightarrow> rate_limit_incident" where
  "incident_of c g ob reason =
     \<lparr>incident_venue_id = profile_venue_id (governor_profile g), incident_http_status = observed_http_status ob,
      incident_observed_at_utc = wall_clock c (length (incidents g)),
      incident_retry_after_seconds = retry_after_seconds ob,
      incident_used_request_weight_1m = used_request_weight_1m ob, incident_reason = reason\<rparr>"

definition record_ban :: "clocks \<Rightarrow> rate_limit_observation \<Rightarrow> governor \<Rightarrow> governor" where
  "record_ban c ob g = g\<lparr>is_banned := True, incidents := incidents g @ [incident_of c g ob ''ip_banned'']\<rparr>"

definition record_throttle_breach :: "clocks \<Rightarrow> rate_limit_observation \<Rightarrow> rat \<Rightarrow> governor \<Rightarrow> governor" where
  "record_throttle_breach c ob now_seconds g =
     (let cooldown_seconds = (case retry_after_seconds ob of Some s \<Rightarrow> of_int s | None \<Rightarrow> WEIGHT_WINDOW_SECONDS);
          reason = (case retry_after_seconds ob of Some _ \<Rightarrow> ''retry_after'' | None \<Rightarrow> ''no_retry_after'')
      in g\<lparr>refuse_until_seconds := Some (now_seconds + cooldown_seconds),
           incidents := incidents g @ [incident_of c g ob reason]\<rparr>)"

definition observe :: "clocks \<Rightarrow> response_metadata \<Rightarrow> governor \<Rightarrow> governor" where
  "observe c m g =
     (let ob = parse_rate_limit_headers m;
          (now_seconds, g) = monotonic_seconds c g;
          g = (if USED_WEIGHT_HEADER \<in> set (malformed_headers ob) then assume_budget_spent now_seconds g
               else (case used_request_weight_1m ob of
                       Some used \<Rightarrow> publish_weight_utilisation c
                         (g\<lparr>observed_used_weight := Some used, observed_at_seconds := Some now_seconds\<rparr>)
                     | None \<Rightarrow> g))
      in if observed_http_status ob = 418 then record_ban c ob g
         else if observed_http_status ob = 429 then record_throttle_breach c ob now_seconds g
         else g)"

section \<open>The view that one owner calls\<close>

text \<open>
  A call through a \<open>ThrottledExchange\<close> is two steps of the governor with the venue's answer
  between them: the admission, before the first \<open>await\<close>, and the observation of the
  response, in \<open>finally\<close>. Calls of other owners interleave at the \<open>await\<close>, so a run of the
  governor is any sequence of such steps and of queries.
\<close>

definition cost_of :: "market \<Rightarrow> request_class \<Rightarrow> string \<Rightarrow> endpoint_cost result" where
  "cost_of m request_class endpoint =
     (case map_of (endpoint_costs m) endpoint of
        None \<Rightarrow> Inl (ThrottleConfigurationError ''no declared weight'')
      | Some cost \<Rightarrow>
          if consumes_order_slot cost \<and> request_class \<noteq> ORDER
          then Inl (ThrottleConfigurationError ''an order outside the order path'')
          else Inr cost)"

definition begin_call :: "clocks \<Rightarrow> request_class \<Rightarrow> string \<Rightarrow> governor \<Rightarrow> governor \<times> unit result" where
  "begin_call c request_class endpoint g =
     (case cost_of (profile_market (governor_profile g)) request_class endpoint of
        Inl e \<Rightarrow> (g, Inl e)
      | Inr cost \<Rightarrow> admit c request_class cost g)"

definition end_call :: "clocks \<Rightarrow> response_metadata option \<Rightarrow> governor \<Rightarrow> governor" where
  "end_call c last_response_metadata g =
     (case last_response_metadata of None \<Rightarrow> g | Some m \<Rightarrow> observe c m g)"

datatype governor_event =
    BeginCall request_class string
  | EndCall "response_metadata option"
  | QueryOrders
  | QueryWeight

primrec governor_step :: "clocks \<Rightarrow> governor \<Rightarrow> governor_event \<Rightarrow> governor" where
  "governor_step c g (BeginCall request_class endpoint) = fst (begin_call c request_class endpoint g)"
| "governor_step c g (EndCall m) = end_call c m g"
| "governor_step c g QueryOrders = snd (orders_in_window c g)"
| "governor_step c g QueryWeight = snd (used_request_weight c g)"

text \<open>The orders that a run sent to the venue, by the reading they were admitted at.\<close>

definition order_admitted :: "clocks \<Rightarrow> governor \<Rightarrow> governor_event \<Rightarrow> rat list" where
  "order_admitted c g s =
     (case s of
        BeginCall request_class endpoint \<Rightarrow>
          (case (cost_of (profile_market (governor_profile g)) request_class endpoint,
                 snd (begin_call c request_class endpoint g)) of
             (Inr cost, Inr _) \<Rightarrow> if consumes_order_slot cost then [monotonic c (clock_calls g)] else []
           | _ \<Rightarrow> [])
      | _ \<Rightarrow> [])"

fun orders_sent :: "clocks \<Rightarrow> governor \<Rightarrow> governor_event list \<Rightarrow> rat list" where
  "orders_sent c g [] = []"
| "orders_sent c g (s # ss) = order_admitted c g s @ orders_sent c (governor_step c g s) ss"

section \<open>What a governor keeps of its history\<close>

text \<open>
  The order slots kept are the history of admissions without a part that is older than the
  window, and no window of ten seconds of the history holds more admissions than the rate.
\<close>

definition in_window :: "rat list \<Rightarrow> rat \<Rightarrow> nat" where
  "in_window history t = length (filter (\<lambda>h. t - ORDER_WINDOW_SECONDS < h \<and> h \<le> t) history)"

definition slots_kept :: "clocks \<Rightarrow> governor \<Rightarrow> rat list \<Rightarrow> bool" where
  "slots_kept c g history \<longleftrightarrow>
     (\<forall>h \<in> set history. h \<le> monotonic c (clock_calls g)) \<and>
     (\<exists>dropped. history = dropped @ order_slots_used_at g \<and>
        (\<forall>h \<in> set dropped. h \<le> monotonic c (clock_calls g) - ORDER_WINDOW_SECONDS)) \<and>
     (\<forall>t. in_window history t \<le> order_rate_per_10s (governor_profile g))"

lemma expire_simps [simp]:
  "order_slots_used_at (expire now g) = dropWhile (\<lambda>t. t \<le> now - ORDER_WINDOW_SECONDS) (order_slots_used_at g)"
  "clock_calls (expire now g) = clock_calls g" "governor_profile (expire now g) = governor_profile g"
  "is_banned (expire now g) = is_banned g" "refuse_until_seconds (expire now g) = refuse_until_seconds g"
  "incidents (expire now g) = incidents g"
  by (auto simp: expire_def Let_def split: option.splits)

lemma used_request_weight_simps [simp]:
  "order_slots_used_at (snd (used_request_weight c g)) =
    dropWhile (\<lambda>t. t \<le> monotonic c (clock_calls g) - ORDER_WINDOW_SECONDS) (order_slots_used_at g)"
  "clock_calls (snd (used_request_weight c g)) = clock_calls g + 1"
  "governor_profile (snd (used_request_weight c g)) = governor_profile g"
  "is_banned (snd (used_request_weight c g)) = is_banned g"
  "refuse_until_seconds (snd (used_request_weight c g)) = refuse_until_seconds g"
  by (simp_all add: used_request_weight_def monotonic_seconds_def Let_def)

lemma publish_simps [simp]:
  "governor_profile (publish_weight_utilisation c g) = governor_profile g"
  "is_banned (publish_weight_utilisation c g) = is_banned g"
  "refuse_until_seconds (publish_weight_utilisation c g) = refuse_until_seconds g"
  "clock_calls g \<le> clock_calls (publish_weight_utilisation c g)"
  by (simp_all add: publish_weight_utilisation_def split: option.splits)

lemma slots_kept_same:
  "order_slots_used_at h = order_slots_used_at g \<Longrightarrow> clock_calls h = clock_calls g \<Longrightarrow>
    governor_profile h = governor_profile g \<Longrightarrow> slots_kept c h history = slots_kept c g history"
  by (simp add: slots_kept_def)

lemma slots_kept_read:
  assumes clock: "mono (monotonic c)" and kept: "slots_kept c g history"
    and h: "clock_calls h = clock_calls g + 1" "governor_profile h = governor_profile g"
    and slots: "order_slots_used_at h = order_slots_used_at g \<or> order_slots_used_at h =
      dropWhile (\<lambda>t. t \<le> monotonic c (clock_calls g) - ORDER_WINDOW_SECONDS) (order_slots_used_at g)"
  shows "slots_kept c h history"
proof -
  let ?P = "\<lambda>t. t \<le> monotonic c (clock_calls g) - ORDER_WINDOW_SECONDS"
  have le: "monotonic c (clock_calls g) \<le> monotonic c (clock_calls g + 1)"
    using clock by (simp add: monoD)
  obtain dropped where dropped: "history = dropped @ order_slots_used_at g" "\<forall>h \<in> set dropped. ?P h"
    using kept by (auto simp: slots_kept_def)
  have "\<exists>dropped. history = dropped @ order_slots_used_at h \<and> (\<forall>h \<in> set dropped. ?P h)"
  proof (cases "order_slots_used_at h = order_slots_used_at g")
    case True
    with dropped show ?thesis by auto
  next
    case False
    with slots dropped show ?thesis
      by (intro exI [of _ "dropped @ takeWhile ?P (order_slots_used_at g)"]) (auto dest: set_takeWhileD)
  qed
  then obtain gone where "history = gone @ order_slots_used_at h" "\<forall>h \<in> set gone. ?P h" by blast
  then show ?thesis
    unfolding slots_kept_def h using kept le
    by (intro conjI exI [of _ gone]) (auto simp: slots_kept_def intro: order_trans)
qed

lemma slots_kept_publish:
  assumes "mono (monotonic c)" and "slots_kept c g history"
  shows "slots_kept c (publish_weight_utilisation c g) history"
  using assms slots_kept_read [OF assms, of "snd (used_request_weight c g)"]
  by (simp add: publish_weight_utilisation_def split: option.splits)

lemma in_window_snoc:
  assumes "length (filter (\<lambda>h. now - ORDER_WINDOW_SECONDS < h) history) < rate"
    and "\<forall>t. in_window history t \<le> rate"
  shows "in_window (history @ [now]) t \<le> rate"
proof (cases "now \<le> t")
  case True
  have "in_window history t \<le> length (filter (\<lambda>h. now - ORDER_WINDOW_SECONDS < h) history)"
    unfolding in_window_def using True by (induction history) auto
  then show ?thesis using assms(1) by (simp add: in_window_def)
next
  case False
  then show ?thesis using assms(2) by (simp add: in_window_def)
qed

lemma refuse_cooling_simps [simp]:
  "order_slots_used_at (fst (refuse_if_cooling_down now g)) = order_slots_used_at g"
  "clock_calls (fst (refuse_if_cooling_down now g)) = clock_calls g"
  "governor_profile (fst (refuse_if_cooling_down now g)) = governor_profile g"
  "is_banned (fst (refuse_if_cooling_down now g)) = is_banned g"
  by (simp_all add: refuse_if_cooling_down_def split: option.splits)

lemma refuse_weight_state:
  "fst (refuse_if_weight_exhausted c cls cost now g) =
     (case request_weight_per_minute (governor_profile g) of None \<Rightarrow> g | Some _ \<Rightarrow> snd (used_request_weight c g))"
  by (simp add: refuse_if_weight_exhausted_def Let_def split: option.splits prod.splits)

text \<open>The stages of an admission that is not refused by a ban.\<close>

definition read_at :: "clocks \<Rightarrow> governor \<Rightarrow> rat" where
  "read_at c g = monotonic c (clock_calls g)"

definition cooled_state :: "clocks \<Rightarrow> governor \<Rightarrow> governor" where
  "cooled_state c g =
     fst (refuse_if_cooling_down (read_at c g) (expire (read_at c g) (g\<lparr>clock_calls := clock_calls g + 1\<rparr>)))"

definition weighed_state :: "clocks \<Rightarrow> request_class \<Rightarrow> endpoint_cost \<Rightarrow> governor \<Rightarrow> governor" where
  "weighed_state c cls cost g = fst (refuse_if_weight_exhausted c cls cost (read_at c g) (cooled_state c g))"

lemma admit_cases:
  assumes "\<not> is_banned g"
  obtains (refused) e where "admit c cls cost g = (cooled_state c g, Inl e)"
  | (shed) e where "admit c cls cost g = (weighed_state c cls cost g, Inl e)"
  | (admitted) "admit c cls cost g = (charge c cost (read_at c g) (weighed_state c cls cost g), Inr ())"
      "consumes_order_slot cost \<Longrightarrow>
        length (order_slots_used_at (cooled_state c g)) < order_rate_per_10s (governor_profile g)"
      "\<And>until. refuse_until_seconds g = Some until \<Longrightarrow> until \<le> read_at c g"
      "snd (refuse_if_weight_exhausted c cls cost (read_at c g) (cooled_state c g)) = Inr ()"
proof -
  let ?read = "expire (read_at c g) (g\<lparr>clock_calls := clock_calls g + 1\<rparr>)"
  obtain r where cooled: "refuse_if_cooling_down (read_at c g) ?read = (cooled_state c g, r)"
    unfolding cooled_state_def by (metis prod.collapse)
  obtain w where weighed: "refuse_if_weight_exhausted c cls cost (read_at c g) (cooled_state c g) =
      (weighed_state c cls cost g, w)"
    unfolding weighed_state_def by (metis prod.collapse)
  have profile: "governor_profile (cooled_state c g) = governor_profile g"
    by (simp add: cooled_state_def)
  have until: "until \<le> read_at c g" if "r = Inr ()" "refuse_until_seconds g = Some until" for until
    using cooled that by (auto simp: refuse_if_cooling_down_def split: if_splits)
  have eq: "admit c cls cost g =
      (case r of Inl e \<Rightarrow> (cooled_state c g, Inl e) | Inr _ \<Rightarrow>
        (case (if consumes_order_slot cost then refuse_if_order_rate_exhausted (read_at c g) (cooled_state c g) else Inr ()) of
           Inl e \<Rightarrow> (cooled_state c g, Inl e)
         | Inr _ \<Rightarrow> (case w of Inl e \<Rightarrow> (weighed_state c cls cost g, Inl e)
             | Inr _ \<Rightarrow> (charge c cost (read_at c g) (weighed_state c cls cost g), Inr ()))))"
    using assms weighed cooled
    by (simp add: admit_def monotonic_seconds_def read_at_def [symmetric] split: sum.splits)
  show ?thesis
  proof (cases r)
    case (Inl e)
    then show ?thesis using eq refused by simp
  next
    case (Inr u)
    note r = this
    show ?thesis
    proof (cases "consumes_order_slot cost \<and> \<not> length (order_slots_used_at (cooled_state c g)) < order_rate_per_10s (governor_profile g)")
      case True
      then show ?thesis using eq r profile by (auto simp: refuse_if_order_rate_exhausted_def intro: refused)
    next
      case False
      then have "admit c cls cost g = (case w of Inl e \<Rightarrow> (weighed_state c cls cost g, Inl e)
          | Inr _ \<Rightarrow> (charge c cost (read_at c g) (weighed_state c cls cost g), Inr ()))"
        using eq r profile by (auto simp: refuse_if_order_rate_exhausted_def)
      then show ?thesis
        using False r until weighed by (cases w) (auto intro: shed admitted)
    qed
  qed
qed

lemma admit_kept:
  assumes clock: "mono (monotonic c)" and kept: "slots_kept c g history"
    and admit: "admit c cls cost g = (h, r)"
  shows "slots_kept c h (if r = Inr () \<and> consumes_order_slot cost then history @ [read_at c g] else history)"
    and "governor_profile h = governor_profile g"
proof -
  have slots: "order_slots_used_at (cooled_state c g) =
      dropWhile (\<lambda>t. t \<le> read_at c g - ORDER_WINDOW_SECONDS) (order_slots_used_at g)"
    "clock_calls (cooled_state c g) = clock_calls g + 1" "governor_profile (cooled_state c g) = governor_profile g"
    by (simp_all add: cooled_state_def)
  have cooled: "slots_kept c (cooled_state c g) history"
    by (rule slots_kept_read [OF clock kept slots(2,3)]) (simp add: slots(1) read_at_def)
  have weighed: "slots_kept c (weighed_state c cls cost g) history"
    "governor_profile (weighed_state c cls cost g) = governor_profile g"
    "clock_calls g + 1 \<le> clock_calls (weighed_state c cls cost g)"
    using cooled slots(2,3) slots_kept_read [OF clock cooled, of "snd (used_request_weight c (cooled_state c g))"]
    by (auto simp: weighed_state_def refuse_weight_state split: option.splits)
  have charged: "slots_kept c (charge c cost (read_at c g) (weighed_state c cls cost g))
      (if consumes_order_slot cost then history @ [read_at c g] else history)"
    if room: "consumes_order_slot cost \<Longrightarrow>
      length (order_slots_used_at (cooled_state c g)) < order_rate_per_10s (governor_profile g)"
    unfolding charge_def
  proof (rule slots_kept_publish [OF clock], cases "consumes_order_slot cost")
    case False
    then show "slots_kept c (weighed_state c cls cost g\<lparr>order_slots_used_at :=
        order_slots_used_at (weighed_state c cls cost g) @ (if consumes_order_slot cost then [read_at c g] else []),
        weight_charged := weight_charged (weighed_state c cls cost g) @ [(read_at c g, request_weight cost)]\<rparr>)
      (if consumes_order_slot cost then history @ [read_at c g] else history)"
      using weighed(1) by (simp add: slots_kept_def)
  next
    case True
    obtain dropped where dropped: "history = dropped @ order_slots_used_at g"
      "\<forall>h \<in> set dropped. h \<le> read_at c g - ORDER_WINDOW_SECONDS"
      using kept by (auto simp: slots_kept_def read_at_def)
    have "length (filter (\<lambda>h. read_at c g - ORDER_WINDOW_SECONDS < h) history) \<le> 
        length (order_slots_used_at (cooled_state c g))"
    proof -
      have "filter (\<lambda>h. read_at c g - ORDER_WINDOW_SECONDS < h) dropped = []"
        using dropped(2) by (auto simp: filter_empty_conv)
      moreover have "length (filter (\<lambda>h. a < h) xs) \<le> length (dropWhile (\<lambda>t. t \<le> a) xs)" for a :: rat and xs
        by (induction xs) auto
      ultimately show ?thesis using dropped(1) slots(1) by simp
    qed
    then have "in_window (history @ [read_at c g]) t \<le> order_rate_per_10s (governor_profile g)" for t
      using room [OF True] kept by (intro in_window_snoc) (auto simp: slots_kept_def)
    moreover have "read_at c g \<le> monotonic c (clock_calls (weighed_state c cls cost g))"
      using clock weighed(3) by (simp add: read_at_def monoD)
    ultimately show "slots_kept c (weighed_state c cls cost g\<lparr>order_slots_used_at :=
        order_slots_used_at (weighed_state c cls cost g) @ (if consumes_order_slot cost then [read_at c g] else []),
        weight_charged := weight_charged (weighed_state c cls cost g) @ [(read_at c g, request_weight cost)]\<rparr>)
      (if consumes_order_slot cost then history @ [read_at c g] else history)"
      using weighed(1,2) True by (auto simp: slots_kept_def)
  qed
  show "slots_kept c h (if r = Inr () \<and> consumes_order_slot cost then history @ [read_at c g] else history)"
  proof (cases "is_banned g")
    case True
    then show ?thesis using admit kept by (auto simp: admit_def)
  next
    case False
    then show ?thesis
      by (cases rule: admit_cases [of g c cls cost]) (use admit cooled weighed(1) charged in auto)
  qed
  show "governor_profile h = governor_profile g"
  proof (cases "is_banned g")
    case True
    then show ?thesis using admit by (auto simp: admit_def)
  next
    case False
    then show ?thesis
      by (cases rule: admit_cases [of g c cls cost]) (use admit slots(3) weighed(2) in \<open>auto simp: charge_def\<close>)
  qed
qed


lemma observe_simps [simp]:
  "governor_profile (observe c m g) = governor_profile g"
  "is_banned (observe c m g) \<longleftrightarrow> is_banned g \<or> response_http_status m = 418"
  by (auto simp: observe_def Let_def monotonic_seconds_def parse_rate_limit_headers_def assume_budget_spent_def
      record_ban_def record_throttle_breach_def split: prod.splits option.splits)

lemma observe_kept:
  assumes clock: "mono (monotonic c)" and kept: "slots_kept c g history"
  shows "slots_kept c (observe c m g) history"
proof -
  let ?read = "g\<lparr>clock_calls := clock_calls g + 1\<rparr>"
  have read: "slots_kept c ?read history" by (rule slots_kept_read [OF clock kept]) simp_all
  have spent: "slots_kept c (assume_budget_spent now ?read) history" for now
    using read by (auto simp: assume_budget_spent_def slots_kept_def split: option.splits)
  have heard: "slots_kept c (publish_weight_utilisation c
      (?read\<lparr>observed_used_weight := Some used, observed_at_seconds := Some now\<rparr>)) history" for used now
    by (rule slots_kept_publish [OF clock]) (use read in \<open>simp add: slots_kept_def\<close>)
  have last: "slots_kept c (if s = 418 then record_ban c ob h
      else if s = 429 then record_throttle_breach c ob now h else h) history"
    if "slots_kept c h history" for h now s ob
    using that by (auto simp: record_ban_def record_throttle_breach_def Let_def slots_kept_def)
  show ?thesis
    unfolding observe_def Let_def monotonic_seconds_def prod.case
    by (rule last) (auto simp: read [simplified] spent [simplified] heard [simplified] split: option.splits)
qed

lemma query_kept:
  assumes "mono (monotonic c)" and "slots_kept c g history"
  shows "slots_kept c (snd (orders_in_window c g)) history" "slots_kept c (snd (used_request_weight c g)) history"
  by (rule slots_kept_read [OF assms]; simp add: orders_in_window_def monotonic_seconds_def Let_def)+

lemma governor_step_kept:
  assumes "mono (monotonic c)" and "slots_kept c g history"
  shows "slots_kept c (governor_step c g s) (history @ order_admitted c g s)"
proof (cases s)
  case (BeginCall cls endpoint)
  show ?thesis
  proof (cases "cost_of (profile_market (governor_profile g)) cls endpoint")
    case (Inl e)
    then show ?thesis using assms(2) BeginCall by (simp add: begin_call_def order_admitted_def)
  next
    case (Inr cost)
    obtain h r where "admit c cls cost g = (h, r)" by fastforce
    from admit_kept(1) [OF assms this] this Inr BeginCall show ?thesis
      by (cases r; cases "consumes_order_slot cost") (simp_all add: begin_call_def order_admitted_def read_at_def)
  qed
next
  case (EndCall m)
  then show ?thesis
    using assms observe_kept by (cases m) (simp_all add: order_admitted_def end_call_def)
qed (use query_kept [OF assms] in \<open>simp_all add: order_admitted_def\<close>)

lemma governor_run_kept:
  assumes "mono (monotonic c)" and "slots_kept c g history"
  shows "slots_kept c (foldl (governor_step c) g steps) (history @ orders_sent c g steps)"
  using assms(2)
proof (induction steps arbitrary: g history)
  case Nil
  then show ?case by simp
next
  case (Cons s ss)
  from Cons.IH [OF governor_step_kept [OF assms(1) Cons.prems, of s]] show ?case by simp
qed

lemma governor_init_kept: "slots_kept c (governor_init p) []"
  by (simp add: slots_kept_def governor_init_def in_window_def)

lemma governor_step_profile:
  assumes "mono (monotonic c)" and "slots_kept c g history"
  shows "governor_profile (governor_step c g s) = governor_profile g"
  using admit_kept(2) [OF assms surjective_pairing]
  by (cases s) (auto simp: begin_call_def end_call_def orders_in_window_def monotonic_seconds_def Let_def
      split: sum.splits option.splits)

lemma governor_run_profile:
  assumes "mono (monotonic c)" and "slots_kept c g history"
  shows "governor_profile (foldl (governor_step c) g steps) = governor_profile g"
  using assms(2)
proof (induction steps arbitrary: g history)
  case (Cons s ss)
  from Cons.IH [OF governor_step_kept [OF assms(1) Cons.prems, of s]]
    governor_step_profile [OF assms(1) Cons.prems, of s] show ?case by simp
qed simp

section \<open>Bans, cooldowns and the unreadable header\<close>

lemma admit_keeps_ban [simp]: "is_banned (fst (admit c cls cost g)) \<longleftrightarrow> is_banned g"
proof (cases "is_banned g")
  case False
  then show ?thesis
    by (cases rule: admit_cases [of g c cls cost])
      (auto simp: charge_def cooled_state_def weighed_state_def refuse_weight_state split: option.splits)
qed (simp add: admit_def)

lemma governor_step_keeps_ban: "is_banned g \<Longrightarrow> is_banned (governor_step c g s)"
  by (cases s) (auto simp: begin_call_def end_call_def orders_in_window_def monotonic_seconds_def Let_def
      split: sum.splits option.splits)

lemma governor_run_keeps_ban: "is_banned g \<Longrightarrow> is_banned (foldl (governor_step c) g steps)"
  by (induction steps arbitrary: g) (simp_all add: governor_step_keeps_ban)

text \<open>
  While an observation is fresh, the estimate is at least what was observed.
\<close>

lemma weight_estimate_observed:
  assumes "observed_used_weight g = Some used" "observed_at_seconds g = Some t"
    and "\<forall>(t, w) \<in> set (weight_charged g). 0 \<le> w"
  shows "used \<le> weight_estimate g"
proof -
  have "0 \<le> sum_list (map snd (filter (\<lambda>(s, _). s \<ge> t) (weight_charged g)))"
    using assms(3) by (intro sum_list_nonneg) auto
  then show ?thesis using assms(1,2) by (simp add: weight_estimate_def Let_def)
qed


lemma cost_of_weight: "cost_of m cls endpoint = Inr cost \<Longrightarrow> 1 \<le> request_weight cost"
  by (cases m) (auto simp: cost_of_def SPOT_ENDPOINT_COSTS_def FUTURES_ENDPOINT_COSTS_def weighing_def
      split: option.splits if_splits)

definition weights_charged_ok :: "governor \<Rightarrow> bool" where
  "weights_charged_ok g \<longleftrightarrow> (\<forall>(t, w) \<in> set (weight_charged g). 0 \<le> w)"

lemma expire_weights: "weights_charged_ok g \<Longrightarrow> weights_charged_ok (expire now g)"
  by (auto simp: weights_charged_ok_def expire_def Let_def split: option.splits dest: set_dropWhileD)

lemma weights_ok_calls [simp]: "weights_charged_ok (g\<lparr>clock_calls := n\<rparr>) = weights_charged_ok g"
  by (simp add: weights_charged_ok_def)

lemma used_request_weight_weights: "weights_charged_ok g \<Longrightarrow> weights_charged_ok (snd (used_request_weight c g))"
  by (simp add: used_request_weight_def monotonic_seconds_def Let_def expire_weights)

lemma publish_weights: "weights_charged_ok g \<Longrightarrow> weights_charged_ok (publish_weight_utilisation c g)"
  by (simp add: publish_weight_utilisation_def used_request_weight_weights split: option.splits)

lemma cooled_weights: "weights_charged_ok g \<Longrightarrow> weights_charged_ok (cooled_state c g)"
  using expire_weights [of "g\<lparr>clock_calls := clock_calls g + 1\<rparr>" "read_at c g"]
  by (auto simp: cooled_state_def refuse_if_cooling_down_def weights_charged_ok_def split: option.splits)

lemma admit_weights:
  assumes "weights_charged_ok g" and "0 \<le> request_weight cost"
  shows "weights_charged_ok (fst (admit c cls cost g))"
proof (cases "is_banned g")
  case False
  have weighed: "weights_charged_ok (weighed_state c cls cost g)"
    using cooled_weights [OF assms(1), of c] used_request_weight_weights
    by (auto simp: weighed_state_def refuse_weight_state split: option.splits)
  then have "weights_charged_ok (charge c cost (read_at c g) (weighed_state c cls cost g))"
    unfolding charge_def by (intro publish_weights) (use assms(2) in \<open>auto simp: weights_charged_ok_def\<close>)
  with False weighed cooled_weights [OF assms(1)] show ?thesis
    by (cases rule: admit_cases [of g c cls cost]) simp_all
qed (use assms(1) in \<open>simp add: admit_def\<close>)

lemma observe_weights:
  assumes "weights_charged_ok g"
  shows "weights_charged_ok (observe c m g)"
proof -
  have "weights_charged_ok (publish_weight_utilisation c (g\<lparr>clock_calls := n, observed_used_weight := u,
      observed_at_seconds := t\<rparr>))" for n u t
    by (rule publish_weights) (use assms in \<open>simp add: weights_charged_ok_def\<close>)
  with assms show ?thesis
    by (auto simp: observe_def Let_def monotonic_seconds_def assume_budget_spent_def record_ban_def
        record_throttle_breach_def weights_charged_ok_def split: option.splits)
qed

lemma governor_run_weights:
  "weights_charged_ok g \<Longrightarrow> weights_charged_ok (foldl (governor_step c) g steps)"
proof (induction steps arbitrary: g)
  case (Cons s ss)
  have "weights_charged_ok (governor_step c g s)"
  proof (cases s)
    case (BeginCall cls endpoint)
    show ?thesis
    proof (cases "cost_of (profile_market (governor_profile g)) cls endpoint")
      case (Inr cost)
      then have "0 \<le> request_weight cost" using cost_of_weight by fastforce
      from admit_weights [OF Cons.prems this] Inr BeginCall show ?thesis by (simp add: begin_call_def)
    qed (use Cons.prems BeginCall in \<open>simp add: begin_call_def\<close>)
  next
    case (EndCall m)
    then show ?thesis using Cons.prems observe_weights by (auto simp: end_call_def split: option.splits)
  next
    case QueryOrders
    then show ?thesis
      using Cons.prems
      by (simp add: orders_in_window_def monotonic_seconds_def Let_def expire_weights)
  qed (use Cons.prems used_request_weight_weights in simp)
  then show ?case using Cons.IH by simp
qed simp

lemma expire_observed:
  "observed_at_seconds g = Some t \<Longrightarrow> now - WEIGHT_WINDOW_SECONDS < t \<Longrightarrow>
    observed_at_seconds (expire now g) = Some t \<and> observed_used_weight (expire now g) = observed_used_weight g"
  by (simp add: expire_def Let_def)

lemma fresh_observation_sheds:
  assumes "request_weight_per_minute (governor_profile g) = Some budget" "0 \<le> budget"
    and "observed_used_weight g = Some budget" "observed_at_seconds g = Some t"
    and "read_at c g < t + WEIGHT_WINDOW_SECONDS" "monotonic c (clock_calls g + 1) < t + WEIGHT_WINDOW_SECONDS"
    and "weights_charged_ok g" "1 \<le> request_weight cost"
  shows "snd (admit c cls cost g) \<noteq> Inr ()"
proof (cases "is_banned g")
  case False
  have "observed_at_seconds (cooled_state c g) = Some t \<and> observed_used_weight (cooled_state c g) = Some budget"
    using expire_observed [of "g\<lparr>clock_calls := clock_calls g + 1\<rparr>" t "read_at c g"] assms(3-5)
    by (simp add: cooled_state_def refuse_if_cooling_down_def split: option.splits)
  moreover have calls: "clock_calls (cooled_state c g) = clock_calls g + 1" by (simp add: cooled_state_def)
  ultimately have "observed_at_seconds (snd (used_request_weight c (cooled_state c g))) = Some t \<and>
      observed_used_weight (snd (used_request_weight c (cooled_state c g))) = Some budget"
    using expire_observed [of "(cooled_state c g)\<lparr>clock_calls := clock_calls (cooled_state c g) + 1\<rparr>" t
        "monotonic c (clock_calls g + 1)"] assms(6)
    by (simp add: used_request_weight_def monotonic_seconds_def Let_def)
  moreover have "weights_charged_ok (snd (used_request_weight c (cooled_state c g)))"
    by (intro used_request_weight_weights cooled_weights assms(7))
  ultimately have "budget \<le> weight_estimate (snd (used_request_weight c (cooled_state c g)))"
    by (intro weight_estimate_observed) (auto simp: weights_charged_ok_def)
  moreover have "fst (used_request_weight c h) = weight_estimate (snd (used_request_weight c h))" for h
    by (simp add: used_request_weight_def monotonic_seconds_def Let_def)
  moreover have "budget * weight_ceiling_percent cls div 100 \<le> budget"
    using assms(2) by (cases cls) simp_all
  ultimately have "budget * weight_ceiling_percent cls div 100 <
      fst (used_request_weight c (cooled_state c g)) + request_weight cost"
    using assms(8) by simp
  moreover have "governor_profile (cooled_state c g) = governor_profile g" by (simp add: cooled_state_def)
  ultimately have "snd (refuse_if_weight_exhausted c cls cost (read_at c g) (cooled_state c g)) \<noteq> Inr ()"
    using assms(1) by (auto simp: refuse_if_weight_exhausted_def Let_def split: prod.splits)
  with False show ?thesis by (auto elim: admit_cases [of g c cls cost])
qed (simp add: admit_def)


lemma refuse_until_cooled:
  "refuse_until_seconds (cooled_state c g) =
    (case refuse_until_seconds g of None \<Rightarrow> None | Some until \<Rightarrow> if until \<le> read_at c g then None else Some until)"
  by (auto simp: cooled_state_def refuse_if_cooling_down_def split: option.splits)

lemma admit_refuse_until:
  assumes "refuse_until_seconds g = Some until"
  shows "refuse_until_seconds (fst (admit c cls cost g)) = Some until \<or> until \<le> read_at c g"
proof (cases "is_banned g")
  case False
  then show ?thesis
    by (cases rule: admit_cases [of g c cls cost])
      (use assms in \<open>auto simp: charge_def weighed_state_def refuse_weight_state refuse_until_cooled
        split: option.splits if_splits\<close>)
qed (use assms in \<open>simp add: admit_def\<close>)

lemma admit_calls: "clock_calls g \<le> clock_calls (fst (admit c cls cost g))"
proof (cases "is_banned g")
  case False
  have calls: "clock_calls g + 1 \<le> clock_calls (weighed_state c cls cost g)" "clock_calls (cooled_state c g) = clock_calls g + 1"
    by (auto simp: weighed_state_def refuse_weight_state cooled_state_def split: option.splits)
  have "clock_calls (weighed_state c cls cost g) \<le> clock_calls (charge c cost (read_at c g) (weighed_state c cls cost g))"
    unfolding charge_def by (rule order_trans [OF _ publish_simps(4)]) simp
  with False calls show ?thesis by (cases rule: admit_cases [of g c cls cost]) auto
qed (simp add: admit_def)

text \<open>A response changes the cooldown only when it is itself an HTTP 429.\<close>

lemma observe_cooldown:
  "response_http_status m \<noteq> 429 \<Longrightarrow> refuse_until_seconds (observe c m g) = refuse_until_seconds g"
  by (simp add: observe_def Let_def monotonic_seconds_def assume_budget_spent_def record_ban_def
      parse_rate_limit_headers_def split: prod.splits option.splits)

lemma observe_calls: "clock_calls g \<le> clock_calls (observe c m g)"
  using publish_simps(4) [of "g\<lparr>clock_calls := Suc (clock_calls g), observed_used_weight := used,
      observed_at_seconds := Some (monotonic c (clock_calls g))\<rparr>" c for used]
  by (auto simp: observe_def Let_def monotonic_seconds_def assume_budget_spent_def record_ban_def
      record_throttle_breach_def intro: Suc_leD split: option.splits)

definition quiet_step :: "governor_event \<Rightarrow> bool" where
  "quiet_step s \<longleftrightarrow> (case s of EndCall (Some m) \<Rightarrow> response_http_status m \<noteq> 429 | _ \<Rightarrow> True)"

lemma order_admittedD:
  assumes "h \<in> set (order_admitted c g s)"
  obtains cls endpoint cost where "s = BeginCall cls endpoint"
    "cost_of (profile_market (governor_profile g)) cls endpoint = Inr cost"
    "snd (admit c cls cost g) = Inr ()" "h = read_at c g"
proof (cases s)
  case (BeginCall cls endpoint)
  then obtain cost u where "cost_of (profile_market (governor_profile g)) cls endpoint = Inr cost"
    "snd (begin_call c cls endpoint g) = Inr u" "h = monotonic c (clock_calls g)"
    using assms
    by (cases "cost_of (profile_market (governor_profile g)) cls endpoint"; cases "snd (begin_call c cls endpoint g)")
      (auto simp: order_admitted_def split: if_splits)
  then show ?thesis using BeginCall that by (simp add: begin_call_def read_at_def)
qed (use assms in \<open>simp_all add: order_admitted_def\<close>)

lemma quiet_step_cooldown:
  assumes "refuse_until_seconds g = Some until" and "quiet_step s"
  shows "refuse_until_seconds (governor_step c g s) = Some until \<or> until \<le> read_at c g"
    and "clock_calls g \<le> clock_calls (governor_step c g s)"
  using assms admit_refuse_until [OF assms(1)] admit_calls observe_calls
  by (auto simp: observe_cooldown quiet_step_def begin_call_def end_call_def orders_in_window_def monotonic_seconds_def Let_def
      split: governor_event.splits option.splits sum.splits)

lemma orders_sent_later:
  assumes clock: "mono (monotonic c)" and "until \<le> monotonic c (clock_calls g)"
    and "list_all quiet_step steps"
  shows "\<forall>h \<in> set (orders_sent c g steps). until \<le> h"
  using assms(2,3)
proof (induction steps arbitrary: g)
  case (Cons s ss)
  have "clock_calls g \<le> clock_calls (governor_step c g s)"
    using Cons.prems(2) admit_calls observe_calls
    by (auto simp: quiet_step_def begin_call_def end_call_def orders_in_window_def monotonic_seconds_def Let_def
        split: governor_event.splits option.splits sum.splits)
  then have "until \<le> monotonic c (clock_calls (governor_step c g s))"
    using Cons.prems(1) clock by (meson monoD order_trans)
  with Cons.IH Cons.prems show ?case
    by (auto simp: read_at_def elim: order_admittedD)
qed simp

lemma cooling_orders_sent:
  assumes clock: "mono (monotonic c)" and "refuse_until_seconds g = Some until"
    and "list_all quiet_step steps"
  shows "\<forall>h \<in> set (orders_sent c g steps). until \<le> h"
  using assms(2,3)
proof (induction steps arbitrary: g)
  case (Cons s ss)
  have now: "\<forall>h \<in> set (order_admitted c g s). until \<le> h"
  proof
    fix h assume h: "h \<in> set (order_admitted c g s)"
    then obtain cls cost where s: "snd (admit c cls cost g) = Inr ()" "h = read_at c g"
      by (rule order_admittedD)
    then have "\<not> is_banned g" by (auto simp: admit_def)
    then show "until \<le> h"
      using Cons.prems(1) s by (auto elim: admit_cases [of g c cls cost])
  qed
  consider (cooling) "refuse_until_seconds (governor_step c g s) = Some until" | (over) "until \<le> read_at c g"
    using quiet_step_cooldown(1) [OF Cons.prems(1), of s c] Cons.prems(2) by auto
  then have "\<forall>h \<in> set (orders_sent c (governor_step c g s) ss). until \<le> h"
  proof cases
    case cooling
    then show ?thesis using Cons by simp
  next
    case over
    have "clock_calls g \<le> clock_calls (governor_step c g s)"
      using quiet_step_cooldown(2) [OF Cons.prems(1)] Cons.prems(2) by simp
    then have "until \<le> monotonic c (clock_calls (governor_step c g s))"
      using over clock unfolding read_at_def by (meson monoD order_trans)
    then show ?thesis using Cons.prems(2) by (intro orders_sent_later [OF clock]) auto
  qed
  with now show ?case by auto
qed simp

section \<open>Properties\<close>

definition cooldown_of :: "response_metadata \<Rightarrow> rat" where
  "cooldown_of m = (case retry_after_seconds (parse_rate_limit_headers m) of Some s \<Rightarrow> of_int s | None \<Rightarrow> 60)"

lemma observe_breach:
  "response_http_status m = 429 \<Longrightarrow>
    refuse_until_seconds (observe c m g) = Some (monotonic c (clock_calls g) + cooldown_of m)"
  by (simp add: observe_def Let_def monotonic_seconds_def record_throttle_breach_def cooldown_of_def
      WEIGHT_WINDOW_SECONDS_def parse_rate_limit_headers_def split: prod.splits option.splits)

text \<open>
  C36. The order rate is never exceeded. However calls, responses and queries of any owners
  interleave on one governor, any ten seconds, as the monotonic clock reads them, contain at
  most \<open>order_rate_per_10s\<close> orders admitted to the venue.
\<close>

theorem order_rate_never_exceeded:
  assumes "mono (monotonic c)"
  shows "length (filter (\<lambda>h. t - 10 < h \<and> h \<le> t) (orders_sent c (governor_init p) steps))
    \<le> order_rate_per_10s p"
proof -
  have "slots_kept c (foldl (governor_step c) (governor_init p) steps) (orders_sent c (governor_init p) steps)"
    using governor_run_kept [OF assms governor_init_kept] by simp
  moreover have "governor_profile (foldl (governor_step c) (governor_init p) steps) = p"
    using governor_run_profile [OF assms governor_init_kept] by (simp add: governor_init_def)
  ultimately show ?thesis by (simp add: slots_kept_def in_window_def ORDER_WINDOW_SECONDS_def)
qed

definition example_clocks :: clocks where
  "example_clocks = \<lparr>monotonic = (\<lambda>n. of_nat n / 2), wall_clock = (\<lambda>n. int n)\<rparr>"

lemma example_clocks_mono: "mono (monotonic example_clocks)"
  by (auto simp: example_clocks_def mono_def divide_right_mono)

definition tight_profile :: venue_profile where
  "tight_profile = spot_testnet_profile\<lparr>order_rate_per_10s := 2\<rparr>"

theorem order_rate_never_exceeded_witness:
  "orders_sent example_clocks (governor_init tight_profile)
     (replicate 6 (BeginCall ORDER ''privatePostOrder'')) = [0, 3 / 2] \<and>
   length (filter (\<lambda>h. 2 - 10 < h \<and> h \<le> 2) (orders_sent example_clocks (governor_init tight_profile)
     (replicate 6 (BeginCall ORDER ''privatePostOrder'')))) \<le> 2"
proof
  show "orders_sent example_clocks (governor_init tight_profile)
     (replicate 6 (BeginCall ORDER ''privatePostOrder'')) = [0, 3 / 2]" by code_simp
  show "length (filter (\<lambda>h. 2 - 10 < h \<and> h \<le> 2) (orders_sent example_clocks (governor_init tight_profile)
     (replicate 6 (BeginCall ORDER ''privatePostOrder'')))) \<le> 2"
    using order_rate_never_exceeded [OF example_clocks_mono, of 2 tight_profile] by (simp add: tight_profile_def)
qed

text \<open>
  C37. What the venue says about its limits is never undercut. After an HTTP 418 this governor
  admits nothing again, whatever happens later: the module makes a ban terminal for its
  lifetime and has no timer that clears it, where ERROR_RECOVERY.md has the system "back off
  until the stated expiry, then resume". After an HTTP 429 no order is admitted before the
  cooldown it asked for, or 60 seconds when it asked for none that can be read, has passed,
  however calls, queries and responses of other statuses interleave. A second HTTP 429 is
  excluded because it replaces the cooldown, with a shorter one if it asks for less
  (\<open>later_429_shortens_the_cooldown\<close>).
\<close>

theorem venue_refusals_honoured:
  assumes "mono (monotonic c)"
  shows "(response_http_status m = 418 \<longrightarrow>
      (\<forall>later cls endpoint. \<exists>e.
        begin_call c cls endpoint (foldl (governor_step c) (observe c m g) later) =
          (foldl (governor_step c) (observe c m g) later, Inl e))) \<and>
    (response_http_status m = 429 \<longrightarrow>
      (\<forall>later. list_all quiet_step later \<longrightarrow>
        (\<forall>h \<in> set (orders_sent c (observe c m g) later). monotonic c (clock_calls g) + cooldown_of m \<le> h)))"
proof -
  have "is_banned (foldl (governor_step c) (observe c m g) later)" if "response_http_status m = 418" for later
    by (rule governor_run_keeps_ban) (simp add: that)
  then have "\<exists>e. begin_call c cls endpoint (foldl (governor_step c) (observe c m g) later) =
      (foldl (governor_step c) (observe c m g) later, Inl e)"
    if "response_http_status m = 418" for later cls endpoint
    using that by (simp add: begin_call_def admit_def split: sum.splits)
  then show ?thesis using cooling_orders_sent [OF assms observe_breach] by blast
qed

theorem venue_refusals_honoured_witness:
  "list_all (\<lambda>h. 3 \<le> h) (orders_sent example_clocks
      (observe example_clocks \<lparr>response_http_status = 429, response_headers = [(''retry-after'', ''3'')]\<rparr>
        (governor_init tight_profile)) (replicate 10 (BeginCall ORDER ''privatePostOrder'')))"
proof -
  have "cooldown_of \<lparr>response_http_status = 429, response_headers = [(''retry-after'', ''3'')]\<rparr> = 3" by code_simp
  moreover have "list_all quiet_step (replicate 10 (BeginCall ORDER ''privatePostOrder''))"
    by (simp add: quiet_step_def list_all_iff)
  moreover have "monotonic example_clocks (clock_calls (governor_init tight_profile)) = 0" by code_simp
  ultimately have "\<forall>h \<in> set (orders_sent example_clocks
      (observe example_clocks \<lparr>response_http_status = 429, response_headers = [(''retry-after'', ''3'')]\<rparr>
        (governor_init tight_profile)) (replicate 10 (BeginCall ORDER ''privatePostOrder''))). 3 \<le> h"
    using venue_refusals_honoured [OF example_clocks_mono,
        of "\<lparr>response_http_status = 429, response_headers = [(''retry-after'', ''3'')]\<rparr>"
           "governor_init tight_profile"] by simp
  then show ?thesis by (simp only: list_all_iff)
qed

text \<open>
  Two calls in flight: the first response, at second 0, asks for sixty seconds, the next one
  for one. It replaces the cooldown, and orders are admitted from second 3/2 on.
\<close>

definition too_many_requests :: "string \<Rightarrow> response_metadata" where
  "too_many_requests seconds = \<lparr>response_http_status = 429, response_headers = [(''retry-after'', seconds)]\<rparr>"

lemma later_429_shortens_the_cooldown:
  "refuse_until_seconds (observe example_clocks (too_many_requests ''60'') (governor_init tight_profile)) = Some 60"
  "orders_sent example_clocks (governor_init tight_profile)
     ([EndCall (Some (too_many_requests ''60'')), EndCall (Some (too_many_requests ''1''))] @
      replicate 4 (BeginCall ORDER ''privatePostOrder'')) = [3 / 2, 3]"
  by code_simp+

text \<open>
  C38. After a used-weight header that cannot be read, a venue with a weight budget refuses
  the next call whatever its class, if it comes within 60 seconds of that response: the
  order path is refused along with the rest, since the whole budget is assumed spent and
  every request weighs something.
\<close>

theorem unreadable_header_refuses_orders:
  assumes "mono (monotonic c)" and "request_weight_per_minute p = Some budget" and "0 < budget"
    and "USED_WEIGHT_HEADER \<in> set (malformed_headers (parse_rate_limit_headers m))"
    and "g = foldl (governor_step c) (governor_init p) earlier"
    and "monotonic c (clock_calls g + 2) < monotonic c (clock_calls g) + 60"
  shows "\<exists>e. snd (begin_call c cls endpoint (observe c m g)) = Inl e"
proof -
  let ?h = "observe c m g"
  have p: "governor_profile g = p"
    unfolding assms(5) using governor_run_profile [OF assms(1) governor_init_kept] by (simp add: governor_init_def)
  have "weights_charged_ok g"
    unfolding assms(5) by (rule governor_run_weights) (simp add: weights_charged_ok_def governor_init_def)
  note weights = observe_weights [OF this]
  have h: "observed_used_weight ?h = Some budget" "observed_at_seconds ?h = Some (monotonic c (clock_calls g))"
    "clock_calls ?h = clock_calls g + 1"
    using assms(2,4) p
    by (auto simp: observe_def Let_def monotonic_seconds_def assume_budget_spent_def record_ban_def
        record_throttle_breach_def)
  have "monotonic c (clock_calls g + 1) \<le> monotonic c (clock_calls g + 2)"
    using assms(1) by (simp add: monoD)
  then have "snd (admit c cls cost ?h) \<noteq> Inr ()" if "1 \<le> request_weight cost" for cost
    using assms(2,3,6) h that weights
    by (intro fresh_observation_sheds) (auto simp: p read_at_def WEIGHT_WINDOW_SECONDS_def)
  moreover have "r \<noteq> Inr () \<longleftrightarrow> (\<exists>e. r = Inl e)" for r :: "unit result" by (cases r) auto
  ultimately show ?thesis
    using cost_of_weight by (fastforce simp: begin_call_def split: sum.splits)
qed

theorem unreadable_header_refuses_orders_witness:
  "\<exists>e. snd (begin_call example_clocks ORDER ''privatePostOrder''
     (observe example_clocks \<lparr>response_http_status = 200, response_headers = [(''x-mbx-used-weight-1m'', ''??'')]\<rparr>
       (governor_init spot_testnet_profile))) = Inl e"
proof -
  have "USED_WEIGHT_HEADER \<in> set (malformed_headers (parse_rate_limit_headers
      \<lparr>response_http_status = 200, response_headers = [(''x-mbx-used-weight-1m'', ''??'')]\<rparr>))" by code_simp
  from unreadable_header_refuses_orders [OF example_clocks_mono _ _ this, of spot_testnet_profile 6000
      "governor_init spot_testnet_profile" "[]"]
  show ?thesis by (simp add: spot_testnet_profile_def example_clocks_def governor_init_def)
qed

end
