(* ===== verification/Lifecycle.thy ===== *)
theory Lifecycle
  imports Guards "HOL-Library.Sublist"
begin

text \<open>
  \<open>src/fking/evolution/lifecycle.py\<close>: the states of a strategy, the edges between them, the
  capital each may move and the events that record a transition, with the two operations of
  \<open>evolution/store.py\<close> that decide what is appended. The database behind the store is the
  strategy's list of events in chain order. \<open>recorded\<close> is the set of streams the store's
  operations can build; the lemmas read off what their last events must have been.
\<close>

section \<open>States, authority and edges\<close>

datatype lifecycle_state =
    NONEXISTENT | PROPOSED | BACKTESTED | VALIDATED | PAPER | CHALLENGER | CHAMPION | QUARANTINED | RETIRED

datatype reason_class =
    GENESIS | GATE_PASSED | GATE_FAILED | DEFECT | RISK | DECAY | SUPERSEDED | ENVIRONMENTAL | QUARANTINE
  | OPERATOR

definition LIVE_STATES :: "lifecycle_state list" where
  "LIVE_STATES = [PAPER, CHALLENGER, CHAMPION]"

definition SCORED_STATES :: "lifecycle_state list" where
  "SCORED_STATES = [VALIDATED, PAPER, CHALLENGER, CHAMPION]"

datatype capital_posture = NO_CAPITAL | NOTIONAL_ONLY | FRACTIONAL | FULL

record capital_authority =
  posture :: capital_posture
  risk_budget_fraction_of_champion :: rat

definition capital_authority_post_init :: "capital_authority \<Rightarrow> unit result" where
  "capital_authority_post_init a = run_checks
     [ensure (0 \<le> risk_budget_fraction_of_champion a \<and> risk_budget_fraction_of_champion a \<le> 1)
        (LifecycleTransitionError ''fraction''),
      ensure ((posture a \<in> {FRACTIONAL, FULL}) \<noteq> (risk_budget_fraction_of_champion a = 0))
        (LifecycleTransitionError ''posture and fraction disagree'')]"

definition CHALLENGER_RISK_BUDGET_FRACTION :: rat where
  "CHALLENGER_RISK_BUDGET_FRACTION = 25 / 100"

primrec capital_authority_for :: "lifecycle_state \<Rightarrow> capital_authority" where
  "capital_authority_for NONEXISTENT = \<lparr>posture = NO_CAPITAL, risk_budget_fraction_of_champion = 0\<rparr>"
| "capital_authority_for PROPOSED = \<lparr>posture = NO_CAPITAL, risk_budget_fraction_of_champion = 0\<rparr>"
| "capital_authority_for BACKTESTED = \<lparr>posture = NO_CAPITAL, risk_budget_fraction_of_champion = 0\<rparr>"
| "capital_authority_for VALIDATED = \<lparr>posture = NO_CAPITAL, risk_budget_fraction_of_champion = 0\<rparr>"
| "capital_authority_for PAPER = \<lparr>posture = NOTIONAL_ONLY, risk_budget_fraction_of_champion = 0\<rparr>"
| "capital_authority_for CHALLENGER =
     \<lparr>posture = FRACTIONAL, risk_budget_fraction_of_champion = CHALLENGER_RISK_BUDGET_FRACTION\<rparr>"
| "capital_authority_for CHAMPION = \<lparr>posture = FULL, risk_budget_fraction_of_champion = 1\<rparr>"
| "capital_authority_for QUARANTINED = \<lparr>posture = NO_CAPITAL, risk_budget_fraction_of_champion = 0\<rparr>"
| "capital_authority_for RETIRED = \<lparr>posture = NO_CAPITAL, risk_budget_fraction_of_champion = 0\<rparr>"

primrec PERMITTED_TRANSITIONS :: "lifecycle_state \<Rightarrow> lifecycle_state list" where
  "PERMITTED_TRANSITIONS NONEXISTENT = [PROPOSED]"
| "PERMITTED_TRANSITIONS PROPOSED = [BACKTESTED, QUARANTINED, RETIRED]"
| "PERMITTED_TRANSITIONS BACKTESTED = [VALIDATED, QUARANTINED, RETIRED]"
| "PERMITTED_TRANSITIONS VALIDATED = [PAPER, QUARANTINED, RETIRED]"
| "PERMITTED_TRANSITIONS PAPER = [CHALLENGER, QUARANTINED, RETIRED]"
| "PERMITTED_TRANSITIONS CHALLENGER = [CHAMPION, QUARANTINED, RETIRED]"
| "PERMITTED_TRANSITIONS CHAMPION = [QUARANTINED, RETIRED]"
| "PERMITTED_TRANSITIONS QUARANTINED = [BACKTESTED, RETIRED]"
| "PERMITTED_TRANSITIONS RETIRED = []"

definition is_permitted_transition :: "lifecycle_state \<Rightarrow> lifecycle_state \<Rightarrow> bool" where
  "is_permitted_transition from_state to_state \<longleftrightarrow> to_state \<in> set (PERMITTED_TRANSITIONS from_state)"

definition require_permitted_transition :: "lifecycle_state \<Rightarrow> lifecycle_state \<Rightarrow> unit result" where
  "require_permitted_transition from_state to_state =
     (if from_state = to_state then Inl (IllegalTransitionError ''nothing moved'')
      else if from_state = RETIRED then Inl (IllegalTransitionError ''retired is terminal'')
      else if to_state = NONEXISTENT then Inl (IllegalTransitionError ''to nonexistent'')
      else if \<not> is_permitted_transition from_state to_state then Inl (IllegalTransitionError ''not an edge'')
      else Inr ())"

section \<open>Events\<close>

definition lifecycle_require_utc :: "int \<Rightarrow> int option \<Rightarrow> string \<Rightarrow> int result" where
  "lifecycle_require_utc moment utcoffset field =
     (case utcoffset of
        None \<Rightarrow> Inl (LifecycleTransitionError (field @ '' naive''))
      | Some offset \<Rightarrow> if offset \<noteq> 0 then Inl (LifecycleTransitionError (field @ '' offset'')) else Inr moment)"

record lifecycle_event =
  lifecycle_event_id :: nat
  strategy_id :: string
  genome_hash :: string
  event_correlation_id :: nat
  causation_id :: "nat option"
  from_state :: lifecycle_state
  to_state :: lifecycle_state
  reason_class_of :: reason_class
  reason :: string
  survival_score :: "rat option"
  score_components :: "(string \<times> rat) list"
  independent_episode_count :: int
  forward_independent_episode_count :: int
  global_trial_index :: int
  family_trial_index :: int
  scoring_version :: string
  transition_at_utc :: int

definition require_evidence :: "lifecycle_event \<Rightarrow> unit result" where
  "require_evidence e = run_checks
     [ensure (survival_score e \<noteq> None \<and> score_components e \<noteq> []) (LifecycleTransitionError ''no score''),
      ensure (0 < independent_episode_count e) (LifecycleTransitionError ''no sample''),
      ensure (1 \<le> global_trial_index e) (LifecycleTransitionError ''no trial count'')]"

definition lifecycle_event_post_init :: "lifecycle_event \<Rightarrow> unit result" where
  "lifecycle_event_post_init e = run_checks
     [require_permitted_transition (from_state e) (to_state e),
      void (lifecycle_require_utc (transition_at_utc e) (Some 0) ''occurred_at_utc''),
      ensure (strip (reason e) \<noteq> []) (LifecycleTransitionError ''reason''),
      ensure (0 \<le> independent_episode_count e \<and> 0 \<le> forward_independent_episode_count e)
        (LifecycleTransitionError ''episode counts''),
      ensure (0 \<le> global_trial_index e \<and> 0 \<le> family_trial_index e) (LifecycleTransitionError ''trial indices''),
      ensure (family_trial_index e \<le> global_trial_index e) (LifecycleTransitionError ''family exceeds global''),
      ensure (case survival_score e of None \<Rightarrow> True | Some s \<Rightarrow> 0 \<le> s \<and> s \<le> 1)
        (LifecycleTransitionError ''survival_score''),
      if to_state e \<in> set SCORED_STATES then require_evidence e else Inr ()]"

definition derive_current_state :: "lifecycle_event list \<Rightarrow> lifecycle_state" where
  "derive_current_state events = (if events = [] then NONEXISTENT else to_state (last events))"

section \<open>The store's two appends\<close>

text \<open>
  The stream of the strategy the event names, before the operation and after it when
  nothing is raised. Events are constructed before they reach the store, so a recorded one
  passed its post-init hook. An admission also stores the genome's record and a row for the
  strategy's id, which is unique; it does not compare that id with the one its event names,
  so an admission under a fresh id can append a genesis to a stream that is not empty. The
  id and the record decide nothing here and are left out.
\<close>

definition admit_strategy :: "lifecycle_event list \<Rightarrow> lifecycle_event \<Rightarrow> lifecycle_event list result" where
  "admit_strategy events genesis_event =
     (if from_state genesis_event \<noteq> NONEXISTENT then Inl (LifecycleTransitionError ''genesis'')
      else Inr (events @ [genesis_event]))"

definition append_lifecycle_event :: "lifecycle_event list \<Rightarrow> lifecycle_event \<Rightarrow> lifecycle_event list result" where
  "append_lifecycle_event events e =
     (let observed = derive_current_state events
      in if observed \<noteq> from_state e then Inl (LifecycleTransitionError ''not in the from-state'')
         else and_then (require_permitted_transition (from_state e) (to_state e)) (\<lambda>_. Inr (events @ [e])))"

inductive recorded :: "lifecycle_event list \<Rightarrow> bool" where
  genesis: "lifecycle_event_post_init e = Inr () \<Longrightarrow> admit_strategy [] e = Inr events \<Longrightarrow> recorded events"
| other_genesis: "recorded events \<Longrightarrow> lifecycle_event_post_init e = Inr () \<Longrightarrow>
    admit_strategy events e = Inr events' \<Longrightarrow> recorded events'"
| append: "recorded events \<Longrightarrow> lifecycle_event_post_init e = Inr () \<Longrightarrow>
    append_lifecycle_event events e = Inr events' \<Longrightarrow> recorded events'"

code_pred recorded .

section \<open>What a recorded stream looks like\<close>

lemma require_permitted_iff [simp]:
  "require_permitted_transition s t = Inr () \<longleftrightarrow> is_permitted_transition s t"
  by (cases s; cases t) (simp_all add: require_permitted_transition_def is_permitted_transition_def)

lemma admit_strategy_Inr:
  "admit_strategy events e = Inr events' \<longleftrightarrow> from_state e = NONEXISTENT \<and> events' = events @ [e]"
  by (auto simp: admit_strategy_def)

lemma append_Inr:
  "append_lifecycle_event events e = Inr events' \<longleftrightarrow>
    derive_current_state events = from_state e \<and> is_permitted_transition (from_state e) (to_state e) \<and>
    events' = events @ [e]"
  by (auto simp: append_lifecycle_event_def Let_def and_then_Inr_iff)

lemma event_permitted:
  "lifecycle_event_post_init e = Inr () \<Longrightarrow> is_permitted_transition (from_state e) (to_state e)"
  by (simp add: lifecycle_event_post_init_def)

lemma event_evidence:
  assumes "lifecycle_event_post_init e = Inr ()" "to_state e \<in> set SCORED_STATES"
  shows "\<exists>s. survival_score e = Some s \<and> 0 \<le> s \<and> s \<le> 1" "score_components e \<noteq> []"
    "0 < independent_episode_count e" "1 \<le> global_trial_index e"
  using assms by (auto simp: lifecycle_event_post_init_def require_evidence_def split: option.splits)

lemma recorded_accepted: "recorded es \<Longrightarrow> e \<in> set es \<Longrightarrow> lifecycle_event_post_init e = Inr ()"
  by (induction rule: recorded.induct) (auto simp: admit_strategy_Inr append_Inr)

lemma recorded_nonempty: "recorded es \<Longrightarrow> es \<noteq> []"
  by (induction rule: recorded.induct) (auto simp: admit_strategy_Inr append_Inr)

text \<open>The state a state can only be entered from, on the way to capital.\<close>

lemma entered_from:
  "is_permitted_transition s CHAMPION \<longleftrightarrow> s = CHALLENGER"
  "is_permitted_transition s CHALLENGER \<longleftrightarrow> s = PAPER"
  "is_permitted_transition s PAPER \<longleftrightarrow> s = VALIDATED"
  "is_permitted_transition s VALIDATED \<longleftrightarrow> s = BACKTESTED"
  "\<not> is_permitted_transition s NONEXISTENT" "\<not> is_permitted_transition RETIRED t"
  by (cases s; simp add: is_permitted_transition_def)+

lemma recorded_last:
  assumes "recorded es"
  obtains e earlier where "es = earlier @ [e]" "derive_current_state es = to_state e"
    "is_permitted_transition (from_state e) (to_state e)"
    "from_state e = NONEXISTENT \<or> derive_current_state earlier = from_state e"
    "earlier = [] \<or> recorded earlier"
  using assms
proof (cases rule: recorded.cases)
  case (genesis e)
  then show ?thesis
    using event_permitted [of e]
    by (intro that [of "[]" e]) (auto simp: admit_strategy_Inr derive_current_state_def)
next
  case (other_genesis events e)
  then show ?thesis
    using event_permitted [of e] by (intro that [of events e]) (auto simp: admit_strategy_Inr derive_current_state_def)
next
  case (append events e)
  then show ?thesis by (intro that [of events e]) (auto simp: append_Inr derive_current_state_def)
qed

lemma recorded_step_back:
  assumes "recorded es" "derive_current_state es = t" "\<And>s. is_permitted_transition s t \<longleftrightarrow> s = s'"
    "s' \<noteq> NONEXISTENT"
  obtains e earlier where "es = earlier @ [e]" "to_state e = t" "recorded earlier" "derive_current_state earlier = s'"
proof -
  obtain e earlier where e: "es = earlier @ [e]" "derive_current_state es = to_state e"
    "is_permitted_transition (from_state e) (to_state e)"
    "from_state e = NONEXISTENT \<or> derive_current_state earlier = from_state e"
    "earlier = [] \<or> recorded earlier"
    using recorded_last [OF assms(1)] by blast
  then have "from_state e = s'" using assms(2,3) by auto
  with e(4) assms(4) have "derive_current_state earlier = s'" by simp
  moreover from this assms(4) have "earlier \<noteq> []" by (auto simp: derive_current_state_def)
  ultimately show ?thesis using e assms(2) by (intro that [of earlier e]) auto
qed

lemma suffix_back:
  assumes "recorded es" "derive_current_state es = t" "\<And>s. is_permitted_transition s t \<longleftrightarrow> s = s'"
    "s' \<noteq> NONEXISTENT"
    and "\<And>earlier. recorded earlier \<Longrightarrow> derive_current_state earlier = s' \<Longrightarrow> suffix xs (map to_state earlier)"
  shows "suffix (xs @ [t]) (map to_state es)"
proof -
  obtain e earlier where e: "es = earlier @ [e]" "to_state e = t" "recorded earlier" "derive_current_state earlier = s'"
    by (rule recorded_step_back [OF assms(1-4)])
  from assms(5) [OF e(3,4)] e(1,2) show ?thesis by simp
qed

lemma recorded_in_state:
  assumes "recorded es" "derive_current_state es = t"
  shows "suffix [t] (map to_state es)"
proof -
  obtain e earlier where "es = earlier @ [e]" "derive_current_state es = to_state e"
    by (rule recorded_last [OF assms(1)])
  then show ?thesis using assms(2) by (simp add: suffix_def)
qed

lemma recorded_suffix:
  assumes "recorded es"
  shows "(derive_current_state es = CHALLENGER \<longrightarrow>
       suffix [BACKTESTED, VALIDATED, PAPER, CHALLENGER] (map to_state es)) \<and>
    (derive_current_state es = CHAMPION \<longrightarrow>
       suffix [BACKTESTED, VALIDATED, PAPER, CHALLENGER, CHAMPION] (map to_state es))"
proof -
  have validated: "suffix ([BACKTESTED] @ [VALIDATED]) (map to_state es)"
    if "recorded es" "derive_current_state es = VALIDATED" for es
    by (rule suffix_back [OF that entered_from(4)]) (simp_all add: recorded_in_state)
  have paper: "suffix ([BACKTESTED, VALIDATED] @ [PAPER]) (map to_state es)"
    if "recorded es" "derive_current_state es = PAPER" for es
    by (rule suffix_back [OF that entered_from(3)]) (use validated in simp_all)
  have challenger: "suffix ([BACKTESTED, VALIDATED, PAPER] @ [CHALLENGER]) (map to_state es)"
    if "recorded es" "derive_current_state es = CHALLENGER" for es
    by (rule suffix_back [OF that entered_from(2)]) (use paper in simp_all)
  have "suffix ([BACKTESTED, VALIDATED, PAPER, CHALLENGER] @ [CHAMPION]) (map to_state es)"
    if "derive_current_state es = CHAMPION"
    by (rule suffix_back [OF assms that entered_from(1)]) (use challenger in simp_all)
  with assms challenger show ?thesis by simp
qed

section \<open>Properties\<close>

text \<open>
  C9. No capital without the whole gauntlet. A recorded stream whose derived state may
  move a fraction of a champion's budget ends with the events of a back-test, a validation,
  a paper run and a challenge (and a promotion, for the whole budget), in that order with
  nothing in between, and each event that entered a scored state carries a score in [0, 1]
  with its components, a positive sample and a trial count that was read.
\<close>

theorem capital_requires_the_gauntlet:
  assumes "recorded es" and "0 < risk_budget_fraction_of_champion (capital_authority_for (derive_current_state es))"
  shows "(suffix [BACKTESTED, VALIDATED, PAPER, CHALLENGER] (map to_state es) \<or>
     suffix [BACKTESTED, VALIDATED, PAPER, CHALLENGER, CHAMPION] (map to_state es)) \<and>
    (\<forall>e \<in> set es. to_state e \<in> set SCORED_STATES \<longrightarrow>
       (\<exists>s. survival_score e = Some s \<and> 0 \<le> s \<and> s \<le> 1) \<and> score_components e \<noteq> [] \<and>
       0 < independent_episode_count e \<and> 1 \<le> global_trial_index e)"
proof -
  have "derive_current_state es \<in> {CHALLENGER, CHAMPION}"
    using assms(2) by (cases "derive_current_state es") simp_all
  then show ?thesis
    using recorded_suffix [OF assms(1)] recorded_accepted [OF assms(1)] event_evidence by auto
qed

definition example_event :: "lifecycle_state \<Rightarrow> lifecycle_state \<Rightarrow> lifecycle_event" where
  "example_event s t = \<lparr>lifecycle_event_id = 1, strategy_id = ''s'', genome_hash = ''g'', event_correlation_id = 2,
     causation_id = None, from_state = s, to_state = t, reason_class_of = GATE_PASSED, reason = ''gate'',
     survival_score = Some (7 / 10), score_components = [(''sharpe'', 1)], independent_episode_count = 37,
     forward_independent_episode_count = 12, global_trial_index = 50, family_trial_index = 4,
     scoring_version = ''v1'', transition_at_utc = 0\<rparr>"

lemma example_event_accepted:
  "is_permitted_transition s t \<Longrightarrow> lifecycle_event_post_init (example_event s t) = Inr ()"
  by (simp add: lifecycle_event_post_init_def example_event_def require_evidence_def lifecycle_require_utc_def
      strip_blank is_py_space_def)

lemma example_recorded_append:
  "recorded es \<Longrightarrow> derive_current_state es = s \<Longrightarrow> is_permitted_transition s t \<Longrightarrow>
    recorded (es @ [example_event s t])"
  by (rule recorded.append [OF _ example_event_accepted]) (simp_all add: append_Inr example_event_def)

definition example_stream :: "lifecycle_event list" where
  "example_stream = [example_event NONEXISTENT PROPOSED, example_event PROPOSED BACKTESTED,
     example_event BACKTESTED VALIDATED, example_event VALIDATED PAPER, example_event PAPER CHALLENGER]"

lemma example_stream_recorded: "recorded example_stream" "derive_current_state example_stream = CHALLENGER"
proof -
  have "recorded [example_event NONEXISTENT PROPOSED]"
    by (rule recorded.genesis [OF example_event_accepted [of NONEXISTENT PROPOSED]])
      (simp_all add: is_permitted_transition_def admit_strategy_def example_event_def)
  from example_recorded_append [OF this, of PROPOSED BACKTESTED]
  have "recorded [example_event NONEXISTENT PROPOSED, example_event PROPOSED BACKTESTED]"
    by (simp add: derive_current_state_def example_event_def is_permitted_transition_def)
  from example_recorded_append [OF this, of BACKTESTED VALIDATED]
  have "recorded [example_event NONEXISTENT PROPOSED, example_event PROPOSED BACKTESTED,
      example_event BACKTESTED VALIDATED]"
    by (simp add: derive_current_state_def example_event_def is_permitted_transition_def)
  from example_recorded_append [OF this, of VALIDATED PAPER]
  have "recorded [example_event NONEXISTENT PROPOSED, example_event PROPOSED BACKTESTED,
      example_event BACKTESTED VALIDATED, example_event VALIDATED PAPER]"
    by (simp add: derive_current_state_def example_event_def is_permitted_transition_def)
  from example_recorded_append [OF this, of PAPER CHALLENGER]
  show "recorded example_stream"
    by (simp add: derive_current_state_def example_event_def is_permitted_transition_def example_stream_def)
  show "derive_current_state example_stream = CHALLENGER"
    by (simp add: example_stream_def derive_current_state_def example_event_def)
qed

text \<open>
  An admission whose event names another strategy drops that strategy back to the start of
  its stream: a challenger trading real risk budget derives as proposed, and its next
  transition is refused.
\<close>

lemma other_genesis_resets_a_strategy:
  fixes reset defines "reset \<equiv> example_event NONEXISTENT PROPOSED"
  shows "admit_strategy example_stream reset = Inr (example_stream @ [reset])"
    and "recorded (example_stream @ [reset])"
    and "derive_current_state (example_stream @ [reset]) = PROPOSED"
    and "append_lifecycle_event (example_stream @ [reset]) (example_event CHALLENGER RETIRED) =
      Inl (LifecycleTransitionError ''not in the from-state'')"
proof -
  show admitted: "admit_strategy example_stream reset = Inr (example_stream @ [reset])"
    by (simp add: admit_strategy_Inr reset_def example_event_def)
  then show "recorded (example_stream @ [reset])"
    using example_event_accepted [of NONEXISTENT PROPOSED] unfolding reset_def
    by (intro recorded.other_genesis [OF example_stream_recorded(1)]) (auto simp: is_permitted_transition_def)
  show state: "derive_current_state (example_stream @ [reset]) = PROPOSED"
    by (simp add: derive_current_state_def reset_def example_event_def)
  show "append_lifecycle_event (example_stream @ [reset]) (example_event CHALLENGER RETIRED) =
      Inl (LifecycleTransitionError ''not in the from-state'')"
    unfolding append_lifecycle_event_def state by (simp add: example_event_def)
qed

theorem capital_requires_the_gauntlet_witness:
  "recorded example_stream \<and>
   (suffix [BACKTESTED, VALIDATED, PAPER, CHALLENGER] (map to_state example_stream) \<or>
    suffix [BACKTESTED, VALIDATED, PAPER, CHALLENGER, CHAMPION] (map to_state example_stream))"
  using capital_requires_the_gauntlet [OF example_stream_recorded(1)] example_stream_recorded
  by (simp add: CHALLENGER_RISK_BUDGET_FRACTION_def)

end
