(* ===== verification/Lineage.thy ===== *)
theory Lineage
  imports Decimals "HOL-Library.List_Lexorder" "HOL-Library.Char_ord" "HOL-Library.Product_Lexorder"
begin

text \<open>
  \<open>src/fking/evolution/lineage.py\<close>: the genealogy graph of strategies, the depth-first search
  that refuses a cyclic one, the breadth-first walk to the ancestors, the sweep of the
  descendants, and the report on how much of the live book one ancestor accounts for; with
  the cycle check of \<open>evolution/store.py\<close>. The graph is the list of items of its dict; its
  edges lead from a child to its parents. Stacks are lists with their top first. The search
  is a loop that could run forever, so its value is an option; it is shown to return.
\<close>

section \<open>The graph\<close>

type_synonym lineage_graph = "(string \<times> string list) list"

definition parents :: "lineage_graph \<Rightarrow> string \<Rightarrow> string list" where
  "parents g node = (case map_of g node of None \<Rightarrow> [] | Some ps \<Rightarrow> ps)"

definition edges :: "lineage_graph \<Rightarrow> (string \<times> string) set" where
  "edges g = {(child, parent). parent \<in> set (parents g child)}"

lemma edges_iff [simp]: "(a, b) \<in> edges g \<longleftrightarrow> b \<in> set (parents g a)"
  by (simp add: edges_def)

lemma parents_key: "p \<in> set (parents g a) \<Longrightarrow> a \<in> fst ` set g"
  by (cases "map_of g a") (auto simp: parents_def simp flip: dom_map_of_conv_image_fst)

section \<open>The search for a cycle\<close>

record search =
  settled :: "string set"
  on_path :: "string list"
  in_path :: "string set"
  pending :: "(string \<times> bool) list"

definition search_step :: "lineage_graph \<Rightarrow> search \<Rightarrow> search result" where
  "search_step g s =
     (case pending s of
        [] \<Rightarrow> Inr s
      | (node, expanded) # rest \<Rightarrow>
          if expanded then
            Inr (s\<lparr>pending := rest, on_path := tl (on_path s), in_path := in_path s - {node},
                   settled := insert node (settled s)\<rparr>)
          else if node \<in> settled s then Inr (s\<lparr>pending := rest\<rparr>)
          else if node \<in> in_path s then Inl LineageCycleError
          else
            Inr (s\<lparr>on_path := node # on_path s, in_path := insert node (in_path s),
                   pending := rev (map (\<lambda>p. (p, False)) (parents g node)) @ (node, True) # rest\<rparr>))"

partial_function (option) search_loop :: "lineage_graph \<Rightarrow> search \<Rightarrow> search result option" where
  "search_loop g s =
     (case pending s of
        [] \<Rightarrow> Some (Inr s)
      | _ \<Rightarrow> (case search_step g s of Inl e \<Rightarrow> Some (Inl e) | Inr t \<Rightarrow> search_loop g t))"

declare search_loop.simps [code]

fun search_from :: "lineage_graph \<Rightarrow> string list \<Rightarrow> string set \<Rightarrow> unit result option" where
  "search_from g [] settled_so_far = Some (Inr ())"
| "search_from g (start # starts) settled_so_far =
     (if start \<in> settled_so_far then search_from g starts settled_so_far
      else
        (case search_loop g \<lparr>settled = settled_so_far, on_path = [], in_path = {}, pending = [(start, False)]\<rparr> of
           None \<Rightarrow> None
         | Some (Inl e) \<Rightarrow> Some (Inl e)
         | Some (Inr s) \<Rightarrow> search_from g starts (settled s)))"

definition require_acyclic :: "lineage_graph \<Rightarrow> unit result option" where
  "require_acyclic g = search_from g (sort (map fst g)) {}"

section \<open>Ancestors, descendants and the collapse report\<close>

definition children_of :: "lineage_graph \<Rightarrow> string \<Rightarrow> string list" where
  "children_of g node = sort (map fst (filter (\<lambda>(child, ps). node \<in> set ps) g))"

definition reach_parent :: "nat \<Rightarrow> (string \<times> nat) list \<times> string list \<Rightarrow> string \<Rightarrow> (string \<times> nat) list \<times> string list" where
  "reach_parent distance acc parent =
     (let (reached, next_frontier) = acc
      in if map_of reached parent \<noteq> None then acc
         else (reached @ [(parent, distance)], next_frontier @ [parent]))"

definition walk_level ::
  "lineage_graph \<Rightarrow> nat \<Rightarrow> string list \<Rightarrow> (string \<times> nat) list \<Rightarrow> (string \<times> nat) list \<times> string list" where
  "walk_level g distance frontier reached =
     foldl (\<lambda>acc node. foldl (reach_parent distance) acc (parents g node)) (reached, []) frontier"

fun walk_ancestors ::
  "lineage_graph \<Rightarrow> nat \<Rightarrow> nat \<Rightarrow> string list \<Rightarrow> (string \<times> nat) list \<Rightarrow> (string \<times> nat) list" where
  "walk_ancestors g distance 0 frontier reached = reached"
| "walk_ancestors g distance (Suc generations) frontier reached =
     (let (reached, next_frontier) = walk_level g distance frontier reached
      in if next_frontier = [] then reached
         else walk_ancestors g (distance + 1) generations next_frontier reached)"

definition ancestors_within :: "lineage_graph \<Rightarrow> string \<Rightarrow> int \<Rightarrow> (string \<times> nat) list result" where
  "ancestors_within g node max_generations =
     (if max_generations < 0 then Inl (LineageError ''max_generations'')
      else Inr (walk_ancestors g 1 (nat max_generations) [node] [(node, 0)]))"

definition find_child :: "string list \<times> string set \<Rightarrow> string \<Rightarrow> string list \<times> string set" where
  "find_child acc child =
     (let (to_visit, found) = acc
      in if child \<in> found then acc else (child # to_visit, insert child found))"

definition visit_children :: "lineage_graph \<Rightarrow> string \<Rightarrow> string list \<Rightarrow> string set \<Rightarrow> string list \<times> string set" where
  "visit_children g node to_visit found = foldl find_child (to_visit, found) (children_of g node)"

lemma find_children_pair:
  "\<exists>new. foldl find_child (to_visit, found) cs = (new @ to_visit, found \<union> set cs) \<and>
    set new = set cs - found \<and> distinct new"
proof (induction cs arbitrary: to_visit found)
  case (Cons c cs)
  show ?case
  proof (cases "c \<in> found")
    case True
    then show ?thesis using Cons.IH [of to_visit found] by (auto simp: find_child_def insert_absorb)
  next
    case False
    obtain new where new: "foldl find_child (c # to_visit, insert c found) cs = (new @ c # to_visit, insert c found \<union> set cs)"
        "set new = set cs - insert c found" "distinct new"
      using Cons.IH [of "c # to_visit" "insert c found"] by blast
    have "foldl find_child (to_visit, found) (c # cs) = ((new @ [c]) @ to_visit, found \<union> set (c # cs))"
      using False new(1) by (simp add: find_child_def)
    moreover have "set (new @ [c]) = set (c # cs) - found" using False new(2) by force
    moreover have "distinct (new @ [c])" using new(2,3) by simp
    ultimately show ?thesis by blast
  qed
qed simp

lemma children_of_iff: "set (children_of g node) = {c. \<exists>ps. (c, ps) \<in> set g \<and> node \<in> set ps}"
  by (force simp: children_of_def)

function descend :: "lineage_graph \<Rightarrow> string list \<Rightarrow> string set \<Rightarrow> string set" where
  "descend g [] found = found"
| "descend g (node # rest) found =
     (let (to_visit, found) = visit_children g node rest found in descend g to_visit found)"
  by pat_completeness auto
termination
proof (relation "measures [\<lambda>(g, to_visit, found). card (fst ` set g - found), \<lambda>(g, to_visit, found). length to_visit]")
  fix g :: lineage_graph and node rest found x to_visit later
  assume x: "x = visit_children g node rest found" "(to_visit, later) = x"
  obtain new where new: "visit_children g node rest found = (new @ rest, found \<union> set (children_of g node))"
    "set new = set (children_of g node) - found"
    unfolding visit_children_def using find_children_pair [of rest found "children_of g node"] by blast
  then have eq: "to_visit = new @ rest" "later = found \<union> set new" using x by auto
  have keys: "set new \<subseteq> fst ` set g" using new(2) by (force simp: children_of_iff)
  show "((g, to_visit, later), (g, node # rest, found)) \<in>
      measures [\<lambda>(g, to_visit, found). card (fst ` set g - found), \<lambda>(g, to_visit, found). length to_visit]"
  proof (cases "new = []")
    case False
    then obtain c where "c \<in> set new" by (cases new) auto
    then have "fst ` set g - later \<subset> fst ` set g - found" using eq keys new(2) by blast
    then have "card (fst ` set g - later) < card (fst ` set g - found)" by (intro psubset_card_mono) auto
    then show ?thesis by simp
  qed (simp add: eq)
qed simp

definition descendants_of :: "lineage_graph \<Rightarrow> string \<Rightarrow> string set" where
  "descendants_of g node = descend g [node] {}"

definition would_create_cycle :: "lineage_graph \<Rightarrow> string \<Rightarrow> string \<Rightarrow> bool result" where
  "would_create_cycle g child parent =
     (if child = parent then Inr True
      else and_then (ancestors_within g parent (int (length g) + 1)) (\<lambda>reached.
        Inr (map_of reached child \<noteq> None)))"

text \<open>The store checks every declared parent before it inserts the genome and its edges.\<close>

fun check_parents :: "lineage_graph \<Rightarrow> string \<Rightarrow> string list \<Rightarrow> unit result" where
  "check_parents g child [] = Inr ()"
| "check_parents g child (parent # ps) =
     and_then (would_create_cycle g child parent) (\<lambda>closes.
       if closes then Inl LineageCycleError else check_parents g child ps)"

text \<open>
  How much of the live book one ancestor accounts for. The dict of sharers is its list of
  items; a Python \<open>min\<close> over distinct keys is the head of the sorted list.
\<close>

definition DEFAULT_COLLAPSE_MAX_GENERATIONS :: int where
  "DEFAULT_COLLAPSE_MAX_GENERATIONS = 5"

definition DEFAULT_COLLAPSE_THRESHOLD_FRACTION :: rat where
  "DEFAULT_COLLAPSE_THRESHOLD_FRACTION = 5 / 10"

definition MIN_SHARING_STRATEGIES :: nat where
  "MIN_SHARING_STRATEGIES = 2"

record collapse_report =
  live_strategy_count :: nat
  report_max_generations :: int
  threshold_fraction :: rat
  dominant_ancestor_genome_hash :: "string option"
  dominant_share_fraction :: rat
  is_collapsed :: bool

definition distinct_in_order :: "string list \<Rightarrow> string list" where
  "distinct_in_order xs = rev (remdups (rev xs))"

definition add_sharer :: "string \<Rightarrow> (string \<times> string set) list \<Rightarrow> string \<Rightarrow> (string \<times> string set) list" where
  "add_sharer descendant sharers ancestor =
     (if map_of sharers ancestor = None then sharers @ [(ancestor, {descendant})]
      else map (\<lambda>(a, ds). (a, if a = ancestor then insert descendant ds else ds)) sharers)"

fun collect_sharers ::
  "lineage_graph \<Rightarrow> int \<Rightarrow> string list \<Rightarrow> (string \<times> string set) list \<Rightarrow> (string \<times> string set) list result" where
  "collect_sharers g generations [] sharers = Inr sharers"
| "collect_sharers g generations (descendant # live) sharers =
     and_then (ancestors_within g descendant generations) (\<lambda>reached.
       collect_sharers g generations live (foldl (add_sharer descendant) sharers (map fst reached)))"

definition no_collapse :: "nat \<Rightarrow> int \<Rightarrow> rat \<Rightarrow> collapse_report" where
  "no_collapse n generations threshold = \<lparr>live_strategy_count = n, report_max_generations = generations,
     threshold_fraction = threshold, dominant_ancestor_genome_hash = None, dominant_share_fraction = 0,
     is_collapsed = False\<rparr>"

definition lineage_collapse_report ::
  "lineage_graph \<Rightarrow> string list \<Rightarrow> int \<Rightarrow> rat \<Rightarrow> collapse_report result" where
  "lineage_collapse_report g live_genome_hashes generations threshold =
     (let live = distinct_in_order live_genome_hashes
      in if live = [] then Inr (no_collapse 0 generations threshold)
         else
           and_then (collect_sharers g generations live []) (\<lambda>sharers.
           let shared = filter (\<lambda>(_, ds). MIN_SHARING_STRATEGIES \<le> card ds) sharers in
           if shared = [] then Inr (no_collapse (length live) generations threshold)
           else
             (let (dominant, descendants) =
                hd (sort_key (\<lambda>(ancestor, ds). (- int (card ds), ancestor)) shared)
              in and_then (ddiv (of_nat (card descendants)) (of_nat (length live))) (\<lambda>share.
                Inr \<lparr>live_strategy_count = length live, report_max_generations = generations,
                     threshold_fraction = threshold, dominant_ancestor_genome_hash = Some dominant,
                     dominant_share_fraction = share, is_collapsed = (threshold < share)\<rparr>))))"

section \<open>The search finds a cycle exactly when there is one\<close>

text \<open>
  The shape of the stack under the path: above the marker of a path node lie parents of it
  that are still to be visited, and its other parents are settled or are the next node of
  the path. \<open>seen\<close> collects what was passed above the marker.
\<close>

fun stack_ok :: "lineage_graph \<Rightarrow> string \<Rightarrow> string set \<Rightarrow> string list \<Rightarrow> string set \<Rightarrow> (string \<times> bool) list \<Rightarrow> bool" where
  "stack_ok g start S path seen [] \<longleftrightarrow> path = [] \<and> start \<in> S \<union> seen"
| "stack_ok g start S path seen ((n, expanded) # rest) \<longleftrightarrow>
     (if expanded then
        (case path of [] \<Rightarrow> False
         | t # ps \<Rightarrow> t = n \<and> set (parents g n) \<subseteq> S \<union> seen \<and> stack_ok g start S ps {n} rest)
      else
        (case path of [] \<Rightarrow> True | t # _ \<Rightarrow> n \<in> set (parents g t)) \<and>
        stack_ok g start S path (insert n seen) rest)"

lemma stack_ok_settled:
  "stack_ok g start S path seen stack \<Longrightarrow> S \<union> seen \<subseteq> S' \<union> seen' \<Longrightarrow> S \<subseteq> S' \<Longrightarrow> stack_ok g start S' path seen' stack"
proof (induction g start S path seen stack arbitrary: S' seen' rule: stack_ok.induct)
  case (2 g start S path seen n expanded rest)
  show ?case
  proof (cases expanded)
    case True
    then obtain ps where "path = n # ps" "set (parents g n) \<subseteq> S \<union> seen" "stack_ok g start S ps {n} rest"
      using "2.prems"(1) by (auto split: list.splits)
    with True "2.prems"(2,3) "2.IH"(1) [of n ps S' "{n}"] show ?thesis by auto
  next
    case False
    with "2.prems" "2.IH"(2) [of S' "insert n seen'"] show ?thesis by (auto split: list.splits)
  qed
qed auto

lemma stack_ok_push:
  assumes "stack_ok g start S path (insert n seen) rest" "set ps \<subseteq> set (parents g n)"
    "set (parents g n) \<subseteq> S \<union> seen' \<union> set ps" "stack_ok g start S path {n} rest"
  shows "stack_ok g start S (n # path) seen' (map (\<lambda>p. (p, False)) ps @ (n, True) # rest)"
  using assms(2,3)
proof (induction ps arbitrary: seen')
  case (Cons p ps)
  then have "stack_ok g start S (n # path) (insert p seen') (map (\<lambda>p. (p, False)) ps @ (n, True) # rest)"
    by (intro Cons.IH) auto
  with Cons.prems show ?case by auto
qed (use assms(4) in auto)

definition search_inv :: "lineage_graph \<Rightarrow> string \<Rightarrow> search \<Rightarrow> bool" where
  "search_inv g start s \<longleftrightarrow>
     (\<forall>n \<in> settled s. set (parents g n) \<subseteq> settled s \<and> (n, n) \<notin> (edges g)\<^sup>+) \<and>
     in_path s = set (on_path s) \<and> distinct (on_path s) \<and> settled s \<inter> set (on_path s) = {} \<and>
     successively (\<lambda>a b. (b, a) \<in> edges g) (on_path s) \<and>
     stack_ok g start (settled s) (on_path s) {} (pending s)"

lemma settled_closed:
  assumes "\<forall>n \<in> S. set (parents g n) \<subseteq> S" "(a, b) \<in> (edges g)\<^sup>*" "a \<in> S"
  shows "b \<in> S"
  using assms(2,3) by (induction rule: rtrancl_induct) (use assms(1) in auto)

lemma path_reaches_top:
  "successively (\<lambda>a b. (b, a) \<in> edges g) (t # path) \<Longrightarrow> n \<in> set (t # path) \<Longrightarrow> (n, t) \<in> (edges g)\<^sup>*"
proof (induction path arbitrary: t)
  case (Cons u path)
  show ?case
  proof (cases "n = t")
    case False
    then have "(n, u) \<in> (edges g)\<^sup>*" using Cons by (auto simp: successively_Cons)
    moreover have "(u, t) \<in> edges g" using Cons.prems(1) by (simp add: successively_Cons)
    ultimately show ?thesis by (rule rtrancl_into_rtrancl)
  qed simp
qed simp

lemma search_step_inv:
  assumes inv: "search_inv g start s" and step: "search_step g s = Inr t"
  shows "search_inv g start t"
proof (cases "pending s")
  case Nil
  then show ?thesis using assms by (simp add: search_step_def)
next
  case (Cons p rest)
  obtain n expanded where p: "p = (n, expanded)" by fastforce
  note s = inv [unfolded search_inv_def Cons p]
  consider (settle) "expanded" | (skip) "\<not> expanded" "n \<in> settled s"
    | (enter) "\<not> expanded" "n \<notin> settled s" "n \<notin> in_path s"
    using step by (auto simp: search_step_def Cons p split: if_splits)
  then show ?thesis
  proof cases
    case settle
    then obtain path where path: "on_path s = n # path" "set (parents g n) \<subseteq> settled s"
      "stack_ok g start (settled s) path {n} rest"
      using s by (auto split: list.splits)
    have t: "t = s\<lparr>pending := rest, on_path := path, in_path := in_path s - {n}, settled := insert n (settled s)\<rparr>"
      using step settle path(1) by (simp add: search_step_def Cons p)
    have "(n, n) \<notin> (edges g)\<^sup>+"
    proof
      assume "(n, n) \<in> (edges g)\<^sup>+"
      then obtain m where "(n, m) \<in> edges g" "(m, n) \<in> (edges g)\<^sup>*" by (meson tranclD)
      then have "n \<in> settled s" using settled_closed [of "settled s" g m n] s path(2) by auto
      then show False using s path(1) by auto
    qed
    moreover have "stack_ok g start (insert n (settled s)) path {} rest"
      by (rule stack_ok_settled [OF path(3)]) auto
    ultimately show ?thesis
      using s path unfolding t by (auto simp: search_inv_def successively_Cons)
  next
    case skip
    then have "stack_ok g start (settled s) (on_path s) {} rest"
      using s by (auto intro: stack_ok_settled)
    moreover have "t = s\<lparr>pending := rest\<rparr>" using step skip by (simp add: search_step_def Cons p)
    ultimately show ?thesis using s by (simp add: search_inv_def)
  next
    case enter
    have t: "t = s\<lparr>on_path := n # on_path s, in_path := insert n (in_path s),
        pending := rev (map (\<lambda>p. (p, False)) (parents g n)) @ (n, True) # rest\<rparr>"
      using step enter by (simp add: search_step_def Cons p)
    have under: "stack_ok g start (settled s) (on_path s) {n} rest" using s enter by simp
    have "stack_ok g start (settled s) (n # on_path s) {} (map (\<lambda>p. (p, False)) (rev (parents g n)) @ (n, True) # rest)"
      by (rule stack_ok_push [where seen = "{}"]) (use under in auto)
    moreover have "successively (\<lambda>a b. (b, a) \<in> edges g) (n # on_path s)"
      using s enter(1) by (cases "on_path s") (auto simp: successively_Cons)
    ultimately show ?thesis
      using s enter unfolding t by (simp add: search_inv_def rev_map)
  qed
qed

lemma search_step_error:
  assumes inv: "search_inv g start s" and step: "search_step g s = Inl e"
  shows "e = LineageCycleError" "\<not> acyclic (edges g)"
proof -
  obtain n rest where p: "pending s = (n, False) # rest" "n \<in> in_path s" and e: "e = LineageCycleError"
    using step by (auto simp: search_step_def split: list.splits if_splits)
  then show "e = LineageCycleError" by simp
  from inv p obtain t path where path: "on_path s = t # path" "n \<in> set (t # path)" "n \<in> set (parents g t)"
    by (cases "on_path s") (auto simp: search_inv_def)
  have "(n, t) \<in> (edges g)\<^sup>*"
    using path_reaches_top [of g t path n] inv path by (simp add: search_inv_def)
  moreover have "(t, n) \<in> edges g" using path(3) by simp
  ultimately have "(n, n) \<in> (edges g)\<^sup>+" by (rule rtrancl_into_trancl1)
  then show "\<not> acyclic (edges g)" by (auto simp: acyclic_def)
qed

section \<open>The search returns\<close>

definition nodes :: "lineage_graph \<Rightarrow> string set" where
  "nodes g = fst ` set g \<union> \<Union> (set ` snd ` set g)"

lemma nodes_finite: "finite (nodes g)" by (auto simp: nodes_def)

lemma parents_nodes: "set (parents g n) \<subseteq> nodes g"
proof (cases "map_of g n")
  case (Some ps)
  then have "(n, ps) \<in> set g" by (rule map_of_SomeD)
  then show ?thesis using Some by (force simp: parents_def nodes_def)
qed (simp add: parents_def)

definition search_measure :: "lineage_graph \<Rightarrow> (search \<times> search) set" where
  "search_measure g = measures [\<lambda>s. card (nodes g - settled s - in_path s), \<lambda>s. length (pending s)]"

lemma search_step_decreases:
  assumes inv: "search_inv g start s" "fst ` set (pending s) \<subseteq> nodes g" and "pending s \<noteq> []"
    and step: "search_step g s = Inr t"
  shows "(t, s) \<in> search_measure g" "fst ` set (pending t) \<subseteq> nodes g" "settled s \<subseteq> settled t"
proof -
  obtain n expanded rest where p: "pending s = (n, expanded) # rest" using assms(3) by (cases "pending s") auto
  note s = inv(1) [unfolded search_inv_def p]
  consider (settle) "expanded" | (skip) "\<not> expanded" "n \<in> settled s"
    | (enter) "\<not> expanded" "n \<notin> settled s" "n \<notin> in_path s"
    using step by (auto simp: search_step_def p split: if_splits)
  then have "(t, s) \<in> search_measure g \<and> fst ` set (pending t) \<subseteq> nodes g \<and> settled s \<subseteq> settled t"
  proof cases
    case settle
    then have "n \<in> in_path s" using s by (auto split: list.splits)
    then have "settled t \<union> in_path t = settled s \<union> in_path s" "pending t = rest" "settled s \<subseteq> settled t"
      using step settle by (auto simp: search_step_def p)
    moreover from this have "nodes g - settled t - in_path t = nodes g - settled s - in_path s" by blast
    ultimately show ?thesis using inv(2) by (simp add: search_measure_def p)
  next
    case skip
    then have "t = s\<lparr>pending := rest\<rparr>" using step by (simp add: search_step_def p)
    then show ?thesis using inv(2) by (simp add: search_measure_def p)
  next
    case enter
    then have t: "settled t = settled s" "in_path t = insert n (in_path s)"
      "pending t = rev (map (\<lambda>p. (p, False)) (parents g n)) @ (n, True) # rest"
      using step by (auto simp: search_step_def p)
    have n: "n \<in> nodes g" using inv(2) p by simp
    have "nodes g - settled t - in_path t \<subset> nodes g - settled s - in_path s"
      using n enter unfolding t(1,2) by blast
    then have "card (nodes g - settled t - in_path t) < card (nodes g - settled s - in_path s)"
      by (intro psubset_card_mono) (simp_all add: nodes_finite)
    then show ?thesis
      using inv(2) parents_nodes [of g n] n t by (auto simp: search_measure_def p image_image)
  qed
  then show "(t, s) \<in> search_measure g" "fst ` set (pending t) \<subseteq> nodes g" "settled s \<subseteq> settled t"
    by blast+
qed

lemma search_loop_result:
  assumes "search_inv g start s" "fst ` set (pending s) \<subseteq> nodes g"
  shows "\<exists>r. search_loop g s = Some r \<and>
    (case r of Inl e \<Rightarrow> e = LineageCycleError \<and> \<not> acyclic (edges g)
     | Inr t \<Rightarrow> search_inv g start t \<and> pending t = [] \<and> settled s \<subseteq> settled t)"
proof -
  have "wf (search_measure g)" by (simp add: search_measure_def)
  then show ?thesis
    using assms
  proof (induction s rule: wf_induct_rule)
    case (less s)
    show ?case
    proof (cases "pending s")
      case Nil
      then show ?thesis using less.prems by (subst search_loop.simps) simp
    next
      case (Cons p rest)
      then have ne: "pending s \<noteq> []" by simp
      have loop: "search_loop g s = (case search_step g s of Inl e \<Rightarrow> Some (Inl e) | Inr t \<Rightarrow> search_loop g t)"
        by (subst search_loop.simps) (simp add: Cons)
      show ?thesis
      proof (cases "search_step g s")
        case (Inl e)
        then show ?thesis using search_step_error [OF less.prems(1)] loop by simp
      next
        case (Inr t)
        note t = search_step_decreases [OF less.prems ne Inr]
        obtain r where "search_loop g t = Some r" "case r of Inl e \<Rightarrow> e = LineageCycleError \<and> \<not> acyclic (edges g)
            | Inr u \<Rightarrow> search_inv g start u \<and> pending u = [] \<and> settled t \<subseteq> settled u"
          using less.IH [OF t(1) search_step_inv [OF less.prems(1) Inr] t(2)] by blast
        then show ?thesis
          using t(3) unfolding loop Inr by (intro exI [of _ r]) (auto split: sum.splits)
      qed
    qed
  qed
qed


definition settled_ok :: "lineage_graph \<Rightarrow> string set \<Rightarrow> bool" where
  "settled_ok g S \<longleftrightarrow> (\<forall>n \<in> S. set (parents g n) \<subseteq> S \<and> (n, n) \<notin> (edges g)\<^sup>+)"

lemma search_from_result:
  assumes "settled_ok g S" "set starts \<subseteq> nodes g"
  shows "\<exists>r. search_from g starts S = Some r \<and>
    (\<forall>e. r = Inl e \<longrightarrow> e = LineageCycleError \<and> \<not> acyclic (edges g)) \<and>
    (r = Inr () \<longrightarrow> (\<exists>T. settled_ok g T \<and> S \<union> set starts \<subseteq> T))"
  using assms
proof (induction starts arbitrary: S)
  case Nil
  then show ?case by auto
next
  case (Cons start starts)
  show ?case
  proof (cases "start \<in> S")
    case True
    from Cons.IH [of S] Cons.prems obtain r where "search_from g starts S = Some r"
        "\<forall>e. r = Inl e \<longrightarrow> e = LineageCycleError \<and> \<not> acyclic (edges g)"
        "r = Inr () \<longrightarrow> (\<exists>T. settled_ok g T \<and> S \<union> set starts \<subseteq> T)" by auto
    with True show ?thesis by (intro exI [of _ r]) auto
  next
    case False
    let ?s = "\<lparr>settled = S, on_path = [], in_path = {}, pending = [(start, False)]\<rparr>"
    have "search_inv g start ?s" using Cons.prems(1) by (simp add: search_inv_def settled_ok_def)
    moreover have "fst ` set (pending ?s) \<subseteq> nodes g" using Cons.prems(2) by simp
    ultimately obtain r where r: "search_loop g ?s = Some r"
        "case r of Inl e \<Rightarrow> e = LineageCycleError \<and> \<not> acyclic (edges g)
         | Inr t \<Rightarrow> search_inv g start t \<and> pending t = [] \<and> settled ?s \<subseteq> settled t"
      using search_loop_result by blast
    show ?thesis
    proof (cases r)
      case (Inl e)
      with r False show ?thesis by simp
    next
      case (Inr t)
      with r have t: "search_inv g start t" "pending t = []" "S \<subseteq> settled t" by simp_all
      then have "start \<in> settled t" "settled_ok g (settled t)"
        by (simp_all add: search_inv_def settled_ok_def)
      with Cons.IH [of "settled t"] Cons.prems(2) t(3) obtain q where
        "search_from g starts (settled t) = Some q"
        "\<forall>e. q = Inl e \<longrightarrow> e = LineageCycleError \<and> \<not> acyclic (edges g)"
        "q = Inr () \<longrightarrow> (\<exists>T. settled_ok g T \<and> settled t \<union> set starts \<subseteq> T)" by auto
      moreover have "search_from g (start # starts) S = search_from g starts (settled t)"
        using False r(1) Inr by simp
      ultimately show ?thesis
        using \<open>start \<in> settled t\<close> t(3) by (intro exI [of _ q]) auto
    qed
  qed
qed

lemma require_acyclic_result:
  "\<exists>r. require_acyclic g = Some r \<and> (r = Inr () \<longleftrightarrow> acyclic (edges g)) \<and>
    (r \<noteq> Inr () \<longrightarrow> r = Inl LineageCycleError)"
proof -
  have "settled_ok g {}" by (simp add: settled_ok_def)
  moreover have "set (sort (map fst g)) \<subseteq> nodes g" by (auto simp: nodes_def)
  ultimately obtain r where r: "require_acyclic g = Some r"
      "\<forall>e. r = Inl e \<longrightarrow> e = LineageCycleError \<and> \<not> acyclic (edges g)"
      "r = Inr () \<longrightarrow> (\<exists>T. settled_ok g T \<and> {} \<union> set (sort (map fst g)) \<subseteq> T)"
    using search_from_result [of g "{}" "sort (map fst g)"] unfolding require_acyclic_def by blast
  show ?thesis
  proof (cases r)
    case (Inl e)
    with r show ?thesis by simp
  next
    case (Inr u)
    then obtain T where T: "settled_ok g T" "fst ` set g \<subseteq> T" using r(3) by auto
    have "(n, n) \<notin> (edges g)\<^sup>+" for n
    proof
      assume cycle: "(n, n) \<in> (edges g)\<^sup>+"
      then obtain m where "(n, m) \<in> edges g" by (meson tranclD)
      then have "n \<in> T" using parents_key T(2) by fastforce
      then show False using T(1) cycle by (auto simp: settled_ok_def)
    qed
    then show ?thesis using r(1) Inr by (auto simp: acyclic_def)
  qed
qed

section \<open>The walk to the ancestors\<close>

text \<open>The distance of an ancestor: the length of a shortest chain of parents to it.\<close>

definition ancestor_at :: "lineage_graph \<Rightarrow> string \<Rightarrow> string \<Rightarrow> nat \<Rightarrow> bool" where
  "ancestor_at g node a n \<longleftrightarrow> (node, a) \<in> edges g ^^ n \<and> (\<forall>m < n. (node, a) \<notin> edges g ^^ m)"

lemma ancestor_at_unique: "ancestor_at g node a n \<Longrightarrow> ancestor_at g node a m \<Longrightarrow> n = m"
  by (metis ancestor_at_def linorder_neqE_nat)

lemma ancestor_at_0 [simp]: "ancestor_at g node a 0 \<longleftrightarrow> a = node"
  by (auto simp: ancestor_at_def)

lemma ancestor_at_Suc:
  "ancestor_at g node a (Suc n) \<longleftrightarrow>
    (\<exists>b. ancestor_at g node b n \<and> a \<in> set (parents g b)) \<and> (\<forall>m \<le> n. \<not> ancestor_at g node a m)"
proof
  assume a: "ancestor_at g node a (Suc n)"
  then obtain b where b: "(node, b) \<in> edges g ^^ n" "(b, a) \<in> edges g"
    by (auto simp: ancestor_at_def simp del: edges_iff)
  have "(node, b) \<notin> edges g ^^ m" if "m < n" for m
  proof
    assume "(node, b) \<in> edges g ^^ m"
    then have "(node, a) \<in> edges g ^^ Suc m" using b(2) by (meson relpow_Suc_I)
    then show False using a that unfolding ancestor_at_def by (meson Suc_mono)
  qed
  with b have "ancestor_at g node b n \<and> a \<in> set (parents g b)" by (simp add: ancestor_at_def)
  moreover have "\<not> ancestor_at g node a m" if "m \<le> n" for m
    using a that ancestor_at_unique by fastforce
  ultimately show "(\<exists>b. ancestor_at g node b n \<and> a \<in> set (parents g b)) \<and> (\<forall>m \<le> n. \<not> ancestor_at g node a m)"
    by blast
next
  assume r: "(\<exists>b. ancestor_at g node b n \<and> a \<in> set (parents g b)) \<and> (\<forall>m \<le> n. \<not> ancestor_at g node a m)"
  then have "(node, a) \<in> edges g ^^ Suc n" by (auto simp: ancestor_at_def intro: relpow_Suc_I)
  moreover have "(node, a) \<notin> edges g ^^ m" if "m < Suc n" for m
  proof
    assume "(node, a) \<in> edges g ^^ m"
    then have "(LEAST k. (node, a) \<in> edges g ^^ k) \<le> m" "ancestor_at g node a (LEAST k. (node, a) \<in> edges g ^^ k)"
      by (auto simp: ancestor_at_def simp del: edges_iff intro: Least_le LeastI dest: not_less_Least)
    with r that show False by auto
  qed
  ultimately show "ancestor_at g node a (Suc n)" by (simp add: ancestor_at_def)
qed

lemma foldl_reach_parent:
  "\<exists>new. foldl (reach_parent d) (reached, next) ps = (reached @ map (\<lambda>p. (p, d)) new, next @ new) \<and>
    set new = set ps - fst ` set reached \<and> distinct new"
proof (induction ps arbitrary: reached "next")
  case (Cons p ps)
  show ?case
  proof (cases "p \<in> fst ` set reached")
    case True
    then have "map_of reached p \<noteq> None" by (simp add: map_of_eq_None_iff)
    then have "reach_parent d (reached, next) p = (reached, next)" by (simp add: reach_parent_def)
    with Cons.IH [of reached "next"] True show ?thesis by (metis foldl_Cons insert_Diff_if list.simps(15))
  next
    case False
    then have step: "reach_parent d (reached, next) p = (reached @ [(p, d)], next @ [p])"
      by (simp add: reach_parent_def map_of_eq_None_iff)
    obtain new where new: "foldl (reach_parent d) (reached @ [(p, d)], next @ [p]) ps =
        ((reached @ [(p, d)]) @ map (\<lambda>p. (p, d)) new, (next @ [p]) @ new)"
        "set new = set ps - fst ` set (reached @ [(p, d)])" "distinct new"
      using Cons.IH [of "reached @ [(p, d)]" "next @ [p]"] by blast
    have "set (p # new) = set (p # ps) - fst ` set reached" using new(2) False by auto
    moreover have "distinct (p # new)" using new(2,3) by simp
    moreover have "foldl (reach_parent d) (reached, next) (p # ps) =
        (reached @ map (\<lambda>p. (p, d)) (p # new), next @ p # new)" using step new(1) by simp
    ultimately show ?thesis by blast
  qed
qed simp

lemma foldl_walk:
  "\<exists>new. foldl (\<lambda>acc node. foldl (reach_parent d) acc (parents g node)) (reached, next) frontier =
      (reached @ map (\<lambda>p. (p, d)) new, next @ new) \<and>
    set new = (\<Union>n \<in> set frontier. set (parents g n)) - fst ` set reached \<and> distinct new"
proof (induction frontier arbitrary: reached "next")
  case (Cons n frontier)
  obtain here where here: "foldl (reach_parent d) (reached, next) (parents g n) =
      (reached @ map (\<lambda>p. (p, d)) here, next @ here)"
      "set here = set (parents g n) - fst ` set reached" "distinct here"
    using foldl_reach_parent [of d reached "next" "parents g n"] by blast
  obtain later where later: "foldl (\<lambda>acc node. foldl (reach_parent d) acc (parents g node))
        (reached @ map (\<lambda>p. (p, d)) here, next @ here) frontier =
      ((reached @ map (\<lambda>p. (p, d)) here) @ map (\<lambda>p. (p, d)) later, (next @ here) @ later)"
      "set later = (\<Union>n \<in> set frontier. set (parents g n)) - fst ` set (reached @ map (\<lambda>p. (p, d)) here)"
      "distinct later"
    using Cons.IH [of "reached @ map (\<lambda>p. (p, d)) here" "next @ here"] by blast
  have reached: "fst ` set (reached @ map (\<lambda>p. (p, d)) here) = fst ` set reached \<union> set here"
    by (simp add: image_Un image_image)
  have "set (here @ later) = set (parents g n) - fst ` set reached \<union>
      ((\<Union>n \<in> set frontier. set (parents g n)) - (fst ` set reached \<union> (set (parents g n) - fst ` set reached)))"
    by (simp only: set_append later(2) [unfolded reached] here(2))
  also have "\<dots> = (\<Union>m \<in> set (n # frontier). set (parents g m)) - fst ` set reached" by auto
  finally have "set (here @ later) = (\<Union>m \<in> set (n # frontier). set (parents g m)) - fst ` set reached" .
  moreover have "set here \<inter> set later = {}" unfolding later(2) reached by auto
  then have "distinct (here @ later)" using here(3) later(3) by simp
  moreover have "foldl (\<lambda>acc node. foldl (reach_parent d) acc (parents g node)) (reached, next) (n # frontier) =
      (reached @ map (\<lambda>p. (p, d)) (here @ later), next @ here @ later)"
    using here(1) later(1) by simp
  ultimately show ?case by blast
qed simp


text \<open>
  Before the level of distance \<open>d\<close>, the dict holds every ancestor nearer than \<open>d\<close> at its
  distance, and the frontier is those at distance \<open>d - 1\<close>.
\<close>

definition walked :: "lineage_graph \<Rightarrow> string \<Rightarrow> nat \<Rightarrow> string list \<Rightarrow> (string \<times> nat) list \<Rightarrow> bool" where
  "walked g node d frontier reached \<longleftrightarrow>
     (\<forall>a n. map_of reached a = Some n \<longleftrightarrow> ancestor_at g node a n \<and> n < Suc d) \<and>
     set frontier = {a. ancestor_at g node a d}"

lemma walk_level_walked:
  assumes "walked g node d frontier reached"
  obtains next' where "walk_level g (Suc d) frontier reached = (reached @ map (\<lambda>p. (p, Suc d)) next', next')"
    and "walked g node (Suc d) next' (reached @ map (\<lambda>p. (p, Suc d)) next')"
proof -
  obtain new where new: "walk_level g (Suc d) frontier reached = (reached @ map (\<lambda>p. (p, Suc d)) new, new)"
      "set new = (\<Union>n \<in> set frontier. set (parents g n)) - fst ` set reached" "distinct new"
    using foldl_walk [of "Suc d" g reached "[]" frontier] by (auto simp: walk_level_def)
  have known: "a \<in> fst ` set reached \<longleftrightarrow> (\<exists>m \<le> d. ancestor_at g node a m)" for a
  proof -
    have "a \<in> fst ` set reached \<longleftrightarrow> map_of reached a \<noteq> None" by (simp add: map_of_eq_None_iff)
    then show ?thesis using assms by (auto simp: walked_def less_Suc_eq_le)
  qed
  have new_iff: "a \<in> set new \<longleftrightarrow> ancestor_at g node a (Suc d)" for a
    unfolding new(2) ancestor_at_Suc using assms known by (auto simp: walked_def)
  have found: "map_of (reached @ map (\<lambda>p. (p, Suc d)) new) a =
      (case map_of reached a of Some n \<Rightarrow> Some n | None \<Rightarrow> if a \<in> set new then Some (Suc d) else None)" for a
    by (induction new) (auto simp: map_add_def map_of_append split: option.splits)
  have "map_of (reached @ map (\<lambda>p. (p, Suc d)) new) a = Some n \<longleftrightarrow> ancestor_at g node a n \<and> n < Suc (Suc d)" for a n
  proof (cases "map_of reached a")
    case None
    then have "\<not> (\<exists>m \<le> d. ancestor_at g node a m)" using known by (simp add: map_of_eq_None_iff)
    then show ?thesis unfolding found using None by (auto simp: new_iff less_Suc_eq_le le_Suc_eq)
  next
    case (Some m)
    then have "ancestor_at g node a m" "m < Suc d" using assms by (auto simp: walked_def)
    then show ?thesis unfolding found using Some ancestor_at_unique by fastforce
  qed
  then show ?thesis using new(1) new_iff by (intro that [of new]) (auto simp: walked_def)
qed

lemma no_farther: "\<forall>a. \<not> ancestor_at g node a d \<Longrightarrow> d \<le> n \<Longrightarrow> \<not> ancestor_at g node a n"
proof (induction n arbitrary: a)
  case (Suc n)
  then show ?case by (cases "d = Suc n") (auto simp: ancestor_at_Suc)
qed simp

lemma walk_ancestors_walked:
  assumes "walked g node d frontier reached"
  shows "map_of (walk_ancestors g (Suc d) k frontier reached) a = Some n \<longleftrightarrow> ancestor_at g node a n \<and> n \<le> d + k"
  using assms
proof (induction k arbitrary: d frontier reached)
  case 0
  then show ?case by (auto simp: walked_def less_Suc_eq_le)
next
  case (Suc k)
  obtain next' where level: "walk_level g (Suc d) frontier reached = (reached @ map (\<lambda>p. (p, Suc d)) next', next')"
    and walked: "walked g node (Suc d) next' (reached @ map (\<lambda>p. (p, Suc d)) next')"
    using walk_level_walked [OF Suc.prems] by blast
  show ?case
  proof (cases "next' = []")
    case True
    then have "\<forall>a. \<not> ancestor_at g node a (Suc d)" using walked by (simp add: walked_def)
    then have "ancestor_at g node a n \<and> n \<le> d + Suc k \<longleftrightarrow> ancestor_at g node a n \<and> n < Suc d"
      using no_farther [of g node "Suc d" n a] by (cases "Suc d \<le> n") auto
    moreover have "map_of reached a = Some n \<longleftrightarrow> ancestor_at g node a n \<and> n < Suc d"
      using Suc.prems by (simp add: walked_def)
    moreover have "walk_ancestors g (Suc d) (Suc k) frontier reached = reached"
      using level True by (simp add: Let_def)
    ultimately show ?thesis by simp
  next
    case False
    then have "walk_ancestors g (Suc d) (Suc k) frontier reached =
        walk_ancestors g (Suc (Suc d)) k next' (reached @ map (\<lambda>p. (p, Suc d)) next')"
      using level by (simp add: Let_def)
    with Suc.IH [OF walked] show ?thesis by simp
  qed
qed

lemma ancestors_within_iff:
  assumes "0 \<le> k"
  shows "\<exists>reached. ancestors_within g node k = Inr reached \<and>
    (\<forall>a n. map_of reached a = Some n \<longleftrightarrow> ancestor_at g node a n \<and> int n \<le> k)"
proof -
  have "walked g node 0 [node] [(node, 0)]" by (auto simp: walked_def split: if_splits intro: gr0I)
  note walk_ancestors_walked [OF this, of "nat k"]
  then show ?thesis using assms by (auto simp: ancestors_within_def nat_le_iff)
qed

section \<open>Enough generations to see every ancestor\<close>

lemma ancestor_at_chain:
  "ancestor_at g node a n \<Longrightarrow> i < n \<Longrightarrow> \<exists>b. ancestor_at g node b i \<and> b \<in> fst ` set g"
proof (induction n arbitrary: a)
  case (Suc n)
  then obtain b where b: "ancestor_at g node b n" "a \<in> set (parents g b)" by (auto simp: ancestor_at_Suc)
  with Suc show ?case by (cases "i = n") (auto dest: parents_key)
qed simp

lemma ancestor_at_bound:
  assumes "ancestor_at g node a n"
  shows "n \<le> length g"
proof -
  define chain_node where "chain_node i = (SOME b. ancestor_at g node b i \<and> b \<in> fst ` set g)" for i
  have chain: "ancestor_at g node (chain_node i) i \<and> chain_node i \<in> fst ` set g" if "i < n" for i
    unfolding chain_node_def by (rule someI_ex) (rule ancestor_at_chain [OF assms that])
  have "inj_on chain_node {..<n}" using chain ancestor_at_unique by (metis inj_onI lessThan_iff)
  moreover have "chain_node ` {..<n} \<subseteq> fst ` set g" using chain by auto
  ultimately have "card {..<n} \<le> card (fst ` set g)" by (intro card_inj_on_le) auto
  also have "\<dots> \<le> length g" by (metis card_image_le card_length finite_set order_trans)
  finally show ?thesis by simp
qed

lemma ancestor_of_reachable:
  assumes "(node, a) \<in> (edges g)\<^sup>*"
  shows "\<exists>n. ancestor_at g node a n"
proof -
  obtain m where "(node, a) \<in> edges g ^^ m" using assms rtrancl_imp_relpow by blast
  then have "ancestor_at g node a (LEAST k. (node, a) \<in> edges g ^^ k)"
    by (auto simp: ancestor_at_def simp del: edges_iff intro: LeastI dest: not_less_Least)
  then show ?thesis by blast
qed

lemma would_create_cycle_iff:
  "would_create_cycle g child parent = Inr ((parent, child) \<in> (edges g)\<^sup>*)"
proof (cases "child = parent")
  case False
  obtain reached where reached: "ancestors_within g parent (int (length g) + 1) = Inr reached"
      "\<And>a n. map_of reached a = Some n \<longleftrightarrow> ancestor_at g parent a n \<and> int n \<le> int (length g) + 1"
    using ancestors_within_iff [of "int (length g) + 1" g parent] by auto
  have "map_of reached child \<noteq> None \<longleftrightarrow> (\<exists>n. ancestor_at g parent child n)"
    using reached(2) ancestor_at_bound [of g parent child] by fastforce
  also have "\<dots> \<longleftrightarrow> (parent, child) \<in> (edges g)\<^sup>*"
    using ancestor_of_reachable by (auto simp: ancestor_at_def dest: relpow_imp_rtrancl)
  finally show ?thesis using False reached(1) by (simp add: would_create_cycle_def)
qed (simp add: would_create_cycle_def)


lemma add_parents_reach:
  "(a, child) \<in> (E \<union> {child} \<times> P)\<^sup>* \<longleftrightarrow> (a, child) \<in> E\<^sup>*"
proof
  assume "(a, child) \<in> (E \<union> {child} \<times> P)\<^sup>*"
  then show "(a, child) \<in> E\<^sup>*"
    by (induction rule: converse_rtrancl_induct) (auto intro: converse_rtrancl_into_rtrancl)
qed (auto intro: rtrancl_mono [THEN subsetD])

lemma add_parents_acyclic:
  assumes "finite P"
  shows "acyclic (E \<union> {child} \<times> P) \<longleftrightarrow> acyclic E \<and> (\<forall>p \<in> P. (p, child) \<notin> E\<^sup>*)"
  using assms
proof (induction P)
  case (insert p P)
  have "E \<union> {child} \<times> insert p P = insert (child, p) (E \<union> {child} \<times> P)" by auto
  then show ?case using insert.IH by (simp add: acyclic_insert add_parents_reach) blast
qed simp

lemma check_parents_iff: "check_parents g child ps = Inr () \<longleftrightarrow> (\<forall>p \<in> set ps. (p, child) \<notin> (edges g)\<^sup>*)"
  by (induction ps) (simp_all add: would_create_cycle_iff)

section \<open>The sweep of the descendants\<close>

lemma children_of_edges:
  assumes "distinct (map fst g)"
  shows "set (children_of g node) = {c. (c, node) \<in> edges g}"
  using assms by (auto simp: children_of_iff parents_def split: option.splits dest: map_of_SomeD map_of_is_SomeI)

lemma descend_reaches:
  assumes "distinct (map fst g)"
  shows "found \<subseteq> descend g to_visit found \<and>
    (\<forall>p \<in> set to_visit. set (children_of g p) \<subseteq> descend g to_visit found) \<and>
    (\<forall>x \<in> descend g to_visit found - found. set (children_of g x) \<subseteq> descend g to_visit found) \<and>
    descend g to_visit found \<subseteq> found \<union> {x. \<exists>p \<in> set to_visit. (x, p) \<in> (edges g)\<^sup>+}"
  using assms
proof (induction g to_visit found rule: descend.induct)
  case (2 g node rest found)
  obtain new where new: "visit_children g node rest found = (new @ rest, found \<union> set (children_of g node))"
    "set new = set (children_of g node) - found"
    unfolding visit_children_def using find_children_pair [of rest found "children_of g node"] by blast
  define R where "R = descend g (new @ rest) (found \<union> set (children_of g node))"
  have R: "descend g (node # rest) found = R" using new(1) by (simp add: R_def)
  note IH = "2.IH" [OF new(1) [symmetric] refl "2.prems", folded R_def]
  have children: "x \<in> set (children_of g node) \<Longrightarrow> (x, node) \<in> edges g" for x
    using children_of_edges [OF "2.prems"] by auto
  have "R \<subseteq> found \<union> {x. \<exists>p \<in> set (node # rest). (x, p) \<in> (edges g)\<^sup>+}"
  proof
    fix x assume "x \<in> R"
    with IH have "x \<in> found \<union> set (children_of g node) \<union> {x. \<exists>p \<in> set (new @ rest). (x, p) \<in> (edges g)\<^sup>+}"
      by blast
    then consider "x \<in> found" | "x \<in> set (children_of g node)" | p where "p \<in> set new \<union> set rest" "(x, p) \<in> (edges g)\<^sup>+"
      by auto
    then show "x \<in> found \<union> {x. \<exists>p \<in> set (node # rest). (x, p) \<in> (edges g)\<^sup>+}"
    proof cases
      case 2
      then show ?thesis using children by (auto simp del: edges_iff)
    next
      case 3
      then show ?thesis
        using new(2) children [of p] by (auto simp del: edges_iff intro: trancl_into_trancl)
    qed auto
  qed
  moreover have "set (children_of g x) \<subseteq> R" if "x \<in> R - found" for x
    using that IH new(2) by (cases "x \<in> set new") auto
  ultimately show ?case unfolding R using IH by auto
qed simp

lemma descendants_iff:
  assumes "distinct (map fst g)"
  shows "descendants_of g node = {x. (x, node) \<in> (edges g)\<^sup>+}"
proof
  note R = descend_reaches [OF assms, of "{}" "[node]", folded descendants_of_def]
  show "descendants_of g node \<subseteq> {x. (x, node) \<in> (edges g)\<^sup>+}" using R by auto
  have "x \<in> descendants_of g node" if "(x, node) \<in> (edges g)\<^sup>+" for x
    using that
  proof (induction rule: converse_trancl_induct)
    case (base y)
    then show ?case using R children_of_edges [OF assms] by auto
  next
    case (step y z)
    then show ?case using R children_of_edges [OF assms, of z] by auto
  qed
  then show "{x. (x, node) \<in> (edges g)\<^sup>+} \<subseteq> descendants_of g node" by blast
qed

section \<open>The collapse report\<close>

definition sharers_of :: "lineage_graph \<Rightarrow> int \<Rightarrow> string set \<Rightarrow> string \<Rightarrow> string set" where
  "sharers_of g generations live a = {x \<in> live. \<exists>n. ancestor_at g x a n \<and> int n \<le> generations}"

definition sharers_ok :: "(string \<times> string set) list \<Rightarrow> (string \<Rightarrow> string set) \<Rightarrow> bool" where
  "sharers_ok sharers f \<longleftrightarrow> distinct (map fst sharers) \<and>
     (\<forall>a. map_of sharers a = (if f a = {} then None else Some (f a)))"

lemma add_sharer_ok:
  assumes "sharers_ok sharers f"
  shows "sharers_ok (add_sharer x sharers a) (f(a := insert x (f a)))"
proof -
  have keys: "map fst (map (\<lambda>(b, ds). (b, if b = a then insert x ds else ds)) sharers) = map fst sharers"
    by (induction sharers) auto
  have vals: "map_of (map (\<lambda>(b, ds). (b, if b = a then insert x ds else ds)) sharers) b =
      map_option (\<lambda>ds. if b = a then insert x ds else ds) (map_of sharers b)" for b
    by (induction sharers) auto
  show ?thesis
  proof (cases "map_of sharers a")
    case None
    then have "a \<notin> set (map fst sharers)" by (simp add: map_of_eq_None_iff)
    moreover have "f a = {}" using assms None by (metis option.distinct(1) sharers_ok_def)
    ultimately have a: "a \<notin> set (map fst sharers)" "f a = {}" by auto
    with None assms show ?thesis
      by (auto simp: add_sharer_def sharers_ok_def map_add_def split: option.splits)
  next
    case (Some ds)
    with assms keys vals show ?thesis
      by (auto simp: add_sharer_def sharers_ok_def simp del: map_map)
  qed
qed

lemma foldl_add_sharer_ok:
  "sharers_ok sharers f \<Longrightarrow>
    sharers_ok (foldl (add_sharer x) sharers as) (\<lambda>a. f a \<union> (if a \<in> set as then {x} else {}))"
proof (induction as arbitrary: sharers f)
  case (Cons a as)
  have "(\<lambda>b. (f(a := insert x (f a))) b \<union> (if b \<in> set as then {x} else {})) =
      (\<lambda>b. f b \<union> (if b \<in> set (a # as) then {x} else {}))"
    by (auto simp: fun_eq_iff)
  from Cons.IH [OF add_sharer_ok [OF Cons.prems, of x a], unfolded this] show ?case by simp
qed simp

lemma collect_sharers_ok:
  assumes "0 \<le> generations" "sharers_ok sharers f"
  shows "\<exists>result. collect_sharers g generations live sharers = Inr result \<and>
    sharers_ok result (\<lambda>a. f a \<union> sharers_of g generations (set live) a)"
  using assms(2)
proof (induction live arbitrary: sharers f)
  case Nil
  then show ?case by (simp add: sharers_of_def)
next
  case (Cons x live)
  obtain reached where reached: "ancestors_within g x generations = Inr reached"
      "\<And>a n. map_of reached a = Some n \<longleftrightarrow> ancestor_at g x a n \<and> int n \<le> generations"
    using ancestors_within_iff [OF assms(1)] by blast
  have "a \<in> set (map fst reached) \<longleftrightarrow> (\<exists>n. ancestor_at g x a n \<and> int n \<le> generations)" for a
  proof -
    have "a \<in> set (map fst reached) \<longleftrightarrow> (\<exists>n. map_of reached a = Some n)"
      using map_of_eq_None_iff [of reached a] by (cases "map_of reached a") auto
    then show ?thesis by (simp add: reached(2))
  qed
  then have "(\<lambda>a. (f a \<union> (if a \<in> set (map fst reached) then {x} else {})) \<union> sharers_of g generations (set live) a) =
      (\<lambda>a. f a \<union> sharers_of g generations (set (x # live)) a)"
    by (auto simp: sharers_of_def fun_eq_iff)
  with Cons.IH [OF foldl_add_sharer_ok [OF Cons.prems, of x "map fst reached"]] reached(1)
  show ?case by (simp del: set_map)
qed

lemma distinct_in_order_set [simp]: "set (distinct_in_order xs) = set xs" "distinct (distinct_in_order xs)"
  by (simp_all add: distinct_in_order_def)

lemma distinct_in_order_length: "length (distinct_in_order xs) = card (set xs)"
  using distinct_card [of "distinct_in_order xs"] by simp

text \<open>
  The report of a live book, by the number of strategies that share an ancestor within the
  generations: the dominant ancestor is shared by the most.
\<close>

lemma collapse_report_dominant:
  assumes "0 \<le> generations" "live \<noteq> []"
  shows "\<exists>r. lineage_collapse_report g live generations threshold = Inr r \<and>
    (case dominant_ancestor_genome_hash r of
       None \<Rightarrow> \<not> is_collapsed r \<and> (\<forall>a. card (sharers_of g generations (set live) a) < 2)
     | Some d \<Rightarrow>
         (\<forall>a. card (sharers_of g generations (set live) a) \<le> card (sharers_of g generations (set live) d)) \<and>
         2 \<le> card (sharers_of g generations (set live) d) \<and>
         dominant_share_fraction r =
           context_round (of_nat (card (sharers_of g generations (set live) d)) / of_nat (card (set live))) \<and>
         (is_collapsed r \<longleftrightarrow> threshold < dominant_share_fraction r))"
proof -
  let ?n = "\<lambda>a. card (sharers_of g generations (set live) a)"
  have live: "distinct_in_order live \<noteq> []" using assms(2) by (metis distinct_in_order_set(1) set_empty)
  have "sharers_ok [] (\<lambda>_. {})" by (simp add: sharers_ok_def)
  from collect_sharers_ok [OF assms(1) this, of g "distinct_in_order live"] obtain sharers where
    sharers: "collect_sharers g generations (distinct_in_order live) [] = Inr sharers"
      "sharers_ok sharers (sharers_of g generations (set live))" by auto
  define shared where "shared = filter (\<lambda>(_, ds). MIN_SHARING_STRATEGIES \<le> card ds) sharers"
  have member: "(a, ds) \<in> set sharers \<longleftrightarrow> ds = sharers_of g generations (set live) a \<and> ds \<noteq> {}" for a ds
    using sharers(2) by (auto simp: sharers_ok_def simp flip: map_of_eq_Some_iff)
  have in_shared: "(a, ds) \<in> set shared \<longleftrightarrow> ds = sharers_of g generations (set live) a \<and> 2 \<le> card ds" for a ds
    using member by (auto simp: shared_def MIN_SHARING_STRATEGIES_def)
  show ?thesis
  proof (cases "shared = []")
    case True
    then have "?n a < 2" for a using in_shared [of a] by (auto simp: not_le)
    moreover have "lineage_collapse_report g live generations threshold =
        Inr (no_collapse (length (distinct_in_order live)) generations threshold)"
      using live sharers(1) True by (simp add: lineage_collapse_report_def Let_def shared_def [symmetric])
    ultimately show ?thesis by (simp add: no_collapse_def)
  next
    case False
    let ?key = "\<lambda>(ancestor :: string, ds :: string set). (- int (card ds), ancestor)"
    obtain d ds where top: "hd (sort_key ?key shared) = (d, ds)" by fastforce
    have ne: "sort_key ?key shared \<noteq> []" using False by (metis set_empty set_sort)
    have d: "(d, ds) \<in> set shared" using hd_in_set [OF ne] top by simp
    have "?key (d, ds) \<le> ?key y" if "y \<in> set shared" for y
    proof -
      have "sorted (map ?key (sort_key ?key shared))" by simp
      then have "\<forall>y \<in> set (sort_key ?key shared). ?key (hd (sort_key ?key shared)) \<le> ?key y"
        using ne by (cases "sort_key ?key shared") auto
      then show ?thesis using that top by simp
    qed
    then have least: "card es \<le> card ds" if "(a, es) \<in> set shared" for a es
      using that by (fastforce simp: less_eq_prod_def)
    have ds: "ds = sharers_of g generations (set live) d" "2 \<le> card ds" using d in_shared by auto
    have "?n a \<le> ?n d" for a
      using least [of a] in_shared [of a] ds by (cases "2 \<le> ?n a") auto
    moreover have "lineage_collapse_report g live generations threshold =
        Inr \<lparr>live_strategy_count = card (set live), report_max_generations = generations,
          threshold_fraction = threshold, dominant_ancestor_genome_hash = Some d,
          dominant_share_fraction = context_round (of_nat (card ds) / of_nat (card (set live))),
          is_collapsed = (threshold < context_round (of_nat (card ds) / of_nat (card (set live))))\<rparr>"
      using live sharers(1) False top assms(2)
      by (simp add: lineage_collapse_report_def Let_def shared_def [symmetric] ddiv_def distinct_in_order_length)
    ultimately show ?thesis using ds by simp
  qed
qed

section \<open>Properties\<close>

text \<open>
  C39. The genealogy stays acyclic. Constructing a graph always returns, and accepts it
  exactly when its edges have no cycle; and for an accepted graph, the check made before a
  genome is recorded lets its declared parents through exactly when the graph with them is
  acyclic again, however deep the cycle would have been.
\<close>

theorem genealogy_stays_acyclic:
  "\<exists>r. require_acyclic g = Some r \<and> (r = Inr () \<longleftrightarrow> acyclic (edges g)) \<and>
    (r = Inr () \<longrightarrow>
      (check_parents g child ps = Inr () \<longleftrightarrow> acyclic (edges g \<union> {child} \<times> set ps)))"
  using require_acyclic_result [of g] check_parents_iff [of g child ps]
    add_parents_acyclic [of "set ps" "edges g" child] by auto

definition example_lineage :: lineage_graph where
  "example_lineage = [(''b'', [''a'']), (''c'', [''b'']), (''d'', [''b'', ''c''])]"

lemma example_lineage_accepted: "require_acyclic example_lineage = Some (Inr ())"
  by code_simp

theorem genealogy_stays_acyclic_witness:
  "require_acyclic example_lineage = Some (Inr ()) \<and> acyclic (edges example_lineage) \<and>
   \<not> acyclic (edges example_lineage \<union> {''a''} \<times> {''d''})"
proof -
  have "check_parents example_lineage ''a'' [''d''] \<noteq> Inr ()" by code_simp
  with genealogy_stays_acyclic [of example_lineage "''a''" "[''d'']"] example_lineage_accepted
  show ?thesis by auto
qed

text \<open>
  A defect is found in everything it was passed to, and nowhere else: the sweep of the
  descendants returns at any depth exactly the genomes from which a chain of parents leads
  to the defective one; and the bounded walk reports every ancestor within its generations,
  and no other, at the length of its shortest chain.
\<close>

theorem descendants_are_exact:
  assumes "distinct (map fst g)" and "0 \<le> generations"
  shows "descendants_of g node = {x. (x, node) \<in> (edges g)\<^sup>+} \<and>
    (\<exists>reached. ancestors_within g node generations = Inr reached \<and>
      (\<forall>a n. map_of reached a = Some n \<longleftrightarrow>
        (node, a) \<in> edges g ^^ n \<and> (\<forall>m < n. (node, a) \<notin> edges g ^^ m) \<and> int n \<le> generations))"
  using descendants_iff [OF assms(1)] ancestors_within_iff [OF assms(2), of g node]
  by (simp add: ancestor_at_def conj_assoc)

theorem descendants_are_exact_witness:
  "{x. (x, ''a'') \<in> (edges example_lineage)\<^sup>+} = {''b'', ''c'', ''d''}"
proof -
  have "distinct (map fst example_lineage)" by (simp add: example_lineage_def)
  moreover have "descendants_of example_lineage ''a'' = {''b'', ''c'', ''d''}" by code_simp
  ultimately show ?thesis using descendants_are_exact [of example_lineage 0 "''a''"] by simp
qed

end
