(* ===== verification/Schedules.thy ===== *)
theory Schedules
  imports Guards
begin

text \<open>
  \<open>src/fking/backtest/walkforward/_schedule.py\<close>: the horizons a strategy declares, the plan
  of a walk-forward validation, the folds it admits and the windows a fold is scored on.
  The two unbounded loops are \<open>partial_function\<close>s, so that not returning is a value; the
  lemmas show that on accepted arguments they return, and what they return.
\<close>

section \<open>Declared horizons\<close>

definition MINIMUM_FOLDS :: nat where
  "MINIMUM_FOLDS = 2"

datatype walk_forward_scheme = ANCHORED | ROLLING

definition wf_require_utc :: "pyobj \<Rightarrow> string \<Rightarrow> (string \<Rightarrow> exn) \<Rightarrow> int result" where
  "wf_require_utc candidate field failure = utc_guard failure candidate field"

definition wf_require_positive_span :: "pyobj \<Rightarrow> string \<Rightarrow> int result" where
  "wf_require_positive_span candidate field =
     (case candidate of
        PyTimedelta d \<Rightarrow>
          if d \<le> 0 then Inl (WalkForwardConfigError (field @ '' not positive'')) else Inr d
      | _ \<Rightarrow> Inl (WalkForwardConfigError (field @ '' type'')))"

definition wf_require_non_negative_span :: "pyobj \<Rightarrow> string \<Rightarrow> int result" where
  "wf_require_non_negative_span candidate field =
     (case candidate of
        PyTimedelta d \<Rightarrow>
          if d < 0 then Inl (WalkForwardConfigError (field @ '' negative'')) else Inr d
      | _ \<Rightarrow> Inl (WalkForwardConfigError (field @ '' type'')))"

lemma wf_require_utc_utc [simp]: "wf_require_utc (utc t) field failure = Inr t"
  by (simp add: wf_require_utc_def)

lemma wf_require_positive_span_accepts [guard_simps]:
  "wf_require_positive_span c field = Inr d \<longleftrightarrow> c = PyTimedelta d \<and> 0 < d"
  by (auto simp: wf_require_positive_span_def split: pyobj.splits if_splits)

lemma wf_require_non_negative_span_accepts [guard_simps]:
  "wf_require_non_negative_span c field = Inr d \<longleftrightarrow> c = PyTimedelta d \<and> 0 \<le> d"
  by (auto simp: wf_require_non_negative_span_def split: pyobj.splits if_splits)

record wf_declaration =
  label_horizon :: int
  availability_lag :: int
  max_feature_lookback :: int
  max_holding_horizon :: int

definition declaration_post_init :: "wf_declaration \<Rightarrow> unit result" where
  [post_init_defs]: "declaration_post_init d = run_checks
     [void (wf_require_positive_span (PyTimedelta (label_horizon d)) ''label_horizon''),
      void (wf_require_non_negative_span (PyTimedelta (availability_lag d)) ''availability_lag''),
      void (wf_require_non_negative_span (PyTimedelta (max_feature_lookback d))
        ''max_feature_lookback''),
      void (wf_require_positive_span (PyTimedelta (max_holding_horizon d)) ''max_holding_horizon'')]"

definition declared_purge :: "wf_declaration \<Rightarrow> int" where
  "declared_purge d = label_horizon d + availability_lag d"

definition declared_embargo :: "wf_declaration \<Rightarrow> int" where
  "declared_embargo d = (let floor_span = max_feature_lookback d + max_holding_horizon d
     in max floor_span (declared_purge d))"

definition declared_gap :: "wf_declaration \<Rightarrow> int" where
  "declared_gap d = declared_purge d + declared_embargo d"

section \<open>Plans, folds and schedules\<close>

record walk_forward_plan =
  plan_scheme :: walk_forward_scheme
  plan_start_utc :: int
  plan_end_utc :: int
  train_span :: int
  test_span :: int
  refit_step :: int
  plan_declaration :: wf_declaration

definition walk_forward_plan_post_init :: "walk_forward_plan \<Rightarrow> unit result" where
  [post_init_defs]: "walk_forward_plan_post_init p = run_checks
     [void (wf_require_utc (utc (plan_start_utc p)) ''start_utc'' WalkForwardConfigError),
      void (wf_require_utc (utc (plan_end_utc p)) ''end_utc'' WalkForwardConfigError),
      void (wf_require_positive_span (PyTimedelta (train_span p)) ''train_span''),
      void (wf_require_positive_span (PyTimedelta (test_span p)) ''test_span''),
      void (wf_require_positive_span (PyTimedelta (refit_step p)) ''step''),
      ensure (\<not> plan_end_utc p \<le> plan_start_utc p) (WalkForwardConfigError ''end_utc before start_utc''),
      ensure (\<not> refit_step p > test_span p) (WalkForwardConfigError ''step exceeds test_span'')]"

record fold_window =
  fold_index :: int
  train_start_utc :: int
  train_end_utc :: int
  test_start_utc :: int
  test_end_utc :: int

definition fold_post_init :: "fold_window \<Rightarrow> unit result" where
  [post_init_defs]: "fold_post_init f = run_checks
     [void (wf_require_utc (utc (train_start_utc f)) ''train_start_utc'' WalkForwardConfigError),
      void (wf_require_utc (utc (train_end_utc f)) ''train_end_utc'' WalkForwardConfigError),
      void (wf_require_utc (utc (test_start_utc f)) ''test_start_utc'' WalkForwardConfigError),
      void (wf_require_utc (utc (test_end_utc f)) ''test_end_utc'' WalkForwardConfigError),
      ensure (\<not> train_end_utc f \<le> train_start_utc f) (WalkForwardConfigError ''train window empty''),
      ensure (\<not> test_end_utc f \<le> test_start_utc f) (WalkForwardConfigError ''test window empty''),
      ensure (\<not> train_end_utc f \<ge> test_start_utc f)
        (WalkForwardConfigError ''train window reaches test window'')]"

definition fold_gap :: "fold_window \<Rightarrow> int" where
  "fold_gap f = test_start_utc f - train_end_utc f"

record walk_forward_schedule =
  schedule_plan :: walk_forward_plan
  schedule_folds :: "fold_window list"
  schedule_purge :: int
  schedule_embargo :: int

definition schedule_post_init :: "walk_forward_schedule \<Rightarrow> unit result" where
  [post_init_defs]: "schedule_post_init s =
     ensure (\<not> length (schedule_folds s) < MINIMUM_FOLDS) (ScheduleRefusedError ''folds'')"

definition fold_total :: "walk_forward_schedule \<Rightarrow> nat" where
  "fold_total s = length (schedule_folds s)"

section \<open>Building a schedule\<close>

partial_function (option) fold_loop ::
  "walk_forward_plan \<Rightarrow> int \<Rightarrow> int \<Rightarrow> fold_window list \<Rightarrow> int \<Rightarrow> fold_window list result option" where
  "fold_loop plan gap first_test_start folds index =
     (let test_start = first_test_start + index * refit_step plan;
          test_end = test_start + test_span plan
      in if test_end > plan_end_utc plan then Some (Inr folds)
         else let train_end = test_start - gap;
                  train_start = (if plan_scheme plan = ANCHORED then plan_start_utc plan
                                 else train_end - train_span plan)
              in case construct fold_post_init
                        \<lparr>fold_index = index, train_start_utc = train_start,
                          train_end_utc = train_end, test_start_utc = test_start,
                          test_end_utc = test_end\<rparr> of
                   Inl e \<Rightarrow> Some (Inl e)
                 | Inr f \<Rightarrow> fold_loop plan gap first_test_start (folds @ [f]) (index + 1))"

definition build_schedule :: "walk_forward_plan \<Rightarrow> walk_forward_schedule result option" where
  "build_schedule plan =
     (let declaration = plan_declaration plan;
          gap = declared_gap declaration;
          first_test_start = plan_start_utc plan + train_span plan + gap
      in map_option
           (\<lambda>r. and_then r (\<lambda>folds.
              and_then (ensure (\<not> length folds < MINIMUM_FOLDS) (ScheduleRefusedError ''window''))
                (\<lambda>_. construct schedule_post_init
                   \<lparr>schedule_plan = plan, schedule_folds = folds,
                     schedule_purge = declared_purge declaration,
                     schedule_embargo = declared_embargo declaration\<rparr>)))
           (fold_loop plan gap first_test_start [] 0))"

partial_function (option) segment_loop ::
  "fold_window \<Rightarrow> int \<Rightarrow> (int \<times> int) list \<Rightarrow> int \<Rightarrow> (int \<times> int) list option" where
  "segment_loop f segment_span windows cursor =
     (if cursor + segment_span \<le> test_end_utc f
      then segment_loop f segment_span (windows @ [(cursor, cursor + segment_span)])
             (cursor + segment_span)
      else Some windows)"

definition segment_windows :: "fold_window \<Rightarrow> pyobj \<Rightarrow> (int \<times> int) list result option" where
  "segment_windows f segment_span =
     (case wf_require_positive_span segment_span ''segment_span'' of
        Inl e \<Rightarrow> Some (Inl e)
      | Inr d \<Rightarrow> map_option Inr (segment_loop f d [] (test_start_utc f)))"

definition fold_by_index :: "fold_window list \<Rightarrow> int \<Rightarrow> fold_window result" where
  "fold_by_index folds index =
     (case find (\<lambda>f. fold_index f = index) folds of
        Some f \<Rightarrow> Inr f
      | None \<Rightarrow> Inl (WalkForwardConfigError ''no fold with index''))"

section \<open>Counted loops\<close>

text \<open>
  How many equal steps fit: the number of indices \<open>k\<close> with \<open>from_here + k * step + width \<le> limit\<close>.
\<close>

definition steps_that_fit :: "int \<Rightarrow> int \<Rightarrow> int \<Rightarrow> int \<Rightarrow> nat" where
  "steps_that_fit from_here step width limit = nat ((limit - from_here - width) div step + 1)"

lemma mult_le_iff_le_div:
  fixes a b c :: int
  assumes "0 < b"
  shows "a * b \<le> c \<longleftrightarrow> a \<le> c div b"
proof
  assume "a * b \<le> c"
  from zdiv_mono1 [OF this assms] assms show "a \<le> c div b" by simp
next
  assume "a \<le> c div b"
  then have "a * b \<le> c div b * b" using assms by (simp add: mult_right_mono)
  also have "\<dots> = c - c mod b" by (simp add: minus_mod_eq_div_mult)
  also have "\<dots> \<le> c" using assms by simp
  finally show "a * b \<le> c" .
qed

lemma fits_iff:
  assumes "0 < step"
  shows "from_here + int k * step + width \<le> limit \<longleftrightarrow> k < steps_that_fit from_here step width limit"
proof -
  have "from_here + int k * step + width \<le> limit \<longleftrightarrow> int k * step \<le> limit - from_here - width" by linarith
  also have "\<dots> \<longleftrightarrow> int k \<le> (limit - from_here - width) div step"
    by (rule mult_le_iff_le_div [OF assms])
  finally show ?thesis unfolding steps_that_fit_def by linarith
qed

section \<open>What the loops return\<close>

abbreviation accepted_plan :: "walk_forward_plan \<Rightarrow> bool" where
  "accepted_plan plan \<equiv> walk_forward_plan_post_init plan = Inr ()
     \<and> declaration_post_init (plan_declaration plan) = Inr ()"

abbreviation plan_gap :: "walk_forward_plan \<Rightarrow> int" where
  "plan_gap plan \<equiv> declared_gap (plan_declaration plan)"

abbreviation first_test_start :: "walk_forward_plan \<Rightarrow> int" where
  "first_test_start plan \<equiv> plan_start_utc plan + train_span plan + plan_gap plan"

definition fold_at :: "walk_forward_plan \<Rightarrow> nat \<Rightarrow> fold_window" where
  "fold_at plan k =
     (let test_start = first_test_start plan + int k * refit_step plan;
          train_end = test_start - plan_gap plan
      in \<lparr>fold_index = int k,
          train_start_utc = (if plan_scheme plan = ANCHORED then plan_start_utc plan
                             else train_end - train_span plan),
          train_end_utc = train_end,
          test_start_utc = test_start, test_end_utc = test_start + test_span plan\<rparr>)"

definition fold_count :: "walk_forward_plan \<Rightarrow> nat" where
  "fold_count plan =
     steps_that_fit (first_test_start plan) (refit_step plan) (test_span plan) (plan_end_utc plan)"

lemma accepted_planD:
  assumes "accepted_plan plan"
  shows "0 < train_span plan" "0 < test_span plan" "0 < refit_step plan"
    "refit_step plan \<le> test_span plan" "0 < declared_purge (plan_declaration plan)"
    "declared_purge (plan_declaration plan) \<le> declared_embargo (plan_declaration plan)"
    "max_feature_lookback (plan_declaration plan) + max_holding_horizon (plan_declaration plan)
       \<le> declared_embargo (plan_declaration plan)"
    "0 < plan_gap plan"
  using assms
  by (auto simp: post_init_defs guard_simps declared_gap_def declared_purge_def declared_embargo_def
      Let_def)

lemma fold_at_accepted:
  assumes "accepted_plan plan"
  shows "fold_post_init (fold_at plan k) = Inr ()"
  using accepted_planD [OF assms] by (simp add: post_init_defs fold_at_def Let_def add_pos_nonneg not_le)

lemma fold_loop_returns:
  assumes ok: "accepted_plan plan" and "k \<le> fold_count plan"
  shows "fold_loop plan (plan_gap plan) (first_test_start plan) fs (int k) =
    Some (Inr (fs @ map (fold_at plan) [k..<fold_count plan]))"
  using assms(2)
proof (induction "fold_count plan - k" arbitrary: k fs)
  case 0
  then have "\<not> first_test_start plan + int k * refit_step plan + test_span plan \<le> plan_end_utc plan"
    using fits_iff [OF accepted_planD(3) [OF ok]] by (simp add: fold_count_def)
  then show ?case using 0 by (subst fold_loop.simps) (simp add: Let_def)
next
  case (Suc m)
  then have k: "k < fold_count plan" by simp
  then have fits: "first_test_start plan + int k * refit_step plan + test_span plan \<le> plan_end_utc plan"
    using fits_iff [OF accepted_planD(3) [OF ok]] by (simp add: fold_count_def)
  have "fold_loop plan (plan_gap plan) (first_test_start plan) fs (int k) =
      fold_loop plan (plan_gap plan) (first_test_start plan) (fs @ [fold_at plan k]) (int k + 1)"
    using fits construct_ok [of fold_post_init, OF fold_at_accepted [OF ok, of k]]
    unfolding fold_at_def Let_def
    by (subst fold_loop.simps) (simp only: Let_def not_less [symmetric] if_False sum.case)
  also have "\<dots> = Some (Inr (fs @ fold_at plan k # map (fold_at plan) [Suc k..<fold_count plan]))"
    using Suc.hyps(1) [of "Suc k" "fs @ [fold_at plan k]"] Suc.hyps(2) k by (simp add: add.commute)
  finally show ?case using k by (simp add: upt_conv_Cons)
qed

lemma build_schedule_returns:
  assumes "accepted_plan plan"
  shows "build_schedule plan = Some
    (if fold_count plan < MINIMUM_FOLDS then Inl (ScheduleRefusedError ''window'')
     else Inr \<lparr>schedule_plan = plan, schedule_folds = map (fold_at plan) [0..<fold_count plan],
            schedule_purge = declared_purge (plan_declaration plan),
            schedule_embargo = declared_embargo (plan_declaration plan)\<rparr>)"
  using fold_loop_returns [OF assms, of 0 "[]"]
  by (simp add: build_schedule_def Let_def ensure_def construct_def schedule_post_init_def)

lemma segment_loop_returns:
  assumes "0 < d" "k \<le> n" "n = steps_that_fit (test_start_utc f) d d (test_end_utc f)"
  shows "segment_loop f d ws (test_start_utc f + int k * d) =
    Some (ws @ map (\<lambda>i. (test_start_utc f + int i * d, test_start_utc f + int (Suc i) * d)) [k..<n])"
  using assms(2)
proof (induction "n - k" arbitrary: k ws)
  case 0
  then show ?case
    using fits_iff [OF assms(1), of "test_start_utc f" k d "test_end_utc f"] assms(3)
    by (subst segment_loop.simps) simp
next
  case (Suc m)
  then show ?case
    using fits_iff [OF assms(1), of "test_start_utc f" k d "test_end_utc f"] assms(3)
      Suc.hyps(1) [of "Suc k" "ws @ [(test_start_utc f + int k * d, test_start_utc f + int (Suc k) * d)]"]
    by (subst segment_loop.simps) (simp add: upt_conv_Cons algebra_simps)
qed

lemma fold_at_simps [simp]:
  "fold_index (fold_at plan k) = int k"
  "test_start_utc (fold_at plan k) = first_test_start plan + int k * refit_step plan"
  "test_end_utc (fold_at plan k) = first_test_start plan + int k * refit_step plan + test_span plan"
  "train_end_utc (fold_at plan k) = plan_start_utc plan + train_span plan + int k * refit_step plan"
  "train_start_utc (fold_at plan k) = (if plan_scheme plan = ANCHORED then plan_start_utc plan
     else plan_start_utc plan + int k * refit_step plan)"
  by (simp_all add: fold_at_def Let_def)

lemma scored_instant:
  fixes t first step width :: int
  assumes "0 < step" "step \<le> width" "0 < n" "a \<le> t" "t < a + int (n - 1) * step + width"
  shows "\<exists>k<n. a + int k * step \<le> t \<and> t < a + int k * step + width"
proof -
  define k where "k = min (nat ((t - a) div step)) (n - 1)"
  have div: "(t - a) div step * step \<le> t - a" "t - a < ((t - a) div step + 1) * step"
    using assms(1) mult_le_iff_le_div [OF assms(1), of "(t - a) div step" "t - a"]
      mult_le_iff_le_div [OF assms(1), of "(t - a) div step + 1" "t - a"] by auto
  have nonneg: "0 \<le> (t - a) div step" using assms by (simp add: pos_imp_zdiv_nonneg_iff)
  then have "int k \<le> (t - a) div step" by (simp add: k_def)
  then have "int k * step \<le> (t - a) div step * step" using assms(1) by simp
  moreover have "t < a + int k * step + width"
  proof (cases "k = n - 1")
    case True
    then show ?thesis using assms by simp
  next
    case False
    then have "int k = (t - a) div step" using nonneg by (simp add: k_def min_def split: if_splits)
    with div(2) have "t - a < int k * step + step" by (simp add: algebra_simps)
    then show ?thesis using assms by linarith
  qed
  moreover have "k < n" using assms by (simp add: k_def)
  ultimately show ?thesis using div(1) by (intro exI [of _ k]) linarith
qed

definition refit_by :: "walk_forward_plan \<Rightarrow> fold_window \<Rightarrow> fold_window \<Rightarrow> bool" where
  "refit_by plan f g \<longleftrightarrow> test_start_utc g = test_start_utc f + refit_step plan"

text \<open>A fold that a model fitted on it cannot have seen its own test window through.\<close>

definition sound_fold :: "walk_forward_plan \<Rightarrow> fold_window \<Rightarrow> bool" where
  "sound_fold plan f \<longleftrightarrow>
     fold_gap f = declared_purge (plan_declaration plan) + declared_embargo (plan_declaration plan)
     \<and> test_end_utc f = test_start_utc f + test_span plan \<and> test_end_utc f \<le> plan_end_utc plan
     \<and> plan_start_utc plan \<le> train_start_utc f
     \<and> train_span plan \<le> train_end_utc f - train_start_utc f
     \<and> (if plan_scheme plan = ANCHORED then train_start_utc f = plan_start_utc plan
        else train_end_utc f - train_start_utc f = train_span plan)"

lemma fold_at_sound:
  assumes "accepted_plan plan" "k < fold_count plan"
  shows "sound_fold plan (fold_at plan k)"
  using assms(2) accepted_planD [OF assms(1)] fits_iff [OF accepted_planD(3) [OF assms(1)]]
  by (simp add: sound_fold_def fold_gap_def fold_count_def declared_gap_def)

section \<open>Windows inside a fold\<close>

lemma segment_windows_partition:
  assumes "test_start_utc f < test_end_utc f" "0 < d"
  shows "\<exists>ws. segment_windows f (PyTimedelta d) = Some (Inr ws)
    \<and> length ws = nat ((test_end_utc f - test_start_utc f) div d)
    \<and> (\<forall>i < length ws. ws ! i = (test_start_utc f + int i * d, test_start_utc f + int (Suc i) * d))
    \<and> test_end_utc f - (test_start_utc f + int (length ws) * d) < d"
proof -
  let ?n = "steps_that_fit (test_start_utc f) d d (test_end_utc f)"
  let ?ws = "map (\<lambda>i. (test_start_utc f + int i * d, test_start_utc f + int (Suc i) * d)) [0..<?n]"
  have n: "?n = nat ((test_end_utc f - test_start_utc f) div d)"
    using assms div_add_self2 [of d "test_end_utc f - test_start_utc f - d"]
    by (simp add: steps_that_fit_def)
  have "segment_windows f (PyTimedelta d) = Some (Inr ?ws)"
    using segment_loop_returns [OF assms(2) _ refl, of 0 f "[]"] assms
    by (simp add: segment_windows_def wf_require_positive_span_def)
  moreover have "\<not> test_start_utc f + int ?n * d + d \<le> test_end_utc f"
    using fits_iff [OF assms(2)] by blast
  ultimately show ?thesis using n by (intro exI [of _ ?ws]) auto
qed

lemma fold_by_index_distinct:
  assumes "distinct (map fold_index fs)" "f \<in> set fs"
  shows "fold_by_index fs (fold_index f) = Inr f"
  using assms by (induction fs) (auto simp: fold_by_index_def)

lemma schemes_share_their_folds:
  assumes "accepted_plan plan" "build_schedule (plan\<lparr>plan_scheme := ANCHORED\<rparr>) = Some (Inr s)"
  shows "build_schedule (plan\<lparr>plan_scheme := ROLLING\<rparr>) = Some (Inr (s
      \<lparr>schedule_plan := plan\<lparr>plan_scheme := ROLLING\<rparr>,
       schedule_folds := map (\<lambda>f. f\<lparr>train_start_utc := train_end_utc f - train_span plan\<rparr>)
         (schedule_folds s)\<rparr>))"
    and "train_start_utc (hd (schedule_folds s)) = train_end_utc (hd (schedule_folds s)) - train_span plan"
proof -
  have same: "accepted_plan (plan\<lparr>plan_scheme := c\<rparr>)" "fold_count (plan\<lparr>plan_scheme := c\<rparr>) = fold_count plan" for c
    using assms(1) by (simp_all add: post_init_defs fold_count_def)
  have shift: "fold_at (plan\<lparr>plan_scheme := ROLLING\<rparr>) k = (fold_at (plan\<lparr>plan_scheme := ANCHORED\<rparr>) k)
      \<lparr>train_start_utc := train_end_utc (fold_at (plan\<lparr>plan_scheme := ANCHORED\<rparr>) k) - train_span plan\<rparr>" for k
    by (simp add: fold_at_def Let_def)
  from assms(2) have "MINIMUM_FOLDS \<le> fold_count plan" and s: "s =
      \<lparr>schedule_plan = plan\<lparr>plan_scheme := ANCHORED\<rparr>,
       schedule_folds = map (fold_at (plan\<lparr>plan_scheme := ANCHORED\<rparr>)) [0..<fold_count plan],
       schedule_purge = declared_purge (plan_declaration plan),
       schedule_embargo = declared_embargo (plan_declaration plan)\<rparr>"
    by (auto simp: build_schedule_returns [OF same(1)] same(2) split: if_splits)
  then show "build_schedule (plan\<lparr>plan_scheme := ROLLING\<rparr>) = Some (Inr (s
      \<lparr>schedule_plan := plan\<lparr>plan_scheme := ROLLING\<rparr>,
       schedule_folds := map (\<lambda>f. f\<lparr>train_start_utc := train_end_utc f - train_span plan\<rparr>)
         (schedule_folds s)\<rparr>))"
    by (simp add: build_schedule_returns [OF same(1)] same(2) shift del: fold_at_simps)
  show "train_start_utc (hd (schedule_folds s)) = train_end_utc (hd (schedule_folds s)) - train_span plan"
    using \<open>MINIMUM_FOLDS \<le> fold_count plan\<close> by (simp add: s MINIMUM_FOLDS_def hd_map)
qed

section \<open>Properties\<close>

definition example_plan :: walk_forward_plan where
  "example_plan = \<lparr>plan_scheme = ROLLING, plan_start_utc = 0, plan_end_utc = 100, train_span = 20,
     test_span = 10, refit_step = 10,
     plan_declaration = \<lparr>label_horizon = 1, availability_lag = 1, max_feature_lookback = 2,
       max_holding_horizon = 2\<rparr>\<rparr>"

lemma example_plan_accepted: "accepted_plan example_plan"
  by (simp add: example_plan_def post_init_defs guard_simps)

text \<open>
  C40. A walk-forward never trains on what it is scored on, and scores every instant it
  reports. For every plan and declaration their constructors accept, \<open>build_schedule\<close>
  returns. It refuses only a window with room for fewer than two folds. Otherwise every
  fold leaves purge plus embargo between its training window and its test window, trains
  on at least \<open>train_span\<close> (exactly that when rolling, from the plan's start when anchored),
  and tests inside the plan's window; the folds are numbered in order and one re-fit step
  apart, no instant between the first and the last test window goes unscored, and no
  further fold would fit.
\<close>

theorem walk_forward_never_trains_on_its_test:
  assumes "walk_forward_plan_post_init plan = Inr ()"
    and "declaration_post_init (plan_declaration plan) = Inr ()"
  shows "\<exists>r. build_schedule plan = Some r \<and>
    (case r of
       Inl e \<Rightarrow> e = ScheduleRefusedError ''window''
         \<and> plan_end_utc plan < plan_start_utc plan + train_span plan
             + declared_gap (plan_declaration plan) + refit_step plan + test_span plan
     | Inr s \<Rightarrow>
         (let folds = schedule_folds s in
          MINIMUM_FOLDS \<le> fold_total s \<and> map fold_index folds = map int [0..<fold_total s]
          \<and> (\<forall>f \<in> set folds. sound_fold plan f)
          \<and> successively (refit_by plan) folds
          \<and> (\<forall>t. test_start_utc (hd folds) \<le> t \<and> t < test_end_utc (last folds)
               \<longrightarrow> (\<exists>f \<in> set folds. test_start_utc f \<le> t \<and> t < test_end_utc f))
          \<and> plan_end_utc plan < test_end_utc (last folds) + refit_step plan))"
proof -
  let ?n = "fold_count plan"
  have ok: "accepted_plan plan" using assms by simp
  note bounds = accepted_planD [OF ok]
  have fits: "first_test_start plan + int k * refit_step plan + test_span plan \<le> plan_end_utc plan
      \<longleftrightarrow> k < ?n" for k
    using fits_iff [OF bounds(3)] by (simp add: fold_count_def)
  show ?thesis
  proof (cases "?n < MINIMUM_FOLDS")
    case True
    then show ?thesis using fits [of 1] by (simp add: build_schedule_returns [OF ok] MINIMUM_FOLDS_def not_le)
  next
    case False
    then have n: "2 \<le> ?n" by (simp add: MINIMUM_FOLDS_def)
    let ?fs = "map (fold_at plan) [0..<?n]"
    have ends: "hd ?fs = fold_at plan 0" "last ?fs = fold_at plan (?n - 1)"
      using n by (simp_all add: hd_map last_map)
    have scored: "\<exists>f \<in> set ?fs. test_start_utc f \<le> t \<and> t < test_end_utc f"
      if "test_start_utc (hd ?fs) \<le> t" "t < test_end_utc (last ?fs)" for t
      using scored_instant [OF bounds(3,4), of ?n "first_test_start plan" t] that n unfolding ends by auto
    have "plan_end_utc plan < test_end_utc (last ?fs) + refit_step plan"
      using fits [of ?n] n unfolding ends by (simp add: algebra_simps of_nat_diff)
    moreover have "successively (refit_by plan) ?fs"
      by (auto simp: successively_conv_nth refit_by_def algebra_simps)
    ultimately show ?thesis
      using False scored fold_at_sound [OF ok]
      by (auto simp: build_schedule_returns [OF ok] fold_total_def Let_def)
  qed
qed

lemma walk_forward_never_trains_on_its_test_witness:
  "\<exists>s. build_schedule example_plan = Some (Inr s) \<and> fold_total s = 7
    \<and> (\<forall>f \<in> set (schedule_folds s). sound_fold example_plan f)"
proof -
  have seven: "fold_count example_plan = 7"
    by (simp add: fold_count_def steps_that_fit_def example_plan_def declared_gap_def
        declared_embargo_def declared_purge_def)
  with walk_forward_never_trains_on_its_test [of example_plan] example_plan_accepted show ?thesis
    by (auto simp: build_schedule_returns MINIMUM_FOLDS_def fold_total_def Let_def)
qed

end
