(* ===== verification/Partition.thy ===== *)
theory Partition
  imports Schedules "HOL-Library.Product_Lexorder"
begin

text \<open>
  \<open>src/fking/backtest/cpcv/_partition.py\<close>: combinatorial purged cross-validation. The window
  is cut into groups by integer arithmetic, every combination of groups is a test set, and a
  split trains on what is left of the window once each test block, widened by the purge
  before it and the embargo after it, is taken out. Spans of time are read as the sets of
  instants they hold, which is what the lemmas compute with.
\<close>

section \<open>Guards and intervals\<close>

definition MINIMUM_GROUPS :: int where
  "MINIMUM_GROUPS = 3"

definition cpcv_require_utc :: "pyobj \<Rightarrow> string \<Rightarrow> int result" where
  "cpcv_require_utc = utc_guard CpcvConfigError"

definition cpcv_require_non_negative_span :: "pyobj \<Rightarrow> string \<Rightarrow> int result" where
  "cpcv_require_non_negative_span candidate field =
     (case candidate of
        PyTimedelta d \<Rightarrow> if d < 0 then Inl (CpcvConfigError (field @ '' negative'')) else Inr d
      | _ \<Rightarrow> Inl (CpcvConfigError (field @ '' type'')))"

definition cpcv_require_index :: "pyobj \<Rightarrow> string \<Rightarrow> int result" where
  "cpcv_require_index candidate field =
     (case candidate of
        PyInt n \<Rightarrow> if n < 0 then Inl (CpcvConfigError (field @ '' negative'')) else Inr n
      | _ \<Rightarrow> Inl (CpcvConfigError (field @ '' type'')))"

lemma cpcv_require_utc_utc [simp]: "cpcv_require_utc (utc t) field = Inr t"
  by (simp add: cpcv_require_utc_def)

lemma cpcv_require_non_negative_span_accepts [guard_simps]:
  "cpcv_require_non_negative_span c field = Inr d \<longleftrightarrow> c = PyTimedelta d \<and> 0 \<le> d"
  by (auto simp: cpcv_require_non_negative_span_def split: pyobj.splits if_splits)

lemma cpcv_require_index_accepts [guard_simps]:
  "cpcv_require_index c field = Inr n \<longleftrightarrow> c = PyInt n \<and> 0 \<le> n"
  by (auto simp: cpcv_require_index_def split: pyobj.splits if_splits)

record time_interval =
  interval_start_utc :: int
  interval_end_utc :: int

definition interval_post_init :: "time_interval \<Rightarrow> unit result" where
  [post_init_defs]: "interval_post_init i = run_checks
     [void (cpcv_require_utc (utc (interval_start_utc i)) ''start_utc''),
      void (cpcv_require_utc (utc (interval_end_utc i)) ''end_utc''),
      ensure (\<not> interval_end_utc i \<le> interval_start_utc i) (CpcvConfigError ''interval is empty'')]"

abbreviation interval :: "int \<Rightarrow> int \<Rightarrow> time_interval result" where
  "interval s e \<equiv> construct interval_post_init \<lparr>interval_start_utc = s, interval_end_utc = e\<rparr>"

definition interval_span :: "time_interval \<Rightarrow> int" where
  "interval_span i = interval_end_utc i - interval_start_utc i"

definition contains :: "time_interval \<Rightarrow> pyobj \<Rightarrow> bool result" where
  "contains i moment =
     and_then (cpcv_require_utc moment ''moment'')
       (\<lambda>t. Inr (interval_start_utc i \<le> t \<and> t < interval_end_utc i))"

definition overlaps :: "time_interval \<Rightarrow> time_interval \<Rightarrow> bool" where
  "overlaps i j \<longleftrightarrow>
     interval_start_utc i < interval_end_utc j \<and> interval_start_utc j < interval_end_utc i"

section \<open>Groups, plans, splits\<close>

record cpcv_group =
  group_index :: int
  group_interval :: time_interval

definition group_post_init :: "cpcv_group \<Rightarrow> unit result" where
  [post_init_defs]: "group_post_init g = void (cpcv_require_index (PyInt (group_index g)) ''group_index'')"

record cpcv_plan =
  cpcv_start_utc :: int
  cpcv_end_utc :: int
  group_total :: int
  test_group_size :: int
  cpcv_declaration :: wf_declaration
  cpcv_embargo :: int

definition embargo_floor :: "cpcv_plan \<Rightarrow> int" where
  "embargo_floor p =
     max_feature_lookback (cpcv_declaration p) + max_holding_horizon (cpcv_declaration p)"

definition cpcv_plan_post_init :: "cpcv_plan \<Rightarrow> unit result" where
  [post_init_defs]: "cpcv_plan_post_init p = run_checks
     [void (cpcv_require_utc (utc (cpcv_start_utc p)) ''start_utc''),
      void (cpcv_require_utc (utc (cpcv_end_utc p)) ''end_utc''),
      ensure (\<not> cpcv_end_utc p \<le> cpcv_start_utc p) (CpcvConfigError ''end_utc before start_utc''),
      void (cpcv_require_index (PyInt (group_total p)) ''group_total''),
      void (cpcv_require_index (PyInt (test_group_size p)) ''test_group_size''),
      ensure (\<not> group_total p < MINIMUM_GROUPS) (CpcvConfigError ''group_total''),
      ensure (\<not> (test_group_size p < 1 \<or> test_group_size p \<ge> group_total p))
        (CpcvConfigError ''test_group_size''),
      void (cpcv_require_non_negative_span (PyTimedelta (cpcv_embargo p)) ''embargo''),
      ensure (\<not> cpcv_embargo p < embargo_floor p) (CpcvConfigError ''embargo below floor''),
      ensure (\<not> cpcv_end_utc p - cpcv_start_utc p < group_total p) (CpcvConfigError ''window too short'')]"

definition path_total :: "cpcv_plan \<Rightarrow> nat" where
  "path_total p = nat (group_total p) choose nat (test_group_size p)"

definition cpcv_purge :: "cpcv_plan \<Rightarrow> int" where
  "cpcv_purge p = declared_purge (cpcv_declaration p)"

definition cpcv_window :: "cpcv_plan \<Rightarrow> time_interval result" where
  "cpcv_window p = interval (cpcv_start_utc p) (cpcv_end_utc p)"

record cpcv_split =
  path_index :: int
  test_group_indices :: "nat list"
  test_intervals :: "time_interval list"
  train_intervals :: "time_interval list"
  split_purge :: int
  split_embargo :: int

definition overlap_checks :: "time_interval \<Rightarrow> time_interval list \<Rightarrow> unit result list" where
  "overlap_checks forbidden trains =
     map (\<lambda>t. ensure (\<not> overlaps t forbidden) (CpcvPartitionError ''overlap'')) trains"

definition widened :: "int \<Rightarrow> int \<Rightarrow> time_interval \<Rightarrow> time_interval result" where
  "widened purge embargo i = interval (interval_start_utc i - purge) (interval_end_utc i + embargo)"

definition split_post_init :: "cpcv_split \<Rightarrow> unit result" where
  [post_init_defs]: "split_post_init s = run_checks
     ([void (cpcv_require_index (PyInt (path_index s)) ''path_index''),
       void (cpcv_require_non_negative_span (PyTimedelta (split_purge s)) ''purge''),
       void (cpcv_require_non_negative_span (PyTimedelta (split_embargo s)) ''embargo''),
       ensure (test_group_indices s \<noteq> []) (CpcvPartitionError ''no test groups''),
       ensure (test_intervals s \<noteq> []) (CpcvPartitionError ''no test intervals''),
       ensure (train_intervals s \<noteq> []) (CpcvPartitionError ''no training intervals'')] @
      map (\<lambda>i. and_then (widened (split_purge s) (split_embargo s) i)
                 (\<lambda>forbidden. run_checks (overlap_checks forbidden (train_intervals s))))
        (test_intervals s))"

definition train_time :: "cpcv_split \<Rightarrow> int" where
  "train_time s = sum_list (map interval_span (train_intervals s))"

definition test_time :: "cpcv_split \<Rightarrow> int" where
  "test_time s = sum_list (map interval_span (test_intervals s))"

record cpcv_partition =
  partition_plan :: cpcv_plan
  partition_groups :: "cpcv_group list"
  partition_splits :: "cpcv_split list"
  partition_purge :: int
  partition_embargo :: int

definition partition_post_init :: "cpcv_partition \<Rightarrow> unit result" where
  [post_init_defs]: "partition_post_init p =
     ensure (length (partition_splits p) = path_total (partition_plan p)) (CpcvConfigError ''missing a path'')"

section \<open>Building a partition\<close>

definition group_boundary :: "cpcv_plan \<Rightarrow> nat \<Rightarrow> int" where
  "group_boundary p index =
     (let total_microseconds = cpcv_end_utc p - cpcv_start_utc p
      in cpcv_start_utc p + total_microseconds * int index div group_total p)"

definition build_groups :: "cpcv_plan \<Rightarrow> cpcv_group list result" where
  "build_groups p =
     (let boundaries = map (group_boundary p) [0..<nat (group_total p) + 1]
      in map_result
           (\<lambda>index. and_then (interval (boundaries ! index) (boundaries ! (index + 1)))
              (\<lambda>i. construct group_post_init \<lparr>group_index = int index, group_interval = i\<rparr>))
           [0..<nat (group_total p)])"

primrec merge_loop :: "time_interval list \<Rightarrow> time_interval list \<Rightarrow> time_interval list result" where
  "merge_loop merged [] = Inr merged"
| "merge_loop merged (i # is) =
     (let l = last merged
      in if interval_start_utc i \<le> interval_end_utc l
         then and_then (interval (interval_start_utc l) (max (interval_end_utc l) (interval_end_utc i)))
                (\<lambda>m. merge_loop (butlast merged @ [m]) is)
         else merge_loop (merged @ [i]) is)"

definition merge_adjacent :: "time_interval list \<Rightarrow> time_interval list result" where
  "merge_adjacent intervals =
     (case sort_key (\<lambda>i. (interval_start_utc i, interval_end_utc i)) intervals of
        [] \<Rightarrow> Inr []
      | i # is \<Rightarrow> merge_loop [i] is)"

primrec train_loop ::
  "time_interval \<Rightarrow> time_interval list \<Rightarrow> int \<Rightarrow> time_interval list \<Rightarrow> (time_interval list \<times> int) result" where
  "train_loop window remaining cursor [] = Inr (remaining, cursor)"
| "train_loop window remaining cursor (block # blocks) =
     and_then
       (if interval_start_utc block > cursor
        then and_then (interval cursor (min (interval_start_utc block) (interval_end_utc window)))
               (\<lambda>i. Inr (remaining @ [i]))
        else Inr remaining)
       (\<lambda>remaining. let cursor = max cursor (interval_end_utc block)
          in if cursor \<ge> interval_end_utc window then Inr (remaining, cursor)
             else train_loop window remaining cursor blocks)"

definition purged_train_intervals ::
  "time_interval \<Rightarrow> time_interval list \<Rightarrow> pyobj \<Rightarrow> pyobj \<Rightarrow> time_interval list result" where
  "purged_train_intervals window tests purge embargo =
     and_then (cpcv_require_non_negative_span purge ''purge'') (\<lambda>before.
     and_then (cpcv_require_non_negative_span embargo ''embargo'') (\<lambda>after.
     and_then (and_then (map_result (widened before after) tests) merge_adjacent) (\<lambda>forbidden.
     and_then (train_loop window [] (interval_start_utc window) forbidden) (\<lambda>(remaining, cursor).
       if cursor < interval_end_utc window
       then and_then (interval cursor (interval_end_utc window)) (\<lambda>i. Inr (remaining @ [i]))
       else Inr remaining))))"

text \<open>\<open>itertools.combinations\<close>: the sublists of a given length, by position.\<close>

fun combinations :: "nat \<Rightarrow> 'a list \<Rightarrow> 'a list list" where
  "combinations 0 xs = [[]]"
| "combinations (Suc k) [] = []"
| "combinations (Suc k) (x # xs) = map ((#) x) (combinations k xs) @ combinations (Suc k) xs"

definition build_split ::
  "cpcv_plan \<Rightarrow> cpcv_group list \<Rightarrow> time_interval \<Rightarrow> int \<times> nat list \<Rightarrow> cpcv_split result" where
  "build_split p groups window = (\<lambda>(index, chosen).
     and_then (merge_adjacent (map (\<lambda>i. group_interval (groups ! i)) chosen)) (\<lambda>tests.
     and_then (purged_train_intervals window tests (PyTimedelta (cpcv_purge p)) (PyTimedelta (cpcv_embargo p)))
       (\<lambda>trains. construct split_post_init
          \<lparr>path_index = index, test_group_indices = chosen, test_intervals = tests,
            train_intervals = trains, split_purge = cpcv_purge p, split_embargo = cpcv_embargo p\<rparr>)))"

definition build_splits :: "cpcv_plan \<Rightarrow> cpcv_partition result" where
  "build_splits p =
     and_then (build_groups p) (\<lambda>groups.
     and_then (cpcv_window p) (\<lambda>window.
     and_then (let choices = combinations (nat (test_group_size p)) [0..<nat (group_total p)]
         in map_result (build_split p groups window) (zip (map int [0..<length choices]) choices))
       (\<lambda>splits. construct partition_post_init
          \<lparr>partition_plan = p, partition_groups = groups, partition_splits = splits,
            partition_purge = cpcv_purge p, partition_embargo = cpcv_embargo p\<rparr>)))"

section \<open>Spans as sets of instants\<close>

definition instants :: "time_interval \<Rightarrow> int set" where
  "instants i = {t. interval_start_utc i \<le> t \<and> t < interval_end_utc i}"

definition covered :: "time_interval list \<Rightarrow> int set" where
  "covered is = (\<Union>i \<in> set is. instants i)"

abbreviation proper :: "time_interval \<Rightarrow> bool" where
  "proper i \<equiv> interval_start_utc i < interval_end_utc i"

definition apart :: "time_interval \<Rightarrow> time_interval \<Rightarrow> bool" where
  "apart i j \<longleftrightarrow> interval_end_utc i < interval_start_utc j"

lemma interval_accepted [simp]: "interval_post_init i = Inr () \<longleftrightarrow> proper i"
  by (auto simp: post_init_defs)

lemma interval_ok [simp]: "s < e \<Longrightarrow> interval s e = Inr \<lparr>interval_start_utc = s, interval_end_utc = e\<rparr>"
  by (rule construct_ok) simp

lemma covered_simps [simp]:
  "covered [] = {}"
  "covered (i # is) = instants i \<union> covered is"
  "covered (is @ js) = covered is \<union> covered js"
  by (auto simp: covered_def)

lemma covered_empty: "list_all proper is \<Longrightarrow> covered is = {} \<longleftrightarrow> is = []"
  by (induction "is") (auto simp: instants_def)

lemma overlaps_iff: "proper i \<Longrightarrow> proper j \<Longrightarrow> overlaps i j \<longleftrightarrow> instants i \<inter> instants j \<noteq> {}"
proof
  assume "proper i" "proper j" "overlaps i j"
  then have "max (interval_start_utc i) (interval_start_utc j) \<in> instants i \<inter> instants j"
    by (auto simp: overlaps_def instants_def)
  then show "instants i \<inter> instants j \<noteq> {}" by blast
qed (auto simp: overlaps_def instants_def)

text \<open>
  What widening a test block forbids: the instants with a tested instant at most the purge
  after them or at most the embargo before them.
\<close>

definition within_gap :: "int \<Rightarrow> int \<Rightarrow> int set \<Rightarrow> int \<Rightarrow> bool" where
  "within_gap purge embargo tested t \<longleftrightarrow> (\<exists>s \<in> tested. s - purge \<le> t \<and> t \<le> s + embargo)"

lemma widened_ok:
  assumes "proper i" "0 \<le> purge" "0 \<le> embargo"
  shows "\<exists>w. widened purge embargo i = Inr w \<and> proper w
    \<and> instants w = {t. within_gap purge embargo (instants i) t}"
proof -
  let ?w = "\<lparr>interval_start_utc = interval_start_utc i - purge,
      interval_end_utc = interval_end_utc i + embargo\<rparr>"
  have "t \<in> instants ?w \<longleftrightarrow> within_gap purge embargo (instants i) t" for t
  proof
    assume "t \<in> instants ?w"
    then have "(let s = max (interval_start_utc i) (min t (interval_end_utc i - 1))
      in s \<in> instants i \<and> s - purge \<le> t \<and> t \<le> s + embargo)"
      using assms by (auto simp: instants_def Let_def)
    then show "within_gap purge embargo (instants i) t" by (auto simp: within_gap_def Let_def)
  qed (auto simp: within_gap_def instants_def)
  then show ?thesis using assms by (intro exI [of _ ?w]) (auto simp: widened_def)
qed

lemma widen_all:
  assumes "list_all proper is" "0 \<le> purge" "0 \<le> embargo"
  shows "\<exists>ws. map_result (widened purge embargo) is = Inr ws \<and> list_all proper ws
    \<and> covered ws = {t. within_gap purge embargo (covered is) t}"
  using assms(1)
proof (induction "is")
  case Nil
  then show ?case by (simp add: within_gap_def)
next
  case (Cons i "is")
  then obtain w ws where "widened purge embargo i = Inr w" "proper w"
    "instants w = {t. within_gap purge embargo (instants i) t}"
    "map_result (widened purge embargo) is = Inr ws" "list_all proper ws"
    "covered ws = {t. within_gap purge embargo (covered is) t}"
    using widened_ok [of i, OF _ assms(2,3)] by auto
  then show ?case by (auto simp: within_gap_def)
qed

section \<open>Merging\<close>

lemma merge_loop_ok:
  assumes "merged \<noteq> []" "list_all proper merged" "sorted_wrt apart merged"
    and "list_all proper is" "sorted (interval_start_utc (last merged) # map interval_start_utc is)"
  shows "\<exists>ms. merge_loop merged is = Inr ms \<and> ms \<noteq> [] \<and> list_all proper ms \<and> sorted_wrt apart ms
    \<and> covered ms = covered merged \<union> covered is"
  using assms
proof (induction "is" arbitrary: merged)
  case Nil
  then show ?case by simp
next
  case (Cons i "is")
  from Cons.prems(1) obtain ms l where merged: "merged = ms @ [l]" by (cases merged rule: rev_cases) auto
  note prems = Cons.prems [unfolded merged]
  show ?case
  proof (cases "interval_start_utc i \<le> interval_end_utc l")
    case True
    let ?m = "\<lparr>interval_start_utc = interval_start_utc l,
        interval_end_utc = max (interval_end_utc l) (interval_end_utc i)\<rparr>"
    have "instants ?m = instants l \<union> instants i"
      using True prems by (auto simp: instants_def)
    moreover have "\<exists>r. merge_loop (ms @ [?m]) is = Inr r \<and> r \<noteq> [] \<and> list_all proper r \<and> sorted_wrt apart r
        \<and> covered r = covered (ms @ [?m]) \<union> covered is"
      using prems by (intro Cons.IH) (auto simp: sorted_wrt_last apart_def)
    ultimately show ?thesis using True prems(2)
      by (auto simp: merged interval_ok Let_def)
  next
    case False
    have "\<exists>r. merge_loop (merged @ [i]) is = Inr r \<and> r \<noteq> [] \<and> list_all proper r \<and> sorted_wrt apart r
        \<and> covered r = covered (merged @ [i]) \<union> covered is"
    proof (rule Cons.IH)
      have "apart l i" using False by (simp add: apart_def)
      moreover have "apart j i" if "j \<in> set ms" for j
        using that prems(3,5) prems(2) by (fastforce simp: sorted_wrt_last apart_def)
      ultimately show "sorted_wrt apart (merged @ [i])"
        using prems(3) by (simp add: merged sorted_wrt_append)
    qed (use prems in \<open>simp_all add: merged\<close>)
    then show ?thesis using False by (auto simp: merged Let_def)
  qed
qed

lemma merge_adjacent_ok:
  assumes "list_all proper is"
  shows "\<exists>ms. merge_adjacent is = Inr ms \<and> (ms = [] \<longleftrightarrow> is = []) \<and> list_all proper ms
    \<and> sorted_wrt apart ms \<and> covered ms = covered is"
proof (cases "sort_key (\<lambda>i. (interval_start_utc i, interval_end_utc i)) is")
  case Nil
  then have "is = []" by (metis length_0_conv length_sort)
  then show ?thesis by (simp add: merge_adjacent_def)
next
  case (Cons i js)
  let ?key = "\<lambda>i. (interval_start_utc i, interval_end_utc i)"
  have elems: "set (i # js) = set is" using set_sort [of ?key "is"] Cons by simp
  have "sorted (map ?key (i # js))" using sorted_sort_key [of ?key "is"] Cons by simp
  then have "sorted (map interval_start_utc (i # js))"
    unfolding sorted_map by (rule sorted_wrt_mono_rel [rotated]) (auto simp: less_eq_prod_def)
  moreover have "list_all proper (i # js)" using assms elems by (metis list_all_iff)
  ultimately obtain ms where "merge_loop [i] js = Inr ms" "ms \<noteq> []" "list_all proper ms"
    "sorted_wrt apart ms" "covered ms = covered [i] \<union> covered js"
    using merge_loop_ok [of "[i]" js] by auto
  moreover have "covered [i] \<union> covered js = covered is" using elems by (auto simp: covered_def)
  moreover have "is \<noteq> []" using elems by auto
  ultimately show ?thesis using Cons by (intro exI [of _ ms]) (simp add: merge_adjacent_def)
qed

section \<open>Taking the test blocks out\<close>

lemma train_loop_ok:
  assumes "list_all proper blocks" "sorted_wrt apart blocks" "cursor < interval_end_utc window"
    and "list_all proper before"
  shows "\<exists>after c. train_loop window before cursor blocks = Inr (after, c) \<and> list_all proper after
    \<and> covered after \<union> {t. c \<le> t \<and> t < interval_end_utc window}
      = covered before \<union> ({t. cursor \<le> t \<and> t < interval_end_utc window} - covered blocks)"
  using assms
proof (induction blocks arbitrary: cursor before)
  case Nil
  then show ?case by simp
next
  case (Cons b bs)
  let ?stop = "interval_end_utc window"
  let ?i = "\<lparr>interval_start_utc = cursor, interval_end_utc = min (interval_start_utc b) ?stop\<rparr>"
  define before' where "before' = (if interval_start_utc b > cursor then before @ [?i] else before)"
  have later: "interval_end_utc b < t" if "t \<in> covered bs" for t
    using that Cons.prems(2) by (auto simp: covered_def instants_def apart_def)
  have b: "proper b" using Cons.prems(1) by simp
  have first: "(if interval_start_utc b > cursor
        then and_then (interval cursor (min (interval_start_utc b) ?stop)) (\<lambda>i. Inr (before @ [i]))
        else Inr before) = Inr before'"
    using Cons.prems(3)
    by (simp add: before'_def)
  have step: "train_loop window before cursor (b # bs) =
      (let c = max cursor (interval_end_utc b)
       in if c \<ge> ?stop then Inr (before', c) else train_loop window before' c bs)"
    by (simp only: train_loop.simps first and_then_simps)
  have proper: "list_all proper before'" using Cons.prems(3,4) by (simp add: before'_def)
  have here: "covered before' = covered before \<union> {t. cursor \<le> t \<and> t < interval_start_utc b \<and> t < ?stop}"
    by (auto simp: before'_def instants_def)
  let ?c = "max cursor (interval_end_utc b)"
  show ?case
  proof (cases "?c \<ge> ?stop")
    case True
    have "{t. cursor \<le> t \<and> t < interval_start_utc b \<and> t < ?stop} =
        {t. cursor \<le> t \<and> t < ?stop} - covered (b # bs)"
      using later b True Cons.prems(3) by (fastforce simp: instants_def)
    moreover have "{t. ?c \<le> t \<and> t < ?stop} = {}" using True by auto
    ultimately show ?thesis using True proper here by (simp only: step Let_def if_True) auto
  next
    case False
    then obtain after c where after: "train_loop window before' ?c bs = Inr (after, c)" "list_all proper after"
      "covered after \<union> {t. c \<le> t \<and> t < ?stop} =
        covered before' \<union> ({t. ?c \<le> t \<and> t < ?stop} - covered bs)"
      using Cons.IH [of ?c before', OF _ _ _ proper] Cons.prems(1,2) by (fastforce simp: not_le)
    have "covered before' \<union> ({t. ?c \<le> t \<and> t < ?stop} - covered bs) =
        covered before \<union> ({t. cursor \<le> t \<and> t < ?stop} - covered (b # bs))"
      unfolding here using later b False by (fastforce simp: instants_def)
    then show ?thesis using False after by (simp add: step del: train_loop.simps)
  qed
qed

lemma purged_train_intervals_ok:
  assumes "list_all proper tests" "proper window" "0 \<le> purge" "0 \<le> embargo"
  shows "\<exists>ts. purged_train_intervals window tests (PyTimedelta purge) (PyTimedelta embargo) = Inr ts
    \<and> list_all proper ts
    \<and> covered ts = {t \<in> instants window. \<not> within_gap purge embargo (covered tests) t}"
proof -
  obtain ws where ws: "map_result (widened purge embargo) tests = Inr ws" "list_all proper ws"
    "covered ws = {t. within_gap purge embargo (covered tests) t}"
    using widen_all [OF assms(1,3,4)] by blast
  obtain ms where ms: "merge_adjacent ws = Inr ms" "list_all proper ms" "sorted_wrt apart ms"
    "covered ms = covered ws"
    using merge_adjacent_ok [OF ws(2)] by blast
  obtain ts c where ts: "train_loop window [] (interval_start_utc window) ms = Inr (ts, c)" "list_all proper ts"
    "covered ts \<union> {t. c \<le> t \<and> t < interval_end_utc window} = instants window - covered ms"
    using train_loop_ok [OF ms(2,3) assms(2), of "[]"] by (auto simp: instants_def)
  have guards: "cpcv_require_non_negative_span (PyTimedelta purge) f = Inr purge"
    "cpcv_require_non_negative_span (PyTimedelta embargo) f = Inr embargo" for f
    using assms(3,4) by (simp_all add: guard_simps)
  let ?rest = "\<lparr>interval_start_utc = c, interval_end_utc = interval_end_utc window\<rparr>"
  let ?all = "if c < interval_end_utc window then ts @ [?rest] else ts"
  have "covered ?all = covered ts \<union> {t. c \<le> t \<and> t < interval_end_utc window}"
    by (auto simp: instants_def)
  then show ?thesis
    using ts ws(1,3) ms(1,4) guards
    by (intro exI [of _ ?all]) (auto simp: purged_train_intervals_def interval_ok)
qed

section \<open>Groups\<close>

abbreviation accepted_cpcv :: "cpcv_plan \<Rightarrow> bool" where
  "accepted_cpcv p \<equiv> cpcv_plan_post_init p = Inr () \<and> declaration_post_init (cpcv_declaration p) = Inr ()"

abbreviation group_count :: "cpcv_plan \<Rightarrow> nat" where
  "group_count p \<equiv> nat (group_total p)"

definition group_at :: "cpcv_plan \<Rightarrow> nat \<Rightarrow> cpcv_group" where
  "group_at p k = \<lparr>group_index = int k, group_interval =
     \<lparr>interval_start_utc = group_boundary p k, interval_end_utc = group_boundary p (Suc k)\<rparr>\<rparr>"

lemma accepted_cpcvD:
  assumes "accepted_cpcv p"
  shows "cpcv_start_utc p < cpcv_end_utc p" "3 \<le> group_total p" "1 \<le> test_group_size p"
    "test_group_size p < group_total p" "group_total p \<le> cpcv_end_utc p - cpcv_start_utc p"
    "0 \<le> cpcv_purge p" "0 \<le> cpcv_embargo p" "embargo_floor p \<le> cpcv_embargo p"
  using assms
  by (auto simp: post_init_defs guard_simps MINIMUM_GROUPS_def cpcv_purge_def declared_purge_def)

lemma group_boundary_ends:
  assumes "0 < group_total p"
  shows "group_boundary p 0 = cpcv_start_utc p" "group_boundary p (group_count p) = cpcv_end_utc p"
  using assms by (simp_all add: group_boundary_def Let_def)

lemma group_boundary_step:
  assumes "accepted_cpcv p"
  shows "group_boundary p k < group_boundary p (Suc k)"
proof -
  let ?T = "cpcv_end_utc p - cpcv_start_utc p" and ?N = "group_total p"
  have N: "0 < ?N" "?N \<le> ?T" using accepted_cpcvD [OF assms] by simp_all
  have "?T * int k div ?N + 1 = (?T * int k + ?N) div ?N" using N by simp
  also have "\<dots> \<le> (?T * int (Suc k)) div ?N"
    using N by (intro zdiv_mono1) (simp_all add: algebra_simps)
  finally show ?thesis by (simp add: group_boundary_def Let_def)
qed

lemma group_boundary_mono:
  assumes "accepted_cpcv p" "i \<le> j"
  shows "group_boundary p i \<le> group_boundary p j"
  using assms(2) group_boundary_step [OF assms(1)] by (induction rule: dec_induct) (auto intro: less_imp_le order_trans)

lemma group_span_bounds:
  assumes "accepted_cpcv p"
  defines "equal_share \<equiv> (cpcv_end_utc p - cpcv_start_utc p) div group_total p"
  shows "equal_share \<le> interval_span (group_interval (group_at p k))"
    "interval_span (group_interval (group_at p k)) \<le> equal_share + 1"
proof -
  let ?T = "cpcv_end_utc p - cpcv_start_utc p" and ?N = "group_total p"
  have N: "0 < ?N" using accepted_cpcvD [OF assms(1)] by simp
  have add: "a div ?N + b div ?N \<le> (a + b) div ?N \<and> (a + b) div ?N \<le> a div ?N + b div ?N + 1" for a b
  proof -
    let ?m = "a mod ?N + b mod ?N"
    have "0 \<le> ?m" "?m < 2 * ?N" using pos_mod_bound [OF N] pos_mod_sign [OF N] by (smt (verit))+
    then have "0 \<le> ?m div ?N" "\<not> 2 \<le> ?m div ?N"
      using mult_le_iff_le_div [OF N, of 2 ?m] mult_le_iff_le_div [OF N, of 0 ?m] by simp_all
    then show ?thesis using div_add1_eq [of a b ?N] by linarith
  qed
  have "?T * int (Suc k) = ?T * int k + ?T" by (simp add: algebra_simps)
  then show "equal_share \<le> interval_span (group_interval (group_at p k))"
    "interval_span (group_interval (group_at p k)) \<le> equal_share + 1"
    using add [of "?T * int k" ?T] by (simp_all add: interval_span_def group_at_def group_boundary_def Let_def equal_share_def)
qed

lemma build_groups_ok:
  assumes "accepted_cpcv p"
  shows "build_groups p = Inr (map (group_at p) [0..<group_count p])"
  unfolding build_groups_def Let_def
proof (rule map_result_Inr)
  fix k assume "k \<in> set [0..<group_count p]"
  then show "and_then (interval (map (group_boundary p) [0..<group_count p + 1] ! k)
        (map (group_boundary p) [0..<group_count p + 1] ! (k + 1)))
      (\<lambda>i. construct group_post_init \<lparr>group_index = int k, group_interval = i\<rparr>) = Inr (group_at p k)"
    using group_boundary_step [OF assms, of k]
    by (simp add: nth_append group_at_def group_post_init_def construct_def [of group_post_init]
        guard_simps cpcv_require_index_def del: upt_Suc)
qed

lemma group_proper: "accepted_cpcv p \<Longrightarrow> proper (group_interval (group_at p k))"
  using group_boundary_step by (simp add: group_at_def)

section \<open>Combinations\<close>

lemma combinations_length: "length (combinations k xs) = length xs choose k"
  by (induction k xs rule: combinations.induct) simp_all

lemma subsets_insert:
  assumes "finite S" "x \<notin> S"
  shows "{A. A \<subseteq> insert x S \<and> card A = Suc k} =
    insert x ` {A. A \<subseteq> S \<and> card A = k} \<union> {A. A \<subseteq> S \<and> card A = Suc k}" (is "?L = ?R")
proof (intro set_eqI iffI)
  fix A assume A: "A \<in> ?L"
  show "A \<in> ?R"
  proof (cases "x \<in> A")
    case True
    then have "A = insert x (A - {x})" "A - {x} \<subseteq> S" "card (A - {x}) = k"
      using A by (auto simp: card_Diff_singleton)
    then show ?thesis by blast
  next
    case False
    then show ?thesis using A by blast
  qed
next
  fix A assume "A \<in> ?R"
  then show "A \<in> ?L"
  proof
    assume "A \<in> insert x ` {A. A \<subseteq> S \<and> card A = k}"
    then obtain B where "A = insert x B" "B \<subseteq> S" "card B = k" by blast
    moreover from this assms have "x \<notin> B" "finite B" by (auto intro: finite_subset)
    ultimately show ?thesis by auto
  qed blast
qed

lemma combinations_set:
  "distinct xs \<Longrightarrow> set ` set (combinations k xs) = {A. A \<subseteq> set xs \<and> card A = k}"
proof (induction k xs rule: combinations.induct)
  case (1 xs)
  have "A \<subseteq> set xs \<and> card A = 0 \<longleftrightarrow> A = {}" for A
    using finite_subset [OF _ finite_set, of A xs] by (cases "A \<subseteq> set xs") auto
  then show ?case by simp
next
  case (2 k)
  then show ?case by auto
next
  case (3 k x xs)
  have "set ` set (combinations (Suc k) (x # xs)) =
      insert x ` (set ` set (combinations k xs)) \<union> set ` set (combinations (Suc k) xs)"
    by (simp add: image_Un image_image)
  also have "\<dots> = insert x ` {A. A \<subseteq> set xs \<and> card A = k} \<union> {A. A \<subseteq> set xs \<and> card A = Suc k}"
    using 3 by (simp only: distinct.simps)
  also have "\<dots> = {A. A \<subseteq> set (x # xs) \<and> card A = Suc k}"
    using 3(3) subsets_insert [of "set xs" x k] by simp
  finally show ?case .
qed

lemma combinations_sub: "c \<in> set (combinations k xs) \<Longrightarrow> set c \<subseteq> set xs \<and> length c = k"
proof (induction k xs arbitrary: c rule: combinations.induct)
  case (3 k x xs)
  from 3(3) consider d where "c = x # d" "d \<in> set (combinations k xs)" | "c \<in> set (combinations (Suc k) xs)"
    by auto
  then show ?case
  proof cases
    case 1
    then show ?thesis using 3(1) [of d] by auto
  next
    case 2
    then show ?thesis using 3(2) [of c] by auto
  qed
qed simp_all

lemma combinations_distinct: "distinct xs \<Longrightarrow> distinct (combinations k xs)"
proof (induction k xs rule: combinations.induct)
  case (3 k x xs)
  then show ?case using combinations_sub [of _ "Suc k" xs] by (fastforce simp: distinct_map)
qed simp_all

lemma combinations_sorted:
  "sorted_wrt (<) xs \<Longrightarrow> c \<in> set (combinations k xs) \<Longrightarrow> sorted_wrt (<) (c :: nat list)"
proof (induction k xs arbitrary: c rule: combinations.induct)
  case (3 k x xs)
  from 3(4) consider d where "c = x # d" "d \<in> set (combinations k xs)" | "c \<in> set (combinations (Suc k) xs)"
    by auto
  then show ?case
  proof cases
    case 1
    then show ?thesis using 3(1) [of d] 3(3) combinations_sub [of d k xs] by auto
  next
    case 2
    then show ?thesis using 3(2,3) by simp
  qed
qed simp_all

section \<open>Splits\<close>

definition tested_instants :: "cpcv_plan \<Rightarrow> nat set \<Rightarrow> int set" where
  "tested_instants p chosen = (\<Union>k \<in> chosen. instants (group_interval (group_at p k)))"

definition training_instants :: "cpcv_plan \<Rightarrow> nat set \<Rightarrow> int set" where
  "training_instants p chosen =
     {t. cpcv_start_utc p \<le> t \<and> t < cpcv_end_utc p
       \<and> \<not> within_gap (cpcv_purge p) (cpcv_embargo p) (tested_instants p chosen) t}"

definition split_for :: "cpcv_plan \<Rightarrow> int \<times> nat list \<Rightarrow> cpcv_split \<Rightarrow> bool" where
  "split_for p = (\<lambda>(index, chosen) s.
     path_index s = index \<and> test_group_indices s = chosen
     \<and> split_purge s = cpcv_purge p \<and> split_embargo s = cpcv_embargo p
     \<and> covered (test_intervals s) = tested_instants p (set chosen)
     \<and> covered (train_intervals s) = training_instants p (set chosen))"

lemma overlap_checks_ok:
  assumes "proper w" "list_all proper ts" "instants w \<inter> covered ts = {}"
  shows "run_checks (overlap_checks w ts) = Inr ()"
  using assms overlaps_iff
  by (fastforce simp: overlap_checks_def run_checks_ok covered_def list_all_iff)

lemma run_checks_prefix:
  "run_checks cs = Inr () \<Longrightarrow> run_checks (cs @ ds) = run_checks ds"
  by (induction cs) (auto simp: run_checks.simps(2) and_then_Inr_iff)

lemma split_post_init_eq:
  assumes "0 \<le> path_index s" "0 \<le> split_purge s" "0 \<le> split_embargo s" "test_group_indices s \<noteq> []"
    and "test_intervals s \<noteq> []" "list_all proper (test_intervals s)" "list_all proper (train_intervals s)"
    and "\<And>t. t \<in> covered (train_intervals s) \<Longrightarrow>
      \<not> within_gap (split_purge s) (split_embargo s) (covered (test_intervals s)) t"
  shows "split_post_init s =
    (if train_intervals s = [] then Inl (CpcvPartitionError ''no training intervals'') else Inr ())"
proof (cases "train_intervals s = []")
  case True
  then show ?thesis
    using assms(1-5) by (simp add: split_post_init_def run_checks.simps(2) ensure_def
        cpcv_require_index_def cpcv_require_non_negative_span_def)
next
  case False
  have "and_then (widened (split_purge s) (split_embargo s) i)
      (\<lambda>forbidden. run_checks (overlap_checks forbidden (train_intervals s))) = Inr ()"
    if "i \<in> set (test_intervals s)" for i
  proof -
    have "proper i" using that assms(6) by (simp add: list_all_iff)
    then obtain w where w: "widened (split_purge s) (split_embargo s) i = Inr w" "proper w"
      "instants w = {t. within_gap (split_purge s) (split_embargo s) (instants i) t}"
      using widened_ok [OF _ assms(2,3)] by blast
    have "instants i \<subseteq> covered (test_intervals s)" using that by (auto simp: covered_def)
    then have "instants w \<inter> covered (train_intervals s) = {}"
      using assms(8) w(3) by (auto simp: within_gap_def)
    then show ?thesis using w(1) overlap_checks_ok [OF w(2) assms(7)] by simp
  qed
  then show ?thesis
    using False assms(1-5) by (auto simp: split_post_init_def run_checks_ok guard_simps)
qed

lemma build_split_result:
  assumes ok: "accepted_cpcv p" and chosen: "chosen \<noteq> []" "set chosen \<subseteq> {..<group_count p}" and "0 \<le> index"
    and window: "cpcv_window p = Inr window"
  shows "case build_split p (map (group_at p) [0..<group_count p]) window (index, chosen) of
      Inr s \<Rightarrow> split_for p (index, chosen) s
    | Inl e \<Rightarrow> e = CpcvPartitionError ''no training intervals'' \<and> training_instants p (set chosen) = {}"
proof -
  note bounds = accepted_cpcvD [OF ok]
  let ?tests = "map (\<lambda>k. group_interval (map (group_at p) [0..<group_count p] ! k)) chosen"
  have tests_eq: "?tests = map (\<lambda>k. group_interval (group_at p k)) chosen"
    using chosen(2) by (auto simp: subset_iff)
  have "list_all proper ?tests" unfolding tests_eq by (simp add: list_all_iff group_proper [OF ok])
  then obtain ms where ms: "merge_adjacent ?tests = Inr ms" "ms \<noteq> []" "list_all proper ms"
    "covered ms = covered ?tests"
    using merge_adjacent_ok [of ?tests] chosen(1) by auto
  have tested: "covered ms = tested_instants p (set chosen)"
    unfolding ms(4) tests_eq by (simp add: covered_def tested_instants_def)
  have win: "window = \<lparr>interval_start_utc = cpcv_start_utc p, interval_end_utc = cpcv_end_utc p\<rparr>"
    using window by (simp add: cpcv_window_def)
  obtain ts where ts: "purged_train_intervals window ms (PyTimedelta (cpcv_purge p)) (PyTimedelta (cpcv_embargo p)) = Inr ts"
    "list_all proper ts"
    "covered ts = {t \<in> instants window. \<not> within_gap (cpcv_purge p) (cpcv_embargo p) (covered ms) t}"
    using purged_train_intervals_ok [OF ms(3) _ bounds(6,7), of window] bounds(1) win by auto
  have trained: "covered ts = training_instants p (set chosen)"
    unfolding ts(3) tested by (auto simp: win instants_def training_instants_def)
  let ?s = "\<lparr>path_index = index, test_group_indices = chosen, test_intervals = ms,
      train_intervals = ts, split_purge = cpcv_purge p, split_embargo = cpcv_embargo p\<rparr>"
  have "split_post_init ?s =
      (if ts = [] then Inl (CpcvPartitionError ''no training intervals'') else Inr ())"
    using split_post_init_eq [of ?s] assms(4) bounds(6,7) chosen(1) ms(2,3) ts(2,3) by simp
  moreover have "ts = [] \<longleftrightarrow> training_instants p (set chosen) = {}"
    using covered_empty [OF ts(2)] trained by simp
  ultimately show ?thesis
    using ms(1) ts(1) tested trained by (simp add: build_split_def construct_def split_for_def)
qed

lemma build_splits_result:
  assumes ok: "accepted_cpcv p"
  defines "choices \<equiv> combinations (nat (test_group_size p)) [0..<group_count p]"
  shows "case build_splits p of
      Inr q \<Rightarrow> partition_plan q = p \<and> partition_groups q = map (group_at p) [0..<group_count p]
        \<and> list_all2 (split_for p) (zip (map int [0..<length choices]) choices) (partition_splits q)
    | Inl e \<Rightarrow> e = CpcvPartitionError ''no training intervals''
        \<and> (\<exists>chosen \<in> set choices. training_instants p (set chosen) = {})"
proof -
  note bounds = accepted_cpcvD [OF ok]
  let ?groups = "map (group_at p) [0..<group_count p]"
  let ?paths = "zip (map int [0..<length choices]) choices"
  obtain window where window: "cpcv_window p = Inr window"
    using bounds(1) by (simp add: cpcv_window_def)
  have each: "case build_split p ?groups window x of Inr s \<Rightarrow> split_for p x s
      | Inl e \<Rightarrow> e = CpcvPartitionError ''no training intervals'' \<and> training_instants p (set (snd x)) = {}"
    if "x \<in> set ?paths" for x
  proof -
    obtain a chosen where "x = (a, chosen)" by (cases x)
    moreover from this that have "a \<in> set (map int [0..<length choices])" "chosen \<in> set choices"
      by (auto dest: set_zip_leftD set_zip_rightD simp del: set_map)
    ultimately obtain i where x: "x = (int i, chosen)" "chosen \<in> set choices" by auto
    have "set chosen \<subseteq> set [0..<group_count p] \<and> length chosen = nat (test_group_size p)"
      using x(2) unfolding choices_def by (rule combinations_sub)
    then have "chosen \<noteq> []" "set chosen \<subseteq> {..<group_count p}" using bounds(3) by auto
    then have "case build_split p ?groups window (int i, chosen) of Inr s \<Rightarrow> split_for p (int i, chosen) s
        | Inl e \<Rightarrow> e = CpcvPartitionError ''no training intervals'' \<and> training_instants p (set chosen) = {}"
      using build_split_result [OF ok _ _ _ window] by simp
    then show ?thesis unfolding x(1) snd_conv .
  qed
  have start: "build_splits p = and_then (map_result (build_split p ?groups window) ?paths)
      (\<lambda>splits. construct partition_post_init
         \<lparr>partition_plan = p, partition_groups = ?groups, partition_splits = splits,
           partition_purge = cpcv_purge p, partition_embargo = cpcv_embargo p\<rparr>)"
    using build_groups_ok [OF ok] window by (simp add: build_splits_def Let_def choices_def)
  show ?thesis
  proof (cases "map_result (build_split p ?groups window) ?paths")
    case (Inl e)
    then obtain x where x: "x \<in> set ?paths" "build_split p ?groups window x = Inl e"
      using map_result_Inl by blast
    then have "snd x \<in> set choices" by (metis prod.collapse set_zip_rightD)
    then show ?thesis using each [OF x(1)] x(2) Inl by (auto simp: start)
  next
    case (Inr splits)
    then have splits: "list_all2 (\<lambda>x s. build_split p ?groups window x = Inr s) ?paths splits"
      by (rule map_result_list_all2)
    then have "list_all2 (split_for p) ?paths splits"
      by (rule list.rel_mono_strong) (use each in fastforce)
    moreover have "length splits = path_total p"
      using list_all2_lengthD [OF splits]
      by (simp add: choices_def combinations_length path_total_def)
    ultimately show ?thesis using Inr by (simp add: start construct_def partition_post_init_def ensure_def)
  qed
qed

section \<open>Properties\<close>

definition example_cpcv :: cpcv_plan where
  "example_cpcv = \<lparr>cpcv_start_utc = 0, cpcv_end_utc = 40, group_total = 4, test_group_size = 2,
     cpcv_declaration = \<lparr>label_horizon = 1, availability_lag = 1, max_feature_lookback = 2,
       max_holding_horizon = 2\<rparr>, cpcv_embargo = 4\<rparr>"

lemma example_cpcv_accepted: "accepted_cpcv example_cpcv"
  by (simp add: example_cpcv_def post_init_defs guard_simps MINIMUM_GROUPS_def embargo_floor_def)

text \<open>
  The groups of a partition tile its window. Cutting never fails on an accepted plan:
  there are as many groups as asked for, numbered in order, every instant of the window is in
  exactly one of them and every instant of theirs is in the window, and no two differ in
  length by more than a microsecond.
\<close>

theorem groups_tile_the_window:
  assumes "cpcv_plan_post_init p = Inr ()" and "declaration_post_init (cpcv_declaration p) = Inr ()"
  shows "\<exists>gs. build_groups p = Inr gs \<and> map group_index gs = map int [0..<nat (group_total p)]
    \<and> (\<forall>t. (\<exists>k < length gs. t \<in> instants (group_interval (gs ! k)))
        \<longleftrightarrow> cpcv_start_utc p \<le> t \<and> t < cpcv_end_utc p)
    \<and> (\<forall>i < length gs. \<forall>j < length gs. i \<noteq> j \<longrightarrow>
        instants (group_interval (gs ! i)) \<inter> instants (group_interval (gs ! j)) = {}
        \<and> interval_span (group_interval (gs ! i)) \<le> interval_span (group_interval (gs ! j)) + 1)"
proof -
  have ok: "accepted_cpcv p" using assms by simp
  note bounds = accepted_cpcvD [OF ok]
  let ?b = "group_boundary p"
  have "(\<exists>k < group_count p. ?b k \<le> t \<and> t < ?b (Suc k)) \<longleftrightarrow> ?b 0 \<le> t \<and> t < ?b (group_count p)" for t
  proof
    assume t: "?b 0 \<le> t \<and> t < ?b (group_count p)"
    define k where "k = (LEAST k. t < ?b (Suc k))"
    have "t < ?b (Suc (group_count p - 1))" using t bounds(2) by simp
    then have "t < ?b (Suc k)" "k \<le> group_count p - 1"
      unfolding k_def by (rule LeastI, rule Least_le)
    moreover have "?b k \<le> t" using t not_less_Least [of "k - 1" "\<lambda>k. t < ?b (Suc k)"]
      by (cases k) (auto simp: k_def [symmetric])
    ultimately show "\<exists>k < group_count p. ?b k \<le> t \<and> t < ?b (Suc k)" using bounds(2) by (intro exI [of _ k]) auto
  next
    assume "\<exists>k < group_count p. ?b k \<le> t \<and> t < ?b (Suc k)"
    then obtain k where "k < group_count p" "?b k \<le> t" "t < ?b (Suc k)" by blast
    then show "?b 0 \<le> t \<and> t < ?b (group_count p)"
      using group_boundary_mono [OF ok, of 0 k] group_boundary_mono [OF ok, of "Suc k" "group_count p"] by simp
  qed
  moreover have "instants (group_interval (group_at p i)) \<inter> instants (group_interval (group_at p j)) = {}"
    if "i \<noteq> j" for i j
    using that group_boundary_mono [OF ok, of "Suc i" j] group_boundary_mono [OF ok, of "Suc j" i]
    by (cases i j rule: linorder_cases) (auto simp: instants_def group_at_def)
  moreover have "interval_span (group_interval (group_at p i)) \<le> interval_span (group_interval (group_at p j)) + 1" for i j
    using group_span_bounds [OF ok, of i] group_span_bounds [OF ok, of j] by simp
  ultimately show ?thesis
    using group_boundary_ends [of p] bounds(2)
    by (intro exI [of _ "map (group_at p) [0..<group_count p]"])
      (simp add: build_groups_ok [OF ok], simp add: instants_def group_at_def cong: conj_cong)
qed

lemma groups_tile_the_window_witness:
  "\<exists>gs. build_groups example_cpcv = Inr gs \<and> map group_index gs = [0, 1, 2, 3]"
  using groups_tile_the_window [of example_cpcv] example_cpcv_accepted
  by (auto simp: example_cpcv_def upt_rec)

text \<open>
  C17. Combinatorial cross-validation never trains on what it tests, and misses no
  combination. For an accepted plan \<open>build_splits\<close> returns one split per way of choosing
  \<open>test_group_size\<close> of the groups, each once and \<open>path_total\<close> in all. A split tests exactly the
  instants of its groups and trains on exactly the instants of the window that no tested
  instant follows within the purge or precedes within the embargo, so that no label of a
  training sample resolves in a test and no feature or position of one reaches back to it. The
  only refusal is for a choice of groups that leaves nothing to train on; the overlap check of
  a split never fires on a split the builder made.
\<close>

theorem cpcv_splits_never_leak:
  assumes "cpcv_plan_post_init p = Inr ()" and "declaration_post_init (cpcv_declaration p) = Inr ()"
  shows "case build_splits p of
      Inr q \<Rightarrow>
        (let paths = partition_splits q; chosen = map test_group_indices paths in
         length paths = path_total p \<and> map path_index paths = map int [0..<path_total p]
         \<and> distinct chosen
         \<and> set ` set chosen = {A. A \<subseteq> {..<nat (group_total p)} \<and> card A = nat (test_group_size p)}
         \<and> (\<forall>s \<in> set paths.
              covered (test_intervals s) = tested_instants p (set (test_group_indices s))
              \<and> covered (train_intervals s) = training_instants p (set (test_group_indices s))
              \<and> (\<forall>trained \<in> covered (train_intervals s). \<forall>tested \<in> covered (test_intervals s).
                   trained + label_horizon (cpcv_declaration p) + availability_lag (cpcv_declaration p) < tested
                   \<or> tested + max_feature_lookback (cpcv_declaration p)
                       + max_holding_horizon (cpcv_declaration p) < trained)))
    | Inl e \<Rightarrow> e = CpcvPartitionError ''no training intervals''
        \<and> (\<exists>A. A \<subseteq> {..<nat (group_total p)} \<and> card A = nat (test_group_size p) \<and> training_instants p A = {})"
proof -
  have ok: "accepted_cpcv p" using assms by simp
  let ?cs = "combinations (nat (test_group_size p)) [0..<group_count p]"
  let ?ps = "zip (map int [0..<length ?cs]) ?cs"
  have subsets: "set ` set ?cs = {A. A \<subseteq> {..<group_count p} \<and> card A = nat (test_group_size p)}"
    by (simp add: combinations_set atLeast0LessThan)
  show ?thesis
  proof (cases "build_splits p")
    case (Inl e)
    then show ?thesis using build_splits_result [OF ok] subsets by auto
  next
    case (Inr q)
    then have paths: "list_all2 (split_for p) ?ps (partition_splits q)"
      using build_splits_result [OF ok] by simp
    have len: "length (partition_splits q) = length ?cs" using list_all2_lengthD [OF paths] by simp
    have nth: "path_index (partition_splits q ! i) = int i" "test_group_indices (partition_splits q ! i) = ?cs ! i"
      "split_for p (int i, ?cs ! i) (partition_splits q ! i)" if "i < length ?cs" for i
      using list_all2_nthD2 [OF paths, of i] that len by (simp_all add: split_for_def)
    have chosen: "map test_group_indices (partition_splits q) = ?cs"
      "map path_index (partition_splits q) = map int [0..<length ?cs]"
      using nth(1,2) len by (auto intro!: nth_equalityI simp del: upt_Suc)
    have "covered (test_intervals s) = tested_instants p (set (test_group_indices s))
        \<and> covered (train_intervals s) = training_instants p (set (test_group_indices s))"
      if "s \<in> set (partition_splits q)" for s
      using that nth(3) len by (auto simp: in_set_conv_nth split_for_def)
    moreover have "t + label_horizon (cpcv_declaration p) + availability_lag (cpcv_declaration p) < u
        \<or> u + max_feature_lookback (cpcv_declaration p) + max_holding_horizon (cpcv_declaration p) < t"
      if "t \<in> training_instants p A" "u \<in> tested_instants p A" for t u A
      using that accepted_cpcvD(8) [OF ok]
      by (fastforce simp: training_instants_def within_gap_def cpcv_purge_def declared_purge_def embargo_floor_def)
    moreover have "distinct (map test_group_indices (partition_splits q))"
      "set ` set (map test_group_indices (partition_splits q)) =
        {A. A \<subseteq> {..<group_count p} \<and> card A = nat (test_group_size p)}"
      by (simp_all only: chosen(1) subsets combinations_distinct [OF distinct_upt])
    moreover have total: "length ?cs = path_total p" by (simp add: combinations_length path_total_def)
    ultimately show ?thesis
      unfolding Inr sum.case Let_def using len [unfolded total] chosen(2) [unfolded total]
      by (intro conjI ballI) (assumption | blast)+
  qed
qed

lemma cpcv_splits_never_leak_witness:
  "\<exists>q. build_splits example_cpcv = Inr q \<and> map path_index (partition_splits q) = [0, 1, 2, 3, 4, 5]"
proof -
  have "case build_splits example_cpcv of Inr q \<Rightarrow> True | Inl e \<Rightarrow> False" by code_simp
  then obtain q where q: "build_splits example_cpcv = Inr q" by (auto split: sum.splits)
  have "path_total example_cpcv = 6" by code_simp
  then have "map path_index (partition_splits q) = map int [0..<6]"
    using cpcv_splits_never_leak [of example_cpcv] example_cpcv_accepted
    by (simp only: q sum.case Let_def simp_thms)
  then show ?thesis using q by (simp add: upt_rec)
qed

end
