(* ===== verification/Exposure.thy ===== *)
theory Exposure
  imports Portfolios Risk_Limits "HOL-Library.AList"
begin

text \<open>
  \<open>src/fking/risk/exposure.py\<close>: the fraction-of-equity limits, the book priced at one set of
  marks, one evaluation per limit, and the pre-trade verdict on a signal. A Python mapping is
  its list of items (\<open>AList.update\<close> is assignment to a key); the wording of a rejection is not
  modelled, the limit that bound is. The lemmas show that an approval leaves every limit
  unbreached and that a refusal names a limit that really binds.
\<close>

section \<open>Limits\<close>

definition EXPOSURE_HARD_CEILINGS :: "(string \<times> ceiling) list" where
  "EXPOSURE_HARD_CEILINGS =
     [(''max_position_equity_ratio'', Ceiling (10 / 100)),
      (''max_gross_exposure_ratio'', Ceiling 3),
      (''max_net_exposure_ratio'', Ceiling (150 / 100)),
      (''max_asset_exposure_ratio'', Ceiling (25 / 100))]"

definition EXPOSURE_HARD_FLOORS :: "(string \<times> floor_bound) list" where
  "EXPOSURE_HARD_FLOORS =
     [(''min_free_margin_ratio'', the (map_of HARD_FLOORS ''min_free_margin_ratio''))]"

record exposure_limits =
  max_position_equity_ratio :: rat
  max_gross_exposure_ratio :: rat
  max_net_exposure_ratio :: rat
  max_asset_exposure_ratio :: rat
  exposure_min_free_margin_ratio :: rat

definition default_exposure_limits :: exposure_limits where
  "default_exposure_limits = \<lparr>max_position_equity_ratio = 5 / 100, max_gross_exposure_ratio = 2,
     max_net_exposure_ratio = 1, max_asset_exposure_ratio = 15 / 100,
     exposure_min_free_margin_ratio = 40 / 100\<rparr>"

definition exposure_values :: "exposure_limits \<Rightarrow> (string \<times> rat) list" where
  "exposure_values l =
     [(''max_position_equity_ratio'', max_position_equity_ratio l),
      (''max_gross_exposure_ratio'', max_gross_exposure_ratio l),
      (''max_net_exposure_ratio'', max_net_exposure_ratio l),
      (''max_asset_exposure_ratio'', max_asset_exposure_ratio l),
      (''min_free_margin_ratio'', exposure_min_free_margin_ratio l)]"

definition exposure_limits_post_init :: "exposure_limits \<Rightarrow> unit result" where
  [post_init_defs]: "exposure_limits_post_init l = run_checks
     [assert_within_ceilings
        (filter (\<lambda>(name, value). name \<in> fst ` set EXPOSURE_HARD_CEILINGS) (exposure_values l))
        EXPOSURE_HARD_CEILINGS,
      assert_above_floors
        (filter (\<lambda>(name, value). name \<in> fst ` set EXPOSURE_HARD_FLOORS) (exposure_values l))
        EXPOSURE_HARD_FLOORS]"

record pre_trade_context =
  context_equity_usd :: rat
  context_exposure_limits :: exposure_limits
  context_absolute_limits :: risk_limits
  tradable_symbols :: "string set"

record limit_evaluation =
  evaluated_limit_name :: string
  bound_kind :: string
  threshold_usd :: rat
  observed_usd :: rat

definition limit_evaluation_post_init :: "limit_evaluation \<Rightarrow> unit result" where
  [post_init_defs]: "limit_evaluation_post_init e =
     ensure (bound_kind e \<in> {''ceiling'', ''floor''}) (DomainError ''bound_kind'')"

definition headroom_usd :: "limit_evaluation \<Rightarrow> rat" where
  "headroom_usd e =
     (if bound_kind e = ''ceiling'' then dsub (threshold_usd e) (observed_usd e)
      else dsub (observed_usd e) (threshold_usd e))"

definition is_breached :: "limit_evaluation \<Rightarrow> bool" where
  "is_breached e \<longleftrightarrow> headroom_usd e < 0"

section \<open>The book at one set of marks\<close>

type_synonym marks = "(instrument \<times> rat) list"

record book_exposure =
  gross_notional_usd :: rat
  net_notional_usd :: rat
  notional_usd_by_base_asset :: "(string \<times> rat) list"
  notional_usd_by_instrument :: "(instrument \<times> rat) list"

definition lookup_or_zero :: "('k \<times> rat) list \<Rightarrow> 'k \<Rightarrow> rat" where
  "lookup_or_zero items k = (case map_of items k of Some x \<Rightarrow> x | None \<Rightarrow> 0)"

definition held_notional_usd :: "book_exposure \<Rightarrow> instrument \<Rightarrow> rat" where
  "held_notional_usd e i = lookup_or_zero (notional_usd_by_instrument e) i"

definition asset_notional_usd :: "book_exposure \<Rightarrow> string \<Rightarrow> rat" where
  "asset_notional_usd e asset = lookup_or_zero (notional_usd_by_base_asset e) asset"

definition add_to :: "'k \<Rightarrow> rat \<Rightarrow> ('k \<times> rat) list \<Rightarrow> ('k \<times> rat) list" where
  "add_to k x items = AList.update k (dadd (lookup_or_zero items k) x) items"

definition price_position :: "marks \<Rightarrow> position \<Rightarrow> book_exposure \<Rightarrow> book_exposure result" where
  "price_position marks_usd position e =
     (case map_of marks_usd (position_instrument position) of
        None \<Rightarrow> Inl (DomainError ''no mark for open position'')
      | Some mark_usd \<Rightarrow>
          and_then (position_notional_quote position mark_usd) (\<lambda>notional_usd. Inr
            \<lparr>gross_notional_usd = dadd (gross_notional_usd e) notional_usd,
             net_notional_usd = dadd (net_notional_usd e) (dmul (signed_base_quantity position) mark_usd),
             notional_usd_by_base_asset =
               add_to (base_asset (position_instrument position)) notional_usd (notional_usd_by_base_asset e),
             notional_usd_by_instrument =
               add_to (position_instrument position) notional_usd (notional_usd_by_instrument e)\<rparr>))"

primrec price_positions :: "marks \<Rightarrow> book_exposure \<Rightarrow> position list \<Rightarrow> book_exposure result" where
  "price_positions marks_usd e [] = Inr e"
| "price_positions marks_usd e (p # ps) =
     and_then (price_position marks_usd p e) (\<lambda>e. price_positions marks_usd e ps)"

definition portfolio_exposure :: "portfolio \<Rightarrow> marks \<Rightarrow> book_exposure result" where
  "portfolio_exposure portfolio marks_usd =
     price_positions marks_usd
       \<lparr>gross_notional_usd = 0, net_notional_usd = 0, notional_usd_by_base_asset = [],
         notional_usd_by_instrument = []\<rparr> (open_positions portfolio)"

section \<open>Verdicts\<close>

record rejection =
  binding_limit_name :: string
  rejected_at_utc :: int

record exposure_assessment =
  exposure_strategy_id :: string
  exposure_instrument :: instrument
  exposure_direction :: direction
  exposure_decided_at_utc :: int
  exposure_equity_usd :: rat
  evaluations :: "limit_evaluation list"
  permitted_notional_usd :: rat
  permitted_base_quantity :: rat
  exposure_rejection :: "rejection option"

definition exposure_is_approved :: "exposure_assessment \<Rightarrow> bool" where
  "exposure_is_approved a \<longleftrightarrow> exposure_rejection a = None"

definition breached_limit_names :: "exposure_assessment \<Rightarrow> string list" where
  "breached_limit_names a = map evaluated_limit_name (filter is_breached (evaluations a))"

text \<open>A tally of refusals per strategy; absent means none.\<close>

type_synonym violation_tally = "(string \<times> int) list"

definition violation_count_for :: "violation_tally \<Rightarrow> string \<Rightarrow> int" where
  "violation_count_for t strategy = (case map_of t strategy of Some n \<Rightarrow> n | None \<Rightarrow> 0)"

definition with_assessment :: "violation_tally \<Rightarrow> exposure_assessment \<Rightarrow> violation_tally" where
  "with_assessment t a =
     (if exposure_is_approved a then t
      else AList.update (exposure_strategy_id a) (violation_count_for t (exposure_strategy_id a) + 1) t)"

section \<open>Evaluating the limits\<close>

definition ceiling_row :: "string \<Rightarrow> rat \<Rightarrow> rat \<Rightarrow> limit_evaluation" where
  "ceiling_row name threshold observed_value = \<lparr>evaluated_limit_name = name, bound_kind = ''ceiling'',
     threshold_usd = threshold, observed_usd = observed_value\<rparr>"

definition floor_row :: "string \<Rightarrow> rat \<Rightarrow> rat \<Rightarrow> limit_evaluation" where
  "floor_row name threshold observed_value = \<lparr>evaluated_limit_name = name, bound_kind = ''floor'',
     threshold_usd = threshold, observed_usd = observed_value\<rparr>"

definition evaluations_for ::
  "instrument \<Rightarrow> direction \<Rightarrow> book_exposure \<Rightarrow> pre_trade_context \<Rightarrow> limit_evaluation list result" where
  "evaluations_for i direction e c =
     (let equity_usd = context_equity_usd c;
          relative = context_exposure_limits c;
          absolute = context_absolute_limits c;
          directional_sign = (if direction = LONG then 1 else - 1)
      in and_then (ddiv (gross_notional_usd e) (max_leverage absolute)) (\<lambda>used_margin_usd.
         map_result (construct limit_evaluation_post_init)
           [ceiling_row ''max_position_equity_ratio''
              (dmul (max_position_equity_ratio relative) equity_usd) (held_notional_usd e i),
            ceiling_row ''max_position_notional_usd''
              (max_position_notional_usd absolute) (held_notional_usd e i),
            ceiling_row ''max_asset_exposure_ratio''
              (dmul (max_asset_exposure_ratio relative) equity_usd) (asset_notional_usd e (base_asset i)),
            ceiling_row ''max_gross_exposure_ratio''
              (dmul (max_gross_exposure_ratio relative) equity_usd) (gross_notional_usd e),
            ceiling_row ''max_portfolio_notional_usd''
              (max_portfolio_notional_usd absolute) (gross_notional_usd e),
            ceiling_row ''max_net_exposure_ratio''
              (dmul (max_net_exposure_ratio relative) equity_usd) (dmul (net_notional_usd e) directional_sign),
            floor_row ''min_free_margin_ratio''
              (dmul (exposure_min_free_margin_ratio relative) equity_usd) (dsub equity_usd used_margin_usd),
            ceiling_row ''max_single_order_notional_usd'' (max_single_order_notional_usd absolute) 0]))"

definition notional_headroom :: "rat \<Rightarrow> limit_evaluation \<Rightarrow> rat" where
  "notional_headroom leverage e =
     (if evaluated_limit_name e = ''min_free_margin_ratio'' then dmul (headroom_usd e) leverage
      else headroom_usd e)"

definition tightest ::
  "rat \<Rightarrow> limit_evaluation list \<Rightarrow> rat \<times> string \<Rightarrow> rat \<times> string" where
  "tightest leverage rows start = foldl
     (\<lambda>(tightest_usd, name) e. if notional_headroom leverage e < tightest_usd
        then (notional_headroom leverage e, evaluated_limit_name e) else (tightest_usd, name))
     start rows"

definition permitted_notional :: "limit_evaluation list \<Rightarrow> rat \<Rightarrow> rat \<times> string" where
  "permitted_notional rows leverage =
     (let (tightest_usd, name) = tightest leverage rows
            (headroom_usd (hd rows), evaluated_limit_name (hd rows))
      in (max tightest_usd 0, name))"

section \<open>The pre-trade verdict\<close>

definition reduce_only_assessment ::
  "signal \<Rightarrow> book_exposure \<Rightarrow> pre_trade_context \<Rightarrow> int \<Rightarrow> exposure_assessment" where
  "reduce_only_assessment s e c now_utc =
     \<lparr>exposure_strategy_id = strategy_id s, exposure_instrument = signal_instrument s,
       exposure_direction = FLAT, exposure_decided_at_utc = now_utc,
       exposure_equity_usd = context_equity_usd c, evaluations = [],
       permitted_notional_usd = held_notional_usd e (signal_instrument s),
       permitted_base_quantity = 0, exposure_rejection = None\<rparr>"

definition refused ::
  "signal \<Rightarrow> pre_trade_context \<Rightarrow> int \<Rightarrow> limit_evaluation list \<Rightarrow> string \<Rightarrow> exposure_assessment" where
  "refused s c now_utc rows name =
     \<lparr>exposure_strategy_id = strategy_id s, exposure_instrument = signal_instrument s,
       exposure_direction = signal_direction s, exposure_decided_at_utc = now_utc,
       exposure_equity_usd = context_equity_usd c, evaluations = rows,
       permitted_notional_usd = 0, permitted_base_quantity = 0,
       exposure_rejection = Some \<lparr>binding_limit_name = name, rejected_at_utc = now_utc\<rparr>\<rparr>"

definition size_headroom ::
  "signal \<Rightarrow> pre_trade_context \<Rightarrow> int \<Rightarrow> rat \<Rightarrow> limit_evaluation list \<Rightarrow> exposure_assessment result" where
  "size_headroom s c now_utc mark_usd rows =
     (let (permitted_usd, name) = permitted_notional rows (max_leverage (context_absolute_limits c))
      in if permitted_usd \<le> 0 then Inr (refused s c now_utc rows name)
         else and_then (and_then (ddiv permitted_usd mark_usd) (quantize_base_quantity (signal_instrument s)))
           (\<lambda>quantity.
              if quantity \<le> 0 \<or> \<not> meets_min_notional (signal_instrument s) quantity mark_usd
              then Inr (refused s c now_utc rows ''min_notional_quote'')
              else Inr
                \<lparr>exposure_strategy_id = strategy_id s, exposure_instrument = signal_instrument s,
                  exposure_direction = signal_direction s, exposure_decided_at_utc = now_utc,
                  exposure_equity_usd = context_equity_usd c, evaluations = rows,
                  permitted_notional_usd = permitted_usd, permitted_base_quantity = quantity,
                  exposure_rejection = None\<rparr>))"

text \<open>The injected clock is read once, first; \<open>now_utc\<close> is what it answered.\<close>

definition validate_pre_trade ::
  "signal \<Rightarrow> portfolio \<Rightarrow> marks \<Rightarrow> pre_trade_context \<Rightarrow> int \<Rightarrow> exposure_assessment result" where
  "validate_pre_trade s portfolio marks_usd c now_utc =
     (if symbol (signal_instrument s) \<notin> tradable_symbols c
      then Inr (refused s c now_utc [] ''tradable_universe'')
      else and_then (portfolio_exposure portfolio marks_usd) (\<lambda>e.
        if signal_direction s = FLAT then Inr (reduce_only_assessment s e c now_utc)
        else case map_of marks_usd (signal_instrument s) of
          None \<Rightarrow> Inr (refused s c now_utc [] ''mark_available'')
        | Some mark_usd \<Rightarrow>
            if mark_usd \<le> 0 then Inr (refused s c now_utc [] ''mark_available'')
            else and_then (evaluations_for (signal_instrument s) (signal_direction s) e c)
              (size_headroom s c now_utc mark_usd)))"

section \<open>Rounding as a relative error\<close>

lemma context_round_relative: "\<bar>context_round x - x\<bar> \<le> \<bar>x\<bar> / 10 ^ 37"
proof (cases "x = 0")
  case False
  have "\<bar>context_round x - x\<bar> \<le> ulp x / 2" by (rule context_round_error)
  also have "\<dots> \<le> ulp x" by (simp add: less_imp_le)
  also have "\<dots> \<le> \<bar>x\<bar> / 10 ^ 37" using ulp_le_relative [OF False] by (simp add: pos_le_divide_eq mult.commute)
  finally show ?thesis .
qed simp

lemma context_round_le: "0 \<le> x \<Longrightarrow> context_round x \<le> x * (1 + 1 / 10 ^ 37)"
proof -
  assume x: "0 \<le> x"
  have "context_round x \<le> x + x / 10 ^ 37"
    using context_round_relative [of x] unfolding abs_of_nonneg [OF x] abs_le_iff by linarith
  then show ?thesis by (simp only: distrib_left mult_1_right times_divide_eq_right)
qed

text \<open>An integer of at most 38 digits is in the context: the rule concrete inputs are evaluated with.\<close>

lemma context_round_numeral [simp]:
  "(numeral n :: int) < 10 ^ 38 \<Longrightarrow> context_round (numeral n) = numeral n"
  using context_round_representable [OF representable_of_int [of "numeral n"]] by simp

lemma snap_relative:
  assumes "snap q step ROUND_DOWN = Inr r" "0 < step" "0 \<le> q"
  shows "0 \<le> r" "r \<le> q * (1 + 1 / 10 ^ 37) ^ 2"
proof -
  let ?x = "context_round (q / step)"
  have x: "0 \<le> ?x" using assms by simp
  have r: "r = context_round (of_int \<lfloor>?x\<rfloor> * step)"
    using assms x by (auto simp: snap_def ddiv_def quantize_one_def Let_def dmul_def and_then_Inr_iff split: if_splits)
  have n: "0 \<le> \<lfloor>?x\<rfloor>" using x by simp
  then show "0 \<le> r" using assms(2) by (simp add: r)
  have "r \<le> (of_int \<lfloor>?x\<rfloor> * step) * (1 + 1 / 10 ^ 37)"
    unfolding r using n assms(2) by (intro context_round_le) simp
  also have "\<dots> \<le> (?x * step) * (1 + 1 / 10 ^ 37)"
    using assms(2) by (intro mult_right_mono) simp_all
  also have "\<dots> \<le> ((q / step) * (1 + 1 / 10 ^ 37) * step) * (1 + 1 / 10 ^ 37)"
    using assms by (intro mult_right_mono context_round_le) simp_all
  also have "\<dots> = q * (1 + 1 / 10 ^ 37) ^ 2"
    using assms(2) by (simp add: power2_eq_square)
  finally show "r \<le> q * (1 + 1 / 10 ^ 37) ^ 2" .
qed

section \<open>The tightest headroom\<close>

lemma tightest_least:
  assumes "tightest leverage rows (start, name) = (x, n)"
  shows "x \<le> start" "\<forall>e \<in> set rows. x \<le> notional_headroom leverage e"
    "(x, n) = (start, name) \<or>
       (\<exists>e \<in> set rows. x = notional_headroom leverage e \<and> n = evaluated_limit_name e)"
proof -
  have "x \<le> start \<and> (\<forall>e \<in> set rows. x \<le> notional_headroom leverage e) \<and>
      ((x, n) = (start, name) \<or> (\<exists>e \<in> set rows. x = notional_headroom leverage e \<and> n = evaluated_limit_name e))"
    using assms
  proof (induction rows arbitrary: start name)
    case Nil
    then show ?case by (simp add: tightest_def)
  next
    case (Cons e rows)
    show ?case
    proof (cases "notional_headroom leverage e < start")
      case True
      then have "tightest leverage rows (notional_headroom leverage e, evaluated_limit_name e) = (x, n)"
        using Cons.prems by (simp add: tightest_def)
      from Cons.IH [OF this] True show ?thesis by auto
    next
      case False
      then have "tightest leverage rows (start, name) = (x, n)"
        using Cons.prems by (simp add: tightest_def)
      from Cons.IH [OF this] False show ?thesis by auto
    qed
  qed
  then show "x \<le> start" "\<forall>e \<in> set rows. x \<le> notional_headroom leverage e"
    "(x, n) = (start, name) \<or> (\<exists>e \<in> set rows. x = notional_headroom leverage e \<and> n = evaluated_limit_name e)"
    by blast+
qed

lemma permitted_notional_tightest:
  assumes "permitted_notional rows leverage = (p, n)" "rows \<noteq> []"
    "evaluated_limit_name (hd rows) \<noteq> ''min_free_margin_ratio''"
  shows "\<exists>e \<in> set rows. n = evaluated_limit_name e \<and> p = max (notional_headroom leverage e) 0
    \<and> (\<forall>e' \<in> set rows. notional_headroom leverage e \<le> notional_headroom leverage e')"
proof -
  obtain x where x: "tightest leverage rows (headroom_usd (hd rows), evaluated_limit_name (hd rows)) = (x, n)"
    "p = max x 0"
    using assms(1) by (auto simp: permitted_notional_def split: prod.splits)
  have "headroom_usd (hd rows) = notional_headroom leverage (hd rows)"
    using assms(3) by (simp add: notional_headroom_def)
  then show ?thesis using tightest_least [OF x(1)] x(2) assms(2) by (metis hd_in_set prod.inject)
qed

definition LIMIT_ROW_NAMES :: "string list" where
  "LIMIT_ROW_NAMES =
     [''max_position_equity_ratio'', ''max_position_notional_usd'', ''max_asset_exposure_ratio'',
      ''max_gross_exposure_ratio'', ''max_portfolio_notional_usd'', ''max_net_exposure_ratio'',
      ''min_free_margin_ratio'', ''max_single_order_notional_usd'']"

lemma evaluations_for_names:
  assumes "evaluations_for i d e c = Inr rows"
  shows "map evaluated_limit_name rows = LIMIT_ROW_NAMES"
  using assms
  by (auto simp: evaluations_for_def Let_def and_then_Inr_iff LIMIT_ROW_NAMES_def ceiling_row_def floor_row_def)

lemma size_headroom_cases:
  assumes "size_headroom s c now_utc mark_usd rows = Inr a" "map evaluated_limit_name rows = LIMIT_ROW_NAMES"
    and "0 < lot_step (signal_instrument s)" "0 < mark_usd"
  defines "headroom \<equiv> notional_headroom (max_leverage (context_absolute_limits c))"
  shows "(\<exists>e \<in> set rows. a = refused s c now_utc rows (evaluated_limit_name e) \<and> headroom e \<le> 0
        \<and> (\<forall>e' \<in> set rows. headroom e \<le> headroom e'))
    \<or> (a = refused s c now_utc rows ''min_notional_quote'' \<and> (\<forall>e \<in> set rows. 0 < headroom e))
    \<or> (exposure_rejection a = None \<and> evaluations a = rows \<and> 0 < permitted_base_quantity a
        \<and> meets_min_notional (signal_instrument s) (permitted_base_quantity a) mark_usd
        \<and> (\<forall>e \<in> set rows. 0 < permitted_notional_usd a \<and> permitted_notional_usd a \<le> headroom e)
        \<and> permitted_base_quantity a * mark_usd \<le> permitted_notional_usd a * (1 + 1 / 10 ^ 36))"
proof -
  let ?lev = "max_leverage (context_absolute_limits c)"
  obtain p n where pn: "permitted_notional rows ?lev = (p, n)" by fastforce
  have "rows \<noteq> []" "evaluated_limit_name (hd rows) \<noteq> ''min_free_margin_ratio''"
    using assms(2) by (cases rows; simp add: LIMIT_ROW_NAMES_def)+
  from permitted_notional_tightest [OF pn this]
  obtain e where e: "e \<in> set rows" "n = evaluated_limit_name e" "p = max (headroom e) 0"
    "\<forall>e' \<in> set rows. headroom e \<le> headroom e'" unfolding headroom_def by blast
  show ?thesis
  proof (cases "p \<le> 0")
    case True
    then have "a = refused s c now_utc rows n" using assms(1) by (simp add: size_headroom_def pn)
    then show ?thesis using True e by (auto simp: max_def split: if_splits)
  next
    case False
    then have p: "0 < p" "\<forall>e \<in> set rows. p \<le> headroom e" using e by (auto simp: max_def split: if_splits)
    have "ddiv p mark_usd = Inr (context_round (p / mark_usd))" using assms(4) by (simp add: ddiv_def)
    then obtain q where q: "quantize_base_quantity (signal_instrument s) (context_round (p / mark_usd)) = Inr q"
      and a: "a = (if q \<le> 0 \<or> \<not> meets_min_notional (signal_instrument s) q mark_usd
          then refused s c now_utc rows ''min_notional_quote''
          else \<lparr>exposure_strategy_id = strategy_id s, exposure_instrument = signal_instrument s,
                exposure_direction = signal_direction s, exposure_decided_at_utc = now_utc,
                exposure_equity_usd = context_equity_usd c, evaluations = rows,
                permitted_notional_usd = p, permitted_base_quantity = q, exposure_rejection = None\<rparr>)"
      using assms(1) False by (auto simp: size_headroom_def pn and_then_Inr_iff split: if_splits)
    have "0 \<le> context_round (p / mark_usd)" using p(1) assms(4) by simp
    then have "q \<le> context_round (p / mark_usd) * (1 + 1 / 10 ^ 37) ^ 2"
      using snap_relative [OF q [unfolded quantize_base_quantity_def] assms(3)] by simp
    also have "\<dots> \<le> (p / mark_usd * (1 + 1 / 10 ^ 37)) * (1 + 1 / 10 ^ 37) ^ 2"
      using p(1) assms(4) by (intro mult_right_mono context_round_le) simp_all
    also have "\<dots> = p / mark_usd * (1 + 1 / 10 ^ 37) ^ 3" by (simp add: power3_eq_cube power2_eq_square)
    also have "\<dots> \<le> p / mark_usd * (1 + 1 / 10 ^ 36)"
      using p(1) assms(4) by (intro mult_left_mono) (simp_all add: power3_eq_cube)
    finally have "q * mark_usd \<le> p * (1 + 1 / 10 ^ 36)" using assms(4) by (simp add: field_simps)
    then show ?thesis using p a by (auto simp: less_le_trans)
  qed
qed

section \<open>Properties\<close>

text \<open>
  The verdict's own error: leverage at zero is an accepted limit, but the free-margin row
  divides by it.
\<close>

lemma zero_leverage_raises:
  assumes "symbol (signal_instrument s) \<in> tradable_symbols c" "signal_direction s \<noteq> FLAT"
    and "portfolio_exposure portfolio marks_usd = Inr e"
    and "map_of marks_usd (signal_instrument s) = Some mark_usd" "0 < mark_usd"
    and "max_leverage (context_absolute_limits c) = 0"
  shows "validate_pre_trade s portfolio marks_usd c now_utc =
    Inl (if gross_notional_usd e = 0 then InvalidOperation ''0/0'' else DivisionByZero)"
  using assms by (simp add: validate_pre_trade_def evaluations_for_def Let_def ddiv_def)

lemma zero_leverage_accepted: "risk_limits_post_init (default_limits\<lparr>max_leverage := 0\<rparr>) = Inr ()"
  by code_simp

definition example_signal :: "direction \<Rightarrow> signal" where
  "example_signal d = \<lparr>strategy_id = ''alpha'', signal_instrument = btcusdt, signal_direction = d,
     conviction = 9 / 10, horizon = 3600000000,
     invalidation_quote_price = (if d = FLAT then None else Some 95), rationale = ''breakout'',
     signal_decided_at_utc = 0\<rparr>"

definition example_context :: pre_trade_context where
  "example_context = \<lparr>context_equity_usd = 10000, context_exposure_limits = default_exposure_limits,
     context_absolute_limits = default_limits, tradable_symbols = {''BTCUSDT''}\<rparr>"

text \<open>
  C2. No exposure is permitted past any limit, and no limit is invented. An approved
  directional signal gets a positive quantity the venue accepts, its permitted notional is at
  most the headroom of each of the eight limits (the margin one converted by the leverage),
  and the quantity is worth at most that at the mark, up to one part in 10^36 for the rounding
  of the three decimal operations in between. A refusal permits nothing and names the reason:
  a symbol outside the universe, no usable mark, the limit with the least headroom, which has
  none, or the venue's minimum. A reduce-only signal in the universe is never refused.
\<close>

theorem exposure_respects_every_limit:
  assumes "validate_pre_trade s portfolio marks_usd c now_utc = Inr a" and "0 < lot_step (signal_instrument s)"
  defines "headroom \<equiv> notional_headroom (max_leverage (context_absolute_limits c))"
  shows "(signal_direction s \<noteq> FLAT \<and> exposure_rejection a = None \<longrightarrow>
      map evaluated_limit_name (evaluations a) = LIMIT_ROW_NAMES \<and>
      (\<forall>e \<in> set (evaluations a). permitted_notional_usd a \<le> headroom e) \<and>
      0 < permitted_notional_usd a \<and> 0 < permitted_base_quantity a \<and>
      (\<exists>mark_usd > 0. map_of marks_usd (signal_instrument s) = Some mark_usd
        \<and> meets_min_notional (signal_instrument s) (permitted_base_quantity a) mark_usd
        \<and> permitted_base_quantity a * mark_usd \<le> permitted_notional_usd a * (1 + 1 / 10 ^ 36)))
    \<and> (\<forall>r. exposure_rejection a = Some r \<longrightarrow>
      permitted_notional_usd a = 0 \<and> permitted_base_quantity a = 0 \<and>
      (binding_limit_name r = ''tradable_universe'' \<and> symbol (signal_instrument s) \<notin> tradable_symbols c
       \<or> binding_limit_name r = ''mark_available''
           \<and> (\<forall>m. map_of marks_usd (signal_instrument s) = Some m \<longrightarrow> m \<le> 0)
       \<or> (\<exists>e \<in> set (evaluations a). binding_limit_name r = evaluated_limit_name e \<and> headroom e \<le> 0
            \<and> (\<forall>e' \<in> set (evaluations a). headroom e \<le> headroom e'))
       \<or> binding_limit_name r = ''min_notional_quote'' \<and> (\<forall>e \<in> set (evaluations a). 0 < headroom e)))
    \<and> (signal_direction s = FLAT \<longrightarrow>
        exposure_rejection a = None \<longleftrightarrow> symbol (signal_instrument s) \<in> tradable_symbols c)"
proof (cases "symbol (signal_instrument s) \<in> tradable_symbols c \<and> signal_direction s \<noteq> FLAT
    \<and> (\<exists>m > 0. map_of marks_usd (signal_instrument s) = Some m)")
  case True
  then obtain m where m: "0 < m" "map_of marks_usd (signal_instrument s) = Some m" by blast
  with True assms(1) obtain e rows where
    rows: "evaluations_for (signal_instrument s) (signal_direction s) e c = Inr rows"
    "size_headroom s c now_utc m rows = Inr a"
    by (auto simp: validate_pre_trade_def and_then_Inr_iff)
  note names = evaluations_for_names [OF rows(1)]
  have "rows \<noteq> []" using names by (auto simp: LIMIT_ROW_NAMES_def)
  then obtain e0 where "e0 \<in> set rows" by (meson last_in_set)
  from size_headroom_cases [OF rows(2) names assms(2) m(1)]
  consider (limit) e where "e \<in> set rows" "a = refused s c now_utc rows (evaluated_limit_name e)"
      "headroom e \<le> 0" "\<forall>e' \<in> set rows. headroom e \<le> headroom e'"
    | (minimum) "a = refused s c now_utc rows ''min_notional_quote''" "\<forall>e \<in> set rows. 0 < headroom e"
    | (approved) "exposure_rejection a = None" "evaluations a = rows" "0 < permitted_base_quantity a"
      "meets_min_notional (signal_instrument s) (permitted_base_quantity a) m"
      "\<forall>e \<in> set rows. 0 < permitted_notional_usd a \<and> permitted_notional_usd a \<le> headroom e"
      "permitted_base_quantity a * m \<le> permitted_notional_usd a * (1 + 1 / 10 ^ 36)"
    unfolding headroom_def by (elim disjE bexE conjE; meson)
  then show ?thesis
  proof cases
    case limit
    then have "\<exists>e \<in> set (evaluations a). evaluated_limit_name e = evaluated_limit_name e \<and> headroom e \<le> 0
        \<and> (\<forall>e' \<in> set (evaluations a). headroom e \<le> headroom e')" by (auto simp: refused_def)
    then show ?thesis using limit True by (simp add: refused_def) blast
  next
    case minimum
    then show ?thesis using True by (simp add: refused_def)
  next
    case approved
    then show ?thesis using True names m \<open>e0 \<in> set rows\<close> by auto
  qed
next
  case False
  then show ?thesis using assms(1)
    by (auto simp: validate_pre_trade_def and_then_Inr_iff refused_def reduce_only_assessment_def not_le
        split: if_splits option.splits)
qed

lemma exposure_respects_every_limit_witness:
  "\<exists>a. validate_pre_trade (example_signal LONG) empty_portfolio [(btcusdt, 100)] example_context 0 = Inr a
    \<and> permitted_notional_usd a = 500 \<and> permitted_base_quantity a = 5
    \<and> permitted_base_quantity a * 100 \<le> permitted_notional_usd a * (1 + 1 / 10 ^ 36)"
proof -
  have "(case validate_pre_trade (example_signal LONG) empty_portfolio [(btcusdt, 100)] example_context 0 of
      Inr a \<Rightarrow> exposure_rejection a = None \<and> permitted_notional_usd a = 500 \<and> permitted_base_quantity a = 5
    | Inl e \<Rightarrow> False)"
    by (simp add: validate_pre_trade_def example_signal_def example_context_def btcusdt_def empty_portfolio_def
      portfolio_exposure_def open_positions_def evaluations_for_def default_limits_def default_exposure_limits_def
      ddiv_def dmul_def dsub_def Let_def ceiling_row_def floor_row_def construct_def limit_evaluation_post_init_def
      held_notional_usd_def asset_notional_usd_def lookup_or_zero_def size_headroom_def permitted_notional_def
      tightest_def notional_headroom_def headroom_usd_def quantize_base_quantity_def snap_def quantize_one_def
      DECIMAL_PRECISION_def meets_min_notional_def notional_quote_def dabs_def ensure_def)
  then obtain a where a: "validate_pre_trade (example_signal LONG) empty_portfolio [(btcusdt, 100)] example_context 0 = Inr a"
    "exposure_rejection a = None" "permitted_notional_usd a = 500" "permitted_base_quantity a = 5"
    by (auto split: sum.splits)
  have "0 < lot_step (signal_instrument (example_signal LONG))" by code_simp
  from exposure_respects_every_limit [OF a(1) this] a show ?thesis by (simp add: example_signal_def)
qed

end
