(* ===== verification/Precision.thy ===== *)
theory Precision
  imports Instruments
begin

text \<open>
  Decimal arithmetic at a stated precision, as \<open>decimal.localcontext\<close> gives it to
  \<open>src/fking/risk/contribution.py\<close> and \<open>covariance.py\<close>, and \<open>Decimal.sqrt\<close>, which rounds the
  exact root to the precision in force. Results carry a relative error below one unit in the
  last place, which is what the users of this theory compute with.
\<close>

section \<open>Rounding to a number of digits\<close>

definition unit_at :: "nat \<Rightarrow> int \<Rightarrow> rat" where
  "unit_at prec e = 10 powi (e - (int prec - 1))"

definition round_at :: "nat \<Rightarrow> rat \<Rightarrow> rat" where
  "round_at prec x =
     (if x = 0 then 0
      else of_int (round_half_even (x / unit_at prec (adjusted x))) * unit_at prec (adjusted x))"

lemma unit_at_pos [simp]: "0 < unit_at prec e"
  by (simp add: unit_at_def)

lemma unit_at_nonzero [simp]: "unit_at prec e \<noteq> 0" "\<bar>unit_at prec e\<bar> = unit_at prec e"
  using unit_at_pos [of prec e] by linarith+

lemma context_round_at: "context_round x = round_at DECIMAL_PRECISION x"
  by (simp add: context_round_def round_at_def ulp_def unit_at_def)

lemma round_at_0 [simp]: "round_at prec 0 = 0"
  by (simp add: round_at_def)

lemma unit_at_relative:
  assumes "x \<noteq> 0"
  shows "10 ^ prec * unit_at prec (adjusted x) \<le> 10 * \<bar>x\<bar>"
proof -
  have "10 ^ prec * unit_at prec (adjusted x) = 10 powi (int prec + (adjusted x - (int prec - 1)))"
    by (simp only: unit_at_def power_int_of_nat [symmetric] power_int_add [OF disjI1 [OF rel_simps(75)]])
  also have "int prec + (adjusted x - (int prec - 1)) = adjusted x + 1" by simp
  also have "10 powi (adjusted x + 1) = 10 * (10::rat) powi adjusted x"
    by (simp add: power_int_add)
  also have "\<dots> \<le> 10 * \<bar>x\<bar>" using adjusted_bounds(1) [OF assms] by simp
  finally show ?thesis .
qed

lemma round_at_relative:
  assumes "1 \<le> prec"
  shows "\<bar>round_at prec x - x\<bar> \<le> 5 * \<bar>x\<bar> / 10 ^ prec"
proof (cases "x = 0")
  case False
  let ?u = "unit_at prec (adjusted x)"
  have u: "0 < ?u" by simp
  have "round_at prec x - x = (of_int (round_half_even (x / ?u)) - x / ?u) * ?u"
    using False u by (simp add: round_at_def field_simps)
  then have "\<bar>round_at prec x - x\<bar> = \<bar>of_int (round_half_even (x / ?u)) - x / ?u\<bar> * ?u"
    using u by (simp add: abs_mult)
  also have "\<dots> \<le> 1 / 2 * ?u" using u by (intro mult_right_mono round_half_even_error less_imp_le)
  also have "\<dots> \<le> 5 * \<bar>x\<bar> / 10 ^ prec" using unit_at_relative [OF False, of prec] by (simp add: field_simps)
  finally show ?thesis .
qed simp

section \<open>Square roots\<close>

function int_sqrt :: "int \<Rightarrow> int" where
  "int_sqrt n =
     (if n \<le> 0 then 0
      else let r = 2 * int_sqrt (n div 4) in if (r + 1) * (r + 1) \<le> n then r + 1 else r)"
  by pat_completeness auto
termination
  by (relation "measure nat") auto

declare int_sqrt.simps [simp del]

lemma int_sqrt_bounds: "0 \<le> n \<Longrightarrow> int_sqrt n * int_sqrt n \<le> n \<and> n < (int_sqrt n + 1) * (int_sqrt n + 1) \<and> 0 \<le> int_sqrt n"
proof (induction n rule: int_sqrt.induct)
  case (1 n)
  show ?case
  proof (cases "n \<le> 0")
    case True
    then have "n = 0" using 1(2) by simp
    moreover have "int_sqrt 0 = 0" by (subst int_sqrt.simps) simp
    ultimately show ?thesis by simp
  next
    case False
    define r where "r = int_sqrt (n div 4)"
    have r: "r * r \<le> n div 4" "n div 4 < (r + 1) * (r + 1)" "0 \<le> r"
      using 1(1) False by (simp_all add: r_def)
    have "4 * (r * r) \<le> n" using r(1) by linarith
    moreover have "n < 4 * ((r + 1) * (r + 1))" using r(2) by linarith
    ultimately have "(2 * r) * (2 * r) \<le> n" "n < (2 * r + 2) * (2 * r + 2)" by (simp_all add: algebra_simps)
    then show ?thesis using False r(3)
      by (simp add: int_sqrt.simps [of n] r_def [symmetric] Let_def algebra_simps)
  qed
qed

text \<open>
  The root has its leading digit at half the position of the radicand's; \<open>y\<close> is the radicand
  in units of the square of the root's last place, and the nearest integer to its root is
  taken, a tie to the even one.
\<close>

definition sqrt_at :: "nat \<Rightarrow> rat \<Rightarrow> rat result" where
  "sqrt_at prec x =
     (if x < 0 then Inl (InvalidOperation ''sqrt'')
      else if x = 0 then Inr 0
      else let u = unit_at prec (adjusted x div 2); y = x / (u * u); n = int_sqrt \<lfloor>y\<rfloor>;
             middle = (of_int n + 1 / 2) * (of_int n + 1 / 2)
        in Inr (of_int (if y < middle then n else if middle < y then n + 1
                        else if even n then n else n + 1) * u))"

lemma sqrt_at_total: "0 \<le> x \<Longrightarrow> \<exists>r. sqrt_at prec x = Inr r"
  by (simp add: sqrt_at_def Let_def)

lemma half_adjusted:
  assumes "x \<noteq> 0"
  shows "10 powi (2 * (adjusted x div 2)) \<le> \<bar>x\<bar>"
proof -
  have "(10::rat) powi (2 * (adjusted x div 2)) \<le> 10 powi adjusted x"
    by (intro power_int_increasing) auto
  then show ?thesis using adjusted_bounds(1) [OF assms] by linarith
qed

text \<open>The integer nearest to the root of a large number has a small relative error.\<close>

lemma nearest_root:
  fixes y :: rat
  assumes "of_int (n * n) \<le> y" "y < of_int ((n + 1) * (n + 1))" "0 \<le> n"
    and "10 ^ k * 10 ^ k \<le> y"
  defines "middle \<equiv> (of_int n + 1 / 2) * (of_int n + 1 / 2)"
  defines "m \<equiv> (if y < middle then n else if middle < y then n + 1 else if even n then n else n + 1)"
  shows "0 < m" "of_int m * of_int m \<le> y * (1 + 2 / 10 ^ k)" "y * (1 - 2 / 10 ^ k) \<le> of_int m * of_int m"
proof -
  let ?P = "10 ^ k :: rat"
  let ?m = "of_int m :: rat"
  have P: "1 \<le> ?P" by simp
  have "1 \<le> y" using assms(4) P mult_mono [OF P P] by simp
  then have n: "1 \<le> n" using assms(2,3) by (cases "n = 0") auto
  have up: "y \<le> (?m + 1 / 2) * (?m + 1 / 2)" and down: "(?m - 1 / 2) * (?m - 1 / 2) \<le> y"
    using assms(1,2) n by (auto simp: m_def middle_def algebra_simps not_less split: if_splits)
  show pos: "0 < m" using n by (auto simp: m_def)
  let ?k = "?m - 1 / 2"
  have m1: "1 \<le> ?m" using pos by simp
  have "(?m + 1 / 4) * ?P \<le> 2 * y"
  proof (cases "?k \<le> ?P")
    case True
    have "?m + 1 / 4 \<le> 2 * ?P" using True P by linarith
    then have "(?m + 1 / 4) * ?P \<le> (2 * ?P) * ?P" by (rule mult_right_mono) simp
    also have "\<dots> = 2 * (?P * ?P)" by (rule mult.assoc)
    also have "\<dots> \<le> 2 * y" using assms(4) by (rule mult_left_mono) simp
    finally show ?thesis .
  next
    case False
    then have k: "?P \<le> ?k" by simp
    from order_trans [OF P k] have "1 \<le> ?k" .
    then have "?m + 1 / 4 \<le> 2 * ?k" "0 \<le> 2 * ?k" by simp_all
    then have "(?m + 1 / 4) * ?P \<le> (2 * ?k) * ?k" using k by (intro mult_mono) simp_all
    also have "\<dots> = 2 * (?k * ?k)" by (rule mult.assoc)
    also have "\<dots> \<le> 2 * y" using down by (rule mult_left_mono) simp
    finally show ?thesis .
  qed
  then have slack: "?m + 1 / 4 \<le> y * (2 / ?P)" by (simp add: pos_le_divide_eq mult.commute)
  show "?m * ?m \<le> y * (1 + 2 / ?P)" using slack down by (simp add: algebra_simps)
  show "y * (1 - 2 / ?P) \<le> ?m * ?m" using slack up by (simp add: algebra_simps)
qed

lemma sqrt_at_bounds:
  assumes "sqrt_at prec x = Inr r" "0 < x" "1 \<le> prec"
  shows "0 < r" "r * r \<le> x * (1 + 2 / 10 ^ (prec - 1))" "x * (1 - 2 / 10 ^ (prec - 1)) \<le> r * r"
proof -
  let ?h = "adjusted x div 2"
  let ?u = "unit_at prec ?h"
  define y where "y = x / (?u * ?u)"
  define n where "n = int_sqrt \<lfloor>y\<rfloor>"
  define m where "m = (if y < (of_int n + 1 / 2) * (of_int n + 1 / 2) then n
    else if (of_int n + 1 / 2) * (of_int n + 1 / 2) < y then n + 1 else if even n then n else n + 1)"
  have u: "0 < ?u" by simp
  have r: "r = of_int m * ?u" using assms(1,2)
    by (simp add: sqrt_at_def Let_def y_def n_def m_def split: if_splits)
  have y: "0 < y" using assms(2) u by (simp add: y_def)
  have n: "n * n \<le> \<lfloor>y\<rfloor>" "\<lfloor>y\<rfloor> < (n + 1) * (n + 1)" "0 \<le> n"
    using int_sqrt_bounds [of "\<lfloor>y\<rfloor>"] y by (simp_all add: n_def)
  have ny: "of_int (n * n) \<le> y" "y < of_int ((n + 1) * (n + 1))"
    using n(1,2) by (simp_all only: le_floor_iff floor_less_iff)
  have big: "(10 ^ (prec - 1)) * (10 ^ (prec - 1)) \<le> y"
  proof -
    have "(10 ^ (prec - 1) * ?u) = 10 powi (int (prec - 1) + (?h - (int prec - 1)))"
      by (simp only: unit_at_def power_int_of_nat [symmetric] power_int_add [OF disjI1 [OF rel_simps(75)]])
    also have "int (prec - 1) + (?h - (int prec - 1)) = ?h" using assms(3) by simp
    finally have "(10 ^ (prec - 1) * ?u) * (10 ^ (prec - 1) * ?u) = 10 powi ?h * (10::rat) powi ?h" by simp
    also have "\<dots> = 10 powi (2 * ?h)" by (simp add: power_int_add [symmetric])
    also have "\<dots> \<le> x" using half_adjusted [of x] assms(2) by simp
    finally show ?thesis using u by (simp add: y_def pos_le_divide_eq algebra_simps)
  qed
  have u2: "?u * ?u \<noteq> 0" "0 < ?u * ?u" using u by simp_all
  have x: "x = y * (?u * ?u)" unfolding y_def by (rule nonzero_divide_eq_eq [THEN iffD1, OF u2(1) refl])
  have near: "0 < m" "of_int m * of_int m \<le> y * (1 + 2 / 10 ^ (prec - 1))"
    "y * (1 - 2 / 10 ^ (prec - 1)) \<le> of_int m * of_int m"
    using nearest_root [OF ny n(3) big] by (simp_all add: m_def)
  have rr: "r * r = of_int m * of_int m * (?u * ?u)" by (simp only: r mult_ac)
  have scale: "x * c = y * c * (?u * ?u)" for c using x by (metis mult.assoc mult.commute)
  show "0 < r" using near(1) by (simp add: r)
  show "r * r \<le> x * (1 + 2 / 10 ^ (prec - 1))"
    unfolding rr scale by (rule mult_right_mono [OF near(2) less_imp_le [OF u2(2)]])
  show "x * (1 - 2 / 10 ^ (prec - 1)) \<le> r * r"
    unfolding rr scale by (rule mult_right_mono [OF near(3) less_imp_le [OF u2(2)]])
qed

end
