(* ===== verification/Sizing.thy ===== *)
theory Sizing
  imports Exposure Precision
begin

text \<open>
  \<open>src/fking/risk/sizing.py\<close>: the sizing parameters and their compiled-in bounds, the
  volatility estimate, capped Kelly and the minimum over every term. \<open>x ** 2\<close> is the exact
  square rounded once. The lemmas read the terms as budgets: what a position loses at its
  invalidation level, its volatility, its notional and its Kelly fraction.
\<close>

section \<open>Parameters\<close>

definition EWMA_DECAY :: rat where
  "EWMA_DECAY = 94 / 100"

definition SLOW_WINDOW_OBSERVATIONS :: nat where
  "SLOW_WINDOW_OBSERVATIONS = 60"

definition PERIODS_PER_YEAR :: rat where
  "PERIODS_PER_YEAR = 365"

definition MIN_OBSERVATIONS_FOR_DISPERSION :: nat where
  "MIN_OBSERVATIONS_FOR_DISPERSION = 2"

definition SIZING_CEILINGS :: "(string \<times> ceiling) list" where
  "SIZING_CEILINGS =
     [(''risk_fraction_per_trade'', Ceiling (1 / 100)),
      (''target_volatility_annualised'', Ceiling (15 / 100)),
      (''max_kelly_fraction'', Ceiling (50 / 100)),
      (''atr_invalidation_multiple'', Ceiling 10),
      (''unstated_invalidation_risk_multiplier'', Ceiling (5 / 10))]"

definition SIZING_FLOORS :: "(string \<times> floor_bound) list" where
  "SIZING_FLOORS =
     [(''min_trades_for_kelly'', the (map_of HARD_FLOORS ''min_trades_for_kelly'')),
      (''atr_invalidation_multiple'', Floor (25 / 10))]"

definition sizing_require_non_negative :: "rat \<Rightarrow> string \<Rightarrow> unit result" where
  "sizing_require_non_negative candidate field = ensure (\<not> candidate < 0) (DomainError field)"

definition sizing_require_positive :: "rat \<Rightarrow> string \<Rightarrow> unit result" where
  "sizing_require_positive candidate field = ensure (\<not> candidate \<le> 0) (DomainError field)"

record sizing_parameters =
  risk_fraction_per_trade :: rat
  target_volatility_annualised :: rat
  max_kelly_fraction :: rat
  sizing_min_trades_for_kelly :: int
  atr_invalidation_multiple :: rat
  unstated_invalidation_risk_multiplier :: rat

definition default_sizing_parameters :: sizing_parameters where
  "default_sizing_parameters = \<lparr>risk_fraction_per_trade = 5 / 1000,
     target_volatility_annualised = 15 / 100, max_kelly_fraction = 25 / 100,
     sizing_min_trades_for_kelly = 100, atr_invalidation_multiple = 25 / 10,
     unstated_invalidation_risk_multiplier = 5 / 10\<rparr>"

definition sizing_bounded_values :: "sizing_parameters \<Rightarrow> (string \<times> rat) list" where
  "sizing_bounded_values p =
     [(''risk_fraction_per_trade'', risk_fraction_per_trade p),
      (''target_volatility_annualised'', target_volatility_annualised p),
      (''max_kelly_fraction'', max_kelly_fraction p),
      (''atr_invalidation_multiple'', atr_invalidation_multiple p),
      (''unstated_invalidation_risk_multiplier'', unstated_invalidation_risk_multiplier p),
      (''min_trades_for_kelly'', of_int (sizing_min_trades_for_kelly p))]"

definition sizing_parameters_post_init :: "sizing_parameters \<Rightarrow> unit result" where
  [post_init_defs]: "sizing_parameters_post_init p = run_checks
     [assert_within_ceilings (sizing_bounded_values p) SIZING_CEILINGS,
      assert_above_floors (sizing_bounded_values p) SIZING_FLOORS,
      sizing_require_positive (risk_fraction_per_trade p) ''risk_fraction_per_trade'',
      sizing_require_positive (target_volatility_annualised p) ''target_volatility_annualised'',
      sizing_require_non_negative (max_kelly_fraction p) ''max_kelly_fraction'',
      sizing_require_positive (atr_invalidation_multiple p) ''atr_invalidation_multiple'']"

section \<open>Volatility\<close>

record volatility_estimate =
  ewma_annualised :: rat
  slow_window_annualised :: rat
  floor_annualised :: rat
  used_annualised :: rat

definition dsquare :: "rat \<Rightarrow> rat" where
  "dsquare x = context_round (x ^ 2)"

abbreviation dsqrt :: "rat \<Rightarrow> rat result" where
  "dsqrt \<equiv> sqrt_at DECIMAL_PRECISION"

definition population_stdev :: "rat list \<Rightarrow> rat result" where
  "population_stdev xs =
     (if length xs < MIN_OBSERVATIONS_FOR_DISPERSION then Inr 0
      else and_then (ddiv (dsum xs) (of_nat (length xs))) (\<lambda>mean.
           and_then (ddiv (dsum (map (\<lambda>x. dsquare (dsub x mean)) xs)) (of_nat (length xs))) dsqrt))"

definition ewma_step :: "rat \<Rightarrow> rat \<Rightarrow> rat" where
  "ewma_step variance return_fraction =
     dadd (dmul EWMA_DECAY variance) (dmul (dsub 1 EWMA_DECAY) (dsquare return_fraction))"

definition ewma_variance :: "rat list \<Rightarrow> rat" where
  "ewma_variance series =
     (case series of [] \<Rightarrow> 0 | r # rs \<Rightarrow> foldl ewma_step (dsquare r) rs)"

definition volatility_used :: "rat list \<Rightarrow> rat \<Rightarrow> volatility_estimate result" where
  "volatility_used series floor_value =
     and_then (sizing_require_non_negative floor_value ''floor_annualised'') (\<lambda>_.
     and_then (dsqrt PERIODS_PER_YEAR) (\<lambda>annualisation.
     and_then (dsqrt (ewma_variance series)) (\<lambda>ewma.
     and_then (population_stdev (drop (length series - SLOW_WINDOW_OBSERVATIONS) series)) (\<lambda>slow.
       let ewma = dmul ewma annualisation; slow = dmul slow annualisation
       in Inr \<lparr>ewma_annualised = ewma, slow_window_annualised = slow, floor_annualised = floor_value,
                used_annualised = max (max ewma slow) floor_value\<rparr>))))"

section \<open>Sizing a position\<close>

record sizing_inputs =
  sizing_instrument :: instrument
  sizing_direction :: direction
  sizing_equity_usd :: rat
  entry_quote_price :: rat
  stated_invalidation :: "rat option"
  atr_14_quote :: rat
  return_series :: "rat list"
  volatility_floor_annualised :: rat
  closed_trade_count :: int
  realised_mean_return_fraction :: rat
  realised_return_stdev_fraction :: rat
  sizing_permitted_notional_usd :: rat

definition sizing_inputs_post_init :: "sizing_inputs \<Rightarrow> unit result" where
  [post_init_defs]: "sizing_inputs_post_init x = run_checks
     [ensure (sizing_direction x \<noteq> FLAT) (DomainError ''flat signal''),
      sizing_require_positive (entry_quote_price x) ''entry_quote_price'',
      sizing_require_non_negative (sizing_equity_usd x) ''equity_usd'',
      sizing_require_non_negative (atr_14_quote x) ''atr_14_quote'',
      sizing_require_non_negative (volatility_floor_annualised x) ''volatility_floor_annualised'',
      sizing_require_non_negative (realised_return_stdev_fraction x) ''realised_return_stdev_fraction'',
      sizing_require_non_negative (sizing_permitted_notional_usd x) ''permitted_notional_usd'',
      ensure (\<not> closed_trade_count x < 0) (DomainError ''closed_trade_count''),
      (case stated_invalidation x of
         None \<Rightarrow> Inr () | Some p \<Rightarrow> sizing_require_positive p ''invalidation_quote_price'')]"

record position_sizing =
  sized_base_quantity :: rat
  sized_notional_usd :: rat
  binding_term :: string
  fixed_fractional_base_quantity :: rat
  volatility_target_base_quantity :: rat
  kelly_base_quantity :: "rat option"
  exposure_base_quantity :: rat
  volatility :: volatility_estimate
  used_invalidation_fallback :: bool
  risk_fraction_used :: rat

definition sizing_terms :: "position_sizing \<Rightarrow> (string \<times> rat) list" where
  "sizing_terms s =
     [(''fixed_fractional'', fixed_fractional_base_quantity s),
      (''volatility_target'', volatility_target_base_quantity s),
      (''exposure'', exposure_base_quantity s)] @
     (case kelly_base_quantity s of None \<Rightarrow> [] | Some k \<Rightarrow> [(''kelly'', k)])"

definition risk_distance_quote :: "sizing_inputs \<Rightarrow> sizing_parameters \<Rightarrow> rat" where
  "risk_distance_quote x p =
     (case stated_invalidation x of
        Some level \<Rightarrow> dabs (dsub (entry_quote_price x) level)
      | None \<Rightarrow> dmul (atr_invalidation_multiple p) (atr_14_quote x))"

definition kelly_quantity :: "sizing_inputs \<Rightarrow> sizing_parameters \<Rightarrow> rat option result" where
  "kelly_quantity x p =
     (if closed_trade_count x < sizing_min_trades_for_kelly p then Inr None
      else if realised_return_stdev_fraction x \<le> 0 then Inr (Some 0)
      else and_then (ddiv (realised_mean_return_fraction x) (dsquare (realised_return_stdev_fraction x)))
        (\<lambda>ratio.
           let full_kelly = max ratio 0;
               equity_fraction = min (dmul (max_kelly_fraction p) full_kelly) (max_kelly_fraction p)
           in and_then (ddiv (dmul equity_fraction (sizing_equity_usd x)) (entry_quote_price x))
                (\<lambda>quantity. Inr (Some quantity))))"

text \<open>\<open>min(candidates, key=...)\<close>: the first key, in insertion order, of a least value.\<close>

fun least_term :: "(string \<times> rat) \<Rightarrow> (string \<times> rat) list \<Rightarrow> string \<times> rat" where
  "least_term best [] = best"
| "least_term best (t # ts) = least_term (if snd t < snd best then t else best) ts"

definition used_risk_fraction :: "sizing_inputs \<Rightarrow> sizing_parameters \<Rightarrow> rat" where
  "used_risk_fraction x p =
     (if stated_invalidation x = None
      then dmul (risk_fraction_per_trade p) (unstated_invalidation_risk_multiplier p)
      else risk_fraction_per_trade p)"

definition fixed_fractional_quantity :: "sizing_inputs \<Rightarrow> sizing_parameters \<Rightarrow> rat result" where
  "fixed_fractional_quantity x p =
     (let distance = risk_distance_quote x p
      in if distance > 0 then ddiv (dmul (used_risk_fraction x p) (sizing_equity_usd x)) distance else Inr 0)"

definition volatility_target_quantity ::
  "sizing_inputs \<Rightarrow> sizing_parameters \<Rightarrow> volatility_estimate \<Rightarrow> rat result" where
  "volatility_target_quantity x p vol =
     (if used_annualised vol > 0
      then and_then (ddiv (target_volatility_annualised p) (used_annualised vol))
             (\<lambda>ratio. ddiv (dmul ratio (sizing_equity_usd x)) (entry_quote_price x))
      else Inr 0)"

definition filtered_sizing ::
  "sizing_inputs \<Rightarrow> sizing_parameters \<Rightarrow> volatility_estimate \<Rightarrow> rat \<Rightarrow> rat \<Rightarrow> rat option \<Rightarrow> rat
     \<Rightarrow> string \<times> rat \<Rightarrow> position_sizing result" where
  "filtered_sizing x p vol fixed target kelly exposure binding =
     and_then (quantize_base_quantity (sizing_instrument x) (snd binding)) (\<lambda>quantity.
       let accepted = meets_min_notional (sizing_instrument x) quantity (entry_quote_price x);
           quantity = (if accepted then quantity else 0)
       in Inr \<lparr>sized_base_quantity = quantity,
            sized_notional_usd = notional_quote quantity (entry_quote_price x),
            binding_term = (if accepted then fst binding else ''venue_filters''),
            fixed_fractional_base_quantity = fixed,
            volatility_target_base_quantity = target, kelly_base_quantity = kelly,
            exposure_base_quantity = exposure, volatility = vol,
            used_invalidation_fallback = (stated_invalidation x = None),
            risk_fraction_used = used_risk_fraction x p\<rparr>)"

definition size_position :: "sizing_inputs \<Rightarrow> sizing_parameters \<Rightarrow> position_sizing result" where
  "size_position x p =
     and_then (volatility_used (return_series x) (volatility_floor_annualised x)) (\<lambda>vol.
     and_then (fixed_fractional_quantity x p) (\<lambda>fixed.
     and_then (volatility_target_quantity x p vol) (\<lambda>target.
     and_then (kelly_quantity x p) (\<lambda>kelly.
     and_then (ddiv (sizing_permitted_notional_usd x) (entry_quote_price x)) (\<lambda>exposure.
       let candidates = [(''volatility_target'', target), (''exposure'', exposure)] @
             (case kelly of None \<Rightarrow> [] | Some k \<Rightarrow> [(''kelly'', k)])
       in filtered_sizing x p vol fixed target kelly exposure
            (least_term (''fixed_fractional'', fixed) candidates))))))"

section \<open>Terms as budgets\<close>

text \<open>One rounding of a non-negative value adds at most this factor; five stay below \<open>slack\<close>.\<close>

definition eps1 :: rat where
  "eps1 = 1 + 1 / 10 ^ 37"

definition slack :: rat where
  "slack = 1 + 1 / 10 ^ 36"

lemma eps1_ge: "1 \<le> eps1" "0 < eps1" "0 \<le> eps1"
  by (simp_all add: eps1_def)

lemma eps1_power: "n \<le> 5 \<Longrightarrow> eps1 ^ n \<le> slack"
proof -
  assume "n \<le> 5"
  then have "eps1 ^ n \<le> eps1 ^ 5" by (rule power_increasing) (rule eps1_ge)
  also have "\<dots> \<le> slack" by (simp add: eps1_def slack_def power_numeral_reduce)
  finally show ?thesis .
qed

lemma dmul_le: "0 \<le> x * y \<Longrightarrow> dmul x y \<le> x * y * eps1"
  unfolding dmul_def eps1_def by (rule context_round_le)

lemma ddiv_le:
  assumes "ddiv x y = Inr r" "0 < y" "0 \<le> x"
  shows "0 \<le> r" "r * y \<le> x * eps1"
proof -
  have r: "r = context_round (x / y)" using assms(1,2) by (simp add: ddiv_def)
  show "0 \<le> r" using assms by (simp add: r)
  have "r \<le> x / y * eps1" unfolding r eps1_def using assms by (intro context_round_le) simp
  then have "r * y \<le> x / y * eps1 * y" using assms(2) by (intro mult_right_mono) simp_all
  also have "\<dots> = x * eps1" using assms(2) by simp
  finally show "r * y \<le> x * eps1" .
qed

lemma least_term_least:
  "\<forall>t \<in> set (b # ts). snd (least_term b ts) \<le> snd t" "least_term b ts \<in> set (b # ts)"
  by (induction b ts rule: least_term.induct) auto

lemma budget_chain:
  fixes q t w b :: rat
  assumes "q \<le> t * eps1 ^ 2" "t * w \<le> b * eps1 ^ n" "n \<le> 3" "0 \<le> w" "0 \<le> b"
  shows "q * w \<le> b * slack"
proof -
  have "q * w \<le> t * eps1 ^ 2 * w" using assms(1,4) by (rule mult_right_mono)
  also have "\<dots> = (t * w) * eps1 ^ 2" by (simp add: mult_ac)
  also have "\<dots> \<le> (b * eps1 ^ n) * eps1 ^ 2"
    using assms(2) by (rule mult_right_mono) (simp add: eps1_ge)
  also have "\<dots> = b * eps1 ^ (n + 2)" by (simp add: power_add power2_eq_square mult_ac)
  also have "\<dots> \<le> b * slack" using assms(3,5) by (intro mult_left_mono eps1_power) simp_all
  finally show ?thesis .
qed

lemma volatility_used_bounds:
  assumes "volatility_used series f = Inr v"
  shows "floor_annualised v = f" "0 \<le> f" "ewma_annualised v \<le> used_annualised v"
    "slow_window_annualised v \<le> used_annualised v" "f \<le> used_annualised v"
  using assms by (auto simp: volatility_used_def and_then_Inr_iff sizing_require_non_negative_def Let_def)

lemma kelly_bound:
  assumes "kelly_quantity x p = Inr k" "0 < entry_quote_price x" "0 \<le> sizing_equity_usd x" "0 \<le> max_kelly_fraction p"
  shows "k = None \<longleftrightarrow> closed_trade_count x < sizing_min_trades_for_kelly p"
    "k = Some y \<Longrightarrow> 0 \<le> y \<and> y * entry_quote_price x \<le> max_kelly_fraction p * sizing_equity_usd x * eps1 ^ 2"
proof -
  show "k = None \<longleftrightarrow> closed_trade_count x < sizing_min_trades_for_kelly p"
    using assms(1) by (auto simp: kelly_quantity_def and_then_Inr_iff Let_def split: if_splits)
  assume y: "k = Some y"
  let ?b = "max_kelly_fraction p * sizing_equity_usd x"
  have b: "0 \<le> ?b * eps1 ^ 2" using assms(3,4) by (simp add: eps1_ge)
  consider "y = 0" | a where "ddiv (dmul (min (dmul (max_kelly_fraction p) (max a 0)) (max_kelly_fraction p))
      (sizing_equity_usd x)) (entry_quote_price x) = Inr y"
    using assms(1) y by (auto simp: kelly_quantity_def and_then_Inr_iff Let_def split: if_splits)
  then show "0 \<le> y \<and> y * entry_quote_price x \<le> ?b * eps1 ^ 2"
  proof cases
    case 1
    then show ?thesis using b by simp
  next
    case 2
    define f where "f = min (dmul (max_kelly_fraction p) (max a 0)) (max_kelly_fraction p)"
    have "0 \<le> f" "f \<le> max_kelly_fraction p" using assms(4) by (simp_all add: f_def dmul_nonneg)
    note 2 = this 2 [folded f_def]
    have fe: "0 \<le> f * sizing_equity_usd x" using 2(1) assms(3) by simp
    then have m: "0 \<le> dmul f (sizing_equity_usd x)" by (simp add: dmul_def)
    have "y * entry_quote_price x \<le> dmul f (sizing_equity_usd x) * eps1"
      using ddiv_le(2) [OF 2(3) assms(2) m] .
    also have "\<dots> \<le> (f * sizing_equity_usd x * eps1) * eps1"
      using dmul_le [OF fe] by (rule mult_right_mono) (rule eps1_ge)
    also have "\<dots> \<le> (?b * eps1) * eps1"
      using 2(2) assms(3) by (intro mult_right_mono eps1_ge)
    finally show ?thesis using ddiv_le(1) [OF 2(3) assms(2) m] by (simp add: power2_eq_square mult_ac)
  qed
qed

lemma filtered_sizing_quantity:
  assumes "filtered_sizing x p vol fixed target kelly exposure binding = Inr z"
    and "0 < lot_step (sizing_instrument x)" "0 \<le> snd binding"
  shows "0 \<le> sized_base_quantity z" "sized_base_quantity z \<le> snd binding * eps1 ^ 2"
    "sized_base_quantity z \<noteq> 0 \<Longrightarrow>
      meets_min_notional (sizing_instrument x) (sized_base_quantity z) (entry_quote_price x)"
    "binding_term z = (if meets_min_notional (sizing_instrument x) (sized_base_quantity z) (entry_quote_price x)
       then fst binding else ''venue_filters'') \<or> sized_base_quantity z = 0"
    "volatility z = vol" "kelly_base_quantity z = kelly" "risk_fraction_used z = used_risk_fraction x p"
proof -
  obtain quantity where q: "snap (snd binding) (lot_step (sizing_instrument x)) ROUND_DOWN = Inr quantity"
    using assms(1) by (auto simp: filtered_sizing_def and_then_Inr_iff quantize_base_quantity_def)
  note snapped = snap_relative [OF q assms(2,3), folded eps1_def]
  have "0 \<le> snd binding * eps1 ^ 2" using assms(3) by (simp add: eps1_ge)
  then show "0 \<le> sized_base_quantity z" "sized_base_quantity z \<le> snd binding * eps1 ^ 2"
    using assms(1) q snapped
    by (auto simp: filtered_sizing_def and_then_Inr_iff quantize_base_quantity_def Let_def)
  show "sized_base_quantity z \<noteq> 0 \<Longrightarrow>
      meets_min_notional (sizing_instrument x) (sized_base_quantity z) (entry_quote_price x)"
    "binding_term z = (if meets_min_notional (sizing_instrument x) (sized_base_quantity z) (entry_quote_price x)
       then fst binding else ''venue_filters'') \<or> sized_base_quantity z = 0"
    "volatility z = vol" "kelly_base_quantity z = kelly" "risk_fraction_used z = used_risk_fraction x p"
    using assms(1) by (auto simp: filtered_sizing_def and_then_Inr_iff Let_def split: if_splits)
qed

lemma fixed_fractional_bound:
  assumes "fixed_fractional_quantity x p = Inr t" "0 \<le> used_risk_fraction x p" "0 \<le> sizing_equity_usd x"
    and "0 \<le> risk_distance_quote x p"
  shows "0 \<le> t \<and> t * risk_distance_quote x p \<le> used_risk_fraction x p * sizing_equity_usd x * eps1 ^ 2"
proof (cases "risk_distance_quote x p = 0")
  case True
  then show ?thesis using assms by (auto simp: fixed_fractional_quantity_def eps1_ge)
next
  case False
  then have d: "0 < risk_distance_quote x p" using assms(4) by simp
  have re: "0 \<le> used_risk_fraction x p * sizing_equity_usd x" using assms(2,3) by simp
  then have m: "0 \<le> dmul (used_risk_fraction x p) (sizing_equity_usd x)" by (simp add: dmul_def)
  have t: "ddiv (dmul (used_risk_fraction x p) (sizing_equity_usd x)) (risk_distance_quote x p) = Inr t"
    using assms(1) d by (simp add: fixed_fractional_quantity_def Let_def)
  have "t * risk_distance_quote x p \<le> dmul (used_risk_fraction x p) (sizing_equity_usd x) * eps1"
    by (rule ddiv_le(2) [OF t d m])
  also have "\<dots> \<le> (used_risk_fraction x p * sizing_equity_usd x * eps1) * eps1"
    using dmul_le [OF re] by (rule mult_right_mono) (rule eps1_ge)
  finally show ?thesis using ddiv_le(1) [OF t d m] by (simp add: power2_eq_square mult_ac)
qed

lemma volatility_target_bound:
  assumes "volatility_target_quantity x p vol = Inr t" "0 < target_volatility_annualised p"
    and "0 \<le> sizing_equity_usd x" "0 < entry_quote_price x" "0 \<le> used_annualised vol"
  shows "0 \<le> t \<and> t * (entry_quote_price x * used_annualised vol)
    \<le> target_volatility_annualised p * sizing_equity_usd x * eps1 ^ 3"
proof (cases "used_annualised vol = 0")
  case True
  then show ?thesis using assms by (auto simp: volatility_target_quantity_def eps1_ge)
next
  case False
  let ?s = "used_annualised vol" and ?e = "sizing_equity_usd x" and ?b = "entry_quote_price x"
  have s: "0 < ?s" using False assms(5) by simp
  obtain ratio where ratio: "ddiv (target_volatility_annualised p) ?s = Inr ratio" "ddiv (dmul ratio ?e) ?b = Inr t"
    using assms(1) s by (auto simp: volatility_target_quantity_def and_then_Inr_iff)
  note r = ddiv_le [OF ratio(1) s less_imp_le [OF assms(2)]]
  have re: "0 \<le> ratio * ?e" using r(1) assms(3) by simp
  then have m: "0 \<le> dmul ratio ?e" by (simp add: dmul_def)
  note t = ddiv_le [OF ratio(2) assms(4) m]
  have "t * (?b * ?s) = t * ?b * ?s" by (simp add: mult_ac)
  also have "\<dots> \<le> dmul ratio ?e * eps1 * ?s" using t(2) less_imp_le [OF s] by (rule mult_right_mono)
  also have "\<dots> \<le> (ratio * ?e * eps1) * eps1 * ?s"
    using dmul_le [OF re] s by (intro mult_right_mono eps1_ge) simp_all
  also have "\<dots> = (ratio * ?s) * (?e * eps1 ^ 2)" by (simp add: power2_eq_square mult_ac)
  also have "\<dots> \<le> (target_volatility_annualised p * eps1) * (?e * eps1 ^ 2)"
    using r(2) by (rule mult_right_mono) (use assms(3) in \<open>simp add: eps1_ge\<close>)
  also have "\<dots> = target_volatility_annualised p * ?e * eps1 ^ 3"
    by (simp add: power3_eq_cube power2_eq_square mult_ac)
  finally show ?thesis using t(1) by simp
qed

lemma sizing_inputs_accepted:
  assumes "sizing_inputs_post_init x = Inr ()"
  shows "0 < entry_quote_price x" "0 \<le> sizing_equity_usd x" "0 \<le> sizing_permitted_notional_usd x"
    "0 \<le> atr_14_quote x"
  using assms by (simp_all add: post_init_defs sizing_require_positive_def sizing_require_non_negative_def not_le not_less)

lemma sizing_parameters_accepted:
  assumes "sizing_parameters_post_init p = Inr ()"
  shows "0 < risk_fraction_per_trade p" "0 < target_volatility_annualised p" "0 \<le> max_kelly_fraction p"
    "0 < atr_invalidation_multiple p"
  using assms by (simp_all add: post_init_defs sizing_require_positive_def sizing_require_non_negative_def not_le not_less)


lemma size_position_binding:
  assumes "size_position x p = Inr z"
  obtains vol fixed target kelly exposure binding where
    "volatility_used (return_series x) (volatility_floor_annualised x) = Inr vol"
    "fixed_fractional_quantity x p = Inr fixed"
    "volatility_target_quantity x p vol = Inr target"
    "kelly_quantity x p = Inr kelly"
    "ddiv (sizing_permitted_notional_usd x) (entry_quote_price x) = Inr exposure"
    "filtered_sizing x p vol fixed target kelly exposure binding = Inr z"
    "snd binding \<le> fixed" "snd binding \<le> target" "snd binding \<le> exposure"
    "\<forall>k \<in> set_option kelly. snd binding \<le> k"
    "snd binding \<in> {fixed, target, exposure} \<union> set_option kelly"
proof -
  obtain vol fixed target kelly exposure where
    parts: "volatility_used (return_series x) (volatility_floor_annualised x) = Inr vol"
    "fixed_fractional_quantity x p = Inr fixed"
    "volatility_target_quantity x p vol = Inr target"
    "kelly_quantity x p = Inr kelly"
    "ddiv (sizing_permitted_notional_usd x) (entry_quote_price x) = Inr exposure" and
    z: "filtered_sizing x p vol fixed target kelly exposure
      (least_term (''fixed_fractional'', fixed) ([(''volatility_target'', target), (''exposure'', exposure)] @
        (case kelly of None \<Rightarrow> [] | Some k \<Rightarrow> [(''kelly'', k)]))) = Inr z"
    using assms by (auto simp: size_position_def Let_def and_then_Inr_iff simp del: least_term.simps)
  show ?thesis
    by (rule that [OF parts z]; insert least_term_least [of "(''fixed_fractional'', fixed)"
      "[(''volatility_target'', target), (''exposure'', exposure)] @
        (case kelly of None \<Rightarrow> [] | Some k \<Rightarrow> [(''kelly'', k)])"])
      (auto simp del: least_term.simps split: option.splits)
qed

lemma size_position_budgets:
  assumes "size_position x p = Inr z"
    and "sizing_inputs_post_init x = Inr ()" and "sizing_parameters_post_init p = Inr ()"
    and "0 < lot_step (sizing_instrument x)" and "0 \<le> unstated_invalidation_risk_multiplier p"
  shows "0 \<le> sized_base_quantity z"
    and "sized_base_quantity z \<noteq> 0 \<longrightarrow>
      meets_min_notional (sizing_instrument x) (sized_base_quantity z) (entry_quote_price x)"
    and "sized_base_quantity z * risk_distance_quote x p \<le> risk_fraction_used z * sizing_equity_usd x * slack"
    and "sized_base_quantity z * (entry_quote_price x * used_annualised (volatility z))
      \<le> target_volatility_annualised p * sizing_equity_usd x * slack"
    and "sized_base_quantity z * entry_quote_price x \<le> sizing_permitted_notional_usd x * slack"
    and "kelly_base_quantity z = None \<longleftrightarrow> closed_trade_count x < sizing_min_trades_for_kelly p"
    and "kelly_base_quantity z \<noteq> None \<longrightarrow>
      sized_base_quantity z * entry_quote_price x \<le> max_kelly_fraction p * sizing_equity_usd x * slack"
    and "volatility_used (return_series x) (volatility_floor_annualised x) = Inr (volatility z)"
proof -
  note inputs = sizing_inputs_accepted [OF assms(2)]
  note params = sizing_parameters_accepted [OF assms(3)]
  obtain vol fixed target kelly exposure binding where
    vol: "volatility_used (return_series x) (volatility_floor_annualised x) = Inr vol" and
    fixed: "fixed_fractional_quantity x p = Inr fixed" and
    target: "volatility_target_quantity x p vol = Inr target" and
    kelly: "kelly_quantity x p = Inr kelly" and
    exposure: "ddiv (sizing_permitted_notional_usd x) (entry_quote_price x) = Inr exposure" and
    z: "filtered_sizing x p vol fixed target kelly exposure binding = Inr z" and
    least: "snd binding \<le> fixed" "snd binding \<le> target" "snd binding \<le> exposure"
      "\<forall>k \<in> set_option kelly. snd binding \<le> k" and
    chosen: "snd binding \<in> {fixed, target, exposure} \<union> set_option kelly"
    by (rule size_position_binding [OF assms(1)]) blast
  have risk: "0 \<le> used_risk_fraction x p"
    using params(1) assms(5) by (simp add: used_risk_fraction_def dmul_nonneg)
  have distance: "0 \<le> risk_distance_quote x p"
    using params(4) inputs(4) by (auto simp: risk_distance_quote_def dmul_nonneg dabs_nonneg split: option.splits)
  note sigma = volatility_used_bounds [OF vol]
  note bound_fixed = fixed_fractional_bound [OF fixed risk inputs(2) distance]
  note bound_target = volatility_target_bound [OF target params(2) inputs(2,1) order_trans [OF sigma(2,5)]]
  note bound_kelly = kelly_bound [OF kelly inputs(1,2) params(3)]
  note bound_exposure = ddiv_le [OF exposure inputs(1,3)]
  have "0 \<le> snd binding"
    using chosen bound_fixed bound_target bound_kelly(2) bound_exposure(1) by auto
  note q = filtered_sizing_quantity [OF z assms(4) this]
  have below: "sized_base_quantity z \<le> t * eps1 ^ 2" if "snd binding \<le> t" for t
    using q(2) mult_right_mono [OF that, of "eps1 ^ 2"] by (simp add: eps1_ge)
  show "0 \<le> sized_base_quantity z"
    and "sized_base_quantity z \<noteq> 0 \<longrightarrow>
      meets_min_notional (sizing_instrument x) (sized_base_quantity z) (entry_quote_price x)"
    using q(1,3) by simp_all
  show "sized_base_quantity z * risk_distance_quote x p \<le> risk_fraction_used z * sizing_equity_usd x * slack"
    unfolding q(7)
    using budget_chain [OF below [OF least(1)], of _ _ 2] bound_fixed distance risk inputs(2) by simp
  show "sized_base_quantity z * (entry_quote_price x * used_annualised (volatility z))
      \<le> target_volatility_annualised p * sizing_equity_usd x * slack"
    unfolding q(5)
    using budget_chain [OF below [OF least(2)], of _ _ 3] bound_target params(2) inputs(1,2) sigma(2,5) by simp
  show "sized_base_quantity z * entry_quote_price x \<le> sizing_permitted_notional_usd x * slack"
    using budget_chain [OF below [OF least(3)], of _ _ 1] bound_exposure(2) inputs(1,3) by simp
  show "kelly_base_quantity z = None \<longleftrightarrow> closed_trade_count x < sizing_min_trades_for_kelly p"
    using bound_kelly(1) by (simp add: q(6))
  show "kelly_base_quantity z \<noteq> None \<longrightarrow>
      sized_base_quantity z * entry_quote_price x \<le> max_kelly_fraction p * sizing_equity_usd x * slack"
  proof
    assume "kelly_base_quantity z \<noteq> None"
    then obtain k where k: "kelly = Some k" by (auto simp: q(6))
    show "sized_base_quantity z * entry_quote_price x \<le> max_kelly_fraction p * sizing_equity_usd x * slack"
      using budget_chain [OF below [OF bspec [OF least(4), of k]], of _ _ 2] bound_kelly(2) [OF k] k inputs(1,2) params(3) by simp
  qed
  show "volatility_used (return_series x) (volatility_floor_annualised x) = Inr (volatility z)"
    by (simp add: q(5) vol)
qed

definition example_inputs :: sizing_inputs where
  "example_inputs = \<lparr>sizing_instrument = btcusdt, sizing_direction = LONG, sizing_equity_usd = 10000,
     entry_quote_price = 100, stated_invalidation = Some 95, atr_14_quote = 2, return_series = [],
     volatility_floor_annualised = 1, closed_trade_count = 0, realised_mean_return_fraction = 0,
     realised_return_stdev_fraction = 0, sizing_permitted_notional_usd = 500\<rparr>"

section \<open>Properties\<close>

text \<open>
  C15. A position stays inside every budget. For inputs and parameters their constructors
  accept, and a penalty for an unstated stop that is not negative, the sized quantity is not
  negative, zero unless the venue accepts it, and, up to one part in 10^36 for the rounding of
  at most five decimal operations: what it loses between entry and invalidation is at most the
  risk fraction of equity; its value times the volatility used is at most the target
  volatility of equity; its value is at most the permitted notional; and once the record is
  long enough for Kelly to count, at most the capped Kelly fraction of equity. The volatility
  used is at least the fast estimate, the slow one and the floor.
\<close>

theorem position_stays_in_every_budget:
  assumes "size_position x p = Inr z"
    and "sizing_inputs_post_init x = Inr ()" and "sizing_parameters_post_init p = Inr ()"
    and "0 < lot_step (sizing_instrument x)" and "0 \<le> unstated_invalidation_risk_multiplier p"
  shows "let quantity = sized_base_quantity z; notional = quantity * entry_quote_price x;
      equity = sizing_equity_usd x; sigma = used_annualised (volatility z) in
    0 \<le> quantity
    \<and> (quantity \<noteq> 0 \<longrightarrow> meets_min_notional (sizing_instrument x) quantity (entry_quote_price x))
    \<and> quantity * risk_distance_quote x p \<le> risk_fraction_used z * equity * slack
    \<and> notional * sigma \<le> target_volatility_annualised p * equity * slack
    \<and> notional \<le> sizing_permitted_notional_usd x * slack
    \<and> (kelly_base_quantity z = None \<longleftrightarrow> closed_trade_count x < sizing_min_trades_for_kelly p)
    \<and> (kelly_base_quantity z \<noteq> None \<longrightarrow> notional \<le> max_kelly_fraction p * equity * slack)
    \<and> ewma_annualised (volatility z) \<le> sigma \<and> slow_window_annualised (volatility z) \<le> sigma
    \<and> volatility_floor_annualised x \<le> sigma"
  using size_position_budgets [OF assms] volatility_used_bounds
  by (simp add: Let_def mult.assoc)

lemma position_stays_in_every_budget_witness:
  "\<exists>z. size_position example_inputs default_sizing_parameters = Inr z \<and> binding_term z = ''exposure''
    \<and> sized_base_quantity z = 5
    \<and> sized_base_quantity z * risk_distance_quote example_inputs default_sizing_parameters
        \<le> risk_fraction_used z * 10000 * slack"
proof -
  obtain annual where annual: "dsqrt PERIODS_PER_YEAR = Inr annual"
    using sqrt_at_total [of PERIODS_PER_YEAR] by (auto simp: PERIODS_PER_YEAR_def)
  have "dsqrt 0 = Inr 0" by (simp add: sqrt_at_def)
  then have vol: "volatility_used [] 1 = Inr \<lparr>ewma_annualised = 0, slow_window_annualised = 0,
      floor_annualised = 1, used_annualised = 1\<rparr>"
    using annual by (simp add: volatility_used_def sizing_require_non_negative_def ewma_variance_def
      population_stdev_def MIN_OBSERVATIONS_FOR_DISPERSION_def dmul_def ensure_def)
  have target: "context_round (3 / 20) = 3 / 20" by code_simp
  have "(case size_position example_inputs default_sizing_parameters of
      Inr z \<Rightarrow> binding_term z = ''exposure'' \<and> sized_base_quantity z = 5 | Inl e \<Rightarrow> False)"
    by (simp add: size_position_def vol target example_inputs_def default_sizing_parameters_def
      fixed_fractional_quantity_def used_risk_fraction_def risk_distance_quote_def volatility_target_quantity_def
      kelly_quantity_def dmul_def ddiv_def dsub_def dabs_def filtered_sizing_def Let_def btcusdt_def
      quantize_base_quantity_def snap_def quantize_one_def meets_min_notional_def notional_quote_def
      DECIMAL_PRECISION_def ensure_def)
  then obtain z where z: "size_position example_inputs default_sizing_parameters = Inr z"
    "binding_term z = ''exposure''" "sized_base_quantity z = 5"
    by (auto split: sum.splits)
  have "sizing_inputs_post_init example_inputs = Inr ()"
    by (simp add: post_init_defs example_inputs_def sizing_require_positive_def sizing_require_non_negative_def)
  moreover have "sizing_parameters_post_init default_sizing_parameters = Inr ()" by code_simp
  moreover have "0 < lot_step (sizing_instrument example_inputs)"
    "0 \<le> unstated_invalidation_risk_multiplier default_sizing_parameters"
    by (simp_all add: example_inputs_def btcusdt_def default_sizing_parameters_def)
  ultimately show ?thesis
    using position_stays_in_every_budget [OF z(1)] z by (simp add: example_inputs_def Let_def)
qed

end
