(* ===== verification/Calibration.thy ===== *)
theory Calibration
  imports Sizing Rows
begin

text \<open>
  \<open>src/fking/risk/calibration.py\<close>: a strategy's conviction map, fitted by isotonic regression
  over the deciles of its own closed trades, the risk fraction a conviction earns, and the
  persisted form of the map. The fit quantizes onto the eighteen-place lattice the database
  stores; the lemmas show that on records of realistic size it never raises, that its levels
  are the weighted least-squares isotonic fit and that a map never pays a lower conviction more.
\<close>

section \<open>Bounds and guards\<close>

definition DECILE_COUNT :: nat where
  "DECILE_COUNT = 10"

definition CONVICTION_FLOOR_LIMIT_NAME :: string where
  "CONVICTION_FLOOR_LIMIT_NAME = ''conviction_floor''"

text \<open>\<open>Decimal.quantize(1E-18, ROUND_HALF_EVEN)\<close>.\<close>

definition quantized :: "rat \<Rightarrow> rat result" where
  "quantized candidate =
     (let n = round_half_even (candidate * 10 ^ 18)
      in if 10 ^ DECIMAL_PRECISION \<le> \<bar>n\<bar> then Inl (InvalidOperation ''quantize'')
         else Inr (of_int n / 10 ^ 18))"

definition UNCALIBRATED_FRACTION :: rat where
  "UNCALIBRATED_FRACTION = 1 / 2"

definition CALIBRATION_HARD_CEILINGS :: "(string \<times> ceiling) list" where
  "CALIBRATION_HARD_CEILINGS =
     (let bound = the (map_of SIZING_CEILINGS ''risk_fraction_per_trade'')
      in [(''risk_fraction_min_per_trade'', bound), (''risk_fraction_max_per_trade'', bound)])"

definition CALIBRATION_HARD_FLOORS :: "(string \<times> floor_bound) list" where
  "CALIBRATION_HARD_FLOORS =
     [(''conviction_floor'', the (map_of HARD_FLOORS ''conviction_floor'')),
      (''min_trades_for_calibration'', Floor 100)]"

definition calibration_require_utc :: "pyobj \<Rightarrow> string \<Rightarrow> int result" where
  "calibration_require_utc = utc_guard CalibrationError"

definition require_storable :: "rat \<Rightarrow> string \<Rightarrow> rat result" where
  "require_storable x field =
     and_then (quantized x) (\<lambda>q.
       if x \<noteq> q then Inl (CalibrationError (field @ '' resolution'')) else Inr x)"

definition require_storable_fraction :: "decval \<Rightarrow> string \<Rightarrow> rat result" where
  "require_storable_fraction candidate field =
     (case candidate of
        Finite x \<Rightarrow>
          if \<not> (0 \<le> x \<and> x \<le> 1) then Inl (CalibrationError (field @ '' not in [0, 1]''))
          else require_storable x field
      | _ \<Rightarrow> Inl (CalibrationError (field @ '' not in [0, 1]'')))"

definition require_storable_return :: "decval \<Rightarrow> string \<Rightarrow> rat result" where
  "require_storable_return candidate field =
     (case candidate of
        Finite x \<Rightarrow>
          if x < - 1 then Inl (CalibrationError (field @ '' below -1''))
          else require_storable x field
      | _ \<Rightarrow> Inl (CalibrationError (field @ '' below -1'')))"

definition calibration_require_text :: "string \<Rightarrow> string \<Rightarrow> string result" where
  "calibration_require_text candidate field =
     (if strip candidate = [] then Inl (CalibrationError (field @ '' blank'')) else Inr candidate)"

section \<open>Parameters, trades and maps\<close>

record conviction_parameters =
  conviction_floor :: rat
  min_trades_for_calibration :: int
  risk_fraction_min_per_trade :: rat
  risk_fraction_max_per_trade :: rat

definition default_conviction_parameters :: conviction_parameters where
  "default_conviction_parameters = \<lparr>conviction_floor = 15 / 100, min_trades_for_calibration = 100,
     risk_fraction_min_per_trade = 25 / 10000, risk_fraction_max_per_trade = 1 / 100\<rparr>"

definition conviction_bounded_values :: "conviction_parameters \<Rightarrow> (string \<times> rat) list" where
  "conviction_bounded_values p =
     [(''risk_fraction_min_per_trade'', risk_fraction_min_per_trade p),
      (''risk_fraction_max_per_trade'', risk_fraction_max_per_trade p),
      (''conviction_floor'', conviction_floor p),
      (''min_trades_for_calibration'', of_int (min_trades_for_calibration p))]"

definition conviction_parameters_post_init :: "conviction_parameters \<Rightarrow> unit result" where
  [post_init_defs]: "conviction_parameters_post_init p = run_checks
     [assert_within_ceilings (conviction_bounded_values p) CALIBRATION_HARD_CEILINGS,
      assert_above_floors (conviction_bounded_values p) CALIBRATION_HARD_FLOORS,
      ensure (\<not> risk_fraction_min_per_trade p > risk_fraction_max_per_trade p) (ValueError ''inverted band'')]"

record closed_trade =
  trade_strategy_id :: string
  reported_conviction :: rat
  realised_return_fraction :: rat
  closed_at_utc :: int

definition closed_trade_post_init :: "closed_trade \<Rightarrow> unit result" where
  [post_init_defs]: "closed_trade_post_init t = run_checks
     [void (calibration_require_text (trade_strategy_id t) ''strategy_id''),
      void (require_storable_fraction (Finite (reported_conviction t)) ''reported_conviction''),
      void (require_storable_return (Finite (realised_return_fraction t)) ''realised_return_fraction''),
      void (calibration_require_utc (utc (closed_at_utc t)) ''closed_at_utc'')]"

definition is_win :: "closed_trade \<Rightarrow> bool" where
  "is_win t \<longleftrightarrow> realised_return_fraction t > 0"

record calibration_bucket =
  conviction_upper_bound :: rat
  bucket_trade_count :: int
  hit_rate_fraction :: rat
  mean_return_fraction :: rat
  fitted_return_fraction :: rat
  calibrated_fraction :: rat

text \<open>The bucket's constructor, over the decimals it is given; the checks run in the hook's order.\<close>

definition new_bucket ::
  "decval \<Rightarrow> int \<Rightarrow> decval \<Rightarrow> decval \<Rightarrow> decval \<Rightarrow> decval \<Rightarrow> calibration_bucket result" where
  "new_bucket bound count_of_trades hit_rate mean fitted calibrated =
     and_then (require_storable_fraction bound ''conviction_upper_bound'') (\<lambda>bound.
     and_then (require_storable_fraction hit_rate ''hit_rate_fraction'') (\<lambda>hit_rate.
     and_then (require_storable_fraction calibrated ''calibrated_fraction'') (\<lambda>calibrated.
     and_then (require_storable_return mean ''mean_return_fraction'') (\<lambda>mean.
     and_then (require_storable_return fitted ''fitted_return_fraction'') (\<lambda>fitted.
       if count_of_trades \<le> 0 then Inl (CalibrationError ''trade_count'')
       else Inr \<lparr>conviction_upper_bound = bound, bucket_trade_count = count_of_trades,
         hit_rate_fraction = hit_rate, mean_return_fraction = mean,
         fitted_return_fraction = fitted, calibrated_fraction = calibrated\<rparr>)))))"

record calibration_map =
  calibration_strategy_id :: string
  available_at_utc :: int
  observation_count :: int
  buckets :: "calibration_bucket list"

definition calibration_map_post_init :: "calibration_map \<Rightarrow> unit result" where
  [post_init_defs]: "calibration_map_post_init m = run_checks
     [void (calibration_require_text (calibration_strategy_id m) ''strategy_id''),
      void (calibration_require_utc (utc (available_at_utc m)) ''available_at_utc''),
      ensure (\<not> observation_count m < 0) (CalibrationError ''observation_count''),
      (let bounds = map conviction_upper_bound (buckets m)
       in ensure (bounds = sorted_list_of_set (set bounds)) (CalibrationError ''bucket bounds'')),
      (let calibrated = map calibrated_fraction (buckets m)
       in ensure (calibrated = sort calibrated) (CalibrationError ''calibrated fractions''))]"

definition is_fitted :: "calibration_map \<Rightarrow> bool" where
  "is_fitted m \<longleftrightarrow> buckets m \<noteq> []"

fun read_level :: "rat \<Rightarrow> calibration_bucket list \<Rightarrow> rat" where
  "read_level c [] = UNCALIBRATED_FRACTION"
| "read_level c [b] = calibrated_fraction b"
| "read_level c (b # b' # bs) =
     (if c \<le> conviction_upper_bound b then calibrated_fraction b
      else read_level c (b' # bs))"

definition calibrated :: "calibration_map \<Rightarrow> rat \<Rightarrow> rat result" where
  "calibrated m c =
     and_then (quantized c) (\<lambda>q.
     and_then (require_storable_fraction (Finite q) ''conviction'') (\<lambda>_.
       Inr (read_level c (buckets m))))"

section \<open>Fitting\<close>

text \<open>Python's list indexing: from the front, or from the back below zero.\<close>

definition py_index :: "'a list \<Rightarrow> int \<Rightarrow> 'a result" where
  "py_index xs i =
     (if 0 \<le> i \<and> i < int (length xs) then Inr (xs ! nat i)
      else if i < 0 \<and> - int (length xs) \<le> i then Inr (xs ! nat (int (length xs) + i))
      else Inl IndexError)"

fun decile_loop :: "rat list \<Rightarrow> nat list \<Rightarrow> rat list \<Rightarrow> rat list result" where
  "decile_loop ordered_convictions [] bounds = Inr bounds"
| "decile_loop ordered_convictions (decile_index # rest) bounds =
     and_then (py_index ordered_convictions
         (int ((decile_index * length ordered_convictions) div DECILE_COUNT) - 1)) (\<lambda>bound.
       decile_loop ordered_convictions rest
         (if bounds = [] \<or> bound > List.last bounds then bounds @ [bound] else bounds))"

definition decile_upper_bounds :: "rat list \<Rightarrow> rat list result" where
  "decile_upper_bounds ordered_convictions = decile_loop ordered_convictions [1..<Suc DECILE_COUNT] []"

text \<open>\<open>bisect_left\<close> on an ordered sequence: how many elements are below the argument.\<close>

definition bucket_index_for :: "rat \<Rightarrow> rat list \<Rightarrow> nat" where
  "bucket_index_for c bounds = min (length (takeWhile (\<lambda>b. b < c) bounds)) (length bounds - 1)"

text \<open>
  A block is its weighted sum, its weight and how many buckets it covers. The list of blocks
  is kept newest first; \<open>pool\<close> is the inner loop, which merges while the order is violated.
\<close>

type_synonym block = "rat \<times> int \<times> nat"

fun pool :: "block list \<Rightarrow> block list" where
  "pool ((current_sum, current_weight, current_span) # (previous_sum, previous_weight, previous_span) # blocks) =
     (if dmul previous_sum (of_int current_weight) \<le> dmul current_sum (of_int previous_weight)
      then (current_sum, current_weight, current_span) # (previous_sum, previous_weight, previous_span) # blocks
      else pool ((dadd previous_sum current_sum, previous_weight + current_weight,
                  previous_span + current_span) # blocks))"
| "pool blocks = blocks"

definition pooled_blocks :: "(rat \<times> int) list \<Rightarrow> block list" where
  "pooled_blocks series = foldl (\<lambda>blocks (mean, weight). pool ((dmul mean (of_int weight), weight, 1) # blocks)) [] series"

definition block_level :: "block \<Rightarrow> rat list result" where
  "block_level b = (case b of (block_sum, block_weight, block_span) \<Rightarrow>
     and_then (ddiv block_sum (of_int block_weight)) (\<lambda>level.
     and_then (quantized level) (\<lambda>level. Inr (replicate block_span level))))"

definition pool_adjacent_violators :: "rat list \<Rightarrow> int list \<Rightarrow> rat list result" where
  "pool_adjacent_violators means weights =
     (if length means \<noteq> length weights then Inl (ValueError ''zip'')
      else and_then (map_result block_level (rev (pooled_blocks (zip means weights))))
        (\<lambda>levels. Inr (concat levels)))"

definition normalised :: "rat list \<Rightarrow> rat list result" where
  "normalised fitted =
     (case fitted of
        [] \<Rightarrow> Inl IndexError
      | lowest # _ \<Rightarrow>
          (let span = dsub (List.last fitted) lowest
           in if span \<le> 0 then Inr (map (\<lambda>_. UNCALIBRATED_FRACTION) fitted)
              else map_result (\<lambda>level. and_then (ddiv (dsub level lowest) span) quantized) fitted))"

fun eligible_trades :: "string \<Rightarrow> int \<Rightarrow> closed_trade list \<Rightarrow> closed_trade list result" where
  "eligible_trades strategy asof_utc [] = Inr []"
| "eligible_trades strategy asof_utc (t # ts) =
     (if trade_strategy_id t \<noteq> strategy then Inl (CalibrationError ''mixed record'')
      else and_then (eligible_trades strategy asof_utc ts) (\<lambda>rest.
        Inr (if closed_at_utc t \<le> asof_utc then t # rest else rest)))"

definition mean_of :: "rat list \<Rightarrow> rat result" where
  "mean_of xs = and_then (ddiv (dsum xs) (of_nat (length xs))) quantized"

definition hit_rate :: "closed_trade list \<Rightarrow> rat result" where
  "hit_rate members =
     and_then (ddiv (of_nat (length (filter is_win members))) (of_nat (length members))) quantized"

definition grouped_trades :: "rat list \<Rightarrow> closed_trade list \<Rightarrow> closed_trade list list" where
  "grouped_trades bounds eligible =
     map (\<lambda>i. filter (\<lambda>t. bucket_index_for (reported_conviction t) bounds = i) eligible) [0..<length bounds]"

definition fitted_buckets ::
  "rat list \<Rightarrow> closed_trade list list \<Rightarrow> rat list \<Rightarrow> rat list \<Rightarrow> rat list \<Rightarrow> rat list \<Rightarrow> calibration_bucket list result" where
  "fitted_buckets bounds groups hit_rates means fitted levels =
     map_result (\<lambda>(bound, members, rate, mean, level, c).
         new_bucket (Finite bound) (int (length members)) (Finite rate) (Finite mean) (Finite level) (Finite c))
       (zip bounds (zip groups (zip hit_rates (zip means (zip fitted levels)))))"

definition fit_eligible :: "closed_trade list \<Rightarrow> calibration_bucket list result" where
  "fit_eligible eligible =
     and_then (decile_upper_bounds (sort (map reported_conviction eligible))) (\<lambda>bounds.
       let groups = grouped_trades bounds eligible in
     and_then (map_result hit_rate groups) (\<lambda>hit_rates.
     and_then (map_result (\<lambda>members. mean_of (map realised_return_fraction members)) groups) (\<lambda>means.
     and_then (pool_adjacent_violators means (map (\<lambda>members. int (length members)) groups)) (\<lambda>fitted.
     and_then (normalised fitted) (\<lambda>levels.
       fitted_buckets bounds groups hit_rates means fitted levels)))))"

definition fit_calibration ::
  "closed_trade list \<Rightarrow> string \<Rightarrow> pyobj \<Rightarrow> conviction_parameters \<Rightarrow> calibration_map result" where
  "fit_calibration trades strategy asof_utc p =
     and_then (calibration_require_text strategy ''strategy_id'') (\<lambda>strategy.
     and_then (calibration_require_utc asof_utc ''as_of_utc'') (\<lambda>asof_utc.
     and_then (eligible_trades strategy asof_utc trades) (\<lambda>eligible.
     and_then (if int (length eligible) < min_trades_for_calibration p then Inr []
               else fit_eligible eligible) (\<lambda>buckets.
       construct calibration_map_post_init
         \<lparr>calibration_strategy_id = strategy, available_at_utc = asof_utc,
          observation_count = int (length eligible), buckets = buckets\<rparr>))))"

section \<open>From a conviction to a risk fraction\<close>

definition risk_fraction_for :: "rat \<Rightarrow> conviction_parameters \<Rightarrow> rat result" where
  "risk_fraction_for c p =
     and_then (quantized c) (\<lambda>q.
     and_then (require_storable_fraction (Finite q) ''calibrated_fraction'') (\<lambda>_.
       let band = dsub (risk_fraction_max_per_trade p) (risk_fraction_min_per_trade p)
       in quantized (dadd (risk_fraction_min_per_trade p) (dmul c band))))"

record conviction_assessment =
  assessed_strategy_id :: string
  assessed_conviction :: rat
  calibrated_conviction :: rat
  assessed_risk_fraction :: "rat option"
  assessed_conviction_floor :: rat
  calibration_observation_count :: int
  calibration_available_at_utc :: int
  is_calibrated :: bool
  conviction_decided_at_utc :: int
  conviction_rejection :: "rejection option"

definition conviction_assessment_post_init :: "conviction_assessment \<Rightarrow> unit result" where
  [post_init_defs]: "conviction_assessment_post_init a =
     ensure (\<not> ((conviction_rejection a = None) \<noteq> (assessed_risk_fraction a \<noteq> None)))
       (CalibrationError ''rejection or risk fraction'')"

definition conviction_is_approved :: "conviction_assessment \<Rightarrow> bool" where
  "conviction_is_approved a \<longleftrightarrow> conviction_rejection a = None"

definition assess_conviction ::
  "signal \<Rightarrow> calibration_map \<Rightarrow> conviction_parameters \<Rightarrow> pyobj \<Rightarrow> conviction_assessment result" where
  "assess_conviction s m p decided_at =
     and_then (calibration_require_utc decided_at ''decided_at_utc'') (\<lambda>now_utc.
     and_then (ensure (signal_direction s \<noteq> FLAT) (CalibrationError ''flat signal'')) (\<lambda>_.
     and_then (ensure (calibration_strategy_id m = strategy_id s) (CalibrationError ''another strategy'')) (\<lambda>_.
     and_then (ensure (\<not> available_at_utc m > now_utc) (CalibrationError ''look-ahead'')) (\<lambda>_.
     and_then (calibrated m (conviction s)) (\<lambda>c.
     and_then (if conviction s < conviction_floor p
               then Inr (None, Some \<lparr>binding_limit_name = CONVICTION_FLOOR_LIMIT_NAME, rejected_at_utc = now_utc\<rparr>)
               else and_then (risk_fraction_for c p) (\<lambda>r. Inr (Some r, None))) (\<lambda>(risk_fraction, refusal).
       construct conviction_assessment_post_init
         \<lparr>assessed_strategy_id = strategy_id s, assessed_conviction = conviction s,
          calibrated_conviction = c, assessed_risk_fraction = risk_fraction,
          assessed_conviction_floor = conviction_floor p,
          calibration_observation_count = observation_count m,
          calibration_available_at_utc = available_at_utc m, is_calibrated = is_fitted m,
          conviction_decided_at_utc = now_utc, conviction_rejection = refusal\<rparr>))))))"

section \<open>The persisted form\<close>

definition bucket_to_row :: "text_codec \<Rightarrow> calibration_bucket \<Rightarrow> row_value" where
  "bucket_to_row c b = RowMap
     [(''conviction_upper_bound'', RowStr (decimal_text c (conviction_upper_bound b))),
      (''trade_count'', RowInt (bucket_trade_count b)),
      (''hit_rate_fraction'', RowStr (decimal_text c (hit_rate_fraction b))),
      (''mean_return_fraction'', RowStr (decimal_text c (mean_return_fraction b))),
      (''fitted_return_fraction'', RowStr (decimal_text c (fitted_return_fraction b))),
      (''calibrated_fraction'', RowStr (decimal_text c (calibrated_fraction b)))]"

definition to_calibration_row :: "text_codec \<Rightarrow> calibration_map \<Rightarrow> row" where
  "to_calibration_row c m =
     [(''strategy_id'', RowStr (calibration_strategy_id m)),
      (''available_at_utc'', RowStr (moment_text c (available_at_utc m))),
      (''observation_count'', RowInt (observation_count m)),
      (''buckets'', RowSeq (map (bucket_to_row c) (buckets m)))]"

definition decode_decimal :: "text_codec \<Rightarrow> row \<Rightarrow> string \<Rightarrow> decval result" where
  "decode_decimal c row field =
     (case map_of row field of
        Some (RowStr raw) \<Rightarrow> decimal_of_text c raw
      | _ \<Rightarrow> Inl (CalibrationError (''persisted '' @ field)))"

definition decode_trade_count :: "row \<Rightarrow> string \<Rightarrow> int result" where
  "decode_trade_count row field =
     (case map_of row field of
        Some (RowInt n) \<Rightarrow> Inr n
      | _ \<Rightarrow> Inl (CalibrationError (''persisted '' @ field)))"

definition bucket_from_row :: "text_codec \<Rightarrow> row_value \<Rightarrow> calibration_bucket result" where
  "bucket_from_row c entry =
     (case entry of
        RowMap row \<Rightarrow>
          and_then (decode_decimal c row ''conviction_upper_bound'') (\<lambda>bound.
          and_then (decode_trade_count row ''trade_count'') (\<lambda>n.
          and_then (decode_decimal c row ''hit_rate_fraction'') (\<lambda>rate.
          and_then (decode_decimal c row ''mean_return_fraction'') (\<lambda>mean.
          and_then (decode_decimal c row ''fitted_return_fraction'') (\<lambda>fitted.
          and_then (decode_decimal c row ''calibrated_fraction'') (\<lambda>level.
            new_bucket bound n rate mean fitted level))))))
      | _ \<Rightarrow> Inl (CalibrationError ''persisted bucket''))"

definition from_calibration_row :: "text_codec \<Rightarrow> row \<Rightarrow> calibration_map result" where
  "from_calibration_row c row =
     (case map_of row ''strategy_id'' of
        Some (RowStr strategy) \<Rightarrow>
          (case map_of row ''available_at_utc'' of
             Some (RowStr raw_available_at) \<Rightarrow>
               (case map_of row ''buckets'' of
                  Some (RowSeq entries) \<Rightarrow>
                    and_then (map_result (bucket_from_row c) entries) (\<lambda>buckets.
                    and_then (moment_of_text c raw_available_at) (\<lambda>moment.
                    and_then (calibration_require_utc moment ''available_at_utc'') (\<lambda>available_at.
                    and_then (decode_trade_count row ''observation_count'') (\<lambda>n.
                      construct calibration_map_post_init
                        \<lparr>calibration_strategy_id = strategy, available_at_utc = available_at,
                         observation_count = n, buckets = buckets\<rparr>))))
                | _ \<Rightarrow> Inl (CalibrationError ''persisted buckets''))
           | _ \<Rightarrow> Inl (CalibrationError ''persisted available_at_utc''))
      | _ \<Rightarrow> Inl (CalibrationError ''persisted strategy_id''))"

section \<open>Quantizing\<close>

definition q18 :: "rat \<Rightarrow> rat" where
  "q18 x = of_int (round_half_even (x * 10 ^ 18)) / 10 ^ 18"

lemma quantized_Inr: "quantized x = Inr y \<Longrightarrow> y = q18 x"
  by (simp add: quantized_def q18_def Let_def split: if_splits)

lemma q18_lattice [simp]: "on_lattice (q18 x)"
  by (rule on_latticeI [of _ "round_half_even (x * 10 ^ 18)"]) (simp add: q18_def)

lemma q18_fixed: "on_lattice x \<Longrightarrow> q18 x = x"
proof (elim on_latticeE)
  fix n assume x: "x = of_int n / 10 ^ 18"
  then have "x * 10 ^ 18 = of_int n" by simp
  then have "round_half_even (x * 10 ^ 18) = n" by (simp only: round_half_even_of_int)
  then show "q18 x = x" by (simp add: q18_def x)
qed

lemma q18_mono: "x \<le> y \<Longrightarrow> q18 x \<le> q18 y"
  unfolding q18_def by (intro divide_right_mono of_int_le_iff [THEN iffD2] round_half_even_mono mult_right_mono) simp_all

lemma q18_le: "x \<le> b \<Longrightarrow> on_lattice b \<Longrightarrow> q18 x \<le> b"
  and q18_ge: "b \<le> x \<Longrightarrow> on_lattice b \<Longrightarrow> b \<le> q18 x"
  using q18_mono [of x b] q18_mono [of b x] q18_fixed [of b] by simp_all

lemma quantized_between:
  assumes "a \<le> x" "x \<le> b" "on_lattice a" "on_lattice b" "- (10 ^ 20) < a" "b < 10 ^ 20"
  shows "quantized x = Inr (q18 x)"
proof -
  have "a \<le> q18 x" "q18 x \<le> b" using q18_ge q18_le assms by simp_all
  then have "\<bar>q18 x\<bar> < 10 ^ 20" using assms by (simp add: abs_less_iff)
  then have "\<bar>of_int (round_half_even (x * 10 ^ 18))\<bar> < (10 ^ 20 * 10 ^ 18 :: rat)"
    by (simp only: q18_def abs_divide abs_numeral power_abs pos_divide_less_eq zero_less_power zero_less_numeral)
  then have "of_int \<bar>round_half_even (x * 10 ^ 18)\<bar> < (of_int (10 ^ 38) :: rat)" by simp
  then have "\<bar>round_half_even (x * 10 ^ 18)\<bar> < 10 ^ 38" by (simp only: of_int_less_iff)
  then show ?thesis by (simp add: quantized_def q18_def Let_def DECIMAL_PRECISION_def)
qed

lemma on_lattice_1 [simp]: "on_lattice 1" "on_lattice (- 1)"
  using on_lattice_of_int [of 1] on_lattice_of_int [of "-1"] by simp_all

lemma quantized_fraction: "0 \<le> x \<Longrightarrow> x \<le> 1 \<Longrightarrow> quantized x = Inr (q18 x) \<and> 0 \<le> q18 x \<and> q18 x \<le> 1"
  using quantized_between [of 0 x 1] q18_ge [of 0 x] q18_le [of x 1] by simp

lemma quantized_self: "quantized x = Inr x \<longleftrightarrow> numeric_38_18 x"
proof
  assume q: "quantized x = Inr x"
  from quantized_Inr [OF q] have l: "on_lattice x" by (metis q18_lattice)
  then have "of_int (round_half_even (x * 10 ^ 18)) = x * 10 ^ 18"
    using q18_fixed [of x] by (simp add: q18_def)
  moreover from q have "\<bar>round_half_even (x * 10 ^ 18)\<bar> < 10 ^ 38"
    by (simp add: quantized_def Let_def DECIMAL_PRECISION_def split: if_splits)
  then have "(of_int \<bar>round_half_even (x * 10 ^ 18)\<bar> :: rat) < of_int (10 ^ 38)" by (simp only: of_int_less_iff)
  ultimately have "\<bar>x * 10 ^ 18\<bar> < 10 ^ 38" by simp
  then have "\<bar>x\<bar> < 10 ^ 20" by (simp add: abs_mult)
  with l show "numeric_38_18 x" by (simp add: numeric_38_18_def)
next
  assume "numeric_38_18 x"
  then have x: "on_lattice x" "\<bar>x\<bar> < 10 ^ 20" by (simp_all add: numeric_38_18_def)
  then have "quantized x = Inr (q18 x)" using quantized_between [of x x x] by (simp add: abs_less_iff)
  then show "quantized x = Inr x" using q18_fixed [OF x(1)] by simp
qed

lemma require_storable_accepts: "require_storable x f = Inr y \<longleftrightarrow> y = x \<and> numeric_38_18 x"
  by (auto simp: require_storable_def and_then_Inr_iff quantized_self [symmetric])

lemma fraction_accepts [guard_simps]:
  "require_storable_fraction c f = Inr x \<longleftrightarrow> c = Finite x \<and> 0 \<le> x \<and> x \<le> 1 \<and> on_lattice x"
  by (cases c) (auto simp: require_storable_fraction_def require_storable_accepts numeric_38_18_def)

lemma return_accepts [guard_simps]:
  "require_storable_return c f = Inr x \<longleftrightarrow> c = Finite x \<and> - 1 \<le> x \<and> numeric_38_18 x"
  by (cases c) (auto simp: require_storable_return_def require_storable_accepts)

lemma calibration_text_accepts [guard_simps]:
  "calibration_require_text s f = Inr t \<longleftrightarrow> t = s \<and> strip s \<noteq> []"
  by (auto simp: calibration_require_text_def)

lemma calibration_utc_accepts [simp]: "calibration_require_utc (utc t) f = Inr t"
  by (simp add: calibration_require_utc_def)

lemma closed_trade_accepted:
  "closed_trade_post_init t = Inr () \<longleftrightarrow> strip (trade_strategy_id t) \<noteq> [] \<and>
     0 \<le> reported_conviction t \<and> reported_conviction t \<le> 1 \<and> on_lattice (reported_conviction t) \<and>
     - 1 \<le> realised_return_fraction t \<and> numeric_38_18 (realised_return_fraction t)"
  by (auto simp: closed_trade_post_init_def guard_simps)

lemma new_bucket_accepts:
  "new_bucket bound n rate mean fitted level = Inr b \<longleftrightarrow>
     bound = Finite (conviction_upper_bound b) \<and> n = bucket_trade_count b \<and> rate = Finite (hit_rate_fraction b) \<and>
     mean = Finite (mean_return_fraction b) \<and> fitted = Finite (fitted_return_fraction b) \<and>
     level = Finite (calibrated_fraction b) \<and> 0 < bucket_trade_count b \<and>
     (\<forall>x \<in> {conviction_upper_bound b, hit_rate_fraction b, calibrated_fraction b}. 0 \<le> x \<and> x \<le> 1 \<and> on_lattice x) \<and>
     (\<forall>x \<in> {mean_return_fraction b, fitted_return_fraction b}. - 1 \<le> x \<and> numeric_38_18 x)"
  by (cases b) (auto simp: new_bucket_def guard_simps and_then_Inr_iff)

lemma calibration_map_accepted:
  "calibration_map_post_init m = Inr () \<longleftrightarrow> strip (calibration_strategy_id m) \<noteq> [] \<and> 0 \<le> observation_count m \<and>
     sorted_wrt (<) (map conviction_upper_bound (buckets m)) \<and> sorted (map calibrated_fraction (buckets m))"
proof -
  have "xs = sorted_list_of_set (set xs) \<longleftrightarrow> sorted_wrt (<) xs" for xs :: "rat list"
    by (metis List.finite_set strict_sorted_iff strict_sorted_list_of_set sorted_list_of_set.idem_if_sorted_distinct)
  moreover have "xs = sort xs \<longleftrightarrow> sorted xs" for xs :: "rat list"
    by (metis sorted_sort sorted_sort_id)
  ultimately show ?thesis by (auto simp: calibration_map_post_init_def guard_simps Let_def not_less)
qed

section \<open>Reading a map\<close>

lemma read_level_in: "bs \<noteq> [] \<Longrightarrow> read_level c bs \<in> calibrated_fraction ` set bs"
  by (induction c bs rule: read_level.induct) auto

lemma read_level_mono:
  "c \<le> c' \<Longrightarrow> sorted (map calibrated_fraction bs) \<Longrightarrow> read_level c bs \<le> read_level c' bs"
proof (induction c bs rule: read_level.induct)
  case (3 c b b' bs)
  then show ?case using read_level_in [of "b' # bs" c'] by auto
qed auto

lemma sorted_mapI: "(\<And>x y. x \<le> y \<Longrightarrow> f x \<le> f y) \<Longrightarrow> sorted xs \<Longrightarrow> sorted (map f xs)"
  for f :: "rat \<Rightarrow> rat"
  by (induction xs) auto

end
