(* ===== verification/Isotonic.thy ===== *)
theory Isotonic
  imports Calibration
begin

text \<open>
  Isotonic regression for \<open>_pool_adjacent_violators\<close> of \<open>src/fking/risk/calibration.py\<close>: the exact
  reference (segments at their weighted mean, joined while out of order), its optimality in
  weighted squares, and that the code's rounded products and sums pool exactly as it does.
\<close>

section \<open>Isotonic regression, exactly\<close>

text \<open>
  The reference the pooling is compared with: the series is cut into segments, each at its
  weighted mean, and two neighbours out of order are joined. Everything is exact.
\<close>

type_synonym series = "(rat \<times> int) list"

definition weight_of :: "series \<Rightarrow> rat" where
  "weight_of xs = (\<Sum>(m, w)\<leftarrow>xs. of_int w)"

definition weighted_sum :: "series \<Rightarrow> rat" where
  "weighted_sum xs = (\<Sum>(m, w)\<leftarrow>xs. m * of_int w)"

definition level_of :: "series \<Rightarrow> rat" where
  "level_of xs = weighted_sum xs / weight_of xs"

fun join_violators :: "series list \<Rightarrow> series list" where
  "join_violators (current # previous # segments) =
     (if level_of previous \<le> level_of current then current # previous # segments
      else join_violators ((previous @ current) # segments))"
| "join_violators segments = segments"

definition scanned :: "series \<Rightarrow> series list" where
  "scanned xs = foldl (\<lambda>segments x. join_violators ([x] # segments)) [] xs"

definition segments_of :: "series \<Rightarrow> series list" where
  "segments_of xs = rev (scanned xs)"

definition isotonic_fit :: "series \<Rightarrow> rat list" where
  "isotonic_fit xs = concat (map (\<lambda>seg. replicate (length seg) (level_of seg)) (segments_of xs))"

definition squared_error :: "series \<Rightarrow> rat list \<Rightarrow> rat" where
  "squared_error xs g = (\<Sum>((m, w), y)\<leftarrow>zip xs g. of_int w * (m - y) ^ 2)"

abbreviation positive :: "series \<Rightarrow> bool" where
  "positive xs \<equiv> \<forall>x \<in> set xs. 0 < snd x"

text \<open>How far the weighted sum of a segment is above the one of a constant level.\<close>

definition excess :: "rat \<Rightarrow> series \<Rightarrow> rat" where
  "excess a xs = (\<Sum>(m, w)\<leftarrow>xs. of_int w * (m - a))"

lemma weight_of_append [simp]: "weight_of (xs @ ys) = weight_of xs + weight_of ys" "weight_of [] = 0"
  "weight_of (x # xs) = of_int (snd x) + weight_of xs"
  by (simp_all add: weight_of_def split_beta)

lemma weighted_sum_append [simp]: "weighted_sum (xs @ ys) = weighted_sum xs + weighted_sum ys" "weighted_sum [] = 0"
  "weighted_sum (x # xs) = fst x * of_int (snd x) + weighted_sum xs"
  by (simp_all add: weighted_sum_def split_beta)

lemma excess_append [simp]: "excess a (xs @ ys) = excess a xs + excess a ys" "excess a [] = 0"
  "excess a (x # xs) = of_int (snd x) * (fst x - a) + excess a xs"
  by (simp_all add: excess_def split_beta)

lemma excess_eq: "excess a xs = weighted_sum xs - a * weight_of xs"
  by (induction xs) (simp_all add: algebra_simps)

lemma weight_of_nonneg: "positive xs \<Longrightarrow> 0 \<le> weight_of xs"
  by (induction xs) auto

lemma weight_of_pos: "positive xs \<Longrightarrow> xs \<noteq> [] \<Longrightarrow> 0 < weight_of xs"
  using weight_of_nonneg by (cases xs) (auto intro: add_pos_nonneg)

lemma excess_antimono: "positive xs \<Longrightarrow> a \<le> b \<Longrightarrow> excess b xs \<le> excess a xs"
  using mult_right_mono [OF _ weight_of_nonneg] by (fastforce simp: excess_eq)

lemma excess_level: "positive xs \<Longrightarrow> xs \<noteq> [] \<Longrightarrow> excess (level_of xs) xs = 0"
  using weight_of_pos [of xs] by (simp add: excess_eq level_of_def)

definition balanced :: "series \<Rightarrow> bool" where
  "balanced xs \<longleftrightarrow> xs \<noteq> [] \<and> positive xs \<and> (\<forall>k. 0 \<le> excess (level_of xs) (take k xs))"

lemma balanced_single: "0 < snd x \<Longrightarrow> balanced [x]"
  by (auto simp: balanced_def level_of_def take_Cons')

lemma level_between:
  assumes "positive p" "positive c" "p \<noteq> []" "c \<noteq> []" "level_of c \<le> level_of p"
  shows "level_of c \<le> level_of (p @ c)" "level_of (p @ c) \<le> level_of p"
proof -
  have w: "0 < weight_of p" "0 < weight_of c" using assms weight_of_pos by blast+
  have "weighted_sum c * weight_of p \<le> weighted_sum p * weight_of c"
    using assms(5) w by (simp add: level_of_def pos_divide_le_eq field_simps)
  with w show "level_of c \<le> level_of (p @ c)" "level_of (p @ c) \<le> level_of p"
    by (simp_all add: level_of_def pos_divide_le_eq pos_le_divide_eq field_simps)
qed

lemma balanced_join:
  assumes "balanced p" "balanced c" "level_of c \<le> level_of p"
  shows "balanced (p @ c)"
proof -
  let ?a = "level_of (p @ c)"
  have pos: "positive p" "positive c" "p \<noteq> []" "c \<noteq> []" using assms by (auto simp: balanced_def)
  note between = level_between [OF pos assms(3)]
  have "0 \<le> excess ?a (take k (p @ c))" for k
  proof (cases "k \<le> length p")
    case True
    have "positive (take k p)" using pos(1) by (auto dest: in_set_takeD)
    from excess_antimono [OF this between(2)] assms(1) have "0 \<le> excess ?a (take k p)"
      unfolding balanced_def by (meson order_trans)
    then show ?thesis using True by simp
  next
    case False
    let ?l = "k - length p"
    have "excess ?a (p @ c) = 0" using pos by (intro excess_level) auto
    then have total: "excess ?a p + excess ?a (take ?l c) = - excess ?a (drop ?l c)"
      using excess_append(1) [of ?a "take ?l c" "drop ?l c"] by simp
    have "positive (drop ?l c)" using pos(2) by (auto dest: in_set_dropD)
    from excess_antimono [OF this between(1)]
    have "excess ?a (drop ?l c) \<le> excess (level_of c) (drop ?l c)" .
    also have "\<dots> = - excess (level_of c) (take ?l c)"
      using excess_level [OF pos(2,4)] excess_append(1) [of "level_of c" "take ?l c" "drop ?l c"] by simp
    also have "\<dots> \<le> 0" using assms(2) by (simp add: balanced_def)
    finally show ?thesis using total False by simp
  qed
  then show ?thesis using pos by (auto simp: balanced_def)
qed

abbreviation rising :: "series list \<Rightarrow> bool" where
  "rising \<equiv> sorted_wrt (\<lambda>newer older. level_of older \<le> level_of newer)"

text \<open>The stack of a scan over \<open>xs\<close>.\<close>

definition sound_stack :: "series \<Rightarrow> series list \<Rightarrow> bool" where
  "sound_stack xs segs \<longleftrightarrow> (\<forall>seg \<in> set segs. balanced seg) \<and> rising segs \<and> concat (rev segs) = xs"

lemma join_violators_sound:
  assumes "balanced current" "sound_stack xs segs"
  shows "sound_stack (xs @ current) (join_violators (current # segs))"
  using assms
proof (induction "current # segs" arbitrary: current segs xs rule: join_violators.induct)
  case (1 current previous segs)
  have stack: "balanced previous" "sound_stack (concat (rev segs)) segs" "xs = concat (rev segs) @ previous"
    "\<forall>older \<in> set segs. level_of older \<le> level_of previous"
    using 1(3) by (simp_all add: sound_stack_def)
  show ?case
  proof (cases "level_of previous \<le> level_of current")
    case True
    then have "\<forall>older \<in> set segs. level_of older \<le> level_of current" using stack(4) by (meson order_trans)
    then show ?thesis using True 1(2,3) by (simp add: sound_stack_def)
  next
    case False
    then have "balanced (previous @ current)" using 1(2) stack(1) by (intro balanced_join) simp_all
    from 1(1) [OF False this stack(2)] show ?thesis using False stack(3) by simp
  qed
qed (simp_all add: sound_stack_def)

lemma scanned_snoc [simp]: "scanned (xs @ [x]) = join_violators ([x] # scanned xs)" "scanned [] = []"
  by (simp_all add: scanned_def)

lemma scanned_sound: "positive xs \<Longrightarrow> sound_stack xs (scanned xs)"
proof (induction xs rule: rev_induct)
  case (snoc x xs)
  then have "balanced [x]" "sound_stack xs (scanned xs)" by (simp_all add: balanced_single)
  from join_violators_sound [OF this] show ?case by simp
qed (simp add: sound_stack_def)

lemma segments_sound:
  assumes "positive xs"
  shows "\<forall>seg \<in> set (segments_of xs). balanced seg" "sorted (map level_of (segments_of xs))"
    "concat (segments_of xs) = xs"
  using scanned_sound [OF assms]
  by (simp_all add: sound_stack_def segments_of_def sorted_wrt_rev sorted_map)

lemma length_isotonic_fit: "positive xs \<Longrightarrow> length (isotonic_fit xs) = length xs"
proof -
  assume "positive xs"
  then have "length xs = length (concat (segments_of xs))" using segments_sound by simp
  then show ?thesis by (simp add: isotonic_fit_def length_concat comp_def)
qed

lemma sorted_blocks:
  "sorted (map f segs) \<Longrightarrow> sorted (concat (map (\<lambda>seg. replicate (n seg) (f seg)) segs))"
  for f :: "'a \<Rightarrow> rat"
  by (induction segs) (auto simp: sorted_append)

lemma sorted_isotonic_fit: "positive xs \<Longrightarrow> sorted (isotonic_fit xs)"
  using segments_sound [of xs] by (simp add: isotonic_fit_def sorted_blocks)

text \<open>Summation by parts: a series whose partial sums stay above zero cannot gain from a rising one.\<close>

lemma rising_weights:
  fixes d g :: "rat list"
  assumes "length d = length g" "sorted g" "\<forall>k. 0 \<le> sum_list (take k d)" "d \<noteq> []"
  shows "(\<Sum>(x, y)\<leftarrow>zip d g. x * y) \<le> sum_list d * List.last g"
  using assms
proof (induction d arbitrary: g rule: rev_induct)
  case (snoc x d)
  from snoc.prems(1) obtain h y where g: "g = h @ [y]" "length d = length h"
    by (metis Suc_length_conv length_append_singleton append_butlast_last_id length_0_conv length_butlast diff_Suc_1 nat.distinct(1))
  show ?case
  proof (cases "d = []")
    case True
    then show ?thesis using g by simp
  next
    case False
    have prefix: "\<forall>k. 0 \<le> sum_list (take k d)"
    proof
      fix k show "0 \<le> sum_list (take k d)"
        using snoc.prems(3) [rule_format, of "min k (length d)"] by (simp add: min_def split: if_splits)
    qed
    have "h \<noteq> []" using g(2) False by auto
    then have "List.last h \<in> set h" by simp
    then have "List.last h \<le> y" "sorted h"
      using snoc.prems(2) g by (auto simp: sorted_append)
    moreover have "sum_list d \<ge> 0" using prefix [rule_format, of "length d"] by simp
    ultimately have "sum_list d * List.last h \<le> sum_list d * y" by (intro mult_left_mono)
    then show ?thesis using snoc.IH [OF g(2) _ prefix False] \<open>sorted h\<close> g by (simp add: algebra_simps)
  qed
qed simp

lemma squared_error_append:
  "length xs = length g \<Longrightarrow> squared_error (xs @ ys) (g @ h) = squared_error xs g + squared_error ys h"
  by (simp add: squared_error_def)

lemma squared_error_nonneg: "positive xs \<Longrightarrow> 0 \<le> squared_error xs g"
  unfolding squared_error_def
  by (intro sum_list_nonneg) (auto dest!: set_zip_leftD intro: less_imp_le)

lemma squared_error_split:
  assumes "length g = length xs"
  shows "squared_error xs g = squared_error xs (replicate (length xs) a)
      + 2 * (a * sum_list (map (\<lambda>(m, w). of_int w * (m - a)) xs)
             - (\<Sum>(x, y)\<leftarrow>zip (map (\<lambda>(m, w). of_int w * (m - a)) xs) g. x * y))
      + (\<Sum>((m, w), y)\<leftarrow>zip xs g. of_int w * (a - y) ^ 2)"
  using assms [symmetric]
proof (induction xs g rule: list_induct2)
  case (Cons x xs y ys)
  then show ?case by (simp add: squared_error_def split_beta power2_eq_square algebra_simps)
qed (simp add: squared_error_def)

lemma level_optimal:
  assumes "balanced xs" "length g = length xs" "sorted g"
  shows "squared_error xs (replicate (length xs) (level_of xs)) \<le> squared_error xs g"
proof -
  let ?a = "level_of xs"
  let ?d = "map (\<lambda>(m, w). of_int w * (m - ?a)) xs"
  have pos: "positive xs" "xs \<noteq> []" using assms(1) by (simp_all add: balanced_def)
  have "sum_list (take k ?d) = excess ?a (take k xs)" for k by (simp add: excess_def take_map)
  then have "\<forall>k. 0 \<le> sum_list (take k ?d)" using assms(1) by (simp add: balanced_def)
  moreover have "sum_list ?d = 0" using excess_level [OF pos] by (simp add: excess_def)
  ultimately have cross: "(\<Sum>(x, y)\<leftarrow>zip ?d g. x * y) \<le> 0"
    using rising_weights [of ?d g] assms(2,3) pos(2) by simp
  have "squared_error xs g = squared_error xs (replicate (length xs) ?a)
      + 2 * (?a * sum_list ?d - (\<Sum>(x, y)\<leftarrow>zip ?d g. x * y)) + (\<Sum>((m, w), y)\<leftarrow>zip xs g. of_int w * (?a - y) ^ 2)"
    by (rule squared_error_split) (simp add: assms(2))
  moreover have "0 \<le> (\<Sum>((m, w), y)\<leftarrow>zip xs g. of_int w * (?a - y) ^ 2)"
    using pos(1) by (intro sum_list_nonneg) (auto dest!: set_zip_leftD intro: less_imp_le)
  ultimately show ?thesis using cross \<open>sum_list ?d = 0\<close> by simp
qed

lemma squared_error_segments:
  assumes "\<forall>seg \<in> set segs. balanced seg" "length g = length (concat segs)" "sorted g"
  shows "squared_error (concat segs) (concat (map (\<lambda>seg. replicate (length seg) (level_of seg)) segs))
    \<le> squared_error (concat segs) g"
  using assms
proof (induction segs arbitrary: g)
  case (Cons seg segs)
  let ?g = "take (length seg) g" and ?h = "drop (length seg) g"
  have len: "length ?g = length seg" "length ?h = length (concat segs)" using Cons.prems(2) by simp_all
  have order: "sorted ?g" "sorted ?h" using Cons.prems(3) by (simp_all add: sorted_wrt_take sorted_wrt_drop)
  have "squared_error seg (replicate (length seg) (level_of seg)) \<le> squared_error seg ?g"
    using Cons.prems(1) len(1) order(1) by (intro level_optimal) simp_all
  moreover have "squared_error (concat segs) (concat (map (\<lambda>seg. replicate (length seg) (level_of seg)) segs))
      \<le> squared_error (concat segs) ?h"
    using Cons.prems(1) len(2) order(2) by (intro Cons.IH) simp_all
  moreover have "squared_error (concat (seg # segs)) g = squared_error seg ?g + squared_error (concat segs) ?h"
    using squared_error_append [of seg ?g "concat segs" ?h] len(1) by simp
  ultimately show ?case by (simp add: squared_error_append)
qed simp

lemma isotonic_fit_optimal:
  "positive xs \<Longrightarrow> length g = length xs \<Longrightarrow> sorted g \<Longrightarrow>
    squared_error xs (isotonic_fit xs) \<le> squared_error xs g"
  using squared_error_segments [of "segments_of xs" g] segments_sound [of xs] by (simp add: isotonic_fit_def)

section \<open>The code pools exactly\<close>

text \<open>
  A record of \<open>N\<close> trades with returns of magnitude at most \<open>R\<close>: while \<open>R * N^2\<close> is below
  10^20, every product the pooling compares is on the lattice and in the context.
\<close>

definition block_of :: "series \<Rightarrow> block" where
  "block_of xs = (weighted_sum xs, \<Sum>(m, w)\<leftarrow>xs. w, length xs)"

definition means_within :: "rat \<Rightarrow> series \<Rightarrow> bool" where
  "means_within R xs \<longleftrightarrow> (\<forall>(m, w) \<in> set xs. on_lattice m \<and> \<bar>m\<bar> \<le> R \<and> 0 < w)"

lemma block_weight: "(\<Sum>(m, w)\<leftarrow>xs. w) = n \<Longrightarrow> weight_of xs = of_int n"
  by (induction xs arbitrary: n) (auto simp: weight_of_def)

lemma weighted_sum_within:
  assumes "means_within R xs" "0 \<le> R"
  shows "on_lattice (weighted_sum xs)" "\<bar>weighted_sum xs\<bar> \<le> R * weight_of xs"
  using assms(1)
proof (induction xs)
  case (Cons x xs)
  { case 1
    have "on_lattice (of_int (snd x) * fst x)" using 1 by (auto simp: means_within_def)
    then show ?case using 1 Cons.IH(1) by (auto simp: means_within_def mult.commute) }
  { case 2
    obtain m w where x: "x = (m, w)" by fastforce
    have "\<bar>m * of_int w\<bar> \<le> R * of_int w" using 2 x by (auto simp: means_within_def abs_mult intro: mult_mono)
    moreover have "\<bar>weighted_sum xs\<bar> \<le> R * weight_of xs" using 2 Cons.IH(2) by (simp add: means_within_def)
    ultimately show ?case using x by (simp add: distrib_left) }
qed simp_all

lemma exact_product:
  assumes "means_within R p" "0 \<le> R" "weight_of p \<le> N" "0 \<le> w" "of_int w \<le> N" "R * N ^ 2 < 10 ^ 20"
  shows "dmul (weighted_sum p) (of_int w) = weighted_sum p * of_int w"
proof -
  have lattice: "on_lattice (of_int w * weighted_sum p)" using weighted_sum_within(1) [OF assms(1,2)] by (rule on_lattice_mult_int)
  have "\<bar>weighted_sum p\<bar> \<le> R * N"
    using weighted_sum_within(2) [OF assms(1,2)] mult_left_mono [OF assms(3,2)] by linarith
  then have "\<bar>weighted_sum p\<bar> * of_int w \<le> (R * N) * N"
    using assms(4,5) by (intro mult_mono) auto
  then have "\<bar>of_int w * weighted_sum p\<bar> < 10 ^ 20" using assms(4,6) by (simp add: abs_mult power2_eq_square mult_ac)
  then show ?thesis using lattice_exact [OF lattice] by (simp add: dmul_def mult.commute)
qed

lemma weight_of_concat: "weight_of (concat segs) = sum_list (map weight_of segs)"
  by (induction segs) simp_all

lemma means_within_positive: "means_within R xs \<Longrightarrow> positive xs"
  by (auto simp: means_within_def)

lemma means_within_append [simp]: "means_within R (xs @ ys) \<longleftrightarrow> means_within R xs \<and> means_within R ys"
  by (auto simp: means_within_def)

lemma pool_exact:
  assumes "\<forall>seg \<in> set segs. means_within R seg \<and> seg \<noteq> []" "weight_of (concat segs) \<le> N"
    and "0 \<le> R" "1 \<le> N" "R * N ^ 2 < 10 ^ 20"
  shows "pool (map block_of segs) = map block_of (join_violators segs)"
  using assms
proof (induction segs rule: join_violators.induct)
  case (1 current previous segs)
  let ?cw = "\<Sum>(m, w)\<leftarrow>current. w" and ?pw = "\<Sum>(m, w)\<leftarrow>previous. w"
  note weights = block_weight [OF refl, of current] block_weight [OF refl, of previous]
  have ok: "means_within R current" "means_within R previous" "current \<noteq> []" "previous \<noteq> []"
    using 1(2) by simp_all
  have pos: "0 < weight_of current" "0 < weight_of previous"
    using ok by (auto intro!: weight_of_pos dest: means_within_positive)
  have "0 \<le> weight_of (concat segs)"
    using 1(2) unfolding weight_of_concat
    by (intro sum_list_nonneg) (auto intro!: weight_of_nonneg dest!: means_within_positive)
  then have small: "weight_of previous + weight_of current \<le> N" using 1(3) by simp
  then have small': "weight_of current \<le> N" "weight_of previous \<le> N" using pos by simp_all
  have "0 \<le> ?cw" "0 \<le> ?pw" using pos weights by simp_all
  then have products: "dmul (weighted_sum previous) (of_int ?cw) = weighted_sum previous * weight_of current"
    "dmul (weighted_sum current) (of_int ?pw) = weighted_sum current * weight_of previous"
    using exact_product [OF ok(2) 1(4) small'(2) _ _ 1(6)] exact_product [OF ok(1) 1(4) small'(1) _ _ 1(6)]
      small' weights by simp_all
  have both: "means_within R (previous @ current)" using ok by simp
  have "\<bar>weighted_sum (previous @ current)\<bar> \<le> R * N"
    using weighted_sum_within(2) [OF both 1(4)] mult_left_mono [OF small 1(4)] by simp
  also have "\<dots> \<le> R * N ^ 2" using 1(4,5) by (intro mult_left_mono) (simp_all add: power2_eq_square)
  finally have sum: "dadd (weighted_sum previous) (weighted_sum current) = weighted_sum (previous @ current)"
    using lattice_exact [OF weighted_sum_within(1) [OF both 1(4)]] 1(6) by (simp add: dadd_def)
  have levels: "level_of previous \<le> level_of current \<longleftrightarrow>
      weighted_sum previous * weight_of current \<le> weighted_sum current * weight_of previous"
    using pos by (simp add: level_of_def field_simps)
  have join: "(weighted_sum (previous @ current), ?pw + ?cw, length previous + length current) = block_of (previous @ current)"
    by (simp add: block_of_def)
  show ?case
  proof (cases "level_of previous \<le> level_of current")
    case True
    then show ?thesis using levels products by (simp add: block_of_def)
  next
    case False
    have "pool (map block_of (current # previous # segs)) = pool (map block_of ((previous @ current) # segs))"
      using False levels products sum by (simp add: block_of_def)
    also have "\<dots> = map block_of (join_violators ((previous @ current) # segs))"
      using 1(2-) ok small by (intro 1(1) [OF False]) simp_all
    finally show ?thesis using False by simp
  qed
qed simp_all

lemma pooled_blocks_exact:
  assumes "means_within R xs" "weight_of xs \<le> N" "0 \<le> R" "1 \<le> N" "R * N ^ 2 < 10 ^ 20"
  shows "pooled_blocks xs = map block_of (scanned xs)"
  using assms(1,2)
proof (induction xs rule: rev_induct)
  case (snoc x xs)
  obtain m w where x: "x = (m, w)" by fastforce
  have ok: "means_within R xs" "positive xs" "0 < w" "means_within R [(m, 1)]" "means_within R [x]"
    using snoc.prems(1) x by (auto simp: means_within_def)
  note weights = weight_of_nonneg [OF ok(2)]
  have "of_int w \<le> N" "weight_of xs \<le> N" using weights snoc.prems(2) ok(3) x by simp_all
  then have "dmul m (of_int w) = weighted_sum [x]"
    using exact_product [OF ok(4) assms(3) _ _ _ assms(5), of w] ok(3) assms(4) x by simp
  then have block: "(dmul m (of_int w), w, 1) = block_of [x]" by (simp add: block_of_def x)
  have "pooled_blocks (xs @ [x]) = pool (map block_of ([x] # scanned xs))"
    using snoc.IH [OF ok(1) \<open>weight_of xs \<le> N\<close>] block x by (simp add: pooled_blocks_def)
  also have "\<dots> = map block_of (join_violators ([x] # scanned xs))"
  proof (rule pool_exact [OF _ _ assms(3-5)])
    have stack: "sound_stack xs (scanned xs)" by (rule scanned_sound [OF ok(2)])
    then have xs: "concat (rev (scanned xs)) = xs" by (simp add: sound_stack_def)
    have "means_within R (concat (rev (scanned xs)))" using ok(1) by (simp only: xs)
    then have "\<forall>seg \<in> set (scanned xs). means_within R seg" by (auto simp: means_within_def)
    then show "\<forall>seg \<in> set ([x] # scanned xs). means_within R seg \<and> seg \<noteq> []"
      using stack ok(5) by (auto simp: sound_stack_def balanced_def)
    have "weight_of (concat (scanned xs)) = weight_of (concat (rev (scanned xs)))"
      by (simp add: weight_of_concat rev_map [symmetric])
    then show "weight_of (concat ([x] # scanned xs)) \<le> N" using snoc.prems(2) by (simp add: xs)
  qed
  finally show ?case by simp
qed (simp add: pooled_blocks_def)

text \<open>The level of a segment, as the code stores it.\<close>

definition stored :: "rat \<Rightarrow> rat" where
  "stored x = q18 (context_round x)"

lemma stored_mono: "x \<le> y \<Longrightarrow> stored x \<le> stored y"
  by (simp add: stored_def q18_mono context_round_mono)

lemma stored_lattice [simp]: "on_lattice (stored x)"
  by (simp add: stored_def)

lemma stored_fixed: "numeric_38_18 x \<Longrightarrow> stored x = x"
  by (simp add: stored_def numeric_exact q18_fixed numeric_38_18_def)

lemma stored_between: "numeric_38_18 a \<Longrightarrow> numeric_38_18 b \<Longrightarrow> a \<le> x \<Longrightarrow> x \<le> b \<Longrightarrow> a \<le> stored x \<and> stored x \<le> b"
  using stored_mono [of a x] stored_mono [of x b] by (simp add: stored_fixed)

lemma quantized_stored:
  assumes "numeric_38_18 a" "numeric_38_18 b" "a \<le> x" "x \<le> b"
  shows "quantized (context_round x) = Inr (stored x)"
proof -
  have "a \<le> context_round x" "context_round x \<le> b"
    using context_round_mono [OF assms(3)] context_round_mono [OF assms(4)] assms(1,2) by (simp_all add: numeric_exact)
  then show ?thesis using assms(1,2) quantized_between [of a "context_round x" b]
    by (simp add: stored_def numeric_38_18_def abs_less_iff)
qed

lemma level_within:
  assumes "means_within R xs" "xs \<noteq> []" "\<forall>(m, w) \<in> set xs. a \<le> m"
  shows "a \<le> level_of xs" "level_of xs \<le> R"
proof -
  have w: "0 < weight_of xs" using assms(1,2) by (intro weight_of_pos means_within_positive)
  have "a * weight_of xs \<le> weighted_sum xs" "weighted_sum xs \<le> R * weight_of xs"
    using assms(1,3) by (induction xs) (auto simp: means_within_def distrib_left abs_le_iff intro!: add_mono mult_right_mono)
  with w show "a \<le> level_of xs" "level_of xs \<le> R" by (simp_all add: level_of_def pos_le_divide_eq pos_divide_le_eq)
qed

lemma map_result_map:
  "(\<And>x. x \<in> set xs \<Longrightarrow> f (h x) = Inr (g x)) \<Longrightarrow> map_result f (map h xs) = Inr (map g xs)"
  by (induction xs) simp_all

lemma pool_adjacent_violators_exact:
  fixes means :: "rat list"
  assumes "length means = length weights" "means_within R (zip means weights)" "\<forall>m \<in> set means. - 1 \<le> m"
    and "weight_of (zip means weights) \<le> N" "1 \<le> R" "on_lattice R" "1 \<le> N" "R * N ^ 2 < 10 ^ 20"
  shows "pool_adjacent_violators means weights = Inr (map stored (isotonic_fit (zip means weights)))"
proof -
  let ?xs = "zip means weights"
  have pos: "positive ?xs" using assms(2) by (rule means_within_positive)
  have "R \<le> R * N ^ 2" using assms(5,7) mult_left_mono [of 1 "N ^ 2" R] by (simp add: one_le_power)
  then have "R < 10 ^ 20" using assms(8) by (rule le_less_trans)
  then have R: "numeric_38_18 R" using assms(5,6) by (simp add: numeric_38_18_def)
  have one: "numeric_38_18 (- 1)" by (simp add: numeric_38_18_def)
  have blocks: "rev (pooled_blocks ?xs) = map block_of (segments_of ?xs)"
    using pooled_blocks_exact [OF assms(2,4) _ assms(7,8)] assms(5) by (simp add: segments_of_def rev_map)
  have level: "block_level (block_of seg) = Inr (replicate (length seg) (stored (level_of seg)))"
    if seg: "seg \<in> set (segments_of ?xs)" for seg
  proof -
    have "set seg \<subseteq> set (concat (segments_of ?xs))" using seg by auto
    then have sub: "set seg \<subseteq> set ?xs" using segments_sound(3) [OF pos] by simp
    have "seg \<noteq> []" using segments_sound(1) [OF pos] seg by (auto simp: balanced_def)
    have within: "means_within R seg" using sub assms(2) by (auto simp: means_within_def)
    have "\<forall>(m, w) \<in> set seg. - 1 \<le> m" using sub assms(3) by (auto dest!: subsetD set_zip_leftD)
    from level_within [OF within \<open>seg \<noteq> []\<close> this]
    have "quantized (context_round (level_of seg)) = Inr (stored (level_of seg))" by (rule quantized_stored [OF one R])
    moreover have "0 < weight_of seg" using within \<open>seg \<noteq> []\<close> by (intro weight_of_pos means_within_positive)
    ultimately show ?thesis
      using block_weight [OF refl, of seg] by (simp add: block_level_def block_of_def ddiv_def level_of_def)
  qed
  have "map_result block_level (map block_of (segments_of ?xs)) =
      Inr (map (\<lambda>seg. replicate (length seg) (stored (level_of seg))) (segments_of ?xs))"
    using level by (rule map_result_map)
  then show ?thesis using assms(1)
    by (simp add: pool_adjacent_violators_def blocks isotonic_fit_def map_concat comp_def)
qed

end
