(* ===== verification/Calibration_Fit.thy ===== *)
theory Calibration_Fit
  imports Isotonic
begin

text \<open>
  What \<open>fit_calibration\<close> and \<open>assess_conviction\<close> of \<open>src/fking/risk/calibration.py\<close> promise: the
  fit never raises on a record of realistic size and reads no trade closed after its instant,
  the map is monotone, and a conviction earns a risk fraction inside the configured band.
\<close>

section \<open>The fit never raises on a record of realistic size\<close>

lemma eligible_trades_filter:
  "list_all (\<lambda>t. trade_strategy_id t = strategy) trades \<Longrightarrow>
    eligible_trades strategy t0 trades = Inr (filter (\<lambda>t. closed_at_utc t \<le> t0) trades)"
  by (induction trades) simp_all

lemma decile_loop_bounds:
  assumes "sorted xs" "xs \<noteq> []" "\<forall>d \<in> set ds. DECILE_COUNT \<le> d * length xs \<and> d \<le> DECILE_COUNT"
    and "sorted_wrt (<) bounds" "set bounds \<subseteq> set xs"
  shows "\<exists>b. decile_loop xs ds bounds = Inr b \<and> sorted_wrt (<) b \<and> set b \<subseteq> set xs \<and>
    (bounds \<noteq> [] \<or> ds \<noteq> [] \<longrightarrow> b \<noteq> [])"
  using assms(3-)
proof (induction ds arbitrary: bounds)
  case (Cons d ds)
  let ?i = "(d * length xs) div DECILE_COUNT"
  have "1 \<le> ?i" using Cons.prems(1) div_le_mono [of DECILE_COUNT "d * length xs" DECILE_COUNT] by (simp add: DECILE_COUNT_def)
  moreover have "?i \<le> (DECILE_COUNT * length xs) div DECILE_COUNT" using Cons.prems(1) by (intro div_le_mono) simp
  ultimately have i: "?i - 1 < length xs" "1 \<le> ?i" using assms(2) by (simp_all add: DECILE_COUNT_def)
  have index: "py_index xs (int ?i - 1) = Inr (xs ! (?i - 1))"
    using i by (simp add: py_index_def nat_diff_distrib' of_nat_diff)
  let ?b = "xs ! (?i - 1)"
  let ?next = "if bounds = [] \<or> ?b > List.last bounds then bounds @ [?b] else bounds"
  have "sorted_wrt (<) ?next"
  proof (cases "bounds = [] \<or> ?b > List.last bounds")
    case True
    have "y < ?b" if "y \<in> set bounds" for y
    proof -
      have "bounds = butlast bounds @ [List.last bounds]" using that by (cases bounds) simp_all
      then have "y \<le> List.last bounds" using Cons.prems(2) that
        by (metis sorted_wrt_append set_append Un_iff list.set_intros(1) less_imp_le order_refl set_ConsD empty_iff list.set(1))
      then show ?thesis using True that by auto
    qed
    then show ?thesis using True Cons.prems(2) by (simp add: sorted_wrt_append)
  qed (simp add: Cons.prems(2))
  moreover have "set ?next \<subseteq> set xs" using Cons.prems(3) i(1) nth_mem by auto
  moreover have "?next \<noteq> []" by auto
  ultimately show ?case using Cons.IH [of ?next] Cons.prems(1) index by auto
qed simp

lemma decile_upper_bounds_ok:
  assumes "sorted xs" "DECILE_COUNT \<le> length xs"
  shows "\<exists>b. decile_upper_bounds xs = Inr b \<and> sorted_wrt (<) b \<and> set b \<subseteq> set xs \<and> b \<noteq> []"
proof -
  have "\<forall>d \<in> set [1..<Suc DECILE_COUNT]. DECILE_COUNT \<le> d * length xs \<and> d \<le> DECILE_COUNT"
  proof (intro ballI conjI)
    fix d assume d: "d \<in> set [1..<Suc DECILE_COUNT]"
    then have "1 * DECILE_COUNT \<le> d * length xs" using assms(2) by (intro mult_le_mono) auto
    then show "DECILE_COUNT \<le> d * length xs" by simp
    show "d \<le> DECILE_COUNT" using d by auto
  qed
  moreover have "xs \<noteq> []" using assms(2) by (auto simp: DECILE_COUNT_def)
  ultimately show ?thesis
    using decile_loop_bounds [of xs "[1..<Suc DECILE_COUNT]" "[]"] assms(1)
    by (auto simp: decile_upper_bounds_def DECILE_COUNT_def)
qed

lemma takeWhile_below:
  "sorted_wrt (<) bounds \<Longrightarrow> i < length bounds \<Longrightarrow> length (takeWhile (\<lambda>b. b < bounds ! i) bounds) = i"
  for bounds :: "rat list"
proof (induction bounds arbitrary: i)
  case (Cons b bounds)
  then show ?case by (cases i) auto
qed simp

lemma group_nonempty:
  assumes "sorted_wrt (<) bounds" "set bounds \<subseteq> reported_conviction ` set trades" "g \<in> set (grouped_trades bounds trades)"
  shows "g \<noteq> []" "set g \<subseteq> set trades"
proof -
  obtain i where i: "i < length bounds" "g = filter (\<lambda>t. bucket_index_for (reported_conviction t) bounds = i) trades"
    using assms(3) by (auto simp: grouped_trades_def)
  have "bounds ! i \<in> reported_conviction ` set trades" using assms(2) nth_mem [OF i(1)] by (rule subsetD)
  then obtain t where "t \<in> set trades" "reported_conviction t = bounds ! i" by (metis imageE)
  moreover have "bucket_index_for (bounds ! i) bounds = i"
    using takeWhile_below [OF assms(1) i(1)] i(1) by (simp add: bucket_index_for_def)
  ultimately have "t \<in> set g" by (simp only: i(2) set_filter mem_Collect_eq simp_thms)
  then show "g \<noteq> []" by (metis empty_iff list.set(1))
  show "set g \<subseteq> set trades" unfolding i(2) by (rule filter_is_subset)
qed

lemma length_filter_cases:
  "\<forall>x \<in> set xs. f x < k \<Longrightarrow> (\<Sum>i\<leftarrow>[0..<k]. length (filter (\<lambda>x. f x = i) xs)) = length xs"
proof (induction xs)
  case (Cons x xs)
  have "(\<Sum>i\<leftarrow>[0..<k]. if f x = i then 1 else 0) = (\<Sum>i\<in>{0..<k}. if f x = i then 1 else (0::nat))"
    by (simp add: interv_sum_list_conv_sum_set_nat)
  also have "\<dots> = 1" using Cons.prems by simp
  finally have "(\<Sum>i\<leftarrow>[0..<k]. if f x = i then 1 else 0) = (1 :: nat)" .
  moreover have "(\<Sum>i\<leftarrow>[0..<k]. length (filter (\<lambda>y. f y = i) (x # xs))) =
      (\<Sum>i\<leftarrow>[0..<k]. (if f x = i then 1 else 0) + length (filter (\<lambda>y. f y = i) xs))"
    by (intro arg_cong [where f = sum_list] map_cong) auto
  ultimately show ?case using Cons by (simp add: sum_list_addf)
qed simp

lemma group_sizes:
  "bounds \<noteq> [] \<Longrightarrow> (\<Sum>g\<leftarrow>grouped_trades bounds trades. length g) = length trades"
  using length_filter_cases [of trades "\<lambda>t. bucket_index_for (reported_conviction t) bounds" "length bounds"]
  by (simp add: grouped_trades_def comp_def bucket_index_for_def min_less_iff_disj)

text \<open>A history as \<open>sound_history\<close> has it: one strategy, constructor-accepted, bounded returns.\<close>

definition sound_history :: "string \<Rightarrow> rat \<Rightarrow> closed_trade list \<Rightarrow> bool" where
  "sound_history strategy R trades \<longleftrightarrow>
     1 \<le> R \<and> on_lattice R \<and> R * of_nat (length trades) ^ 2 < 10 ^ 20 \<and>
     list_all (\<lambda>t. closed_trade_post_init t = Inr () \<and> trade_strategy_id t = strategy \<and>
       realised_return_fraction t \<le> R) trades"

lemma mean_of_within:
  assumes "xs \<noteq> []" "\<forall>x \<in> set xs. on_lattice x \<and> - 1 \<le> x \<and> x \<le> R" "1 \<le> R" "numeric_38_18 R"
    and "R * of_nat (length xs) < 10 ^ 20"
  shows "\<exists>m. mean_of xs = Inr m \<and> on_lattice m \<and> - 1 \<le> m \<and> m \<le> R"
proof -
  let ?n = "of_nat (length xs) :: rat"
  have n: "0 < ?n" using assms(1) by simp
  have "(\<Sum>x\<leftarrow>xs. \<bar>x\<bar>) \<le> R * ?n"
    using assms(2,3) by (induction xs) (auto simp: distrib_left abs_le_iff intro!: add_mono)
  then have sum: "dsum xs = sum_list xs" using assms(2,5) by (intro dsum_exact) auto
  have "- ?n \<le> sum_list xs" "sum_list xs \<le> R * ?n"
    using assms(2) by (induction xs) (auto simp: distrib_left intro!: add_mono)
  then have mean: "- 1 \<le> sum_list xs / ?n" "sum_list xs / ?n \<le> R"
    using n by (simp_all add: pos_le_divide_eq pos_divide_le_eq)
  have one: "numeric_38_18 (- 1)" by (simp add: numeric_38_18_def)
  have "mean_of xs = Inr (stored (sum_list xs / ?n))"
    using quantized_stored [OF one assms(4) mean] n by (simp add: mean_of_def sum ddiv_def)
  then show ?thesis using stored_between [OF one assms(4) mean] by auto
qed

lemma hit_rate_within:
  assumes "members \<noteq> []"
  shows "\<exists>r. hit_rate members = Inr r \<and> on_lattice r \<and> 0 \<le> r \<and> r \<le> 1"
proof -
  let ?x = "of_nat (length (filter is_win members)) / of_nat (length members) :: rat"
  have x: "0 \<le> ?x" "?x \<le> 1" using assms by (simp_all add: pos_divide_le_eq)
  have bounds: "numeric_38_18 0" "numeric_38_18 1" by (simp_all add: numeric_38_18_def)
  have "hit_rate members = Inr (stored ?x)"
    using quantized_stored [OF bounds x] assms by (simp add: hit_rate_def ddiv_def)
  then show ?thesis using stored_between [OF bounds x] by auto
qed

lemma normalised_nonempty:
  "fitted \<noteq> [] \<Longrightarrow> normalised fitted =
     (let span = dsub (List.last fitted) (hd fitted)
      in if span \<le> 0 then Inr (map (\<lambda>_. UNCALIBRATED_FRACTION) fitted)
         else map_result (\<lambda>level. and_then (ddiv (dsub level (hd fitted)) span) quantized) fitted)"
proof -
  assume "fitted \<noteq> []"
  then obtain low rest where "fitted = low # rest" by (cases fitted) simp_all
  then show ?thesis by (simp only: normalised_def list.case list.sel)
qed

lemma normalised_ok:
  assumes "sorted fitted" "fitted \<noteq> []" "\<forall>x \<in> set fitted. on_lattice x \<and> - 1 \<le> x \<and> x \<le> R" "R + 1 < 10 ^ 20"
  shows "\<exists>levels. normalised fitted = Inr levels \<and> length levels = length fitted \<and> sorted levels \<and>
    (\<forall>x \<in> set levels. on_lattice x \<and> 0 \<le> x \<and> x \<le> 1)"
proof -
  obtain low rest where fitted: "fitted = low # rest" using assms(2) by (cases fitted) simp_all
  let ?high = "List.last fitted"
  have top: "?high \<in> set fitted" using assms(2) by simp
  have order: "low \<le> x \<and> x \<le> ?high" if "x \<in> set fitted" for x
  proof
    show "low \<le> x" using assms(1) that by (auto simp: fitted)
    have "fitted = butlast fitted @ [?high]" using assms(2) by simp
    then show "x \<le> ?high" using assms(1) that by (metis sorted_append Un_iff set_append list.set_intros(1) order_refl set_ConsD empty_iff list.set(1))
  qed
  have exact: "dsub x low = x - low" if "x \<in> set fitted" for x
  proof -
    have "on_lattice (x - low)" "\<bar>x - low\<bar> < 10 ^ 20"
      using assms(3,4) that order [OF that] by (auto simp: fitted)
    then show ?thesis by (simp add: dsub_def lattice_exact)
  qed
  show ?thesis
  proof (cases "?high - low \<le> 0")
    case True
    have half: "on_lattice UNCALIBRATED_FRACTION"
      by (rule on_latticeI [of _ "5 * 10 ^ 17"]) (simp add: UNCALIBRATED_FRACTION_def)
    have "normalised fitted = Inr (map (\<lambda>_. UNCALIBRATED_FRACTION) fitted)"
      using True exact [OF top] unfolding normalised_nonempty [OF assms(2)] by (simp only: fitted list.sel Let_def if_True)
    moreover have "sorted (map (\<lambda>_. UNCALIBRATED_FRACTION) xs)" for xs :: "rat list" by (induction xs) auto
    ultimately show ?thesis using half by (auto simp: UNCALIBRATED_FRACTION_def)
  next
    case False
    let ?f = "\<lambda>x. stored ((x - low) / (?high - low))"
    have bounds: "numeric_38_18 0" "numeric_38_18 1" by (simp_all add: numeric_38_18_def)
    have ratio: "0 \<le> (x - low) / (?high - low)" "(x - low) / (?high - low) \<le> 1" if "x \<in> set fitted" for x
      using order [OF that] False by (simp_all add: pos_divide_le_eq)
    have "map_result (\<lambda>level. and_then (ddiv (dsub level low) (?high - low)) quantized) fitted = Inr (map ?f fitted)"
    proof (rule map_result_Inr)
      fix x assume "x \<in> set fitted"
      then show "and_then (ddiv (dsub x low) (?high - low)) quantized = Inr (?f x)"
        using quantized_stored [OF bounds ratio] False exact by (simp add: ddiv_def)
    qed
    then have "normalised fitted = Inr (map ?f fitted)"
      using False exact [OF top] unfolding normalised_nonempty [OF assms(2)] by (simp only: fitted list.sel Let_def if_False)
    moreover have "sorted (map ?f fitted)"
      using assms(1) by (rule sorted_mapI [rotated]) (use False in \<open>auto intro!: stored_mono divide_right_mono\<close>)
    ultimately show ?thesis using stored_between [OF bounds ratio] by auto
  qed
qed

lemma int_sum_list: "(\<Sum>x\<leftarrow>xs. int (f x)) = int (\<Sum>x\<leftarrow>xs. f x)"
  by (induction xs) simp_all

lemma isotonic_fit_within:
  assumes "means_within R xs" "\<forall>(m, w) \<in> set xs. a \<le> m" "y \<in> set (isotonic_fit xs)"
  shows "a \<le> y" "y \<le> R"
proof -
  have pos: "positive xs" using assms(1) by (rule means_within_positive)
  obtain seg where seg: "seg \<in> set (segments_of xs)" "y = level_of seg"
    using assms(3) by (auto simp: isotonic_fit_def split: if_splits)
  have "set seg \<subseteq> set (concat (segments_of xs))" using seg(1) by auto
  then have sub: "set seg \<subseteq> set xs" by (simp only: segments_sound(3) [OF pos])
  have ok: "means_within R seg" "\<forall>(m, w) \<in> set seg. a \<le> m" using sub assms(1,2) by (auto simp: means_within_def)
  have "seg \<noteq> []" using segments_sound(1) [OF pos] seg(1) by (auto simp: balanced_def)
  from level_within [OF ok(1) this ok(2)] show "a \<le> y" "y \<le> R" by (simp_all add: seg(2))
qed

lemma stored_levels:
  assumes "means_within R xs" "\<forall>(m, w) \<in> set xs. - 1 \<le> m" "numeric_38_18 R"
  shows "sorted (map stored (isotonic_fit xs))" "length (map stored (isotonic_fit xs)) = length xs"
    "\<forall>y \<in> set (map stored (isotonic_fit xs)). on_lattice y \<and> - 1 \<le> y \<and> y \<le> R"
proof -
  have pos: "positive xs" using assms(1) by (rule means_within_positive)
  have one: "numeric_38_18 (- 1)" by (simp add: numeric_38_18_def)
  show "sorted (map stored (isotonic_fit xs))"
    using stored_mono sorted_isotonic_fit [OF pos] by (rule sorted_mapI)
  show "length (map stored (isotonic_fit xs)) = length xs" using length_isotonic_fit [OF pos] by simp
  show "\<forall>y \<in> set (map stored (isotonic_fit xs)). on_lattice y \<and> - 1 \<le> y \<and> y \<le> R"
    using stored_between [OF one assms(3)] isotonic_fit_within [OF assms(1,2)] by auto
qed

lemma fitted_buckets_ok:
  assumes "length groups = length bounds" "length rates = length bounds" "length means = length bounds"
    "length fitted = length bounds" "length levels = length bounds"
    and "\<forall>x \<in> set bounds \<union> set rates \<union> set levels. on_lattice x \<and> 0 \<le> x \<and> x \<le> 1"
    and "\<forall>x \<in> set means \<union> set fitted. - 1 \<le> x \<and> numeric_38_18 x" and "\<forall>g \<in> set groups. g \<noteq> []"
  shows "\<exists>bs. fitted_buckets bounds groups rates means fitted levels = Inr bs \<and> map conviction_upper_bound bs = bounds \<and>
    map calibrated_fraction bs = levels \<and> map bucket_trade_count bs = map (\<lambda>g. int (length g)) groups"
proof -
  let ?g = "\<lambda>(bound, members, rate, mean, level, c).
    \<lparr>conviction_upper_bound = bound, bucket_trade_count = int (length (members :: closed_trade list)), hit_rate_fraction = rate,
     mean_return_fraction = mean, fitted_return_fraction = level, calibrated_fraction = c\<rparr>"
  let ?z = "zip bounds (zip groups (zip rates (zip means (zip fitted levels))))"
  have "map_result (\<lambda>(bound, members, rate, mean, level, c).
         new_bucket (Finite bound) (int (length members)) (Finite rate) (Finite mean) (Finite level) (Finite c)) ?z
      = Inr (map ?g ?z)"
  proof (rule map_result_Inr)
    fix x assume x: "x \<in> set ?z"
    obtain bound members rate mean level c where e: "x = (bound, members, rate, mean, level, c)" by (cases x)
    have "bound \<in> set bounds" "members \<in> set groups" "rate \<in> set rates" "mean \<in> set means" "level \<in> set fitted" "c \<in> set levels"
      using x unfolding e by (meson set_zip_leftD set_zip_rightD)+
    then show "(case x of (bound, members, rate, mean, level, c) \<Rightarrow>
         new_bucket (Finite bound) (int (length members)) (Finite rate) (Finite mean) (Finite level) (Finite c)) = Inr (?g x)"
      using assms(6-8) by (simp add: e new_bucket_accepts)
  qed
  moreover have "map conviction_upper_bound (map ?g ?z) = bounds" "map calibrated_fraction (map ?g ?z) = levels"
    "map bucket_trade_count (map ?g ?z) = map (\<lambda>g. int (length g)) groups"
    using assms(1-5) by (simp_all add: list_eq_iff_nth_eq)
  ultimately show ?thesis by (auto simp: fitted_buckets_def)
qed

lemma sound_historyD:
  assumes "sound_history strategy R trades" "trades \<noteq> []"
  shows "numeric_38_18 R" "1 \<le> R" "R * of_nat (length trades) ^ 2 < 10 ^ 20"
    "\<And>t. t \<in> set trades \<Longrightarrow> 0 \<le> reported_conviction t \<and> reported_conviction t \<le> 1 \<and> on_lattice (reported_conviction t) \<and>
      - 1 \<le> realised_return_fraction t \<and> on_lattice (realised_return_fraction t) \<and> realised_return_fraction t \<le> R"
proof -
  have h: "1 \<le> R" "on_lattice R" "R * of_nat (length trades) ^ 2 < 10 ^ 20" using assms(1) by (simp_all add: sound_history_def)
  have "1 \<le> (of_nat (length trades) :: rat) ^ 2" using assms(2) by (intro one_le_power) (simp add: Suc_le_eq)
  then have "R \<le> R * of_nat (length trades) ^ 2" using h(1) mult_left_mono [of 1 _ R] by simp
  then have "R < 10 ^ 20" using h(3) by (rule le_less_trans)
  then show "numeric_38_18 R" using h(1,2) by (simp add: numeric_38_18_def)
  show "1 \<le> R" "R * of_nat (length trades) ^ 2 < 10 ^ 20" by (fact h)+
  show "0 \<le> reported_conviction t \<and> reported_conviction t \<le> 1 \<and> on_lattice (reported_conviction t) \<and>
      - 1 \<le> realised_return_fraction t \<and> on_lattice (realised_return_fraction t) \<and> realised_return_fraction t \<le> R"
    if "t \<in> set trades" for t
    using assms(1) that by (simp add: sound_history_def list_all_iff closed_trade_accepted numeric_38_18_def)
qed

lemma fit_eligible_ok:
  assumes "sound_history strategy R trades" "DECILE_COUNT \<le> length trades"
  shows "\<exists>bs. fit_eligible trades = Inr bs \<and> bs \<noteq> [] \<and> sorted_wrt (<) (map conviction_upper_bound bs) \<and>
    sorted (map calibrated_fraction bs) \<and> (\<forall>b \<in> set bs. 0 \<le> calibrated_fraction b \<and> calibrated_fraction b \<le> 1) \<and>
    (\<Sum>b\<leftarrow>bs. bucket_trade_count b) = int (length trades)"
proof -
  have "trades \<noteq> []" using assms(2) by (auto simp: DECILE_COUNT_def)
  note h = sound_historyD [OF assms(1) this]
  obtain bounds where bounds: "decile_upper_bounds (sort (map reported_conviction trades)) = Inr bounds"
    "sorted_wrt (<) bounds" "set bounds \<subseteq> reported_conviction ` set trades" "bounds \<noteq> []"
    using decile_upper_bounds_ok [of "sort (map reported_conviction trades)"] assms(2) by auto
  let ?groups = "grouped_trades bounds trades"
  let ?n = "of_nat (length trades) :: rat"
  note groups = group_nonempty [OF bounds(2,3)]
  have size: "(\<Sum>g\<leftarrow>?groups. length g) = length trades" by (rule group_sizes [OF bounds(4)])
  have len: "length ?groups = length bounds" by (simp add: grouped_trades_def)
  have one: "1 \<le> ?n" using \<open>trades \<noteq> []\<close> by (simp add: Suc_le_eq)
  have n: "R * ?n < 10 ^ 20"
  proof -
    have "?n * 1 \<le> ?n * ?n" using one by (intro mult_left_mono) simp_all
    then have "R * ?n \<le> R * ?n ^ 2" using h(2) by (intro mult_left_mono) (simp_all add: power2_eq_square)
    then show ?thesis using h(3) by (rule le_less_trans)
  qed
  obtain rates where rates: "map_result hit_rate ?groups = Inr rates" "length rates = length bounds"
    "\<forall>r \<in> set rates. on_lattice r \<and> 0 \<le> r \<and> r \<le> 1"
    using map_result_total [of ?groups hit_rate "\<lambda>r. on_lattice r \<and> 0 \<le> r \<and> r \<le> 1"] hit_rate_within groups(1) len by auto
  have mean: "\<exists>m. mean_of (map realised_return_fraction g) = Inr m \<and> on_lattice m \<and> - 1 \<le> m \<and> m \<le> R" if g: "g \<in> set ?groups" for g
  proof (rule mean_of_within [OF _ _ h(2,1)])
    show "map realised_return_fraction g \<noteq> []" using groups(1) [OF g] by simp
    show "\<forall>x \<in> set (map realised_return_fraction g). on_lattice x \<and> - 1 \<le> x \<and> x \<le> R" using groups(2) [OF g] h(4) by auto
    have "length g \<le> length trades" using member_le_sum_list [of "length g" "map length ?groups"] g size by simp
    then have "R * of_nat (length g) \<le> R * ?n" using h(2) by (intro mult_left_mono) simp_all
    then show "R * of_nat (length (map realised_return_fraction g)) < 10 ^ 20" using n by simp
  qed
  obtain means where means: "map_result (\<lambda>members. mean_of (map realised_return_fraction members)) ?groups = Inr means"
    "length means = length bounds" "\<forall>m \<in> set means. on_lattice m \<and> - 1 \<le> m \<and> m \<le> R"
    using map_result_total [of ?groups "\<lambda>members. mean_of (map realised_return_fraction members)"
      "\<lambda>m. on_lattice m \<and> - 1 \<le> m \<and> m \<le> R"] mean len by auto
  let ?weights = "map (\<lambda>members. int (length members)) ?groups"
  let ?series = "zip means ?weights"
  have within: "means_within R ?series"
    unfolding means_within_def
  proof (rule ballI, clarify)
    fix m w assume z: "(m, w) \<in> set ?series"
    then have "m \<in> set means" "w \<in> set ?weights" by (meson set_zip_leftD set_zip_rightD)+
    then obtain g where g: "g \<in> set ?groups" "w = int (length g)" by (metis imageE set_map)
    have "0 < w" using groups(1) [OF g(1)] by (simp add: g(2))
    moreover have "on_lattice m" "- 1 \<le> m" "m \<le> R" using means(3) \<open>m \<in> set means\<close> by simp_all
    ultimately show "on_lattice m \<and> \<bar>m\<bar> \<le> R \<and> 0 < w" using h(2) by (simp add: abs_le_iff)
  qed
  have lower: "\<forall>(m, w) \<in> set ?series. - 1 \<le> m" using means(3) by (auto dest!: set_zip_leftD)
  have "map snd ?series = ?weights" using means(2) len by simp
  moreover have "(\<lambda>(m :: rat, w :: int). w) = snd" by auto
  ultimately have "(\<Sum>(m, w)\<leftarrow>?series. w) = sum_list ?weights" by (simp only:)
  also have "\<dots> = int (length trades)" using size by (simp add: int_sum_list)
  finally have weight: "weight_of ?series = ?n" using block_weight by fastforce
  have lattice: "on_lattice R" using h(1) by (simp add: numeric_38_18_def)
  let ?fitted = "map stored (isotonic_fit ?series)"
  have fit: "pool_adjacent_violators means ?weights = Inr ?fitted"
    using means weight within len h(2,3) lattice one
    by (intro pool_adjacent_violators_exact [of _ _ R ?n]) simp_all
  note levels = stored_levels [OF within lower h(1)]
  have flen: "length ?fitted = length bounds" using levels(2) means(2) len by simp
  have "R + 1 < 10 ^ 20"
  proof -
    have "2 \<le> ?n" using assms(2) by (simp add: DECILE_COUNT_def)
    then have "R * 2 \<le> R * ?n" using h(2) by (intro mult_left_mono) simp_all
    then show ?thesis using n h(2) by linarith
  qed
  then obtain cs where cs: "normalised ?fitted = Inr cs" "length cs = length bounds" "sorted cs"
    "\<forall>x \<in> set cs. on_lattice x \<and> 0 \<le> x \<and> x \<le> 1"
    using normalised_ok [OF levels(1) _ levels(3)] flen bounds(4) by fastforce
  have "\<forall>x \<in> set bounds. on_lattice x \<and> 0 \<le> x \<and> x \<le> 1" using bounds(3) h(4) by auto
  then have fractions: "\<forall>x \<in> set bounds \<union> set rates \<union> set cs. on_lattice x \<and> 0 \<le> x \<and> x \<le> 1"
    using rates(3) cs(4) by blast
  have "numeric_38_18 x" if "on_lattice x" "- 1 \<le> x" "x \<le> R" for x
    using that h(1) by (simp add: numeric_38_18_def abs_less_iff)
  then have returns: "\<forall>x \<in> set means \<union> set ?fitted. - 1 \<le> x \<and> numeric_38_18 x"
    using means(3) levels(3) by blast
  have "\<forall>g \<in> set ?groups. g \<noteq> []" using groups(1) by blast
  from fitted_buckets_ok [OF len rates(2) means(2) flen cs(2) fractions returns this]
  obtain bs where bs: "fitted_buckets bounds ?groups rates means ?fitted cs = Inr bs" "map conviction_upper_bound bs = bounds"
    "map calibrated_fraction bs = cs" "map bucket_trade_count bs = ?weights"
    by blast
  have "fit_eligible trades = Inr bs"
    using bounds(1) rates(1) means(1) fit cs(1) bs(1) by (simp add: fit_eligible_def Let_def)
  moreover have "bs \<noteq> []" using bs(2) bounds(4) by auto
  moreover have "(\<Sum>b\<leftarrow>bs. bucket_trade_count b) = int (length trades)"
    using bs(4) size by (simp add: int_sum_list)
  moreover have "\<forall>b \<in> set bs. calibrated_fraction b \<in> set cs" using bs(3) by auto
  ultimately show ?thesis using bs(2,3) bounds(2) cs(3,4) by (intro exI [of _ bs]) auto
qed

section \<open>What a conviction earns\<close>

lemma conviction_parameters_accepted:
  assumes "conviction_parameters_post_init p = Inr ()"
  shows "100 \<le> min_trades_for_calibration p" "risk_fraction_min_per_trade p \<le> risk_fraction_max_per_trade p"
    "risk_fraction_max_per_trade p \<le> 1 / 100" "1 / 10 \<le> conviction_floor p"
proof -
  have "1 / 10 = (10 / 100 :: rat)" by simp
  then show "100 \<le> min_trades_for_calibration p" "risk_fraction_min_per_trade p \<le> risk_fraction_max_per_trade p"
    "risk_fraction_max_per_trade p \<le> 1 / 100" "1 / 10 \<le> conviction_floor p"
    using assms by (auto simp: conviction_parameters_post_init_def assert_within_ceilings_ok assert_above_floors_ok
      CALIBRATION_HARD_CEILINGS_def CALIBRATION_HARD_FLOORS_def SIZING_CEILINGS_def HARD_FLOORS_def CONFIGURED_FLOORS_def
      conviction_bounded_values_def Let_def not_less)
qed

definition band_stored :: "conviction_parameters \<Rightarrow> bool" where
  "band_stored p \<longleftrightarrow> 0 \<le> risk_fraction_min_per_trade p \<and> on_lattice (risk_fraction_min_per_trade p) \<and>
     on_lattice (risk_fraction_max_per_trade p)"

definition earned :: "conviction_parameters \<Rightarrow> rat \<Rightarrow> rat" where
  "earned p c = q18 (dadd (risk_fraction_min_per_trade p)
     (dmul c (dsub (risk_fraction_max_per_trade p) (risk_fraction_min_per_trade p))))"

lemma risk_fraction_for_eq:
  assumes "conviction_parameters_post_init p = Inr ()" "band_stored p" "0 \<le> c" "c \<le> 1"
  shows "risk_fraction_for c p = Inr (earned p c)"
    "risk_fraction_min_per_trade p \<le> earned p c" "earned p c \<le> risk_fraction_max_per_trade p"
proof -
  let ?min = "risk_fraction_min_per_trade p" and ?max = "risk_fraction_max_per_trade p"
  note p = conviction_parameters_accepted [OF assms(1)]
  have order: "0 \<le> ?min" "?min \<le> ?max" "?max \<le> 1 / 100" using p assms(2) by (simp_all add: band_stored_def)
  have lattice: "on_lattice ?min" "on_lattice ?max" using assms(2) by (simp_all add: band_stored_def)
  have band: "dsub ?max ?min = ?max - ?min" using order lattice by (simp add: dsub_def lattice_exact on_lattice_diff)
  have fixed: "context_round (?max - ?min) = ?max - ?min" "context_round ?min = ?min" "context_round ?max = ?max"
    using order lattice by (simp_all add: lattice_exact on_lattice_diff)
  have "c * (?max - ?min) \<le> ?max - ?min" using assms(4) order mult_right_mono [of c 1 "?max - ?min"] by simp
  from context_round_mono [OF this] fixed have up: "dmul c (?max - ?min) \<le> ?max - ?min" by (simp add: dmul_def)
  have low: "0 \<le> dmul c (?max - ?min)" using assms(3) order by (simp add: dmul_nonneg)
  let ?r = "dadd ?min (dmul c (?max - ?min))"
  have "?min \<le> ?r" "?r \<le> ?max"
    using context_round_mono [of ?min "?min + dmul c (?max - ?min)"]
      context_round_mono [of "?min + dmul c (?max - ?min)" ?max] fixed low up by (simp_all add: dadd_def)
  then show "?min \<le> earned p c" "earned p c \<le> ?max" by (simp_all add: earned_def band q18_ge q18_le lattice)
  have "quantized ?r = Inr (q18 ?r)"
    using quantized_between [of ?min ?r ?max] \<open>?min \<le> ?r\<close> \<open>?r \<le> ?max\<close> lattice order by simp
  moreover have "require_storable_fraction (Finite (q18 c)) f = Inr (q18 c)" for f
    using quantized_fraction [OF assms(3,4)] by (simp add: fraction_accepts)
  ultimately show "risk_fraction_for c p = Inr (earned p c)"
    using quantized_fraction [OF assms(3,4)] by (simp add: risk_fraction_for_def earned_def band Let_def)
qed

lemma earned_mono:
  assumes "conviction_parameters_post_init p = Inr ()" "band_stored p" "c \<le> d"
  shows "earned p c \<le> earned p d"
proof -
  let ?band = "dsub (risk_fraction_max_per_trade p) (risk_fraction_min_per_trade p)"
  have "0 \<le> ?band" using conviction_parameters_accepted(2) [OF assms(1)] by (simp add: dsub_def)
  then have "dmul c ?band \<le> dmul d ?band" using assms(3) by (simp add: dmul_def context_round_mono mult_right_mono)
  then show ?thesis by (simp add: earned_def q18_mono dadd_def context_round_mono)
qed

text \<open>A map as \<open>fit_calibration\<close> and \<open>from_calibration_row\<close> make it: constructed, and so are its buckets.\<close>

definition constructed_map :: "calibration_map \<Rightarrow> bool" where
  "constructed_map m \<longleftrightarrow> calibration_map_post_init m = Inr () \<and>
     list_all (\<lambda>b. new_bucket (Finite (conviction_upper_bound b)) (bucket_trade_count b) (Finite (hit_rate_fraction b))
       (Finite (mean_return_fraction b)) (Finite (fitted_return_fraction b)) (Finite (calibrated_fraction b)) = Inr b) (buckets m)"

lemma read_level_fraction: "constructed_map m \<Longrightarrow> 0 \<le> read_level c (buckets m) \<and> read_level c (buckets m) \<le> 1"
proof (cases "buckets m = []")
  case True
  then show ?thesis by (simp add: UNCALIBRATED_FRACTION_def)
next
  case False
  assume "constructed_map m"
  moreover obtain b where "b \<in> set (buckets m)" "read_level c (buckets m) = calibrated_fraction b"
    using read_level_in [OF False] by auto
  ultimately show ?thesis by (auto simp: constructed_map_def list_all_iff new_bucket_accepts)
qed

lemma assess_conviction_cases:
  assumes "assess_conviction s m p (utc now_utc) = Inr a"
    and "constructed_map m" "conviction_parameters_post_init p = Inr ()" "band_stored p"
  shows "signal_direction s \<noteq> FLAT" "calibration_strategy_id m = strategy_id s" "available_at_utc m \<le> now_utc"
    "calibrated_conviction a = read_level (conviction s) (buckets m)"
    "conviction_rejection a = None \<longleftrightarrow> conviction_floor p \<le> conviction s"
    "assessed_risk_fraction a =
      (if conviction_floor p \<le> conviction s then Some (earned p (calibrated_conviction a)) else None)"
  using assms(1) risk_fraction_for_eq(1) [OF assms(3,4)] read_level_fraction [OF assms(2)]
  by (auto simp: assess_conviction_def and_then_Inr_iff calibrated_def not_less not_le split: if_splits)

lemma assess_conviction_total:
  assumes "signal_direction s \<noteq> FLAT" "calibration_strategy_id m = strategy_id s" "available_at_utc m \<le> now_utc"
    and "0 \<le> conviction s" "conviction s \<le> 1"
    and "constructed_map m" "conviction_parameters_post_init p = Inr ()" "band_stored p"
  shows "\<exists>a. assess_conviction s m p (utc now_utc) = Inr a"
proof -
  have "require_storable_fraction (Finite (q18 (conviction s))) f = Inr (q18 (conviction s))" for f
    using quantized_fraction [OF assms(4,5)] by (simp add: fraction_accepts)
  then show ?thesis
    using assms(1-3) risk_fraction_for_eq(1) [OF assms(7,8)] read_level_fraction [OF assms(6), of "conviction s"]
      quantized_fraction [OF assms(4,5)]
    by (auto simp: assess_conviction_def calibrated_def conviction_assessment_post_init_def ensure_def construct_def)
qed

lemma calibration_row_restored:
  assumes "codec_ok c" "constructed_map m"
  shows "from_calibration_row c (to_calibration_row c m) = Inr m"
proof -
  have "bucket_from_row c (bucket_to_row c b) = Inr b" if "b \<in> set (buckets m)" for b
    using assms that
    by (simp add: bucket_from_row_def bucket_to_row_def decode_decimal_def decode_trade_count_def codec_ok_def
        constructed_map_def list_all_iff)
  then have "map_result (bucket_from_row c) (map (bucket_to_row c) (buckets m)) = Inr (map (\<lambda>b. b) (buckets m))"
    by (rule map_result_map)
  moreover have "calibration_map_post_init m = Inr ()" using assms(2) by (simp add: constructed_map_def)
  ultimately show ?thesis using assms(1)
    by (cases m) (simp add: from_calibration_row_def to_calibration_row_def decode_trade_count_def codec_ok_def)
qed

section \<open>Concrete records\<close>

definition example_trade :: "nat \<Rightarrow> closed_trade" where
  "example_trade n = \<lparr>trade_strategy_id = ''alpha'', reported_conviction = of_nat (n mod 4 + 1) / 10,
     realised_return_fraction = of_nat (n mod 3) / 100, closed_at_utc = int n\<rparr>"

definition example_history :: "closed_trade list" where
  "example_history = map example_trade [0..<120]"

definition example_map :: calibration_map where
  "example_map = \<lparr>calibration_strategy_id = ''alpha'', available_at_utc = 0, observation_count = 120,
     buckets = [\<lparr>conviction_upper_bound = 5 / 10, bucket_trade_count = 60, hit_rate_fraction = 1 / 2,
        mean_return_fraction = 1 / 100, fitted_return_fraction = 1 / 100, calibrated_fraction = 0\<rparr>,
       \<lparr>conviction_upper_bound = 9 / 10, bucket_trade_count = 60, hit_rate_fraction = 3 / 4,
        mean_return_fraction = 2 / 100, fitted_return_fraction = 2 / 100, calibrated_fraction = 1\<rparr>]\<rparr>"

section \<open>Properties\<close>

text \<open>
  C21. Pooling adjacent violators is weighted isotonic regression. For as many means as positive
  weights, on the stored lattice, at least -1 and at most \<open>R\<close>, of total weight at most \<open>N\<close>
  with \<open>R N^2\<close> below 10^20, the code never raises and returns, each stored to eighteen places,
  the levels of a non-decreasing series, and no non-decreasing series is nearer to the means in
  weighted squares.
\<close>

theorem pooling_is_isotonic_regression:
  assumes "length means = length weights" "means_within R (zip means weights)" "\<forall>m \<in> set means. - 1 \<le> m"
    and "weight_of (zip means weights) \<le> N" "1 \<le> R" "on_lattice R" "1 \<le> N" "R * N ^ 2 < 10 ^ 20"
  shows "\<exists>levels. pool_adjacent_violators means weights = Inr (map stored levels) \<and>
    length levels = length means \<and> sorted levels \<and>
    (\<forall>g. length g = length means \<and> sorted g \<longrightarrow>
      squared_error (zip means weights) levels \<le> squared_error (zip means weights) g)"
proof -
  have pos: "positive (zip means weights)" using assms(2) by (rule means_within_positive)
  show ?thesis
    using pool_adjacent_violators_exact [OF assms] length_isotonic_fit [OF pos] sorted_isotonic_fit [OF pos]
      isotonic_fit_optimal [OF pos] assms(1)
    by (intro exI [of _ "isotonic_fit (zip means weights)"]) simp
qed

lemma pooling_is_isotonic_regression_witness:
  "\<exists>levels. pool_adjacent_violators [3, 1, 2] [1, 2, 1] = Inr (map stored levels) \<and> length levels = 3 \<and> sorted levels"
proof -
  have "means_within 3 (zip [3, 1, 2] [1, 2, 1])"
    using on_lattice_of_int [of 3] on_lattice_of_int [of 2] by (simp add: means_within_def)
  moreover have "on_lattice 3" using on_lattice_of_int [of 3] by simp
  ultimately show ?thesis
    using pooling_is_isotonic_regression [of "[3, 1, 2]" "[1, 2, 1]" 3 4]
    by (auto simp: weight_of_def numeral_3_eq_3)
qed

text \<open>
  C8. Calibration never looks ahead and never raises on a real record. For a history of one
  strategy's constructed trades whose returns and length keep \<open>R N^2\<close> below 10^20, fitting as
  of an instant returns a map that the fit of the trades closed by then returns too; the map is
  one its constructor accepts, so a higher conviction never calibrates lower, its fractions are
  in [0, 1], it has a gradient exactly when enough trades had closed, and then its buckets hold
  each of them once.
\<close>

theorem calibration_never_looks_ahead:
  fixes t0 :: int
  assumes "sound_history strategy R trades" "strip strategy \<noteq> []" "conviction_parameters_post_init p = Inr ()"
  defines "past \<equiv> filter (\<lambda>t. closed_at_utc t \<le> t0) trades"
  shows "\<exists>m. fit_calibration trades strategy (utc t0) p = Inr m \<and> fit_calibration past strategy (utc t0) p = Inr m \<and>
    calibration_map_post_init m = Inr () \<and> available_at_utc m = t0 \<and> observation_count m = int (length past) \<and>
    (is_fitted m \<longleftrightarrow> min_trades_for_calibration p \<le> int (length past)) \<and>
    (is_fitted m \<longrightarrow> (\<Sum>b\<leftarrow>buckets m. bucket_trade_count b) = int (length past)) \<and>
    (\<forall>x y. x \<le> y \<longrightarrow> read_level x (buckets m) \<le> read_level y (buckets m)) \<and>
    (\<forall>x. 0 \<le> read_level x (buckets m) \<and> read_level x (buckets m) \<le> 1)"
proof -
  have strategy: "list_all (\<lambda>t. trade_strategy_id t = strategy) trades" "list_all (\<lambda>t. trade_strategy_id t = strategy) past"
    using assms(1) by (auto simp: sound_history_def list_all_iff past_def)
  have fit: "fit_calibration ts strategy (utc t0) p =
      and_then (if int (length past) < min_trades_for_calibration p then Inr [] else fit_eligible past) (\<lambda>bs.
        construct calibration_map_post_init \<lparr>calibration_strategy_id = strategy, available_at_utc = t0,
          observation_count = int (length past), buckets = bs\<rparr>)" if "ts \<in> {trades, past}" for ts
    using that assms(2) strategy
    by (auto simp: fit_calibration_def eligible_trades_filter past_def calibration_require_text_def)
  have sound: "sound_history strategy R past"
  proof -
    have "R * of_nat (length past) ^ 2 \<le> R * of_nat (length trades) ^ 2"
      using assms(1) by (intro mult_left_mono power_mono) (auto simp: sound_history_def past_def)
    moreover have "R * of_nat (length trades) ^ 2 < 10 ^ 20" using assms(1) by (simp add: sound_history_def)
    ultimately have "R * of_nat (length past) ^ 2 < 10 ^ 20" by (rule le_less_trans)
    then show ?thesis using assms(1) by (simp add: sound_history_def list_all_iff past_def)
  qed
  obtain bs where bs: "(if int (length past) < min_trades_for_calibration p then Inr [] else fit_eligible past) = Inr bs"
    "bs \<noteq> [] \<longleftrightarrow> min_trades_for_calibration p \<le> int (length past)"
    "sorted_wrt (<) (map conviction_upper_bound bs)" "sorted (map calibrated_fraction bs)"
    "\<forall>b \<in> set bs. 0 \<le> calibrated_fraction b \<and> calibrated_fraction b \<le> 1"
    "bs \<noteq> [] \<longrightarrow> (\<Sum>b\<leftarrow>bs. bucket_trade_count b) = int (length past)"
  proof (cases "int (length past) < min_trades_for_calibration p")
    case True
    then show thesis using that [of "[]"] by simp
  next
    case False
    then have "DECILE_COUNT \<le> length past"
      using conviction_parameters_accepted(1) [OF assms(3)] by (simp add: DECILE_COUNT_def)
    from fit_eligible_ok [OF sound this] show thesis using that False by auto
  qed
  let ?m = "\<lparr>calibration_strategy_id = strategy, available_at_utc = t0, observation_count = int (length past), buckets = bs\<rparr>"
  have accepted: "calibration_map_post_init ?m = Inr ()" using bs(3,4) assms(2) by (simp add: calibration_map_accepted)
  have "0 \<le> read_level x bs \<and> read_level x bs \<le> 1" for x
    using read_level_in [of bs x] bs(5) by (cases "bs = []") (auto simp: UNCALIBRATED_FRACTION_def)
  then show ?thesis
    using accepted fit [of trades] fit [of past] bs read_level_mono [OF _ bs(4)]
    by (intro exI [of _ ?m]) (simp add: is_fitted_def)
qed

lemma example_history_sound: "sound_history ''alpha'' 1 example_history"
proof -
  have lattice: "on_lattice (of_nat k / 10)" "on_lattice (of_nat k / 100)" for k :: nat
    by (rule on_latticeI [of _ "int k * 10 ^ 17"], simp) (rule on_latticeI [of _ "int k * 10 ^ 16"], simp)
  have "closed_trade_post_init (example_trade n) = Inr () \<and> trade_strategy_id (example_trade n) = ''alpha'' \<and>
      realised_return_fraction (example_trade n) \<le> 1" for n
  proof -
    have "n mod 4 < 4" "n mod 3 < 3" by simp_all
    then have "(of_nat (n mod 4 + 1) :: rat) \<le> 10" "(of_nat (n mod 3) :: rat) \<le> 100" by simp_all
    moreover have "(0 :: rat) \<le> of_nat (n mod 3) / 100" by simp
    ultimately show ?thesis using lattice [of "n mod 4 + 1"] lattice [of "n mod 3"]
      by (simp add: closed_trade_accepted example_trade_def strip_blank is_py_space_def numeric_38_18_def abs_le_iff)
  qed
  then have "list_all (\<lambda>t. closed_trade_post_init t = Inr () \<and> trade_strategy_id t = ''alpha'' \<and>
      realised_return_fraction t \<le> 1) example_history"
    by (simp add: example_history_def list_all_iff)
  then show ?thesis by (simp add: sound_history_def example_history_def)
qed

lemma calibration_never_looks_ahead_witness:
  "\<exists>m. fit_calibration example_history ''alpha'' (utc 110) default_conviction_parameters = Inr m \<and>
    is_fitted m \<and> observation_count m = 111"
proof -
  have "conviction_parameters_post_init default_conviction_parameters = Inr ()" by code_simp
  moreover have "length (filter (\<lambda>t. closed_at_utc t \<le> 110) example_history) = 111" by code_simp
  moreover have "min_trades_for_calibration default_conviction_parameters = 100"
    by (simp add: default_conviction_parameters_def)
  moreover have "strip ''alpha'' \<noteq> []" by (simp add: strip_blank is_py_space_def)
  ultimately show ?thesis
    using calibration_never_looks_ahead [OF example_history_sound, of default_conviction_parameters 110] by auto
qed

text \<open>
  C22. Conviction buys risk inside the band, and only upwards. With a constructed map and
  accepted parameters whose band is on the stored lattice and not negative, an assessment is
  only made for a directional signal of the map's own strategy, with a map that was available
  at the decision; it is refused exactly below the conviction floor, without a risk fraction; an
  approved one has a risk fraction inside the band; and of two signals assessed with the same
  map, the one reporting the higher conviction is approved when the other is, with no smaller a
  fraction.
\<close>

theorem conviction_pays_inside_the_band:
  assumes "assess_conviction s m p (utc now_utc) = Inr a" "assess_conviction s' m p (utc now_utc) = Inr a'"
    and "constructed_map m" "conviction_parameters_post_init p = Inr ()" "band_stored p"
    and "conviction s \<le> conviction s'"
  shows "signal_direction s \<noteq> FLAT \<and> strategy_id s = calibration_strategy_id m \<and> available_at_utc m \<le> now_utc \<and>
    (if conviction s < conviction_floor p
     then assessed_risk_fraction a = None \<and>
       conviction_rejection a = Some \<lparr>binding_limit_name = CONVICTION_FLOOR_LIMIT_NAME, rejected_at_utc = now_utc\<rparr>
     else \<exists>r r'. assessed_risk_fraction a = Some r \<and> assessed_risk_fraction a' = Some r' \<and>
       conviction_rejection a = None \<and> conviction_rejection a' = None \<and>
       risk_fraction_min_per_trade p \<le> r \<and> r \<le> r' \<and> r' \<le> risk_fraction_max_per_trade p)"
proof -
  note c = assess_conviction_cases [OF assms(1,3-5)] and c' = assess_conviction_cases [OF assms(2,3-5)]
  note level = read_level_fraction [OF assms(3)]
  have "sorted (map calibrated_fraction (buckets m))"
    using assms(3) by (simp add: constructed_map_def calibration_map_accepted)
  from earned_mono [OF assms(4,5) read_level_mono [OF assms(6) this]]
  have mono: "earned p (calibrated_conviction a) \<le> earned p (calibrated_conviction a')" by (simp add: c(4) c'(4))
  have "risk_fraction_min_per_trade p \<le> earned p (calibrated_conviction a)"
    "earned p (calibrated_conviction a') \<le> risk_fraction_max_per_trade p"
    using risk_fraction_for_eq(2,3) [OF assms(4,5)] level by (simp_all add: c(4) c'(4))
  moreover have "conviction s < conviction_floor p \<Longrightarrow>
      conviction_rejection a = Some \<lparr>binding_limit_name = CONVICTION_FLOOR_LIMIT_NAME, rejected_at_utc = now_utc\<rparr>"
    using assms(1) by (auto simp: assess_conviction_def and_then_Inr_iff calibrated_def)
  ultimately show ?thesis using c c' mono assms(6) by (auto simp: not_less)
qed

definition example_conviction :: "rat \<Rightarrow> signal" where
  "example_conviction x = example_signal LONG\<lparr>conviction := x\<rparr>"

lemma conviction_pays_inside_the_band_witness:
  "\<exists>a a' r r'. assess_conviction (example_conviction (2 / 10)) example_map default_conviction_parameters (utc 0) = Inr a \<and>
    assess_conviction (example_conviction (9 / 10)) example_map default_conviction_parameters (utc 0) = Inr a' \<and>
    assessed_risk_fraction a = Some r \<and> assessed_risk_fraction a' = Some r' \<and> 25 / 10000 \<le> r \<and> r \<le> r' \<and> r' \<le> 1 / 100"
proof -
  have m: "constructed_map example_map" unfolding constructed_map_def by (intro conjI; code_simp)
  have p: "conviction_parameters_post_init default_conviction_parameters = Inr ()" "band_stored default_conviction_parameters"
    by code_simp+
  have total: "\<exists>a. assess_conviction (example_conviction x) example_map default_conviction_parameters (utc 0) = Inr a"
    if "0 \<le> x" "x \<le> 1" for x
    using that by (intro assess_conviction_total [OF _ _ _ _ _ m p])
      (simp_all add: example_conviction_def example_signal_def example_map_def)
  obtain a where a: "assess_conviction (example_conviction (2 / 10)) example_map default_conviction_parameters (utc 0) = Inr a"
    using total [of "2 / 10"] by auto
  obtain a' where a': "assess_conviction (example_conviction (9 / 10)) example_map default_conviction_parameters (utc 0) = Inr a'"
    using total [of "9 / 10"] by auto
  have "conviction (example_conviction (2 / 10)) \<le> conviction (example_conviction (9 / 10))"
    "\<not> conviction (example_conviction (2 / 10)) < conviction_floor default_conviction_parameters"
    by (simp_all add: example_conviction_def default_conviction_parameters_def)
  from conviction_pays_inside_the_band [OF a a' m p this(1)] this(2) a a' show ?thesis
    by (auto simp: default_conviction_parameters_def)
qed

end
