(* ===== verification/Covariance.thy ===== *)
theory Covariance
  imports Precision Guards "HOL-Library.List_Lexorder" "HOL-Library.Char_ord" "HOL-Library.Multiset"
begin

text \<open>
  \<open>src/fking/risk/covariance.py\<close>: the correlation matrix, the clusters and the risk model as the
  constructors accept them, Cholesky's test for positive definiteness, average-linkage
  clustering and the estimation of the model from return series. The arithmetic runs in a
  local context of 50 digits; a mapping is its list of items; a decimal power is the exact
  power rounded once. The lemmas show that clustering always returns a partition of the
  universe and that the estimate keeps the stress floors.
\<close>

section \<open>The local context\<close>

definition MATH_PRECISION :: nat where
  "MATH_PRECISION = 50"

definition madd :: "rat \<Rightarrow> rat \<Rightarrow> rat" where
  "madd x y = round_at MATH_PRECISION (x + y)"

definition msub :: "rat \<Rightarrow> rat \<Rightarrow> rat" where
  "msub x y = round_at MATH_PRECISION (x - y)"

definition mmul :: "rat \<Rightarrow> rat \<Rightarrow> rat" where
  "mmul x y = round_at MATH_PRECISION (x * y)"

definition mdiv :: "rat \<Rightarrow> rat \<Rightarrow> rat result" where
  "mdiv x y =
     (if y = 0 then if x = 0 then Inl (InvalidOperation ''0/0'') else Inl DivisionByZero
      else Inr (round_at MATH_PRECISION (x / y)))"

definition mpow :: "rat \<Rightarrow> nat \<Rightarrow> rat" where
  "mpow x n = round_at MATH_PRECISION (x ^ n)"

definition msum :: "rat list \<Rightarrow> rat" where
  "msum xs = foldl madd 0 xs"

abbreviation msqrt :: "rat \<Rightarrow> rat result" where
  "msqrt \<equiv> sqrt_at MATH_PRECISION"

section \<open>Constants\<close>

definition COVARIANCE_EWMA_DECAY :: rat where
  "COVARIANCE_EWMA_DECAY = 94 / 100"

definition MINIMUM_OBSERVATIONS :: nat where
  "MINIMUM_OBSERVATIONS = 30"

definition CLUSTER_CUT_CORRELATION :: rat where
  "CLUSTER_CUT_CORRELATION = 70 / 100"

definition MAX_ESTIMATED_CORRELATION :: rat where
  "MAX_ESTIMATED_CORRELATION = 999 / 1000"

definition PAIRWISE_MINIMUM :: nat where
  "PAIRWISE_MINIMUM = 2"

definition PSD_REPAIR_LADDER :: "rat list" where
  "PSD_REPAIR_LADDER = [0, 1 / 100, 5 / 100, 15 / 100, 35 / 100, 65 / 100, 1]"

section \<open>Correlation matrices\<close>

type_synonym table = "(string \<times> (string \<times> rat) list) list"

record correlation_matrix =
  matrix_symbols :: "string list"
  entries :: table

text \<open>\<open>entries[a][b]\<close>, and the same through \<open>get\<close>.\<close>

definition entry_at :: "table \<Rightarrow> string \<Rightarrow> string \<Rightarrow> rat result" where
  "entry_at t a b =
     (case map_of t a of
        None \<Rightarrow> Inl KeyError
      | Some row \<Rightarrow> (case map_of row b of None \<Rightarrow> Inl KeyError | Some x \<Rightarrow> Inr x))"

definition get_entry :: "table \<Rightarrow> string \<Rightarrow> string \<Rightarrow> rat option" where
  "get_entry t a b = (case map_of t a of None \<Rightarrow> None | Some row \<Rightarrow> map_of row b)"

definition validate_entry :: "table \<Rightarrow> (string \<times> rat) list \<Rightarrow> string \<Rightarrow> string \<Rightarrow> unit result" where
  "validate_entry t row a b =
     (case map_of row b of
        None \<Rightarrow> Inl (DomainError ''no correlation'')
      | Some x \<Rightarrow> run_checks
          [ensure (\<not> dabs x > 1) (DomainError ''outside [-1, 1]''),
           ensure (\<not> (a = b \<and> x \<noteq> 1)) (DomainError ''diagonal''),
           ensure (get_entry t b a = Some x) (DomainError ''not symmetric'')])"

definition validate_row :: "table \<Rightarrow> string list \<Rightarrow> string \<Rightarrow> unit result" where
  "validate_row t symbols a =
     (case map_of t a of
        None \<Rightarrow> Inl (DomainError ''no correlation row'')
      | Some row \<Rightarrow> run_checks (map (validate_entry t row a) symbols))"

definition restricted_table :: "table \<Rightarrow> string list \<Rightarrow> table result" where
  "restricted_table t symbols = map_result (\<lambda>a.
     and_then (map_result (\<lambda>b. and_then (entry_at t a b) (\<lambda>x. Inr (b, x))) symbols) (\<lambda>row. Inr (a, row))) symbols"

definition new_correlation_matrix :: "string list \<Rightarrow> table \<Rightarrow> correlation_matrix result" where
  "new_correlation_matrix symbols t =
     and_then (run_checks
       ([ensure (symbols \<noteq> []) (DomainError ''no symbols''),
         ensure (sort symbols = symbols) (DomainError ''unsorted symbols''),
         ensure (card (set symbols) = length symbols) (DomainError ''repeated symbols'')]
        @ map (validate_row t symbols) symbols)) (\<lambda>_.
     and_then (restricted_table t symbols) (\<lambda>t'.
       Inr \<lparr>matrix_symbols = symbols, entries = t'\<rparr>))"

definition correlation_between :: "correlation_matrix \<Rightarrow> string \<Rightarrow> string \<Rightarrow> rat result" where
  "correlation_between m a b =
     (case get_entry (entries m) a b of
        None \<Rightarrow> Inl (DomainError ''outside the estimated universe'')
      | Some x \<Rightarrow> Inr x)"

definition matrix_rows :: "correlation_matrix \<Rightarrow> rat list list result" where
  "matrix_rows m = map_result (\<lambda>a. map_result (entry_at (entries m) a) (matrix_symbols m)) (matrix_symbols m)"

section \<open>Positive definiteness\<close>

text \<open>
  The factorisation keeps the rows of the lower triangle; \<open>off_diagonal\<close> computes the entries
  of a row before its pivot and leaves the rest of the matrix row.
\<close>

definition inner_sum :: "rat list \<Rightarrow> rat list \<Rightarrow> rat" where
  "inner_sum xs ys = msum (map2 mmul xs ys)"

fun off_diagonal :: "rat list list \<Rightarrow> rat list \<Rightarrow> rat list \<Rightarrow> (rat list \<times> rat list) result" where
  "off_diagonal [] row current = Inr (current, row)"
| "off_diagonal (l # ls) [] current = Inl IndexError"
| "off_diagonal (l # ls) (x # row) current =
     and_then (mdiv (msub x (inner_sum current l)) (List.last l)) (\<lambda>y. off_diagonal ls row (current @ [y]))"

fun factorises :: "rat list list \<Rightarrow> rat list list \<Rightarrow> bool result" where
  "factorises lower [] = Inr True"
| "factorises lower (row # rows) =
     and_then (off_diagonal lower row []) (\<lambda>(current, rest).
       case rest of
         [] \<Rightarrow> Inl IndexError
       | x # _ \<Rightarrow>
           (let pivot = msub x (inner_sum current current)
            in if pivot \<le> 0 then Inr False
               else and_then (msqrt pivot) (\<lambda>d. factorises (lower @ [current @ [d]]) rows)))"

definition is_positive_definite :: "rat list list \<Rightarrow> bool result" where
  "is_positive_definite rows = factorises [] rows"

section \<open>Clusters and the model\<close>

record correlation_cluster =
  cluster_id :: string
  cluster_symbols :: "string list"

definition cluster_post_init :: "correlation_cluster \<Rightarrow> unit result" where
  [post_init_defs]: "cluster_post_init c = run_checks
     [ensure (cluster_symbols c \<noteq> []) (DomainError ''empty cluster''),
      ensure (sort (cluster_symbols c) = cluster_symbols c) (DomainError ''unsorted members''),
      ensure (cluster_id c = hd (cluster_symbols c)) (DomainError ''cluster_id'')]"

record risk_model =
  model_symbols :: "string list"
  daily_volatility_ratio :: "(string \<times> rat) list"
  correlations :: correlation_matrix
  shrinkage_intensity_ratio :: rat
  psd_repair_ratio :: rat
  clusters :: "correlation_cluster list"

definition risk_model_post_init :: "risk_model \<Rightarrow> unit result" where
  [post_init_defs]: "risk_model_post_init m =
     and_then (run_checks
       ([ensure (model_symbols m = matrix_symbols (correlations m)) (DomainError ''model symbols'')]
        @ map (\<lambda>s. ensure (case map_of (daily_volatility_ratio m) s of None \<Rightarrow> False | Some v \<Rightarrow> v > 0)
                 (DomainError ''daily volatility''))
            (model_symbols m)
        @ [ensure (sort (concat (map cluster_symbols (clusters m))) = sort (model_symbols m))
             (DomainError ''clusters must partition'')])) (\<lambda>_.
     and_then (matrix_rows (correlations m)) (\<lambda>rows.
     and_then (is_positive_definite rows) (\<lambda>definite. ensure definite (RiskModelError ''not positive definite''))))"

text \<open>Called by \<open>portfolio_risk\<close> inside its local context.\<close>

definition covariance_between :: "risk_model \<Rightarrow> string \<Rightarrow> string \<Rightarrow> rat result" where
  "covariance_between m a b =
     (case (map_of (daily_volatility_ratio m) a, map_of (daily_volatility_ratio m) b) of
        (Some va, Some vb) \<Rightarrow> and_then (correlation_between (correlations m) a b) (\<lambda>r. Inr (mmul (mmul va vb) r))
      | _ \<Rightarrow> Inl KeyError)"

definition cluster_of :: "risk_model \<Rightarrow> string \<Rightarrow> string result" where
  "cluster_of m s =
     (case filter (\<lambda>c. s \<in> set (cluster_symbols c)) (clusters m) of
        [] \<Rightarrow> Inl (DomainError ''outside the estimated universe'')
      | c # _ \<Rightarrow> Inr (cluster_id c))"

section \<open>Clustering\<close>

text \<open>\<open>prec\<close> is the precision in force at the call, which \<open>abs\<close> rounds to.\<close>

definition correlation_distance :: "nat \<Rightarrow> rat \<Rightarrow> rat result" where
  "correlation_distance prec r =
     (if round_at prec \<bar>r\<bar> > 1 then Inl (DomainError ''outside [-1, 1]'')
      else msqrt (mmul (1 / 2) (msub 1 r)))"

definition cell :: "rat list list \<Rightarrow> nat \<Rightarrow> nat \<Rightarrow> rat" where
  "cell d i j = d ! i ! j"

definition upper_pairs :: "nat \<Rightarrow> (nat \<times> nat) list" where
  "upper_pairs n = concat (map (\<lambda>i. map (\<lambda>j. (i, j)) [Suc i..<n]) [0..<n])"

definition closest_pair :: "rat list list \<Rightarrow> nat \<times> nat" where
  "closest_pair d = fst (foldl (\<lambda>(closest, smallest) (i, j).
       if cell d i j < smallest then ((i, j), cell d i j) else (closest, smallest))
     ((0, 1), cell d 0 1) (upper_pairs (length d)))"

definition delete_nth :: "nat \<Rightarrow> 'a list \<Rightarrow> 'a list" where
  "delete_nth i xs = take i xs @ drop (Suc i) xs"

definition set_cell :: "rat list list \<Rightarrow> nat \<Rightarrow> nat \<Rightarrow> rat \<Rightarrow> rat list list" where
  "set_cell d i j x = d[i := (d ! i)[j := x]]"

fun blend_distances :: "rat \<Rightarrow> rat \<Rightarrow> nat \<Rightarrow> nat \<Rightarrow> nat list \<Rightarrow> rat list list \<Rightarrow> rat list list result" where
  "blend_distances w1 w2 i j [] d = Inr d"
| "blend_distances w1 w2 i j (other # others) d =
     (if other = i \<or> other = j then blend_distances w1 w2 i j others d
      else and_then (mdiv (madd (mmul w1 (cell d i other)) (mmul w2 (cell d j other))) (madd w1 w2)) (\<lambda>blended.
        blend_distances w1 w2 i j others (set_cell (set_cell d i other blended) other i blended)))"

definition merge_clusters ::
  "string list list \<Rightarrow> rat list list \<Rightarrow> nat \<times> nat \<Rightarrow> (string list list \<times> rat list list) result" where
  "merge_clusters members d pair =
     (case pair of (i, j) \<Rightarrow>
        if \<not> (i < length members \<and> j < length members) then Inl IndexError
        else and_then (blend_distances (of_nat (length (members ! i))) (of_nat (length (members ! j))) i j
                 [0..<length members] d) (\<lambda>d.
          Inr (delete_nth j (members[i := members ! i @ members ! j]), map (delete_nth j) (delete_nth j d))))"

lemma and_then_cong [fundef_cong]:
  "r = r' \<Longrightarrow> (\<And>x. r' = Inr x \<Longrightarrow> f x = f' x) \<Longrightarrow> and_then r f = and_then r' f'"
  by (cases r') simp_all

lemma merge_clusters_shorter: "merge_clusters members d pair = Inr (members', d') \<Longrightarrow> length members' < length members"
  by (auto simp: merge_clusters_def delete_nth_def and_then_Inr_iff split: prod.splits if_splits)

function cluster_loop :: "rat \<Rightarrow> string list list \<Rightarrow> rat list list \<Rightarrow> string list list result" where
  "cluster_loop cut_distance members d =
     (if length members \<le> 1 then Inr members
      else let (i, j) = closest_pair d
        in if cell d i j > cut_distance then Inr members
           else and_then (merge_clusters members d (i, j)) (\<lambda>(members, d). cluster_loop cut_distance members d))"
  by pat_completeness auto
termination
  by (relation "measure (\<lambda>(cut_distance, members, d). length members)") (auto dest: merge_clusters_shorter)

declare cluster_loop.simps [simp del]

definition cluster_by_correlation :: "correlation_matrix \<Rightarrow> rat \<Rightarrow> correlation_cluster list result" where
  "cluster_by_correlation m cut_correlation =
     and_then (correlation_distance DECIMAL_PRECISION cut_correlation) (\<lambda>cut_distance.
     and_then (map_result (\<lambda>a. map_result (\<lambda>b.
         and_then (correlation_between m a b) (correlation_distance MATH_PRECISION)) (matrix_symbols m)) (matrix_symbols m)) (\<lambda>d.
     and_then (cluster_loop cut_distance (map (\<lambda>s. [s]) (matrix_symbols m)) d) (\<lambda>members.
       map_result (\<lambda>group. construct cluster_post_init \<lparr>cluster_id = hd group, cluster_symbols = group\<rparr>)
         (sort_key hd (map sort members)))))"

section \<open>Estimation\<close>

type_synonym series_table = "(string \<times> decval list) list"
type_synonym stress_table = "(string \<times> (string \<times> decval) list) list"

fun finite_values :: "decval list \<Rightarrow> rat list result" where
  "finite_values [] = Inr []"
| "finite_values (Finite x # xs) = and_then (finite_values xs) (\<lambda>ys. Inr (x # ys))"
| "finite_values (_ # xs) = Inl (RiskModelError ''non-finite return'')"

definition validated_series :: "series_table \<Rightarrow> (string list \<times> rat list list) result" where
  "validated_series t =
     (if t = [] then Inl (RiskModelError ''no return series'')
      else let symbols = sort (map fst t);
               lengths = remdups (map (\<lambda>s. length (the (map_of t s))) symbols)
        in if length lengths \<noteq> 1 then Inl (RiskModelError ''differing lengths'')
           else if hd lengths < MINIMUM_OBSERVATIONS then Inl (RiskModelError ''too few observations'')
           else and_then (map_result (\<lambda>s. finite_values (the (map_of t s))) symbols) (\<lambda>series. Inr (symbols, series)))"

definition get_stress :: "stress_table \<Rightarrow> string \<Rightarrow> string \<Rightarrow> decval option" where
  "get_stress t a b = (case map_of t a of None \<Rightarrow> None | Some row \<Rightarrow> map_of row b)"

text \<open>\<open>!=\<close> on decimals: a NaN differs from everything, itself included.\<close>

definition decimals_differ :: "decval \<Rightarrow> decval \<Rightarrow> bool" where
  "decimals_differ x y \<longleftrightarrow> x = NaN \<or> x \<noteq> y"

definition stress_floor :: "stress_table \<Rightarrow> string \<Rightarrow> string \<Rightarrow> rat result" where
  "stress_floor t a b =
     (let check = (\<lambda>x. case x of
            Finite r \<Rightarrow> if dabs r > 1 then Inl (RiskModelError ''stress outside [-1, 1]'') else Inr r
          | _ \<Rightarrow> Inl (RiskModelError ''stress outside [-1, 1]''))
      in case (get_stress t a b, get_stress t b a) of
           (None, None) \<Rightarrow> Inl (RiskModelError ''no stress correlation'')
         | (Some x, Some y) \<Rightarrow>
             if decimals_differ x y then Inl (RiskModelError ''stress disagrees'') else check x
         | (Some x, None) \<Rightarrow> check x
         | (None, Some y) \<Rightarrow> check y)"

definition validated_stress_floors :: "string list \<Rightarrow> stress_table \<Rightarrow> ((nat \<times> nat) \<times> rat) list result" where
  "validated_stress_floors symbols t =
     map_result (\<lambda>(i, j). and_then (stress_floor t (symbols ! i) (symbols ! j)) (\<lambda>x. Inr ((i, j), x)))
       (upper_pairs (length symbols))"

definition ewma_weights :: "nat \<Rightarrow> rat list result" where
  "ewma_weights n =
     (let raw = map (\<lambda>i. mpow COVARIANCE_EWMA_DECAY (n - 1 - i)) [0..<n]; total = msum raw
      in map_result (\<lambda>w. mdiv w total) raw)"

text \<open>A symmetric matrix filled from its upper triangle.\<close>

definition symmetric_matrix :: "nat \<Rightarrow> (nat \<Rightarrow> rat) \<Rightarrow> (nat \<Rightarrow> nat \<Rightarrow> rat result) \<Rightarrow> rat list list result" where
  "symmetric_matrix n diagonal upper_entry =
     map_result (\<lambda>i. map_result (\<lambda>j.
       if i = j then Inr (diagonal i) else upper_entry (min i j) (max i j)) [0..<n]) [0..<n]"

definition weighted_products :: "rat list \<Rightarrow> rat list \<Rightarrow> rat list \<Rightarrow> rat" where
  "weighted_products weights xs ys = msum (map (\<lambda>(w, x, y). mmul (mmul w x) y) (zip weights (zip xs ys)))"

definition ewma_covariance :: "rat list list \<Rightarrow> rat list \<Rightarrow> rat list list" where
  "ewma_covariance series weights =
     map (\<lambda>i. map (\<lambda>j. weighted_products weights (series ! min i j) (series ! max i j)) [0..<length series])
       [0..<length series]"

definition estimated_volatilities :: "rat list list \<Rightarrow> nat \<Rightarrow> rat list result" where
  "estimated_volatilities covariance n = map_result (\<lambda>i.
     if cell covariance i i \<le> 0 then Inl (RiskModelError ''zero variance'') else msqrt (cell covariance i i)) [0..<n]"

definition sample_correlations :: "rat list list \<Rightarrow> rat list \<Rightarrow> rat list list result" where
  "sample_correlations covariance volatilities =
     symmetric_matrix (length volatilities) (\<lambda>_. 1) (\<lambda>i j.
       and_then (mdiv (cell covariance i j) (mmul (volatilities ! i) (volatilities ! j))) (\<lambda>x.
         Inr (max (- 1) (min 1 x))))"

definition mean_off_diagonal :: "rat list list \<Rightarrow> rat result" where
  "mean_off_diagonal m =
     (let n = length m
      in if n < PAIRWISE_MINIMUM then Inr 0
         else mdiv (msum (map (\<lambda>(i, j). cell m i j) (upper_pairs n))) (of_nat (n * (n - 1) div 2)))"

definition ordered_pairs :: "nat \<Rightarrow> (nat \<times> nat) list" where
  "ordered_pairs n = concat (map (\<lambda>i. map (\<lambda>j. (i, j)) [0..<n]) [0..<n])"

definition target_dispersion :: "rat list list \<Rightarrow> rat list \<Rightarrow> rat \<Rightarrow> rat" where
  "target_dispersion covariance volatilities mean_correlation =
     msum (map (\<lambda>(i, j).
         let target = mmul (mmul mean_correlation (volatilities ! i)) (volatilities ! j);
             difference = msub target (cell covariance i j)
         in mmul difference difference)
       (filter (\<lambda>(i, j). i \<noteq> j) (ordered_pairs (length volatilities))))"

definition centred_sum :: "rat list list \<Rightarrow> rat list \<Rightarrow> rat list list \<Rightarrow> nat \<times> nat \<Rightarrow> rat" where
  "centred_sum series weights covariance = (\<lambda>(i, j).
     msum (map (\<lambda>(w, x, y). let deviation = msub (mmul x y) (cell covariance i j)
         in mmul (mmul w deviation) deviation) (zip weights (zip (series ! i) (series ! j)))))"

definition cross_sum :: "rat list list \<Rightarrow> rat list \<Rightarrow> rat list list \<Rightarrow> nat \<times> nat \<Rightarrow> rat" where
  "cross_sum series weights covariance = (\<lambda>(i, j).
     msum (map (\<lambda>(w, x, y). let deviation = msub (mmul x y) (cell covariance i j);
           own = mmul x x
         in mmul (mmul w (msub own (cell covariance i i))) deviation) (zip weights (zip (series ! i) (series ! j)))))"

definition off_diagonal_term ::
  "rat list list \<Rightarrow> rat list \<Rightarrow> rat list list \<Rightarrow> rat list \<Rightarrow> rat \<Rightarrow> nat \<times> nat \<Rightarrow> rat result" where
  "off_diagonal_term series weights covariance volatilities mean_correlation = (\<lambda>(i, j).
     and_then (mdiv (volatilities ! j) (volatilities ! i)) (\<lambda>ratio.
     and_then (mdiv (cross_sum series weights covariance (j, i)) ratio) (\<lambda>mirrored.
       Inr (mmul (mmul mean_correlation (1 / 2))
         (madd (mmul ratio (cross_sum series weights covariance (i, j))) mirrored)))))"

definition shrinkage_intensity ::
  "rat list list \<Rightarrow> rat list \<Rightarrow> rat list list \<Rightarrow> rat list \<Rightarrow> rat \<Rightarrow> rat result" where
  "shrinkage_intensity series weights covariance volatilities mean_correlation =
     (let n = length series; dispersion = target_dispersion covariance volatilities mean_correlation
      in if n < PAIRWISE_MINIMUM \<or> dispersion \<le> 0 then Inr 0
         else let error = msum (map (centred_sum series weights covariance) (ordered_pairs n));
                  own = map (\<lambda>i. cross_sum series weights covariance (i, i)) [0..<n]
           in and_then (map_result (off_diagonal_term series weights covariance volatilities mean_correlation)
                (filter (\<lambda>(i, j). i \<noteq> j) (ordered_pairs n))) (\<lambda>terms.
              and_then (mdiv 1 (msum (map (\<lambda>w. mmul w w) weights))) (\<lambda>effective.
              and_then (mdiv (msub error (msum (own @ terms))) dispersion) (\<lambda>ratio.
              and_then (mdiv ratio effective) (\<lambda>intensity.
                Inr (max 0 (min 1 intensity)))))))"

definition shrunk_correlations :: "rat list list \<Rightarrow> rat \<Rightarrow> rat \<Rightarrow> rat list list result" where
  "shrunk_correlations sample mean_correlation intensity =
     symmetric_matrix (length sample) (\<lambda>_. 1) (\<lambda>i j.
       Inr (madd (mmul intensity mean_correlation) (mmul (msub 1 intensity) (cell sample i j))))"

definition clamped_correlation :: "rat \<Rightarrow> rat" where
  "clamped_correlation x = max (- MAX_ESTIMATED_CORRELATION) (min MAX_ESTIMATED_CORRELATION x)"

definition floored_correlations :: "((nat \<times> nat) \<times> rat) list \<Rightarrow> rat list list \<Rightarrow> rat list list result" where
  "floored_correlations floors shrunk =
     symmetric_matrix (length shrunk) (\<lambda>_. 1) (\<lambda>i j.
       case map_of floors (i, j) of
         None \<Rightarrow> Inl KeyError
       | Some floor_value \<Rightarrow> Inr (clamped_correlation (max (cell shrunk i j) floor_value)))"

definition blended_matrix :: "rat list list \<Rightarrow> rat \<Rightarrow> rat \<Rightarrow> rat list list" where
  "blended_matrix floored target blend =
     map (\<lambda>i. map (\<lambda>j. if i = j then 1
         else madd (mmul (msub 1 blend) (cell floored i j)) (mmul blend target)) [0..<length floored])
       [0..<length floored]"

fun repair_ladder :: "rat list list \<Rightarrow> rat \<Rightarrow> rat list \<Rightarrow> (rat list list \<times> rat) result" where
  "repair_ladder floored target [] = Inl (RiskModelError ''no blend'')"
| "repair_ladder floored target (blend # ladder) =
     and_then (is_positive_definite (blended_matrix floored target blend)) (\<lambda>definite.
       if definite then Inr (blended_matrix floored target blend, blend) else repair_ladder floored target ladder)"

definition target_level :: "rat list list \<Rightarrow> rat" where
  "target_level floored =
     max (case map (\<lambda>(i, j). cell floored i j) (upper_pairs (length floored)) of
            [] \<Rightarrow> 0 | x # xs \<Rightarrow> foldl max x xs) 0"

definition repaired_to_positive_definite :: "rat list list \<Rightarrow> (rat list list \<times> rat) result" where
  "repaired_to_positive_definite floored =
     (if length floored = 1 then Inr ([[1]], 0) else repair_ladder floored (target_level floored) PSD_REPAIR_LADDER)"

definition repaired_correlations ::
  "string list \<Rightarrow> rat list list \<Rightarrow> ((nat \<times> nat) \<times> rat) list \<Rightarrow> (rat list \<times> rat \<times> rat list list \<times> rat) result" where
  "repaired_correlations symbols series floors =
     and_then (ewma_weights (length (hd series))) (\<lambda>weights.
       let covariance = ewma_covariance series weights in
     and_then (estimated_volatilities covariance (length symbols)) (\<lambda>volatilities.
     and_then (sample_correlations covariance volatilities) (\<lambda>sample.
     and_then (mean_off_diagonal sample) (\<lambda>mean_correlation.
     and_then (shrinkage_intensity series weights covariance volatilities mean_correlation) (\<lambda>intensity.
     and_then (shrunk_correlations sample mean_correlation intensity) (\<lambda>shrunk.
     and_then (floored_correlations floors shrunk) (\<lambda>floored.
     and_then (repaired_to_positive_definite floored) (\<lambda>(repaired, repair_ratio).
       Inr (volatilities, intensity, repaired, repair_ratio)))))))))"

definition matrix_table :: "string list \<Rightarrow> rat list list \<Rightarrow> table" where
  "matrix_table symbols rows = map (\<lambda>(a, row). (a, zip symbols row)) (zip symbols rows)"

definition estimate_risk_model :: "series_table \<Rightarrow> stress_table \<Rightarrow> rat \<Rightarrow> risk_model result" where
  "estimate_risk_model daily_returns stress cut_correlation =
     and_then (validated_series daily_returns) (\<lambda>(symbols, series).
     and_then (validated_stress_floors symbols stress) (\<lambda>floors.
     and_then (repaired_correlations symbols series floors) (\<lambda>(volatilities, intensity, repaired, repair_ratio).
     and_then (new_correlation_matrix symbols (matrix_table symbols repaired)) (\<lambda>matrix.
     and_then (cluster_by_correlation matrix cut_correlation) (\<lambda>found.
       construct risk_model_post_init
         \<lparr>model_symbols = symbols, daily_volatility_ratio = zip symbols volatilities, correlations = matrix,
          shrinkage_intensity_ratio = intensity, psd_repair_ratio = repair_ratio, clusters = found\<rparr>)))))"

section \<open>Rounding at 50 digits\<close>

lemma round_half_even_nonneg: "0 \<le> x \<Longrightarrow> 0 \<le> round_half_even x"
  using round_half_even_mono [of 0 x] by simp

lemma round_at_nonneg: "0 \<le> x \<Longrightarrow> 0 \<le> round_at prec x"
  unfolding round_at_def
  by (auto intro!: mult_nonneg_nonneg round_half_even_nonneg divide_nonneg_nonneg less_imp_le [OF unit_at_pos])

lemma power_unit_at: "10 ^ k * unit_at prec e = 10 powi (int k + (e - (int prec - 1)))"
  by (simp only: unit_at_def power_int_of_nat [symmetric] power_int_add [OF disjI1 [OF rel_simps(75)]])

lemma round_at_le_powi:
  assumes "0 < x" "1 \<le> prec"
  shows "round_at prec x \<le> 10 powi (adjusted x + 1)"
proof -
  let ?u = "unit_at prec (adjusted x)"
  have p: "of_int (10 ^ prec) * ?u = 10 powi (adjusted x + 1)"
    using power_unit_at [of prec prec "adjusted x"] by (simp add: add.commute)
  have "x \<le> 10 powi (adjusted x + 1)" using adjusted_bounds(2) [of x] assms(1) by simp
  then have "x / ?u \<le> of_int (10 ^ prec)" unfolding p [symmetric] by (simp add: pos_divide_le_eq)
  from round_half_even_mono [OF this] have "round_half_even (x / ?u) \<le> 10 ^ prec"
    by (simp only: round_half_even_of_int)
  then have "of_int (round_half_even (x / ?u)) * ?u \<le> of_int (10 ^ prec) * ?u"
    by (intro mult_right_mono less_imp_le [OF unit_at_pos]) (simp only: of_int_le_iff)
  then show ?thesis using assms(1) unfolding p by (simp add: round_at_def)
qed

lemma round_at_pos:
  assumes "0 < x" "1 \<le> prec" shows "0 < round_at prec x"
proof -
  have "5 * \<bar>x\<bar> / 10 ^ prec < \<bar>x\<bar>"
  proof -
    have "(10 :: rat) ^ 1 \<le> 10 ^ prec" using assms(2) by (intro power_increasing) simp_all
    then have "5 * \<bar>x\<bar> < \<bar>x\<bar> * 10 ^ prec" using assms(1) mult_left_mono [of 10 "10 ^ prec" "\<bar>x\<bar>"] by simp
    then show ?thesis by (simp add: pos_divide_less_eq)
  qed
  then show ?thesis using round_at_relative [OF assms(2), of x] assms(1) by (simp add: abs_le_iff)
qed

lemma round_at_le_one:
  assumes "0 \<le> x" "x \<le> 1" "1 \<le> prec" shows "round_at prec x \<le> 1"
proof (cases "x = 1")
  case True
  have "adjusted 1 = 0" by (rule adjusted_unique) simp_all
  have "10 ^ (prec - 1) * unit_at prec 0 = 1"
    using power_unit_at [of "prec - 1" prec 0] assms(3) by (simp add: of_nat_diff)
  then have unit: "of_int (10 ^ (prec - 1)) * unit_at prec 0 = 1" by simp
  then have "1 / unit_at prec 0 = of_int (10 ^ (prec - 1))" using unit_at_pos [of prec 0] by (simp add: divide_eq_eq)
  then have "round_half_even (1 / unit_at prec 0) = 10 ^ (prec - 1)" by (simp only: round_half_even_of_int)
  moreover note unit
  ultimately show ?thesis using True \<open>adjusted 1 = 0\<close> by (simp add: round_at_def)
next
  case False
  show ?thesis
  proof (cases "x = 0")
    case True
    then show ?thesis by simp
  next
    case nz: False
    have "10 powi adjusted x \<le> x" using adjusted_bounds(1) [OF nz] assms(1) by simp
    then have "(10 :: rat) powi adjusted x < 10 powi 0" using assms(2) False by simp
    then have "adjusted x < 0" by (rule powi10_less_cancel)
    then have "(10 :: rat) powi (adjusted x + 1) \<le> 10 powi 0" by (intro power_int_increasing) simp_all
    then show ?thesis using round_at_le_powi [of x prec] assms nz by simp
  qed
qed

lemma math_precision [simp]: "1 \<le> MATH_PRECISION" "Suc 0 \<le> MATH_PRECISION"
  by (simp_all add: MATH_PRECISION_def)

lemma mdiv_total: "y \<noteq> 0 \<Longrightarrow> \<exists>r. mdiv x y = Inr r"
  by (simp add: mdiv_def)

lemma correlation_distance_total:
  assumes "- 1 \<le> r" "r \<le> 1" "1 \<le> prec"
  shows "\<exists>d. correlation_distance prec r = Inr d"
proof -
  have "\<not> round_at prec \<bar>r\<bar> > 1" using round_at_le_one [of "\<bar>r\<bar>" prec] assms by (simp add: abs_le_iff not_less)
  moreover have "0 \<le> mmul (1 / 2) (msub 1 r)"
    unfolding mmul_def msub_def using assms(2) by (intro round_at_nonneg mult_nonneg_nonneg) simp_all
  ultimately show ?thesis using sqrt_at_total by (simp add: correlation_distance_def)
qed

section \<open>Clustering returns a partition\<close>

lemma set_upper_pairs: "set (upper_pairs n) = {(i, j). i < j \<and> j < n}"
  by (force simp: upper_pairs_def image_iff)

lemma closest_pair_in:
  assumes "2 \<le> length d" "closest_pair d = (i, j)"
  shows "i < j" "j < length d"
proof -
  let ?step = "\<lambda>(closest, smallest) (i, j). if cell d i j < smallest then ((i, j), cell d i j) else (closest, smallest)"
  have "fst (foldl ?step (p, x) ps) \<in> insert p (set ps)" for p x ps
    by (induction ps arbitrary: p x) (auto split: prod.splits if_splits)
  then have "closest_pair d \<in> insert (0, 1) (set (upper_pairs (length d)))" by (simp add: closest_pair_def)
  then have "(i, j) \<in> insert (0, 1) {(i, j). i < j \<and> j < length d}" by (simp only: assms(2) set_upper_pairs)
  then show "i < j" "j < length d" using assms(1) by auto
qed

lemma blend_distances_total:
  assumes "0 < w1" "0 < w2"
  shows "\<exists>d'. blend_distances w1 w2 i j others d = Inr d' \<and> length d' = length d"
proof (induction others arbitrary: d)
  case (Cons other others)
  have "madd w1 w2 \<noteq> 0" using round_at_pos [of "w1 + w2" MATH_PRECISION] assms by (auto simp: madd_def)
  from mdiv_total [OF this] obtain r where
    "mdiv (madd (mmul w1 (cell d i other)) (mmul w2 (cell d j other))) (madd w1 w2) = Inr r" by blast
  then show ?case
    using Cons.IH [of d] Cons.IH [of "set_cell (set_cell d i other r) other i r"]
    by (cases "other = i \<or> other = j") (simp_all add: set_cell_def)
qed simp

lemma mset_concat_delete:
  "j < length xs \<Longrightarrow> mset (concat xs) = mset (concat (delete_nth j xs)) + mset (xs ! j)"
  by (subst id_take_nth_drop [of j xs]) (simp_all add: delete_nth_def)

lemma mset_concat_update: "i < length xs \<Longrightarrow> mset (concat (xs[i := ys])) + mset (xs ! i) = mset (concat xs) + mset ys"
  by (subst (3) id_take_nth_drop [of i xs]) (simp_all add: upd_conv_take_nth_drop)

lemma merge_clusters_ok:
  assumes "i < j" "j < length members" "length d = length members" "[] \<notin> set members"
  shows "\<exists>members' d'. merge_clusters members d (i, j) = Inr (members', d') \<and> length d' = length members' \<and>
    [] \<notin> set members' \<and> mset (concat members') = mset (concat members) \<and> length members' < length members"
proof -
  have ne: "members ! i \<noteq> []" "members ! j \<noteq> []" using assms nth_mem by (metis less_trans)+
  then obtain d' where d': "blend_distances (of_nat (length (members ! i))) (of_nat (length (members ! j))) i j [0..<length members] d = Inr d'"
    "length d' = length d"
    using blend_distances_total [of "of_nat (length (members ! i))" "of_nat (length (members ! j))"] by fastforce
  let ?m = "members[i := members ! i @ members ! j]"
  have "mset (concat (delete_nth j ?m)) + mset (?m ! j) = mset (concat ?m)"
    using mset_concat_delete [of j ?m] assms(2) by simp
  moreover have "mset (concat ?m) + mset (members ! i) = mset (concat members) + mset (members ! i) + mset (members ! j)"
    using mset_concat_update [of i members] assms(1,2) by simp
  moreover have "?m ! j = members ! j" using assms(1) by simp
  ultimately have "mset (concat (delete_nth j ?m)) = mset (concat members)" by simp
  moreover have "[] \<notin> set (delete_nth j ?m)"
  proof -
    have "set (delete_nth j ?m) \<subseteq> set ?m" by (auto simp: delete_nth_def dest: in_set_takeD in_set_dropD)
    also have "\<dots> \<subseteq> insert (members ! i @ members ! j) (set members)" by (rule set_update_subset_insert)
    finally show ?thesis using assms(4) ne(1) by auto
  qed
  ultimately show ?thesis using assms d' by (simp add: merge_clusters_def delete_nth_def)
qed

lemma cluster_loop_partitions:
  "length d = length members \<Longrightarrow> [] \<notin> set members \<Longrightarrow>
    \<exists>groups. cluster_loop c members d = Inr groups \<and> [] \<notin> set groups \<and> mset (concat groups) = mset (concat members)"
proof (induction c members d rule: cluster_loop.induct)
  case (1 c members d)
  obtain i j where pair: "closest_pair d = (i, j)" by fastforce
  show ?case
  proof (cases "length members \<le> 1 \<or> cell d i j > c")
    case True
    then show ?thesis using 1(3) pair by (auto simp: cluster_loop.simps [of c members d])
  next
    case False
    then have "2 \<le> length d" using 1(2) by simp
    note range = closest_pair_in [OF this pair]
    obtain members' d' where merged: "merge_clusters members d (i, j) = Inr (members', d')" "length d' = length members'"
      "[] \<notin> set members'" "mset (concat members') = mset (concat members)"
      using merge_clusters_ok [OF range(1) _ 1(2,3)] range(2) 1(2) by auto
    have "\<exists>groups. cluster_loop c members' d' = Inr groups \<and> [] \<notin> set groups \<and> mset (concat groups) = mset (concat members')"
      using False pair merged(1-3) 1(1) by (metis not_less)
    then show ?thesis using False pair merged(1,4) by (simp add: cluster_loop.simps [of c members d])
  qed
qed

lemma sorted_key_hd: "sorted (map hd (sort_key hd gs))"
  by (rule sorted_sort_key)

lemma map_result_construct: "\<forall>x \<in> set xs. p x = Inr () \<Longrightarrow> map_result (construct p) xs = Inr xs"
  by (induction xs) (simp_all add: construct_ok)

lemma mset_concat_sorted: "mset (concat (sort_key hd (map sort gs))) = mset (concat gs)"
proof -
  have "mset (concat xs) = (\<Sum>x \<in># mset xs. mset x)" for xs :: "'a list list" by (induction xs) simp_all
  then show ?thesis by (simp add: image_mset.compositionality comp_def)
qed

lemma cluster_by_correlation_ok:
  assumes "- 1 \<le> c" "c \<le> 1"
    and "\<forall>a \<in> set (matrix_symbols m). \<forall>b \<in> set (matrix_symbols m). \<exists>r. correlation_between m a b = Inr r \<and> - 1 \<le> r \<and> r \<le> 1"
  shows "\<exists>cs. cluster_by_correlation m c = Inr cs \<and> mset (concat (map cluster_symbols cs)) = mset (matrix_symbols m) \<and>
    (\<forall>x \<in> set cs. cluster_post_init x = Inr ()) \<and> sorted (map cluster_id cs)"
proof -
  obtain cut_distance where cut: "correlation_distance DECIMAL_PRECISION c = Inr cut_distance"
    using correlation_distance_total [OF assms(1,2), of DECIMAL_PRECISION] by (auto simp: DECIMAL_PRECISION_def)
  have "\<exists>d. and_then (correlation_between m a b) (correlation_distance MATH_PRECISION) = Inr d"
    if "a \<in> set (matrix_symbols m)" "b \<in> set (matrix_symbols m)" for a b
    using assms(3) that correlation_distance_total [of _ MATH_PRECISION] by fastforce
  then have "\<forall>a \<in> set (matrix_symbols m). \<exists>row. map_result (\<lambda>b.
      and_then (correlation_between m a b) (correlation_distance MATH_PRECISION)) (matrix_symbols m) = Inr row"
    using map_result_totals by (metis (no_types, lifting))
  from map_result_totals [OF this] obtain d where d: "map_result (\<lambda>a. map_result (\<lambda>b.
      and_then (correlation_between m a b) (correlation_distance MATH_PRECISION)) (matrix_symbols m)) (matrix_symbols m) = Inr d"
    "length d = length (map (\<lambda>s. [s]) (matrix_symbols m))" by auto
  have "[] \<notin> set (map (\<lambda>s. [s]) (matrix_symbols m))" by auto
  from cluster_loop_partitions [OF d(2) this, of cut_distance] obtain groups where
    groups: "cluster_loop cut_distance (map (\<lambda>s. [s]) (matrix_symbols m)) d = Inr groups" "[] \<notin> set groups"
    "mset (concat groups) = mset (matrix_symbols m)" by auto
  let ?gs = "sort_key hd (map sort groups)"
  let ?cs = "map (\<lambda>g. \<lparr>cluster_id = hd g, cluster_symbols = g\<rparr>) ?gs"
  have ok: "\<forall>g \<in> set ?gs. cluster_post_init \<lparr>cluster_id = hd g, cluster_symbols = g\<rparr> = Inr ()"
    using groups(2) by (auto simp: cluster_post_init_def sorted_sort_id) (metis length_0_conv length_sort)
  then have "map_result (\<lambda>g. construct cluster_post_init \<lparr>cluster_id = hd g, cluster_symbols = g\<rparr>) ?gs = Inr ?cs"
    by (intro map_result_Inr construct_ok) blast
  then have "cluster_by_correlation m c = Inr ?cs" by (simp add: cluster_by_correlation_def cut d groups(1))
  moreover have maps: "map cluster_symbols ?cs = ?gs" "map cluster_id ?cs = map hd ?gs" by (simp_all add: comp_def)
  have "mset (concat (map cluster_symbols ?cs)) = mset (matrix_symbols m)"
    unfolding maps using mset_concat_sorted [of groups] groups(3) by simp
  moreover have "\<forall>x \<in> set ?cs. cluster_post_init x = Inr ()" using ok by (simp only: set_map ball_simps)
  moreover have "sorted (map cluster_id ?cs)" unfolding maps by (rule sorted_sort_key)
  ultimately show ?thesis by blast
qed

end
