(* ===== verification/Covariance_Model.thy ===== *)
theory Covariance_Model
  imports Covariance
begin

text \<open>
  What a model estimated by \<open>risk/covariance.py\<close> promises its clients: the clusters partition
  the universe, the stress correlations are floors under every pair of the estimate, and the
  model passes its own constructor. The last section shows that two symbols with positive
  returns always have a model, which is where the witnesses live.
\<close>


section \<open>The estimate keeps the stress floors\<close>

lemma symmetric_matrix_cells:
  assumes "symmetric_matrix n d f = Inr m"
  shows "length m = n" "i < n \<Longrightarrow> length (m ! i) = n"
    "i < n \<Longrightarrow> j < n \<Longrightarrow> (if i = j then Inr (d i) else f (min i j) (max i j)) = Inr (cell m i j)"
proof -
  note rows = map_result_nth [OF assms [unfolded symmetric_matrix_def]]
  show "length m = n" using rows(1) by simp
  assume i: "i < n"
  then have row: "map_result (\<lambda>j. if i = j then Inr (d i) else f (min i j) (max i j)) [0..<n] = Inr (m ! i)"
    using rows(2) [of i] i nth_upt [of 0 i n] by (simp only: add_0 length_upt diff_zero)
  show "length (m ! i) = n" using map_result_nth(1) [OF row] by simp
  assume "j < n"
  then show "(if i = j then Inr (d i) else f (min i j) (max i j)) = Inr (cell m i j)"
    using map_result_nth(2) [OF row, of j] nth_upt [of 0 j n]
    by (simp only: add_0 length_upt diff_zero cell_def)
qed

lemma validated_stress_floors_lookup:
  assumes "validated_stress_floors symbols t = Inr floors" "map_of floors (i, j) = Some x"
  shows "stress_floor t (symbols ! i) (symbols ! j) = Inr x"
proof -
  have "((i, j), x) \<in> set floors" using assms(2) by (rule map_of_SomeD)
  then obtain k where k: "k < length floors" "floors ! k = ((i, j), x)" by (metis in_set_conv_nth)
  note found = map_result_nth [OF assms(1) [unfolded validated_stress_floors_def]]
  have "k < length (upper_pairs (length symbols))" using k(1) found(1) by simp
  from found(2) [OF this] k(2) show ?thesis by (auto simp: and_then_Inr_iff split: prod.splits)
qed

lemma clamped_correlation_bounds:
  "min MAX_ESTIMATED_CORRELATION x \<le> clamped_correlation x" "clamped_correlation x \<le> MAX_ESTIMATED_CORRELATION"
  "\<bar>clamped_correlation x\<bar> \<le> 1"
  by (simp_all add: clamped_correlation_def MAX_ESTIMATED_CORRELATION_def min_def max_def abs_le_iff)

lemma math_error: "\<bar>x\<bar> \<le> 2 \<Longrightarrow> \<bar>round_at MATH_PRECISION x - x\<bar> \<le> 1 / 10 ^ 49"
proof -
  assume "\<bar>x\<bar> \<le> 2"
  then have "5 * \<bar>x\<bar> / 10 ^ 50 \<le> 10 / (10 ^ 50 :: rat)" by (intro divide_right_mono) simp_all
  with round_at_relative [of MATH_PRECISION x] show ?thesis by (simp add: MATH_PRECISION_def)
qed

lemma blend_keeps_floor:
  assumes "\<bar>f\<bar> \<le> 1" "f \<le> t" "t \<le> 1" "0 \<le> b" "b \<le> 1"
  shows "f - 1 / 10 ^ 48 \<le> madd (mmul (msub 1 b) f) (mmul b t)"
proof -
  define e where "e = (1 / 10 ^ 49 :: rat)"
  have e: "0 \<le> e" "4 * e \<le> 1 / 10 ^ 48" "e \<le> 1 / 10" by (simp_all add: e_def)
  have f: "- 1 \<le> f" "f \<le> 1" using assms(1) by (simp_all add: abs_le_iff)
  have "\<bar>1 - b\<bar> \<le> 2" using assms(4,5) by (simp add: abs_le_iff)
  from math_error [OF this] have s: "\<bar>msub 1 b - (1 - b)\<bar> \<le> e" by (simp add: msub_def e_def)
  have sf: "\<bar>msub 1 b * f - (1 - b) * f\<bar> \<le> e"
  proof -
    have "\<bar>msub 1 b * f - (1 - b) * f\<bar> = \<bar>msub 1 b - (1 - b)\<bar> * \<bar>f\<bar>" by (simp only: left_diff_distrib [symmetric] abs_mult)
    also have "\<dots> \<le> e * 1" using s assms(1) e(1) by (intro mult_mono) simp_all
    finally show ?thesis by simp
  qed
  have bf: "\<bar>(1 - b) * f\<bar> \<le> 1" using assms(1,4,5) mult_mono [of "\<bar>1 - b\<bar>" 1 "\<bar>f\<bar>" 1] by (simp add: abs_mult)
  then have "\<bar>msub 1 b * f\<bar> \<le> 2" using sf e(3) by linarith
  from math_error [OF this] have p: "\<bar>mmul (msub 1 b) f - msub 1 b * f\<bar> \<le> e" by (simp add: mmul_def e_def)
  have bt: "\<bar>b * t\<bar> \<le> 1" using assms f mult_mono [of "\<bar>b\<bar>" 1 "\<bar>t\<bar>" 1] by (simp add: abs_mult abs_le_iff)
  then have "\<bar>b * t\<bar> \<le> 2" by simp
  from math_error [OF this] have q: "\<bar>mmul b t - b * t\<bar> \<le> e" by (simp add: mmul_def e_def)
  have blend: "(1 - b) * f + b * t = f + b * (t - f)" by (simp add: algebra_simps)
  have gain: "0 \<le> b * (t - f)" "b * (t - f) \<le> 2"
    using assms f mult_mono [of b 1 "t - f" 2] by simp_all
  let ?x = "mmul (msub 1 b) f + mmul b t"
  have x: "f + b * (t - f) - 3 * e \<le> ?x" "?x \<le> f + b * (t - f) + 3 * e"
    using sf p q blend by (simp_all add: abs_le_iff)
  have top: "f + b * (t - f) \<le> 1" using assms(2,3,4,5) mult_right_mono [of b 1 "t - f"] by simp
  then have "\<bar>?x\<bar> \<le> 2" using x gain f e(3) by (simp add: abs_le_iff)
  from math_error [OF this] have "\<bar>madd (mmul (msub 1 b) f) (mmul b t) - ?x\<bar> \<le> e" by (simp only: madd_def e_def)
  then have "?x - e \<le> madd (mmul (msub 1 b) f) (mmul b t)" by linarith
  then show ?thesis using x(1) gain(1) e(2) by linarith
qed

lemma target_level_bounds:
  assumes "\<forall>i j. i < j \<longrightarrow> j < length m \<longrightarrow> cell m i j \<le> 1"
  shows "i < j \<Longrightarrow> j < length m \<Longrightarrow> cell m i j \<le> target_level m" "target_level m \<le> 1"
proof -
  have max: "\<forall>y \<in> set (x # xs). y \<le> foldl max x xs" "foldl max x xs \<in> set (x # xs)" for x :: rat and xs
  proof -
    show "\<forall>y \<in> set (x # xs). y \<le> foldl max x xs"
    proof (induction xs arbitrary: x)
      case (Cons a xs)
      from Cons.IH [of "max x a"] show ?case by simp
    qed simp
    show "foldl max x xs \<in> set (x # xs)"
      by (induction xs arbitrary: x) (auto simp: max_def)
  qed
  let ?cells = "map (\<lambda>(i, j). cell m i j) (upper_pairs (length m))"
  have below: "\<forall>y \<in> set ?cells. y \<le> 1" using assms by (auto simp: set_upper_pairs)
  show "target_level m \<le> 1"
    using below max(2) by (cases ?cells) (fastforce simp: target_level_def)+
  assume "i < j" "j < length m"
  then have "cell m i j \<in> set ?cells" by (force simp: set_upper_pairs)
  then show "cell m i j \<le> target_level m"
    using max(1) by (cases ?cells) (auto simp: target_level_def le_max_iff_disj)
qed

lemma repair_ladder_blend:
  "repair_ladder m t ladder = Inr (r, b) \<Longrightarrow> b \<in> set ladder \<and> r = blended_matrix m t b"
  by (induction ladder) (auto simp: and_then_Inr_iff split: if_splits)

lemma repaired_keeps_floor:
  assumes "repaired_to_positive_definite m = Inr (r, b)" "\<forall>i j. i < j \<longrightarrow> j < length m \<longrightarrow> \<bar>cell m i j\<bar> \<le> 1"
    and "i < j" "j < length m"
  shows "cell m i j - 1 / 10 ^ 48 \<le> cell r i j"
proof -
  have "length m \<noteq> 1" using assms(3,4) by simp
  then have r: "b \<in> set PSD_REPAIR_LADDER" "r = blended_matrix m (target_level m) b"
    using assms(1) repair_ladder_blend by (auto simp: repaired_to_positive_definite_def)
  have b: "0 \<le> b" "b \<le> 1" using r(1) by (auto simp: PSD_REPAIR_LADDER_def)
  have "\<forall>i j. i < j \<longrightarrow> j < length m \<longrightarrow> cell m i j \<le> 1" using assms(2) by (auto simp: abs_le_iff)
  note t = target_level_bounds [OF this]
  have "cell r i j = madd (mmul (msub 1 b) (cell m i j)) (mmul b (target_level m))"
    using assms(3,4) by (simp add: r(2) blended_matrix_def cell_def)
  then show ?thesis using blend_keeps_floor [OF _ t(1) t(2) b, of i j] assms(2-4) by simp
qed

lemma get_entry_matrix_table:
  assumes "distinct symbols" "length rows = length symbols" "\<forall>row \<in> set rows. length row = length symbols"
    and "i < length symbols" "j < length symbols"
  shows "get_entry (matrix_table symbols rows) (symbols ! i) (symbols ! j) = Some (cell rows i j)"
proof -
  have zip: "map_of (zip symbols (map f rows')) (symbols ! k) = Some (f (rows' ! k))"
    if "length rows' = length symbols" "k < length symbols" for f :: "'a \<Rightarrow> 'b" and rows' k
    using that assms(1) by (intro map_of_is_SomeI) (auto simp: in_set_zip)
  have table: "matrix_table symbols rows = zip symbols (map (zip symbols) rows)"
    by (simp add: matrix_table_def zip_map2 split_beta)
  have "map_of (zip symbols (rows ! i)) (symbols ! j) = Some (rows ! i ! j)"
    using zip [of "rows ! i" j "\<lambda>x. x"] assms(2-5) nth_mem [of i rows] by simp
  then show ?thesis using zip [of rows i "zip symbols"] assms(2,4) by (simp add: get_entry_def table cell_def)
qed

lemma new_correlation_matrix_entries:
  assumes "new_correlation_matrix symbols t = Inr m"
  shows "matrix_symbols m = symbols" "distinct symbols" "sorted symbols" "symbols \<noteq> []"
    "a \<in> set symbols \<Longrightarrow> b \<in> set symbols \<Longrightarrow> get_entry (entries m) a b = get_entry t a b"
    "a \<in> set symbols \<Longrightarrow> b \<in> set symbols \<Longrightarrow> \<exists>x. get_entry t a b = Some x \<and> get_entry t b a = Some x \<and>
      dabs x \<le> 1 \<and> (a = b \<longrightarrow> x = 1)"
proof -
  obtain t' where m: "m = \<lparr>matrix_symbols = symbols, entries = t'\<rparr>" "restricted_table t symbols = Inr t'"
    and checks: "symbols \<noteq> []" "sort symbols = symbols" "card (set symbols) = length symbols"
      "\<forall>a \<in> set symbols. validate_row t symbols a = Inr ()"
    using assms by (auto simp: new_correlation_matrix_def and_then_Inr_iff run_checks_ok)
  show "matrix_symbols m = symbols" by (simp add: m)
  show "symbols \<noteq> []" by (fact checks)
  show "sorted symbols" using checks(2) by (metis sorted_sort)
  show dist: "distinct symbols" using checks(3) by (rule card_distinct)
  assume a: "a \<in> set symbols" and b: "b \<in> set symbols"
  have "validate_row t symbols a = Inr ()" using checks(4) a by blast
  then obtain row where row: "map_of t a = Some row" "\<forall>b \<in> set symbols. validate_entry t row a b = Inr ()"
    by (auto simp: validate_row_def run_checks_ok split: option.splits)
  then have "validate_entry t row a b = Inr ()" using b by blast
  then obtain x where x: "map_of row b = Some x" "\<not> dabs x > 1" "\<not> (a = b \<and> x \<noteq> 1)" "get_entry t b a = Some x"
    by (auto simp: validate_entry_def split: option.splits)
  have at: "get_entry t a b = Some x" using row(1) x(1) by (simp add: get_entry_def)
  then show "\<exists>x. get_entry t a b = Some x \<and> get_entry t b a = Some x \<and> dabs x \<le> 1 \<and> (a = b \<longrightarrow> x = 1)"
    using x(2-4) by (auto simp: not_less)
  obtain i j where i: "i < length symbols" "symbols ! i = a" and j: "j < length symbols" "symbols ! j = b"
    using a b by (metis in_set_conv_nth)
  note rows = map_result_nth [OF m(2) [unfolded restricted_table_def]]
  obtain row' where row': "t' ! i = (a, row')" "map_result (\<lambda>b. and_then (entry_at t a b) (\<lambda>x. Inr (b, x))) symbols = Inr row'"
    using rows(2) [OF i(1)] unfolding i(2) and_then_Inr_iff by (metis sum.inject(2))
  have "fst (t' ! k) = symbols ! k" if "k < length symbols" for k
    using rows(2) [OF that] unfolding and_then_Inr_iff by (metis sum.inject(2) fst_conv)
  then have fst_rows: "map fst t' = symbols" using rows(1) by (simp add: list_eq_iff_nth_eq)
  have "map_of t' a = Some row'"
    using row'(1) i(1) rows(1) dist fst_rows by (metis map_of_eq_Some_iff nth_mem)
  moreover note cells = map_result_nth [OF row'(2)]
  have "fst (row' ! k) = symbols ! k" if "k < length symbols" for k
    using cells(2) [OF that] unfolding and_then_Inr_iff by (metis sum.inject(2) fst_conv)
  then have "map fst row' = symbols" using cells(1) by (simp add: list_eq_iff_nth_eq)
  then have "map_of row' b = Some x"
    using cells(1) cells(2) [OF j(1)] j at dist row(1) x(1)
    by (intro map_of_is_SomeI) (auto simp: and_then_Inr_iff entry_at_def in_set_conv_nth intro!: exI [of _ j])
  ultimately show "get_entry (entries m) a b = get_entry t a b" by (simp add: m get_entry_def at [unfolded get_entry_def] at)
qed

lemma repaired_correlations_floors:
  assumes "repaired_correlations symbols series floors = Inr (volatilities, intensity, repaired, repair_ratio)"
  shows "length repaired = length symbols" "\<forall>row \<in> set repaired. length row = length symbols"
    "i < j \<Longrightarrow> j < length symbols \<Longrightarrow>
      \<exists>x. map_of floors (i, j) = Some x \<and> min MAX_ESTIMATED_CORRELATION x - 1 / 10 ^ 48 \<le> cell repaired i j"
proof -
  obtain weights sample mean_correlation shrunk floored where
    v: "estimated_volatilities (ewma_covariance series weights) (length symbols) = Inr volatilities" and
    sample: "sample_correlations (ewma_covariance series weights) volatilities = Inr sample" and
    shrunk: "shrunk_correlations sample mean_correlation intensity = Inr shrunk" and
    floored: "floored_correlations floors shrunk = Inr floored" and
    repaired: "repaired_to_positive_definite floored = Inr (repaired, repair_ratio)"
    using assms by (auto simp: repaired_correlations_def and_then_Inr_iff Let_def)
  let ?n = "length symbols"
  have "length volatilities = ?n" using map_result_nth(1) [OF v [unfolded estimated_volatilities_def]] by simp
  then have "length sample = ?n" using symmetric_matrix_cells(1) [OF sample [unfolded sample_correlations_def]] by simp
  then have n: "length shrunk = ?n" using symmetric_matrix_cells(1) [OF shrunk [unfolded shrunk_correlations_def]] by simp
  note cells = symmetric_matrix_cells [OF floored [unfolded floored_correlations_def], unfolded n]
  have entry: "\<exists>x. map_of floors (i, j) = Some x \<and> cell floored i j = clamped_correlation (max (cell shrunk i j) x)"
    if "i < j" "j < ?n" for i j
    using cells(3) [of i j] that by (auto split: option.splits)
  have shape: "length repaired = ?n \<and> (\<forall>row \<in> set repaired. length row = ?n)"
  proof (cases "?n = 1")
    case True
    then show ?thesis using repaired cells(1) by (auto simp: repaired_to_positive_definite_def)
  next
    case False
    then have "repaired = blended_matrix floored (target_level floored) repair_ratio"
      using repaired cells(1) repair_ladder_blend by (auto simp: repaired_to_positive_definite_def)
    then show ?thesis using cells(1) by (simp add: blended_matrix_def)
  qed
  then show "length repaired = ?n" "\<forall>row \<in> set repaired. length row = ?n" by simp_all
  assume ij: "i < j" "j < ?n"
  obtain x where x: "map_of floors (i, j) = Some x" "cell floored i j = clamped_correlation (max (cell shrunk i j) x)"
    using entry [OF ij] by auto
  have "\<forall>i j. i < j \<longrightarrow> j < length floored \<longrightarrow> \<bar>cell floored i j\<bar> \<le> 1"
    using entry clamped_correlation_bounds(3) cells(1) by metis
  from repaired_keeps_floor [OF repaired this ij(1)] ij(2) cells(1)
  have "cell floored i j - 1 / 10 ^ 48 \<le> cell repaired i j" by simp
  moreover have "min MAX_ESTIMATED_CORRELATION x \<le> cell floored i j"
    using clamped_correlation_bounds(1) [of "max (cell shrunk i j) x"] unfolding x(2) by (simp add: min_def max_def split: if_splits)
  ultimately show "\<exists>x. map_of floors (i, j) = Some x \<and> min MAX_ESTIMATED_CORRELATION x - 1 / 10 ^ 48 \<le> cell repaired i j"
    using x(1) by force
qed

section \<open>Properties\<close>

text \<open>
  C20. Clustering always returns a partition. For a correlation matrix its constructor accepts,
  with entries and cut in [-1, 1], average-linkage clustering ends and returns clusters the
  constructor accepts, in the order of their ids, that hold every symbol of the universe exactly
  once.
\<close>

theorem clusters_partition_the_universe:
  assumes "new_correlation_matrix symbols t = Inr m" "- 1 \<le> c" "c \<le> 1"
    and "\<forall>a b x. get_entry t a b = Some x \<longrightarrow> - 1 \<le> x \<and> x \<le> 1"
  shows "\<exists>cs. cluster_by_correlation m c = Inr cs \<and> list_all (\<lambda>x. cluster_post_init x = Inr ()) cs \<and>
    distinct (concat (map cluster_symbols cs)) \<and> set (concat (map cluster_symbols cs)) = set symbols \<and>
    sorted (map cluster_id cs)"
proof -
  note m = new_correlation_matrix_entries [OF assms(1)]
  have "\<forall>a \<in> set (matrix_symbols m). \<forall>b \<in> set (matrix_symbols m). \<exists>r. correlation_between m a b = Inr r \<and> - 1 \<le> r \<and> r \<le> 1"
  proof (intro ballI)
    fix a b assume ab: "a \<in> set (matrix_symbols m)" "b \<in> set (matrix_symbols m)"
    then obtain x where "get_entry t a b = Some x" using m(6) [of a b] by (auto simp: m(1))
    then show "\<exists>r. correlation_between m a b = Inr r \<and> - 1 \<le> r \<and> r \<le> 1"
      using m(5) [of a b] ab assms(4) by (simp add: m(1) correlation_between_def)
  qed
  from cluster_by_correlation_ok [OF assms(2,3) this] obtain cs where cs: "cluster_by_correlation m c = Inr cs"
    "mset (concat (map cluster_symbols cs)) = mset symbols" "\<forall>x \<in> set cs. cluster_post_init x = Inr ()" "sorted (map cluster_id cs)"
    by (auto simp: m(1))
  moreover have "distinct (concat (map cluster_symbols cs))" "set (concat (map cluster_symbols cs)) = set symbols"
    using cs(2) m(2) by (metis mset_eq_imp_distinct_iff) (rule mset_eq_setD [OF cs(2)])
  ultimately show ?thesis by (auto simp: list_all_iff)
qed

text \<open>
  C12. The stress floors survive the estimate. In a model estimated from return series, the
  correlation of two symbols is at least the stress floor given for the pair, capped at 0.999:
  neither the shrinkage nor the repair towards a positive definite matrix lowers it, but for
  the rounding of four operations at 50 digits. The model is one its constructor accepts.
\<close>

theorem stress_floors_survive:
  assumes "estimate_risk_model daily_returns stress c = Inr model"
    and "i < j" "j < length (model_symbols model)"
    and "stress_floor stress (model_symbols model ! i) (model_symbols model ! j) = Inr floor_value"
  shows "risk_model_post_init model = Inr () \<and>
    (\<exists>r. correlation_between (correlations model) (model_symbols model ! i) (model_symbols model ! j) = Inr r \<and>
      min MAX_ESTIMATED_CORRELATION floor_value - 1 / 10 ^ 48 \<le> r)"
proof -
  obtain symbols series floors volatilities intensity repaired repair_ratio matrix found where
    e: "validated_series daily_returns = Inr (symbols, series)" "validated_stress_floors symbols stress = Inr floors"
    "repaired_correlations symbols series floors = Inr (volatilities, intensity, repaired, repair_ratio)"
    "new_correlation_matrix symbols (matrix_table symbols repaired) = Inr matrix"
    "model_symbols model = symbols" "correlations model = matrix" "risk_model_post_init model = Inr ()"
    using assms(1) by (auto simp: estimate_risk_model_def and_then_Inr_iff)
  note repaired = repaired_correlations_floors [OF e(3)]
  note matrix = new_correlation_matrix_entries [OF e(4)]
  have ij: "i < length symbols" "j < length symbols" using assms(2,3) by (simp_all add: e(5))
  obtain x where x: "map_of floors (i, j) = Some x" "min MAX_ESTIMATED_CORRELATION x - 1 / 10 ^ 48 \<le> cell repaired i j"
    using repaired(3) [OF assms(2) ij(2)] by auto
  have "x = floor_value" using validated_stress_floors_lookup [OF e(2) x(1)] assms(4) by (simp add: e(5))
  moreover have "correlation_between matrix (symbols ! i) (symbols ! j) = Inr (cell repaired i j)"
    using matrix(5) [of "symbols ! i" "symbols ! j"] ij
      get_entry_matrix_table [OF matrix(2) repaired(1,2) ij] by (simp add: correlation_between_def)
  ultimately show ?thesis using x(2) e(7) by (simp add: e(5,6))
qed


section \<open>A model of two symbols\<close>

lemma foldl_madd_pos: "0 \<le> a \<Longrightarrow> \<forall>x \<in> set xs. 0 < x \<Longrightarrow> xs \<noteq> [] \<or> 0 < a \<Longrightarrow> 0 < foldl madd a xs"
proof (induction xs arbitrary: a)
  case (Cons x xs)
  then have "0 < madd a x" unfolding madd_def by (intro round_at_pos) auto
  then show ?case using Cons by simp
qed simp

lemma msum_pos: "xs \<noteq> [] \<Longrightarrow> \<forall>x \<in> set xs. 0 < x \<Longrightarrow> 0 < msum xs"
  unfolding msum_def by (rule foldl_madd_pos) simp_all

lemma mmul_pos: "0 < x \<Longrightarrow> 0 < y \<Longrightarrow> 0 < mmul x y"
  unfolding mmul_def by (intro round_at_pos) simp_all

lemma mdiv_pos: "0 < x \<Longrightarrow> 0 < y \<Longrightarrow> \<exists>r > 0. mdiv x y = Inr r"
  by (simp add: mdiv_def round_at_pos)

lemma ewma_weights_pos: "0 < n \<Longrightarrow> \<exists>ws. ewma_weights n = Inr ws \<and> length ws = n \<and> (\<forall>w \<in> set ws. 0 < w)"
proof -
  assume n: "0 < n"
  let ?raw = "map (\<lambda>i. mpow COVARIANCE_EWMA_DECAY (n - 1 - i)) [0..<n]"
  have pos: "\<forall>w \<in> set ?raw. 0 < w" by (auto simp: mpow_def COVARIANCE_EWMA_DECAY_def intro!: round_at_pos)
  then have "0 < msum ?raw" using n by (intro msum_pos) auto
  then have "\<forall>w \<in> set ?raw. \<exists>x. mdiv w (msum ?raw) = Inr x \<and> 0 < x" using pos mdiv_pos by blast
  from map_result_total [OF this] show ?thesis by (simp add: ewma_weights_def Let_def)
qed

lemma msqrt_pos: "0 < x \<Longrightarrow> \<exists>r > 0. msqrt x = Inr r"
  using sqrt_at_total [of x MATH_PRECISION] sqrt_at_bounds(1) [of MATH_PRECISION x] by fastforce

lemma weighted_products_pos:
  assumes "ws \<noteq> []" "length xs = length ws" "length ys = length ws" "\<forall>x \<in> set ws \<union> set xs \<union> set ys. 0 < x"
  shows "0 < weighted_products ws xs ys"
proof -
  have "0 < mmul (mmul w x) y" if "(w, x, y) \<in> set (zip ws (zip xs ys))" for w x y
  proof -
    have "w \<in> set ws" "x \<in> set xs" "y \<in> set ys" using that by (meson set_zip_leftD set_zip_rightD)+
    then show ?thesis using assms(4) by (intro mmul_pos) blast+
  qed
  then show ?thesis using assms(1-3) unfolding weighted_products_def by (intro msum_pos) (auto simp: zip_eq_Nil_iff)
qed

lemma shrinkage_total:
  assumes "\<forall>w \<in> set weights. 0 < w" "weights \<noteq> []" "\<forall>v \<in> set volatilities. 0 < v" "length volatilities = length series"
  shows "\<exists>x. shrinkage_intensity series weights covariance volatilities mean_correlation = Inr x"
proof (cases "length series < PAIRWISE_MINIMUM \<or> target_dispersion covariance volatilities mean_correlation \<le> 0")
  case True
  then show ?thesis by (auto simp: shrinkage_intensity_def Let_def)
next
  case False
  let ?pairs = "filter (\<lambda>(i, j). i \<noteq> j) (ordered_pairs (length series))"
  let ?pair_term = "off_diagonal_term series weights covariance volatilities mean_correlation"
  have "\<forall>p \<in> set ?pairs. \<exists>x. ?pair_term p = Inr x"
  proof
    fix p assume "p \<in> set ?pairs"
    then obtain i j where p: "p = (i, j)" "i < length volatilities" "j < length volatilities"
      using assms(4) by (auto simp: ordered_pairs_def)
    then obtain ratio where ratio: "0 < ratio" "mdiv (volatilities ! j) (volatilities ! i) = Inr ratio"
      using mdiv_pos assms(3) by (meson nth_mem)
    then have "ratio \<noteq> 0" by simp
    from mdiv_total [OF this, of "cross_sum series weights covariance (j, i)"] ratio(2)
    show "\<exists>x. ?pair_term p = Inr x" by (auto simp: off_diagonal_term_def p(1))
  qed
  from map_result_totals [OF this] obtain terms where terms: "map_result ?pair_term ?pairs = Inr terms" by auto
  have "0 < msum (map (\<lambda>w. mmul w w) weights)" using assms(1,2) by (intro msum_pos) (auto intro!: mmul_pos)
  then obtain effective where effective: "0 < effective" "mdiv 1 (msum (map (\<lambda>w. mmul w w) weights)) = Inr effective"
    using mdiv_pos [of 1] by auto
  have "mdiv x (target_dispersion covariance volatilities mean_correlation) =
      Inr (round_at MATH_PRECISION (x / target_dispersion covariance volatilities mean_correlation))"
    "mdiv x effective = Inr (round_at MATH_PRECISION (x / effective))" for x
    using False effective(1) by (simp_all add: mdiv_def)
  then show ?thesis using False terms effective(2) by (simp add: shrinkage_intensity_def Let_def)
qed

lemma round_at_one: "1 \<le> prec \<Longrightarrow> round_at prec 1 = 1"
proof -
  assume prec: "1 \<le> prec"
  have "adjusted 1 = 0" by (rule adjusted_unique) simp_all
  have "10 ^ (prec - 1) * unit_at prec 0 = 1"
    using power_unit_at [of "prec - 1" prec 0] prec by (simp add: of_nat_diff)
  then have unit: "of_int (10 ^ (prec - 1)) * unit_at prec 0 = 1" by simp
  then have "1 / unit_at prec 0 = of_int (10 ^ (prec - 1))" using unit_at_pos [of prec 0] by (simp add: divide_eq_eq)
  then have "round_half_even (1 / unit_at prec 0) = 10 ^ (prec - 1)" by (simp only: round_half_even_of_int)
  with unit show ?thesis by (simp add: round_at_def \<open>adjusted 1 = 0\<close>)
qed

lemma msqrt_one: "msqrt 1 = Inr 1"
  by code_simp

lemma pair_positive_definite:
  assumes "\<bar>f\<bar> \<le> 9991 / 10000"
  shows "is_positive_definite [[1, f], [f, 1]] = Inr True"
proof -
  have one: "msub 1 0 = 1" by (simp add: msub_def round_at_one)
  define y where "y = round_at MATH_PRECISION (msub f 0)"
  have scale: "\<bar>round_at MATH_PRECISION x\<bar> \<le> \<bar>x\<bar> * (100001 / 100000)" for x
  proof -
    have "5 * \<bar>x\<bar> / 10 ^ MATH_PRECISION \<le> \<bar>x\<bar> / 100000" by (simp add: MATH_PRECISION_def divide_simps)
    then have "\<bar>round_at MATH_PRECISION x - x\<bar> \<le> \<bar>x\<bar> / 100000"
      using round_at_relative [of MATH_PRECISION x] by simp
    then show ?thesis by linarith
  qed
  have "\<bar>y\<bar> \<le> \<bar>f\<bar> * (100001 / 100000) * (100001 / 100000)"
    using scale [of f] scale [of "msub f 0"] unfolding y_def by (simp add: msub_def)
  then have y: "\<bar>y\<bar> \<le> 9992 / 10000" using assms by simp
  then have "\<bar>y\<bar> * \<bar>y\<bar> \<le> (9992 / 10000) * (9992 / 10000)" by (intro mult_mono) simp_all
  then have "\<bar>mmul y y\<bar> \<le> (9992 / 10000) * (9992 / 10000) * (100001 / 100000)"
    using scale [of "y * y"] unfolding mmul_def abs_mult by linarith
  then have "\<bar>madd 0 (mmul y y)\<bar> \<le> (9992 / 10000) * (9992 / 10000) * (100001 / 100000) * (100001 / 100000)"
    using scale [of "mmul y y"] unfolding madd_def by simp
  then have "madd 0 (mmul y y) \<le> 9994 / 10000" by (simp add: abs_le_iff)
  then have pivot: "0 < msub 1 (madd 0 (mmul y y))" unfolding msub_def by (intro round_at_pos) simp_all
  have "inner_sum [] xs = 0" "inner_sum [] [] = 0" "inner_sum [y] [y] = madd 0 (mmul y y)" for xs
    by (simp_all add: inner_sum_def msum_def)
  moreover obtain d where "msqrt (msub 1 (madd 0 (mmul y y))) = Inr d" using msqrt_pos [OF pivot] by auto
  moreover have "mdiv (msub f 0) 1 = Inr y" by (simp add: mdiv_def y_def)
  ultimately show ?thesis using pivot
    by (simp add: is_positive_definite_def one msqrt_one not_le)
qed

lemma pair_correlations:
  assumes ws: "ewma_weights (length xs) = Inr ws" and "xs \<noteq> []" "length ys = length xs" "\<forall>x \<in> set xs \<union> set ys. 0 < x"
    and "map_of floors (0, 1) = Some x"
  shows "\<exists>v1 v2 intensity f. 0 < v1 \<and> 0 < v2 \<and> \<bar>f\<bar> \<le> 9991 / 10000 \<and>
    repaired_correlations [a, b] [xs, ys] floors = Inr ([v1, v2], intensity, [[1, f], [f, 1]], 0)"
proof -
  have w: "ws \<noteq> []" "length ws = length xs" "\<forall>w \<in> set ws. 0 < w"
    using ewma_weights_pos [of "length xs"] assms(1,2) by auto
  let ?cov = "ewma_covariance [xs, ys] ws"
  have cells: "cell ?cov i j = weighted_products ws ([xs, ys] ! min i j) ([xs, ys] ! max i j)" if "i < 2" "j < 2" for i j
    using that by (auto simp: ewma_covariance_def cell_def less_2_cases_iff)
  have "0 < weighted_products ws xs xs" "0 < weighted_products ws ys ys"
    using w assms(3,4) by (auto intro!: weighted_products_pos)
  then have diag: "0 < cell ?cov 0 0" "0 < cell ?cov 1 1"
    using cells [of 0 0] cells [of 1 1] by simp_all
  obtain v1 v2 where v: "0 < v1" "msqrt (cell ?cov 0 0) = Inr v1" "0 < v2" "msqrt (cell ?cov 1 1) = Inr v2"
    using msqrt_pos diag by meson
  have vols: "estimated_volatilities ?cov 2 = Inr [v1, v2]"
    using v diag by (simp add: estimated_volatilities_def not_le numeral_2_eq_2)
  have "mmul v1 v2 \<noteq> 0" using mmul_pos [OF v(1,3)] by simp
  then obtain c where c: "mdiv (cell ?cov 0 1) (mmul v1 v2) = Inr c" using mdiv_total by blast
  let ?c = "max (- 1) (min 1 c)"
  have two: "[0..<2] = [0, 1]" by (simp add: numeral_2_eq_2)
  have sym: "symmetric_matrix 2 d g = and_then (g 0 1) (\<lambda>y. Inr [[d 0, y], [y, d 1]])" for d g
    by (cases "g 0 1") (simp_all add: symmetric_matrix_def two)
  have sample: "sample_correlations ?cov [v1, v2] = Inr [[1, ?c], [?c, 1]]"
    using c by (simp add: sample_correlations_def sym numeral_2_eq_2 [symmetric])
  obtain mean where mean: "mean_off_diagonal [[1, ?c], [?c, 1]] = Inr mean"
    by (simp add: mean_off_diagonal_def mdiv_def Let_def PAIRWISE_MINIMUM_def)
  obtain intensity where intensity: "shrinkage_intensity [xs, ys] ws ?cov [v1, v2] mean = Inr intensity"
    using shrinkage_total [of ws "[v1, v2]" "[xs, ys]" ?cov mean] w v by auto
  obtain s where shrunk: "shrunk_correlations [[1, ?c], [?c, 1]] mean intensity = Inr [[1, s], [s, 1]]"
    by (simp add: shrunk_correlations_def sym numeral_2_eq_2 [symmetric])
  define f where "f = clamped_correlation (max s x)"
  have floored: "floored_correlations floors [[1, s], [s, 1]] = Inr [[1, f], [f, 1]]"
    using assms(5) by (simp add: floored_correlations_def sym f_def cell_def numeral_2_eq_2 [symmetric])
  let ?t = "target_level [[1, f], [f, 1]]"
  define g where "g = madd (mmul (msub 1 0) f) (mmul 0 ?t)"
  have blended: "blended_matrix [[1, f], [f, 1]] ?t 0 = [[1, g], [g, 1]]"
    by (simp add: blended_matrix_def two g_def cell_def numeral_2_eq_2 [symmetric])
  have scale: "\<bar>round_at MATH_PRECISION y\<bar> \<le> \<bar>y\<bar> * (100001 / 100000)" for y
  proof -
    have "5 * \<bar>y\<bar> / 10 ^ MATH_PRECISION \<le> \<bar>y\<bar> / 100000" by (simp add: MATH_PRECISION_def divide_simps)
    then have "\<bar>round_at MATH_PRECISION y - y\<bar> \<le> \<bar>y\<bar> / 100000"
      using round_at_relative [of MATH_PRECISION y] by simp
    then show ?thesis by linarith
  qed
  have "\<bar>f\<bar> \<le> 999 / 1000" by (simp add: f_def clamped_correlation_def MAX_ESTIMATED_CORRELATION_def)
  moreover have "msub 1 0 = 1" by (simp add: msub_def round_at_one)
  ultimately have "\<bar>g\<bar> \<le> 9991 / 10000"
    using scale [of f] scale [of "mmul 1 f"] by (simp add: g_def mmul_def madd_def)
  moreover from pair_positive_definite [OF this]
  have "repaired_to_positive_definite [[1, f], [f, 1]] = Inr ([[1, g], [g, 1]], 0)"
    by (simp add: repaired_to_positive_definite_def PSD_REPAIR_LADDER_def blended)
  ultimately show ?thesis
    using vols sample mean intensity shrunk floored v(1,3) assms(1)
    by (simp add: repaired_correlations_def Let_def numeral_2_eq_2)
qed


lemma card_pair: "a \<noteq> b \<Longrightarrow> card (set [a, b]) = 2"
  by simp

lemma pair_dabs: "\<bar>f\<bar> \<le> 9991 / 10000 \<Longrightarrow> \<not> dabs f > 1"
proof -
  assume f: "\<bar>f\<bar> \<le> 9991 / 10000"
  have "5 * \<bar>\<bar>f\<bar>\<bar> / 10 ^ DECIMAL_PRECISION \<le> \<bar>f\<bar> / 100000" by (simp add: DECIMAL_PRECISION_def divide_simps)
  then have "\<bar>dabs f - \<bar>f\<bar>\<bar> \<le> \<bar>f\<bar> / 100000"
    using round_at_relative [of DECIMAL_PRECISION "\<bar>f\<bar>"] by (simp add: dabs_def context_round_at DECIMAL_PRECISION_def)
  then show ?thesis using f by linarith
qed

lemma pair_matrix:
  assumes "a < b" "\<bar>f\<bar> \<le> 9991 / 10000" "\<not> dabs 1 > 1"
  shows "new_correlation_matrix [a, b] (matrix_table [a, b] [[1, f], [f, 1]]) =
    Inr \<lparr>matrix_symbols = [a, b], entries = [(a, [(a, 1), (b, f)]), (b, [(a, f), (b, 1)])]\<rparr>"
proof -
  have ab: "a \<noteq> b" "b \<noteq> a" using assms(1) by auto
  show ?thesis using assms(1,3) ab pair_dabs [OF assms(2)]
    by (simp add: new_correlation_matrix_def matrix_table_def validate_row_def validate_entry_def restricted_table_def
        entry_at_def get_entry_def ensure_def less_imp_le run_checks.simps)
qed

lemma pair_model_total:
  assumes "a < b" "length xs = length ys" "MINIMUM_OBSERVATIONS \<le> length xs" "\<forall>x \<in> set xs \<union> set ys. 0 < x"
    and "- 1 \<le> c" "c \<le> 1" "\<bar>s\<bar> \<le> 1 \<and> \<not> dabs s > 1" "\<not> dabs 1 > 1"
  shows "\<exists>model. estimate_risk_model [(a, map Finite xs), (b, map Finite ys)] [(a, [(b, Finite s)])] c = Inr model \<and>
    model_symbols model = [a, b]"
proof -
  have ab: "a \<noteq> b" "b \<noteq> a" using assms(1) by auto
  have fin: "finite_values (map Finite zs) = Inr zs" for zs by (induction zs) simp_all
  have series: "validated_series [(a, map Finite xs), (b, map Finite ys)] = Inr ([a, b], [xs, ys])"
    using assms(1-3) ab by (simp add: validated_series_def Let_def fin)
  have floors: "validated_stress_floors [a, b] [(a, [(b, Finite s)])] = Inr [((0, 1), s)]"
    using ab assms(7) by (simp add: validated_stress_floors_def upper_pairs_def stress_floor_def get_stress_def numeral_2_eq_2)
  have ne: "xs \<noteq> []" using assms(3) by (auto simp: MINIMUM_OBSERVATIONS_def)
  then obtain ws where ws: "ewma_weights (length xs) = Inr ws" using ewma_weights_pos [of "length xs"] by auto
  obtain v1 v2 intensity f where r: "0 < v1" "0 < v2" "\<bar>f\<bar> \<le> 9991 / 10000"
    "repaired_correlations [a, b] [xs, ys] [((0, 1), s)] = Inr ([v1, v2], intensity, [[1, f], [f, 1]], 0)"
    using pair_correlations [OF ws ne, of ys "[((0, 1), s)]" s a b] assms(2,4) by auto
  define m where "m = \<lparr>matrix_symbols = [a, b], entries = [(a, [(a, 1), (b, f)]), (b, [(a, f), (b, 1)])]\<rparr>"
  have matrix: "new_correlation_matrix [a, b] (matrix_table [a, b] [[1, f], [f, 1]]) = Inr m"
    using pair_matrix [OF assms(1) r(3) assms(8)] by (simp add: m_def)
  have "\<forall>x \<in> set (matrix_symbols m). \<forall>y \<in> set (matrix_symbols m). \<exists>r. correlation_between m x y = Inr r \<and> - 1 \<le> r \<and> r \<le> 1"
    using ab r(3) by (auto simp: m_def correlation_between_def get_entry_def)
  from cluster_by_correlation_ok [OF assms(5,6) this] obtain cs where cs: "cluster_by_correlation m c = Inr cs"
    "mset (concat (map cluster_symbols cs)) = mset [a, b]" by (auto simp: m_def)
  have sorted_members: "sort (concat (map cluster_symbols cs)) = sort [a, b]"
    by (rule properties_for_sort) (simp_all only: mset_sort sorted_sort cs(2))
  define model where "model = \<lparr>model_symbols = [a, b], daily_volatility_ratio = zip [a, b] [v1, v2], correlations = m,
          shrinkage_intensity_ratio = intensity, psd_repair_ratio = 0, clusters = cs\<rparr>"
  have "matrix_rows m = Inr [[1, f], [f, 1]]"
    using ab by (simp add: matrix_rows_def m_def entry_at_def)
  then have "risk_model_post_init model = Inr ()"
    using ab r(1,2) sorted_members pair_positive_definite [OF r(3)]
    by (simp add: risk_model_post_init_def model_def m_def ensure_def run_checks.simps)
  then have "estimate_risk_model [(a, map Finite xs), (b, map Finite ys)] [(a, [(b, Finite s)])] c = Inr model"
    using series floors r(4) matrix cs(1) by (simp add: estimate_risk_model_def construct_def model_def)
  then show ?thesis by (auto simp: model_def)
qed

theorem stress_floors_survive_witness: "\<exists>model.
    estimate_risk_model [(''A'', replicate 30 (Finite (1 / 100))), (''B'', replicate 30 (Finite (1 / 100)))]
      [(''A'', [(''B'', Finite (1 / 2))])] (7 / 10) = Inr model \<and> risk_model_post_init model = Inr () \<and>
    (\<exists>r. correlation_between (correlations model) ''A'' ''B'' = Inr r \<and>
      min MAX_ESTIMATED_CORRELATION (1 / 2) - 1 / 10 ^ 48 \<le> r)"
proof -
  have bounds: "\<not> dabs (1 / 2) > 1" "\<not> dabs 1 > 1" by code_simp+
  obtain model where model: "estimate_risk_model [(''A'', map Finite (replicate 30 (1 / 100))), (''B'', map Finite (replicate 30 (1 / 100)))]
      [(''A'', [(''B'', Finite (1 / 2))])] (7 / 10) = Inr model" "model_symbols model = [''A'', ''B'']"
    using pair_model_total [of "''A''" "''B''" "replicate 30 (1 / 100)" "replicate 30 (1 / 100)" "7 / 10" "1 / 2"] bounds
    by (auto simp: MINIMUM_OBSERVATIONS_def)
  have "stress_floor [(''A'', [(''B'', Finite (1 / 2))])] ''A'' ''B'' = Inr (1 / 2)"
    using bounds by (simp add: stress_floor_def get_stress_def)
  then show ?thesis
    using stress_floors_survive [OF model(1), of 0 1 "1 / 2"] model by (simp add: model(2))
qed

theorem clusters_partition_the_universe_witness:
  "\<exists>m cs. new_correlation_matrix [''A'', ''B''] (matrix_table [''A'', ''B''] [[1, 9 / 10], [9 / 10, 1]]) = Inr m \<and>
    cluster_by_correlation m (7 / 10) = Inr cs \<and> set (concat (map cluster_symbols cs)) = {''A'', ''B''}"
proof -
  define t where "t = matrix_table [''A'', ''B''] [[1, 9 / 10], [9 / 10, 1]]"
  have "\<not> dabs 1 > 1" by code_simp
  then obtain m where m: "new_correlation_matrix [''A'', ''B''] t = Inr m"
    using pair_matrix [of "''A''" "''B''" "9 / 10"] by (auto simp: t_def)
  have "\<forall>a b x. get_entry t a b = Some x \<longrightarrow> - 1 \<le> x \<and> x \<le> 1"
    by (auto simp: t_def get_entry_def matrix_table_def split: option.splits if_splits)
  from clusters_partition_the_universe [OF m _ _ this, of "7 / 10"] show ?thesis using m by (auto simp: t_def)
qed

end
