(* ===== verification/Concentration.thy ===== *)
theory Concentration
  imports Covariance_Model Exposure
begin

text \<open>
  \<open>src/fking/risk/contribution.py\<close>: the decomposition of portfolio volatility into the shares
  of symbols and clusters, and the concentration limits on those shares. The decomposition
  runs in the local context of 50 digits, headroom and weights in the process-wide one of 38.
  The lemmas show that the contributions add up to the volatility within the stated tolerance,
  that a verdict names the worst breach, and that a book with risk is approved only when it
  spreads over at least three clusters.
\<close>

section \<open>Limits\<close>

definition RISK_CONTRIBUTION_TOLERANCE :: rat where
  "RISK_CONTRIBUTION_TOLERANCE = 1 / 10 ^ 24"

definition CONCENTRATION_HARD_CEILINGS :: "(string \<times> ceiling) list" where
  "CONCENTRATION_HARD_CEILINGS =
     [(''max_cluster_risk_share_ratio'', Ceiling (40 / 100)),
      (''max_asset_risk_share_ratio'', Ceiling (50 / 100))]"

record concentration_limits =
  max_cluster_risk_share_ratio :: rat
  max_asset_risk_share_ratio :: rat

definition default_concentration_limits :: concentration_limits where
  "default_concentration_limits =
     \<lparr>max_cluster_risk_share_ratio = 25 / 100, max_asset_risk_share_ratio = 35 / 100\<rparr>"

definition concentration_values :: "concentration_limits \<Rightarrow> (string \<times> rat) list" where
  "concentration_values l =
     [(''max_cluster_risk_share_ratio'', max_cluster_risk_share_ratio l),
      (''max_asset_risk_share_ratio'', max_asset_risk_share_ratio l)]"

definition concentration_limits_post_init :: "concentration_limits \<Rightarrow> unit result" where
  [post_init_defs]: "concentration_limits_post_init l =
     assert_within_ceilings (concentration_values l) CONCENTRATION_HARD_CEILINGS"

section \<open>The decomposition\<close>

record risk_contribution =
  contribution_symbol :: string
  weight_ratio :: rat
  marginal_contribution_ratio :: rat
  risk_contribution_ratio :: rat
  risk_share_ratio :: rat

record portfolio_risk =
  portfolio_volatility_ratio :: rat
  contributions :: "risk_contribution list"
  cluster_risk_share_ratio :: "(string \<times> rat) list"

definition risk_share_of :: "portfolio_risk \<Rightarrow> string \<Rightarrow> rat" where
  "risk_share_of r s =
     (case find (\<lambda>c. contribution_symbol c = s) (contributions r) of Some c \<Rightarrow> risk_share_ratio c | None \<Rightarrow> 0)"

definition is_degenerate :: "portfolio_risk \<Rightarrow> bool" where
  "is_degenerate r \<longleftrightarrow> portfolio_volatility_ratio r = 0"

text \<open>A dict comprehension: the last item of a key wins and keeps the key's first place.\<close>

definition py_dict :: "('k \<times> 'v) list \<Rightarrow> ('k \<times> 'v) list" where
  "py_dict items = foldl (\<lambda>d (k, v). AList.update k v d) [] items"

definition weight_ratios_from_notional :: "(string \<times> rat) list \<Rightarrow> rat \<Rightarrow> (string \<times> rat) list result" where
  "weight_ratios_from_notional signed_notional_usd_by_symbol equity_usd =
     (if equity_usd \<le> 0 then Inl (DomainError ''equity'')
      else map_result (\<lambda>(s, notional_usd). and_then (ddiv notional_usd equity_usd) (\<lambda>w. Inr (s, w)))
        signed_notional_usd_by_symbol)"

definition contribution_for :: "string \<Rightarrow> rat \<Rightarrow> rat \<Rightarrow> rat \<Rightarrow> risk_contribution result" where
  "contribution_for s weight covariance_weighted volatility =
     and_then (mdiv covariance_weighted volatility) (\<lambda>marginal.
     and_then (mdiv (mmul weight marginal) volatility) (\<lambda>share. Inr
       \<lparr>contribution_symbol = s, weight_ratio = weight, marginal_contribution_ratio = marginal,
        risk_contribution_ratio = mmul weight marginal, risk_share_ratio = share\<rparr>))"

definition degenerate_risk :: "risk_model \<Rightarrow> rat list \<Rightarrow> portfolio_risk" where
  "degenerate_risk model weights =
     \<lparr>portfolio_volatility_ratio = 0,
      contributions = map2 (\<lambda>s w. \<lparr>contribution_symbol = s, weight_ratio = w, marginal_contribution_ratio = 0,
        risk_contribution_ratio = 0, risk_share_ratio = 0\<rparr>) (model_symbols model) weights,
      cluster_risk_share_ratio = py_dict (map (\<lambda>c. (cluster_id c, 0)) (clusters model))\<rparr>"

definition cluster_shares :: "risk_model \<Rightarrow> risk_contribution list \<Rightarrow> (string \<times> rat) list result" where
  "cluster_shares model rows =
     (let share_by_symbol = py_dict (map (\<lambda>c. (contribution_symbol c, risk_share_ratio c)) rows)
      in and_then (map_result (\<lambda>c.
             and_then (map_result (\<lambda>s. case map_of share_by_symbol s of None \<Rightarrow> Inl KeyError | Some x \<Rightarrow> Inr x)
               (cluster_symbols c)) (\<lambda>xs. Inr (cluster_id c, msum xs)))
           (clusters model)) (\<lambda>items. Inr (py_dict items)))"

definition covariance_weighted_entries :: "risk_model \<Rightarrow> rat list \<Rightarrow> rat list result" where
  "covariance_weighted_entries model weights =
     map_result (\<lambda>s. and_then (map_result (covariance_between model s) (model_symbols model)) (\<lambda>row.
       Inr (msum (map2 mmul row weights)))) (model_symbols model)"

definition portfolio_risk_of :: "(string \<times> rat) list \<Rightarrow> risk_model \<Rightarrow> portfolio_risk result" where
  "portfolio_risk_of weight_ratio_by_symbol model =
     (if \<not> set (map fst weight_ratio_by_symbol) \<subseteq> set (model_symbols model)
      then Inl (DomainError ''outside the estimated universe'')
      else let weights = map (lookup_or_zero weight_ratio_by_symbol) (model_symbols model)
        in and_then (covariance_weighted_entries model weights) (\<lambda>covariance_weighted.
           let variance = msum (map2 mmul weights covariance_weighted)
           in if variance \<le> 0 then Inr (degenerate_risk model weights)
              else and_then (msqrt variance) (\<lambda>volatility.
                   and_then (map_result (\<lambda>(s, w, entry). contribution_for s w entry volatility)
                     (zip (model_symbols model) (zip weights covariance_weighted))) (\<lambda>rows.
                   and_then (cluster_shares model rows) (\<lambda>shares. Inr
                     \<lparr>portfolio_volatility_ratio = volatility, contributions = rows,
                      cluster_risk_share_ratio = shares\<rparr>)))))"

section \<open>The verdict\<close>

record risk_share_evaluation =
  share_limit_name :: string
  scope_id :: string
  threshold_share_ratio :: rat
  observed_share_ratio :: rat

definition headroom_ratio :: "risk_share_evaluation \<Rightarrow> rat" where
  "headroom_ratio e = dsub (threshold_share_ratio e) (observed_share_ratio e)"

definition share_is_breached :: "risk_share_evaluation \<Rightarrow> bool" where
  "share_is_breached e \<longleftrightarrow> headroom_ratio e < 0"

record concentration_assessment =
  concentration_decided_at_utc :: int
  assessed_portfolio_risk :: portfolio_risk
  share_evaluations :: "risk_share_evaluation list"
  concentration_rejection :: "rejection option"

definition concentration_is_approved :: "concentration_assessment \<Rightarrow> bool" where
  "concentration_is_approved a \<longleftrightarrow> concentration_rejection a = None"

definition worst_breach :: "risk_share_evaluation list \<Rightarrow> risk_share_evaluation option" where
  "worst_breach rows = foldl (\<lambda>binding e.
     if \<not> share_is_breached e then binding
     else case binding of
         None \<Rightarrow> Some e
       | Some b \<Rightarrow> if headroom_ratio e < headroom_ratio b then Some e else binding) None rows"

definition rejection_for :: "risk_share_evaluation list \<Rightarrow> int \<Rightarrow> rejection option" where
  "rejection_for rows decided_at = map_option (\<lambda>binding.
     \<lparr>binding_limit_name = share_limit_name binding, rejected_at_utc = decided_at\<rparr>) (worst_breach rows)"

definition held_symbols :: "(string \<times> rat) list \<Rightarrow> string set" where
  "held_symbols weight_ratio_by_symbol = fst ` set (filter (\<lambda>(_, w). w \<noteq> 0) weight_ratio_by_symbol)"

definition asset_rows :: "concentration_limits \<Rightarrow> portfolio_risk \<Rightarrow> string set \<Rightarrow> risk_share_evaluation list" where
  "asset_rows limits risk held = map (\<lambda>c.
     \<lparr>share_limit_name = ''max_asset_risk_share_ratio'', scope_id = contribution_symbol c,
      threshold_share_ratio = max_asset_risk_share_ratio limits, observed_share_ratio = risk_share_ratio c\<rparr>)
     (filter (\<lambda>c. contribution_symbol c \<in> held) (contributions risk))"

definition cluster_rows ::
  "concentration_limits \<Rightarrow> portfolio_risk \<Rightarrow> risk_model \<Rightarrow> string set \<Rightarrow> risk_share_evaluation list result" where
  "cluster_rows limits risk model held = map_result (\<lambda>c.
     case map_of (cluster_risk_share_ratio risk) (cluster_id c) of
       None \<Rightarrow> Inl KeyError
     | Some x \<Rightarrow> Inr
         \<lparr>share_limit_name = ''max_cluster_risk_share_ratio'', scope_id = cluster_id c,
          threshold_share_ratio = max_cluster_risk_share_ratio limits, observed_share_ratio = x\<rparr>)
     (filter (\<lambda>c. held \<inter> set (cluster_symbols c) \<noteq> {}) (clusters model))"

text \<open>\<open>decided_at\<close> is what the injected clock answered, read once and first.\<close>

definition assess_concentration ::
  "(string \<times> rat) list \<Rightarrow> risk_model \<Rightarrow> concentration_limits \<Rightarrow> int \<Rightarrow> concentration_assessment result" where
  "assess_concentration weight_ratio_by_symbol model limits decided_at =
     and_then (portfolio_risk_of weight_ratio_by_symbol model) (\<lambda>risk.
       let held = held_symbols weight_ratio_by_symbol
       in and_then (cluster_rows limits risk model held) (\<lambda>rows.
            let evaluated = asset_rows limits risk held @ rows
            in Inr \<lparr>concentration_decided_at_utc = decided_at, assessed_portfolio_risk = risk,
                 share_evaluations = evaluated, concentration_rejection = rejection_for evaluated decided_at\<rparr>))"

section \<open>Rounding in the local context\<close>

definition last_place :: rat where
  "last_place = 1 / 10 ^ 49"

lemma round_math: "\<bar>round_at MATH_PRECISION x - x\<bar> \<le> last_place / 2 * \<bar>x\<bar>"
  using round_at_relative [of MATH_PRECISION x] by (simp add: MATH_PRECISION_def last_place_def)

lemma last_place_small: "0 < last_place" "last_place \<le> 1 / 100"
  by (simp_all add: last_place_def)

lemma abs_close: "\<bar>x - y\<bar> \<le> c \<Longrightarrow> \<bar>x\<bar> \<le> \<bar>y\<bar> + (c :: rat)"
  by linarith

lemma abs_step: "\<bar>x - (y + s)\<bar> \<le> c \<Longrightarrow> \<bar>y - z\<bar> \<le> d \<Longrightarrow> \<bar>x - (z + s)\<bar> \<le> c + (d :: rat)"
  by linarith

lemma round_math_le: "\<bar>round_at MATH_PRECISION x\<bar> \<le> (1 + last_place / 2) * \<bar>x\<bar>"
  using abs_close [OF round_math [of x]] by (simp only: distrib_right mult_1_left)

lemma growth_step: "(P - 1) * ((1 + u) * A + S) + u * A = (P * (1 + u) - 1) * A + (P - 1) * (S :: rat)"
  by (simp add: algebra_simps)

lemma foldl_madd_error:
  "\<bar>foldl madd a xs - (a + sum_list xs)\<bar> \<le> ((1 + last_place / 2) ^ length xs - 1) * (\<bar>a\<bar> + sum_list (map abs xs))"
proof (induction xs arbitrary: a)
  case (Cons x xs)
  let ?u = "last_place / 2"
  let ?P = "(1 + ?u) ^ length xs"
  let ?A = "\<bar>a\<bar> + \<bar>x\<bar>"
  let ?S = "sum_list (map abs xs)"
  have u: "0 \<le> ?u" using last_place_small by simp
  have P: "1 \<le> ?P" using u by (simp add: one_le_power)
  have S: "0 \<le> ?S" by (rule sum_list_nonneg) auto
  have "\<bar>a + x\<bar> \<le> ?A" by (rule abs_triangle_ineq)
  then have "?u * \<bar>a + x\<bar> \<le> ?u * ?A" by (rule mult_left_mono [OF _ u])
  then have close: "\<bar>madd a x - (a + x)\<bar> \<le> ?u * ?A" using round_math [of "a + x"] unfolding madd_def by linarith
  have "(1 + ?u) * \<bar>a + x\<bar> \<le> (1 + ?u) * ?A" using \<open>\<bar>a + x\<bar> \<le> ?A\<close> u by (intro mult_left_mono) auto
  then have size: "\<bar>madd a x\<bar> \<le> (1 + ?u) * ?A" using round_math_le [of "a + x"] unfolding madd_def by linarith
  have "\<bar>foldl madd (madd a x) xs - (madd a x + sum_list xs)\<bar> \<le> (?P - 1) * (\<bar>madd a x\<bar> + ?S)" by (rule Cons.IH)
  also have "\<dots> \<le> (?P - 1) * ((1 + ?u) * ?A + ?S)" using size P by (intro mult_left_mono) auto
  finally have "\<bar>foldl madd a (x # xs) - (a + sum_list (x # xs))\<bar> \<le> (?P - 1) * ((1 + ?u) * ?A + ?S) + ?u * ?A"
    using abs_step [OF _ close] by (simp add: add.assoc)
  also have "\<dots> = (?P * (1 + ?u) - 1) * ?A + (?P - 1) * ?S" by (rule growth_step)
  also have "\<dots> \<le> (?P * (1 + ?u) - 1) * ?A + (?P * (1 + ?u) - 1) * ?S"
    using P u S by (intro add_left_mono mult_right_mono) (simp_all add: mult_left_mono)
  also have "\<dots> = ((1 + ?u) ^ length (x # xs) - 1) * (\<bar>a\<bar> + sum_list (map abs (x # xs)))"
    by (simp only: distrib_left [symmetric] add.assoc length_Cons power_Suc2 list.map sum_list.Cons)
  finally show ?case .
qed simp

lemma power_last_place: "of_nat n * last_place \<le> 1 \<Longrightarrow> (1 + last_place / 2) ^ n - 1 \<le> of_nat n * last_place"
proof (induction n)
  case (Suc n)
  let ?u = "last_place / 2"
  have u: "0 \<le> ?u" using last_place_small by simp
  have n: "of_nat n * last_place \<le> 1" using Suc.prems last_place_small by (simp add: algebra_simps)
  have "(1 + ?u) ^ Suc n \<le> (1 + ?u) * (1 + of_nat n * last_place)"
    using Suc.IH [OF n] u by (simp add: mult_left_mono)
  also have "\<dots> = 1 + of_nat n * last_place + ?u + ?u * (of_nat n * last_place)" by (simp add: algebra_simps)
  also have "\<dots> \<le> 1 + of_nat n * last_place + ?u + ?u * 1"
    using n u by (intro add_left_mono mult_left_mono) auto
  finally show ?case by (simp add: algebra_simps)
qed simp

lemma msum_error:
  assumes "length xs \<le> 1000"
  shows "\<bar>msum xs - sum_list xs\<bar> \<le> 1000 * last_place * sum_list (map abs xs)"
proof -
  have len: "of_nat (length xs) * last_place \<le> 1000 * last_place"
    using assms last_place_small by (intro mult_right_mono) auto
  also have "\<dots> \<le> 1" by (simp add: last_place_def)
  finally have "(1 + last_place / 2) ^ length xs - 1 \<le> 1000 * last_place"
    using power_last_place [of "length xs"] len by linarith
  moreover have "0 \<le> sum_list (map abs xs)" by (rule sum_list_nonneg) auto
  ultimately have "((1 + last_place / 2) ^ length xs - 1) * sum_list (map abs xs) \<le> 1000 * last_place * sum_list (map abs xs)"
    by (rule mult_right_mono)
  then show ?thesis using foldl_madd_error [of 0 xs] unfolding msum_def by simp
qed

lemma sum_list_abs_error:
  "(\<And>x y. (x, y) \<in> set ps \<Longrightarrow> \<bar>x - y\<bar> \<le> e * \<bar>y\<bar>) \<Longrightarrow>
    \<bar>sum_list (map fst ps) - sum_list (map snd ps)\<bar> \<le> e * sum_list (map (\<lambda>p. \<bar>snd p\<bar>) (ps :: (rat \<times> rat) list))"
proof (induction ps)
  case (Cons p ps)
  have "\<bar>fst p - snd p\<bar> \<le> e * \<bar>snd p\<bar>" using Cons.prems [of "fst p" "snd p"] by simp
  moreover have "\<bar>sum_list (map fst ps) - sum_list (map snd ps)\<bar> \<le> e * sum_list (map (\<lambda>p. \<bar>snd p\<bar>) ps)"
    using Cons by simp
  ultimately show ?case by (simp add: algebra_simps)
qed simp

section \<open>Contributions add up to the volatility\<close>

lemma abs_trans: "\<bar>x - y\<bar> \<le> c \<Longrightarrow> \<bar>y - z\<bar> \<le> d \<Longrightarrow> \<bar>x - z\<bar> \<le> c + (d :: rat)"
  by linarith

lemma abs_add_step: "\<bar>x - y\<bar> \<le> c \<Longrightarrow> \<bar>s - t\<bar> \<le> d \<Longrightarrow> \<bar>x + s - (y + t)\<bar> \<le> c + (d :: rat)"
  by linarith

lemma contribution_term:
  assumes "0 < volatility"
  shows "\<bar>mmul w (round_at MATH_PRECISION (c / volatility)) - w * c / volatility\<bar> \<le> 2 * last_place * \<bar>w * c / volatility\<bar>"
proof -
  let ?u = "last_place / 2"
  let ?t = "w * c / volatility"
  let ?m = "round_at MATH_PRECISION (c / volatility)"
  have "\<bar>w\<bar> * \<bar>?m - c / volatility\<bar> \<le> \<bar>w\<bar> * (?u * \<bar>c / volatility\<bar>)"
    using round_math by (rule mult_left_mono) simp
  then have marginal: "\<bar>w * ?m - ?t\<bar> \<le> ?u * \<bar>?t\<bar>"
    by (simp add: abs_mult [symmetric] right_diff_distrib mult.left_commute [of "\<bar>w\<bar>"])
  have "\<bar>w * ?m\<bar> \<le> 2 * \<bar>?t\<bar>"
    using abs_close [OF marginal] mult_right_mono [of ?u 1 "\<bar>?t\<bar>"] last_place_small by simp
  then have "?u * \<bar>w * ?m\<bar> \<le> ?u * (2 * \<bar>?t\<bar>)"
    using last_place_small by (intro mult_left_mono) auto
  then have "\<bar>mmul w ?m - w * ?m\<bar> \<le> ?u * (2 * \<bar>?t\<bar>)"
    using round_math [of "w * ?m"] unfolding mmul_def by linarith
  then have bound: "\<bar>mmul w ?m - ?t\<bar> \<le> ?u * (2 * \<bar>?t\<bar>) + ?u * \<bar>?t\<bar>" using marginal by (rule abs_trans)
  have "?u * (2 * a) + ?u * a \<le> 2 * last_place * a" if "0 \<le> a" for a
    using last_place_small mult_nonneg_nonneg [OF _ that, of last_place] that by simp
  from order_trans [OF bound this [OF abs_ge_zero]] show ?thesis .
qed

lemma root_error:
  assumes "msqrt x = Inr r" "0 < x"
  shows "0 < r" "\<bar>x / r - r\<bar> \<le> 2 * last_place * (x / r)"
proof -
  note r = sqrt_at_bounds [OF assms, of, simplified MATH_PRECISION_def]
  show r0: "0 < r" using r by simp
  have "r * r \<le> x * (1 + 2 * last_place)" "x * (1 - 2 * last_place) \<le> r * r"
    using r(2,3) by (simp_all add: last_place_def)
  then have "\<bar>x - r * r\<bar> \<le> 2 * last_place * x" by (simp add: algebra_simps abs_le_iff)
  then have "\<bar>x - r * r\<bar> / r \<le> 2 * last_place * x / r" using r0 by (simp add: divide_right_mono)
  moreover have "x / r - r = (x - r * r) / r" using r0 by (simp add: diff_divide_distrib)
  then have "\<bar>x / r - r\<bar> = \<bar>x - r * r\<bar> / r" using r0 by (simp add: abs_divide)
  ultimately show "\<bar>x / r - r\<bar> \<le> 2 * last_place * (x / r)" by simp
qed

abbreviation contribution_value :: "rat \<Rightarrow> rat \<times> rat \<Rightarrow> rat" where
  "contribution_value volatility \<equiv> \<lambda>(w, c). mmul w (round_at MATH_PRECISION (c / volatility))"

lemma sum_abs_error:
  assumes "\<And>p. p \<in> set ps \<Longrightarrow> \<bar>f p - g p\<bar> \<le> e * \<bar>g p :: rat\<bar>"
  shows "\<bar>(\<Sum>p\<leftarrow>ps. f p) - (\<Sum>p\<leftarrow>ps. g p)\<bar> \<le> e * (\<Sum>p\<leftarrow>ps. \<bar>g p\<bar>)"
    "(\<Sum>p\<leftarrow>ps. \<bar>f p\<bar>) \<le> (1 + e) * (\<Sum>p\<leftarrow>ps. \<bar>g p\<bar>)"
    "(1 - e) * (\<Sum>p\<leftarrow>ps. \<bar>g p\<bar>) \<le> (\<Sum>p\<leftarrow>ps. \<bar>f p\<bar>)"
proof -
  have "(\<bar>(\<Sum>p\<leftarrow>ps. f p) - (\<Sum>p\<leftarrow>ps. g p)\<bar> \<le> e * (\<Sum>p\<leftarrow>ps. \<bar>g p\<bar>)) \<and>
    (\<Sum>p\<leftarrow>ps. \<bar>f p\<bar>) \<le> (1 + e) * (\<Sum>p\<leftarrow>ps. \<bar>g p\<bar>) \<and> (1 - e) * (\<Sum>p\<leftarrow>ps. \<bar>g p\<bar>) \<le> (\<Sum>p\<leftarrow>ps. \<bar>f p\<bar>)"
    using assms
  proof (induction ps)
    case (Cons p ps)
    let ?e = "e * \<bar>g p\<bar>"
    have p: "\<bar>f p - g p\<bar> \<le> ?e" using Cons.prems by simp
    then have "\<bar>f p\<bar> \<le> \<bar>g p\<bar> + ?e" "\<bar>g p\<bar> - ?e \<le> \<bar>f p\<bar>" by linarith+
    moreover have IH: "\<bar>(\<Sum>p\<leftarrow>ps. f p) - (\<Sum>p\<leftarrow>ps. g p)\<bar> \<le> e * (\<Sum>p\<leftarrow>ps. \<bar>g p\<bar>)"
      "(\<Sum>p\<leftarrow>ps. \<bar>f p\<bar>) \<le> (1 + e) * (\<Sum>p\<leftarrow>ps. \<bar>g p\<bar>)" "(1 - e) * (\<Sum>p\<leftarrow>ps. \<bar>g p\<bar>) \<le> (\<Sum>p\<leftarrow>ps. \<bar>f p\<bar>)"
      using Cons by simp_all
    ultimately show ?case using abs_add_step [OF p IH(1)] by (simp add: distrib_left distrib_right left_diff_distrib)
  qed simp
  then show "\<bar>(\<Sum>p\<leftarrow>ps. f p) - (\<Sum>p\<leftarrow>ps. g p)\<bar> \<le> e * (\<Sum>p\<leftarrow>ps. \<bar>g p\<bar>)"
    "(\<Sum>p\<leftarrow>ps. \<bar>f p\<bar>) \<le> (1 + e) * (\<Sum>p\<leftarrow>ps. \<bar>g p\<bar>)"
    "(1 - e) * (\<Sum>p\<leftarrow>ps. \<bar>g p\<bar>) \<le> (\<Sum>p\<leftarrow>ps. \<bar>f p\<bar>)" by blast+
qed

lemma contributions_sum:
  fixes ps :: "(rat \<times> rat) list"
  defines "variance \<equiv> msum (map (\<lambda>(w, c). mmul w c) ps)"
  assumes "msqrt variance = Inr volatility" "0 < variance" "length ps \<le> 1000"
  shows "\<bar>(\<Sum>p\<leftarrow>ps. contribution_value volatility p) - volatility\<bar> \<le>
    10000 * last_place * (\<Sum>p\<leftarrow>ps. \<bar>contribution_value volatility p\<bar>)"
proof -
  note root = root_error [OF assms(2,3)]
  define exact where "exact = (\<lambda>(w, c). w * c / volatility)"
  define booked where "booked = (\<lambda>(w, c). mmul w c / volatility)"
  define T where "T = (\<Sum>p\<leftarrow>ps. \<bar>exact p\<bar>)"
  define B where "B = (\<Sum>p\<leftarrow>ps. \<bar>booked p\<bar>)"
  define C where "C = (\<Sum>p\<leftarrow>ps. \<bar>contribution_value volatility p\<bar>)"
  have T: "0 \<le> T" unfolding T_def by (rule sum_list_nonneg) auto
  have small: "2000 * last_place \<le> 1" by (simp add: last_place_def)
  have "\<bar>contribution_value volatility p - exact p\<bar> \<le> (2 * last_place) * \<bar>exact p\<bar>" for p
    using contribution_term [OF root(1)] by (auto simp: exact_def split: prod.splits)
  note contributed = sum_abs_error [of ps "contribution_value volatility" exact "2 * last_place", OF this, folded T_def C_def]
  have "\<bar>booked p - exact p\<bar> \<le> last_place / 2 * \<bar>exact p\<bar>" for p
  proof -
    obtain w c where p: "p = (w, c)" by (cases p)
    have "\<bar>mmul w c - w * c\<bar> / volatility \<le> last_place / 2 * \<bar>w * c\<bar> / volatility"
      using round_math [of "w * c"] root(1) unfolding mmul_def by (intro divide_right_mono) auto
    then show ?thesis using root(1) by (simp add: p booked_def exact_def diff_divide_distrib [symmetric])
  qed
  note booked = sum_abs_error [of ps booked exact "last_place / 2", OF this, folded T_def B_def]
  have fold: "(\<Sum>p\<leftarrow>ps. booked p) = sum_list (map (\<lambda>(w, c). mmul w c) ps) / volatility"
    "B = sum_list (map abs (map (\<lambda>(w, c). mmul w c) ps)) / volatility"
    using root(1) by (simp_all add: B_def booked_def divide_inverse sum_list_mult_const [symmetric] o_def case_prod_unfold abs_mult)
  have "\<bar>variance - sum_list (map (\<lambda>(w, c). mmul w c) ps)\<bar> / volatility \<le>
      1000 * last_place * sum_list (map abs (map (\<lambda>(w, c). mmul w c) ps)) / volatility"
    using msum_error [of "map (\<lambda>(w, c). mmul w c) ps"] assms(4) root(1) unfolding variance_def
    by (intro divide_right_mono) auto
  then have summed: "\<bar>variance / volatility - (\<Sum>p\<leftarrow>ps. booked p)\<bar> \<le> 1000 * last_place * B"
    unfolding fold using root(1) by (simp add: diff_divide_distrib [symmetric])
  have BT: "B \<le> 2 * T"
    using booked(2) mult_right_mono [of "1 + last_place / 2" 2, OF _ T] last_place_small by simp
  have TC: "T \<le> 2 * C"
    using contributed(3) mult_right_mono [of "1 / 2" "1 - 2 * last_place", OF _ T] last_place_small by simp
  have lpB: "1000 * last_place * B \<le> 2000 * last_place * T"
    using mult_left_mono [OF BT, of "1000 * last_place"] last_place_small by simp
  have "\<bar>\<Sum>p\<leftarrow>ps. booked p\<bar> \<le> B" unfolding B_def by (induction ps) auto
  then have "variance / volatility \<le> B + 1000 * last_place * B" using summed by linarith
  also have "\<dots> \<le> 4 * T" using BT lpB mult_right_mono [OF small T] T by linarith
  finally have "2 * last_place * (variance / volatility) \<le> 8 * last_place * T"
    using mult_left_mono [of "variance / volatility" "4 * T" "2 * last_place"] last_place_small by simp
  then have "\<bar>(\<Sum>p\<leftarrow>ps. contribution_value volatility p) - volatility\<bar> \<le>
      2 * last_place * T + last_place / 2 * T + 2000 * last_place * T + 8 * last_place * T"
    using contributed(1) booked(1) summed lpB root(2) by linarith
  also have "\<dots> \<le> 5000 * last_place * T" using T last_place_small mult_nonneg_nonneg [of last_place T] by linarith
  also have "\<dots> \<le> 5000 * last_place * (2 * C)" using TC last_place_small by (intro mult_left_mono) auto
  finally show ?thesis by (simp add: C_def)
qed

section \<open>What a decomposition consists of\<close>

lemma map_of_update_append: "k \<notin> fst ` set d \<Longrightarrow> AList.update k v d = d @ [(k, v)]"
  by (induction d) auto

lemma py_dict_distinct: "distinct (map fst items) \<Longrightarrow> py_dict items = items"
proof -
  have "distinct (map fst (d @ items)) \<Longrightarrow> foldl (\<lambda>d (k, v). AList.update k v d) d items = d @ items" for d
  proof (induction items arbitrary: d)
    case (Cons p items)
    then have "AList.update (fst p) (snd p) d = d @ [p]" by (cases p) (simp add: map_of_update_append)
    then show ?case using Cons.IH [of "d @ [p]"] Cons.prems by (simp add: case_prod_unfold)
  qed simp
  from this [of "[]"] show "distinct (map fst items) \<Longrightarrow> ?thesis" by (simp add: py_dict_def)
qed

definition share_row :: "rat \<Rightarrow> string \<Rightarrow> rat \<Rightarrow> rat \<Rightarrow> risk_contribution" where
  "share_row volatility s w c =
     (let marginal = round_at MATH_PRECISION (c / volatility); contributed = mmul w marginal
      in \<lparr>contribution_symbol = s, weight_ratio = w, marginal_contribution_ratio = marginal,
        risk_contribution_ratio = contributed, risk_share_ratio = round_at MATH_PRECISION (contributed / volatility)\<rparr>)"

lemma contribution_for_eq: "volatility \<noteq> 0 \<Longrightarrow> contribution_for s w c volatility = Inr (share_row volatility s w c)"
  by (simp add: contribution_for_def mdiv_def share_row_def Let_def)

lemma portfolio_risk_ofD:
  assumes "portfolio_risk_of items model = Inr r" "\<not> is_degenerate r"
  obtains entries where
    "length entries = length (model_symbols model)"
    "0 < msum (map2 mmul (map (lookup_or_zero items) (model_symbols model)) entries)"
    "msqrt (msum (map2 mmul (map (lookup_or_zero items) (model_symbols model)) entries)) = Inr (portfolio_volatility_ratio r)"
    "contributions r = map (\<lambda>(s, w, c). share_row (portfolio_volatility_ratio r) s w c)
       (zip (model_symbols model) (zip (map (lookup_or_zero items) (model_symbols model)) entries))"
    "cluster_shares model (contributions r) = Inr (cluster_risk_share_ratio r)"
    "set (map fst items) \<subseteq> set (model_symbols model)"
proof -
  let ?w = "map (lookup_or_zero items) (model_symbols model)"
  let ?v = "\<lambda>entries. msum (map2 mmul ?w entries)"
  have universe: "set (map fst items) \<subseteq> set (model_symbols model)"
    using assms(1) by (auto simp: portfolio_risk_of_def split: if_splits)
  obtain entries where entries: "covariance_weighted_entries model ?w = Inr entries"
    and r: "(if ?v entries \<le> 0 then Inr (degenerate_risk model ?w)
              else and_then (msqrt (?v entries)) (\<lambda>volatility.
                   and_then (map_result (\<lambda>(s, w, entry). contribution_for s w entry volatility)
                     (zip (model_symbols model) (zip ?w entries))) (\<lambda>rows.
                   and_then (cluster_shares model rows) (\<lambda>shares. Inr
                     \<lparr>portfolio_volatility_ratio = volatility, contributions = rows,
                      cluster_risk_share_ratio = shares\<rparr>)))) = Inr r"
    using assms(1) universe by (auto simp: portfolio_risk_of_def Let_def and_then_Inr_iff)
  have pos: "0 < ?v entries"
    using r assms(2) by (auto simp: is_degenerate_def degenerate_risk_def split: if_splits)
  with r obtain volatility rows shares where v: "msqrt (?v entries) = Inr volatility"
    "map_result (\<lambda>(s, w, entry). contribution_for s w entry volatility) (zip (model_symbols model) (zip ?w entries)) = Inr rows"
    "cluster_shares model rows = Inr shares"
    "r = \<lparr>portfolio_volatility_ratio = volatility, contributions = rows, cluster_risk_share_ratio = shares\<rparr>"
    by (auto simp: and_then_Inr_iff)
  have "volatility \<noteq> 0" using root_error(1) [OF v(1) pos] by simp
  then have "map_result (\<lambda>(s, w, entry). contribution_for s w entry volatility) (zip (model_symbols model) (zip ?w entries)) =
      Inr (map (\<lambda>(s, w, c). share_row volatility s w c) (zip (model_symbols model) (zip ?w entries)))"
    unfolding map_result_pure [symmetric] by (intro map_result_cong) (auto simp: contribution_for_eq)
  then have rows: "rows = map (\<lambda>(s, w, c). share_row volatility s w c) (zip (model_symbols model) (zip ?w entries))"
    using v(2) by simp
  have len: "length entries = length (model_symbols model)"
    using map_result_nth(1) entries by (auto simp: covariance_weighted_entries_def)
  show thesis by (rule that [OF len pos]) (use v rows universe in simp_all)
qed

lemma zip_map_self: "zip xs (zip (map f xs) ys) = map (\<lambda>(x, y). (x, f x, y)) (zip xs ys)"
  by (induction xs arbitrary: ys) (auto split: prod.splits simp: zip_Cons1 split: list.splits)

lemma contributions_of:
  assumes "portfolio_risk_of items model = Inr r" "\<not> is_degenerate r"
  shows "map contribution_symbol (contributions r) = model_symbols model" "0 < portfolio_volatility_ratio r"
    "c \<in> set (contributions r) \<Longrightarrow> weight_ratio c = lookup_or_zero items (contribution_symbol c) \<and>
      (weight_ratio c = 0 \<longrightarrow> risk_share_ratio c = 0) \<and>
      risk_share_ratio c = round_at MATH_PRECISION (risk_contribution_ratio c / portfolio_volatility_ratio r)"
    "length (model_symbols model) \<le> 1000 \<Longrightarrow>
      \<bar>sum_list (map risk_contribution_ratio (contributions r)) - portfolio_volatility_ratio r\<bar> \<le>
        10000 * last_place * (\<Sum>c\<leftarrow>contributions r. \<bar>risk_contribution_ratio c\<bar>)"
proof -
  let ?s = "model_symbols model"
  let ?v = "portfolio_volatility_ratio r"
  obtain entries where e: "length entries = length ?s"
    "0 < msum (map2 mmul (map (lookup_or_zero items) ?s) entries)"
    "msqrt (msum (map2 mmul (map (lookup_or_zero items) ?s) entries)) = Inr ?v"
    "contributions r = map (\<lambda>(s, w, c). share_row ?v s w c) (zip ?s (zip (map (lookup_or_zero items) ?s) entries))"
    using portfolio_risk_ofD [OF assms] by metis
  have rows: "contributions r = map (\<lambda>(s, c). share_row ?v s (lookup_or_zero items s) c) (zip ?s entries)"
    by (simp only: e(4) zip_map_self map_map comp_def case_prod_unfold fst_conv snd_conv)
  show "map contribution_symbol (contributions r) = ?s"
    by (simp add: rows case_prod_unfold comp_def share_row_def Let_def e(1) map_fst_zip [of ?s entries, unfolded case_prod_unfold])
  show "0 < ?v" by (rule root_error(1) [OF e(3,2)])
  show "c \<in> set (contributions r) \<Longrightarrow> weight_ratio c = lookup_or_zero items (contribution_symbol c) \<and>
      (weight_ratio c = 0 \<longrightarrow> risk_share_ratio c = 0) \<and> risk_share_ratio c = round_at MATH_PRECISION (risk_contribution_ratio c / ?v)"
    by (auto simp: rows share_row_def Let_def mmul_def)
  assume len: "length ?s \<le> 1000"
  define ps where "ps = zip (map (lookup_or_zero items) ?s) entries"
  have sums: "map risk_contribution_ratio (contributions r) = map (contribution_value ?v) ps"
    by (simp add: rows ps_def zip_map1 comp_def case_prod_unfold share_row_def Let_def)
  have abs_sums: "map (\<lambda>c. \<bar>risk_contribution_ratio c\<bar>) (contributions r) = map (\<lambda>p. \<bar>contribution_value ?v p\<bar>) ps"
    using arg_cong [OF sums, of "map abs"] by (simp add: comp_def)
  have "map2 mmul (map (lookup_or_zero items) ?s) entries = map (\<lambda>(w, c). mmul w c) ps" by (simp add: ps_def)
  then have "\<bar>(\<Sum>p\<leftarrow>ps. contribution_value ?v p) - ?v\<bar> \<le> 10000 * last_place * (\<Sum>p\<leftarrow>ps. \<bar>contribution_value ?v p\<bar>)"
    using contributions_sum [of ps ?v] e(1-3) len by (simp add: ps_def)
  then show "\<bar>sum_list (map risk_contribution_ratio (contributions r)) - ?v\<bar> \<le>
      10000 * last_place * (\<Sum>c\<leftarrow>contributions r. \<bar>risk_contribution_ratio c\<bar>)"
    using sums abs_sums by simp
qed

section \<open>Shares of clusters\<close>

definition partitions_universe :: "risk_model \<Rightarrow> bool" where
  "partitions_universe model \<longleftrightarrow> distinct (concat (map cluster_symbols (clusters model))) \<and>
     set (concat (map cluster_symbols (clusters model))) = set (model_symbols model) \<and>
     distinct (model_symbols model) \<and> list_all (\<lambda>c. cluster_post_init c = Inr ()) (clusters model)"

lemma cluster_ids_distinct:
  assumes "partitions_universe model"
  shows "distinct (map cluster_id (clusters model))"
proof -
  have "distinct (concat (map cluster_symbols cs)) \<Longrightarrow> list_all (\<lambda>c. cluster_post_init c = Inr ()) cs \<Longrightarrow>
      distinct (map cluster_id cs) \<and> cluster_id ` set cs \<subseteq> set (concat (map cluster_symbols cs))" for cs
  proof (induction cs)
    case (Cons c cs)
    then have "cluster_id c \<in> set (cluster_symbols c)" by (auto simp: cluster_post_init_def)
    then show ?case using Cons by auto
  qed simp
  with assms show ?thesis by (auto simp: partitions_universe_def)
qed

definition share_in :: "portfolio_risk \<Rightarrow> string \<Rightarrow> rat" where
  "share_in r s = the (map_of (map (\<lambda>c. (contribution_symbol c, risk_share_ratio c)) (contributions r)) s)"

lemma share_in_contribution:
  assumes "distinct (map contribution_symbol (contributions r))" "c \<in> set (contributions r)"
  shows "share_in r (contribution_symbol c) = risk_share_ratio c"
proof -
  have "map_of (map (\<lambda>c. (contribution_symbol c, risk_share_ratio c)) (contributions r)) (contribution_symbol c) =
      Some (risk_share_ratio c)"
    using assms by (intro map_of_is_SomeI) (auto simp: comp_def)
  then show ?thesis by (simp add: share_in_def)
qed

lemma shares_in:
  assumes "distinct (map contribution_symbol (contributions r))"
  shows "map (share_in r) (map contribution_symbol (contributions r)) = map risk_share_ratio (contributions r)"
  using share_in_contribution [OF assms] by simp

lemma cluster_shares_eq:
  assumes "partitions_universe model" "map contribution_symbol (contributions r) = model_symbols model"
  shows "cluster_shares model (contributions r) =
    Inr (map (\<lambda>c. (cluster_id c, msum (map (share_in r) (cluster_symbols c)))) (clusters model))"
proof -
  let ?items = "map (\<lambda>c. (contribution_symbol c, risk_share_ratio c)) (contributions r)"
  have dist: "distinct (map contribution_symbol (contributions r))"
    using assms by (simp add: partitions_universe_def)
  then have items: "py_dict ?items = ?items" by (intro py_dict_distinct) (simp add: comp_def)
  have known: "s \<in> fst ` set ?items" if "c \<in> set (clusters model)" "s \<in> set (cluster_symbols c)" for c s
  proof -
    have "s \<in> set (model_symbols model)" using assms(1) that by (auto simp: partitions_universe_def)
    then show ?thesis unfolding assms(2) [symmetric] by (auto simp: image_image)
  qed
  have "map_result (\<lambda>s. case map_of ?items s of None \<Rightarrow> Inl KeyError | Some x \<Rightarrow> Inr x) (cluster_symbols c) =
      Inr (map (share_in r) (cluster_symbols c))" if c: "c \<in> set (clusters model)" for c
    unfolding map_result_pure [symmetric]
  proof (rule map_result_cong)
    fix s assume "s \<in> set (cluster_symbols c)"
    then obtain x where "map_of ?items s = Some x"
      using known [OF c] by (metis (no_types, lifting) map_of_eq_None_iff option.exhaust)
    then show "(case map_of ?items s of None \<Rightarrow> Inl KeyError | Some x \<Rightarrow> Inr x) = Inr (share_in r s)"
      by (simp add: share_in_def)
  qed
  then have "map_result (\<lambda>c. and_then (map_result (\<lambda>s. case map_of ?items s of None \<Rightarrow> Inl KeyError | Some x \<Rightarrow> Inr x)
        (cluster_symbols c)) (\<lambda>xs. Inr (cluster_id c, msum xs))) (clusters model) =
      Inr (map (\<lambda>c. (cluster_id c, msum (map (share_in r) (cluster_symbols c)))) (clusters model))"
    unfolding map_result_pure [symmetric] by (intro map_result_cong) (simp add: map_result_pure)
  moreover have "py_dict (map (\<lambda>c. (cluster_id c, msum (map (share_in r) (cluster_symbols c)))) (clusters model)) =
      map (\<lambda>c. (cluster_id c, msum (map (share_in r) (cluster_symbols c)))) (clusters model)"
    using cluster_ids_distinct [OF assms(1)] by (intro py_dict_distinct) (simp add: comp_def)
  ultimately show ?thesis unfolding cluster_shares_def items Let_def by simp
qed

section \<open>The verdict\<close>

lemma breached_iff: "share_is_breached e \<longleftrightarrow> threshold_share_ratio e < observed_share_ratio e"
  by (simp add: share_is_breached_def headroom_ratio_def dsub_def)

lemma worst_breach_spec:
  "(worst_breach rows = None \<longleftrightarrow> (\<forall>e \<in> set rows. \<not> share_is_breached e)) \<and>
   (\<forall>b. worst_breach rows = Some b \<longrightarrow> b \<in> set rows \<and> share_is_breached b \<and>
     (\<forall>e \<in> set rows. headroom_ratio b \<le> headroom_ratio e))"
proof (induction rows rule: rev_induct)
  case (snoc e rows)
  have step: "worst_breach (rows @ [e]) = (if \<not> share_is_breached e then worst_breach rows
     else case worst_breach rows of None \<Rightarrow> Some e
       | Some b \<Rightarrow> if headroom_ratio e < headroom_ratio b then Some e else worst_breach rows)"
    unfolding worst_breach_def by simp
  have mono: "headroom_ratio b \<le> headroom_ratio e'" if "share_is_breached b" "\<not> share_is_breached e'" for b e'
    using that by (simp add: share_is_breached_def)
  show ?case
  proof (cases "worst_breach rows")
    case None
    then show ?thesis using snoc step by (auto intro: mono)
  next
    case (Some b)
    then have "b \<in> set rows" "share_is_breached b" "\<forall>e \<in> set rows. headroom_ratio b \<le> headroom_ratio e"
      using snoc by blast+
    moreover from this have "headroom_ratio e < headroom_ratio b \<Longrightarrow> share_is_breached e" by (simp add: share_is_breached_def)
    ultimately show ?thesis using step Some by (cases "share_is_breached e") (auto intro: mono)
  qed
qed (simp add: worst_breach_def)

lemma assess_concentrationD:
  assumes "assess_concentration items model limits now_utc = Inr a"
  obtains rows where "portfolio_risk_of items model = Inr (assessed_portfolio_risk a)"
    "cluster_rows limits (assessed_portfolio_risk a) model (held_symbols items) = Inr rows"
    "share_evaluations a = asset_rows limits (assessed_portfolio_risk a) (held_symbols items) @ rows"
    "concentration_rejection a = rejection_for (share_evaluations a) now_utc"
  using assms by (auto simp: assess_concentration_def and_then_Inr_iff Let_def)

lemma contributions_symbols:
  assumes "portfolio_risk_of items model = Inr r"
  shows "map contribution_symbol (contributions r) = model_symbols model"
proof (cases "is_degenerate r")
  case True
  let ?w = "map (lookup_or_zero items) (model_symbols model)"
  obtain entries where entries: "covariance_weighted_entries model ?w = Inr entries"
    "set (map fst items) \<subseteq> set (model_symbols model)"
    using assms by (auto simp: portfolio_risk_of_def Let_def and_then_Inr_iff split: if_splits)
  have "r = degenerate_risk model ?w"
  proof (rule ccontr)
    assume r: "r \<noteq> degenerate_risk model ?w"
    with assms entries have pos: "0 < msum (map2 mmul ?w entries)"
      and "msqrt (msum (map2 mmul ?w entries)) = Inr (portfolio_volatility_ratio r)"
      by (auto simp: portfolio_risk_of_def Let_def and_then_Inr_iff split: if_splits)
    then show False using root_error(1) [of _ "portfolio_volatility_ratio r"] True by (simp add: is_degenerate_def)
  qed
  then show ?thesis by (simp add: degenerate_risk_def case_prod_unfold comp_def map_fst_zip [of _ ?w, unfolded case_prod_unfold])
next
  case False
  then show ?thesis using contributions_of(1) [OF assms] by simp
qed

lemma held_in_universe:
  "portfolio_risk_of items model = Inr r \<Longrightarrow> s \<in> held_symbols items \<Longrightarrow> s \<in> set (model_symbols model)"
  by (auto simp: portfolio_risk_of_def held_symbols_def split: if_splits)

lemma cluster_rows_nth:
  assumes "cluster_rows limits risk model held = Inr rows" "c \<in> set (clusters model)" "held \<inter> set (cluster_symbols c) \<noteq> {}"
  shows "\<exists>x. map_of (cluster_risk_share_ratio risk) (cluster_id c) = Some x \<and>
    \<lparr>share_limit_name = ''max_cluster_risk_share_ratio'', scope_id = cluster_id c,
      threshold_share_ratio = max_cluster_risk_share_ratio limits, observed_share_ratio = x\<rparr> \<in> set rows"
proof -
  let ?cs = "filter (\<lambda>c. held \<inter> set (cluster_symbols c) \<noteq> {}) (clusters model)"
  have "c \<in> set ?cs" using assms(2,3) by simp
  then obtain i where i: "i < length ?cs" "?cs ! i = c" by (meson in_set_conv_nth)
  have rows: "map_result (\<lambda>c. case map_of (cluster_risk_share_ratio risk) (cluster_id c) of
       None \<Rightarrow> Inl KeyError
     | Some x \<Rightarrow> Inr \<lparr>share_limit_name = ''max_cluster_risk_share_ratio'', scope_id = cluster_id c,
          threshold_share_ratio = max_cluster_risk_share_ratio limits, observed_share_ratio = x\<rparr>) ?cs = Inr rows"
    using assms(1) by (simp add: cluster_rows_def)
  have "(case map_of (cluster_risk_share_ratio risk) (cluster_id c) of
       None \<Rightarrow> Inl KeyError
     | Some x \<Rightarrow> Inr \<lparr>share_limit_name = ''max_cluster_risk_share_ratio'', scope_id = cluster_id c,
          threshold_share_ratio = max_cluster_risk_share_ratio limits, observed_share_ratio = x\<rparr>) = Inr (rows ! i)" "i < length rows"
    using map_result_nth [OF rows] i by auto
  then show ?thesis by (auto split: option.splits)
qed

text \<open>
  C7. A verdict on a prospective book approves it exactly when every share it evaluated is
  within its threshold; every held symbol has its row, with its share of the portfolio's risk,
  and so has every cluster that holds one of them; a refusal names the limit of a row that is
  breached and has the least headroom of all.
\<close>

theorem concentration_names_the_worst:
  assumes "assess_concentration items model limits now_utc = Inr a"
  shows "(concentration_is_approved a \<longleftrightarrow> list_all (\<lambda>e. observed_share_ratio e \<le> threshold_share_ratio e) (share_evaluations a)) \<and>
    (\<forall>verdict. concentration_rejection a = Some verdict \<longrightarrow>
      (\<exists>b \<in> set (share_evaluations a). binding_limit_name verdict = share_limit_name b \<and>
        threshold_share_ratio b < observed_share_ratio b \<and> list_all (\<lambda>e. headroom_ratio b \<le> headroom_ratio e) (share_evaluations a))) \<and>
    (\<forall>s \<in> held_symbols items. \<lparr>share_limit_name = ''max_asset_risk_share_ratio'', scope_id = s,
        threshold_share_ratio = max_asset_risk_share_ratio limits,
        observed_share_ratio = risk_share_of (assessed_portfolio_risk a) s\<rparr> \<in> set (share_evaluations a)) \<and>
    (\<forall>c \<in> set (clusters model). held_symbols items \<inter> set (cluster_symbols c) \<noteq> {} \<longrightarrow>
      (\<exists>x. map_of (cluster_risk_share_ratio (assessed_portfolio_risk a)) (cluster_id c) = Some x \<and>
        \<lparr>share_limit_name = ''max_cluster_risk_share_ratio'', scope_id = cluster_id c,
          threshold_share_ratio = max_cluster_risk_share_ratio limits, observed_share_ratio = x\<rparr> \<in> set (share_evaluations a)))"
proof -
  obtain rows where a: "portfolio_risk_of items model = Inr (assessed_portfolio_risk a)"
    "cluster_rows limits (assessed_portfolio_risk a) model (held_symbols items) = Inr rows"
    "share_evaluations a = asset_rows limits (assessed_portfolio_risk a) (held_symbols items) @ rows"
    "concentration_rejection a = rejection_for (share_evaluations a) now_utc"
    using assms by (rule assess_concentrationD)
  note worst = worst_breach_spec [of "share_evaluations a"]
  have "concentration_is_approved a \<longleftrightarrow> list_all (\<lambda>e. observed_share_ratio e \<le> threshold_share_ratio e) (share_evaluations a)"
    using worst by (auto simp: concentration_is_approved_def a(4) rejection_for_def breached_iff list_all_iff not_less)
  moreover have "\<exists>b \<in> set (share_evaluations a). binding_limit_name verdict = share_limit_name b \<and>
        threshold_share_ratio b < observed_share_ratio b \<and> list_all (\<lambda>e. headroom_ratio b \<le> headroom_ratio e) (share_evaluations a)"
    if verdict: "concentration_rejection a = Some verdict" for verdict
  proof -
    obtain b where b: "worst_breach (share_evaluations a) = Some b" "binding_limit_name verdict = share_limit_name b"
      using verdict by (auto simp: a(4) rejection_for_def)
    then show ?thesis using worst by (auto simp: breached_iff list_all_iff)
  qed
  moreover have "\<lparr>share_limit_name = ''max_asset_risk_share_ratio'', scope_id = s,
        threshold_share_ratio = max_asset_risk_share_ratio limits,
        observed_share_ratio = risk_share_of (assessed_portfolio_risk a) s\<rparr> \<in> set (share_evaluations a)"
    if s: "s \<in> held_symbols items" for s
  proof -
    let ?r = "assessed_portfolio_risk a"
    have "s \<in> set (map contribution_symbol (contributions ?r))"
      using held_in_universe [OF a(1) s] contributions_symbols [OF a(1)] by simp
    then have "find (\<lambda>c. contribution_symbol c = s) (contributions ?r) \<noteq> None" by (auto simp: find_None_iff)
    then obtain c where c: "find (\<lambda>c. contribution_symbol c = s) (contributions ?r) = Some c" by auto
    then have "c \<in> set (contributions ?r)" "contribution_symbol c = s" by (auto simp: find_Some_iff)
    then show ?thesis using s c by (force simp: a(3) asset_rows_def risk_share_of_def)
  qed
  moreover note cluster_rows_nth [OF a(2)]
  ultimately show ?thesis using a(3) by auto
qed

text \<open>
  The decomposition adds up: in a book with risk the symbols' contributions sum to the
  portfolio volatility within the stated tolerance, as long as the model has at most a
  thousand symbols and the contributions, taken without sign, stay below 10 to the 20.
\<close>

theorem contributions_sum_to_the_volatility:
  assumes "portfolio_risk_of items model = Inr r" "\<not> is_degenerate r" "length (model_symbols model) \<le> 1000"
    and "(\<Sum>c\<leftarrow>contributions r. \<bar>risk_contribution_ratio c\<bar>) \<le> 10 ^ 20"
  shows "\<bar>sum_list (map risk_contribution_ratio (contributions r)) - portfolio_volatility_ratio r\<bar> \<le>
      RISK_CONTRIBUTION_TOLERANCE \<and> map contribution_symbol (contributions r) = model_symbols model"
proof -
  note sums = contributions_of(4) [OF assms(1-3)]
  have "10000 * last_place * (\<Sum>c\<leftarrow>contributions r. \<bar>risk_contribution_ratio c\<bar>) \<le> 10000 * last_place * 10 ^ 20"
    using assms(4) last_place_small by (intro mult_left_mono) auto
  also have "\<dots> \<le> RISK_CONTRIBUTION_TOLERANCE" by (simp add: last_place_def RISK_CONTRIBUTION_TOLERANCE_def)
  finally show ?thesis using sums contributions_of(1) [OF assms(1,2)] by simp
qed

lemma msum_zeros: "list_all (\<lambda>x. x = 0) xs \<Longrightarrow> msum xs = 0"
proof -
  have "list_all (\<lambda>x. x = 0) xs \<Longrightarrow> foldl madd 0 xs = 0" by (induction xs) (simp_all add: madd_def)
  then show "list_all (\<lambda>x. x = 0) xs \<Longrightarrow> ?thesis" by (simp add: msum_def)
qed

lemma shares_sum:
  assumes "portfolio_risk_of items model = Inr r" "\<not> is_degenerate r" "length (model_symbols model) \<le> 1000"
  shows "\<bar>sum_list (map risk_share_ratio (contributions r)) - 1\<bar> \<le>
    100000 * last_place * (\<Sum>c\<leftarrow>contributions r. \<bar>risk_share_ratio c\<bar>)"
proof -
  let ?v = "portfolio_volatility_ratio r"
  note parts = contributions_of [OF assms(1,2)]
  define G where "G = (\<Sum>c\<leftarrow>contributions r. \<bar>risk_share_ratio c\<bar>)"
  define T where "T = (\<Sum>c\<leftarrow>contributions r. \<bar>risk_contribution_ratio c / ?v\<bar>)"
  have G: "0 \<le> G" and T: "0 \<le> T" unfolding G_def T_def by (rule sum_list_nonneg, auto)+
  have "\<bar>risk_share_ratio c - risk_contribution_ratio c / ?v\<bar> \<le> last_place / 2 * \<bar>risk_contribution_ratio c / ?v\<bar>"
    if "c \<in> set (contributions r)" for c
    using round_math [of "risk_contribution_ratio c / ?v"] parts(3) [OF that] by simp
  note shares = sum_abs_error [of "contributions r" risk_share_ratio "\<lambda>c. risk_contribution_ratio c / ?v" "last_place / 2",
      OF this, folded G_def T_def]
  have TG: "T \<le> 2 * G"
    using shares(3) mult_right_mono [of "1 / 2" "1 - last_place / 2", OF _ T] last_place_small by simp
  have "T = (\<Sum>c\<leftarrow>contributions r. \<bar>risk_contribution_ratio c\<bar>) / ?v"
    "(\<Sum>c\<leftarrow>contributions r. risk_contribution_ratio c / ?v) = sum_list (map risk_contribution_ratio (contributions r)) / ?v"
    using parts(2) by (simp_all add: T_def divide_inverse sum_list_mult_const [symmetric] abs_mult)
  moreover have "\<bar>sum_list (map risk_contribution_ratio (contributions r)) - ?v\<bar> / ?v \<le>
      10000 * last_place * (\<Sum>c\<leftarrow>contributions r. \<bar>risk_contribution_ratio c\<bar>) / ?v"
    using parts(4) [OF assms(3)] parts(2) by (intro divide_right_mono) auto
  moreover have "x / ?v - 1 = (x - ?v) / ?v" for x using parts(2) by (simp add: diff_divide_distrib)
  ultimately have "\<bar>(\<Sum>c\<leftarrow>contributions r. risk_contribution_ratio c / ?v) - 1\<bar> \<le> 10000 * last_place * T"
    using parts(2) by (simp add: abs_divide)
  then have "\<bar>sum_list (map risk_share_ratio (contributions r)) - 1\<bar> \<le> last_place / 2 * T + 10000 * last_place * T"
    using shares(1) by (intro abs_trans) auto
  also have "\<dots> \<le> 20000 * last_place * T" using T last_place_small mult_nonneg_nonneg [of last_place T] by linarith
  also have "\<dots> \<le> 20000 * last_place * (2 * G)" using TG last_place_small by (intro mult_left_mono) auto
  also have "\<dots> \<le> 100000 * last_place * G" using G last_place_small mult_nonneg_nonneg [of last_place G] by linarith
  finally show ?thesis by (simp add: G_def)
qed

lemma sum_concat: "sum_list (map f (concat xss)) = sum_list (map (\<lambda>xs. sum_list (map f xs)) xss)"
  for f :: "'a \<Rightarrow> rat"
  by (induction xss) auto

lemma sum_clusters_error:
  assumes "list_all (\<lambda>xs. length xs \<le> 1000) xss"
  shows "\<bar>sum_list (map (\<lambda>xs. msum (map f xs)) xss) - sum_list (map f (concat xss))\<bar> \<le>
    1000 * last_place * sum_list (map (\<lambda>x. \<bar>f x\<bar>) (concat xss))"
  using assms
proof (induction xss)
  case (Cons xs xss)
  have "\<bar>msum (map f xs) - sum_list (map f xs)\<bar> \<le> 1000 * last_place * sum_list (map (\<lambda>x. \<bar>f x\<bar>) xs)"
    using msum_error [of "map f xs"] Cons.prems by (simp add: comp_def)
  from abs_add_step [OF this Cons.IH] Cons.prems show ?case by (simp add: distrib_left)
qed simp

lemma cluster_length: "partitions_universe model \<Longrightarrow> length (model_symbols model) \<le> n \<Longrightarrow>
    list_all (\<lambda>xs. length xs \<le> n) (map cluster_symbols (clusters model))"
proof -
  assume p: "partitions_universe model" and n: "length (model_symbols model) \<le> n"
  have "length xs \<le> length (concat xss)" if "xs \<in> set xss" for xs :: "string list" and xss
    using that by (induction xss) auto
  moreover have "length (concat (map cluster_symbols (clusters model))) = length (model_symbols model)"
    using p by (metis partitions_universe_def distinct_card)
  ultimately show ?thesis using n unfolding list_all_iff by (metis le_trans)
qed

lemma sum_at_most:
  fixes x :: "'a \<Rightarrow> rat"
  assumes "\<And>c. c \<in> set cs \<Longrightarrow> P c \<Longrightarrow> x c \<le> u" "\<And>c. c \<in> set cs \<Longrightarrow> \<not> P c \<Longrightarrow> x c = 0"
  shows "sum_list (map x cs) \<le> u * of_nat (length (filter P cs))"
  using assms
proof (induction cs)
  case (Cons c cs)
  have "sum_list (map x cs) \<le> u * of_nat (length (filter P cs))" using Cons by simp
  moreover have "if P c then x c \<le> u else x c = 0" using Cons.prems(1,2) [of c] by simp
  ultimately show ?case by (cases "P c") (simp_all add: distrib_left)
qed simp

text \<open>
  C23. Concentration limits force a spread: whatever the configured limits, as long as their
  constructor accepted them, a book with risk is approved only when its positions lie in at
  least three correlation clusters. So a book of one or two names is always refused.
\<close>

theorem approved_book_spreads:
  assumes "assess_concentration items model limits now_utc = Inr a" "concentration_is_approved a"
    and "concentration_limits_post_init limits = Inr ()" "partitions_universe model"
    and "length (model_symbols model) \<le> 1000" "\<not> is_degenerate (assessed_portfolio_risk a)"
    and "(\<Sum>c\<leftarrow>contributions (assessed_portfolio_risk a). \<bar>risk_share_ratio c\<bar>) \<le> 10 ^ 20"
  shows "3 \<le> length (filter (\<lambda>c. held_symbols items \<inter> set (cluster_symbols c) \<noteq> {}) (clusters model))"
proof -
  let ?r = "assessed_portfolio_risk a"
  let ?held = "\<lambda>c. held_symbols items \<inter> set (cluster_symbols c) \<noteq> {}"
  define S where "S = (\<lambda>c :: correlation_cluster. msum (map (share_in ?r) (cluster_symbols c)))"
  obtain rows where a: "portfolio_risk_of items model = Inr ?r"
    "cluster_rows limits ?r model (held_symbols items) = Inr rows"
    "share_evaluations a = asset_rows limits ?r (held_symbols items) @ rows"
    "concentration_rejection a = rejection_for (share_evaluations a) now_utc"
    using assms(1) by (rule assess_concentrationD)
  note parts = contributions_of [OF a(1) assms(6)]
  have dist: "distinct (map contribution_symbol (contributions ?r))"
    using parts(1) assms(4) by (simp add: partitions_universe_def)
  have "cluster_shares model (contributions ?r) = Inr (cluster_risk_share_ratio ?r)"
    using portfolio_risk_ofD [OF a(1) assms(6)] by metis
  then have table: "cluster_risk_share_ratio ?r = map (\<lambda>c. (cluster_id c, S c)) (clusters model)"
    using cluster_shares_eq [OF assms(4) parts(1)] by (simp add: S_def)
  have share: "map_of (cluster_risk_share_ratio ?r) (cluster_id c) = Some (S c)" if "c \<in> set (clusters model)" for c
    using cluster_ids_distinct [OF assms(4)] that unfolding table by (intro map_of_is_SomeI) (auto simp: comp_def)
  have "max_cluster_risk_share_ratio limits \<le> 40 / 100"
    using assms(3) by (simp add: concentration_limits_post_init_def assert_within_ceilings_ok CONCENTRATION_HARD_CEILINGS_def
        concentration_values_def not_less)
  moreover have "S c \<le> max_cluster_risk_share_ratio limits" if "c \<in> set (clusters model)" "?held c" for c
  proof -
    have "\<forall>e \<in> set rows. \<not> share_is_breached e"
      using assms(2) worst_breach_spec [of "share_evaluations a"] a(3,4)
      by (auto simp: concentration_is_approved_def rejection_for_def)
    then show ?thesis using cluster_rows_nth [OF a(2) that] share [OF that(1)] by (auto simp: breached_iff)
  qed
  ultimately have touched: "S c \<le> 40 / 100" if "c \<in> set (clusters model)" "?held c" for c
    using that by fastforce
  have zero: "share_in ?r s = 0" if s: "s \<in> set (model_symbols model)" "s \<notin> held_symbols items" for s
  proof -
    obtain c where c: "c \<in> set (contributions ?r)" "contribution_symbol c = s"
      using s(1) parts(1) by (metis (no_types, lifting) imageE list.set_map)
    have "lookup_or_zero items s = 0"
      using s(2) by (force simp: lookup_or_zero_def held_symbols_def dest: map_of_SomeD split: option.splits)
    then have "risk_share_ratio c = 0" using parts(3) [OF c(1)] c(2) by metis
    then show ?thesis using share_in_contribution [OF dist c(1)] c(2) by simp
  qed
  have untouched: "S c = 0" if c: "c \<in> set (clusters model)" "\<not> ?held c" for c
  proof -
    have "set (cluster_symbols c) \<subseteq> set (model_symbols model)"
      using assms(4) c(1) by (auto simp: partitions_universe_def)
    then show ?thesis using c(2) zero unfolding S_def by (intro msum_zeros) (auto simp: list_all_iff)
  qed
  let ?all = "concat (map cluster_symbols (clusters model))"
  have "mset ?all = mset (model_symbols model)"
    using assms(4) unfolding partitions_universe_def by (metis set_eq_iff_mset_eq_distinct)
  then have perm: "sum_list (map f ?all) = sum_list (map f (model_symbols model))" for f :: "string \<Rightarrow> rat"
    by (metis mset_map sum_mset_sum_list)
  have same: "map (share_in ?r) (model_symbols model) = map risk_share_ratio (contributions ?r)"
    using shares_in [OF dist] unfolding parts(1) .
  have shares: "sum_list (map (share_in ?r) (model_symbols model)) = sum_list (map risk_share_ratio (contributions ?r))"
    "sum_list (map (\<lambda>s. \<bar>share_in ?r s\<bar>) (model_symbols model)) = (\<Sum>c\<leftarrow>contributions ?r. \<bar>risk_share_ratio c\<bar>)"
    using same apply simp
    using arg_cong [OF same, of "\<lambda>xs. sum_list (map abs xs)"] by (simp add: comp_def)
  define G where "G = (\<Sum>c\<leftarrow>contributions ?r. \<bar>risk_share_ratio c\<bar>)"
  have "\<bar>sum_list (map S (clusters model)) - sum_list (map risk_share_ratio (contributions ?r))\<bar> \<le> 1000 * last_place * G"
    using sum_clusters_error [OF cluster_length [OF assms(4,5)], of "share_in ?r"]
    unfolding perm shares G_def by (simp add: S_def comp_def)
  then have "\<bar>sum_list (map S (clusters model)) - 1\<bar> \<le> 1000 * last_place * G + 100000 * last_place * G"
    using shares_sum [OF a(1) assms(6,5), folded G_def] by (rule abs_trans)
  also have "\<dots> = 101000 * last_place * G" by simp
  also have "\<dots> \<le> 101000 * last_place * 10 ^ 20"
    using assms(7) last_place_small unfolding G_def by (intro mult_left_mono) auto
  also have "\<dots> \<le> 1 / 100" by (simp add: last_place_def)
  finally have "99 / 100 \<le> sum_list (map S (clusters model))" by linarith
  also have "\<dots> \<le> 40 / 100 * of_nat (length (filter ?held (clusters model)))"
    using touched untouched by (rule sum_at_most)
  finally have "2 < (of_nat (length (filter ?held (clusters model))) :: rat)" by simp
  then show ?thesis by simp
qed

section \<open>A diversified book\<close>

lemma round_math_exact:
  assumes "of_int \<lfloor>x * 10 ^ 20\<rfloor> = x * 10 ^ 20" "\<bar>x\<bar> < 10 ^ 30"
  shows "round_at MATH_PRECISION x = x"
proof (cases "x = 0")
  case False
  let ?e = "adjusted x"
  have "10 powi ?e \<le> \<bar>x\<bar>" by (rule adjusted_bounds(1) [OF False])
  also have "\<dots> < 10 powi 30" using assms(2) by simp
  finally have e: "?e < 30" using power_int_increasing [of 30 ?e "10 :: rat"] by linarith
  define k where "k = nat (29 - ?e)"
  have "(10::rat) powi int (20 + k) * 10 powi (?e - 49) = 10 powi (int (20 + k) + (?e - 49))"
    by (rule power_int_add [symmetric]) simp
  then have "10 ^ 20 * (10::rat) ^ k * unit_at MATH_PRECISION ?e = 10 powi (int (20 + k) + (?e - 49))"
    unfolding power_int_of_nat by (simp add: unit_at_def MATH_PRECISION_def power_add)
  also have "int (20 + k) + (?e - 49) = 0" using e by (simp add: k_def)
  finally have unit: "10 ^ 20 * (10::rat) ^ k * unit_at MATH_PRECISION ?e = 1" by simp
  then have "x / unit_at MATH_PRECISION ?e = x * 10 ^ 20 * 10 ^ k"
    by (simp add: divide_eq_eq mult.assoc)
  also have "\<dots> = of_int (\<lfloor>x * 10 ^ 20\<rfloor> * 10 ^ k)" by (simp only: of_int_mult assms(1) of_int_power of_int_numeral)
  finally have scaled: "x / unit_at MATH_PRECISION ?e = of_int (\<lfloor>x * 10 ^ 20\<rfloor> * 10 ^ k)" .
  have "round_at MATH_PRECISION x = of_int (round_half_even (x / unit_at MATH_PRECISION ?e)) * unit_at MATH_PRECISION ?e"
    using False by (simp add: round_at_def)
  also have "\<dots> = x / unit_at MATH_PRECISION ?e * unit_at MATH_PRECISION ?e"
    by (simp only: scaled round_half_even_of_int)
  finally show ?thesis by simp
qed simp

definition example_correlations :: table where
  "example_correlations = map (\<lambda>a. (a, map (\<lambda>b. (b, if a = b then 1 else 0)) [''A'', ''B'', ''C'', ''D'']))
     [''A'', ''B'', ''C'', ''D'']"

definition example_model :: risk_model where
  "example_model =
     \<lparr>model_symbols = [''A'', ''B'', ''C'', ''D''],
      daily_volatility_ratio = map (\<lambda>s. (s, 1 / 100)) [''A'', ''B'', ''C'', ''D''],
      correlations = \<lparr>matrix_symbols = [''A'', ''B'', ''C'', ''D''], entries = example_correlations\<rparr>,
      shrinkage_intensity_ratio = 0, psd_repair_ratio = 0,
      clusters = map (\<lambda>s. \<lparr>cluster_id = s, cluster_symbols = [s]\<rparr>) [''A'', ''B'', ''C'', ''D'']\<rparr>"

definition example_weights :: "(string \<times> rat) list" where
  "example_weights = map (\<lambda>s. (s, 1 / 10)) [''A'', ''B'', ''C'', ''D'']"

lemma covariances: "a \<in> {''A'', ''B'', ''C'', ''D''} \<Longrightarrow> b \<in> {''A'', ''B'', ''C'', ''D''} \<Longrightarrow>
    covariance_between example_model a b = Inr (if a = b then 1 / 10000 else 0)"
  by (auto simp: covariance_between_def example_model_def correlation_between_def get_entry_def example_correlations_def
      mmul_def round_math_exact)

lemma example_root: "msqrt (1 / 250000) = Inr (1 / 500)"
  by code_simp

definition example_contributions :: "risk_contribution list" where
  "example_contributions = map (\<lambda>s. \<lparr>contribution_symbol = s, weight_ratio = 1 / 10, marginal_contribution_ratio = 1 / 200,
     risk_contribution_ratio = 1 / 2000, risk_share_ratio = 1 / 4\<rparr>) [''A'', ''B'', ''C'', ''D'']"

lemma example_risk: "portfolio_risk_of example_weights example_model = Inr
  \<lparr>portfolio_volatility_ratio = 1 / 500, contributions = example_contributions,
   cluster_risk_share_ratio = map (\<lambda>s. (s, 1 / 4)) [''A'', ''B'', ''C'', ''D'']\<rparr>"
proof -
  have symbols: "model_symbols example_model = [''A'', ''B'', ''C'', ''D'']" by (simp add: example_model_def)
  have weights: "map (lookup_or_zero example_weights) (model_symbols example_model) = replicate 4 (1 / 10)"
    by (simp add: symbols example_weights_def lookup_or_zero_def numeral_eq_Suc)
  have entries: "covariance_weighted_entries example_model (replicate 4 (1 / 10)) = Inr (replicate 4 (1 / 100000))"
    by (simp add: covariance_weighted_entries_def symbols covariances msum_def madd_def mmul_def round_math_exact numeral_eq_Suc)
  have variance: "msum (map2 mmul (replicate 4 (1 / 10)) (replicate 4 (1 / 100000))) = 1 / 250000"
    by (simp add: msum_def madd_def mmul_def round_math_exact numeral_eq_Suc)
  have row: "contribution_for s (1 / 10) (1 / 100000) (1 / 500) = Inr \<lparr>contribution_symbol = s, weight_ratio = 1 / 10,
      marginal_contribution_ratio = 1 / 200, risk_contribution_ratio = 1 / 2000, risk_share_ratio = 1 / 4\<rparr>" for s
    by (simp add: contribution_for_def mdiv_def mmul_def round_math_exact)
  have rows: "map_result (\<lambda>(s, w, entry). contribution_for s w entry (1 / 500))
      (zip [''A'', ''B'', ''C'', ''D''] (replicate 4 (1 / 10, 1 / 100000))) = Inr example_contributions"
    by (simp add: row example_contributions_def numeral_eq_Suc)
  have shares: "cluster_shares example_model example_contributions = Inr (map (\<lambda>s. (s, 1 / 4)) [''A'', ''B'', ''C'', ''D''])"
    by (simp add: cluster_shares_def example_contributions_def example_model_def py_dict_def msum_def madd_def round_math_exact)
  have "set (map fst example_weights) \<subseteq> set (model_symbols example_model)" by (simp add: example_weights_def symbols)
  then show ?thesis
    unfolding portfolio_risk_of_def weights Let_def entries and_then_simps variance example_root
    by (simp add: rows shares symbols)
qed

lemma example_limits: "concentration_limits_post_init default_concentration_limits = Inr ()"
  by (simp add: concentration_limits_post_init_def assert_within_ceilings_ok CONCENTRATION_HARD_CEILINGS_def
      concentration_values_def default_concentration_limits_def)
    (intro conjI exI [of _ "1 / 4"] exI [of _ "7 / 20"]; simp)

lemma example_partition: "partitions_universe example_model"
  by (simp add: partitions_universe_def example_model_def cluster_post_init_def)

lemma example_held: "held_symbols example_weights = {''A'', ''B'', ''C'', ''D''}"
  by (simp add: held_symbols_def example_weights_def)

definition example_share_rows :: "risk_share_evaluation list" where
  "example_share_rows =
     map (\<lambda>s. \<lparr>share_limit_name = ''max_asset_risk_share_ratio'', scope_id = s, threshold_share_ratio = 35 / 100,
       observed_share_ratio = 1 / 4\<rparr>) [''A'', ''B'', ''C'', ''D'']
     @ map (\<lambda>s. \<lparr>share_limit_name = ''max_cluster_risk_share_ratio'', scope_id = s, threshold_share_ratio = 25 / 100,
       observed_share_ratio = 1 / 4\<rparr>) [''A'', ''B'', ''C'', ''D'']"

definition example_assessment :: concentration_assessment where
  "example_assessment =
     \<lparr>concentration_decided_at_utc = 0,
      assessed_portfolio_risk = \<lparr>portfolio_volatility_ratio = 1 / 500, contributions = example_contributions,
        cluster_risk_share_ratio = map (\<lambda>s. (s, 1 / 4)) [''A'', ''B'', ''C'', ''D'']\<rparr>,
      share_evaluations = example_share_rows, concentration_rejection = None\<rparr>"

lemma example_assessed:
  "assess_concentration example_weights example_model default_concentration_limits 0 = Inr example_assessment"
proof -
  let ?risk = "assessed_portfolio_risk example_assessment"
  have held: "held_symbols example_weights = {''A'', ''B'', ''C'', ''D''}" by (rule example_held)
  have "list_all (\<lambda>e. \<not> share_is_breached e) example_share_rows"
    by (simp add: example_share_rows_def breached_iff)
  then have none: "rejection_for example_share_rows 0 = None"
    using worst_breach_spec [of example_share_rows] by (simp add: rejection_for_def list_all_iff)
  have "cluster_rows default_concentration_limits ?risk example_model (held_symbols example_weights) =
      Inr (map (\<lambda>s. \<lparr>share_limit_name = ''max_cluster_risk_share_ratio'', scope_id = s, threshold_share_ratio = 25 / 100,
       observed_share_ratio = 1 / 4\<rparr>) [''A'', ''B'', ''C'', ''D''])"
    by (simp add: cluster_rows_def held example_model_def example_assessment_def default_concentration_limits_def)
  moreover have "asset_rows default_concentration_limits ?risk (held_symbols example_weights) =
      map (\<lambda>s. \<lparr>share_limit_name = ''max_asset_risk_share_ratio'', scope_id = s, threshold_share_ratio = 35 / 100,
       observed_share_ratio = 1 / 4\<rparr>) [''A'', ''B'', ''C'', ''D'']"
    by (simp add: asset_rows_def held example_assessment_def example_contributions_def default_concentration_limits_def)
  moreover have "portfolio_risk_of example_weights example_model = Inr ?risk"
    by (simp only: example_risk example_assessment_def select_convs)
  ultimately show ?thesis using none
    by (simp add: assess_concentration_def Let_def example_share_rows_def example_assessment_def)
qed

lemma example_shares_bounded: "(\<Sum>c\<leftarrow>example_contributions. \<bar>risk_share_ratio c\<bar>) \<le> 10 ^ 20"
  "(\<Sum>c\<leftarrow>example_contributions. \<bar>risk_contribution_ratio c\<bar>) \<le> 10 ^ 20"
  by (simp_all add: example_contributions_def)

theorem concentration_names_the_worst_witness:
  "concentration_is_approved example_assessment \<and> list_all (\<lambda>e. observed_share_ratio e \<le> threshold_share_ratio e) example_share_rows"
  using concentration_names_the_worst [OF example_assessed]
  by (simp add: example_assessment_def concentration_is_approved_def)

theorem contributions_sum_to_the_volatility_witness:
  "\<bar>sum_list (map risk_contribution_ratio example_contributions) - 1 / 500\<bar> \<le> RISK_CONTRIBUTION_TOLERANCE"
  using contributions_sum_to_the_volatility [OF example_risk] example_shares_bounded(2)
  by (simp add: is_degenerate_def example_model_def)

theorem approved_book_spreads_witness:
  "3 \<le> length (filter (\<lambda>c. held_symbols example_weights \<inter> set (cluster_symbols c) \<noteq> {}) (clusters example_model))"
  using example_assessed _ example_limits example_partition
proof (rule approved_book_spreads)
  show "concentration_is_approved example_assessment"
    by (simp add: concentration_is_approved_def example_assessment_def)
qed (use example_shares_bounded in \<open>simp_all add: example_model_def example_assessment_def is_degenerate_def\<close>)

end
