(* ===== verification/Decisions.thy ===== *)
theory Decisions
  imports Portfolios KillSwitch Drawdown Netting Sizing Calibration Concentration
begin

text \<open>
  \<open>src/fking/risk/engine.py\<close>: \<open>RiskEngine.decide\<close>, which turns a batch of signals into net
  orders and audited refusals by composing the kill-switch gate, the drawdown limits, the
  pre-trade limits, the conviction channel, sizing, netting and the concentration limits.
  The clock is read once and its answer, an instant in UTC, is an argument; UUIDs are numbers;
  the text renderings and digests of \<open>_order_identity\<close> are an argument, a codec. The wording of
  a refusal is not modelled, the limit it names is.
\<close>

section \<open>Market, strategies, portfolio\<close>

definition require_finite_decimal :: "pyobj \<Rightarrow> string \<Rightarrow> rat result" where
  "require_finite_decimal = decimal_guard DomainError"

record instrument_market_state =
  market_instrument :: instrument
  mark_usd :: rat
  mid_quote_price :: rat
  market_atr_14_quote :: rat
  market_return_series :: "rat list"
  market_volatility_floor :: rat

definition positive_price :: "rat \<Rightarrow> string \<Rightarrow> unit result" where
  "positive_price price field =
     and_then (require_finite_decimal (dec price) field) (\<lambda>x.
       if x \<le> 0 then Inl (DomainError (field @ '' not positive'')) else Inr ())"

definition instrument_market_state_post_init :: "instrument_market_state \<Rightarrow> unit result" where
  [post_init_defs]: "instrument_market_state_post_init m = run_checks
     [positive_price (mark_usd m) ''mark_usd'', positive_price (mid_quote_price m) ''mid_quote_price'']"

record market_state =
  market_instruments :: "(instrument \<times> instrument_market_state) list"
  market_risk_model :: risk_model

definition market_state_post_init :: "market_state \<Rightarrow> unit result" where
  [post_init_defs]: "market_state_post_init m = run_checks
     (map (\<lambda>(i, state). ensure (market_instrument state = i) (DomainError ''instruments key''))
       (market_instruments m))"

definition marks_usd :: "market_state \<Rightarrow> marks" where
  "marks_usd m = map (\<lambda>(i, state). (i, mark_usd state)) (market_instruments m)"

record strategy_state =
  record_strategy_id :: string
  record_calibration :: calibration_map
  record_closed_trade_count :: int
  record_realised_mean :: rat
  record_realised_stdev :: rat
  record_drawdown_state :: "drawdown_state option"

definition strategy_state_post_init :: "strategy_state \<Rightarrow> unit result" where
  [post_init_defs]: "strategy_state_post_init s =
     ensure (calibration_strategy_id (record_calibration s) = record_strategy_id s) (DomainError ''calibration map'')"

record portfolio_state =
  held_portfolio :: portfolio
  portfolio_equity_usd :: rat
  portfolio_strategies :: "(string \<times> strategy_state) list"
  portfolio_drawdown_state :: "drawdown_state option"

definition portfolio_state_post_init :: "portfolio_state \<Rightarrow> unit result" where
  [post_init_defs]: "portfolio_state_post_init p = run_checks
     (void (require_finite_decimal (dec (portfolio_equity_usd p)) ''equity_usd'')
      # map (\<lambda>(name, state). ensure (record_strategy_id state = name) (DomainError ''strategies key''))
          (portfolio_strategies p))"

section \<open>Policy\<close>

record risk_policy =
  policy_limits :: risk_limits
  policy_exposure_limits :: exposure_limits
  policy_concentration_limits :: concentration_limits
  policy_sizing_parameters :: sizing_parameters
  policy_conviction_parameters :: conviction_parameters
  policy_portfolio_budgets :: drawdown_budgets
  policy_strategy_budgets :: drawdown_budgets
  policy_tradable_symbols :: "string set"

definition default_portfolio_budgets :: drawdown_budgets where
  "default_portfolio_budgets =
     \<lparr>budgets_scope = PortfolioScope, budget_drawdown_ratio = 10 / 100, budget_daily_loss_ratio = 3 / 100\<rparr>"

definition default_strategy_budgets :: drawdown_budgets where
  "default_strategy_budgets =
     \<lparr>budgets_scope = StrategyScope, budget_drawdown_ratio = 15 / 100, budget_daily_loss_ratio = 3 / 100\<rparr>"

section \<open>Stages\<close>

datatype stage =
    StageKillSwitch
  | StagePortfolioDrawdown
  | StageSignalAdmission
  | StageConviction
  | StageExposure
  | StageSizing
  | StageNetting
  | StageConcentration
  | StageOrderConstruction

definition STAGES :: "stage list" where
  "STAGES = [StageKillSwitch, StagePortfolioDrawdown, StageSignalAdmission, StageConviction, StageExposure,
     StageSizing, StageNetting, StageConcentration, StageOrderConstruction]"

section \<open>Audits and batches\<close>

record signal_audit =
  audit_strategy_id :: string
  audit_instrument :: instrument
  audit_direction :: direction
  audit_decided_at_utc :: int
  audit_verdict :: risk_verdict
  audit_stage :: stage
  audit_rejection :: "rejection option"
  audit_conviction :: "conviction_assessment option"
  audit_exposure :: "exposure_assessment option"
  audit_sizing :: "position_sizing option"
  audit_portfolio_drawdown :: "limit_verdict option"
  audit_strategy_drawdown :: "limit_verdict option"
  audit_portfolio_budgets :: "drawdown_budgets option"
  audit_strategy_budgets :: "drawdown_budgets option"
  audit_concentration :: "concentration_assessment option"
  audit_client_order_id :: "string option"
  audit_attributed_quantity :: "rat option"
  audit_booked_quote_price :: "rat option"

definition audit_is_approved :: "signal_audit \<Rightarrow> bool" where
  "audit_is_approved a \<longleftrightarrow> audit_verdict a = APPROVED"

record limit_row =
  row_limit_name :: string
  row_threshold :: rat
  row_observed :: rat
  row_is_breached :: bool

definition drawdown_rows :: "string \<Rightarrow> limit_verdict option \<Rightarrow> drawdown_budgets option \<Rightarrow> limit_row list" where
  "drawdown_rows scope scope_verdict scope_budgets =
     (case (scope_verdict, scope_budgets) of
        (Some v, Some b) \<Rightarrow> map (\<lambda>(name, observed).
           \<lparr>row_limit_name = scope @ ''_'' @ limit_text name, row_threshold = budget_for b name,
            row_observed = observed,
            row_is_breached = (case verdict_breach v of None \<Rightarrow> False | Some x \<Rightarrow> breach_limit_name x = name)\<rparr>)
           (observed_ratios v)
      | _ \<Rightarrow> [])"

definition limit_rows :: "signal_audit \<Rightarrow> limit_row list" where
  "limit_rows a =
     (case audit_conviction a of None \<Rightarrow> [] | Some c \<Rightarrow>
        [\<lparr>row_limit_name = ''conviction_floor'', row_threshold = assessed_conviction_floor c,
          row_observed = assessed_conviction c, row_is_breached = (\<not> conviction_is_approved c)\<rparr>])
     @ (case audit_exposure a of None \<Rightarrow> [] | Some e \<Rightarrow>
        map (\<lambda>r. \<lparr>row_limit_name = evaluated_limit_name r, row_threshold = threshold_usd r,
          row_observed = observed_usd r, row_is_breached = Exposure.is_breached r\<rparr>) (evaluations e))
     @ drawdown_rows ''portfolio'' (audit_portfolio_drawdown a) (audit_portfolio_budgets a)
     @ drawdown_rows ''strategy'' (audit_strategy_drawdown a) (audit_strategy_budgets a)
     @ (case audit_concentration a of None \<Rightarrow> [] | Some c \<Rightarrow>
        map (\<lambda>r. \<lparr>row_limit_name = share_limit_name r @ '':'' @ scope_id r, row_threshold = threshold_share_ratio r,
          row_observed = observed_share_ratio r, row_is_breached = share_is_breached r\<rparr>) (share_evaluations c))"

datatype decision_outcome = Placed order | Refused rejection

record decision_batch =
  batch_correlation_id :: nat
  batch_decided_at_utc :: int
  outcomes :: "decision_outcome list"
  plans :: "net_order_plan list"
  audits :: "signal_audit list"
  stages_executed :: "stage list"

definition batch_orders :: "decision_batch \<Rightarrow> order list" where
  "batch_orders b = concat (map (\<lambda>x. case x of Placed r \<Rightarrow> [r] | Refused _ \<Rightarrow> []) (outcomes b))"

definition batch_rejections :: "decision_batch \<Rightarrow> rejection list" where
  "batch_rejections b = concat (map (\<lambda>x. case x of Placed _ \<Rightarrow> [] | Refused r \<Rightarrow> [r]) (outcomes b))"

definition batch_residuals :: "decision_batch \<Rightarrow> crossing_residual list" where
  "batch_residuals b = concat (map (\<lambda>p. case residual p of None \<Rightarrow> [] | Some r \<Rightarrow> [r]) (plans b))"

definition attributions_for :: "decision_batch \<Rightarrow> instrument \<Rightarrow> attribution list" where
  "attributions_for b i =
     (case find (\<lambda>p. plan_instrument p = i) (plans b) of None \<Rightarrow> [] | Some p \<Rightarrow> attributions p)"

record admitted =
  admitted_signal :: signal
  admitted_market :: instrument_market_state
  admitted_request :: strategy_request
  admitted_conviction :: "conviction_assessment option"
  admitted_exposure :: exposure_assessment
  admitted_sizing :: "position_sizing option"
  admitted_strategy_drawdown :: "limit_verdict option"

definition plain_audit ::
  "risk_policy \<Rightarrow> int \<Rightarrow> limit_verdict option \<Rightarrow> signal \<Rightarrow> stage \<Rightarrow> rejection \<Rightarrow> limit_verdict option
     \<Rightarrow> conviction_assessment option \<Rightarrow> exposure_assessment option \<Rightarrow> position_sizing option \<Rightarrow> signal_audit" where
  "plain_audit policy now_utc portfolio_verdict s stage refusal strategy_verdict assessed exposure sizing =
     \<lparr>audit_strategy_id = strategy_id s, audit_instrument = signal_instrument s,
      audit_direction = signal_direction s, audit_decided_at_utc = now_utc, audit_verdict = REJECTED,
      audit_stage = stage, audit_rejection = Some refusal, audit_conviction = assessed,
      audit_exposure = exposure, audit_sizing = sizing, audit_portfolio_drawdown = portfolio_verdict,
      audit_strategy_drawdown = strategy_verdict,
      audit_portfolio_budgets = Some (policy_portfolio_budgets policy),
      audit_strategy_budgets = Some (policy_strategy_budgets policy),
      audit_concentration = None, audit_client_order_id = None, audit_attributed_quantity = None,
      audit_booked_quote_price = None\<rparr>"

definition audit_for ::
  "risk_policy \<Rightarrow> int \<Rightarrow> limit_verdict option \<Rightarrow> admitted \<Rightarrow> stage \<Rightarrow> rejection option
     \<Rightarrow> concentration_assessment option \<Rightarrow> attribution option \<Rightarrow> string option \<Rightarrow> signal_audit" where
  "audit_for policy now_utc portfolio_verdict a stage refusal concentration slice client =
     \<lparr>audit_strategy_id = strategy_id (admitted_signal a), audit_instrument = signal_instrument (admitted_signal a),
      audit_direction = signal_direction (admitted_signal a), audit_decided_at_utc = now_utc,
      audit_verdict = (if refusal \<noteq> None then REJECTED else APPROVED),
      audit_stage = stage, audit_rejection = refusal, audit_conviction = admitted_conviction a,
      audit_exposure = Some (admitted_exposure a), audit_sizing = admitted_sizing a,
      audit_portfolio_drawdown = portfolio_verdict,
      audit_strategy_drawdown = admitted_strategy_drawdown a,
      audit_portfolio_budgets = Some (policy_portfolio_budgets policy),
      audit_strategy_budgets = Some (policy_strategy_budgets policy),
      audit_concentration = concentration, audit_client_order_id = client,
      audit_attributed_quantity = map_option attributed_base_quantity slice,
      audit_booked_quote_price = map_option booked_quote_price slice\<rparr>"

section \<open>The kill switch and the portfolio-wide halts\<close>

definition refuse_batch ::
  "risk_policy \<Rightarrow> signal list \<Rightarrow> int \<Rightarrow> nat \<Rightarrow> stage list \<Rightarrow> stage \<Rightarrow> string \<Rightarrow> limit_verdict option \<Rightarrow> decision_batch" where
  "refuse_batch policy signals now_utc correlation stages stage limit portfolio_verdict =
     (let refusal = \<lparr>binding_limit_name = limit, rejected_at_utc = now_utc\<rparr>
      in \<lparr>batch_correlation_id = correlation, batch_decided_at_utc = now_utc,
          outcomes = map (\<lambda>_. Refused refusal) signals, plans = [],
          audits = map (\<lambda>s. (plain_audit policy now_utc portfolio_verdict s stage refusal None None None None)
            \<lparr>audit_strategy_budgets := None\<rparr>) signals,
          stages_executed = stages\<rparr>)"

definition halted_batch :: "risk_policy \<Rightarrow> signal list \<Rightarrow> int \<Rightarrow> nat \<Rightarrow> decision_batch" where
  "halted_batch policy signals now_utc correlation =
     refuse_batch policy signals now_utc correlation [StageKillSwitch] StageKillSwitch ''kill_switch'' None"

text \<open>Why the whole batch must be refused: the name of the limit that binds, if one does.\<close>

definition portfolio_halt_reason ::
  "portfolio_state \<Rightarrow> market_state \<Rightarrow> limit_verdict option \<Rightarrow> string option" where
  "portfolio_halt_reason p m portfolio_verdict =
     (let held = open_positions (held_portfolio p)
      in if filter (\<lambda>x. map_of (market_instruments m) (position_instrument x) = None) held \<noteq> []
         then Some ''market_state_present''
         else if (symbol \<circ> position_instrument) ` set held - set (model_symbols (market_risk_model m)) \<noteq> {}
         then Some ''risk_model_coverage''
         else if portfolio_equity_usd p \<le> 0 then Some ''equity_usd''
         else if portfolio_drawdown_state p = None \<and> held \<noteq> [] then Some ''drawdown_state_present''
         else case Option.bind portfolio_verdict verdict_breach of
             Some breach \<Rightarrow> Some (''portfolio_'' @ limit_text (breach_limit_name breach))
           | None \<Rightarrow> None)"

section \<open>Admission, conviction, exposure, sizing\<close>

definition admission_refusal ::
  "(string \<times> instrument) set \<Rightarrow> portfolio_state \<Rightarrow> market_state \<Rightarrow> int \<Rightarrow> signal \<Rightarrow> string option" where
  "admission_refusal seen p m now_utc s =
     (if (strategy_id s, signal_instrument s) \<in> seen then Some ''duplicate_signal''
      else if signal_decided_at_utc s > now_utc then Some ''signal_not_from_the_future''
      else if map_of (portfolio_strategies p) (strategy_id s) = None then Some ''strategy_record_present''
      else if map_of (market_instruments m) (signal_instrument s) = None then Some ''market_state_present''
      else if symbol (signal_instrument s) \<notin> set (model_symbols (market_risk_model m))
      then Some ''risk_model_coverage''
      else None)"

definition with_risk_fraction :: "sizing_parameters \<Rightarrow> rat \<Rightarrow> sizing_parameters result" where
  "with_risk_fraction parameters fraction =
     construct sizing_parameters_post_init (parameters\<lparr>risk_fraction_per_trade := fraction\<rparr>)"

text \<open>\<open>Inl\<close> of the inner sum is the audited refusal, \<open>Inr\<close> the admitted request.\<close>

definition size_directional ::
  "risk_policy \<Rightarrow> int \<Rightarrow> limit_verdict option \<Rightarrow> rat \<Rightarrow> signal \<Rightarrow> strategy_state \<Rightarrow> instrument_market_state
     \<Rightarrow> exposure_assessment \<Rightarrow> limit_verdict option \<Rightarrow> (signal_audit + admitted) result" where
  "size_directional policy now_utc portfolio_verdict equity s strategy market exposure strategy_verdict =
     and_then (assess_conviction s (record_calibration strategy) (policy_conviction_parameters policy) (utc now_utc))
       (\<lambda>assessed.
     case conviction_rejection assessed of
       Some refusal \<Rightarrow> Inr (Inl (plain_audit policy now_utc portfolio_verdict s StageConviction refusal
         strategy_verdict (Some assessed) (Some exposure) None))
     | None \<Rightarrow>
     (case assessed_risk_fraction assessed of
        None \<Rightarrow> Inl (DomainError ''no risk fraction'')
      | Some fraction \<Rightarrow>
     and_then (construct sizing_inputs_post_init
         \<lparr>sizing_instrument = signal_instrument s, sizing_direction = signal_direction s,
          sizing_equity_usd = equity, entry_quote_price = mark_usd market,
          stated_invalidation = invalidation_quote_price s,
          atr_14_quote = market_atr_14_quote market, return_series = market_return_series market,
          volatility_floor_annualised = market_volatility_floor market,
          closed_trade_count = record_closed_trade_count strategy,
          realised_mean_return_fraction = record_realised_mean strategy,
          realised_return_stdev_fraction = record_realised_stdev strategy,
          sizing_permitted_notional_usd = permitted_notional_usd exposure\<rparr>) (\<lambda>sizing_input.
     and_then (with_risk_fraction (policy_sizing_parameters policy) fraction) (\<lambda>parameters.
     and_then (size_position sizing_input parameters) (\<lambda>sizing.
     let derisk = (case portfolio_verdict of None \<Rightarrow> 1 | Some v \<Rightarrow> derisk_multiplier v);
         scaled = (case strategy_verdict of None \<Rightarrow> derisk | Some v \<Rightarrow> min derisk (derisk_multiplier v))
     in and_then (quantize_base_quantity (signal_instrument s) (dmul (sized_base_quantity sizing) scaled)) (\<lambda>quantity.
        if quantity \<le> 0 \<or> \<not> meets_min_notional (signal_instrument s) quantity (mark_usd market)
        then Inr (Inl (plain_audit policy now_utc portfolio_verdict s StageSizing
          \<lparr>binding_limit_name = ''min_notional_quote'', rejected_at_utc = now_utc\<rparr>
          strategy_verdict (Some assessed) (Some exposure) (Some sizing)))
        else and_then (construct strategy_request_post_init
            \<lparr>request_strategy_id = strategy_id s,
             requested_base_quantity = (if signal_direction s = LONG then quantity else dneg quantity)\<rparr>) (\<lambda>request.
          Inr (Inr \<lparr>admitted_signal = s, admitted_market = market, admitted_request = request,
            admitted_conviction = Some assessed, admitted_exposure = exposure, admitted_sizing = Some sizing,
            admitted_strategy_drawdown = strategy_verdict\<rparr>))))))))"

text \<open>The dict of what is left to close of each instrument's position, as its items.\<close>

type_synonym closing = "(instrument \<times> rat) list"

definition flatten_request ::
  "portfolio \<Rightarrow> closing \<Rightarrow> signal \<Rightarrow> instrument_market_state \<Rightarrow> exposure_assessment \<Rightarrow> limit_verdict option
     \<Rightarrow> (admitted \<times> closing) result" where
  "flatten_request portfolio remaining s market exposure strategy_verdict =
     (let open_quantity = (case map_of remaining (signal_instrument s) of
            Some x \<Rightarrow> x
          | None \<Rightarrow> (case position_for portfolio (signal_instrument s) of
                None \<Rightarrow> 0 | Some held \<Rightarrow> signed_base_quantity held))
      in and_then (construct strategy_request_post_init
           \<lparr>request_strategy_id = strategy_id s, requested_base_quantity = dneg open_quantity\<rparr>) (\<lambda>request.
         Inr (\<lparr>admitted_signal = s, admitted_market = market, admitted_request = request,
            admitted_conviction = None, admitted_exposure = exposure, admitted_sizing = None,
            admitted_strategy_drawdown = strategy_verdict\<rparr>,
          AList.update (signal_instrument s) 0 remaining)))"

definition pre_trade_context_of :: "risk_policy \<Rightarrow> portfolio_state \<Rightarrow> pre_trade_context" where
  "pre_trade_context_of policy p =
     \<lparr>context_equity_usd = portfolio_equity_usd p, context_exposure_limits = policy_exposure_limits policy,
      context_absolute_limits = policy_limits policy, tradable_symbols = policy_tradable_symbols policy\<rparr>"

definition evaluated_drawdown :: "drawdown_state option \<Rightarrow> drawdown_budgets \<Rightarrow> limit_verdict option result" where
  "evaluated_drawdown state budgets =
     (case state of None \<Rightarrow> Inr None | Some d \<Rightarrow> and_then (evaluate d budgets) (\<lambda>v. Inr (Some v)))"

text \<open>One pass of the loop over an admitted signal: the refusal, or the request and what is left to close.\<close>

definition size_signal ::
  "risk_policy \<Rightarrow> portfolio_state \<Rightarrow> market_state \<Rightarrow> int \<Rightarrow> limit_verdict option \<Rightarrow> closing \<Rightarrow> signal
     \<Rightarrow> (signal_audit + admitted \<times> closing) result" where
  "size_signal policy p m now_utc portfolio_verdict remaining s =
     (case (map_of (portfolio_strategies p) (strategy_id s), map_of (market_instruments m) (signal_instrument s)) of
        (Some strategy, Some market) \<Rightarrow>
          and_then (evaluated_drawdown (record_drawdown_state strategy) (policy_strategy_budgets policy)) (\<lambda>strategy_verdict.
          case Option.bind strategy_verdict verdict_breach of
            Some breach \<Rightarrow> Inr (Inl (plain_audit policy now_utc portfolio_verdict s StageSignalAdmission
              \<lparr>binding_limit_name = ''strategy_'' @ limit_text (breach_limit_name breach), rejected_at_utc = now_utc\<rparr>
              strategy_verdict None None None))
          | None \<Rightarrow>
          and_then (validate_pre_trade s (held_portfolio p) (marks_usd m) (pre_trade_context_of policy p) now_utc) (\<lambda>exposure.
          case exposure_rejection exposure of
            Some refusal \<Rightarrow> Inr (Inl (plain_audit policy now_utc portfolio_verdict s StageExposure refusal
              strategy_verdict None (Some exposure) None))
          | None \<Rightarrow>
            if signal_direction s = FLAT
            then and_then (flatten_request (held_portfolio p) remaining s market exposure strategy_verdict) (\<lambda>x. Inr (Inr x))
            else and_then (size_directional policy now_utc portfolio_verdict (portfolio_equity_usd p) s strategy market
                   exposure strategy_verdict) (\<lambda>sized.
                 case sized of Inl audit \<Rightarrow> Inr (Inl audit) | Inr a \<Rightarrow> Inr (Inr (a, remaining)))))
      | _ \<Rightarrow> Inl KeyError)"

fun size_signals ::
  "risk_policy \<Rightarrow> portfolio_state \<Rightarrow> market_state \<Rightarrow> int \<Rightarrow> limit_verdict option
     \<Rightarrow> (string \<times> instrument) set \<Rightarrow> closing \<Rightarrow> signal list \<Rightarrow> (admitted list \<times> signal_audit list) result" where
  "size_signals policy p m now_utc portfolio_verdict seen remaining [] = Inr ([], [])"
| "size_signals policy p m now_utc portfolio_verdict seen remaining (s # signals) =
     (case admission_refusal seen p m now_utc s of
        Some limit \<Rightarrow>
          and_then (size_signals policy p m now_utc portfolio_verdict seen remaining signals) (\<lambda>(found, refusals).
            Inr (found, plain_audit policy now_utc portfolio_verdict s StageSignalAdmission
              \<lparr>binding_limit_name = limit, rejected_at_utc = now_utc\<rparr> None None None None # refusals))
      | None \<Rightarrow>
          let seen = insert (strategy_id s, signal_instrument s) seen
          in and_then (size_signal policy p m now_utc portfolio_verdict remaining s) (\<lambda>sized.
             case sized of
               Inl audit \<Rightarrow>
                 and_then (size_signals policy p m now_utc portfolio_verdict seen remaining signals) (\<lambda>(found, refusals).
                   Inr (found, audit # refusals))
             | Inr (a, remaining) \<Rightarrow>
                 and_then (size_signals policy p m now_utc portfolio_verdict seen remaining signals) (\<lambda>(found, refusals).
                   Inr (a # found, refusals))))"

text \<open>The list of refusals grows with the audits: every audited refusal carries its rejection.\<close>

definition refusals_of :: "signal_audit list \<Rightarrow> decision_outcome list" where
  "refusals_of rows = map Refused (List.map_filter audit_rejection rows)"

section \<open>Netting\<close>

definition group_admitted :: "admitted list \<Rightarrow> (instrument \<times> admitted list) list" where
  "group_admitted found = foldl (\<lambda>grouped a.
     let i = signal_instrument (admitted_signal a)
     in AList.update i ((case map_of grouped i of None \<Rightarrow> [] | Some g \<Rightarrow> g) @ [a]) grouped) [] found"

fun net_groups ::
  "market_state \<Rightarrow> int \<Rightarrow> (instrument \<times> admitted list) list
     \<Rightarrow> (net_order_plan list \<times> admitted list \<times> (admitted \<times> rejection) list) result" where
  "net_groups m now_utc [] = Inr ([], [], [])"
| "net_groups m now_utc ((i, members) # grouped) =
     (case map_of (market_instruments m) i of
        None \<Rightarrow> Inl KeyError
      | Some market \<Rightarrow>
          and_then (net_requests i (map admitted_request members) (dec (mark_usd market)) (dec (mid_quote_price market))) (\<lambda>plan.
          and_then (net_groups m now_utc grouped) (\<lambda>(found, netted, refused).
            if has_venue_portion plan
               \<and> \<not> meets_min_notional i (dabs (net_signed_base_quantity plan)) (mark_usd market)
            then Inr (found, netted,
              map (\<lambda>a. (a, \<lparr>binding_limit_name = ''net_min_notional_quote'', rejected_at_utc = now_utc\<rparr>)) members @ refused)
            else Inr (plan # found, members @ netted, refused))))"

section \<open>Concentration of the prospective book\<close>

primrec held_notionals :: "market_state \<Rightarrow> (string \<times> rat) list \<Rightarrow> position list \<Rightarrow> (string \<times> rat) list result" where
  "held_notionals m items [] = Inr items"
| "held_notionals m items (held # rest) =
     (case map_of (market_instruments m) (position_instrument held) of
        None \<Rightarrow> Inl KeyError
      | Some market \<Rightarrow> held_notionals m
          (add_to (symbol (position_instrument held)) (dmul (signed_base_quantity held) (mark_usd market)) items) rest)"

definition prospective_notionals ::
  "net_order_plan list \<Rightarrow> portfolio_state \<Rightarrow> market_state \<Rightarrow> (string \<times> rat) list result" where
  "prospective_notionals found p m =
     and_then (held_notionals m [] (open_positions (held_portfolio p))) (\<lambda>items. Inr
       (foldl (\<lambda>items plan. add_to (plan_symbol plan) (venue_signed_notional_quote plan) items) items found))"

definition assess_prospective_book ::
  "risk_policy \<Rightarrow> net_order_plan list \<Rightarrow> portfolio_state \<Rightarrow> market_state \<Rightarrow> int \<Rightarrow> concentration_assessment result" where
  "assess_prospective_book policy found p m now_utc =
     and_then (prospective_notionals found p m) (\<lambda>notionals.
     and_then (weight_ratios_from_notional notionals (portfolio_equity_usd p)) (\<lambda>weights.
       assess_concentration weights (market_risk_model m) (policy_concentration_limits policy) now_utc))"

section \<open>Order construction\<close>

text \<open>What the standard library supplies: renderings as text, SHA-256 in hexadecimal and UUIDv5.\<close>

record identity_codec =
  uuid_text :: "nat \<Rightarrow> string"
  int_text :: "int \<Rightarrow> string"
  fixed_point_text :: "rat \<Rightarrow> string"
  instant_text :: "int \<Rightarrow> string"
  sha256_hex :: "string \<Rightarrow> string"
  uuid5 :: "nat \<Rightarrow> string \<Rightarrow> nat"

primrec side_value :: "side \<Rightarrow> string" where
  "side_value BUY = ''buy''"
| "side_value SELL = ''sell''"

definition ORDER_ID_NAMESPACE :: nat where
  "ORDER_ID_NAMESPACE = 0x6f2b7d647f435f9c9f0e2c9c8f9a4d11"

definition CLIENT_ORDER_ID_DIGEST_LENGTH :: nat where
  "CLIENT_ORDER_ID_DIGEST_LENGTH = 32"

fun joined :: "string list \<Rightarrow> string" where
  "joined [] = []"
| "joined [x] = x"
| "joined (x # xs) = x @ ''|'' @ joined xs"

definition identity_material ::
  "identity_codec \<Rightarrow> nat \<Rightarrow> int \<Rightarrow> instrument \<Rightarrow> side \<Rightarrow> rat \<Rightarrow> int \<Rightarrow> string" where
  "identity_material codec correlation seed i side quantity now_utc = joined
     [uuid_text codec correlation, int_text codec seed, venue_value (venue i), symbol i, side_value side,
      fixed_point_text codec quantity, instant_text codec now_utc]"

definition order_identity ::
  "identity_codec \<Rightarrow> nat \<Rightarrow> int \<Rightarrow> instrument \<Rightarrow> side \<Rightarrow> rat \<Rightarrow> int \<Rightarrow> nat \<times> string" where
  "order_identity codec correlation seed i side quantity now_utc =
     (let material = identity_material codec correlation seed i side quantity now_utc
      in (uuid5 codec ORDER_ID_NAMESPACE material,
          ''fk-'' @ take CLIENT_ORDER_ID_DIGEST_LENGTH (sha256_hex codec material)))"

definition order_for :: "identity_codec \<Rightarrow> nat \<Rightarrow> int \<Rightarrow> int \<Rightarrow> net_order_plan \<Rightarrow> order result" where
  "order_for codec correlation seed now_utc plan =
     (let side = (if net_signed_base_quantity plan > 0 then BUY else SELL);
          quantity = dabs (net_signed_base_quantity plan);
          identity = order_identity codec correlation seed (plan_instrument plan) side quantity now_utc
      in construct order_post_init
           \<lparr>order_id = fst identity, client_order_id = snd identity, order_correlation_id = correlation,
            order_instrument = plan_instrument plan, order_side = side, order_type_of = MARKET, time_in_force = IOC,
            order_base_quantity = quantity, limit_quote_price = None, created_at_utc = now_utc\<rparr>)"

fun construct_orders ::
  "identity_codec \<Rightarrow> nat \<Rightarrow> int \<Rightarrow> int \<Rightarrow> (instrument \<times> order) list \<Rightarrow> net_order_plan list
     \<Rightarrow> (instrument \<times> order) list result" where
  "construct_orders codec correlation seed now_utc found [] = Inr found"
| "construct_orders codec correlation seed now_utc found (plan # rest) =
     (if \<not> has_venue_portion plan then construct_orders codec correlation seed now_utc found rest
      else and_then (order_for codec correlation seed now_utc plan) (\<lambda>r.
        construct_orders codec correlation seed now_utc (AList.update (plan_instrument plan) r found) rest))"

definition approved_audit ::
  "risk_policy \<Rightarrow> int \<Rightarrow> limit_verdict option \<Rightarrow> concentration_assessment \<Rightarrow> net_order_plan list
     \<Rightarrow> (instrument \<times> order) list \<Rightarrow> admitted \<Rightarrow> signal_audit result" where
  "approved_audit policy now_utc portfolio_verdict concentration found placed a =
     (case find (\<lambda>plan. plan_instrument plan = signal_instrument (admitted_signal a)) (rev found) of
        None \<Rightarrow> Inl KeyError
      | Some plan \<Rightarrow>
          (case find (\<lambda>x. attributed_strategy_id x = strategy_id (admitted_signal a)) (attributions plan) of
             None \<Rightarrow> Inl StopIteration
           | Some slice \<Rightarrow> Inr (audit_for policy now_utc portfolio_verdict a StageOrderConstruction None
               (Some concentration) (Some slice) (map_option client_order_id (map_of placed (plan_instrument plan))))))"

section \<open>The decision\<close>

definition sized_batch ::
  "risk_policy \<Rightarrow> identity_codec \<Rightarrow> portfolio_state \<Rightarrow> market_state \<Rightarrow> int \<Rightarrow> nat \<Rightarrow> int \<Rightarrow> limit_verdict option
     \<Rightarrow> signal list \<Rightarrow> decision_batch result" where
  "sized_batch policy codec p m now_utc correlation seed portfolio_verdict signals =
     and_then (size_signals policy p m now_utc portfolio_verdict {} [] signals) (\<lambda>(found, refusals).
     and_then (net_groups m now_utc (group_admitted found)) (\<lambda>(found_plans, netted, refused_groups).
     let group_rows = map (\<lambda>(a, refusal).
           audit_for policy now_utc portfolio_verdict a StageNetting (Some refusal) None None None) refused_groups;
         rows = refusals @ group_rows;
         refused_outcomes = refusals_of refusals @ map (\<lambda>(_, refusal). Refused refusal) refused_groups
     in and_then (assess_prospective_book policy found_plans p m now_utc) (\<lambda>assessment.
        case concentration_rejection assessment of
          Some refusal \<Rightarrow> Inr
            \<lparr>batch_correlation_id = correlation, batch_decided_at_utc = now_utc,
             outcomes = refused_outcomes @ map (\<lambda>_. Refused refusal) netted, plans = [],
             audits = rows @ map (\<lambda>a. audit_for policy now_utc portfolio_verdict a StageConcentration (Some refusal)
               None None None) netted,
             stages_executed = butlast STAGES\<rparr>
        | None \<Rightarrow>
            and_then (construct_orders codec correlation seed now_utc [] found_plans) (\<lambda>placed.
            and_then (map_result (approved_audit policy now_utc portfolio_verdict assessment found_plans placed) netted)
              (\<lambda>approved. Inr
              \<lparr>batch_correlation_id = correlation, batch_decided_at_utc = now_utc,
               outcomes = refused_outcomes @ map (Placed \<circ> snd) placed, plans = found_plans,
               audits = rows @ approved, stages_executed = STAGES\<rparr>)))))"

text \<open>\<open>now_utc\<close> is the one answer of the injected clock, on both paths.\<close>

definition decide ::
  "risk_policy \<Rightarrow> kill_switch_gate \<Rightarrow> identity_codec \<Rightarrow> signal list \<Rightarrow> portfolio_state \<Rightarrow> market_state \<Rightarrow> int
     \<Rightarrow> nat \<Rightarrow> int \<Rightarrow> decision_batch result" where
  "decide policy gate codec signals p m now_utc correlation seed =
     (case ensure_trading gate of
        Inl (KillSwitchTrippedError _) \<Rightarrow> Inr (halted_batch policy signals now_utc correlation)
      | Inl e \<Rightarrow> Inl e
      | Inr _ \<Rightarrow>
          and_then (evaluated_drawdown (portfolio_drawdown_state p) (policy_portfolio_budgets policy)) (\<lambda>portfolio_verdict.
          case portfolio_halt_reason p m portfolio_verdict of
            Some limit \<Rightarrow> Inr (refuse_batch policy signals now_utc correlation
              [StageKillSwitch, StagePortfolioDrawdown] StagePortfolioDrawdown limit portfolio_verdict)
          | None \<Rightarrow> sized_batch policy codec p m now_utc correlation seed portfolio_verdict signals))"

end
