(* ===== verification/Decision_Audits.thy ===== *)
theory Decision_Audits
  imports Decisions
begin

text \<open>
  What \<open>RiskEngine.decide\<close> promises of a batch: every signal is audited once, no order leaves
  without every gate, the orders are the net plans and nothing else, and a batch that only
  flattens can only reduce. The sections follow the stages of the decision; the last ones hold
  a concrete batch on which the properties are applied.
\<close>

section \<open>What one pass over the signals leaves\<close>

abbreviation audit_key :: "signal_audit \<Rightarrow> string \<times> instrument \<times> direction" where
  "audit_key a \<equiv> (audit_strategy_id a, audit_instrument a, audit_direction a)"

abbreviation signal_key :: "signal \<Rightarrow> string \<times> instrument \<times> direction" where
  "signal_key s \<equiv> (strategy_id s, signal_instrument s, signal_direction s)"

abbreviation admitted_key :: "admitted \<Rightarrow> string \<times> instrument \<times> direction" where
  "admitted_key a \<equiv> signal_key (admitted_signal a)"

text \<open>A refused signal's row carries the refusal and nothing that only an order could give it.\<close>

definition refusal_row :: "int \<Rightarrow> signal_audit \<Rightarrow> bool" where
  "refusal_row now_utc a \<longleftrightarrow> audit_verdict a = REJECTED \<and> audit_stage a \<noteq> StageOrderConstruction \<and>
     audit_rejection a \<noteq> None \<and> audit_client_order_id a = None \<and> audit_attributed_quantity a = None \<and>
     audit_decided_at_utc a = now_utc"

lemma plain_audit_key [simp]:
  "audit_key (plain_audit policy now_utc pv s st r sv c e z) = signal_key s"
  by (simp add: plain_audit_def)

lemma plain_audit_row [simp]:
  "st \<noteq> StageOrderConstruction \<Longrightarrow> refusal_row now_utc (plain_audit policy now_utc pv s st r sv c e z)"
  by (simp add: plain_audit_def refusal_row_def)

definition sized_ok :: "int \<Rightarrow> signal \<Rightarrow> signal_audit + admitted \<Rightarrow> bool" where
  "sized_ok now_utc s x \<longleftrightarrow>
     (case x of
        Inl audit \<Rightarrow> audit_key audit = signal_key s \<and> refusal_row now_utc audit
      | Inr a \<Rightarrow> admitted_signal a = s \<and> request_strategy_id (admitted_request a) = strategy_id s)"

lemma size_directional_ok:
  "size_directional policy now_utc pv eq s strategy market exposure sv = Inr x \<Longrightarrow> sized_ok now_utc s x"
  by (auto simp: size_directional_def and_then_Inr_iff sized_ok_def Let_def split: option.splits if_splits)

lemma flatten_request_ok:
  "flatten_request portfolio remaining s market exposure sv = Inr (a, rest) \<Longrightarrow> sized_ok now_utc s (Inr a)"
  by (auto simp: flatten_request_def and_then_Inr_iff sized_ok_def Let_def)

lemma size_signal_ok:
  assumes "size_signal policy p m now_utc pv remaining s = Inr x"
  shows "sized_ok now_utc s (map_sum id fst x)" "map_of (market_instruments m) (signal_instrument s) \<noteq> None"
proof -
  obtain strategy market where found: "map_of (portfolio_strategies p) (strategy_id s) = Some strategy"
    "map_of (market_instruments m) (signal_instrument s) = Some market"
    using assms by (auto simp: size_signal_def split: option.splits)
  then show "map_of (market_instruments m) (signal_instrument s) \<noteq> None" by simp
  obtain sv where sv: "evaluated_drawdown (record_drawdown_state strategy) (policy_strategy_budgets policy) = Inr sv"
    using assms found by (auto simp: size_signal_def and_then_Inr_iff)
  show "sized_ok now_utc s (map_sum id fst x)"
  proof (cases "Option.bind sv verdict_breach")
    case (Some breach)
    then show ?thesis using assms by (auto simp: size_signal_def found sv sized_ok_def)
  next
    case None
    obtain e where e: "validate_pre_trade s (held_portfolio p) (marks_usd m) (pre_trade_context_of policy p) now_utc = Inr e"
      using assms None by (auto simp: size_signal_def found sv and_then_Inr_iff)
    show ?thesis
    proof (cases "exposure_rejection e")
      case (Some refusal)
      then show ?thesis using assms None by (auto simp: size_signal_def found sv e sized_ok_def)
    next
      case accepted: None
      show ?thesis
      proof (cases "signal_direction s = FLAT")
        case True
        then obtain y where "flatten_request (held_portfolio p) remaining s market e sv = Inr y" "x = Inr y"
          using assms None accepted by (auto simp: size_signal_def found sv e and_then_Inr_iff)
        then show ?thesis using flatten_request_ok by (cases y) simp
      next
        case False
        then obtain y where y: "size_directional policy now_utc pv (portfolio_equity_usd p) s strategy market e sv = Inr y"
          using assms None accepted by (auto simp: size_signal_def found sv e and_then_Inr_iff)
        from size_directional_ok [OF y] show ?thesis using assms None accepted False
          by (cases y) (auto simp: size_signal_def found sv e y sized_ok_def)
      qed
    qed
  qed
qed

lemma size_signals_spec:
  assumes "size_signals policy p m now_utc pv seen remaining signals = Inr (found, refusals)"
  shows "mset (map admitted_key found) + mset (map audit_key refusals) = mset (map signal_key signals) \<and>
    list_all (refusal_row now_utc) refusals \<and>
    distinct (map (\<lambda>a. (strategy_id (admitted_signal a), signal_instrument (admitted_signal a))) found) \<and>
    (\<forall>a \<in> set found. (strategy_id (admitted_signal a), signal_instrument (admitted_signal a)) \<notin> seen \<and>
      request_strategy_id (admitted_request a) = strategy_id (admitted_signal a) \<and>
      map_of (market_instruments m) (signal_instrument (admitted_signal a)) \<noteq> None \<and>
      symbol (signal_instrument (admitted_signal a)) \<in> set (model_symbols (market_risk_model m)) \<and>
      signal_decided_at_utc (admitted_signal a) \<le> now_utc)"
  using assms
proof (induction signals arbitrary: seen remaining found refusals)
  case (Cons s signals)
  let ?key = "(strategy_id s, signal_instrument s)"
  show ?case
  proof (cases "admission_refusal seen p m now_utc s")
    case (Some limit)
    then obtain rest where "size_signals policy p m now_utc pv seen remaining signals = Inr (found, rest)"
      "refusals = plain_audit policy now_utc pv s StageSignalAdmission
         \<lparr>binding_limit_name = limit, rejected_at_utc = now_utc\<rparr> None None None None # rest"
      using Cons.prems by (auto simp: and_then_Inr_iff)
    with Cons.IH [of seen remaining found rest] show ?thesis by simp
  next
    case None
    then have key: "?key \<notin> seen" "symbol (signal_instrument s) \<in> set (model_symbols (market_risk_model m))"
      "signal_decided_at_utc s \<le> now_utc"
      by (auto simp: admission_refusal_def split: if_splits)
    obtain x where x: "size_signal policy p m now_utc pv remaining s = Inr x"
      using Cons.prems None by (auto simp: Let_def and_then_Inr_iff)
    show ?thesis
    proof (cases x)
      case (Inl audit)
      then obtain rest where "size_signals policy p m now_utc pv (insert ?key seen) remaining signals = Inr (found, rest)"
        "refusals = audit # rest" using Cons.prems None x by (auto simp: Let_def and_then_Inr_iff)
      moreover have "audit_key audit = signal_key s" "refusal_row now_utc audit"
        using size_signal_ok(1) [OF x] Inl by (simp_all add: sized_ok_def)
      ultimately show ?thesis using Cons.IH [of "insert ?key seen" remaining found rest] by auto
    next
      case (Inr pair)
      then obtain a left rest where a: "pair = (a, left)" "found = a # rest"
        "size_signals policy p m now_utc pv (insert ?key seen) left signals = Inr (rest, refusals)"
        using Cons.prems None x by (cases pair) (auto simp: Let_def and_then_Inr_iff)
      moreover have "admitted_signal a = s" "request_strategy_id (admitted_request a) = strategy_id s"
        using size_signal_ok(1) [OF x] Inr a(1) by (simp_all add: sized_ok_def)
      ultimately show ?thesis using Cons.IH [OF a(3)] size_signal_ok(2) [OF x] key by auto
    qed
  qed
qed simp

section \<open>Grouping\<close>

abbreviation instrument_of :: "admitted \<Rightarrow> instrument" where
  "instrument_of a \<equiv> signal_instrument (admitted_signal a)"

lemma mset_grouped_update:
  assumes "distinct (map fst d)"
  shows "mset (concat (map snd (AList.update k ((case map_of d k of None \<Rightarrow> [] | Some g \<Rightarrow> g) @ [x]) d))) =
    add_mset x (mset (concat (map snd d)))"
  using assms by (induction d) (auto split: option.splits)

lemma set_update_subset: "set (AList.update k v d) \<subseteq> insert (k, v) (set d)"
  by (induction d) auto

lemma group_admitted_spec:
  "distinct (map fst (group_admitted found)) \<and> mset (concat (map snd (group_admitted found))) = mset found \<and>
   (\<forall>(i, g) \<in> set (group_admitted found). g \<noteq> [] \<and> list_all (\<lambda>a. instrument_of a = i) g)"
proof (induction found rule: rev_induct)
  case (snoc a found)
  let ?d = "group_admitted found"
  let ?g = "case map_of ?d (instrument_of a) of None \<Rightarrow> [] | Some g \<Rightarrow> g"
  have step: "group_admitted (found @ [a]) = AList.update (instrument_of a) (?g @ [a]) ?d"
    by (simp add: group_admitted_def Let_def)
  have members: "list_all (\<lambda>a'. instrument_of a' = instrument_of a) ?g"
    using snoc by (auto dest: map_of_SomeD split: option.splits)
  have "\<forall>(i, g) \<in> set (AList.update (instrument_of a) (?g @ [a]) ?d). g \<noteq> [] \<and> list_all (\<lambda>a. instrument_of a = i) g"
    using set_update_subset [of "instrument_of a" "?g @ [a]" ?d] snoc members by (fastforce simp: list_all_iff)
  then show ?case unfolding step
    using snoc mset_grouped_update [of ?d "instrument_of a" a] by (simp add: distinct_update)
qed (simp add: group_admitted_def)

section \<open>Plans\<close>

lemma absorb_loop_length: "length (fst (absorb_loop long is qs remaining)) = length qs"
  by (induction long "is" qs remaining rule: absorb_loop.induct) (auto simp: Let_def)

lemma absorb_quantization_length: "absorb_quantization requests x = Inr qs \<Longrightarrow> length qs = length requests"
  by (auto simp: absorb_quantization_def Let_def case_prod_unfold absorb_loop_length split: if_splits)

lemma map_fst_of_zip: "length ys = length xs \<Longrightarrow> map (\<lambda>p. f (fst p)) (zip xs ys) = map f xs"
  by (induction xs ys rule: list_induct2') simp_all

lemma map_result_constructed:
  "map_result (\<lambda>x. construct p (f x)) xs = Inr ys \<Longrightarrow> ys = map f xs"
  by (induction xs arbitrary: ys) (auto simp: and_then_Inr_iff)

lemma net_requests_shape:
  assumes "net_requests i requests r m = Inr plan"
  shows "plan_instrument plan = i"
    "map attributed_strategy_id (attributions plan) = map request_strategy_id requests"
    "quantize_base_quantity i (dsum (map requested_base_quantity requests)) = Inr (net_signed_base_quantity plan)"
    "require_positive_price r ''reference_quote_price'' = Inr x \<Longrightarrow> has_venue_portion plan \<Longrightarrow>
      plan_reference_quote_price plan = x"
proof -
  obtain reference mid net adjusted slices left_over where n:
    "require_positive_price r ''reference_quote_price'' = Inr reference"
    "quantize_base_quantity i (dsum (map requested_base_quantity requests)) = Inr net"
    "absorb_quantization requests (dsub net (dsum (map requested_base_quantity requests))) = Inr adjusted"
    "map_result (\<lambda>(request, quantity). construct attribution_post_init
            \<lparr>attributed_strategy_id = request_strategy_id request,
             attributed_base_quantity = quantity, booked_quote_price = (if net \<noteq> 0 then reference else mid),
             booking_basis = (if net \<noteq> 0 then VENUE_VWAP else DECISION_MID)\<rparr>) (zip requests adjusted) = Inr slices"
    "plan = \<lparr>plan_instrument = i, net_signed_base_quantity = net,
       plan_reference_quote_price = (if net \<noteq> 0 then reference else mid),
       attributions = slices, plan_crossed_base_quantity = min (dsum (filter (\<lambda>q. 0 < q) adjusted)) (dneg (dsum (filter (\<lambda>q. q < 0) adjusted))),
       residual = left_over\<rparr>"
  proof -
    have "requests \<noteq> []" "distinct (map request_strategy_id requests)"
      using assms by (auto simp: net_requests_def split: if_splits)
    note cond = this
    show thesis
      using assms unfolding net_requests_def Let_def
      by (simp only: cond if_False simp_thms) (elim and_thenE, rule that, assumption+, rule sym, erule iffD1 [OF sum.inject(2)])
  qed
  show "plan_instrument plan = i" by (simp add: n(5))
  show "quantize_base_quantity i (dsum (map requested_base_quantity requests)) = Inr (net_signed_base_quantity plan)"
    using n(2) by (simp add: n(5))
  show "require_positive_price r ''reference_quote_price'' = Inr x \<Longrightarrow> has_venue_portion plan \<Longrightarrow> plan_reference_quote_price plan = x"
    using n(1) by (simp add: n(5) has_venue_portion_def)
  have "slices = map (\<lambda>p. \<lparr>attributed_strategy_id = request_strategy_id (fst p),
             attributed_base_quantity = snd p, booked_quote_price = (if net \<noteq> 0 then reference else mid),
             booking_basis = (if net \<noteq> 0 then VENUE_VWAP else DECISION_MID)\<rparr>) (zip requests adjusted)"
    using n(4) by (intro map_result_constructed) (simp add: case_prod_unfold)
  then show "map attributed_strategy_id (attributions plan) = map request_strategy_id requests"
    using absorb_quantization_length [OF n(3)] by (simp add: n(5) comp_def map_fst_of_zip)
qed

text \<open>A group that is netted: its plan, and every member admitted to the order stage.\<close>

definition netted_plan :: "market_state \<Rightarrow> admitted list \<Rightarrow> net_order_plan \<Rightarrow> bool" where
  "netted_plan m members plan \<longleftrightarrow> (\<exists>market.
     map_of (market_instruments m) (plan_instrument plan) = Some market \<and>
     net_requests (plan_instrument plan) (map admitted_request members) (dec (mark_usd market)) (dec (mid_quote_price market)) = Inr plan \<and>
     (has_venue_portion plan \<longrightarrow>
       meets_min_notional (plan_instrument plan) (dabs (net_signed_base_quantity plan)) (mark_usd market)))"

lemma net_groups_spec:
  assumes "net_groups m now_utc grouped = Inr (found, netted, refusals)"
  shows "mset netted + mset (map fst refusals) = mset (concat (map snd grouped)) \<and>
    (\<exists>kept. netted = concat (map snd kept) \<and> list_all2 (netted_plan m) (map snd kept) found \<and>
      map fst kept = map plan_instrument found \<and> set kept \<subseteq> set grouped \<and>
      (distinct (map fst grouped) \<longrightarrow> distinct (map fst kept)))"
  using assms
proof (induction grouped arbitrary: found netted refusals)
  case Nil
  then show ?case by (auto intro: exI [of _ "[]"])
next
  case (Cons entry grouped)
  obtain i g where entry: "entry = (i, g)" by (cases entry)
  obtain market plan found' netted' refusals' where step: "map_of (market_instruments m) i = Some market"
    "net_requests i (map admitted_request g) (dec (mark_usd market)) (dec (mid_quote_price market)) = Inr plan"
    "net_groups m now_utc grouped = Inr (found', netted', refusals')"
    using Cons.prems by (auto simp: entry and_then_Inr_iff split: option.splits if_splits)
  obtain kept where IH: "mset netted' + mset (map fst refusals') = mset (concat (map snd grouped))"
    "netted' = concat (map snd kept)" "list_all2 (netted_plan m) (map snd kept) found'"
    "map fst kept = map plan_instrument found'" "set kept \<subseteq> set grouped"
    "distinct (map fst grouped) \<longrightarrow> distinct (map fst kept)"
    using Cons.IH [OF step(3)] by blast
  have i: "plan_instrument plan = i" using net_requests_shape(1) [OF step(2)] .
  let ?small = "has_venue_portion plan \<and> \<not> meets_min_notional i (dabs (net_signed_base_quantity plan)) (mark_usd market)"
  show ?case
  proof (cases ?small)
    case True
    then have "found = found'" "netted = netted'"
      "refusals = map (\<lambda>a. (a, \<lparr>binding_limit_name = ''net_min_notional_quote'', rejected_at_utc = now_utc\<rparr>)) g @ refusals'"
      using Cons.prems step by (auto simp: entry)
    then show ?thesis using IH by (intro conjI exI [of _ kept]) (auto simp: entry comp_def)
  next
    case False
    then have "found = plan # found'" "netted = g @ netted'" "refusals = refusals'"
      using Cons.prems step by (auto simp: entry)
    moreover have "netted_plan m g plan" using step(1,2) False by (auto simp: netted_plan_def i)
    moreover have "distinct (map fst (entry # grouped)) \<longrightarrow> distinct (map fst ((i, g) # kept))"
      using IH(5,6) by (auto simp: entry)
    ultimately show ?thesis using IH i by (intro conjI exI [of _ "(i, g) # kept"]) (auto simp: entry)
  qed
qed

section \<open>Orders\<close>

lemma order_for_shape:
  assumes "order_for codec c seed now_utc plan = Inr r"
  shows "order_instrument r = plan_instrument plan" "order_base_quantity r = dabs (net_signed_base_quantity plan)"
    "order_side r = (if net_signed_base_quantity plan > 0 then BUY else SELL)"
    "order_type_of r = MARKET" "time_in_force r = IOC" "created_at_utc r = now_utc" "order_correlation_id r = c"
    "client_order_id r = snd (order_identity codec c seed (plan_instrument plan) (order_side r) (order_base_quantity r) now_utc)"
    "valid_order r"
  using assms by (auto simp: order_for_def Let_def construct_ok)

lemma construct_orders_spec:
  assumes "construct_orders codec c seed now_utc acc found = Inr placed"
    "distinct (map plan_instrument found)" "fst ` set acc \<inter> plan_instrument ` set found = {}"
  shows "\<exists>rs. list_all2 (\<lambda>plan r. order_for codec c seed now_utc plan = Inr r) (filter has_venue_portion found) rs \<and>
    placed = acc @ zip (map plan_instrument (filter has_venue_portion found)) rs"
  using assms
proof (induction found arbitrary: acc)
  case (Cons plan found)
  show ?case
  proof (cases "has_venue_portion plan")
    case False
    then show ?thesis using Cons by auto
  next
    case True
    then obtain r where r: "order_for codec c seed now_utc plan = Inr r"
      "construct_orders codec c seed now_utc (AList.update (plan_instrument plan) r acc) found = Inr placed"
      using Cons.prems(1) by (auto simp: and_then_Inr_iff)
    moreover have "AList.update (plan_instrument plan) r acc = acc @ [(plan_instrument plan, r)]"
      using Cons.prems(3) by (intro map_of_update_append) auto
    ultimately obtain rs where "list_all2 (\<lambda>plan r. order_for codec c seed now_utc plan = Inr r) (filter has_venue_portion found) rs"
      "placed = acc @ [(plan_instrument plan, r)] @ zip (map plan_instrument (filter has_venue_portion found)) rs"
      using Cons.IH [of "acc @ [(plan_instrument plan, r)]"] Cons.prems(2,3) by auto
    then show ?thesis using r(1) True by (intro exI [of _ "r # rs"]) simp
  qed
qed simp

section \<open>The ways a decision ends\<close>

lemma ensure_trading_cases:
  "ensure_trading gate = (if status (gate_state gate) = HALTED then Inl (KillSwitchTrippedError ''halted'') else Inr ())"
  by (simp add: ensure_trading_def)

lemma decide_cases:
  assumes "decide policy gate codec signals p m now_utc c seed = Inr b"
  obtains
    (halted) "status (gate_state gate) = HALTED" "b = halted_batch policy signals now_utc c"
  | (refused_batch) pv limit where "status (gate_state gate) \<noteq> HALTED"
      "b = refuse_batch policy signals now_utc c [StageKillSwitch, StagePortfolioDrawdown] StagePortfolioDrawdown limit pv"
      "evaluated_drawdown (portfolio_drawdown_state p) (policy_portfolio_budgets policy) = Inr pv"
      "portfolio_halt_reason p m pv = Some limit"
  | (sized) pv where "status (gate_state gate) \<noteq> HALTED"
      "evaluated_drawdown (portfolio_drawdown_state p) (policy_portfolio_budgets policy) = Inr pv"
      "portfolio_halt_reason p m pv = None" "sized_batch policy codec p m now_utc c seed pv signals = Inr b"
proof (cases "status (gate_state gate) = HALTED")
  case True
  then show thesis using assms by (intro that(1)) (simp_all add: decide_def ensure_trading_cases)
next
  case False
  then obtain pv where pv: "evaluated_drawdown (portfolio_drawdown_state p) (policy_portfolio_budgets policy) = Inr pv"
    using assms by (auto simp: decide_def ensure_trading_cases and_then_Inr_iff)
  show thesis
  proof (cases "portfolio_halt_reason p m pv")
    case None
    then show thesis using assms False pv by (intro that(3)) (simp_all add: decide_def ensure_trading_cases)
  next
    case (Some limit)
    then show thesis using assms False pv by (intro that(2)) (simp_all add: decide_def ensure_trading_cases)
  qed
qed

lemma sized_batch_cases:
  assumes "sized_batch policy codec p m now_utc c seed pv signals = Inr b"
  obtains found refusals found_plans netted refused_pairs assessment where
    "size_signals policy p m now_utc pv {} [] signals = Inr (found, refusals)"
    "net_groups m now_utc (group_admitted found) = Inr (found_plans, netted, refused_pairs)"
    "assess_prospective_book policy found_plans p m now_utc = Inr assessment"
    "(\<exists>refusal. concentration_rejection assessment = Some refusal \<and> b =
        \<lparr>batch_correlation_id = c, batch_decided_at_utc = now_utc,
         outcomes = (refusals_of refusals @ map (\<lambda>(_, refusal). Refused refusal) refused_pairs) @ map (\<lambda>_. Refused refusal) netted,
         plans = [],
         audits = (refusals @ map (\<lambda>(a, refusal).
             audit_for policy now_utc pv a StageNetting (Some refusal) None None None) refused_pairs)
           @ map (\<lambda>a. audit_for policy now_utc pv a StageConcentration (Some refusal) None None None) netted,
         stages_executed = butlast STAGES\<rparr>) \<or>
     (\<exists>placed approved. concentration_rejection assessment = None \<and>
        construct_orders codec c seed now_utc [] found_plans = Inr placed \<and>
        map_result (approved_audit policy now_utc pv assessment found_plans placed) netted = Inr approved \<and> b =
        \<lparr>batch_correlation_id = c, batch_decided_at_utc = now_utc,
         outcomes = (refusals_of refusals @ map (\<lambda>(_, refusal). Refused refusal) refused_pairs) @ map (Placed \<circ> snd) placed,
         plans = found_plans,
         audits = (refusals @ map (\<lambda>(a, refusal).
             audit_for policy now_utc pv a StageNetting (Some refusal) None None None) refused_pairs) @ approved,
         stages_executed = STAGES\<rparr>)"
proof -
  obtain found refusals where f: "size_signals policy p m now_utc pv {} [] signals = Inr (found, refusals)"
    using assms by (auto simp: sized_batch_def and_then_Inr_iff)
  obtain found_plans netted refused_pairs where n:
    "net_groups m now_utc (group_admitted found) = Inr (found_plans, netted, refused_pairs)"
    using assms f by (auto simp: sized_batch_def and_then_Inr_iff)
  obtain assessment where a: "assess_prospective_book policy found_plans p m now_utc = Inr assessment"
    using assms f n by (auto simp: sized_batch_def Let_def and_then_Inr_iff)
  show thesis
    by (rule that [OF f n a]) (use assms f n a in \<open>auto simp: sized_batch_def Let_def and_then_Inr_iff split: option.splits\<close>)
qed

section \<open>Every signal is audited once\<close>

text \<open>What any row of any batch looks like: a refusal, or an approval that reached order construction.\<close>

definition audit_row_ok :: "int \<Rightarrow> signal_audit \<Rightarrow> bool" where
  "audit_row_ok now_utc a \<longleftrightarrow> refusal_row now_utc a \<or>
     audit_verdict a = APPROVED \<and> audit_stage a = StageOrderConstruction \<and> audit_rejection a = None \<and>
     audit_attributed_quantity a \<noteq> None \<and> audit_concentration a \<noteq> None \<and> audit_decided_at_utc a = now_utc"

lemma audit_for_key [simp]: "audit_key (audit_for policy now_utc pv a st r c x y) = admitted_key a"
  by (simp add: audit_for_def)

lemma audit_for_refused [simp]:
  "st \<noteq> StageOrderConstruction \<Longrightarrow> refusal_row now_utc (audit_for policy now_utc pv a st (Some r) c None None)"
  by (simp add: audit_for_def refusal_row_def)

lemma audit_for_rejection [simp]: "audit_rejection (audit_for policy now_utc pv a st r c x y) = r"
  by (simp add: audit_for_def)

lemma find_SomeD: "find P xs = Some x \<Longrightarrow> P x \<and> x \<in> set xs"
  by (induction xs) (auto split: if_splits)

lemma approved_auditD:
  assumes "approved_audit policy now_utc pv assessment found placed a = Inr row"
  obtains plan slice where "plan \<in> set found" "plan_instrument plan = instrument_of a"
    "slice \<in> set (attributions plan)" "attributed_strategy_id slice = strategy_id (admitted_signal a)"
    "row = audit_for policy now_utc pv a StageOrderConstruction None (Some assessment) (Some slice)
       (map_option client_order_id (map_of placed (plan_instrument plan)))"
  using assms by (auto simp: approved_audit_def dest!: find_SomeD split: option.splits)

lemma approved_audits:
  assumes "map_result (approved_audit policy now_utc pv assessment found placed) netted = Inr approved"
  shows "map audit_key approved = map admitted_key netted"
    "row \<in> set approved \<Longrightarrow> \<exists>a \<in> set netted. approved_audit policy now_utc pv assessment found placed a = Inr row"
    "row \<in> set approved \<Longrightarrow> audit_verdict row = APPROVED \<and> audit_row_ok now_utc row \<and> audit_rejection row = None"
proof -
  have all: "list_all2 (\<lambda>a row. approved_audit policy now_utc pv assessment found placed a = Inr row) netted approved"
    using assms by (rule map_result_list_all2)
  then have "list_all2 (\<lambda>a row. audit_key row = admitted_key a) netted approved"
    by (rule list_all2_mono) (erule approved_auditD, simp only: audit_for_key)
  then show "map audit_key approved = map admitted_key netted" 
    by (simp add: list_all2_conv_all_nth list_eq_iff_nth_eq)
  show row: "\<exists>a \<in> set netted. approved_audit policy now_utc pv assessment found placed a = Inr row" if r: "row \<in> set approved" for row
  proof -
    obtain i where i: "i < length approved" "row = approved ! i" using r by (auto simp: in_set_conv_nth)
    then have "i < length netted" using list_all2_lengthD [OF all] by simp
    then show ?thesis using list_all2_nthD2 [OF all i(1)] i(2) by (intro bexI [of _ "netted ! i"]) simp_all
  qed
  assume "row \<in> set approved"
  then obtain a where "approved_audit policy now_utc pv assessment found placed a = Inr row" using row by blast
  then show "audit_verdict row = APPROVED \<and> audit_row_ok now_utc row \<and> audit_rejection row = None"
    by (rule approved_auditD) (simp add: audit_for_def audit_row_ok_def)
qed

lemma map_filter_all: "list_all (\<lambda>x. f x \<noteq> None) xs \<Longrightarrow> List.map_filter f xs = map (\<lambda>x. the (f x)) xs"
  by (induction xs) (auto simp: map_filter_simps)

lemma map_filter_none: "\<forall>x \<in> set xs. f x = None \<Longrightarrow> List.map_filter f xs = []"
  by (induction xs) (auto simp: map_filter_simps)

lemma map_filter_append: "List.map_filter f (xs @ ys) = List.map_filter f xs @ List.map_filter f ys"
  by (induction xs) (auto simp: map_filter_simps split: option.splits)

lemma batch_rejections_append:
  "batch_rejections (b\<lparr>outcomes := map Refused rs @ map (Placed \<circ> snd) placed\<rparr>) = rs"
proof -
  have "concat (map (\<lambda>x. case x of Placed _ \<Rightarrow> [] | Refused r \<Rightarrow> [r]) (map Refused rs)) = rs" by (induction rs) simp_all
  moreover have "concat (map (\<lambda>x. case x of Placed _ \<Rightarrow> [] | Refused r \<Rightarrow> [r]) (map (Placed \<circ> snd) placed)) = []"
    by (induction placed) simp_all
  ultimately show ?thesis by (simp add: batch_rejections_def)
qed

lemma refusals_of_rows: "list_all (refusal_row now_utc) rows \<Longrightarrow>
    refusals_of rows = map (\<lambda>a. Refused (the (audit_rejection a))) rows"
  unfolding refusals_of_def by (subst map_filter_all) (auto simp: list_all_iff refusal_row_def)

lemma batch_rejections_of:
  "outcomes b = map Refused rs @ map (Placed \<circ> snd) placed \<Longrightarrow> batch_rejections b = rs"
  using batch_rejections_append [of rs placed b] by (simp add: batch_rejections_def)

lemma sized_batch_audits:
  assumes "sized_batch policy codec p m now_utc c seed pv signals = Inr b"
  shows "mset (map audit_key (audits b)) = mset (map signal_key signals) \<and> list_all (audit_row_ok now_utc) (audits b) \<and>
    batch_rejections b = List.map_filter audit_rejection (audits b) \<and> (\<exists>n. stages_executed b = take n STAGES)"
proof -
  obtain found refusals found_plans netted refused_pairs assessment where f:
    "size_signals policy p m now_utc pv {} [] signals = Inr (found, refusals)"
    "net_groups m now_utc (group_admitted found) = Inr (found_plans, netted, refused_pairs)"
    and b: "(\<exists>refusal. concentration_rejection assessment = Some refusal \<and> b =
        \<lparr>batch_correlation_id = c, batch_decided_at_utc = now_utc,
         outcomes = (refusals_of refusals @ map (\<lambda>(_, refusal). Refused refusal) refused_pairs) @ map (\<lambda>_. Refused refusal) netted,
         plans = [],
         audits = (refusals @ map (\<lambda>(a, refusal).
             audit_for policy now_utc pv a StageNetting (Some refusal) None None None) refused_pairs)
           @ map (\<lambda>a. audit_for policy now_utc pv a StageConcentration (Some refusal) None None None) netted,
         stages_executed = butlast STAGES\<rparr>) \<or>
     (\<exists>placed approved. concentration_rejection assessment = None \<and>
        construct_orders codec c seed now_utc [] found_plans = Inr placed \<and>
        map_result (approved_audit policy now_utc pv assessment found_plans placed) netted = Inr approved \<and> b =
        \<lparr>batch_correlation_id = c, batch_decided_at_utc = now_utc,
         outcomes = (refusals_of refusals @ map (\<lambda>(_, refusal). Refused refusal) refused_pairs) @ map (Placed \<circ> snd) placed,
         plans = found_plans,
         audits = (refusals @ map (\<lambda>(a, refusal).
             audit_for policy now_utc pv a StageNetting (Some refusal) None None None) refused_pairs) @ approved,
         stages_executed = STAGES\<rparr>)"
    using assms by (rule sized_batch_cases) metis
  note spec = size_signals_spec [OF f(1)]
  let ?group_rows = "map (\<lambda>(a, refusal). audit_for policy now_utc pv a StageNetting (Some refusal) None None None) refused_pairs"
  have "mset netted + mset (map fst refused_pairs) = mset found"
    using net_groups_spec [OF f(2)] group_admitted_spec [of found] by simp
  then have "mset (map admitted_key netted) + mset (map (admitted_key \<circ> fst) refused_pairs) = mset (map admitted_key found)"
    by (metis (no_types, lifting) image_mset_union mset_map map_map)
  moreover have "map audit_key ?group_rows = map (admitted_key \<circ> fst) refused_pairs" by (auto simp: audit_for_def)
  ultimately have keys: "mset (map audit_key (refusals @ ?group_rows)) + mset (map admitted_key netted) = mset (map signal_key signals)"
    using spec by (simp only: map_append mset_append) (metis (no_types, lifting) add.assoc add.commute)
  have rows: "list_all (refusal_row now_utc) (refusals @ ?group_rows)"
    using spec by (auto simp: list_all_iff)
  define rs where "rs = map (\<lambda>a. the (audit_rejection a)) (refusals @ ?group_rows)"
  have refused: "refusals_of refusals @ map (\<lambda>(_, refusal). Refused refusal) refused_pairs = map Refused rs"
    using refusals_of_rows [of now_utc refusals] spec by (simp add: rs_def comp_def case_prod_unfold)
  have filtered: "List.map_filter audit_rejection (refusals @ ?group_rows) = rs"
    using rows unfolding rs_def by (intro map_filter_all) (auto simp: list_all_iff refusal_row_def)
  have ok: "list_all (audit_row_ok now_utc) (refusals @ ?group_rows)"
    using rows by (auto simp: list_all_iff audit_row_ok_def)
  from b show ?thesis
  proof (elim disjE exE conjE)
    fix refusal
    assume "concentration_rejection assessment = Some refusal" and eq: "b =
        \<lparr>batch_correlation_id = c, batch_decided_at_utc = now_utc,
         outcomes = (refusals_of refusals @ map (\<lambda>(_, refusal). Refused refusal) refused_pairs) @ map (\<lambda>_. Refused refusal) netted,
         plans = [], audits = (refusals @ ?group_rows)
           @ map (\<lambda>a. audit_for policy now_utc pv a StageConcentration (Some refusal) None None None) netted,
         stages_executed = butlast STAGES\<rparr>"
    let ?rows = "map (\<lambda>a. audit_for policy now_utc pv a StageConcentration (Some refusal) None None None) netted"
    have "map audit_key (audits b) = map audit_key (refusals @ ?group_rows) @ map admitted_key netted"
      by (simp add: eq audit_for_def comp_def)
    then have "mset (map audit_key (audits b)) = mset (map signal_key signals)" using keys by (simp only: mset_append)
    moreover have "list_all (audit_row_ok now_utc) ?rows" by (simp add: list_all_iff audit_row_ok_def)
    moreover have "List.map_filter audit_rejection ?rows = map (\<lambda>_. refusal) netted"
      by (subst map_filter_all) (auto simp: list_all_iff)
    moreover have "batch_rejections b = rs @ map (\<lambda>_. refusal) netted"
      using batch_rejections_of [of b "rs @ map (\<lambda>_. refusal) netted" "[]"] unfolding eq refused by (simp add: comp_def)
    moreover have "butlast STAGES = take 8 STAGES" by (simp add: STAGES_def)
    ultimately show ?thesis using ok filtered by (auto simp: eq map_filter_append)
  next
    fix placed approved
    assume "map_result (approved_audit policy now_utc pv assessment found_plans placed) netted = Inr approved" and eq: "b =
        \<lparr>batch_correlation_id = c, batch_decided_at_utc = now_utc,
         outcomes = (refusals_of refusals @ map (\<lambda>(_, refusal). Refused refusal) refused_pairs) @ map (Placed \<circ> snd) placed,
         plans = found_plans, audits = (refusals @ ?group_rows) @ approved, stages_executed = STAGES\<rparr>"
    note approved = approved_audits [OF this(1)]
    have "map audit_key (audits b) = map audit_key (refusals @ ?group_rows) @ map admitted_key netted"
      by (simp add: eq approved(1) del: map_map)
    then have "mset (map audit_key (audits b)) = mset (map signal_key signals)" using keys by (simp only: mset_append)
    moreover have "list_all (audit_row_ok now_utc) approved" using approved(3) by (simp add: list_all_iff)
    moreover have "List.map_filter audit_rejection approved = []" using approved(3) by (intro map_filter_none) blast
    moreover have "batch_rejections b = rs" using batch_rejections_of [of b rs placed] unfolding eq refused by simp
    moreover have "STAGES = take 9 STAGES" by (simp add: STAGES_def)
    ultimately show ?thesis using ok filtered by (auto simp: eq map_filter_append)
  qed
qed

lemma refuse_batch_audits:
  assumes "stage \<noteq> StageOrderConstruction" "b = refuse_batch policy signals now_utc c stages stage limit pv"
  shows "mset (map audit_key (audits b)) = mset (map signal_key signals) \<and> list_all (audit_row_ok now_utc) (audits b) \<and>
    batch_rejections b = List.map_filter audit_rejection (audits b) \<and> batch_orders b = [] \<and> plans b = [] \<and>
    stages_executed b = stages \<and>
    batch_rejections b = map (\<lambda>_. \<lparr>binding_limit_name = limit, rejected_at_utc = now_utc\<rparr>) signals"
proof -
  let ?r = "\<lparr>binding_limit_name = limit, rejected_at_utc = now_utc\<rparr>"
  let ?row = "\<lambda>s. (plain_audit policy now_utc pv s stage ?r None None None None)\<lparr>audit_strategy_budgets := None\<rparr>"
  have "map audit_key (map ?row signals) = map signal_key signals" by (simp add: plain_audit_def)
  moreover have "list_all (audit_row_ok now_utc) (map ?row signals)"
    using assms(1) by (simp add: list_all_iff audit_row_ok_def refusal_row_def plain_audit_def)
  moreover have "List.map_filter audit_rejection (map ?row signals) = map (\<lambda>_. ?r) signals"
    by (subst map_filter_all) (simp_all add: list_all_iff plain_audit_def comp_def)
  moreover have "batch_rejections b = map (\<lambda>_. ?r) signals"
    using batch_rejections_of [of b "map (\<lambda>_. ?r) signals" "[]"] by (simp add: assms(2) refuse_batch_def Let_def comp_def)
  moreover have "batch_orders b = []"
    by (simp add: assms(2) refuse_batch_def Let_def batch_orders_def comp_def)
  moreover have "audits b = map ?row signals" "plans b = []" "stages_executed b = stages"
    by (simp_all add: assms(2) refuse_batch_def Let_def)
  ultimately show ?thesis by (simp only: simp_thms)
qed

text \<open>
  C11. Every signal of a batch gets exactly one audit row, under its strategy, instrument and
  direction, however the batch ends; a row is either a refusal, which carries its rejection and
  neither quantity nor order identity, or an approval that reached order construction with its
  attributed quantity; the rejections the caller sees are those of the rows, in their order;
  and the stages executed are a prefix of the declared ones.
\<close>

theorem every_signal_is_audited_once:
  assumes "decide policy gate codec signals p m now_utc c seed = Inr b"
  shows "mset (map audit_key (audits b)) = mset (map signal_key signals) \<and> list_all (audit_row_ok now_utc) (audits b) \<and>
    batch_rejections b = List.map_filter audit_rejection (audits b) \<and> (\<exists>n. stages_executed b = take n STAGES)"
  using assms
proof (cases rule: decide_cases)
  case halted
  moreover have "[StageKillSwitch] = take 1 STAGES" by (simp add: STAGES_def)
  ultimately show ?thesis using refuse_batch_audits [OF _ halted(2) [unfolded halted_batch_def]] by (metis stage.distinct)
next
  case (refused_batch pv limit)
  moreover have "[StageKillSwitch, StagePortfolioDrawdown] = take 2 STAGES" by (simp add: STAGES_def)
  ultimately show ?thesis using refuse_batch_audits [OF _ refused_batch(2)] by (metis stage.distinct)
next
  case (sized pv)
  then show ?thesis using sized_batch_audits by blast
qed

section \<open>Orders\<close>

lemma batch_orders_of:
  "outcomes b = map Refused rs @ map (Placed \<circ> snd) placed \<Longrightarrow> batch_orders b = map snd placed"
proof -
  have "concat (map (\<lambda>x. case x of Placed r \<Rightarrow> [r] | Refused _ \<Rightarrow> []) (map Refused rs)) = []" by (induction rs) simp_all
  moreover have "concat (map (\<lambda>x. case x of Placed r \<Rightarrow> [r] | Refused _ \<Rightarrow> []) (map (Placed \<circ> snd) placed)) = map snd placed"
    by (induction placed) simp_all
  ultimately show "outcomes b = map Refused rs @ map (Placed \<circ> snd) placed \<Longrightarrow> ?thesis" by (simp add: batch_orders_def)
qed

lemma refusals_all_refused: "\<exists>rs. refusals_of refusals @ map (\<lambda>(_, refusal). Refused refusal) pairs = map Refused rs"
  by (rule exI [of _ "List.map_filter audit_rejection refusals @ map snd pairs"]) (simp add: refusals_of_def case_prod_unfold)

text \<open>What stands behind a batch with orders or plans: the sized signals, their plans and the approval.\<close>

definition order_batch ::
  "risk_policy \<Rightarrow> identity_codec \<Rightarrow> portfolio_state \<Rightarrow> market_state \<Rightarrow> int \<Rightarrow> nat \<Rightarrow> int \<Rightarrow> limit_verdict option
     \<Rightarrow> signal list \<Rightarrow> decision_batch \<Rightarrow> bool" where
  "order_batch policy codec p m now_utc c seed pv signals b \<longleftrightarrow>
     (\<exists>found refusals kept netted refused_pairs assessment placed approved.
        size_signals policy p m now_utc pv {} [] signals = Inr (found, refusals) \<and>
        net_groups m now_utc (group_admitted found) = Inr (plans b, netted, refused_pairs) \<and>
        list_all2 (netted_plan m) (map snd kept) (plans b) \<and> map fst kept = map plan_instrument (plans b) \<and>
        set kept \<subseteq> set (group_admitted found) \<and> distinct (map fst kept) \<and>
        assess_prospective_book policy (plans b) p m now_utc = Inr assessment \<and> concentration_is_approved assessment \<and>
        construct_orders codec c seed now_utc [] (plans b) = Inr placed \<and> batch_orders b = map snd placed \<and>
        map_result (approved_audit policy now_utc pv assessment (plans b) placed) netted = Inr approved \<and>
        (\<forall>a \<in> set (audits b). audit_is_approved a \<longrightarrow> a \<in> set approved))"

lemma sized_batch_orders:
  assumes "sized_batch policy codec p m now_utc c seed pv signals = Inr b"
  shows "batch_orders b = [] \<and> plans b = [] \<and> (\<forall>a \<in> set (audits b). \<not> audit_is_approved a) \<or>
    order_batch policy codec p m now_utc c seed pv signals b"
  using assms
proof (cases rule: sized_batch_cases)
  case (1 found refusals found_plans netted refused_pairs assessment)
  obtain rs where rs: "refusals_of refusals @ map (\<lambda>(_, refusal). Refused refusal) refused_pairs = map Refused rs"
    using refusals_all_refused by blast
  have refusal_rows: "\<not> audit_is_approved a" if "a \<in> set (refusals @ map (\<lambda>(a, refusal).
      audit_for policy now_utc pv a StageNetting (Some refusal) None None None) refused_pairs)" for a
    using that size_signals_spec [OF 1(1)] by (auto simp: audit_is_approved_def audit_for_def list_all_iff refusal_row_def)
  from 1(4) show ?thesis
  proof (elim disjE exE conjE)
    fix refusal
    assume eq: "b = \<lparr>batch_correlation_id = c, batch_decided_at_utc = now_utc,
         outcomes = (refusals_of refusals @ map (\<lambda>(_, refusal). Refused refusal) refused_pairs) @ map (\<lambda>_. Refused refusal) netted,
         plans = [],
         audits = (refusals @ map (\<lambda>(a, refusal).
             audit_for policy now_utc pv a StageNetting (Some refusal) None None None) refused_pairs)
           @ map (\<lambda>a. audit_for policy now_utc pv a StageConcentration (Some refusal) None None None) netted,
         stages_executed = butlast STAGES\<rparr>"
    have "batch_orders b = []"
      using batch_orders_of [of b "rs @ map (\<lambda>_. refusal) netted" "[]"] unfolding eq rs by (simp add: comp_def)
    moreover have "\<not> audit_is_approved a" if "a \<in> set (audits b)" for a
      using that refusal_rows [of a] by (auto simp: eq audit_is_approved_def audit_for_def)
    ultimately show ?thesis by (simp add: eq)
  next
    fix placed approved
    assume a: "concentration_rejection assessment = None" "construct_orders codec c seed now_utc [] found_plans = Inr placed"
      "map_result (approved_audit policy now_utc pv assessment found_plans placed) netted = Inr approved"
      and eq: "b = \<lparr>batch_correlation_id = c, batch_decided_at_utc = now_utc,
         outcomes = (refusals_of refusals @ map (\<lambda>(_, refusal). Refused refusal) refused_pairs) @ map (Placed \<circ> snd) placed,
         plans = found_plans,
         audits = (refusals @ map (\<lambda>(a, refusal).
             audit_for policy now_utc pv a StageNetting (Some refusal) None None None) refused_pairs) @ approved,
         stages_executed = STAGES\<rparr>"
    have "batch_orders b = map snd placed" using batch_orders_of [of b rs placed] unfolding eq rs by simp
    moreover have "\<forall>x \<in> set (audits b). audit_is_approved x \<longrightarrow> x \<in> set approved"
      using refusal_rows by (auto simp: eq)
    moreover obtain kept where "list_all2 (netted_plan m) (map snd kept) found_plans"
      "map fst kept = map plan_instrument found_plans" "set kept \<subseteq> set (group_admitted found)" "distinct (map fst kept)"
      using net_groups_spec [OF 1(2)] group_admitted_spec [of found] by blast
    moreover have "plans b = found_plans" by (simp add: eq)
    ultimately show ?thesis using 1(1-3) a
      by (intro disjI2) (unfold order_batch_def concentration_is_approved_def, blast)
  qed
qed

lemma portfolio_halt_reason_None:
  assumes "portfolio_halt_reason p m pv = None"
  shows "0 < portfolio_equity_usd p" "open_positions (held_portfolio p) \<noteq> [] \<Longrightarrow> portfolio_drawdown_state p \<noteq> None"
    "list_all (\<lambda>x. map_of (market_instruments m) (position_instrument x) \<noteq> None \<and>
        symbol (position_instrument x) \<in> set (model_symbols (market_risk_model m))) (open_positions (held_portfolio p))"
    "Option.bind pv verdict_breach = None"
  using assms
  by (auto simp: portfolio_halt_reason_def Let_def list_all_iff filter_empty_conv not_le split: if_splits option.splits)

text \<open>
  C1. No order leaves without every gate: if a batch holds one, the kill switch was trading,
  equity was positive, every open position was priced and inside the estimated universe, a
  portfolio with positions had a drawdown state and no portfolio budget was breached, and the
  prospective book of the batch's plans was approved for concentration. Under a halted gate
  the batch refuses every signal for the kill switch and no other stage runs.
\<close>

theorem orders_pass_every_gate:
  assumes "decide policy gate codec signals p m now_utc c seed = Inr b"
  shows "(batch_orders b \<noteq> [] \<longrightarrow>
      status (gate_state gate) \<noteq> HALTED \<and> 0 < portfolio_equity_usd p \<and>
      list_all (\<lambda>x. map_of (market_instruments m) (position_instrument x) \<noteq> None \<and>
        symbol (position_instrument x) \<in> set (model_symbols (market_risk_model m))) (open_positions (held_portfolio p)) \<and>
      (open_positions (held_portfolio p) \<noteq> [] \<longrightarrow> (\<exists>d v. portfolio_drawdown_state p = Some d \<and>
        evaluate d (policy_portfolio_budgets policy) = Inr v \<and> verdict_breach v = None)) \<and>
      (\<exists>assessment. assess_prospective_book policy (plans b) p m now_utc = Inr assessment \<and>
        concentration_is_approved assessment)) \<and>
    (status (gate_state gate) = HALTED \<longrightarrow>
      batch_orders b = [] \<and> stages_executed b = [StageKillSwitch] \<and>
      batch_rejections b = map (\<lambda>_. \<lparr>binding_limit_name = ''kill_switch'', rejected_at_utc = now_utc\<rparr>) signals)"
  using assms
proof (cases rule: decide_cases)
  case halted
  have "StageKillSwitch \<noteq> StageOrderConstruction" by simp
  from refuse_batch_audits [OF this halted(2) [unfolded halted_batch_def]] show ?thesis by blast
next
  case (refused_batch pv limit)
  then show ?thesis using refuse_batch_audits [OF _ refused_batch(2)] by simp
next
  case (sized pv)
  note gates = portfolio_halt_reason_None [OF sized(3)]
  have drawdown: "\<exists>d v. portfolio_drawdown_state p = Some d \<and> evaluate d (policy_portfolio_budgets policy) = Inr v \<and>
      verdict_breach v = None" if held: "open_positions (held_portfolio p) \<noteq> []"
  proof -
    obtain d where d: "portfolio_drawdown_state p = Some d" using gates(2) [OF held] by auto
    then obtain v where "evaluate d (policy_portfolio_budgets policy) = Inr v" "pv = Some v"
      using sized(2) by (auto simp: evaluated_drawdown_def and_then_Inr_iff)
    then show ?thesis using d gates(4) by simp
  qed
  show ?thesis
    using sized_batch_orders [OF sized(4)] sized(1) gates(1,3) drawdown unfolding order_batch_def by blast
qed

lemma placed_orders:
  assumes "construct_orders codec c seed now_utc [] found = Inr placed" "distinct (map plan_instrument found)"
  shows "map fst placed = map plan_instrument (filter has_venue_portion found)"
    "(i, r) \<in> set placed \<Longrightarrow> \<exists>plan \<in> set found. plan_instrument plan = i \<and> has_venue_portion plan \<and>
       order_for codec c seed now_utc plan = Inr r"
    "distinct (map order_instrument (map snd placed))"
    "find (\<lambda>r. order_instrument r = i) (map snd placed) = map_of placed i"
proof -
  let ?venue = "filter has_venue_portion found"
  obtain rs where rs: "list_all2 (\<lambda>plan r. order_for codec c seed now_utc plan = Inr r) ?venue rs"
    "placed = zip (map plan_instrument ?venue) rs"
    using construct_orders_spec [OF assms(1,2)] by auto
  have len: "length rs = length ?venue" using list_all2_lengthD [OF rs(1)] by simp
  then show keys: "map fst placed = map plan_instrument ?venue" by (simp add: rs(2))
  show entry: "\<exists>plan \<in> set found. plan_instrument plan = i \<and> has_venue_portion plan \<and> order_for codec c seed now_utc plan = Inr r"
    if e: "(i, r) \<in> set placed" for i r
  proof -
    obtain k where k: "k < length ?venue" "i = plan_instrument (?venue ! k)" "r = rs ! k"
      using e len by (auto simp: rs(2) set_zip)
    then have "?venue ! k \<in> set ?venue" by (meson nth_mem)
    then have "?venue ! k \<in> set found" "has_venue_portion (?venue ! k)" by (simp_all only: set_filter mem_Collect_eq)
    then show ?thesis using list_all2_nthD [OF rs(1) k(1)] k(2,3) by blast
  qed
  have inst: "order_instrument r = i" if "(i, r) \<in> set placed" for i r
    using entry [OF that] order_for_shape(1) by auto
  have "map order_instrument (map snd placed) = map fst placed" using inst by auto
  moreover have "distinct (map fst placed)" unfolding keys using assms(2) by (induction found) auto
  ultimately show "distinct (map order_instrument (map snd placed))" by (simp only:)
  show "find (\<lambda>r. order_instrument r = i) (map snd placed) = map_of placed i"
    using inst by (induction placed) auto
qed

text \<open>
  C3. The orders of a batch are its net plans and nothing else: at most one per instrument,
  one for every plan with a venue portion; each a market order, immediate or cancel, of the
  plan's net quantity without its sign, on the side of the sign, above the venue's minimum
  notional; and every approved signal's row carries the slice of its own strategy in the plan
  and the identity of the order on its instrument.
\<close>

theorem orders_are_the_net_plans:
  assumes "decide policy gate codec signals p m now_utc c seed = Inr b"
  shows "distinct (map order_instrument (batch_orders b)) \<and>
    list_all (\<lambda>r. \<exists>plan \<in> set (plans b). \<exists>market. plan_instrument plan = order_instrument r \<and>
        map_of (market_instruments m) (order_instrument r) = Some market \<and>
        order_base_quantity r = dabs (net_signed_base_quantity plan) \<and> 0 < order_base_quantity r \<and>
        order_side r = (if 0 < net_signed_base_quantity plan then BUY else SELL) \<and>
        order_type_of r = MARKET \<and> time_in_force r = IOC \<and> order_correlation_id r = c \<and> created_at_utc r = now_utc \<and>
        meets_min_notional (order_instrument r) (order_base_quantity r) (mark_usd market)) (batch_orders b) \<and>
    list_all (\<lambda>plan. has_venue_portion plan = (plan_instrument plan \<in> order_instrument ` set (batch_orders b))) (plans b) \<and>
    list_all (\<lambda>a. if audit_is_approved a then \<exists>plan \<in> set (plans b). \<exists>x \<in> set (attributions plan).
        plan_instrument plan = audit_instrument a \<and> attributed_strategy_id x = audit_strategy_id a \<and>
        audit_attributed_quantity a = Some (attributed_base_quantity x) \<and>
        audit_client_order_id a = map_option client_order_id
          (find (\<lambda>r. order_instrument r = audit_instrument a) (batch_orders b)) else True) (audits b)"
proof -
  have none: ?thesis if "batch_orders b = []" "plans b = []" "\<forall>a \<in> set (audits b). \<not> audit_is_approved a"
    using that by (simp add: list_all_iff)
  from assms show ?thesis
  proof (cases rule: decide_cases)
    case halted
    then show ?thesis by (intro none) (simp_all add: halted_batch_def refuse_batch_def Let_def batch_orders_def comp_def
        audit_is_approved_def plain_audit_def)
  next
    case (refused_batch pv limit)
    then show ?thesis by (intro none) (simp_all add: refuse_batch_def Let_def batch_orders_def comp_def
        audit_is_approved_def plain_audit_def)
  next
    case (sized pv)
    from sized_batch_orders [OF sized(4)] show ?thesis
    proof
      assume "order_batch policy codec p m now_utc c seed pv signals b"
      then obtain kept assessment placed approved netted where b:
        "list_all2 (netted_plan m) (map snd kept) (plans b)" "map fst kept = map plan_instrument (plans b)" "distinct (map fst kept)"
        "construct_orders codec c seed now_utc [] (plans b) = Inr placed" "batch_orders b = map snd placed"
        "map_result (approved_audit policy now_utc pv assessment (plans b) placed) netted = Inr approved"
        "\<forall>a \<in> set (audits b). audit_is_approved a \<longrightarrow> a \<in> set approved"
        unfolding order_batch_def by blast
      have dist: "distinct (map plan_instrument (plans b))" using b(2,3) by simp
      note placed = placed_orders [OF b(4) dist]
      have orders: "\<exists>plan \<in> set (plans b). \<exists>market. plan_instrument plan = order_instrument r \<and>
          map_of (market_instruments m) (order_instrument r) = Some market \<and>
          order_base_quantity r = dabs (net_signed_base_quantity plan) \<and> 0 < order_base_quantity r \<and>
          order_side r = (if 0 < net_signed_base_quantity plan then BUY else SELL) \<and>
          order_type_of r = MARKET \<and> time_in_force r = IOC \<and> order_correlation_id r = c \<and> created_at_utc r = now_utc \<and>
          meets_min_notional (order_instrument r) (order_base_quantity r) (mark_usd market)" if r: "r \<in> set (batch_orders b)" for r
      proof -
        obtain i where "(i, r) \<in> set placed" using r by (auto simp: b(5))
        then obtain plan where plan: "plan \<in> set (plans b)" "has_venue_portion plan" "order_for codec c seed now_utc plan = Inr r"
          using placed(2) by blast
        note shape = order_for_shape [OF plan(3)]
        obtain members where "netted_plan m members plan"
          using plan(1) list_all2_nthD2 [OF b(1)] by (metis in_set_conv_nth)
        then obtain market where "map_of (market_instruments m) (plan_instrument plan) = Some market"
          "meets_min_notional (plan_instrument plan) (dabs (net_signed_base_quantity plan)) (mark_usd market)"
          using plan(2) by (auto simp: netted_plan_def)
        moreover have "0 < dabs (net_signed_base_quantity plan)"
          using plan(2) by (simp add: has_venue_portion_def dabs_def)
        ultimately show ?thesis using plan(1) shape by auto
      qed
      have "order_instrument ` set (batch_orders b) = set (map fst placed)"
      proof -
        have "order_instrument r = i" if "(i, r) \<in> set placed" for i r
          using placed(2) [OF that] order_for_shape(1) by auto
        then show ?thesis by (force simp: b(5))
      qed
      then have venue: "has_venue_portion plan = (plan_instrument plan \<in> order_instrument ` set (batch_orders b))"
        if "plan \<in> set (plans b)" for plan
        using that dist unfolding placed(1) by (auto simp: distinct_map dest: inj_onD)
      have rows: "\<exists>plan \<in> set (plans b). \<exists>x \<in> set (attributions plan).
          plan_instrument plan = audit_instrument a \<and> attributed_strategy_id x = audit_strategy_id a \<and>
          audit_attributed_quantity a = Some (attributed_base_quantity x) \<and>
          audit_client_order_id a = map_option client_order_id
            (find (\<lambda>r. order_instrument r = audit_instrument a) (batch_orders b))"
        if a: "a \<in> set (audits b)" "audit_is_approved a" for a
      proof -
        obtain x where "approved_audit policy now_utc pv assessment (plans b) placed x = Inr a"
          using b(7) a approved_audits(2) [OF b(6)] by blast
        then show ?thesis by (rule approved_auditD) (auto simp: audit_for_def b(5) placed(4))
      qed
      show ?thesis using placed(3) orders venue rows unfolding b(5) [symmetric] by (auto simp: list_all_iff)
    qed (use none in blast)
  qed
qed

section \<open>Batches that only flatten\<close>

lemma group_admitted_lookup:
  "map_of (group_admitted found) i =
     (let g = filter (\<lambda>a. instrument_of a = i) found in if g = [] then None else Some g)"
proof (induction found rule: rev_induct)
  case (snoc a found)
  then show ?case
    by (auto simp: group_admitted_def Let_def update_conv')
qed (simp add: group_admitted_def)

definition held_quantity :: "portfolio \<Rightarrow> instrument \<Rightarrow> rat" where
  "held_quantity portfolio i = (case position_for portfolio i of None \<Rightarrow> 0 | Some held \<Rightarrow> signed_base_quantity held)"

abbreviation asked_on :: "instrument \<Rightarrow> admitted list \<Rightarrow> rat list" where
  "asked_on i found \<equiv> map (\<lambda>a. requested_base_quantity (admitted_request a)) (filter (\<lambda>a. instrument_of a = i) found)"

text \<open>The first request on an instrument closes all of it, every later one closes nothing.\<close>

definition closes_once :: "portfolio \<Rightarrow> closing \<Rightarrow> instrument \<Rightarrow> rat list \<Rightarrow> bool" where
  "closes_once portfolio remaining i asked \<longleftrightarrow>
     (if map_of remaining i \<noteq> None then list_all (\<lambda>x. x = 0) asked
      else case asked of [] \<Rightarrow> True | x # xs \<Rightarrow> x = dneg (held_quantity portfolio i) \<and> list_all (\<lambda>x. x = 0) xs)"

lemma flat_size_signal:
  assumes "size_signal policy p m now_utc pv remaining s = Inr (Inr (a, rest))" "signal_direction s = FLAT"
    and "list_all (\<lambda>(_, x). x = 0) remaining"
  shows "admitted_signal a = s" "rest = AList.update (signal_instrument s) 0 remaining"
    "requested_base_quantity (admitted_request a) =
       (if map_of remaining (signal_instrument s) \<noteq> None then 0 else dneg (held_quantity (held_portfolio p) (signal_instrument s)))"
proof -
  obtain market e sv where f: "flatten_request (held_portfolio p) remaining s market e sv = Inr (a, rest)"
    using assms(1,2) by (auto simp: size_signal_def and_then_Inr_iff split: option.splits sum.splits)
  have zero: "map_of remaining (signal_instrument s) = Some x \<Longrightarrow> x = 0" for x
    using assms(3) by (auto simp: list_all_iff dest: map_of_SomeD)
  show "admitted_signal a = s" "rest = AList.update (signal_instrument s) 0 remaining"
    using f by (auto simp: flatten_request_def Let_def and_then_Inr_iff)
  show "requested_base_quantity (admitted_request a) =
       (if map_of remaining (signal_instrument s) \<noteq> None then 0 else dneg (held_quantity (held_portfolio p) (signal_instrument s)))"
    using f zero
    by (auto simp: flatten_request_def Let_def and_then_Inr_iff held_quantity_def dneg_def split: option.splits)
qed

lemma flat_requests:
  assumes "size_signals policy p m now_utc pv seen remaining signals = Inr (found, refusals)"
    and "list_all (\<lambda>s. signal_direction s = FLAT) signals" "list_all (\<lambda>(_, x). x = 0) remaining"
  shows "closes_once (held_portfolio p) remaining i (asked_on i found)"
  using assms
proof (induction signals arbitrary: seen remaining found refusals)
  case (Cons s signals)
  show ?case
  proof (cases "admission_refusal seen p m now_utc s")
    case (Some limit)
    then obtain rest where "size_signals policy p m now_utc pv seen remaining signals = Inr (found, rest)"
      using Cons.prems(1) by (auto simp: and_then_Inr_iff)
    then show ?thesis using Cons.IH Cons.prems(2,3) by simp
  next
    case None
    let ?seen = "insert (strategy_id s, signal_instrument s) seen"
    obtain x where x: "size_signal policy p m now_utc pv remaining s = Inr x"
      using Cons.prems(1) None by (auto simp: Let_def and_then_Inr_iff)
    show ?thesis
    proof (cases x)
      case (Inl audit)
      then obtain rest where "size_signals policy p m now_utc pv ?seen remaining signals = Inr (found, rest)"
        using Cons.prems(1) None x by (auto simp: Let_def and_then_Inr_iff)
      then show ?thesis using Cons.IH Cons.prems(2,3) by simp
    next
      case (Inr pair)
      then obtain a left rest where a: "pair = (a, left)" "found = a # rest"
        "size_signals policy p m now_utc pv ?seen left signals = Inr (rest, refusals)"
        using Cons.prems(1) None x by (cases pair) (auto simp: Let_def and_then_Inr_iff)
      have "signal_direction s = FLAT" using Cons.prems(2) by simp
      note first = flat_size_signal [OF x [unfolded Inr a(1)] this Cons.prems(3)]
      have "list_all (\<lambda>(_, x). x = 0) left"
        using Cons.prems(3) set_update_subset [of "signal_instrument s" 0 remaining] unfolding first(2) list_all_iff by blast
      then have "closes_once (held_portfolio p) left i (asked_on i rest)"
        using Cons.IH [OF a(3)] Cons.prems(2) by simp
      then show ?thesis using first
        by (auto simp: closes_once_def a(2) update_conv' dneg_def split: if_splits list.splits option.splits)
    qed
  qed
qed (simp add: closes_once_def)

lemma dsum_closing:
  assumes "list_all (\<lambda>x. x = 0) xs"
  shows "dsum (dneg q # xs) = dneg q" "dsum xs = 0"
proof -
  have keep: "list_all (\<lambda>x. x = 0) xs \<Longrightarrow> foldl dadd (context_round y) xs = context_round y" for y
    by (induction xs) (simp_all add: dadd_def context_round_idem)
  show "dsum (dneg q # xs) = dneg q" using keep [OF assms, of "- q"] by (simp add: dsum_def dadd_def dneg_def context_round_idem)
  show "dsum xs = 0" using keep [OF assms, of 0] by (simp add: dsum_def)
qed

lemma netted_plan_net:
  "netted_plan m members plan \<Longrightarrow> quantize_base_quantity (plan_instrument plan)
     (dsum (map (\<lambda>a. requested_base_quantity (admitted_request a)) members)) = Inr (net_signed_base_quantity plan)"
  using net_requests_shape(3) by (fastforce simp: netted_plan_def comp_def)

lemma quantize_zero: "quantize_base_quantity i 0 = Inr n \<Longrightarrow> n = 0"
  by (auto simp: quantize_base_quantity_def snap_def ddiv_def quantize_one_def dmul_def Let_def and_then_Inr_iff split: if_splits)

lemma closing_net:
  assumes once: "closes_once portfolio [] i asked"
    and held: "list_all (\<lambda>held. snappable (signed_base_quantity held) \<and> valid_instrument (position_instrument held) \<and>
      snappable (lot_step (position_instrument held))) (positions portfolio)"
    and net: "quantize_base_quantity i (dsum asked) = Inr n" "n \<noteq> 0"
  shows "\<exists>held. position_for portfolio i = Some held \<and> (0 < n \<longleftrightarrow> \<not> 0 < signed_base_quantity held) \<and>
    dabs n \<le> \<bar>signed_base_quantity held\<bar> \<and> \<bar>signed_base_quantity held\<bar> - dabs n < lot_step i"
proof -
  have "dsum asked \<noteq> 0" using net quantize_zero by metis
  then obtain xs where asked: "asked = dneg (held_quantity portfolio i) # xs" "list_all (\<lambda>x. x = 0) xs"
    using once by (auto simp: closes_once_def dsum_def split: list.splits)
  then have sum: "dsum asked = dneg (held_quantity portfolio i)" using dsum_closing(1) by simp
  with \<open>dsum asked \<noteq> 0\<close> obtain held where h: "position_for portfolio i = Some held"
    by (auto simp: held_quantity_def dneg_def split: option.splits)
  then have i: "held \<in> set (positions portfolio)" "position_instrument held = i"
    by (auto simp: position_for_def find_Some_iff)
  then have ok: "snappable (signed_base_quantity held)" "valid_instrument i" "snappable (lot_step i)"
    using held by (auto simp: list_all_iff)
  have neg: "snappable (- signed_base_quantity held)" using ok(1) by (auto simp: snappable_def)
  then have "dneg (signed_base_quantity held) = - signed_base_quantity held"
    by (simp add: dneg_def snappable_def lattice_exact)
  then have "dsum asked = - signed_base_quantity held" using sum h by (simp add: held_quantity_def)
  then obtain k where k: "n = of_int k * lot_step i" "\<bar>n\<bar> \<le> \<bar>signed_base_quantity held\<bar>"
    "\<bar>- signed_base_quantity held - n\<bar> < lot_step i" "0 \<le> - signed_base_quantity held * n"
    using quantized [OF ok(2,3) neg] net(1) by auto
  have "on_lattice n" using ok(3) unfolding k(1) snappable_def by auto
  moreover have "\<bar>n\<bar> < 10 ^ 18" using k(2) ok(1) by (simp add: snappable_def)
  ultimately have exact: "dabs n = \<bar>n\<bar>"
    unfolding dabs_def by (intro lattice_exact) (auto simp: abs_if)
  show ?thesis
    using h k(2-4) net(2) exact by (auto simp: zero_le_mult_iff mult_le_0_iff)
qed

text \<open>
  C6. A batch of signals that only flatten can only reduce: each of its orders is on an
  instrument the portfolio holds, on the side that closes the position, for no more than what
  is held and for all of it up to less than one lot step, however many strategies ask for the
  same instrument at once.
\<close>

theorem flat_batch_only_reduces:
  assumes "decide policy gate codec signals p m now_utc c seed = Inr b"
    and "list_all (\<lambda>s. signal_direction s = FLAT) signals"
    and "list_all (\<lambda>held. snappable (signed_base_quantity held) \<and> valid_instrument (position_instrument held) \<and>
      snappable (lot_step (position_instrument held))) (positions (held_portfolio p))"
  shows "list_all (\<lambda>r. \<exists>held. position_for (held_portfolio p) (order_instrument r) = Some held \<and>
    order_side r = (if 0 < signed_base_quantity held then SELL else BUY) \<and>
    order_base_quantity r \<le> \<bar>signed_base_quantity held\<bar> \<and>
    \<bar>signed_base_quantity held\<bar> - order_base_quantity r < lot_step (order_instrument r)) (batch_orders b)"
  using assms(1)
proof (cases rule: decide_cases)
  case halted
  have "StageKillSwitch \<noteq> StageOrderConstruction" by simp
  from refuse_batch_audits [OF this halted(2) [unfolded halted_batch_def]] show ?thesis by simp
next
  case (refused_batch pv limit)
  then show ?thesis using refuse_batch_audits [OF _ refused_batch(2)] by simp
next
  case (sized pv)
  from sized_batch_orders [OF sized(4)] show ?thesis
  proof
    assume "order_batch policy codec p m now_utc c seed pv signals b"
    then obtain found refusals kept placed where b:
      "size_signals policy p m now_utc pv {} [] signals = Inr (found, refusals)"
      "list_all2 (netted_plan m) (map snd kept) (plans b)" "map fst kept = map plan_instrument (plans b)"
      "set kept \<subseteq> set (group_admitted found)" "distinct (map fst kept)"
      "construct_orders codec c seed now_utc [] (plans b) = Inr placed" "batch_orders b = map snd placed"
      unfolding order_batch_def by blast
    have dist: "distinct (map plan_instrument (plans b))" using b(3,5) by simp
    show ?thesis unfolding list_all_iff
    proof
      fix r assume "r \<in> set (batch_orders b)"
      then obtain i where "(i, r) \<in> set placed" by (auto simp: b(7))
      then obtain plan where plan: "plan \<in> set (plans b)" "has_venue_portion plan" "order_for codec c seed now_utc plan = Inr r"
        using placed_orders(2) [OF b(6) dist] by blast
      let ?i = "plan_instrument plan"
      let ?q = "held_quantity (held_portfolio p) ?i"
      obtain k where k: "k < length (plans b)" "plan = plans b ! k" using plan(1) by (auto simp: in_set_conv_nth)
      then have k': "k < length kept" using b(3) by (metis length_map)
      have group: "netted_plan m (snd (kept ! k)) plan" "fst (kept ! k) = ?i"
        using list_all2_nthD [OF b(2), of k] k k' arg_cong [OF b(3), of "\<lambda>xs. xs ! k"] by auto
      have "kept ! k \<in> set (group_admitted found)" using b(4) nth_mem [OF k'] by blast
      then have "map_of (group_admitted found) ?i = Some (snd (kept ! k))"
        using group(2) group_admitted_spec [of found] by (intro map_of_is_SomeI) auto
      then have members: "snd (kept ! k) = filter (\<lambda>a. instrument_of a = ?i) found"
        by (simp add: group_admitted_lookup Let_def split: if_splits)
      have net: "quantize_base_quantity ?i (dsum (asked_on ?i found)) = Inr (net_signed_base_quantity plan)"
        using netted_plan_net [OF group(1)] by (simp only: members)
      have once: "closes_once (held_portfolio p) [] ?i (asked_on ?i found)"
        using flat_requests [OF b(1) assms(2)] by simp
      have "net_signed_base_quantity plan \<noteq> 0" using plan(2) by (simp add: has_venue_portion_def)
      then show "\<exists>held. position_for (held_portfolio p) (order_instrument r) = Some held \<and>
          order_side r = (if 0 < signed_base_quantity held then SELL else BUY) \<and>
          order_base_quantity r \<le> \<bar>signed_base_quantity held\<bar> \<and>
          \<bar>signed_base_quantity held\<bar> - order_base_quantity r < lot_step (order_instrument r)"
        using closing_net [OF once assms(3) net] order_for_shape(1-3) [OF plan(3)] by auto
    qed
  qed simp
qed

section \<open>A concrete batch\<close>

definition coin :: instrument where
  "coin = btcusdt\<lparr>symbol := ''A''\<rparr>"

definition coin_market :: market_state where
  "coin_market = \<lparr>market_instruments = [(coin, \<lparr>market_instrument = coin, mark_usd = 100, mid_quote_price = 100,
       market_atr_14_quote = 2, market_return_series = [], market_volatility_floor = 1 / 2\<rparr>)],
     market_risk_model = example_model\<rparr>"

definition coin_opening :: drawdown_state where
  "coin_opening = \<lparr>state_scope = PortfolioScope, state_subject_id = ''account'', peak_equity_usd = 1000,
     current_equity_usd = 1000, day_start_utc = 0, day_open_equity_usd = 1000,
     rolling_marks = [\<lparr>mark_observed_at_utc = 0, equity_usd = 1000\<rparr>], observed_at_utc = 0, latched_breach = None\<rparr>"

definition coin_strategy :: strategy_state where
  "coin_strategy = \<lparr>record_strategy_id = ''alpha'', record_calibration = \<lparr>calibration_strategy_id = ''alpha'',
       available_at_utc = 0, observation_count = 0, buckets = []\<rparr>, record_closed_trade_count = 0,
     record_realised_mean = 0, record_realised_stdev = 0, record_drawdown_state = None\<rparr>"

definition coin_portfolio :: portfolio_state where
  "coin_portfolio = \<lparr>held_portfolio = \<lparr>as_of_utc = 0, positions = [(flat coin)\<lparr>signed_base_quantity := 1\<rparr>],
       cash_balances = []\<rparr>,
     portfolio_equity_usd = 1000, portfolio_strategies = [(''alpha'', coin_strategy)],
     portfolio_drawdown_state = Some coin_opening\<rparr>"

definition coin_policy :: risk_policy where
  "coin_policy = \<lparr>policy_limits = default_limits, policy_exposure_limits = default_exposure_limits,
     policy_concentration_limits = default_concentration_limits, policy_sizing_parameters = default_sizing_parameters,
     policy_conviction_parameters = default_conviction_parameters, policy_portfolio_budgets = default_portfolio_budgets,
     policy_strategy_budgets = default_strategy_budgets, policy_tradable_symbols = {''A''}\<rparr>"

definition plain_codec :: identity_codec where
  "plain_codec = \<lparr>uuid_text = (\<lambda>_. ''u''), int_text = (\<lambda>_. ''i''), fixed_point_text = (\<lambda>_. ''q''),
     instant_text = (\<lambda>_. ''t''), sha256_hex = (\<lambda>_. replicate 64 (CHR ''a'')), uuid5 = (\<lambda>_ _. 7)\<rparr>"

definition coin_signal :: signal where
  "coin_signal = (example_signal FLAT)\<lparr>signal_instrument := coin\<rparr>"

definition trading_gate :: kill_switch_gate where
  "trading_gate = \<lparr>gate_state = trading_state\<rparr>"


lemma coin_opening_sound: "drawdown_state_post_init coin_opening = Inr ()"
  by code_simp

lemma coin_drawdown: "\<exists>v. evaluated_drawdown (portfolio_drawdown_state coin_portfolio) (policy_portfolio_budgets coin_policy) = Inr (Some v) \<and>
    verdict_breach v = None"
proof -
  have "ratio_of coin_opening name < budget_for default_portfolio_budgets name" for name
    by (cases name) (simp_all add: ratio_of_def drawdown_ratio_def daily_loss_ratio_def rolling_loss_ratio_def coin_opening_def
        ddiv_def dsub_def default_portfolio_budgets_def budget_rolling_loss_ratio_def dmul_def ROLLING_MULTIPLE_def window_high_def)
  then have "verdict_for coin_opening default_portfolio_budgets = None"
    by (simp add: verdict_for_None coin_opening_def)
  moreover have "budgets_scope default_portfolio_budgets = state_scope coin_opening"
    by (simp add: default_portfolio_budgets_def coin_opening_def)
  ultimately have "\<exists>v. evaluate coin_opening default_portfolio_budgets = Inr v \<and> verdict_breach v = None"
    using evaluate_eq [OF coin_opening_sound, of default_portfolio_budgets] by simp
  then show ?thesis by (auto simp: evaluated_drawdown_def coin_portfolio_def coin_policy_def)
qed

lemma coin_not_halted: "verdict_breach v = None \<Longrightarrow> portfolio_halt_reason coin_portfolio coin_market (Some v) = None"
  using coin_drawdown
  by (simp add: portfolio_halt_reason_def coin_portfolio_def coin_market_def open_positions_def flat_def coin_def
      example_model_def)

lemma coin_sized: "case size_signals coin_policy coin_portfolio coin_market 0 pv {} [] [coin_signal, coin_signal] of
    Inr (found, refusals) \<Rightarrow> map admitted_request found = [\<lparr>request_strategy_id = ''alpha'', requested_base_quantity = - 1\<rparr>] \<and>
      map admitted_signal found = [coin_signal] \<and> length refusals = 1 | Inl _ \<Rightarrow> False"
  by code_simp

lemma coin_netted: "case net_requests coin [\<lparr>request_strategy_id = ''alpha'', requested_base_quantity = - 1\<rparr>] (dec 100) (dec 100) of
    Inr plan \<Rightarrow> net_signed_base_quantity plan = - 1 \<and> plan_reference_quote_price plan = 100 \<and>
      map attributed_strategy_id (attributions plan) = [''alpha''] | Inl _ \<Rightarrow> False"
  by code_simp

definition coin_plan :: net_order_plan where
  "coin_plan = \<lparr>plan_instrument = coin, net_signed_base_quantity = - 1, plan_reference_quote_price = 100,
     attributions = [], plan_crossed_base_quantity = 0, residual = None\<rparr>"

lemma dabs_minus_one: "dabs (- 1) = 1"
  by code_simp

lemma coin_order_placed: "\<exists>r. order_for plain_codec 5 2 0 coin_plan = Inr r \<and> order_side r = SELL"
  by (simp add: order_for_def coin_plan_def Let_def order_identity_def plain_codec_def CLIENT_ORDER_ID_DIGEST_LENGTH_def
      dabs_minus_one order_post_init_def guard_simps construct_ok require_uuid_def strip_blank is_py_space_def)

lemma coin_order: "net_signed_base_quantity plan = - 1 \<Longrightarrow> plan_instrument plan = coin \<Longrightarrow>
    order_for plain_codec 5 2 0 plan = order_for plain_codec 5 2 0 coin_plan"
  by (simp add: order_for_def coin_plan_def)

lemma flat_book_degenerate: "portfolio_risk_of [(''A'', 0)] example_model = Inr (degenerate_risk example_model (replicate 4 0))"
proof -
  have symbols: "model_symbols example_model = [''A'', ''B'', ''C'', ''D'']" by (simp add: example_model_def)
  have weights: "map (lookup_or_zero [(''A'', 0)]) (model_symbols example_model) = replicate 4 0"
    by (simp add: symbols lookup_or_zero_def numeral_eq_Suc)
  have entries: "covariance_weighted_entries example_model (replicate 4 0) = Inr (replicate 4 0)"
    by (simp add: covariance_weighted_entries_def symbols covariances msum_def madd_def mmul_def numeral_eq_Suc)
  have "msum (map2 mmul (replicate 4 0) (replicate 4 0)) = 0"
    by (simp add: msum_def madd_def mmul_def numeral_eq_Suc)
  then show ?thesis
    unfolding portfolio_risk_of_def weights Let_def entries and_then_simps by (simp add: symbols)
qed

lemma flat_book_approved: "case assess_concentration [(''A'', 0)] example_model default_concentration_limits 0 of
    Inr a \<Rightarrow> concentration_rejection a = None | Inl _ \<Rightarrow> False"
  by (simp add: assess_concentration_def flat_book_degenerate held_symbols_def cluster_rows_def asset_rows_def
      rejection_for_def worst_breach_def Let_def)

lemma coin_notionals:
  assumes "plan_instrument plan = coin" "net_signed_base_quantity plan = - 1" "plan_reference_quote_price plan = 100"
  shows "prospective_notionals [plan] coin_portfolio coin_market = Inr [(''A'', 0)]"
proof -
  have "context_round (- 100) = - 100" by code_simp
  with assms show ?thesis by (simp add: prospective_notionals_def coin_portfolio_def coin_market_def open_positions_def flat_def coin_def
      add_to_def lookup_or_zero_def dmul_def dadd_def plan_symbol_def venue_signed_notional_quote_def)
qed

lemma coin_decision: "\<exists>b. decide coin_policy trading_gate plain_codec [coin_signal, coin_signal] coin_portfolio coin_market 0 5 2 = Inr b \<and>
    length (batch_orders b) = 1 \<and> length (batch_rejections b) = 1 \<and> batch_orders b = [projr (order_for plain_codec 5 2 0 coin_plan)]"
proof -
  obtain v where v: "evaluated_drawdown (portfolio_drawdown_state coin_portfolio) (policy_portfolio_budgets coin_policy) = Inr (Some v)"
    "portfolio_halt_reason coin_portfolio coin_market (Some v) = None"
    using coin_drawdown coin_not_halted by blast
  obtain a refusals where sized: "size_signals coin_policy coin_portfolio coin_market 0 (Some v) {} [] [coin_signal, coin_signal] = Inr ([a], refusals)"
    "admitted_request a = \<lparr>request_strategy_id = ''alpha'', requested_base_quantity = - 1\<rparr>" "admitted_signal a = coin_signal"
    "length refusals = 1"
    using coin_sized [of "Some v"] by (auto split: sum.splits prod.splits)
  obtain plan where plan: "net_requests coin [\<lparr>request_strategy_id = ''alpha'', requested_base_quantity = - 1\<rparr>] (dec 100) (dec 100) = Inr plan"
    "net_signed_base_quantity plan = - 1" "plan_reference_quote_price plan = 100"
    "map attributed_strategy_id (attributions plan) = [''alpha'']"
    using coin_netted by (auto split: sum.splits)
  have i: "plan_instrument plan = coin" by (rule net_requests_shape(1) [OF plan(1)])
  have inst: "signal_instrument coin_signal = coin" "strategy_id coin_signal = ''alpha''"
    by (simp_all add: coin_signal_def example_signal_def)
  have market: "map_of (market_instruments coin_market) coin = Some \<lparr>market_instrument = coin, mark_usd = 100, mid_quote_price = 100,
       market_atr_14_quote = 2, market_return_series = [], market_volatility_floor = 1 / 2\<rparr>"
    by (simp add: coin_market_def)
  have enough: "meets_min_notional coin (dabs (- 1)) 100" by code_simp
  have grouped: "group_admitted [a] = [(coin, [a])]" by (simp add: group_admitted_def sized(3) inst)
  have netted: "net_groups coin_market 0 (group_admitted [a]) = Inr ([plan], [a], [])"
    by (simp add: grouped market sized(2) plan(1,2) enough)
  obtain assessment where assessment: "assess_prospective_book coin_policy [plan] coin_portfolio coin_market 0 = Inr assessment"
    "concentration_rejection assessment = None"
    using flat_book_approved coin_notionals [OF i plan(2,3)]
    by (auto simp: assess_prospective_book_def weight_ratios_from_notional_def ddiv_def coin_market_def coin_portfolio_def coin_policy_def
        split: sum.splits)
  obtain r where r: "order_for plain_codec 5 2 0 coin_plan = Inr r" using coin_order_placed by blast
  have placed: "construct_orders plain_codec 5 2 0 [] [plan] = Inr [(coin, r)]"
    using coin_order [OF plan(2) i] r by (simp add: has_venue_portion_def plan(2) i)
  obtain x where x: "attributions plan = [x]" "attributed_strategy_id x = ''alpha''" using plan(4) by auto
  have row: "approved_audit coin_policy 0 (Some v) assessment [plan] [(coin, r)] a = Inr (audit_for coin_policy 0 (Some v) a
      StageOrderConstruction None (Some assessment) (Some x) (Some (client_order_id r)))"
    by (simp add: approved_audit_def sized(3) inst i x)
  obtain refusal where refusal: "refusals = [refusal]" "audit_rejection refusal \<noteq> None"
    using sized(4) size_signals_spec [OF sized(1)] by (auto simp: length_Suc_conv refusal_row_def)
  show ?thesis
    by (simp add: decide_def ensure_trading_def trading_gate_def trading_state_def v sized_batch_def sized(1) netted Let_def assessment
        placed row r batch_orders_def batch_rejections_def refusals_of_def refusal(1) map_filter_simps
        del: size_signals.simps net_groups.simps construct_orders.simps)
      (use refusal(2) in \<open>auto simp del: construct_orders.simps\<close>)
qed

abbreviation coin_decides :: "decision_batch \<Rightarrow> bool" where
  "coin_decides b \<equiv>
     decide coin_policy trading_gate plain_codec [coin_signal, coin_signal] coin_portfolio coin_market 0 5 2 = Inr b"

theorem every_signal_is_audited_once_witness:
  "\<exists>b. coin_decides b \<and> length (batch_orders b) = 1 \<and> length (batch_rejections b) = 1 \<and>
     mset (map audit_key (audits b)) = {#signal_key coin_signal, signal_key coin_signal#}"
proof -
  obtain b where b: "coin_decides b" "length (batch_orders b) = 1" "length (batch_rejections b) = 1"
    using coin_decision by blast
  show ?thesis using every_signal_is_audited_once [OF b(1)] b by (intro exI [of _ b]) simp
qed

theorem orders_pass_every_gate_witness:
  "\<exists>b. coin_decides b \<and> length (batch_orders b) = 1 \<and> 0 < portfolio_equity_usd coin_portfolio \<and>
     (\<exists>assessment. assess_prospective_book coin_policy (plans b) coin_portfolio coin_market 0 = Inr assessment \<and>
        concentration_is_approved assessment)"
proof -
  obtain b where b: "coin_decides b" "length (batch_orders b) = 1" using coin_decision by blast
  then have "batch_orders b \<noteq> []" by auto
  then show ?thesis using orders_pass_every_gate [OF b(1)] b by blast
qed

theorem orders_are_the_net_plans_witness:
  "\<exists>b r. coin_decides b \<and> batch_orders b = [r] \<and> order_type_of r = MARKET \<and> order_correlation_id r = 5 \<and>
     (\<exists>plan \<in> set (plans b). plan_instrument plan = order_instrument r \<and>
        order_base_quantity r = dabs (net_signed_base_quantity plan))"
proof -
  obtain b r where b: "coin_decides b" "batch_orders b = [r]" using coin_decision by blast
  show ?thesis using orders_are_the_net_plans [OF b(1)] b
    by (intro exI [of _ b] exI [of _ r]) (fastforce simp: b(2))
qed

lemma coin_valid: "valid_instrument coin" "snappable (lot_step coin)" "snappable 1"
  unfolding valid_instrument_def snappable_def by code_simp+

theorem flat_batch_only_reduces_witness:
  "\<exists>b r held. coin_decides b \<and> batch_orders b = [r] \<and> position_for (held_portfolio coin_portfolio) (order_instrument r) = Some held \<and>
     order_base_quantity r \<le> \<bar>signed_base_quantity held\<bar>"
proof -
  obtain b r where b: "coin_decides b" "batch_orders b = [r]" using coin_decision by blast
  have flat: "list_all (\<lambda>s. signal_direction s = FLAT) [coin_signal, coin_signal]"
    by (simp add: coin_signal_def example_signal_def)
  have held: "list_all (\<lambda>held. snappable (signed_base_quantity held) \<and> valid_instrument (position_instrument held) \<and>
      snappable (lot_step (position_instrument held))) (positions (held_portfolio coin_portfolio))"
    using coin_valid by (simp add: coin_portfolio_def flat_def)
  show ?thesis using flat_batch_only_reduces [OF b(1) flat held] b by auto
qed

end
