(* ===== verification/Degraded.thy ===== *)
theory Degraded
  imports Guards "HOL-Library.AList" "HOL-Library.List_Lexorder" "HOL-Library.Char_ord"
begin

text \<open>
  The five degraded modes of \<open>src/fking/risk/degraded.py\<close>: what each mode does, the
  observations that enter and leave it with their hysteresis, and the questions the order
  path asks. The metrics the gate emits are not modelled; nothing reads them back.
\<close>

section \<open>Modes and their rules\<close>

datatype degraded_mode =
    DATA_STALE
  | EXCHANGE_UNREACHABLE
  | LLM_QUOTA_EXHAUSTED
  | DATABASE_UNAVAILABLE
  | FEATURE_STORE_PARTIAL

definition MODES :: "degraded_mode list" where
  "MODES = [DATA_STALE, EXCHANGE_UNREACHABLE, LLM_QUOTA_EXHAUSTED, DATABASE_UNAVAILABLE, FEATURE_STORE_PARTIAL]"

datatype mode_direction = ENTERED | EXITED

record mode_rule =
  rule_mode :: degraded_mode
  consecutive_faults_to_enter :: nat
  consecutive_clears_to_exit :: nat
  requires_clean_reconciliation_to_exit :: bool
  rule_blocks_new_orders :: bool
  restricts_affected_symbols :: bool
  withholds_feature_values :: bool
  trips_kill_switch :: bool
  pauses_agent_work :: bool

definition mode_rule_post_init :: "mode_rule \<Rightarrow> unit result" where
  [post_init_defs]: "mode_rule_post_init r =
     ensure (\<not> (consecutive_faults_to_enter r < 1 \<or> consecutive_clears_to_exit r < 1)) (DegradedModeError ''threshold'')"

definition affects_trading :: "mode_rule \<Rightarrow> bool" where
  "affects_trading r \<longleftrightarrow> rule_blocks_new_orders r \<or> restricts_affected_symbols r \<or>
     withholds_feature_values r \<or> trips_kill_switch r"

primrec MODE_RULES :: "degraded_mode \<Rightarrow> mode_rule" where
  "MODE_RULES DATA_STALE =
     \<lparr>rule_mode = DATA_STALE, consecutive_faults_to_enter = 1, consecutive_clears_to_exit = 2,
      requires_clean_reconciliation_to_exit = False, rule_blocks_new_orders = False,
      restricts_affected_symbols = True, withholds_feature_values = True,
      trips_kill_switch = False, pauses_agent_work = False\<rparr>"
| "MODE_RULES EXCHANGE_UNREACHABLE =
     \<lparr>rule_mode = EXCHANGE_UNREACHABLE, consecutive_faults_to_enter = 2, consecutive_clears_to_exit = 1,
      requires_clean_reconciliation_to_exit = True, rule_blocks_new_orders = True,
      restricts_affected_symbols = False, withholds_feature_values = False,
      trips_kill_switch = False, pauses_agent_work = False\<rparr>"
| "MODE_RULES LLM_QUOTA_EXHAUSTED =
     \<lparr>rule_mode = LLM_QUOTA_EXHAUSTED, consecutive_faults_to_enter = 1, consecutive_clears_to_exit = 1,
      requires_clean_reconciliation_to_exit = False, rule_blocks_new_orders = False,
      restricts_affected_symbols = False, withholds_feature_values = False,
      trips_kill_switch = False, pauses_agent_work = True\<rparr>"
| "MODE_RULES DATABASE_UNAVAILABLE =
     \<lparr>rule_mode = DATABASE_UNAVAILABLE, consecutive_faults_to_enter = 1, consecutive_clears_to_exit = 1,
      requires_clean_reconciliation_to_exit = False, rule_blocks_new_orders = True,
      restricts_affected_symbols = False, withholds_feature_values = False,
      trips_kill_switch = True, pauses_agent_work = False\<rparr>"
| "MODE_RULES FEATURE_STORE_PARTIAL =
     \<lparr>rule_mode = FEATURE_STORE_PARTIAL, consecutive_faults_to_enter = 1, consecutive_clears_to_exit = 1,
      requires_clean_reconciliation_to_exit = False, rule_blocks_new_orders = False,
      restricts_affected_symbols = True, withholds_feature_values = True,
      trips_kill_switch = False, pauses_agent_work = False\<rparr>"

section \<open>Observations, entries, transitions\<close>

definition degraded_require_utc :: "int option \<Rightarrow> string \<Rightarrow> unit result" where
  "degraded_require_utc utcoffset field = ensure (utcoffset = Some 0) (DegradedModeError field)"

definition require_reason :: "string \<Rightarrow> unit result" where
  "require_reason reason = ensure (strip reason \<noteq> []) (DegradedModeError ''reason'')"

record mode_observation =
  observation_id :: nat
  observation_correlation_id :: nat
  observation_mode :: degraded_mode
  is_faulted :: bool
  mode_observed_at_utc :: int
  observation_reason :: string
  observed_symbols :: "string list"
  reconciliation_is_clean :: bool

definition mode_observation_post_init :: "mode_observation \<Rightarrow> unit result" where
  [post_init_defs]: "mode_observation_post_init x = run_checks
     ([degraded_require_utc (Some 0) ''observed_at_utc'', require_reason (observation_reason x)]
      @ map (\<lambda>s. ensure (strip s \<noteq> []) (DegradedModeError ''affected_symbols'')) (observed_symbols x))"

record mode_entry =
  entry_mode :: degraded_mode
  entered_at_utc :: int
  entry_reason :: string
  entry_correlation_id :: nat
  affected_symbols :: "string list"

record mode_transition =
  transition_mode :: degraded_mode
  transition_direction :: mode_direction
  mode_occurred_at_utc :: int
  mode_transition_reason :: string
  transition_correlation_id :: nat
  transition_symbols :: "string list"

record mode_progress =
  consecutive_faults :: nat
  consecutive_clears :: nat
  last_observation_id :: "nat option"
  last_observed_at_utc :: "int option"
  progress_entry :: "mode_entry option"

definition fresh_progress :: mode_progress where
  "fresh_progress = \<lparr>consecutive_faults = 0, consecutive_clears = 0, last_observation_id = None,
     last_observed_at_utc = None, progress_entry = None\<rparr>"

section \<open>The state\<close>

record degraded_state =
  progress :: "(degraded_mode \<times> mode_progress) list"

definition initial_degraded_state :: degraded_state where
  "initial_degraded_state = \<lparr>progress = []\<rparr>"

definition entry_for :: "degraded_state \<Rightarrow> degraded_mode \<Rightarrow> mode_entry option" where
  "entry_for s m = Option.bind (map_of (progress s) m) progress_entry"

definition mode_is_active :: "degraded_state \<Rightarrow> degraded_mode \<Rightarrow> bool" where
  "mode_is_active s m \<longleftrightarrow> entry_for s m \<noteq> None"

definition active_modes :: "degraded_state \<Rightarrow> degraded_mode list" where
  "active_modes s = filter (mode_is_active s) MODES"

definition superseded :: "mode_progress \<Rightarrow> mode_observation \<Rightarrow> bool" where
  "superseded current x \<longleftrightarrow>
     (if last_observation_id current = Some (observation_id x) then True
      else case last_observed_at_utc current of
          None \<Rightarrow> False | Some t \<Rightarrow> mode_observed_at_utc x < t)"

definition entered :: "mode_observation \<Rightarrow> mode_entry option \<Rightarrow> mode_entry" where
  "entered x previous =
     (case previous of
        None \<Rightarrow> \<lparr>entry_mode = observation_mode x, entered_at_utc = mode_observed_at_utc x,
          entry_reason = observation_reason x, entry_correlation_id = observation_correlation_id x,
          affected_symbols = observed_symbols x\<rparr>
      | Some e \<Rightarrow> e\<lparr>affected_symbols := sort (remdups (affected_symbols e @ observed_symbols x))\<rparr>)"

definition mode_crossing :: "mode_observation \<Rightarrow> mode_direction \<Rightarrow> mode_entry \<Rightarrow> mode_transition" where
  "mode_crossing x direction e =
     \<lparr>transition_mode = observation_mode x, transition_direction = direction,
      mode_occurred_at_utc = mode_observed_at_utc x, mode_transition_reason = observation_reason x,
      transition_correlation_id = observation_correlation_id x, transition_symbols = affected_symbols e\<rparr>"

definition advance :: "mode_rule \<Rightarrow> mode_progress \<Rightarrow> mode_observation \<Rightarrow> mode_progress \<times> mode_transition option" where
  "advance rule current x =
     (let entry = progress_entry current;
          stamp = (\<lambda>faults clears e. \<lparr>consecutive_faults = faults, consecutive_clears = clears,
            last_observation_id = Some (observation_id x), last_observed_at_utc = Some (mode_observed_at_utc x),
            progress_entry = e\<rparr>)
      in if is_faulted x
         then let faults = min (consecutive_faults current + 1) (consecutive_faults_to_enter rule)
              in if faults \<ge> consecutive_faults_to_enter rule
                 then let e = entered x entry
                      in (stamp faults 0 (Some e),
                          if entry = None then Some (mode_crossing x ENTERED e) else None)
                 else (stamp faults 0 entry, None)
         else let clears = min (consecutive_clears current + 1) (consecutive_clears_to_exit rule);
                  cleared_enough = clears \<ge> consecutive_clears_to_exit rule;
                  reconciled = (reconciliation_is_clean x \<or> \<not> requires_clean_reconciliation_to_exit rule)
              in case entry of
                   None \<Rightarrow> (stamp 0 clears None, None)
                 | Some e \<Rightarrow>
                     if cleared_enough \<and> reconciled
                     then (stamp 0 clears None, Some (mode_crossing x EXITED e))
                     else (stamp 0 clears (Some e), None))"

definition observe_mode :: "degraded_state \<Rightarrow> mode_observation \<Rightarrow> degraded_state \<times> mode_transition option" where
  "observe_mode s x =
     (let rule = MODE_RULES (observation_mode x);
          current = (case map_of (progress s) (observation_mode x) of None \<Rightarrow> fresh_progress | Some p \<Rightarrow> p)
      in if superseded current x then (s, None)
         else let (advanced, transition) = advance rule current x
              in (\<lparr>progress = AList.update (observation_mode x) advanced (progress s)\<rparr>, transition))"

section \<open>What the order path asks\<close>

definition blocks_new_orders :: "degraded_state \<Rightarrow> bool" where
  "blocks_new_orders s \<longleftrightarrow> list_ex (\<lambda>m. rule_blocks_new_orders (MODE_RULES m)) (active_modes s)"

definition kill_switch_trip_required :: "degraded_state \<Rightarrow> bool" where
  "kill_switch_trip_required s \<longleftrightarrow> list_ex (\<lambda>m. trips_kill_switch (MODE_RULES m)) (active_modes s)"

definition agent_work_paused :: "degraded_state \<Rightarrow> bool" where
  "agent_work_paused s \<longleftrightarrow> list_ex (\<lambda>m. pauses_agent_work (MODE_RULES m)) (active_modes s)"

definition symbols_where :: "degraded_state \<Rightarrow> (mode_rule \<Rightarrow> bool) \<Rightarrow> string set" where
  "symbols_where s P = foldl (\<lambda>affected m.
     if \<not> P (MODE_RULES m) then affected
     else case entry_for s m of None \<Rightarrow> affected | Some e \<Rightarrow> affected \<union> set (affected_symbols e)) {} (active_modes s)"

definition blocked_symbols :: "degraded_state \<Rightarrow> string set" where
  "blocked_symbols s = symbols_where s restricts_affected_symbols"

definition symbols_without_usable_data :: "degraded_state \<Rightarrow> string set" where
  "symbols_without_usable_data s = symbols_where s withholds_feature_values"

text \<open>The gate holds the state the supervisor writes and the order path reads.\<close>

record degraded_gate =
  held_modes :: degraded_state

definition degraded_gate_init :: "degraded_state option \<Rightarrow> degraded_gate" where
  "degraded_gate_init s = \<lparr>held_modes = (case s of None \<Rightarrow> initial_degraded_state | Some s \<Rightarrow> s)\<rparr>"

definition adopt_modes :: "degraded_gate \<Rightarrow> degraded_state \<Rightarrow> degraded_gate" where
  "adopt_modes g s = g\<lparr>held_modes := s\<rparr>"

definition gate_observe :: "degraded_gate \<Rightarrow> mode_observation \<Rightarrow> degraded_gate \<times> mode_transition option" where
  "gate_observe g x = (let (s, transition) = observe_mode (held_modes g) x in (g\<lparr>held_modes := s\<rparr>, transition))"

text \<open>A stream of observations through the gate, and the audit rows it leaves.\<close>

fun observe_modes :: "degraded_gate \<Rightarrow> mode_observation list \<Rightarrow> degraded_gate \<times> mode_transition list" where
  "observe_modes g [] = (g, [])"
| "observe_modes g (x # xs) =
     (let (g, transition) = gate_observe g x; (g, rows) = observe_modes g xs
      in (g, (case transition of None \<Rightarrow> rows | Some t \<Rightarrow> t # rows)))"

section \<open>What a stream of observations means\<close>

text \<open>
  The observations of one mode that count: a redelivery of the last one counted and one
  stamped before it are dropped.
\<close>

definition accept :: "mode_observation list \<Rightarrow> mode_observation \<Rightarrow> mode_observation list" where
  "accept counted x =
     (if counted \<noteq> [] \<and> (observation_id (last counted) = observation_id x \<or>
           mode_observed_at_utc x < mode_observed_at_utc (last counted))
      then counted else counted @ [x])"

definition counted :: "degraded_mode \<Rightarrow> mode_observation list \<Rightarrow> mode_observation list" where
  "counted m xs = foldl accept [] (filter (\<lambda>x. observation_mode x = m) xs)"

text \<open>The mode was left somewhere in these: enough clears in a row, the last reconciled if it must be.\<close>

definition left :: "degraded_mode \<Rightarrow> mode_observation list \<Rightarrow> bool" where
  "left m ys \<longleftrightarrow> (\<exists>us cs vs. ys = us @ cs @ vs \<and> length cs = consecutive_clears_to_exit (MODE_RULES m) \<and>
     list_all (\<lambda>x. \<not> is_faulted x) cs \<and>
     (requires_clean_reconciliation_to_exit (MODE_RULES m) \<longrightarrow> reconciliation_is_clean (last cs)))"

text \<open>The mode is on: enough faults in a row, and it was not left since.\<close>

definition engaged :: "degraded_mode \<Rightarrow> mode_observation list \<Rightarrow> bool" where
  "engaged m ys \<longleftrightarrow> (\<exists>us fs vs. ys = us @ fs @ vs \<and> length fs = consecutive_faults_to_enter (MODE_RULES m) \<and>
     list_all is_faulted fs \<and> \<not> left m vs)"

definition reported :: "degraded_mode \<Rightarrow> mode_observation list \<Rightarrow> string \<Rightarrow> bool" where
  "reported m ys symbol \<longleftrightarrow> (\<exists>us x vs. ys = us @ x # vs \<and> is_faulted x \<and> symbol \<in> set (observed_symbols x) \<and> \<not> left m vs)"

section \<open>Runs\<close>

abbreviation run :: "('a \<Rightarrow> bool) \<Rightarrow> 'a list \<Rightarrow> nat" where
  "run P xs \<equiv> length (takeWhile P (rev xs))"

lemma run_ge: "n \<le> run P xs \<longleftrightarrow> (\<exists>us vs. xs = us @ vs \<and> length vs = n \<and> list_all P vs)"
proof
  assume n: "n \<le> run P xs"
  let ?vs = "rev (take n (takeWhile P (rev xs)))"
  have "rev xs = take n (takeWhile P (rev xs)) @ drop n (takeWhile P (rev xs)) @ dropWhile P (rev xs)"
    by (metis append.assoc append_take_drop_id takeWhile_dropWhile_id)
  then have "xs = rev (drop n (takeWhile P (rev xs)) @ dropWhile P (rev xs)) @ ?vs" by (metis rev_append rev_rev_ident)
  moreover have "list_all P ?vs"
    by (auto simp: list_all_iff dest: in_set_takeD set_takeWhileD)
  ultimately show "\<exists>us vs. xs = us @ vs \<and> length vs = n \<and> list_all P vs" using n
    by (intro exI conjI) (assumption, simp_all)
next
  assume "\<exists>us vs. xs = us @ vs \<and> length vs = n \<and> list_all P vs"
  then show "n \<le> run P xs" by (auto simp: takeWhile_append list_all_iff)
qed

lemma run_snoc: "run P (xs @ [x]) = (if P x then Suc (run P xs) else 0)"
  by simp

lemma run_after: "\<not> P x \<Longrightarrow> run P (us @ x # vs) = run P vs"
  by (cases "list_all P vs") (auto simp: takeWhile_append list_all_iff takeWhile_eq_all_conv [THEN iffD2])

lemma left_snoc:
  "left m (ys @ [x]) \<longleftrightarrow> left m ys \<or> \<not> is_faulted x \<and>
     consecutive_clears_to_exit (MODE_RULES m) \<le> Suc (run (\<lambda>x. \<not> is_faulted x) ys) \<and>
     (requires_clean_reconciliation_to_exit (MODE_RULES m) \<longrightarrow> reconciliation_is_clean x)"
proof -
  let ?n = "consecutive_clears_to_exit (MODE_RULES m)"
  let ?clean = "\<lambda>x. requires_clean_reconciliation_to_exit (MODE_RULES m) \<longrightarrow> reconciliation_is_clean x"
  have pos: "0 < ?n" by (cases m) simp_all
  have "(\<exists>us cs. ys @ [x] = us @ cs \<and> length cs = ?n \<and> list_all (\<lambda>x. \<not> is_faulted x) cs \<and> ?clean (last cs)) \<longleftrightarrow>
      (\<exists>us cs. ys = us @ cs \<and> length cs = ?n - 1 \<and> list_all (\<lambda>x. \<not> is_faulted x) cs) \<and> \<not> is_faulted x \<and> ?clean x"
    (is "?ends \<longleftrightarrow> ?run")
  proof
    assume ?ends
    then obtain us cs where cs: "ys @ [x] = us @ cs" "length cs = ?n" "list_all (\<lambda>x. \<not> is_faulted x) cs" "?clean (last cs)" by blast
    then obtain ds z where ds: "cs = ds @ [z]" using pos by (cases cs rule: rev_cases) auto
    then show ?run using cs by (intro conjI exI [of _ us] exI [of _ ds]) auto
  next
    assume ?run
    then obtain us cs where "ys = us @ cs" "length cs = ?n - 1" "list_all (\<lambda>x. \<not> is_faulted x) cs" "\<not> is_faulted x" "?clean x" by blast
    then show ?ends using pos by (intro exI [of _ us] exI [of _ "cs @ [x]"]) auto
  qed
  moreover have "?n - 1 \<le> run (\<lambda>x. \<not> is_faulted x) ys \<longleftrightarrow> ?n \<le> Suc (run (\<lambda>x. \<not> is_faulted x) ys)" by linarith
  moreover have "left m (ys @ [x]) \<longleftrightarrow> left m ys \<or>
      (\<exists>us cs. ys @ [x] = us @ cs \<and> length cs = ?n \<and> list_all (\<lambda>x. \<not> is_faulted x) cs \<and> ?clean (last cs))"
  proof
    assume "left m (ys @ [x])"
    then obtain us cs vs where cs: "ys @ [x] = us @ cs @ vs" "length cs = ?n" "list_all (\<lambda>x. \<not> is_faulted x) cs" "?clean (last cs)"
      unfolding left_def by blast
    show "left m ys \<or> (\<exists>us cs. ys @ [x] = us @ cs \<and> length cs = ?n \<and> list_all (\<lambda>x. \<not> is_faulted x) cs \<and> ?clean (last cs))"
    proof (cases vs rule: rev_cases)
      case Nil
      then show ?thesis using cs by auto
    next
      case (snoc ws z)
      then have "ys = us @ cs @ ws" using cs(1) by simp
      then show ?thesis using cs(2-4) unfolding left_def by blast
    qed
  next
    assume "left m ys \<or> (\<exists>us cs. ys @ [x] = us @ cs \<and> length cs = ?n \<and> list_all (\<lambda>x. \<not> is_faulted x) cs \<and> ?clean (last cs))"
    then show "left m (ys @ [x])"
      unfolding left_def by (metis append.assoc append_Nil2)
  qed
  ultimately show ?thesis using run_ge [of "?n - 1" "\<lambda>x. \<not> is_faulted x" ys] by auto
qed

lemma not_left_Nil: "\<not> left m []"
  unfolding left_def by (cases m) auto

lemma reported_snoc:
  "reported m (ys @ [x]) symbol \<longleftrightarrow>
     (if is_faulted x then reported m ys symbol \<or> symbol \<in> set (observed_symbols x)
      else reported m ys symbol \<and> \<not> (consecutive_clears_to_exit (MODE_RULES m) \<le> Suc (run (\<lambda>x. \<not> is_faulted x) ys) \<and>
        (requires_clean_reconciliation_to_exit (MODE_RULES m) \<longrightarrow> reconciliation_is_clean x)))"
proof -
  have "reported m (ys @ [x]) symbol \<longleftrightarrow> is_faulted x \<and> symbol \<in> set (observed_symbols x) \<or>
      (\<exists>us z vs. ys = us @ z # vs \<and> is_faulted z \<and> symbol \<in> set (observed_symbols z) \<and> \<not> left m (vs @ [x]))"
    (is "_ \<longleftrightarrow> ?now \<or> ?before")
  proof
    assume "reported m (ys @ [x]) symbol"
    then obtain us z vs where z: "ys @ [x] = us @ z # vs" "is_faulted z" "symbol \<in> set (observed_symbols z)" "\<not> left m vs"
      unfolding reported_def by blast
    then show "?now \<or> ?before" by (cases vs rule: rev_cases) auto
  next
    assume "?now \<or> ?before"
    then show "reported m (ys @ [x]) symbol"
    proof
      assume ?now
      then show ?thesis unfolding reported_def using not_left_Nil by blast
    next
      assume ?before
      then show ?thesis unfolding reported_def by (metis append.assoc append_Cons)
    qed
  qed
  also have "?before \<longleftrightarrow> reported m ys symbol \<and> (is_faulted x \<or> \<not> (consecutive_clears_to_exit (MODE_RULES m)
      \<le> Suc (run (\<lambda>x. \<not> is_faulted x) ys) \<and> (requires_clean_reconciliation_to_exit (MODE_RULES m) \<longrightarrow> reconciliation_is_clean x)))"
    unfolding reported_def left_snoc using run_after [of "\<lambda>x. \<not> is_faulted x"] by fastforce
  finally show ?thesis by auto
qed

lemma engaged_snoc:
  "engaged m (ys @ [x]) \<longleftrightarrow>
     (if is_faulted x then engaged m ys \<or> consecutive_faults_to_enter (MODE_RULES m) \<le> Suc (run is_faulted ys)
      else engaged m ys \<and> \<not> (consecutive_clears_to_exit (MODE_RULES m) \<le> Suc (run (\<lambda>x. \<not> is_faulted x) ys) \<and>
        (requires_clean_reconciliation_to_exit (MODE_RULES m) \<longrightarrow> reconciliation_is_clean x)))"
proof -
  let ?n = "consecutive_faults_to_enter (MODE_RULES m)"
  have pos: "0 < ?n" by (cases m) simp_all
  have "engaged m (ys @ [x]) \<longleftrightarrow> ?n \<le> run is_faulted (ys @ [x]) \<or>
      (\<exists>us fs vs. ys = us @ fs @ vs \<and> length fs = ?n \<and> list_all is_faulted fs \<and> \<not> left m (vs @ [x]))"
    (is "_ \<longleftrightarrow> _ \<or> ?before")
  proof
    assume "engaged m (ys @ [x])"
    then obtain us fs vs where fs: "ys @ [x] = us @ fs @ vs" "length fs = ?n" "list_all is_faulted fs" "\<not> left m vs"
      unfolding engaged_def by blast
    show "?n \<le> run is_faulted (ys @ [x]) \<or> ?before"
    proof (cases vs rule: rev_cases)
      case Nil
      then show ?thesis using fs unfolding run_ge by auto
    next
      case (snoc ws z)
      then have "ys = us @ fs @ ws" "z = x" using fs(1) by simp_all
      then show ?thesis using fs(2-4) snoc by blast
    qed
  next
    assume "?n \<le> run is_faulted (ys @ [x]) \<or> ?before"
    then show "engaged m (ys @ [x])"
    proof
      assume "?n \<le> run is_faulted (ys @ [x])"
      then show ?thesis unfolding run_ge engaged_def using not_left_Nil by (metis append_Nil2)
    next
      assume ?before
      then show ?thesis unfolding engaged_def by (metis append.assoc)
    qed
  qed
  moreover have "run (\<lambda>x. \<not> is_faulted x) (us @ fs @ vs) = run (\<lambda>x. \<not> is_faulted x) vs"
    if fs: "length fs = ?n" "list_all is_faulted fs" for us fs vs
  proof -
    obtain gs z where "fs = gs @ [z]" "is_faulted z" using fs pos by (cases fs rule: rev_cases) auto
    then show ?thesis using run_after [of "\<lambda>x. \<not> is_faulted x" z "us @ gs" vs] by simp
  qed
  then have "?before \<longleftrightarrow> engaged m ys \<and> (is_faulted x \<or> \<not> (consecutive_clears_to_exit (MODE_RULES m)
      \<le> Suc (run (\<lambda>x. \<not> is_faulted x) ys) \<and> (requires_clean_reconciliation_to_exit (MODE_RULES m) \<longrightarrow> reconciliation_is_clean x)))"
    unfolding engaged_def left_snoc by fastforce
  ultimately show ?thesis using pos by (auto simp: run_snoc)
qed

lemma not_engaged_Nil: "\<not> engaged m []" "\<not> reported m [] symbol"
  unfolding engaged_def reported_def by (cases m; auto)+

section \<open>The state tracks its observations\<close>

text \<open>What the progress of a mode says of the observations counted so far.\<close>

definition tracks :: "degraded_mode \<Rightarrow> mode_progress \<Rightarrow> mode_observation list \<Rightarrow> bool" where
  "tracks m p ys \<longleftrightarrow>
     last_observation_id p = (if ys = [] then None else Some (observation_id (last ys))) \<and>
     last_observed_at_utc p = (if ys = [] then None else Some (mode_observed_at_utc (last ys))) \<and>
     consecutive_faults p = min (run is_faulted ys) (consecutive_faults_to_enter (MODE_RULES m)) \<and>
     consecutive_clears p = min (run (\<lambda>x. \<not> is_faulted x) ys) (consecutive_clears_to_exit (MODE_RULES m)) \<and>
     (progress_entry p \<noteq> None \<longleftrightarrow> engaged m ys) \<and>
     (consecutive_faults_to_enter (MODE_RULES m) = 1 \<longrightarrow>
       (\<forall>symbol. reported m ys symbol \<longleftrightarrow> (\<exists>e. progress_entry p = Some e \<and> symbol \<in> set (affected_symbols e))))"

lemma tracks_fresh: "tracks m fresh_progress []"
  by (simp add: tracks_def fresh_progress_def not_engaged_Nil)

lemma superseded_iff:
  "tracks m p ys \<Longrightarrow> superseded p x \<longleftrightarrow> ys \<noteq> [] \<and> (observation_id (last ys) = observation_id x \<or>
     mode_observed_at_utc x < mode_observed_at_utc (last ys))"
  by (simp add: tracks_def superseded_def)

lemma set_entered: "set (affected_symbols (entered x previous)) =
    (case previous of None \<Rightarrow> {} | Some e \<Rightarrow> set (affected_symbols e)) \<union> set (observed_symbols x)"
  by (simp add: entered_def split: option.splits)

lemma thresholds: "0 < consecutive_faults_to_enter (MODE_RULES m)" "0 < consecutive_clears_to_exit (MODE_RULES m)"
  by (cases m; simp)+

lemma tracks_advance:
  assumes "tracks m p ys"
  shows "tracks m (fst (advance (MODE_RULES m) p x)) (ys @ [x])"
proof (cases "is_faulted x")
  case True
  have "min (min (run is_faulted ys) (consecutive_faults_to_enter (MODE_RULES m)) + 1) (consecutive_faults_to_enter (MODE_RULES m))
      = min (Suc (run is_faulted ys)) (consecutive_faults_to_enter (MODE_RULES m))" by simp
  then show ?thesis using assms True thresholds [of m]
    by (auto simp: tracks_def advance_def Let_def engaged_snoc reported_snoc set_entered split: option.splits)
next
  case False
  have "min (min (run (\<lambda>x. \<not> is_faulted x) ys) (consecutive_clears_to_exit (MODE_RULES m)) + 1) (consecutive_clears_to_exit (MODE_RULES m))
      = min (Suc (run (\<lambda>x. \<not> is_faulted x) ys)) (consecutive_clears_to_exit (MODE_RULES m))" by simp
  then show ?thesis using assms False thresholds [of m]
    by (auto simp: tracks_def advance_def Let_def engaged_snoc reported_snoc split: option.splits)
qed

abbreviation progress_of :: "degraded_state \<Rightarrow> degraded_mode \<Rightarrow> mode_progress" where
  "progress_of s m \<equiv> (case map_of (progress s) m of None \<Rightarrow> fresh_progress | Some p \<Rightarrow> p)"

lemma observe_mode_other:
  "m \<noteq> observation_mode x \<Longrightarrow> progress_of (fst (observe_mode s x)) m = progress_of s m"
  by (simp add: observe_mode_def Let_def update_conv' case_prod_unfold)

lemma observe_mode_own:
  "progress_of (fst (observe_mode s x)) (observation_mode x) =
     (if superseded (progress_of s (observation_mode x)) x then progress_of s (observation_mode x)
      else fst (advance (MODE_RULES (observation_mode x)) (progress_of s (observation_mode x)) x))"
  by (simp add: observe_mode_def Let_def update_conv' case_prod_unfold)

lemma tracks_observe:
  assumes "tracks m (progress_of s m) (counted m xs)"
  shows "tracks m (progress_of (fst (observe_mode s x)) m) (counted m (xs @ [x]))"
proof (cases "m = observation_mode x")
  case True
  have counted: "counted (observation_mode x) (xs @ [x]) = accept (counted (observation_mode x) xs) x"
    by (simp add: counted_def)
  show ?thesis using assms tracks_advance [OF assms, of x] superseded_iff [OF assms, of x]
    unfolding True counted accept_def observe_mode_own by auto
next
  case False
  then show ?thesis using assms by (simp add: observe_mode_other counted_def del: fst_conv)
qed

abbreviation modes_after :: "mode_observation list \<Rightarrow> degraded_state" where
  "modes_after xs \<equiv> held_modes (fst (observe_modes (degraded_gate_init None) xs))"

lemma observe_modes_snoc:
  "observe_modes g (xs @ [x]) =
     (let (g, rows) = observe_modes g xs; (g, transition) = gate_observe g x
      in (g, rows @ (case transition of None \<Rightarrow> [] | Some t \<Rightarrow> [t])))"
  by (induction xs arbitrary: g) (auto simp: Let_def split: prod.splits option.splits)

lemma modes_after_snoc: "modes_after (xs @ [x]) = fst (observe_mode (modes_after xs) x)"
  by (simp add: observe_modes_snoc gate_observe_def Let_def case_prod_unfold)

lemma tracks_run: "tracks m (progress_of (modes_after xs) m) (counted m xs)"
proof (induction xs rule: rev_induct)
  case Nil
  show ?case by (simp add: degraded_gate_init_def initial_degraded_state_def counted_def tracks_fresh)
next
  case (snoc x xs)
  then show ?case unfolding modes_after_snoc by (rule tracks_observe)
qed

lemma entry_for_progress: "entry_for s m = progress_entry (progress_of s m)"
  by (simp add: entry_for_def fresh_progress_def split: option.splits)

lemma active_iff_engaged: "m \<in> set (active_modes (modes_after xs)) \<longleftrightarrow> engaged m (counted m xs)"
proof -
  have "m \<in> set MODES" by (cases m) (simp_all add: MODES_def)
  then show ?thesis using tracks_run [of m xs]
    by (simp add: active_modes_def mode_is_active_def entry_for_progress tracks_def)
qed

lemma symbols_where_iff:
  "symbol \<in> symbols_where s P \<longleftrightarrow> (\<exists>m \<in> set (active_modes s). P (MODE_RULES m) \<and>
     (\<exists>e. entry_for s m = Some e \<and> symbol \<in> set (affected_symbols e)))"
proof -
  have "symbol \<in> foldl (\<lambda>affected m. if \<not> P (MODE_RULES m) then affected
      else case entry_for s m of None \<Rightarrow> affected | Some e \<Rightarrow> affected \<union> set (affected_symbols e)) A ms \<longleftrightarrow>
    symbol \<in> A \<or> (\<exists>m \<in> set ms. P (MODE_RULES m) \<and> (\<exists>e. entry_for s m = Some e \<and> symbol \<in> set (affected_symbols e)))" for A ms
    by (induction ms arbitrary: A) (auto split: option.splits)
  then show ?thesis by (simp add: symbols_where_def)
qed

lemma reported_engaged: "consecutive_faults_to_enter (MODE_RULES m) = 1 \<Longrightarrow> reported m ys symbol \<Longrightarrow> engaged m ys"
proof -
  assume one: "consecutive_faults_to_enter (MODE_RULES m) = 1" and "reported m ys symbol"
  then obtain us x vs where x: "ys = us @ x # vs" "is_faulted x" "\<not> left m vs" unfolding reported_def by blast
  then show "engaged m ys" unfolding engaged_def using one
    by (intro exI [of _ us] exI [of _ "[x]"] exI [of _ vs]) simp
qed

lemma symbols_where_reported:
  assumes "\<And>m. P (MODE_RULES m) \<Longrightarrow> consecutive_faults_to_enter (MODE_RULES m) = 1"
  shows "symbol \<in> symbols_where (modes_after xs) P \<longleftrightarrow> (\<exists>m. P (MODE_RULES m) \<and> reported m (counted m xs) symbol)"
proof -
  let ?E = "\<lambda>m. \<exists>e. entry_for (modes_after xs) m = Some e \<and> symbol \<in> set (affected_symbols e)"
  have reported: "reported m (counted m xs) symbol \<longleftrightarrow> ?E m" if p: "P (MODE_RULES m)" for m
    using tracks_run [of m xs] assms [OF p] by (simp add: tracks_def entry_for_progress)
  moreover have "m \<in> set (active_modes (modes_after xs))" if p: "P (MODE_RULES m)" "?E m" for m
    unfolding active_iff_engaged using reported_engaged [OF assms [OF p(1)]] reported [OF p(1)] p(2) by blast
  ultimately show ?thesis unfolding symbols_where_iff by (simp only: Bex_def) metis
qed

lemma some_mode: "(\<exists>m. Q m) \<longleftrightarrow> Q DATA_STALE \<or> Q EXCHANGE_UNREACHABLE \<or> Q LLM_QUOTA_EXHAUSTED \<or>
    Q DATABASE_UNAVAILABLE \<or> Q FEATURE_STORE_PARTIAL"
proof
  assume "\<exists>m. Q m"
  then obtain m where "Q m" ..
  then show "Q DATA_STALE \<or> Q EXCHANGE_UNREACHABLE \<or> Q LLM_QUOTA_EXHAUSTED \<or>
    Q DATABASE_UNAVAILABLE \<or> Q FEATURE_STORE_PARTIAL" by (cases m) simp_all
qed auto

lemma some_active: "list_ex (\<lambda>m. f (MODE_RULES m)) (active_modes (modes_after xs)) \<longleftrightarrow>
    (\<exists>m. f (MODE_RULES m) \<and> engaged m (counted m xs))"
  unfolding list_ex_iff using active_iff_engaged by blast

lemma path_answers:
  "blocks_new_orders (modes_after xs) \<longleftrightarrow> engaged EXCHANGE_UNREACHABLE (counted EXCHANGE_UNREACHABLE xs) \<or>
     engaged DATABASE_UNAVAILABLE (counted DATABASE_UNAVAILABLE xs)"
  "kill_switch_trip_required (modes_after xs) \<longleftrightarrow> engaged DATABASE_UNAVAILABLE (counted DATABASE_UNAVAILABLE xs)"
  "agent_work_paused (modes_after xs) \<longleftrightarrow> engaged LLM_QUOTA_EXHAUSTED (counted LLM_QUOTA_EXHAUSTED xs)"
  "symbol \<in> blocked_symbols (modes_after xs) \<longleftrightarrow> reported DATA_STALE (counted DATA_STALE xs) symbol \<or>
     reported FEATURE_STORE_PARTIAL (counted FEATURE_STORE_PARTIAL xs) symbol"
  "symbols_without_usable_data (modes_after xs) = blocked_symbols (modes_after xs)"
proof -
  show "blocks_new_orders (modes_after xs) \<longleftrightarrow> engaged EXCHANGE_UNREACHABLE (counted EXCHANGE_UNREACHABLE xs) \<or>
      engaged DATABASE_UNAVAILABLE (counted DATABASE_UNAVAILABLE xs)"
    "kill_switch_trip_required (modes_after xs) \<longleftrightarrow> engaged DATABASE_UNAVAILABLE (counted DATABASE_UNAVAILABLE xs)"
    "agent_work_paused (modes_after xs) \<longleftrightarrow> engaged LLM_QUOTA_EXHAUSTED (counted LLM_QUOTA_EXHAUSTED xs)"
    unfolding blocks_new_orders_def kill_switch_trip_required_def agent_work_paused_def some_active some_mode by simp_all
  have one: "restricts_affected_symbols (MODE_RULES m) \<Longrightarrow> consecutive_faults_to_enter (MODE_RULES m) = 1"
    "withholds_feature_values (MODE_RULES m) \<Longrightarrow> consecutive_faults_to_enter (MODE_RULES m) = 1" for m
    by (cases m; simp)+
  show blocked: "symbol \<in> blocked_symbols (modes_after xs) \<longleftrightarrow> reported DATA_STALE (counted DATA_STALE xs) symbol \<or>
     reported FEATURE_STORE_PARTIAL (counted FEATURE_STORE_PARTIAL xs) symbol" for symbol
    using symbols_where_reported [of restricts_affected_symbols symbol xs] one(1) unfolding blocked_symbols_def some_mode by simp
  have "symbol \<in> symbols_without_usable_data (modes_after xs) \<longleftrightarrow> reported DATA_STALE (counted DATA_STALE xs) symbol \<or>
     reported FEATURE_STORE_PARTIAL (counted FEATURE_STORE_PARTIAL xs) symbol" for symbol
    using symbols_where_reported [of withholds_feature_values symbol xs] one(2) unfolding symbols_without_usable_data_def some_mode by simp
  then show "symbols_without_usable_data (modes_after xs) = blocked_symbols (modes_after xs)"
    using blocked by blast
qed

text \<open>
  C14. The degraded modes are what their hysteresis says. After any stream of observations,
  order construction is blocked exactly when the venue failed twice in a row, or the database
  once, and was not seen well since, the venue with a clean reconciliation; the kill switch
  must trip exactly for the database; agent work is paused exactly for the quota; and a symbol
  takes no new position, and has its feature values withheld, exactly when a stale feed or a
  partial feature store named it and was not left since, the feed by two fresh ticks in a row.
  What counts is each mode's own observations, less the redeliveries of the last one counted
  and those stamped before it; and a second delivery in a row changes nothing and writes no
  audit row.
\<close>

theorem degraded_modes_follow_their_hysteresis:
  "(blocks_new_orders (modes_after xs) \<longleftrightarrow> engaged EXCHANGE_UNREACHABLE (counted EXCHANGE_UNREACHABLE xs) \<or>
      engaged DATABASE_UNAVAILABLE (counted DATABASE_UNAVAILABLE xs)) \<and>
   (kill_switch_trip_required (modes_after xs) \<longleftrightarrow> engaged DATABASE_UNAVAILABLE (counted DATABASE_UNAVAILABLE xs)) \<and>
   (agent_work_paused (modes_after xs) \<longleftrightarrow> engaged LLM_QUOTA_EXHAUSTED (counted LLM_QUOTA_EXHAUSTED xs)) \<and>
   (\<forall>symbol. symbol \<in> blocked_symbols (modes_after xs) \<longleftrightarrow> reported DATA_STALE (counted DATA_STALE xs) symbol \<or>
      reported FEATURE_STORE_PARTIAL (counted FEATURE_STORE_PARTIAL xs) symbol) \<and>
   symbols_without_usable_data (modes_after xs) = blocked_symbols (modes_after xs) \<and>
   observe_modes (degraded_gate_init None) (xs @ [x, x]) = observe_modes (degraded_gate_init None) (xs @ [x])"
proof -
  have "superseded (progress_of (modes_after (xs @ [x])) (observation_mode x)) x"
    unfolding superseded_iff [OF tracks_run [of "observation_mode x" "xs @ [x]"]]
    by (auto simp: counted_def accept_def)
  then have "observe_mode (modes_after (xs @ [x])) x = (modes_after (xs @ [x]), None)"
    by (simp add: observe_mode_def Let_def)
  then have "observe_modes (degraded_gate_init None) ((xs @ [x]) @ [x]) = observe_modes (degraded_gate_init None) (xs @ [x])"
    unfolding observe_modes_snoc [of _ "xs @ [x]" x] gate_observe_def Let_def case_prod_unfold
    by (simp add: prod_eq_iff)
  then show ?thesis using path_answers by simp
qed

text \<open>
  Exhausting the language model's quota never reaches the order path: deleting every
  observation of that mode from any stream changes neither whether orders are blocked, nor
  whether the switch must trip, nor a symbol that is blocked or without usable data.
\<close>

theorem quota_exhaustion_never_reaches_orders:
  "blocks_new_orders (modes_after xs) = blocks_new_orders (modes_after (filter (\<lambda>x. observation_mode x \<noteq> LLM_QUOTA_EXHAUSTED) xs)) \<and>
   kill_switch_trip_required (modes_after xs) =
     kill_switch_trip_required (modes_after (filter (\<lambda>x. observation_mode x \<noteq> LLM_QUOTA_EXHAUSTED) xs)) \<and>
   blocked_symbols (modes_after xs) = blocked_symbols (modes_after (filter (\<lambda>x. observation_mode x \<noteq> LLM_QUOTA_EXHAUSTED) xs)) \<and>
   symbols_without_usable_data (modes_after xs) =
     symbols_without_usable_data (modes_after (filter (\<lambda>x. observation_mode x \<noteq> LLM_QUOTA_EXHAUSTED) xs))"
proof -
  let ?ys = "filter (\<lambda>x. observation_mode x \<noteq> LLM_QUOTA_EXHAUSTED) xs"
  have "counted m ?ys = counted m xs" if m: "m \<noteq> LLM_QUOTA_EXHAUSTED" for m
  proof -
    have "filter (\<lambda>x. observation_mode x = m) ?ys = filter (\<lambda>x. observation_mode x = m) xs"
      unfolding filter_filter using m by (intro filter_cong) auto
    then show ?thesis by (simp add: counted_def)
  qed
  then show ?thesis using path_answers [where xs = xs] path_answers [where xs = ?ys] by (auto simp: set_eq_iff)
qed

section \<open>The audit rows\<close>

definition rows_of :: "degraded_mode \<Rightarrow> mode_transition list \<Rightarrow> mode_direction list" where
  "rows_of m rows = map transition_direction (filter (\<lambda>r. transition_mode r = m) rows)"

definition crossing_rows :: "nat \<Rightarrow> mode_direction list" where
  "crossing_rows n = map (\<lambda>i. if even i then ENTERED else EXITED) [0..<n]"

lemma advance_row:
  "snd (advance rule p x) = None \<Longrightarrow> (progress_entry (fst (advance rule p x)) = None) = (progress_entry p = None)"
  "snd (advance rule p x) = Some t \<Longrightarrow> transition_mode t = observation_mode x \<and>
     (if transition_direction t = ENTERED then progress_entry p = None \<and> progress_entry (fst (advance rule p x)) \<noteq> None
      else progress_entry p \<noteq> None \<and> progress_entry (fst (advance rule p x)) = None)"
  by (auto simp: advance_def Let_def mode_crossing_def split: if_splits option.splits)

text \<open>
  C28. Every crossing is one audit row and every row a crossing: the rows a stream leaves for a
  mode are an entry, an exit, an entry and so on, and the mode is entered at the end exactly
  when the last of them is an entry.
\<close>

theorem mode_rows_count_incidents:
  "\<exists>n. rows_of m (snd (observe_modes (degraded_gate_init None) xs)) = crossing_rows n \<and>
     mode_is_active (modes_after xs) m = odd n"
proof (induction xs rule: rev_induct)
  case Nil
  show ?case by (rule exI [of _ 0]) (simp add: rows_of_def crossing_rows_def degraded_gate_init_def
      initial_degraded_state_def mode_is_active_def entry_for_def)
next
  case (snoc x xs)
  then obtain n where n: "rows_of m (snd (observe_modes (degraded_gate_init None) xs)) = crossing_rows n"
    "mode_is_active (modes_after xs) m = odd n" by blast
  have rows: "snd (observe_modes (degraded_gate_init None) (xs @ [x])) = snd (observe_modes (degraded_gate_init None) xs) @
      (case snd (observe_mode (modes_after xs) x) of None \<Rightarrow> [] | Some t \<Rightarrow> [t])"
    by (simp add: observe_modes_snoc gate_observe_def Let_def case_prod_unfold)
  have active: "mode_is_active s m \<longleftrightarrow> progress_entry (progress_of s m) \<noteq> None" for s
    by (simp add: mode_is_active_def entry_for_progress)
  show ?case
  proof (cases "observation_mode x = m \<and> \<not> superseded (progress_of (modes_after xs) m) x")
    case True
    then have step: "progress_of (modes_after (xs @ [x])) m = fst (advance (MODE_RULES m) (progress_of (modes_after xs) m) x)"
      "snd (observe_mode (modes_after xs) x) = snd (advance (MODE_RULES m) (progress_of (modes_after xs) m) x)"
      unfolding modes_after_snoc using observe_mode_own [of "modes_after xs" x] by (auto simp: observe_mode_def Let_def case_prod_unfold)
    show ?thesis
    proof (cases "snd (advance (MODE_RULES m) (progress_of (modes_after xs) m) x)")
      case None
      then show ?thesis using advance_row(1) [OF None] n unfolding active step(1) rows step(2)
        by (intro exI [of _ n]) simp
    next
      case (Some t)
      note row = advance_row(2) [OF Some]
      have "transition_direction t = (if even n then ENTERED else EXITED)"
        using row n(2) unfolding active by (cases "transition_direction t") auto
      then show ?thesis using row n True unfolding active step(1) rows step(2) Some
        by (intro exI [of _ "Suc n"]) (auto simp: rows_of_def crossing_rows_def split: if_splits)
    qed
  next
    case False
    have "progress_of (modes_after (xs @ [x])) m = progress_of (modes_after xs) m"
      using False observe_mode_other [of m x] observe_mode_own [of "modes_after xs" x] unfolding modes_after_snoc
      by (cases "observation_mode x = m") auto
    moreover have "rows_of m (case snd (observe_mode (modes_after xs) x) of None \<Rightarrow> [] | Some t \<Rightarrow> [t]) = []"
      using False advance_row(2) by (auto simp: rows_of_def observe_mode_def Let_def case_prod_unfold split: option.splits)
    ultimately show ?thesis using n unfolding active rows
      by (intro exI [of _ n]) (simp add: rows_of_def)
  qed
qed

section \<open>A redelivery with an equal stamp\<close>

text \<open>
  Only the last observation counted is recognised as a redelivery. An older one with the same
  stamp as the last is counted again: here a feed that was stale once and then twice fresh, all
  in one microsecond, is stale again when the first report is redelivered.
\<close>

definition feed_report :: "nat \<Rightarrow> bool \<Rightarrow> mode_observation" where
  "feed_report i faulted = \<lparr>observation_id = i, observation_correlation_id = 0, observation_mode = DATA_STALE,
     is_faulted = faulted, mode_observed_at_utc = 0, observation_reason = ''feed'', observed_symbols = [''A''],
     reconciliation_is_clean = False\<rparr>"

lemma equal_stamp_redelivery_reenters:
  "active_modes (modes_after [feed_report 1 True, feed_report 2 False, feed_report 3 False]) = []"
  "active_modes (modes_after [feed_report 1 True, feed_report 2 False, feed_report 3 False, feed_report 1 True]) = [DATA_STALE]"
  by code_simp+

end
