(* ===== verification/Triggers.thy ===== *)
theory Triggers
  imports KillSwitch Drawdown
begin

text \<open>
  The twelve kill-switch triggers of \<open>src/fking/risk/triggers.py\<close>: what is measured, what it
  is compared with, and the rows a trip would be written from. Every decimal field is a finite
  one; the wording of a trigger's detail is not modelled, a fixed text stands for it.
\<close>

section \<open>Identities and constants\<close>

datatype trigger_identity =
    PORTFOLIO_DRAWDOWN
  | DAILY_LOSS
  | ROLLING_LOSS
  | LOSS_VELOCITY
  | RECONCILIATION_DIVERGENCE
  | ORDER_REJECTION_RATE
  | MARKET_DATA_STALENESS
  | CLOCK_SKEW
  | UNHANDLED_EXCEPTION
  | HARD_CEILING_BREACH
  | AUDIT_WRITE_FAILURE
  | MANUAL

primrec trigger_text :: "trigger_identity \<Rightarrow> string" where
  "trigger_text PORTFOLIO_DRAWDOWN = ''portfolio_drawdown''"
| "trigger_text DAILY_LOSS = ''daily_loss''"
| "trigger_text ROLLING_LOSS = ''rolling_loss''"
| "trigger_text LOSS_VELOCITY = ''loss_velocity''"
| "trigger_text RECONCILIATION_DIVERGENCE = ''reconciliation_divergence''"
| "trigger_text ORDER_REJECTION_RATE = ''order_rejection_rate''"
| "trigger_text MARKET_DATA_STALENESS = ''market_data_staleness''"
| "trigger_text CLOCK_SKEW = ''clock_skew''"
| "trigger_text UNHANDLED_EXCEPTION = ''unhandled_exception''"
| "trigger_text HARD_CEILING_BREACH = ''hard_ceiling_breach''"
| "trigger_text AUDIT_WRITE_FAILURE = ''audit_write_failure''"
| "trigger_text MANUAL = ''manual''"





definition STALENESS_CALIBRATION_WINDOW :: int where
  "STALENESS_CALIBRATION_WINDOW = 30 * 24 * 60 * 60 * microseconds_per_second"

definition MINIMUM_GAP_OBSERVATIONS :: nat where
  "MINIMUM_GAP_OBSERVATIONS = 100"




datatype order_outcome = OrderAccepted | OrderRejected

section \<open>Thresholds and observations\<close>





record symbol_staleness =
  stale_symbol :: string
  last_tick_at_utc :: int
  p99_inter_tick_gap_seconds :: rat
  has_open_position :: bool

definition symbol_staleness_post_init :: "symbol_staleness \<Rightarrow> unit result" where
  [post_init_defs]: "symbol_staleness_post_init x = run_checks
     [ensure (strip (stale_symbol x) \<noteq> []) (TriggerObservationError ''symbol''),
      ensure (\<not> p99_inter_tick_gap_seconds x \<le> 0) (TriggerObservationError ''p99_inter_tick_gap_seconds'')]"

definition seconds_between :: "int \<Rightarrow> int \<Rightarrow> rat result" where
  "seconds_between earlier later = ddiv (of_int (later - earlier)) 1000000"


record trigger_observations =
  observations_correlation_id :: nat
  measured_at_utc :: int
  measured_drawdown_state :: drawdown_state
  reconciliation_divergence_attempts :: int
  reconciliation_divergence_is_beyond_dust :: bool
  recent_order_outcomes :: "order_outcome list"
  symbol_staleness_rows :: "symbol_staleness list"
  measured_clock_skew_seconds :: rat
  unhandled_exception_module :: "string option"
  measured_gross_exposure_usd :: rat
  open_position_count :: int
  audit_write_failed :: bool
  manual_trip_reason :: "string option"

definition trigger_observations_post_init :: "trigger_observations \<Rightarrow> unit result" where
  [post_init_defs]: "trigger_observations_post_init x = run_checks
     ([ensure (state_scope (measured_drawdown_state x) = PortfolioScope) (TriggerObservationError ''scope''),
       ensure (\<not> observed_at_utc (measured_drawdown_state x) > measured_at_utc x) (TriggerObservationError ''future state''),
       ensure (\<not> reconciliation_divergence_attempts x < 0) (TriggerObservationError ''reconciliation_divergence_attempts''),
       ensure (\<not> open_position_count x < 0) (TriggerObservationError ''open_position_count''),
       ensure (\<not> measured_gross_exposure_usd x < 0) (TriggerObservationError ''gross_exposure_usd'')]
      @ map (\<lambda>s. ensure (\<not> last_tick_at_utc s > measured_at_utc x) (TriggerObservationError ''future tick''))
          (symbol_staleness_rows x)
      @ [ensure (unhandled_exception_module x \<noteq> Some []) (TriggerObservationError ''unhandled_exception_module''),
         ensure (case manual_trip_reason x of None \<Rightarrow> True | Some reason \<Rightarrow> strip reason \<noteq> [])
           (TriggerObservationError ''manual_trip_reason'')])"




section \<open>Measurements\<close>

fun ascends_strictly :: "int list \<Rightarrow> bool" where
  "ascends_strictly (x # y # zs) \<longleftrightarrow> x < y \<and> ascends_strictly (y # zs)"
| "ascends_strictly _ \<longleftrightarrow> True"

definition pairwise :: "'a list \<Rightarrow> ('a \<times> 'a) list" where
  "pairwise xs = zip xs (tl xs)"

definition derive_p99_inter_tick_gap_seconds :: "int list \<Rightarrow> int \<Rightarrow> int \<Rightarrow> rat result" where
  "derive_p99_inter_tick_gap_seconds tick_times_utc asof_utc window =
     (if window \<le> 0 then Inl (TriggerObservationError ''window'')
      else if \<not> ascends_strictly tick_times_utc then Inl (TriggerObservationError ''tick_times_utc'')
      else
        (let horizon = asof_utc - window;
             considered = filter (\<lambda>tick. tick \<ge> horizon) tick_times_utc
         in and_then (map_result (\<lambda>(earlier, later). seconds_between earlier later) (pairwise considered)) (\<lambda>unsorted.
           let gaps = sort unsorted
           in if length gaps < MINIMUM_GAP_OBSERVATIONS then Inl (TriggerObservationError ''too few gaps'')
              else let rank = - (- 99 * int (length gaps) div 100) in Inr (gaps ! nat (rank - 1)))))"


section \<open>The triggers\<close>














definition optional :: "trip_trigger option result \<Rightarrow> trip_trigger list result" where
  "optional r = and_then r (\<lambda>x. Inr (case x of None \<Rightarrow> [] | Some row \<Rightarrow> [row]))"


section \<open>When a trigger is due\<close>


text \<open>A group of triggers emits rows of these identities.\<close>

definition emits :: "trip_trigger list result \<Rightarrow> trigger_identity list \<Rightarrow> bool" where
  "emits r names \<longleftrightarrow> (\<exists>rows. r = Inr rows \<and> map trigger_id rows = map trigger_text names)"




lemma emits_nothing [simp]: "emits (Inr []) []" "emits (optional (Inr None)) []"
  by (simp_all add: emits_def optional_def)























section \<open>The staleness calibration\<close>

lemma ascends_strictly_iff: "ascends_strictly xs \<longleftrightarrow> sorted_wrt (<) xs"
  by (induction xs rule: ascends_strictly.induct) (auto intro: less_trans)

text \<open>The gaps between the ticks of the trailing window, in seconds.\<close>

definition window_gaps :: "int list \<Rightarrow> int \<Rightarrow> int \<Rightarrow> rat list" where
  "window_gaps ticks asof_utc window =
     (let considered = filter (\<lambda>t. asof_utc - window \<le> t) ticks
      in map (\<lambda>(earlier, later). context_round (of_int (later - earlier) / 1000000)) (zip considered (tl considered)))"

lemma window_gaps_result:
  "map_result (\<lambda>(earlier, later). seconds_between earlier later) (pairwise (filter (\<lambda>tick. tick \<ge> asof_utc - window) ticks)) =
     Inr (window_gaps ticks asof_utc window)"
  unfolding window_gaps_def Let_def pairwise_def
  by (rule map_result_Inr) (auto simp: seconds_between_def ddiv_def)

lemma window_gaps_pos:
  assumes "sorted_wrt (<) ticks" "gap \<in> set (window_gaps ticks asof_utc window)"
  shows "0 < gap"
proof -
  let ?c = "filter (\<lambda>t. asof_utc - window \<le> t) ticks"
  obtain i where i: "Suc i < length ?c" "gap = context_round (of_int (?c ! Suc i - ?c ! i) / 1000000)"
    using assms(2) by (auto simp: window_gaps_def Let_def set_zip nth_tl less_diff_conv)
  have "sorted_wrt (<) ?c" using assms(1) by (rule sorted_wrt_filter)
  then have "?c ! i < ?c ! Suc i" using i(1) by (simp add: sorted_wrt_nth_less)
  then show ?thesis unfolding i(2) by (intro context_round_pos) simp
qed

text \<open>
  C19. A symbol's calibrated gap is the 99th percentile by nearest rank. The derivation returns
  exactly when the window is positive, the ticks ascend strictly and the trailing window has at
  least a hundred gaps between consecutive ticks; what it returns is one of those gaps, positive,
  with at least 99% of them no longer and less than 99% of them shorter.
\<close>

theorem staleness_gap_is_nearest_rank:
  "case derive_p99_inter_tick_gap_seconds ticks asof_utc window of
     Inl e \<Rightarrow> \<not> (0 < window \<and> sorted_wrt (<) ticks \<and> 100 \<le> length (window_gaps ticks asof_utc window))
   | Inr gap \<Rightarrow> 0 < window \<and> sorted_wrt (<) ticks \<and>
       (let gaps = window_gaps ticks asof_utc window
        in 100 \<le> length gaps \<and> gap \<in> set gaps \<and> 0 < gap \<and>
           99 * length gaps \<le> 100 * length (filter (\<lambda>x. x \<le> gap) gaps) \<and>
           100 * length (filter (\<lambda>x. x < gap) gaps) < 99 * length gaps)"
proof -
  let ?gaps = "window_gaps ticks asof_utc window"
  let ?n = "length ?gaps"
  define r where "r = - (- 99 * int ?n div 100)"
  have r: "99 * int ?n \<le> 100 * r" "100 * r < 99 * int ?n + 100" unfolding r_def by presburger+
  show ?thesis
  proof (cases "0 < window \<and> sorted_wrt (<) ticks \<and> 100 \<le> ?n")
    case True
    let ?gap = "sort ?gaps ! nat (r - 1)"
    have k: "nat (r - 1) < length (sort ?gaps)" "int (nat (r - 1)) = r - 1" using r True by auto
    have derived: "derive_p99_inter_tick_gap_seconds ticks asof_utc window = Inr ?gap"
      using True unfolding derive_p99_inter_tick_gap_seconds_def window_gaps_result Let_def and_then_simps r_def
      by (simp add: ascends_strictly_iff MINIMUM_GAP_OBSERVATIONS_def not_le)
    note counts = sorted_counts [OF sorted_sort k(1), unfolded length_filter_sort]
    have "?gap \<in> set ?gaps" using nth_mem [OF k(1)] by simp
    moreover have "0 < ?gap" using window_gaps_pos calculation True by blast
    moreover have "99 * ?n \<le> 100 * length (filter (\<lambda>x. x \<le> ?gap) ?gaps)"
      "100 * length (filter (\<lambda>x. x < ?gap) ?gaps) < 99 * ?n"
      using counts k(2) r by linarith+
    ultimately show ?thesis using True by (simp add: derived Let_def)
  next
    case False
    then have "\<exists>e. derive_p99_inter_tick_gap_seconds ticks asof_utc window = Inl e"
      unfolding derive_p99_inter_tick_gap_seconds_def window_gaps_result Let_def and_then_simps
      by (auto simp: ascends_strictly_iff MINIMUM_GAP_OBSERVATIONS_def)
    then show ?thesis using False by auto
  qed
qed

section \<open>A concrete evaluation\<close>





end
