(* ===== verification/Metrics.thy ===== *)
theory Metrics
  imports Concentration Sizing
begin

text \<open>
  The risk picture of \<open>src/fking/risk/metrics.py\<close>: historical value at risk and its tail mean,
  beta to the market over two windows, realised volatility against its target, the Herfindahl
  index of the cluster shares, and their snapshot. Sums and quotients are at 50 digits, as the
  code's local contexts have them; every decimal but the observations of the tail is finite.
\<close>

section \<open>Tail risk\<close>

record tail_risk_estimate =
  confidence_ratio :: rat
  var_loss_ratio :: rat
  cvar_loss_ratio :: rat
  tail_series_size :: int
  tail_sample_size :: int

fun finite_returns :: "decval list \<Rightarrow> rat list result" where
  "finite_returns [] = Inr []"
| "finite_returns (Finite x # xs) = and_then (finite_returns xs) (\<lambda>ys. Inr (x # ys))"
| "finite_returns (_ # xs) = Inl (DomainError ''non-finite return'')"

definition historical_tail_risk :: "decval list \<Rightarrow> rat \<Rightarrow> tail_risk_estimate result" where
  "historical_tail_risk series confidence =
     (if series = [] then Inl (DomainError ''no return observations'')
      else if \<not> (0 < confidence \<and> confidence < 1) then Inl (DomainError ''confidence_ratio'')
      else and_then (finite_returns series) (\<lambda>returns.
        let n = int (length returns);
            sorted_returns = sort returns;
            raw_tail_size = \<lceil>mmul (dsub 1 confidence) (of_int n)\<rceil>;
            size = max 1 (min n raw_tail_size);
            worst = take (nat size) sorted_returns;
            quantile = sorted_returns ! nat (size - 1)
        in and_then (mdiv (msum worst) (of_int size)) (\<lambda>mean.
           Inr \<lparr>confidence_ratio = confidence, var_loss_ratio = dneg quantile, cvar_loss_ratio = dneg mean,
                tail_series_size = n, tail_sample_size = size\<rparr>)))"

section \<open>Beta\<close>

record beta_estimate =
  full_sample_beta_ratio :: rat
  full_sample_size :: int
  stress_window_beta_ratio :: rat
  stress_window_sample_size :: int
  beta_used_ratio :: rat
  used_stress_window :: bool

definition beta_component :: "rat list \<Rightarrow> rat list \<Rightarrow> (rat \<times> int) result" where
  "beta_component asset_series market_series =
     (if length asset_series \<noteq> length market_series then Inl (DomainError ''series lengths'')
      else if asset_series = [] then Inl (DomainError ''no observations'')
      else
        (let n = int (length asset_series)
         in and_then (mdiv (msum (map2 mmul asset_series market_series)) (of_int n)) (\<lambda>covariance.
            and_then (mdiv (msum (map (\<lambda>r. mmul r r) market_series)) (of_int n)) (\<lambda>market_variance.
              if market_variance \<le> 0 then Inl (DomainError ''market variance'')
              else and_then (mdiv covariance market_variance) (\<lambda>beta. Inr (beta, n))))))"

definition beta_to_market :: "rat list \<Rightarrow> rat list \<Rightarrow> rat list \<Rightarrow> rat list \<Rightarrow> beta_estimate result" where
  "beta_to_market asset_series market_series stress_asset_series stress_market_series =
     and_then (beta_component asset_series market_series) (\<lambda>(full_beta, full_size).
     and_then (beta_component stress_asset_series stress_market_series) (\<lambda>(stress_beta, stress_size).
       let used_stress = dabs stress_beta > dabs full_beta
       in Inr \<lparr>full_sample_beta_ratio = full_beta, full_sample_size = full_size,
               stress_window_beta_ratio = stress_beta, stress_window_sample_size = stress_size,
               beta_used_ratio = (if used_stress then stress_beta else full_beta),
               used_stress_window = used_stress\<rparr>))"

section \<open>Volatility against target\<close>

record volatility_against_target_estimate =
  realised_volatility :: volatility_estimate
  target_annualised_ratio :: rat
  realised_to_target_ratio :: rat
  volatility_sample_size :: int

definition volatility_against_target :: "rat list \<Rightarrow> rat \<Rightarrow> rat \<Rightarrow> volatility_against_target_estimate result" where
  "volatility_against_target series floor_ratio target =
     (if series = [] then Inl (DomainError ''no return observations'')
      else if target \<le> 0 then Inl (DomainError ''target_annualised_ratio'')
      else and_then (volatility_used series floor_ratio) (\<lambda>realised.
           and_then (ddiv (used_annualised realised) target) (\<lambda>ratio.
             Inr \<lparr>realised_volatility = realised, target_annualised_ratio = target, realised_to_target_ratio = ratio,
                  volatility_sample_size = int (length series)\<rparr>)))"

section \<open>Concentration\<close>

record concentration_estimate =
  herfindahl_ratio :: rat
  held_cluster_count :: int

definition concentration_herfindahl :: "portfolio_risk \<Rightarrow> concentration_estimate result" where
  "concentration_herfindahl r =
     (let magnitudes = map dabs (filter (\<lambda>share. share \<noteq> 0) (map snd (cluster_risk_share_ratio r)))
      in if magnitudes = [] then Inr \<lparr>herfindahl_ratio = 0, held_cluster_count = 0\<rparr>
         else
           (let total_magnitude = msum magnitudes
            in and_then (map_result (\<lambda>x. and_then (mdiv x total_magnitude) (\<lambda>y. Inr (mpow y 2))) magnitudes) (\<lambda>squares.
               Inr \<lparr>herfindahl_ratio = msum squares, held_cluster_count = int (length magnitudes)\<rparr>)))"

section \<open>The snapshot\<close>

record risk_metrics_snapshot =
  computed_at_utc :: int
  snapshot_risk_model :: risk_model
  snapshot_portfolio_risk :: portfolio_risk
  snapshot_tail_risk :: tail_risk_estimate
  beta_to_btc :: beta_estimate
  rolling_volatility :: volatility_against_target_estimate
  snapshot_concentration :: concentration_estimate

definition compute_risk_metrics ::
  "(string \<times> rat) list \<Rightarrow> risk_model \<Rightarrow> rat list \<Rightarrow> rat \<Rightarrow> rat list \<Rightarrow> rat list \<Rightarrow> rat list \<Rightarrow> rat list \<Rightarrow> rat \<Rightarrow> rat
     \<Rightarrow> int \<Rightarrow> risk_metrics_snapshot result" where
  "compute_risk_metrics weights model portfolio_series confidence asset_series market_series
       stress_asset_series stress_market_series floor_ratio target now_utc =
     and_then (portfolio_risk_of weights model) (\<lambda>risk.
     and_then (historical_tail_risk (map Finite portfolio_series) confidence) (\<lambda>tail_risk.
     and_then (beta_to_market asset_series market_series stress_asset_series stress_market_series) (\<lambda>beta.
     and_then (volatility_against_target portfolio_series floor_ratio target) (\<lambda>volatility.
     and_then (concentration_herfindahl risk) (\<lambda>herfindahl.
       Inr \<lparr>computed_at_utc = now_utc, snapshot_risk_model = model, snapshot_portfolio_risk = risk,
            snapshot_tail_risk = tail_risk, beta_to_btc = beta, rolling_volatility = volatility,
            snapshot_concentration = herfindahl\<rparr>)))))"

section \<open>Rounding at a stated precision is monotone\<close>

lemma round_at_minus: "round_at prec (- x) = - round_at prec x"
  by (simp add: round_at_def adjusted_def)

lemma round_at_ge_powi:
  assumes "0 < x" "1 \<le> prec"
  shows "10 powi adjusted x \<le> round_at prec x"
proof -
  let ?u = "unit_at prec (adjusted x)"
  have p: "of_int (10 ^ (prec - 1)) * ?u = 10 powi adjusted x"
    using power_unit_at [of "prec - 1" prec "adjusted x"] assms(2) by (simp add: of_nat_diff)
  have "10 powi adjusted x \<le> x" using adjusted_bounds(1) [of x] assms(1) by simp
  then have "of_int (10 ^ (prec - 1)) \<le> x / ?u" unfolding p [symmetric] by (simp add: pos_le_divide_eq)
  from round_half_even_mono [OF this] have "10 ^ (prec - 1) \<le> round_half_even (x / ?u)"
    by (simp only: round_half_even_of_int)
  then have "of_int (10 ^ (prec - 1)) * ?u \<le> of_int (round_half_even (x / ?u)) * ?u"
    by (intro mult_right_mono less_imp_le [OF unit_at_pos]) (simp only: of_int_le_iff)
  then show ?thesis using assms(1) unfolding p by (simp add: round_at_def)
qed

lemma round_at_mono_pos:
  assumes "0 < x" "x \<le> y" "1 \<le> prec"
  shows "round_at prec x \<le> round_at prec y"
proof (cases "adjusted x = adjusted y")
  case True
  have "round_half_even (x / unit_at prec (adjusted y)) \<le> round_half_even (y / unit_at prec (adjusted y))"
    using assms(2) by (intro round_half_even_mono divide_right_mono) (simp_all add: less_imp_le)
  then show ?thesis using assms True by (simp add: round_at_def mult_right_mono less_imp_le)
next
  case False
  moreover have "adjusted x \<le> adjusted y" using assms by (intro adjusted_mono) auto
  ultimately have "(10::rat) powi (adjusted x + 1) \<le> 10 powi adjusted y" by (intro power_int_increasing) auto
  then show ?thesis using round_at_le_powi [OF assms(1,3)] round_at_ge_powi [of y prec] assms by linarith
qed

lemma round_at_mono:
  assumes "x \<le> y" "1 \<le> prec"
  shows "round_at prec x \<le> round_at prec y"
proof -
  consider "0 < x" | "x \<le> 0" "0 \<le> y" | "y < 0" by linarith
  then show ?thesis
  proof cases
    case 1
    then show ?thesis using assms by (rule round_at_mono_pos)
  next
    case 2
    then show ?thesis using round_at_nonneg [of y prec] round_at_nonneg [of "- x" prec] round_at_minus [of prec x] by simp
  next
    case 3
    then have "round_at prec (- y) \<le> round_at prec (- x)" using assms by (intro round_at_mono_pos) auto
    then show ?thesis by (simp add: round_at_minus)
  qed
qed

lemma round_at_exact:
  assumes "x = of_int c * 10 powi e" "\<bar>c\<bar> < 10 ^ prec"
  shows "round_at prec x = x"
proof (cases "x = 0")
  case False
  have "\<bar>x\<bar> = of_int \<bar>c\<bar> * 10 powi e" using assms(1) by (simp add: abs_mult)
  also have "\<dots> < of_int (10 ^ prec) * 10 powi e"
    using assms(2) by (intro mult_strict_right_mono) (simp_all only: of_int_less_iff, simp)
  also have "\<dots> = 10 powi (int prec + e)" by (simp add: power_int_add)
  finally have "10 powi adjusted x < (10::rat) powi (int prec + e)"
    using adjusted_bounds(1) [OF False] by linarith
  then have "adjusted x < int prec + e" by (rule powi10_less_cancel)
  define k where "k = nat (e - (adjusted x - (int prec - 1)))"
  have k: "e = (adjusted x - (int prec - 1)) + int k" using \<open>adjusted x < int prec + e\<close> by (simp add: k_def)
  have "10 powi e = 10 ^ k * unit_at prec (adjusted x)"
    unfolding k unit_at_def by (simp add: power_int_add)
  then have eq: "x = of_int (c * 10 ^ k) * unit_at prec (adjusted x)" unfolding assms(1) by simp
  have "x / unit_at prec (adjusted x) = of_int (c * 10 ^ k)"
    by (rule eq_divide_imp [OF unit_at_nonzero(1) eq [symmetric], symmetric])
  then have "round_half_even (x / unit_at prec (adjusted x)) = c * 10 ^ k" by (simp only: round_half_even_of_int)
  then have "round_at prec x = of_int (c * 10 ^ k) * unit_at prec (adjusted x)"
    using False unfolding round_at_def by (simp only: if_False)
  then show ?thesis using eq by (simp only:)
qed simp

section \<open>The tail and its mean\<close>

lemma math_exact_multiple:
  assumes "representable q" "k \<le> 10 ^ 11"
  shows "round_at MATH_PRECISION (of_nat k * q) = of_nat k * q"
proof -
  obtain c e where q: "q = of_int c * 10 powi e" "\<bar>c\<bar> < 10 ^ 38"
    using assms(1) by (auto simp: representable_def DECIMAL_PRECISION_def)
  have "\<bar>int k * c\<bar> \<le> 10 ^ 11 * 10 ^ 38"
    unfolding abs_mult using q(2) assms(2) by (intro mult_mono) simp_all
  also have "\<dots> < 10 ^ MATH_PRECISION" by (simp add: MATH_PRECISION_def)
  finally show ?thesis by (intro round_at_exact [of _ "int k * c" e]) (simp_all add: q(1))
qed

lemma foldl_madd_le:
  assumes "\<forall>x \<in> set xs. x \<le> q" "representable q" "j + length xs \<le> 10 ^ 11" "a \<le> of_nat j * q"
  shows "foldl madd a xs \<le> of_nat (j + length xs) * q"
  using assms(1,3,4)
proof (induction xs arbitrary: a j)
  case (Cons x xs)
  have "a + x \<le> of_nat (Suc j) * q" using Cons.prems(1,3) by (simp add: distrib_right)
  then have "madd a x \<le> round_at MATH_PRECISION (of_nat (Suc j) * q)"
    unfolding madd_def by (intro round_at_mono) (simp_all add: MATH_PRECISION_def)
  also have "\<dots> = of_nat (Suc j) * q" using Cons.prems(2) assms(2) by (intro math_exact_multiple) simp_all
  finally show ?case using Cons.IH [of "Suc j" "madd a x"] Cons.prems(1,2) by simp
qed simp

lemma msum_minus: "msum (map uminus xs) = - msum xs"
proof -
  have "madd (- a) (- x) = - madd a x" for a x
    unfolding madd_def round_at_minus [symmetric] by simp
  then have "foldl madd (- a) (map uminus xs) = - foldl madd a xs" for a
    by (induction xs arbitrary: a) simp_all
  from this [of 0] show ?thesis by (simp add: msum_def)
qed

lemma mean_le:
  assumes "\<forall>x \<in> set xs. x \<le> q" "representable q" "xs \<noteq> []" "length xs \<le> 10 ^ 11" "mdiv (msum xs) (of_nat (length xs)) = Inr y"
  shows "y \<le> q"
proof -
  have "msum xs \<le> of_nat (length xs) * q"
    using foldl_madd_le [of xs q 0 0] assms(1,2,4) by (simp add: msum_def)
  then have "msum xs / of_nat (length xs) \<le> q" using assms(3) by (simp add: pos_divide_le_eq mult.commute)
  then have "round_at MATH_PRECISION (msum xs / of_nat (length xs)) \<le> round_at MATH_PRECISION q"
    by (rule round_at_mono) (simp add: MATH_PRECISION_def)
  also have "\<dots> = q" using math_exact_multiple [OF assms(2), of 1] by simp
  finally show ?thesis using assms(3,5) by (simp add: mdiv_def)
qed

lemma mean_ge:
  assumes "\<forall>x \<in> set xs. q \<le> x" "representable q" "xs \<noteq> []" "length xs \<le> 10 ^ 11" "mdiv (msum xs) (of_nat (length xs)) = Inr y"
  shows "q \<le> y"
proof -
  have "mdiv (msum (map uminus xs)) (of_nat (length (map uminus xs))) = Inr (- y)"
    using assms(3,5) by (auto simp: mdiv_def msum_minus round_at_minus)
  then have "- y \<le> - q" using assms(1-4) by (intro mean_le [of "map uminus xs"]) (simp_all add: representable_minus)
  then show ?thesis by simp
qed

lemma finite_returns_map [simp]: "finite_returns (map Finite xs) = Inr xs"
  by (induction xs) simp_all

lemma tail_size:
  assumes "on_lattice c" "0 < c" "c < 1" "0 < n" "n \<le> 10 ^ 11"
  shows "max 1 (min n \<lceil>mmul (dsub 1 c) (of_int n)\<rceil>) = \<lceil>(1 - c) * of_int n\<rceil>"
    "1 \<le> \<lceil>(1 - c) * of_int n\<rceil>" "\<lceil>(1 - c) * of_int n\<rceil> \<le> n"
proof -
  obtain k where k: "c = of_int k / 10 ^ 18" using assms(1) by (rule on_latticeE)
  have "dsub 1 c = 1 - c" unfolding dsub_def using assms(1-3) on_lattice_of_int [of 1]
    by (intro lattice_exact on_lattice_diff) (simp_all)
  moreover have "mmul (1 - c) (of_int n) = (1 - c) * of_int n"
  proof -
    have "0 < k" "k < 10 ^ 18" using assms(2,3) unfolding k by (simp_all add: zero_less_divide_iff pos_divide_less_eq)
    then have "\<bar>(10 ^ 18 - k) * n\<bar> \<le> 10 ^ 18 * 10 ^ 11"
      unfolding abs_mult using assms(4,5) by (intro mult_mono) simp_all
    also have "\<dots> < 10 ^ MATH_PRECISION" by (simp add: MATH_PRECISION_def)
    finally have small: "\<bar>(10 ^ 18 - k) * n\<bar> < 10 ^ MATH_PRECISION" .
    have "(1 - c) * of_int n = of_int ((10 ^ 18 - k) * n) * 10 powi (- 18)"
      unfolding k by (simp add: power_int_minus field_simps)
    then show ?thesis unfolding mmul_def using small by (rule round_at_exact)
  qed
  ultimately have size: "mmul (dsub 1 c) (of_int n) = (1 - c) * of_int n" by simp
  have "0 < (1 - c) * of_int n" "(1 - c) * of_int n \<le> of_int n"
    using assms(2-4) by (simp_all add: mult_le_cancel_right1)
  then show "1 \<le> \<lceil>(1 - c) * of_int n\<rceil>" "\<lceil>(1 - c) * of_int n\<rceil> \<le> n" by (simp_all add: ceiling_le_iff less_ceiling_iff int_one_le_iff_zero_less)
  then show "max 1 (min n \<lceil>mmul (dsub 1 c) (of_int n)\<rceil>) = \<lceil>(1 - c) * of_int n\<rceil>" unfolding size by simp
qed

text \<open>
  C18. Tail risk is read off the sample. For a non-empty series of returns of at most 38 digits,
  fewer than 10^11 of them, and a confidence strictly between 0 and 1 on the stored lattice, the
  estimate never raises; its tail holds exactly the worst \<open>(1 - c) n\<close> returns, rounded up, and
  so at least one; the value at risk is the mildest of those losses: at least as many returns are
  at or beyond it and fewer are strictly beyond; and the tail mean lies between the value at risk
  and the worst loss of the series, although it is summed and divided in rounded arithmetic.
\<close>

theorem tail_risk_is_read_off_the_sample:
  assumes "returns \<noteq> []" "list_all representable returns" "length returns \<le> 10 ^ 11"
    and "0 < c" "c < 1" "on_lattice c"
  shows "\<exists>e. historical_tail_risk (map Finite returns) c = Inr e \<and>
    tail_series_size e = int (length returns) \<and>
    tail_sample_size e = \<lceil>(1 - c) * of_nat (length returns)\<rceil> \<and> 1 \<le> tail_sample_size e \<and>
    int (length (filter (\<lambda>r. r < - var_loss_ratio e) returns)) < tail_sample_size e \<and>
    tail_sample_size e \<le> int (length (filter (\<lambda>r. r \<le> - var_loss_ratio e) returns)) \<and>
    var_loss_ratio e \<le> cvar_loss_ratio e \<and> cvar_loss_ratio e \<le> - Min (set returns)"
proof -
  let ?n = "int (length returns)" let ?size = "\<lceil>(1 - c) * of_int ?n\<rceil>" let ?sorted = "sort returns"
  let ?worst = "take (nat ?size) ?sorted" let ?q = "?sorted ! nat (?size - 1)"
  have n: "0 < ?n" "?n \<le> 10 ^ 11" using assms(1,3) by simp_all
  note size = tail_size [OF assms(6,4,5) n]
  have k: "nat (?size - 1) < length ?sorted" "Suc (nat (?size - 1)) = nat ?size" using size(2,3) 
    by (simp only: length_sort nat_less_iff; linarith)+
  have rep: "representable x" if x: "x \<in> set returns" for x using assms(2) x by (simp add: list_all_iff)
  have q: "?q \<in> set returns" using nth_mem [OF k(1)] by simp
  have "length ?sorted \<noteq> 0" using assms(1) by simp
  then have ne: "?sorted \<noteq> []" by (rule contrapos_nn) (simp only: list.size)
  have worst: "length ?worst = nat ?size" "?worst \<noteq> []"
    using size(2,3) ne by auto
  have below: "\<forall>x \<in> set ?worst. x \<le> ?q"
  proof
    fix x assume "x \<in> set ?worst"
    then obtain i where i: "i < nat ?size" "x = ?sorted ! i" by (auto simp: in_set_conv_nth)
    then have "i \<le> nat (?size - 1)" using k(2) by linarith
    with i show "x \<le> ?q" using k(1) by (simp add: sorted_nth_mono)
  qed
  have min: "Min (set returns) \<in> set returns" using assms(1) by (intro Min_in) simp_all
  have above: "\<forall>x \<in> set ?worst. Min (set returns) \<le> x"
    by (auto dest!: in_set_takeD)
  have "?size \<noteq> 0" using size(2) by linarith
  then have "(of_int ?size :: rat) \<noteq> 0" unfolding of_int_eq_0_iff .
  then have "\<exists>y. mdiv (msum ?worst) (of_int ?size) = Inr y" by (simp only: mdiv_def if_False) blast
  then obtain y where y: "mdiv (msum ?worst) (of_int ?size) = Inr y" ..
  moreover have "of_int ?size = (of_nat (length ?worst) :: rat)" using size(2) worst(1) by simp
  ultimately have mean: "mdiv (msum ?worst) (of_nat (length ?worst)) = Inr y" by (simp only:)
  have len: "length ?worst \<le> 10 ^ 11" using assms(3) by (simp add: min.coboundedI1)
  have bounds: "y \<le> ?q" "Min (set returns) \<le> y"
    using mean_le [OF below rep [OF q] worst(2) len mean] mean_ge [OF above rep [OF min] worst(2) len mean] by blast+
  have exact: "dneg x = - x" if x: "x \<in> set returns" for x
    using rep [OF x] by (simp add: dneg_def context_round_representable representable_minus)
  have "dneg y \<le> dneg (Min (set returns))" "dneg ?q \<le> dneg y"
    unfolding dneg_def using bounds by (simp_all add: context_round_mono)
  then have cvar: "- ?q \<le> dneg y" "dneg y \<le> - Min (set returns)" using exact [OF q] exact [OF min] by simp_all
  have estimate: "historical_tail_risk (map Finite returns) c = Inr \<lparr>confidence_ratio = c, var_loss_ratio = dneg ?q,
      cvar_loss_ratio = dneg y, tail_series_size = ?n, tail_sample_size = ?size\<rparr>"
    using assms(1,4,5) y by (simp add: historical_tail_risk_def Let_def size(1) del: of_int_of_nat_eq)
  note counts = sorted_counts [OF sorted_sort k(1), unfolded length_filter_sort]
  have "int (length (filter (\<lambda>r. r < ?q) returns)) < ?size" "?size \<le> int (length (filter (\<lambda>r. r \<le> ?q) returns))"
    using counts k(2) size(2) by linarith+
  with size(2) cvar show ?thesis
    by (intro exI [of _ "\<lparr>confidence_ratio = c, var_loss_ratio = - ?q, cvar_loss_ratio = dneg y, tail_series_size = ?n,
        tail_sample_size = ?size\<rparr>"] conjI estimate [unfolded exact [OF q]]) simp_all
qed

text \<open>Ten returns in tenths of a percent: at 80% the tail is the worst two of them.\<close>

definition example_returns :: "rat list" where
  "example_returns = map (\<lambda>i. of_int i / 1000) [3, - 12, 5, 1, - 30, 2, 0, 4, - 1, 6]"

theorem tail_risk_is_read_off_the_sample_witness:
  "\<exists>e. historical_tail_risk (map Finite example_returns) (8 / 10) = Inr e \<and> tail_sample_size e = 2 \<and>
     var_loss_ratio e \<le> cvar_loss_ratio e \<and> list_all representable example_returns \<and> on_lattice (8 / 10)"
proof -
  have lattice: "on_lattice (8 / 10)" "list_all (\<lambda>x. on_lattice x \<and> \<bar>x\<bar> < 10 ^ 20) example_returns"
    unfolding example_returns_def by code_simp+
  then have "list_all representable example_returns" by (auto simp: list_all_iff intro: lattice_representable)
  then show ?thesis
    using tail_risk_is_read_off_the_sample [of example_returns "8 / 10"] lattice(1) by (auto simp: example_returns_def)
qed

end
