(* ===== verification/Costs.thy ===== *)
theory Costs
  imports Orders "HOL-Library.AList"
begin

text \<open>
  The calibrated cost model of \<open>src/fking/backtest/costs/\<close>: the hour-of-day spread profile
  and its calibration from observations, the two-level depth and its walk, latency charged
  as drift, the provenance check that refuses testnet, the six cost terms of a round trip
  and the run's edge-to-cost gate. A pydantic model is a record whose \<open>_validate\<close> function
  runs the field bounds and the model validators, with the ValidationError they are
  collected into as \<open>ValueError\<close>; a mapping is the list of its items with distinct keys; an
  instant is microseconds since the epoch, so its UTC hour is a quotient.
\<close>

section \<open>Units: _units.py\<close>

definition BPS_PER_UNIT :: rat where
  "BPS_PER_UNIT = 10000"

definition non_negative_bps :: "pyobj \<Rightarrow> string \<Rightarrow> unit result" where
  "non_negative_bps candidate field =
     and_then (decimal_guard ValueError candidate field) (\<lambda>x. ensure (0 \<le> x) (ValueError field))"

definition positive_base_quantity :: "pyobj \<Rightarrow> string \<Rightarrow> unit result" where
  "positive_base_quantity candidate field =
     and_then (decimal_guard ValueError candidate field) (\<lambda>x. ensure (0 < x) (ValueError field))"

definition hour_of :: "int \<Rightarrow> int" where
  "hour_of t = (t div 3600000000) mod 24"

lemma hour_of_range: "0 \<le> hour_of t" "hour_of t < 24"
  by (simp_all add: hour_of_def)

lemma non_negative_bps_dec [guard_simps]: "non_negative_bps (dec x) f = Inr () \<longleftrightarrow> 0 \<le> x"
  by (simp add: non_negative_bps_def)

lemma positive_base_quantity_dec [guard_simps]: "positive_base_quantity (dec x) f = Inr () \<longleftrightarrow> 0 < x"
  by (simp add: positive_base_quantity_def)

section \<open>Provenance: _provenance.py\<close>

text \<open>
  \<open>casefold\<close> and \<open>isalnum\<close> as they are on ASCII text: lower case, and letters and digits.
\<close>

definition casefold :: "string \<Rightarrow> string" where
  "casefold s = map (\<lambda>c. if is_upper c then char_of (of_char c + 32 :: nat) else c) s"

definition condensed :: "string \<Rightarrow> string" where
  "condensed candidate = filter (\<lambda>c. is_digit c \<or> is_upper c \<or> is_lower c) (casefold candidate)"

fun occurs_in :: "string \<Rightarrow> string \<Rightarrow> bool" where
  "occurs_in p [] \<longleftrightarrow> p = []"
| "occurs_in p (c # s) \<longleftrightarrow> take (length p) (c # s) = p \<or> occurs_in p s"

definition FORBIDDEN_SUBSTRING :: string where
  "FORBIDDEN_SUBSTRING = ''testnet''"

definition names_testnet :: "string \<Rightarrow> bool" where
  "names_testnet candidate \<longleftrightarrow> occurs_in FORBIDDEN_SUBSTRING (condensed candidate)"

definition require_production_provenance :: "string \<Rightarrow> string \<Rightarrow> string result" where
  "require_production_provenance candidate field =
     (if strip candidate = [] then Inl (CalibrationProvenanceError (field @ '' blank''))
      else if names_testnet candidate then Inl (CalibrationProvenanceError (field @ '' testnet''))
      else Inr candidate)"

section \<open>Spread: _spread.py\<close>

datatype spread_quantile = P50 | P99

record spread_quantiles =
  p50_bps :: rat
  p99_bps :: rat

definition spread_quantiles_validate :: "spread_quantiles \<Rightarrow> unit result" where
  [post_init_defs]: "spread_quantiles_validate q = run_checks
     [non_negative_bps (dec (p50_bps q)) ''p50_bps'',
      non_negative_bps (dec (p99_bps q)) ''p99_bps'',
      ensure (\<not> p99_bps q < p50_bps q) (ValueError ''quantiles transposed'')]"

fun quantile_at :: "spread_quantiles \<Rightarrow> spread_quantile \<Rightarrow> rat" where
  "quantile_at q P50 = p50_bps q"
| "quantile_at q P99 = p99_bps q"

definition HOURS_IN_DAY :: nat where
  "HOURS_IN_DAY = 24"

type_synonym symbol_spread_profile = "(int \<times> spread_quantiles) list"

definition symbol_spread_profile_validate :: "symbol_spread_profile \<Rightarrow> unit result" where
  [post_init_defs]: "symbol_spread_profile_validate hourly =
     ensure (set (map fst hourly) = set (map int [0..<HOURS_IN_DAY])) (ValueError ''hours'')"

definition spread_bps :: "symbol_spread_profile \<Rightarrow> int \<Rightarrow> spread_quantile \<Rightarrow> rat result" where
  "spread_bps hourly hour_utc quantile =
     (case map_of hourly hour_utc of None \<Rightarrow> Inl KeyError | Some q \<Rightarrow> Inr (quantile_at q quantile))"

definition half_spread_bps :: "symbol_spread_profile \<Rightarrow> int \<Rightarrow> spread_quantile \<Rightarrow> rat result" where
  "half_spread_bps hourly hour_utc quantile =
     and_then (spread_bps hourly hour_utc quantile) (\<lambda>full. ddiv full 2)"

section \<open>Depth: _depth.py\<close>

definition BAND_WIDTH_BPS :: rat where
  "BAND_WIDTH_BPS = 100"

datatype depth_rejection = UNFILLABLE_DEPTH

record depth_profile =
  depth_at_touch_base :: rat
  band_1pct_base :: rat

definition depth_profile_validate :: "depth_profile \<Rightarrow> unit result" where
  [post_init_defs]: "depth_profile_validate p = run_checks
     [positive_base_quantity (dec (depth_at_touch_base p)) ''depth_at_touch_base'',
      positive_base_quantity (dec (band_1pct_base p)) ''band_1pct_base'',
      ensure (\<not> band_1pct_base p < depth_at_touch_base p) (ValueError ''band below touch'')]"

record depth_walk =
  filled_base_quantity :: rat
  depth_slippage_bps :: rat
  walk_fill_count :: int
  walk_rejection :: "depth_rejection option"

definition walk_depth :: "depth_profile \<Rightarrow> rat \<Rightarrow> depth_walk result" where
  "walk_depth profile base_quantity =
     (let requested = dabs base_quantity in
      if requested \<le> 0 then Inl (CostModelConfigError ''base_quantity must be non-zero'')
      else if requested \<le> depth_at_touch_base profile then
        Inr \<lparr>filled_base_quantity = requested, depth_slippage_bps = 0, walk_fill_count = 1,
             walk_rejection = None\<rparr>
      else if requested > band_1pct_base profile then
        Inr \<lparr>filled_base_quantity = 0, depth_slippage_bps = 0, walk_fill_count = 0,
             walk_rejection = Some UNFILLABLE_DEPTH\<rparr>
      else
        (let walked = dsub requested (depth_at_touch_base profile);
             band_depth = dsub (band_1pct_base profile) (depth_at_touch_base profile)
         in and_then (ddiv walked band_depth) (\<lambda>fraction_into_band.
            and_then (ddiv (dmul BAND_WIDTH_BPS fraction_into_band) 2) (\<lambda>average_walk_bps.
            and_then (ddiv (dmul average_walk_bps walked) requested) (\<lambda>slippage.
              Inr \<lparr>filled_base_quantity = requested, depth_slippage_bps = slippage,
                   walk_fill_count = 2, walk_rejection = None\<rparr>)))))"

section \<open>Latency: _latency.py\<close>

record latency_profile =
  decision_to_send :: int
  send_to_ack :: int
  ack_to_fill :: int
  adverse_drift_bps_per_second :: rat

definition latency_profile_validate :: "latency_profile \<Rightarrow> unit result" where
  [post_init_defs]: "latency_profile_validate l = run_checks
     [non_negative_bps (dec (adverse_drift_bps_per_second l)) ''adverse_drift_bps_per_second'',
      ensure (\<not> (decision_to_send l < 0 \<or> send_to_ack l < 0 \<or> ack_to_fill l < 0))
        (ValueError ''negative latency stage'')]"

definition total_latency :: "latency_profile \<Rightarrow> int" where
  "total_latency l = decision_to_send l + send_to_ack l + ack_to_fill l"

definition total_latency_seconds :: "latency_profile \<Rightarrow> rat result" where
  "total_latency_seconds l = ddiv (of_int (total_latency l)) 1000000"

definition latency_bps :: "latency_profile \<Rightarrow> rat result" where
  "latency_bps l = and_then (total_latency_seconds l) (\<lambda>s. Inr (dmul (adverse_drift_bps_per_second l) s))"

section \<open>The model: _model.py\<close>

record fee_schedule =
  maker_fee_bps :: rat
  taker_fee_bps :: rat

definition fee_schedule_validate :: "fee_schedule \<Rightarrow> unit result" where
  [post_init_defs]: "fee_schedule_validate f = run_checks
     [non_negative_bps (dec (maker_fee_bps f)) ''maker_fee_bps'',
      non_negative_bps (dec (taker_fee_bps f)) ''taker_fee_bps'']"

definition fee_bps_for :: "fee_schedule \<Rightarrow> bool \<Rightarrow> rat" where
  "fee_bps_for f is_passive = (if is_passive then maker_fee_bps f else taker_fee_bps f)"

record partial_fill_profile =
  passive_markout_bps :: rat
  requote_cost_bps_per_extra_fill :: rat

definition partial_fill_profile_validate :: "partial_fill_profile \<Rightarrow> unit result" where
  [post_init_defs]: "partial_fill_profile_validate p = run_checks
     [non_negative_bps (dec (passive_markout_bps p)) ''passive_markout_bps'',
      non_negative_bps (dec (requote_cost_bps_per_extra_fill p)) ''requote_cost_bps_per_extra_fill'']"

record cost_model =
  model_version :: string
  calibration_source :: string
  calibration_method :: string
  calibrated_at :: int
  fees :: fee_schedule
  latency :: latency_profile
  partial_fills :: partial_fill_profile
  spreads :: "(string \<times> symbol_spread_profile) list"
  depth :: "(string \<times> depth_profile) list"

text \<open>
  The fields are models of their own, validated before the model that holds them. The
  provenance validator raises a class that pydantic does not collect.
\<close>

definition cost_model_validate :: "cost_model \<Rightarrow> unit result" where
  [post_init_defs]: "cost_model_validate m = run_checks
     ([void (require_production_provenance (calibration_source m) ''calibration_source''),
       fee_schedule_validate (fees m),
       latency_profile_validate (latency m),
       partial_fill_profile_validate (partial_fills m)] @
      concat (map (\<lambda>(_, hourly).
        map (\<lambda>(_, q). spread_quantiles_validate q) hourly @ [symbol_spread_profile_validate hourly])
        (spreads m)) @
      map (\<lambda>(_, p). depth_profile_validate p) (depth m))"

definition spread_profile_for :: "cost_model \<Rightarrow> string \<Rightarrow> symbol_spread_profile result" where
  "spread_profile_for m name =
     (case map_of (spreads m) name of
        None \<Rightarrow> Inl (CostModelConfigError ''no calibrated spread profile'')
      | Some profile \<Rightarrow> Inr profile)"

definition depth_profile_for :: "cost_model \<Rightarrow> string \<Rightarrow> depth_profile result" where
  "depth_profile_for m name =
     (case map_of (depth m) name of
        None \<Rightarrow> Inl (CostModelConfigError ''no calibrated depth profile'')
      | Some profile \<Rightarrow> Inr profile)"

section \<open>The six terms: _terms.py\<close>

datatype cost_term = FEES | SPREAD | DEPTH_SLIPPAGE | LATENCY | PARTIAL_FILL | FUNDING

record cost_breakdown =
  fees_bps :: rat
  spread_term_bps :: rat
  depth_term_bps :: rat
  latency_term_bps :: rat
  partial_fill_bps :: rat
  funding_bps :: rat

definition breakdown_zero :: cost_breakdown where
  "breakdown_zero = \<lparr>fees_bps = 0, spread_term_bps = 0, depth_term_bps = 0, latency_term_bps = 0,
     partial_fill_bps = 0, funding_bps = 0\<rparr>"

definition as_terms :: "cost_breakdown \<Rightarrow> (cost_term \<times> rat) list" where
  "as_terms b =
     [(FEES, fees_bps b), (SPREAD, spread_term_bps b), (DEPTH_SLIPPAGE, depth_term_bps b),
      (LATENCY, latency_term_bps b), (PARTIAL_FILL, partial_fill_bps b), (FUNDING, funding_bps b)]"

definition round_trip_cost_bp :: "cost_breakdown \<Rightarrow> rat" where
  "round_trip_cost_bp b = dsum (map snd (as_terms b))"

definition breakdown_plus :: "cost_breakdown \<Rightarrow> cost_breakdown \<Rightarrow> cost_breakdown" where
  "breakdown_plus a b =
     \<lparr>fees_bps = dadd (fees_bps a) (fees_bps b),
      spread_term_bps = dadd (spread_term_bps a) (spread_term_bps b),
      depth_term_bps = dadd (depth_term_bps a) (depth_term_bps b),
      latency_term_bps = dadd (latency_term_bps a) (latency_term_bps b),
      partial_fill_bps = dadd (partial_fill_bps a) (partial_fill_bps b),
      funding_bps = dadd (funding_bps a) (funding_bps b)\<rparr>"

definition breakdown_divided_by :: "cost_breakdown \<Rightarrow> int \<Rightarrow> cost_breakdown result" where
  "breakdown_divided_by b divisor =
     (if divisor \<le> 0 then Inl (CostModelConfigError ''cannot average'')
      else and_then (ddiv (fees_bps b) (of_int divisor)) (\<lambda>f.
           and_then (ddiv (spread_term_bps b) (of_int divisor)) (\<lambda>s.
           and_then (ddiv (depth_term_bps b) (of_int divisor)) (\<lambda>d.
           and_then (ddiv (latency_term_bps b) (of_int divisor)) (\<lambda>l.
           and_then (ddiv (partial_fill_bps b) (of_int divisor)) (\<lambda>p.
           and_then (ddiv (funding_bps b) (of_int divisor)) (\<lambda>u.
             Inr \<lparr>fees_bps = f, spread_term_bps = s, depth_term_bps = d, latency_term_bps = l,
                  partial_fill_bps = p, funding_bps = u\<rparr>)))))))"

section \<open>Charging a round trip: _charge.py\<close>

fun FUNDING_MULTIPLIER :: "direction \<Rightarrow> rat" where
  "FUNDING_MULTIPLIER LONG = 1"
| "FUNDING_MULTIPLIER SHORT = - 1"
| "FUNDING_MULTIPLIER FLAT = 0"

record execution_leg =
  leg_symbol :: string
  leg_base_quantity :: rat
  leg_decided_at_utc :: int
  leg_is_passive :: bool

definition execution_leg_validate :: "execution_leg \<Rightarrow> unit result" where
  [post_init_defs]: "execution_leg_validate g = run_checks
     [positive_base_quantity (dec (leg_base_quantity g)) ''base_quantity'',
      void (utc_guard ValueError (utc (leg_decided_at_utc g)) ''decided_at_utc'')]"

definition hour_utc :: "execution_leg \<Rightarrow> int" where
  "hour_utc g = hour_of (leg_decided_at_utc g)"

record funding_exposure =
  funding_direction :: direction
  funding_rate :: rat
  settlement_count :: int

definition funding_exposure_validate :: "funding_exposure \<Rightarrow> unit result" where
  [post_init_defs]: "funding_exposure_validate f =
     ensure (\<not> settlement_count f < 0) (ValueError ''settlement_count'')"

definition none_held :: funding_exposure where
  "none_held = \<lparr>funding_direction = FLAT, funding_rate = 0, settlement_count = 0\<rparr>"

definition exposure_funding_bps :: "funding_exposure \<Rightarrow> rat" where
  "exposure_funding_bps f =
     dmul (dmul (dmul (funding_rate f) (of_int (settlement_count f)))
       (FUNDING_MULTIPLIER (funding_direction f))) BPS_PER_UNIT"

record round_trip =
  entry_leg :: execution_leg
  exit_leg :: execution_leg
  funding :: funding_exposure

record round_trip_cost =
  breakdown :: "cost_breakdown option"
  rejections_by_reason :: "(depth_rejection \<times> int) list"

definition charge_leg :: "cost_model \<Rightarrow> execution_leg \<Rightarrow> spread_quantile \<Rightarrow> cost_breakdown result" where
  "charge_leg m leg quantile =
     and_then (and_then (depth_profile_for m (leg_symbol leg)) (\<lambda>p. walk_depth p (leg_base_quantity leg))) (\<lambda>walk.
     and_then (spread_profile_for m (leg_symbol leg)) (\<lambda>spread_profile.
     and_then (if leg_is_passive leg then Inr 0
               else half_spread_bps spread_profile (hour_utc leg) quantile) (\<lambda>spread.
     and_then (latency_bps (latency m)) (\<lambda>late.
       let slippage = (if leg_is_passive leg then 0 else depth_slippage_bps walk);
           partial = (if leg_is_passive leg then passive_markout_bps (partial_fills m)
             else dmul (requote_cost_bps_per_extra_fill (partial_fills m))
                    (of_int (max (walk_fill_count walk - 1) 0)))
       in Inr \<lparr>fees_bps = fee_bps_for (fees m) (leg_is_passive leg), spread_term_bps = spread,
               depth_term_bps = slippage, latency_term_bps = late, partial_fill_bps = partial,
               funding_bps = 0\<rparr>))))"

definition count_rejection :: "(depth_rejection \<times> int) list \<Rightarrow> depth_rejection \<Rightarrow> int \<Rightarrow> (depth_rejection \<times> int) list" where
  "count_rejection counts reason n =
     AList.update reason ((case map_of counts reason of None \<Rightarrow> 0 | Some k \<Rightarrow> k) + n) counts"

fun leg_rejections ::
  "cost_model \<Rightarrow> (depth_rejection \<times> int) list \<Rightarrow> execution_leg list \<Rightarrow> (depth_rejection \<times> int) list result" where
  "leg_rejections m counts [] = Inr counts"
| "leg_rejections m counts (leg # legs) =
     and_then (and_then (depth_profile_for m (leg_symbol leg)) (\<lambda>p. walk_depth p (leg_base_quantity leg))) (\<lambda>walk.
       leg_rejections m
         (case walk_rejection walk of None \<Rightarrow> counts | Some reason \<Rightarrow> count_rejection counts reason 1) legs)"

definition charge_round_trip :: "cost_model \<Rightarrow> round_trip \<Rightarrow> spread_quantile \<Rightarrow> round_trip_cost result" where
  "charge_round_trip m trip quantile =
     and_then (leg_rejections m [] [entry_leg trip, exit_leg trip]) (\<lambda>rejections.
       if rejections \<noteq> [] then Inr \<lparr>breakdown = None, rejections_by_reason = rejections\<rparr>
       else and_then (charge_leg m (entry_leg trip) quantile) (\<lambda>a.
            and_then (charge_leg m (exit_leg trip) quantile) (\<lambda>b.
              Inr \<lparr>breakdown = Some ((breakdown_plus a b)\<lparr>funding_bps := exposure_funding_bps (funding trip)\<rparr>),
                   rejections_by_reason = []\<rparr>)))"

section \<open>Calibrating a spread profile: _calibrate.py\<close>

record spread_observation =
  observed_at_utc :: int
  observed_spread_bps :: rat

definition spread_observation_validate :: "spread_observation \<Rightarrow> unit result" where
  [post_init_defs]: "spread_observation_validate s = run_checks
     [void (utc_guard ValueError (utc (observed_at_utc s)) ''observed_at_utc''),
      non_negative_bps (dec (observed_spread_bps s)) ''spread_bps'']"

text \<open>Python's \<open>-(-rank_pct * n // 100)\<close>, and an index from the front.\<close>

definition spread_nearest_rank :: "rat list \<Rightarrow> int \<Rightarrow> rat" where
  "spread_nearest_rank ordered rank_pct =
     (let position = - ((- rank_pct * int (length ordered)) div 100) in ordered ! nat (position - 1))"

definition bucket :: "spread_observation list \<Rightarrow> int \<Rightarrow> rat list" where
  "bucket observations hour =
     map observed_spread_bps (filter (\<lambda>s. hour_of (observed_at_utc s) = hour) observations)"

definition calibrate_spread_profile :: "spread_observation list \<Rightarrow> string \<Rightarrow> symbol_spread_profile result" where
  "calibrate_spread_profile observations source =
     and_then (require_production_provenance source ''calibration_source'') (\<lambda>_.
       let hours = map int [0..<HOURS_IN_DAY] in
       if \<exists>hour \<in> set hours. bucket observations hour = []
       then Inl (CostModelConfigError ''unobserved hours'')
       else and_then (map_result (\<lambda>hour.
              let ordered = sort (bucket observations hour)
              in and_then (construct spread_quantiles_validate
                   \<lparr>p50_bps = spread_nearest_rank ordered 50, p99_bps = spread_nearest_rank ordered 99\<rparr>)
                   (\<lambda>q. Inr (hour, q))) hours) (\<lambda>hourly.
            construct symbol_spread_profile_validate hourly))"

section \<open>The run's gate: _report.py\<close>

definition MIN_EDGE_TO_COST_RATIO :: rat where
  "MIN_EDGE_TO_COST_RATIO = 2"

datatype cost_verdict = ACCEPTED | REJECTED_EDGE_TO_COST | VOID

definition verdict_for :: "rat \<Rightarrow> rat \<Rightarrow> (rat option \<times> cost_verdict \<times> string option) result" where
  "verdict_for gross_edge cost =
     (if cost = 0 then Inr (None, VOID, Some ''zero cost'')
      else if cost < 0 then Inr (None, VOID, Some ''net credit'')
      else and_then (ddiv gross_edge cost) (\<lambda>ratio.
        if ratio < 0 then Inr (None, VOID, Some ''negative ratio'')
        else if ratio < MIN_EDGE_TO_COST_RATIO then Inr (Some ratio, REJECTED_EDGE_TO_COST, None)
        else Inr (Some ratio, ACCEPTED, None)))"

record run_cost_report =
  report_calibration_source :: string
  report_quantile :: spread_quantile
  filled_trade_count :: int
  report_rejections :: "(depth_rejection \<times> int) list"
  gross_edge_per_trade_bp :: rat
  report_round_trip_cost_bp :: rat
  net_edge_per_trade_bp :: rat
  gross_return_bps :: rat
  total_cost_bps :: rat
  net_return_bps :: rat
  report_breakdown :: cost_breakdown
  edge_to_cost_ratio :: "rat option"
  report_verdict :: cost_verdict
  void_reason :: "string option"

definition is_evidence :: "run_cost_report \<Rightarrow> bool" where
  "is_evidence r \<longleftrightarrow> report_verdict r = ACCEPTED"

fun merge_rejections :: "(depth_rejection \<times> int) list \<Rightarrow> (depth_rejection \<times> int) list \<Rightarrow> (depth_rejection \<times> int) list" where
  "merge_rejections counts [] = counts"
| "merge_rejections counts ((reason, n) # rest) = merge_rejections (count_rejection counts reason n) rest"

fun charge_run ::
  "cost_model \<Rightarrow> spread_quantile \<Rightarrow> round_trip list \<Rightarrow> cost_breakdown \<times> (depth_rejection \<times> int) list \<times> int
     \<Rightarrow> (cost_breakdown \<times> (depth_rejection \<times> int) list \<times> int) result" where
  "charge_run m quantile [] acc = Inr acc"
| "charge_run m quantile (trip # trips) (accumulated, rejections, filled) =
     and_then (charge_round_trip m trip quantile) (\<lambda>charged.
       charge_run m quantile trips
         (case breakdown charged of
            None \<Rightarrow> (accumulated, merge_rejections rejections (rejections_by_reason charged), filled)
          | Some b \<Rightarrow> (breakdown_plus accumulated b,
                       merge_rejections rejections (rejections_by_reason charged), filled + 1)))"

definition assess_run :: "cost_model \<Rightarrow> round_trip list \<Rightarrow> rat \<Rightarrow> spread_quantile \<Rightarrow> run_cost_report result" where
  "assess_run m trips gross_edge quantile =
     and_then (charge_run m quantile trips (breakdown_zero, [], 0)) (\<lambda>(accumulated, rejections, filled).
       if filled = 0 then
         Inr \<lparr>report_calibration_source = calibration_source m, report_quantile = quantile,
              filled_trade_count = 0, report_rejections = rejections,
              gross_edge_per_trade_bp = gross_edge, report_round_trip_cost_bp = 0,
              net_edge_per_trade_bp = 0, gross_return_bps = 0, total_cost_bps = 0,
              net_return_bps = 0, report_breakdown = breakdown_zero, edge_to_cost_ratio = None,
              report_verdict = VOID, void_reason = Some ''no round trip was fillable''\<rparr>
       else
         and_then (breakdown_divided_by accumulated filled) (\<lambda>per_trade.
           let cost = round_trip_cost_bp per_trade;
               net_edge = dsub gross_edge cost;
               trades = of_int filled
           in and_then (verdict_for gross_edge cost) (\<lambda>(ratio, verdict, reason).
                Inr \<lparr>report_calibration_source = calibration_source m, report_quantile = quantile,
                     filled_trade_count = filled, report_rejections = rejections,
                     gross_edge_per_trade_bp = gross_edge, report_round_trip_cost_bp = cost,
                     net_edge_per_trade_bp = net_edge, gross_return_bps = dmul gross_edge trades,
                     total_cost_bps = dmul cost trades, net_return_bps = dmul net_edge trades,
                     report_breakdown = per_trade, edge_to_cost_ratio = ratio,
                     report_verdict = verdict, void_reason = reason\<rparr>)))"

section \<open>Provenance names production\<close>

lemma occurs_in_iff: "occurs_in p s \<longleftrightarrow> (\<exists>a b. s = a @ p @ b)"
proof (induction s)
  case Nil
  then show ?case by auto
next
  case (Cons c s)
  have "(\<exists>a b. c # s = a @ p @ b) \<longleftrightarrow> (\<exists>b. c # s = p @ b) \<or> (\<exists>a b. s = a @ p @ b)"
    by (auto simp: Cons_eq_append_conv)
  moreover have "take (length p) (c # s) = p \<longleftrightarrow> (\<exists>b. c # s = p @ b)"
    by (metis append_eq_conv_conj append_take_drop_id)
  ultimately show ?case using Cons.IH by simp
qed

lemma condensed_append: "condensed (a @ b) = condensed a @ condensed b"
  by (simp add: condensed_def casefold_def)

lemma any_spelling_names_testnet:
  assumes "condensed s = FORBIDDEN_SUBSTRING"
  shows "names_testnet (a @ s @ b)"
  unfolding names_testnet_def condensed_append assms by (auto simp: occurs_in_iff)

lemma provenance_accepts:
  "require_production_provenance s f = Inr t \<longleftrightarrow> t = s \<and> strip s \<noteq> [] \<and> \<not> names_testnet s"
  by (auto simp: require_production_provenance_def)

section \<open>What a validated model guarantees\<close>

abbreviation valid_cost_model :: "cost_model \<Rightarrow> bool" where
  "valid_cost_model m \<equiv> cost_model_validate m = Inr ()"

abbreviation valid_depth :: "depth_profile \<Rightarrow> bool" where
  "valid_depth p \<equiv> depth_profile_validate p = Inr ()"

abbreviation valid_spread :: "symbol_spread_profile \<Rightarrow> bool" where
  "valid_spread hourly \<equiv> symbol_spread_profile_validate hourly = Inr () \<and>
     (\<forall>(_, q) \<in> set hourly. spread_quantiles_validate q = Inr ())"

lemma valid_cost_modelD:
  assumes "valid_cost_model m"
  shows "\<not> names_testnet (calibration_source m)"
    and "fee_schedule_validate (fees m) = Inr ()"
    and "latency_profile_validate (latency m) = Inr ()"
    and "partial_fill_profile_validate (partial_fills m) = Inr ()"
    and "spread_profile_for m name = Inr hourly \<Longrightarrow> valid_spread hourly"
    and "depth_profile_for m name = Inr p \<Longrightarrow> valid_depth p"
proof -
  note v = assms [unfolded cost_model_validate_def run_checks_append]
  show "\<not> names_testnet (calibration_source m)" using v by (auto simp: provenance_accepts)
  show "fee_schedule_validate (fees m) = Inr ()" "latency_profile_validate (latency m) = Inr ()"
    "partial_fill_profile_validate (partial_fills m) = Inr ()"
    using v by (simp_all only: run_checks_ok_Cons simp_thms)
  show "valid_spread hourly" if "spread_profile_for m name = Inr hourly"
  proof -
    from that have mem: "(name, hourly) \<in> set (spreads m)"
      by (auto simp: spread_profile_for_def split: option.splits dest: map_of_SomeD)
    define f where "f = (\<lambda>(_ :: string, hourly).
        map (\<lambda>(_ :: int, q). spread_quantiles_validate q) hourly @ [symbol_spread_profile_validate hourly])"
    have "\<forall>c \<in> set (concat (map f (spreads m))). c = Inr ()"
      using v [THEN conjunct2, THEN conjunct1] by (simp only: run_checks_ok f_def)
    with mem have "\<forall>c \<in> set (f (name, hourly)). c = Inr ()"
      by (simp only: set_concat set_map) blast
    then show ?thesis by (auto simp: f_def)
  qed
  show "valid_depth p" if "depth_profile_for m name = Inr p"
  proof -
    from that have "(name, p) \<in> set (depth m)"
      by (auto simp: depth_profile_for_def split: option.splits dest: map_of_SomeD)
    moreover have "\<forall>c \<in> set (map (\<lambda>(_, p). depth_profile_validate p) (depth m)). c = Inr ()"
      using v [THEN conjunct2, THEN conjunct2] by (simp only: run_checks_ok)
    ultimately show ?thesis by fastforce
  qed
qed

lemma valid_depthD:
  assumes "valid_depth p"
  shows "0 < depth_at_touch_base p" "depth_at_touch_base p \<le> band_1pct_base p"
  using assms by (simp_all add: depth_profile_validate_def guard_simps)

lemma valid_spread_lookup:
  assumes "valid_spread hourly" and "0 \<le> h" "h < 24"
  obtains q where "map_of hourly h = Some q" "0 \<le> p50_bps q" "p50_bps q \<le> p99_bps q"
proof -
  have "set (map fst hourly) = set (map int [0..<HOURS_IN_DAY])"
    using assms(1) by (simp add: symbol_spread_profile_validate_def)
  moreover have "h \<in> set (map int [0..<HOURS_IN_DAY])"
    using assms(2,3) by (auto simp: HOURS_IN_DAY_def image_iff intro!: bexI [of _ "nat h"])
  ultimately have "h \<in> fst ` set hourly" by simp
  then obtain q where q: "map_of hourly h = Some q" by (metis map_of_eq_None_iff not_None_eq)
  then have "spread_quantiles_validate q = Inr ()" using assms(1) by (auto dest: map_of_SomeD)
  with q show thesis by (intro that [of q]) (simp_all add: spread_quantiles_validate_def guard_simps)
qed

section \<open>The walk into the band\<close>

lemma context_round_bps [simp]:
  "context_round 50 = 50" "context_round 100 = 100" "context_round 2 = 2"
  using context_round_representable [OF representable_of_int [of 50]]
    context_round_representable [OF representable_of_int [of 100]]
    context_round_representable [OF representable_of_int [of 2]] by simp_all

lemma dabs_lattice: "snappable q \<Longrightarrow> dabs q = \<bar>q\<bar>"
  unfolding dabs_def snappable_def by (rule lattice_exact) (auto intro: on_lattice_abs)

lemma walk_depth_cases:
  assumes "valid_depth p" and "q \<noteq> 0"
  obtains (touch) "dabs q \<le> depth_at_touch_base p"
      "walk_depth p q = Inr \<lparr>filled_base_quantity = dabs q, depth_slippage_bps = 0,
        walk_fill_count = 1, walk_rejection = None\<rparr>"
  | (refused) "band_1pct_base p < dabs q"
      "walk_depth p q = Inr \<lparr>filled_base_quantity = 0, depth_slippage_bps = 0,
        walk_fill_count = 0, walk_rejection = Some UNFILLABLE_DEPTH\<rparr>"
  | (walks) s where "depth_at_touch_base p < dabs q" "dabs q \<le> band_1pct_base p" "0 < s"
      "walk_depth p q = Inr \<lparr>filled_base_quantity = dabs q, depth_slippage_bps = s,
        walk_fill_count = 2, walk_rejection = None\<rparr>"
      "\<exists>f \<le> 1. s = context_round (dmul (context_round (dmul 100 f / 2))
         (dsub (dabs q) (depth_at_touch_base p)) / dabs q)"
proof -
  have pos: "0 < dabs q" using assms(2) by (simp add: dabs_def)
  consider "dabs q \<le> depth_at_touch_base p" | "band_1pct_base p < dabs q"
    | "depth_at_touch_base p < dabs q" "dabs q \<le> band_1pct_base p" by linarith
  then show thesis
  proof cases
    case 1
    with pos show thesis by (intro touch) (simp_all add: walk_depth_def Let_def)
  next
    case 2
    with pos valid_depthD [OF assms(1)] show thesis by (intro refused) (simp_all add: walk_depth_def Let_def)
  next
    case 3
    let ?w = "dsub (dabs q) (depth_at_touch_base p)"
    let ?b = "dsub (band_1pct_base p) (depth_at_touch_base p)"
    let ?f = "context_round (?w / ?b)"
    let ?s = "context_round (dmul (context_round (dmul 100 ?f / 2)) ?w / dabs q)"
    have w: "0 < ?w" using 3 by (simp add: dsub_def)
    have wb: "?w \<le> ?b" using 3 unfolding dsub_def by (intro context_round_mono) simp
    then have f: "0 < ?f" "?f \<le> 1" using w by (simp_all add: ctx.rnd_le_one)
    have "walk_depth p q = Inr \<lparr>filled_base_quantity = dabs q, depth_slippage_bps = ?s,
        walk_fill_count = 2, walk_rejection = None\<rparr>"
      using 3 pos w wb by (simp add: walk_depth_def Let_def ddiv_def BAND_WIDTH_BPS_def)
    moreover have "0 < ?s" using w f(1) pos by (simp add: dmul_def)
    ultimately show thesis using 3 f(2) by (intro walks [of ?s]) auto
  qed
qed

lemma slippage_bound:
  assumes "f \<le> 1" and "0 < t" "t < dabs q" and "snappable q"
  shows "context_round (dmul (context_round (dmul 100 f / 2)) (dsub (dabs q) t) / dabs q) \<le> 50"
proof -
  let ?r = "dabs q" and ?a = "context_round (dmul 100 f / 2)" and ?w = "dsub (dabs q) t"
  have r: "?r = \<bar>q\<bar>" by (rule dabs_lattice [OF assms(4)])
  have w: "0 < ?w" using assms(3) by (simp add: dsub_def)
  have "?w \<le> context_round ?r" unfolding dsub_def using assms(2) by (intro context_round_mono) simp
  also have "\<dots> = ?r" unfolding dabs_def by (rule context_round_idem)
  finally have wr: "?w \<le> ?r" .
  have "dmul 100 f \<le> 100" unfolding dmul_def using assms(1) by (intro ctx.rnd_le_fixed) simp_all
  then have a: "?a \<le> 50" by (intro ctx.rnd_le_fixed) simp_all
  have "dmul ?a ?w \<le> context_round (50 * ?r)"
  proof -
    have "?a * ?w \<le> 50 * ?w" using a w by (intro mult_right_mono) auto
    also have "\<dots> \<le> 50 * ?r" using wr by simp
    finally show ?thesis unfolding dmul_def by (rule context_round_mono)
  qed
  also have "\<dots> = 50 * ?r"
  proof (rule lattice_exact)
    have "on_lattice (of_int 50 * ?r)" using assms(4) unfolding r snappable_def by (intro on_lattice_mult_int) auto
    then show "on_lattice (50 * ?r)" by simp
    have "\<bar>q\<bar> < 10 ^ 18" using assms(4) by (simp add: snappable_def)
    then show "\<bar>50 * ?r\<bar> < 10 ^ 20" unfolding r by simp
  qed
  finally have "dmul ?a ?w / ?r \<le> 50" using assms(2,3) by (simp add: pos_divide_le_eq)
  then show ?thesis by (intro ctx.rnd_le_fixed) simp_all
qed

text \<open>
  An order is never filled beyond the book it was calibrated on: for a validated depth
  profile and any non-zero quantity, long or short, the walk returns without dividing by
  zero; it refuses exactly the quantities above the one-percent band and fills nothing
  then; otherwise it fills the whole quantity, charging no slippage up to the touch, and
  beyond it a positive slippage of at most half the band, fifty basis points.
\<close>

theorem depth_walk_charges_the_band:
  assumes "valid_depth p" and "q \<noteq> 0" and "snappable q"
  shows "\<exists>w. walk_depth p q = Inr w \<and>
    (walk_rejection w \<noteq> None) = (band_1pct_base p < \<bar>q\<bar>) \<and>
    filled_base_quantity w = (if band_1pct_base p < \<bar>q\<bar> then 0 else \<bar>q\<bar>) \<and>
    0 \<le> depth_slippage_bps w \<and> depth_slippage_bps w \<le> 50 \<and>
    (0 < depth_slippage_bps w) = (depth_at_touch_base p < \<bar>q\<bar> \<and> \<bar>q\<bar> \<le> band_1pct_base p)"
  using assms(1,2)
proof (cases rule: walk_depth_cases)
  case touch
  with valid_depthD [OF assms(1)] show ?thesis by (simp add: dabs_lattice [OF assms(3)])
next
  case refused
  then show ?thesis by (simp add: dabs_lattice [OF assms(3)])
next
  case (walks s)
  then have "s \<le> 50" using slippage_bound valid_depthD(1) [OF assms(1)] assms(3) by auto
  with walks show ?thesis by (simp add: dabs_lattice [OF assms(3)])
qed

definition btc_depth :: depth_profile where
  "btc_depth = \<lparr>depth_at_touch_base = 2, band_1pct_base = 10\<rparr>"

theorem depth_walk_charges_the_band_witness:
  "valid_depth btc_depth \<and> snappable (- 6) \<and>
   (\<exists>w. walk_depth btc_depth (- 6) = Inr w \<and> walk_rejection w = None \<and> filled_base_quantity w = 6 \<and>
      0 < depth_slippage_bps w \<and> depth_slippage_bps w \<le> 50)"
proof -
  have v: "valid_depth btc_depth" by code_simp
  have q: "snappable (- 6)" unfolding snappable_def by code_simp
  show ?thesis
    using depth_walk_charges_the_band [OF v _ q] v q by (auto simp: btc_depth_def)
qed

section \<open>The robustness run at p99\<close>

text \<open>The two quantiles charge breakdowns that differ in the spread term only.\<close>

definition dearer_spread :: "cost_breakdown \<Rightarrow> cost_breakdown \<Rightarrow> bool" where
  "dearer_spread a b \<longleftrightarrow> b = a\<lparr>spread_term_bps := spread_term_bps b\<rparr> \<and> spread_term_bps a \<le> spread_term_bps b"

lemma dadd_mono: "a \<le> b \<Longrightarrow> c \<le> d \<Longrightarrow> dadd a c \<le> dadd b d"
  unfolding dadd_def by (intro context_round_mono add_mono)

lemma foldl_dadd_mono: "list_all2 (\<le>) xs ys \<Longrightarrow> a \<le> b \<Longrightarrow> foldl dadd a xs \<le> foldl dadd b ys"
  by (induction xs ys arbitrary: a b rule: list_all2_induct) (simp_all add: dadd_mono)

lemma dearer_spread_refl [simp]: "dearer_spread a a"
  by (simp add: dearer_spread_def)

lemma dearer_spread_cost: "dearer_spread a b \<Longrightarrow> round_trip_cost_bp a \<le> round_trip_cost_bp b"
  unfolding round_trip_cost_bp_def dsum_def
  by (intro foldl_dadd_mono) (cases a; cases b; simp add: dearer_spread_def as_terms_def)+

lemma dearer_spread_plus:
  "dearer_spread a b \<Longrightarrow> dearer_spread c d \<Longrightarrow> dearer_spread (breakdown_plus a c) (breakdown_plus b d)"
  by (cases a; cases b; cases c; cases d) (simp add: dearer_spread_def breakdown_plus_def dadd_mono)

lemma dearer_spread_funding:
  "dearer_spread a b \<Longrightarrow> dearer_spread (a\<lparr>funding_bps := f\<rparr>) (b\<lparr>funding_bps := f\<rparr>)"
  by (cases a; cases b) (simp add: dearer_spread_def)

lemma dearer_spread_divided:
  assumes "dearer_spread a b" and "0 < n"
  shows "\<exists>c d. breakdown_divided_by a n = Inr c \<and> breakdown_divided_by b n = Inr d \<and> dearer_spread c d"
  using assms
  by (cases a; cases b)
    (simp add: dearer_spread_def breakdown_divided_by_def ddiv_def context_round_mono divide_right_mono)

lemma half_spread_p99:
  assumes "valid_spread hourly" and "half_spread_bps hourly (hour_of t) P50 = Inr x"
  shows "\<exists>y. half_spread_bps hourly (hour_of t) P99 = Inr y \<and> x \<le> y"
proof -
  obtain q where "map_of hourly (hour_of t) = Some q" "p50_bps q \<le> p99_bps q"
    using valid_spread_lookup [OF assms(1) hour_of_range] by blast
  then show ?thesis
    using assms(2) by (auto simp: half_spread_bps_def spread_bps_def ddiv_def intro!: context_round_mono)
qed

lemma charge_leg_p99:
  assumes m: "valid_cost_model m" and c: "charge_leg m leg P50 = Inr a"
  shows "\<exists>b. charge_leg m leg P99 = Inr b \<and> dearer_spread a b"
proof -
  let ?sp = "\<lambda>profile q. if leg_is_passive leg then Inr 0 else half_spread_bps profile (hour_utc leg) q"
  from c obtain walk profile x where
      w: "and_then (depth_profile_for m (leg_symbol leg)) (\<lambda>p. walk_depth p (leg_base_quantity leg)) = Inr walk"
    and p: "spread_profile_for m (leg_symbol leg) = Inr profile" and x: "?sp profile P50 = Inr x"
    unfolding charge_leg_def and_then_Inr_iff by blast
  obtain y where y: "?sp profile P99 = Inr y" "x \<le> y"
    using half_spread_p99 [OF valid_cost_modelD(5) [OF m p]] x by (cases "leg_is_passive leg") (auto simp: hour_utc_def)
  show ?thesis
    using c unfolding charge_leg_def w p and_then_simps x y(1)
    by (auto simp: and_then_Inr_iff Let_def dearer_spread_def y(2))
qed

lemma charge_round_trip_p99:
  assumes m: "valid_cost_model m" and c: "charge_round_trip m trip P50 = Inr c"
  shows "\<exists>d. charge_round_trip m trip P99 = Inr d \<and> rejections_by_reason d = rejections_by_reason c \<and>
    (breakdown d = None) = (breakdown c = None) \<and>
    (\<forall>a b. breakdown c = Some a \<longrightarrow> breakdown d = Some b \<longrightarrow> dearer_spread a b)"
proof -
  from c obtain rej where r: "leg_rejections m [] [entry_leg trip, exit_leg trip] = Inr rej"
    unfolding charge_round_trip_def and_then_Inr_iff by blast
  show ?thesis
  proof (cases "rej = []")
    case False
    with c r show ?thesis by (auto simp: charge_round_trip_def)
  next
    case True
    with c r obtain a1 a2 where a: "charge_leg m (entry_leg trip) P50 = Inr a1" "charge_leg m (exit_leg trip) P50 = Inr a2"
      by (auto simp: charge_round_trip_def and_then_Inr_iff)
    obtain b1 b2 where b: "charge_leg m (entry_leg trip) P99 = Inr b1" "dearer_spread a1 b1"
        "charge_leg m (exit_leg trip) P99 = Inr b2" "dearer_spread a2 b2"
      using charge_leg_p99 [OF m a(1)] charge_leg_p99 [OF m a(2)] by blast
    have "dearer_spread ((breakdown_plus a1 a2)\<lparr>funding_bps := exposure_funding_bps (funding trip)\<rparr>)
        ((breakdown_plus b1 b2)\<lparr>funding_bps := exposure_funding_bps (funding trip)\<rparr>)"
      by (intro dearer_spread_funding dearer_spread_plus b)
    then show ?thesis using c r a b True by (auto simp: charge_round_trip_def)
  qed
qed

lemma charge_run_p99:
  assumes m: "valid_cost_model m"
  shows "charge_run m P50 trips (a, rej, n) = Inr (a', rej', n') \<Longrightarrow> dearer_spread a b \<Longrightarrow>
    \<exists>b'. charge_run m P99 trips (b, rej, n) = Inr (b', rej', n') \<and> dearer_spread a' b'"
proof (induction trips arbitrary: a b rej n)
  case Nil
  then show ?case by simp
next
  case (Cons trip trips)
  from Cons.prems(1) obtain c where c: "charge_round_trip m trip P50 = Inr c" by (auto simp: and_then_Inr_iff)
  obtain d where d: "charge_round_trip m trip P99 = Inr d" "rejections_by_reason d = rejections_by_reason c"
      "(breakdown d = None) = (breakdown c = None)"
      "\<forall>a b. breakdown c = Some a \<longrightarrow> breakdown d = Some b \<longrightarrow> dearer_spread a b"
    using charge_round_trip_p99 [OF m c] by (elim exE conjE)
  show ?case
  proof (cases "breakdown c")
    case None
    with Cons d c show ?thesis by simp
  next
    case (Some x)
    then obtain y where y: "breakdown d = Some y" "dearer_spread x y" using d(3,4) by auto
    show ?thesis
      using Cons.IH [of "breakdown_plus a x" _ _ "breakdown_plus b y"] Cons.prems c d(1,2) Some y dearer_spread_plus
      by simp
  qed
qed

lemma verdict_accepted:
  "verdict_for g c = Inr (ratio, ACCEPTED, reason) \<longleftrightarrow>
     0 < c \<and> 2 \<le> context_round (g / c) \<and> ratio = Some (context_round (g / c)) \<and> reason = None"
proof -
  have "\<not> g / c < 0" if "2 \<le> context_round (g / c)"
    using that ctx.rnd_neg_iff [of "g / c"] by linarith
  then show ?thesis by (auto simp: verdict_for_def ddiv_def MIN_EDGE_TO_COST_RATIO_def)
qed

lemma verdict_total: "\<exists>v. verdict_for g c = Inr v"
  by (auto simp: verdict_for_def ddiv_def)

lemma dsub_mono: "a \<le> b \<Longrightarrow> d \<le> c \<Longrightarrow> dsub a c \<le> dsub b d"
  unfolding dsub_def by (intro context_round_mono) simp

lemma verdict_antimono:
  assumes "verdict_for g d = Inr (x, ACCEPTED, y)" and "0 < c" "c \<le> d"
  shows "\<exists>ratio. verdict_for g c = Inr (ratio, ACCEPTED, None)"
proof -
  from assms(1) have d: "0 < d" "2 \<le> context_round (g / d)" by (auto simp: verdict_accepted)
  then have "0 < context_round (g / d)" by linarith
  then have "0 < g" using d(1) by (simp add: zero_less_divide_iff)
  then have "g / d \<le> g / c" using assms(2,3) by (intro divide_left_mono) auto
  then have "2 \<le> context_round (g / c)" using d(2) context_round_mono order_trans by blast
  then show ?thesis using assms(2) by (simp add: verdict_accepted)
qed

text \<open>
  The robustness run never flatters: for a validated model, whenever a run is assessed at
  the median spread it is assessed at p99 too, over the same filled trades and the same
  counted rejections; the p99 cost per trade is at least the median one and its net edge at
  most, so a run that is evidence at p99 is evidence at the median whenever its median
  cost is a cost at all (a funding credit can make it void, not better).
\<close>

theorem robustness_run_never_flatters:
  assumes "valid_cost_model m" and "assess_run m trips g P50 = Inr r"
  shows "\<exists>s. assess_run m trips g P99 = Inr s \<and>
    filled_trade_count s = filled_trade_count r \<and> report_rejections s = report_rejections r \<and>
    report_round_trip_cost_bp r \<le> report_round_trip_cost_bp s \<and>
    net_edge_per_trade_bp s \<le> net_edge_per_trade_bp r \<and>
    (0 < report_round_trip_cost_bp r \<longrightarrow> is_evidence s \<longrightarrow> is_evidence r)"
proof -
  obtain a rej n where a: "charge_run m P50 trips (breakdown_zero, [], 0) = Inr (a, rej, n)"
    using assms(2) unfolding assess_run_def and_then_Inr_iff by (metis prod_cases3)
  obtain b where b: "charge_run m P99 trips (breakdown_zero, [], 0) = Inr (b, rej, n)" "dearer_spread a b"
    using charge_run_p99 [OF assms(1) a dearer_spread_refl] by blast
  show ?thesis
  proof (cases "n = 0")
    case True
    with assms(2) a b show ?thesis by (auto simp: assess_run_def)
  next
    case False
    have "0 < n"
    proof (rule ccontr)
      assume "\<not> 0 < n"
      with False a assms(2) show False by (simp add: assess_run_def breakdown_divided_by_def)
    qed
    then obtain c d where cd: "breakdown_divided_by a n = Inr c" "breakdown_divided_by b n = Inr d" "dearer_spread c d"
      using dearer_spread_divided [OF b(2)] by blast
    let ?c = "round_trip_cost_bp c" and ?d = "round_trip_cost_bp d"
    have le: "?c \<le> ?d" by (rule dearer_spread_cost [OF cd(3)])
    obtain x v y where v: "verdict_for g ?c = Inr (x, v, y)" using verdict_total by (metis prod_cases3)
    obtain x' v' y' where v': "verdict_for g ?d = Inr (x', v', y')" using verdict_total by (metis prod_cases3)
    have "0 < ?c \<longrightarrow> v' = ACCEPTED \<longrightarrow> v = ACCEPTED"
      using verdict_antimono [OF _ _ le] v v' by fastforce
    then show ?thesis
      using assms(2) a b cd v v' False le
      by (auto simp: assess_run_def Let_def is_evidence_def intro: dsub_mono)
  qed
qed

definition btc_hours :: symbol_spread_profile where
  "btc_hours = map (\<lambda>h. (int h, \<lparr>p50_bps = 1 / 10, p99_bps = 4 / 10\<rparr>)) [0..<24]"

definition btc_costs :: cost_model where
  "btc_costs = \<lparr>model_version = ''v1'', calibration_source = ''binance_um_production_2026-03'',
     calibration_method = ''nearest-rank'', calibrated_at = 0,
     fees = \<lparr>maker_fee_bps = 2, taker_fee_bps = 5\<rparr>,
     latency = \<lparr>decision_to_send = 500000, send_to_ack = 100000, ack_to_fill = 100000,
       adverse_drift_bps_per_second = 1 / 2\<rparr>,
     partial_fills = \<lparr>passive_markout_bps = 32 / 10, requote_cost_bps_per_extra_fill = 1 / 2\<rparr>,
     spreads = [(''BTCUSDT'', btc_hours)], depth = [(''BTCUSDT'', btc_depth)]\<rparr>"

definition btc_trip :: round_trip where
  "btc_trip = \<lparr>entry_leg = \<lparr>leg_symbol = ''BTCUSDT'', leg_base_quantity = 1, leg_decided_at_utc = 0, leg_is_passive = False\<rparr>,
     exit_leg = \<lparr>leg_symbol = ''BTCUSDT'', leg_base_quantity = 1, leg_decided_at_utc = 0, leg_is_passive = True\<rparr>,
     funding = none_held\<rparr>"

lemma btc_costs_valid: "valid_cost_model btc_costs"
  by code_simp

definition btc_charged :: "rat \<Rightarrow> cost_breakdown" where
  "btc_charged spread = \<lparr>fees_bps = 7, spread_term_bps = spread, depth_term_bps = 0, latency_term_bps = 7 / 10,
     partial_fill_bps = 32 / 10, funding_bps = 0\<rparr>"

definition btc_leg :: "bool \<Rightarrow> rat \<Rightarrow> cost_breakdown" where
  "btc_leg is_passive spread = \<lparr>fees_bps = (if is_passive then 2 else 5), spread_term_bps = spread,
     depth_term_bps = 0, latency_term_bps = 35 / 100, partial_fill_bps = (if is_passive then 32 / 10 else 0),
     funding_bps = 0\<rparr>"

lemma btc_rejections: "leg_rejections btc_costs [] [entry_leg btc_trip, exit_leg btc_trip] = Inr []"
  by code_simp

lemma btc_legs:
  "charge_leg btc_costs (entry_leg btc_trip) P50 = Inr (btc_leg False (1 / 20))"
  "charge_leg btc_costs (entry_leg btc_trip) P99 = Inr (btc_leg False (1 / 5))"
  "charge_leg btc_costs (exit_leg btc_trip) P50 = Inr (btc_leg True 0)"
  "charge_leg btc_costs (exit_leg btc_trip) P99 = Inr (btc_leg True 0)"
  by code_simp+

lemma btc_sum:
  "breakdown_plus breakdown_zero (breakdown_plus (btc_leg False (1 / 20)) (btc_leg True 0)
     \<lparr>funding_bps := exposure_funding_bps (funding btc_trip)\<rparr>) = btc_charged (1 / 20)"
  "breakdown_plus breakdown_zero (breakdown_plus (btc_leg False (1 / 5)) (btc_leg True 0)
     \<lparr>funding_bps := exposure_funding_bps (funding btc_trip)\<rparr>) = btc_charged (1 / 5)"
  by code_simp+

lemma btc_run:
  "charge_run btc_costs P50 [btc_trip] (breakdown_zero, [], 0) = Inr (btc_charged (1 / 20), [], 1)"
  "charge_run btc_costs P99 [btc_trip] (breakdown_zero, [], 0) = Inr (btc_charged (1 / 5), [], 1)"
  by (simp_all add: charge_round_trip_def btc_rejections btc_legs btc_sum del: leg_rejections.simps)

lemma btc_mean:
  "breakdown_divided_by (btc_charged (1 / 20)) 1 = Inr (btc_charged (1 / 20))"
  "breakdown_divided_by (btc_charged (1 / 5)) 1 = Inr (btc_charged (1 / 5))"
  by code_simp+

lemma btc_cost:
  "round_trip_cost_bp (btc_charged (1 / 20)) = 1095 / 100"
  "round_trip_cost_bp (btc_charged (1 / 5)) = 1110 / 100"
  by code_simp+

lemma btc_verdict: "verdict_for 40 (219 / 20) = Inr (Some (context_round (40 / (219 / 20))), ACCEPTED, None)"
  by code_simp

theorem robustness_run_never_flatters_witness:
  "valid_cost_model btc_costs \<and>
   (\<exists>r s. assess_run btc_costs [btc_trip] 40 P50 = Inr r \<and> assess_run btc_costs [btc_trip] 40 P99 = Inr s \<and>
      filled_trade_count r = 1 \<and> filled_trade_count s = 1 \<and> is_evidence r \<and>
      report_round_trip_cost_bp r < report_round_trip_cost_bp s)"
proof -
  obtain r where r: "assess_run btc_costs [btc_trip] 40 P50 = Inr r" "filled_trade_count r = 1"
      "is_evidence r" "report_round_trip_cost_bp r = 1095 / 100"
    by (simp add: assess_run_def btc_run btc_mean btc_cost btc_verdict Let_def is_evidence_def del: charge_run.simps)
  obtain s where s: "assess_run btc_costs [btc_trip] 40 P99 = Inr s" "filled_trade_count s = filled_trade_count r"
    using robustness_run_never_flatters [OF btc_costs_valid r(1)] by blast
  obtain v where "verdict_for 40 (1110 / 100) = Inr v" using verdict_total by blast
  with s(1) have "report_round_trip_cost_bp s = 1110 / 100"
    by (cases v) (auto simp: assess_run_def btc_run btc_mean btc_cost Let_def simp del: charge_run.simps)
  with r s show ?thesis using btc_costs_valid by auto
qed

section \<open>Calibration from observations\<close>

lemma nearest_rank_position:
  assumes "ordered \<noteq> []" and "0 < r" "r \<le> 100"
  defines "k \<equiv> nat (- ((- r * int (length ordered)) div 100) - 1)"
  shows "k < length ordered" and "r * int (length ordered) \<le> 100 * int (Suc k)"
    and "100 * int k < r * int (length ordered)"
proof -
  define n P where "n = int (length ordered)" and "P = - ((- r * n) div 100)"
  have n: "0 < n" using assms(1) by (simp add: n_def)
  then have rn: "0 < r * n" "r * n \<le> 100 * n" using assms(2,3) by (simp_all add: mult_right_mono)
  have "- r * n = 100 * ((- r * n) div 100) + (- r * n) mod 100" by simp
  moreover have "0 \<le> (- r * n) mod 100" "(- r * n) mod 100 < 100" by simp_all
  ultimately have p: "r * n \<le> 100 * P" "100 * P < r * n + 100" unfolding P_def by linarith+
  then have P: "0 < P" "P \<le> n" using rn by linarith+
  have k: "int k = P - 1" using P(1) by (simp add: k_def P_def n_def)
  then have "int k < n" using P(2) by linarith
  then show "k < length ordered" by (simp add: n_def)
  show "r * int (length ordered) \<le> 100 * int (Suc k)"
    unfolding of_nat_Suc k n_def [symmetric] using p(1) by simp
  show "100 * int k < r * int (length ordered)"
    unfolding k n_def [symmetric] using p(2) by simp
qed

text \<open>
  The nearest-rank element of a sample: it is one of the observations, at least \<open>r\<close> percent
  of them are at or below it, and fewer than \<open>r\<close> percent are strictly below.
\<close>

lemma spread_nearest_rank:
  assumes "xs \<noteq> []" and "0 < r" "r \<le> 100"
  defines "q \<equiv> spread_nearest_rank (sort xs) r"
  shows "q \<in> set xs" and "r * int (length xs) \<le> 100 * int (length (filter (\<lambda>x. x \<le> q) xs))"
    and "100 * int (length (filter (\<lambda>x. x < q) xs)) < r * int (length xs)"
proof -
  define k where "k = nat (- ((- r * int (length (sort xs))) div 100) - 1)"
  have ne: "sort xs \<noteq> []" using assms(1) by (metis length_0_conv length_sort)
  note k = nearest_rank_position [OF ne assms(2,3), folded k_def, unfolded length_sort]
  have q: "q = sort xs ! k" by (simp add: q_def spread_nearest_rank_def Let_def k_def)
  have "sort xs ! k \<in> set (sort xs)" using k(1) by (intro nth_mem) simp
  then show "q \<in> set xs" by (simp add: q)
  have "k < length (sort xs)" using k(1) by simp
  note c = sorted_counts [OF sorted_sort this, folded q, unfolded length_filter_sort]
  show "r * int (length xs) \<le> 100 * int (length (filter (\<lambda>x. x \<le> q) xs))" using c(1) k(2) by simp
  show "100 * int (length (filter (\<lambda>x. x < q) xs)) < r * int (length xs)" using c(2) k(3) by simp
qed

lemma nearest_rank_mono:
  assumes "xs \<noteq> []"
  shows "spread_nearest_rank (sort xs) 50 \<le> spread_nearest_rank (sort xs) 99"
proof -
  have ne: "sort xs \<noteq> []" using assms by (metis length_0_conv length_sort)
  have "(- 99 * int (length xs)) div 100 \<le> (- 50 * int (length xs)) div 100" by (intro zdiv_mono1) auto
  then show ?thesis unfolding spread_nearest_rank_def Let_def
    by (intro sorted_nth_mono nat_mono nearest_rank_position(1) [OF ne, of 99, simplified length_sort]) (use nearest_rank_position(1) [OF ne, of 99] in auto)
qed

text \<open>
  A calibrated profile is read off what production quoted, hour by hour: if the source is
  named and does not name testnet, no observed spread is negative and every UTC hour was
  observed, calibration succeeds with a profile the constructor accepts, in which each
  hour's median and p99 are spreads observed in that hour, in order, with at least half
  (respectively 99 percent) of the hour's samples at or below it and fewer strictly below;
  and it succeeds in no other case of source or coverage.
\<close>

theorem calibrated_spreads_were_observed:
  assumes "\<forall>s \<in> set obs. 0 \<le> observed_spread_bps s"
  shows "((\<exists>hourly. calibrate_spread_profile obs source = Inr hourly) \<longleftrightarrow>
      strip source \<noteq> [] \<and> \<not> names_testnet source \<and> (\<forall>h \<in> {0..<24}. bucket obs h \<noteq> [])) \<and>
    (\<forall>hourly. calibrate_spread_profile obs source = Inr hourly \<longrightarrow> valid_spread hourly \<and>
      (\<forall>h \<in> {0..<24}. \<exists>q. map_of hourly h = Some q \<and> p50_bps q \<le> p99_bps q \<and>
        (let xs = bucket obs h in
         p50_bps q \<in> set xs \<and> p99_bps q \<in> set xs \<and>
         50 * int (length xs) \<le> 100 * int (length (filter (\<lambda>x. x \<le> p50_bps q) xs)) \<and>
         99 * int (length xs) \<le> 100 * int (length (filter (\<lambda>x. x \<le> p99_bps q) xs)) \<and>
         100 * int (length (filter (\<lambda>x. x < p50_bps q) xs)) < 50 * int (length xs) \<and>
         100 * int (length (filter (\<lambda>x. x < p99_bps q) xs)) < 99 * int (length xs))))"
proof -
  define hours where "hours = map int [0..<HOURS_IN_DAY]"
  have hours: "set hours = {0..<24}"
    by (auto simp: hours_def HOURS_IN_DAY_def image_iff intro!: bexI [of _ "nat _"])
  define q where "q h = \<lparr>p50_bps = spread_nearest_rank (sort (bucket obs h)) 50,
      p99_bps = spread_nearest_rank (sort (bucket obs h)) 99\<rparr>" for h
  define hourly where "hourly = map (\<lambda>h. (h, q h)) hours"
  let ?ok = "strip source \<noteq> [] \<and> \<not> names_testnet source \<and> (\<forall>h \<in> {0..<24}. bucket obs h \<noteq> [])"
  have valid: "spread_quantiles_validate (q h) = Inr ()" if "bucket obs h \<noteq> []" for h
  proof -
    have "\<forall>x \<in> set (bucket obs h). 0 \<le> x" using assms by (auto simp: bucket_def)
    with spread_nearest_rank(1) [OF that, of 50] spread_nearest_rank(1) [OF that, of 99] nearest_rank_mono [OF that]
    show ?thesis by (simp add: spread_quantiles_validate_def guard_simps q_def)
  qed
  have map_hourly: "map_of hourly h = (if h \<in> {0..<24} then Some (q h) else None)" for h
    unfolding hourly_def map_of_map_restrict restrict_map_def o_def hours by simp
  have ok: "calibrate_spread_profile obs source = Inr hourly" "valid_spread hourly" if ok: ?ok
  proof -
    have "map_result (\<lambda>hour. let ordered = sort (bucket obs hour)
        in and_then (construct spread_quantiles_validate
             \<lparr>p50_bps = spread_nearest_rank ordered 50, p99_bps = spread_nearest_rank ordered 99\<rparr>)
             (\<lambda>q. Inr (hour, q))) hours = Inr hourly"
      unfolding hourly_def
    proof (rule map_result_Inr)
      fix h assume "h \<in> set hours"
      then have "construct spread_quantiles_validate (q h) = Inr (q h)"
        using ok hours valid by (intro construct_ok) auto
      then show "(let ordered = sort (bucket obs h) in and_then (construct spread_quantiles_validate
             \<lparr>p50_bps = spread_nearest_rank ordered 50, p99_bps = spread_nearest_rank ordered 99\<rparr>)
             (\<lambda>q. Inr (h, q))) = Inr (h, q h)"
        by (simp only: Let_def q_def and_then_simps)
    qed
    moreover have v: "symbol_spread_profile_validate hourly = Inr ()"
      by (simp add: symbol_spread_profile_validate_def hourly_def hours_def image_image)
    ultimately show "calibrate_spread_profile obs source = Inr hourly"
      using ok hours unfolding hours_def [symmetric]
      by (auto simp: calibrate_spread_profile_def require_production_provenance_def hours_def [symmetric] simp del: set_map)
    show "valid_spread hourly" using v valid ok hours by (auto simp: hourly_def)
  qed
  have only: "?ok" if "calibrate_spread_profile obs source = Inr x" for x
    using that hours
    by (auto simp: calibrate_spread_profile_def require_production_provenance_def hours_def [symmetric]
        and_then_Inr_iff Let_def simp del: set_map split: if_splits)
  show ?thesis
  proof (cases ?ok)
    case False
    with only show ?thesis by blast
  next
    case True
    have "(let xs = bucket obs h in
         p50_bps (q h) \<in> set xs \<and> p99_bps (q h) \<in> set xs \<and>
         50 * int (length xs) \<le> 100 * int (length (filter (\<lambda>x. x \<le> p50_bps (q h)) xs)) \<and>
         99 * int (length xs) \<le> 100 * int (length (filter (\<lambda>x. x \<le> p99_bps (q h)) xs)) \<and>
         100 * int (length (filter (\<lambda>x. x < p50_bps (q h)) xs)) < 50 * int (length xs) \<and>
         100 * int (length (filter (\<lambda>x. x < p99_bps (q h)) xs)) < 99 * int (length xs)) \<and>
         p50_bps (q h) \<le> p99_bps (q h)" if "h \<in> {0..<24}" for h
      using spread_nearest_rank [of "bucket obs h" 50] spread_nearest_rank [of "bucket obs h" 99]
        nearest_rank_mono [of "bucket obs h"] True that
      by (simp add: q_def Let_def)
    then show ?thesis using True ok [OF True] map_hourly by auto
  qed
qed

definition quoted_day :: "spread_observation list" where
  "quoted_day = map (\<lambda>h. \<lparr>observed_at_utc = h * 3600000000 + 7, observed_spread_bps = 16 / 100\<rparr>) [0..23]"

theorem calibrated_spreads_were_observed_witness:
  "\<exists>hourly q. calibrate_spread_profile quoted_day ''binance_um_production'' = Inr hourly \<and>
     valid_spread hourly \<and> map_of hourly 8 = Some q \<and> p50_bps q = 16 / 100 \<and> p99_bps q = 16 / 100 \<and>
     calibrate_spread_profile quoted_day ''Binance UM Test-Net 2026-05'' =
       Inl (CalibrationProvenanceError ''calibration_source testnet'')"
proof -
  have pos: "\<forall>s \<in> set quoted_day. 0 \<le> observed_spread_bps s" by (simp add: quoted_day_def)
  have all: "\<forall>h \<in> {0..<24}. bucket quoted_day h = [16 / 100]" by code_simp
  have src: "strip ''binance_um_production'' \<noteq> [] \<and> \<not> names_testnet ''binance_um_production''" by code_simp
  have refused: "require_production_provenance ''Binance UM Test-Net 2026-05'' ''calibration_source'' =
      Inl (CalibrationProvenanceError ''calibration_source testnet'')" by code_simp
  note c = calibrated_spreads_were_observed [OF pos, of "''binance_um_production''"]
  have "\<forall>h \<in> {0..<24}. bucket quoted_day h \<noteq> []" using all by simp
  with c src obtain hourly where h: "calibrate_spread_profile quoted_day ''binance_um_production'' = Inr hourly"
    by blast
  have "8 \<in> {0 :: int..<24}" by simp
  with c h obtain q where q: "valid_spread hourly" "map_of hourly 8 = Some q"
      "p50_bps q \<in> set (bucket quoted_day 8)" "p99_bps q \<in> set (bucket quoted_day 8)"
    unfolding Let_def by blast
  have "calibrate_spread_profile quoted_day ''Binance UM Test-Net 2026-05'' =
      Inl (CalibrationProvenanceError ''calibration_source testnet'')"
    by (simp add: calibrate_spread_profile_def refused)
  with h q all show ?thesis by auto
qed

end
