(* ===== verification/Venue_Book.thy ===== *)
theory Venue_Book
  imports Costs Rows EventQueues
begin

text \<open>
  The parts of \<open>src/fking/backtest/venue/\<close> that price and screen one order:
  \<open>_rejections.py\<close> (the closed taxonomy and its envelope), \<open>_filters.py\<close> (the venue's
  filters, parsed from an exchangeInfo payload and applied in a fixed order), \<open>_book.py\<close>
  (the touch quote built from a closed bar) and \<open>_resting.py\<close> (the queue a resting order
  waits in). A payload is a \<open>row_value\<close>; \<open>Decimal(text)\<close> is the codec argument of \<open>Rows\<close>.
\<close>

section \<open>The rejection taxonomy: _rejections.py\<close>

datatype reject_reason =
    PRICE_FILTER | PERCENT_PRICE_BY_SIDE | LOT_SIZE | MIN_NOTIONAL | BOOK_DEPTH | ORDER_RATE_BUDGET

text \<open>\<open>BOOK_DEPTH\<close> is the member the source calls \<open>UNFILLABLE_DEPTH\<close>, as the cost model's is called too.\<close>

primrec reason_value :: "reject_reason \<Rightarrow> string" where
  "reason_value PRICE_FILTER = ''price_filter''"
| "reason_value PERCENT_PRICE_BY_SIDE = ''percent_price_by_side''"
| "reason_value LOT_SIZE = ''lot_size''"
| "reason_value MIN_NOTIONAL = ''min_notional''"
| "reason_value BOOK_DEPTH = ''unfillable_depth''"
| "reason_value ORDER_RATE_BUDGET = ''order_rate_budget''"

definition ALL_REASONS :: "reject_reason list" where
  "ALL_REASONS = [PRICE_FILTER, PERCENT_PRICE_BY_SIDE, LOT_SIZE, MIN_NOTIONAL, BOOK_DEPTH, ORDER_RATE_BUDGET]"

text \<open>The code is kept as its text, which is how it is used.\<close>

primrec ENVELOPE :: "reject_reason \<Rightarrow> string \<times> string" where
  "ENVELOPE PRICE_FILTER = (''-1013'', ''Filter failure: PRICE_FILTER'')"
| "ENVELOPE PERCENT_PRICE_BY_SIDE = (''-1013'', ''Filter failure: PERCENT_PRICE_BY_SIDE'')"
| "ENVELOPE LOT_SIZE = (''-1013'', ''Filter failure: LOT_SIZE'')"
| "ENVELOPE MIN_NOTIONAL = (''-1013'', ''Filter failure: NOTIONAL'')"
| "ENVELOPE BOOK_DEPTH = (''-2010'', ''Order would trigger immediate liquidation'')"
| "ENVELOPE ORDER_RATE_BUDGET = (''-1015'', ''Too many new orders.'')"

record venue_rejection =
  venue_reject_reason :: reject_reason
  reject_detail :: string

definition venue_code :: "venue_rejection \<Rightarrow> string" where
  "venue_code r = fst (ENVELOPE (venue_reject_reason r))"

definition venue_message :: "venue_rejection \<Rightarrow> string" where
  "venue_message r = snd (ENVELOPE (venue_reject_reason r))"

definition as_reject_text :: "venue_rejection \<Rightarrow> string" where
  "as_reject_text r = venue_code r @ '' '' @ venue_message r @ '' ['' @
     reason_value (venue_reject_reason r) @ ''] '' @ reject_detail r"

section \<open>Filters: _filters.py\<close>

record symbol_filters =
  filter_symbol :: string
  filter_tick_size :: rat
  min_quote_price :: rat
  max_quote_price :: rat
  filter_lot_step :: rat
  min_base_quantity :: rat
  max_base_quantity :: rat
  filter_min_notional_quote :: rat
  bid_multiplier_up :: rat
  bid_multiplier_down :: rat
  ask_multiplier_up :: rat
  ask_multiplier_down :: rat

definition price_band_for :: "symbol_filters \<Rightarrow> side \<Rightarrow> rat \<times> rat" where
  "price_band_for f s =
     (if s = BUY then (bid_multiplier_down f, bid_multiplier_up f)
      else (ask_multiplier_down f, ask_multiplier_up f))"

fun entry_for :: "row_value list \<Rightarrow> string \<Rightarrow> row result" where
  "entry_for [] filter_type = Inl (VenueSimulationError ''no such filter'')"
| "entry_for (RowMap entry # filters) filter_type =
     (if map_of entry ''filterType'' = Some (RowStr filter_type) then Inr entry
      else entry_for filters filter_type)"
| "entry_for (_ # filters) filter_type = entry_for filters filter_type"

definition decimal_field :: "text_codec \<Rightarrow> row \<Rightarrow> string \<Rightarrow> rat result" where
  "decimal_field c entry key =
     (case map_of entry key of
        Some (RowStr candidate) \<Rightarrow>
          (case decimal_of_text c candidate of
             Inl (InvalidOperation _) \<Rightarrow> Inl (VenueSimulationError (key @ '' is not a decimal''))
           | Inl e \<Rightarrow> Inl e
           | Inr (Finite x) \<Rightarrow> Inr x
           | Inr _ \<Rightarrow> Inl (VenueSimulationError (key @ '' is not finite'')))
      | _ \<Rightarrow> Inl (VenueSimulationError (key @ '' must be a string-encoded decimal'')))"

definition parse_symbol_filters :: "text_codec \<Rightarrow> row \<Rightarrow> symbol_filters result" where
  "parse_symbol_filters c payload =
     (case map_of payload ''symbol'' of
        Some (RowStr name) \<Rightarrow>
          if name = [] then Inl (VenueSimulationError ''no usable symbol'')
          else (case map_of payload ''filters'' of
            Some (RowSeq filters) \<Rightarrow>
              and_then (entry_for filters ''PRICE_FILTER'') (\<lambda>price_filter.
              and_then (entry_for filters ''LOT_SIZE'') (\<lambda>lot.
              and_then (entry_for filters ''NOTIONAL'') (\<lambda>notional.
              and_then (entry_for filters ''PERCENT_PRICE_BY_SIDE'') (\<lambda>band.
              and_then (decimal_field c price_filter ''tickSize'') (\<lambda>tick.
              and_then (decimal_field c price_filter ''minPrice'') (\<lambda>min_price.
              and_then (decimal_field c price_filter ''maxPrice'') (\<lambda>max_price.
              and_then (decimal_field c lot ''stepSize'') (\<lambda>lot_size.
              and_then (decimal_field c lot ''minQty'') (\<lambda>min_qty.
              and_then (decimal_field c lot ''maxQty'') (\<lambda>max_qty.
              and_then (decimal_field c notional ''minNotional'') (\<lambda>min_notional.
              and_then (decimal_field c band ''bidMultiplierUp'') (\<lambda>bid_up.
              and_then (decimal_field c band ''bidMultiplierDown'') (\<lambda>bid_down.
              and_then (decimal_field c band ''askMultiplierUp'') (\<lambda>ask_up.
              and_then (decimal_field c band ''askMultiplierDown'') (\<lambda>ask_down.
                Inr \<lparr>filter_symbol = name, filter_tick_size = tick, min_quote_price = min_price,
                     max_quote_price = max_price, filter_lot_step = lot_size,
                     min_base_quantity = min_qty, max_base_quantity = max_qty,
                     filter_min_notional_quote = min_notional, bid_multiplier_up = bid_up,
                     bid_multiplier_down = bid_down, ask_multiplier_up = ask_up,
                     ask_multiplier_down = ask_down\<rparr>)))))))))))))))
          | _ \<Rightarrow> Inl (VenueSimulationError ''no filters array''))
      | _ \<Rightarrow> Inl (VenueSimulationError ''no usable symbol''))"

definition INTERVAL_SECONDS :: "(string \<times> int) list" where
  "INTERVAL_SECONDS = [(''SECOND'', 1), (''MINUTE'', 60), (''DAY'', 86400)]"

text \<open>A bool is an int in Python, so it passes \<open>isinstance(_, int)\<close>.\<close>

fun row_int :: "row_value option \<Rightarrow> int option" where
  "row_int (Some (RowInt n)) = Some n"
| "row_int (Some (RowBool b)) = Some (if b then 1 else 0)"
| "row_int _ = None"

definition order_rate_entry :: "row \<Rightarrow> (int \<times> int) result" where
  "order_rate_entry entry =
     (case (map_of entry ''interval'', row_int (map_of entry ''intervalNum''), row_int (map_of entry ''limit'')) of
        (Some (RowStr interval), Some interval_num, Some max_orders) \<Rightarrow>
          (case map_of INTERVAL_SECONDS interval of
             None \<Rightarrow> Inl (VenueSimulationError ''unusable ORDERS rate limit entry'')
           | Some seconds \<Rightarrow> Inr (max_orders, seconds * interval_num * 1000000))
      | _ \<Rightarrow> Inl (VenueSimulationError ''unusable ORDERS rate limit entry''))"

fun narrowest_order_rate :: "row_value list \<Rightarrow> (int \<times> int) option \<Rightarrow> (int \<times> int) option result" where
  "narrowest_order_rate [] narrowest = Inr narrowest"
| "narrowest_order_rate (RowMap entry # limits) narrowest =
     (if map_of entry ''rateLimitType'' \<noteq> Some (RowStr ''ORDERS'') then narrowest_order_rate limits narrowest
      else and_then (order_rate_entry entry) (\<lambda>(max_orders, window).
        narrowest_order_rate limits
          (case narrowest of
             None \<Rightarrow> Some (max_orders, window)
           | Some (n, w) \<Rightarrow> if window < w then Some (max_orders, window) else Some (n, w))))"
| "narrowest_order_rate (_ # limits) narrowest = narrowest_order_rate limits narrowest"

definition parse_order_rate_budget :: "row \<Rightarrow> (int \<times> int) result" where
  "parse_order_rate_budget payload =
     (case map_of payload ''rateLimits'' of
        Some (RowSeq limits) \<Rightarrow>
          and_then (narrowest_order_rate limits None) (\<lambda>narrowest.
            case narrowest of
              None \<Rightarrow> Inl (VenueSimulationError ''no ORDERS rate limit'')
            | Some budget \<Rightarrow> Inr budget)
      | _ \<Rightarrow> Inl (VenueSimulationError ''no rateLimits array''))"

text \<open>\<open>Decimal.__mod__\<close>: the remainder of a truncated division whose quotient must fit the context.\<close>

definition dmod :: "rat \<Rightarrow> rat \<Rightarrow> rat result" where
  "dmod x y =
     (if y = 0 then Inl (InvalidOperation ''mod by zero'')
      else (let n = round_to_int ROUND_DOWN (x / y)
            in if 10 ^ DECIMAL_PRECISION \<le> \<bar>n\<bar> then Inl (InvalidOperation ''mod'')
               else Inr (context_round (x - of_int n * y))))"

definition screen_quote_price ::
  "symbol_filters \<Rightarrow> order \<Rightarrow> rat \<Rightarrow> rat \<Rightarrow> venue_rejection option result" where
  "screen_quote_price f r quoted reference =
     (if quoted < min_quote_price f \<or> quoted > max_quote_price f then
        Inr (Some \<lparr>venue_reject_reason = PRICE_FILTER, reject_detail = ''outside the price bounds''\<rparr>)
      else and_then (dmod quoted (filter_tick_size f)) (\<lambda>rem.
        if rem \<noteq> 0 then
          Inr (Some \<lparr>venue_reject_reason = PRICE_FILTER, reject_detail = ''not a multiple of the tick''\<rparr>)
        else
          (let (low, high) = price_band_for f (order_side r);
               band_low = dmul reference low;
               band_high = dmul reference high
           in if quoted < band_low \<or> quoted > band_high then
                Inr (Some \<lparr>venue_reject_reason = PERCENT_PRICE_BY_SIDE, reject_detail = ''outside the band''\<rparr>)
              else Inr None)))"

definition screen_base_quantity :: "symbol_filters \<Rightarrow> rat \<Rightarrow> venue_rejection option result" where
  "screen_base_quantity f base_quantity =
     (if base_quantity < min_base_quantity f \<or> base_quantity > max_base_quantity f then
        Inr (Some \<lparr>venue_reject_reason = LOT_SIZE, reject_detail = ''outside the lot bounds''\<rparr>)
      else and_then (dmod base_quantity (filter_lot_step f)) (\<lambda>rem.
        if rem \<noteq> 0 then
          Inr (Some \<lparr>venue_reject_reason = LOT_SIZE, reject_detail = ''not a multiple of the step''\<rparr>)
        else Inr None))"

definition screen_order :: "symbol_filters \<Rightarrow> order \<Rightarrow> rat \<Rightarrow> venue_rejection option result" where
  "screen_order f r reference =
     and_then (case limit_quote_price r of None \<Rightarrow> Inr None
               | Some quoted \<Rightarrow> screen_quote_price f r quoted reference) (\<lambda>priced.
       case priced of Some rejection \<Rightarrow> Inr (Some rejection)
       | None \<Rightarrow>
         and_then (screen_base_quantity f (order_base_quantity r)) (\<lambda>lotted.
           case lotted of Some rejection \<Rightarrow> Inr (Some rejection)
           | None \<Rightarrow>
             (let notional_reference =
                    (case limit_quote_price r of
                       Some quoted \<Rightarrow> if order_type_of r = LIMIT then quoted else reference
                     | None \<Rightarrow> reference)
              in if dmul (order_base_quantity r) notional_reference < filter_min_notional_quote f
                 then Inr (Some \<lparr>venue_reject_reason = MIN_NOTIONAL, reject_detail = ''below the floor''\<rparr>)
                 else Inr None)))"

section \<open>The touch: _book.py\<close>

record touch_quote =
  quote_instrument :: instrument
  quote_as_of_utc :: int
  bid_quote_price :: rat
  ask_quote_price :: rat
  quote_low_price :: rat
  quote_high_price :: rat
  quote_base_volume :: rat
  quote_depth :: depth_profile

definition touch_quote_post_init :: "touch_quote \<Rightarrow> unit result" where
  [post_init_defs]: "touch_quote_post_init q =
     ensure (\<not> bid_quote_price q > ask_quote_price q) (VenueSimulationError ''crossed quote'')"

definition touch_for :: "touch_quote \<Rightarrow> side \<Rightarrow> rat" where
  "touch_for q s = (if s = BUY then ask_quote_price q else bid_quote_price q)"

definition clamp_into_range :: "touch_quote \<Rightarrow> rat \<Rightarrow> rat" where
  "clamp_into_range q price =
     (if price < quote_low_price q then quote_low_price q
      else if price > quote_high_price q then quote_high_price q else price)"

definition quote_from_bar :: "bar \<Rightarrow> rat \<Rightarrow> depth_profile \<Rightarrow> touch_quote result" where
  "quote_from_bar b spread depth_behind =
     (if spread < 0 then Inl (VenueSimulationError ''negative spread_bps'')
      else
        (let tick = tick_size (bar_instrument b)
         in and_then (ddiv (dmul (close_quote_price b) spread) BPS_PER_UNIT) (\<lambda>full.
            and_then (ddiv full 2) (\<lambda>half_spread.
            and_then (snap (dsub (close_quote_price b) half_spread) tick ROUND_DOWN) (\<lambda>bid.
            and_then (snap (dadd (close_quote_price b) half_spread) tick ROUND_UP) (\<lambda>ask.
              construct touch_quote_post_init
                \<lparr>quote_instrument = bar_instrument b, quote_as_of_utc = close_time_utc b,
                 bid_quote_price = bid, ask_quote_price = ask, quote_low_price = low_quote_price b,
                 quote_high_price = high_quote_price b, quote_base_volume = base_volume b,
                 quote_depth = depth_behind\<rparr>))))))"

section \<open>The queue: _resting.py\<close>

record resting_order =
  working_order :: order
  resting_limit_price :: rat
  queue_ahead_base :: rat
  remaining_base :: rat
  resting_fill_count :: nat

definition is_complete :: "resting_order \<Rightarrow> bool" where
  "is_complete r \<longleftrightarrow> remaining_base r \<le> 0"

record queue_progress =
  progress_resting :: resting_order
  progress_filled :: rat
  progress_fill_price :: "rat option"

definition volume_at_or_beyond :: "bar \<Rightarrow> side \<Rightarrow> rat \<Rightarrow> rat result" where
  "volume_at_or_beyond b s limit =
     (let span = dsub (high_quote_price b) (low_quote_price b);
          reached = (if s = BUY then low_quote_price b \<le> limit else high_quote_price b \<ge> limit);
          distance = (if s = BUY then dsub limit (low_quote_price b) else dsub (high_quote_price b) limit)
      in if \<not> reached then Inr 0
         else if span = 0 then Inr (base_volume b)
         else and_then (ddiv distance span) (\<lambda>share.
           Inr (dmul (base_volume b) (if share > 1 then 1 else share))))"

definition resting_fill_quote_price :: "bar \<Rightarrow> side \<Rightarrow> rat \<Rightarrow> rat" where
  "resting_fill_quote_price b s limit =
     (if s = BUY then min limit (high_quote_price b) else max limit (low_quote_price b))"

definition join_queue :: "order \<Rightarrow> rat \<Rightarrow> touch_quote \<Rightarrow> resting_order" where
  "join_queue r limit q = \<lparr>working_order = r, resting_limit_price = limit,
     queue_ahead_base = depth_at_touch_base (quote_depth q), remaining_base = order_base_quantity r,
     resting_fill_count = 0\<rparr>"

definition consume :: "resting_order \<Rightarrow> bar \<Rightarrow> queue_progress result" where
  "consume r b =
     and_then (volume_at_or_beyond b (order_side (working_order r)) (resting_limit_price r)) (\<lambda>available.
       if available \<le> 0 then
         Inr \<lparr>progress_resting = r, progress_filled = 0, progress_fill_price = None\<rparr>
       else if available \<le> queue_ahead_base r then
         Inr \<lparr>progress_resting = r\<lparr>queue_ahead_base := dsub (queue_ahead_base r) available\<rparr>,
              progress_filled = 0, progress_fill_price = None\<rparr>
       else
         (let surplus = dsub available (queue_ahead_base r);
              filled = min surplus (remaining_base r)
          in and_then (quantize_base_quantity (order_instrument (working_order r)) filled) (\<lambda>quantized.
               if quantized \<le> 0 then
                 Inr \<lparr>progress_resting = r\<lparr>queue_ahead_base := 0\<rparr>, progress_filled = 0,
                      progress_fill_price = None\<rparr>
               else
                 Inr \<lparr>progress_resting = r\<lparr>queue_ahead_base := 0,
                        remaining_base := dsub (remaining_base r) quantized,
                        resting_fill_count := resting_fill_count r + 1\<rparr>,
                      progress_filled = quantized,
                      progress_fill_price = Some (resting_fill_quote_price b
                        (order_side (working_order r)) (resting_limit_price r))\<rparr>)))"

section \<open>Screening\<close>

lemma dmod_zero:
  "dmod x y = Inr 0 \<longleftrightarrow> y \<noteq> 0 \<and> (\<exists>k. x = of_int k * y \<and> \<bar>k\<bar> < 10 ^ DECIMAL_PRECISION)"
proof (cases "y = 0")
  case False
  show ?thesis
  proof
    assume "dmod x y = Inr 0"
    with False have "\<bar>round_to_int ROUND_DOWN (x / y)\<bar> < 10 ^ DECIMAL_PRECISION"
      "x = of_int (round_to_int ROUND_DOWN (x / y)) * y"
      by (auto simp: dmod_def Let_def not_le split: if_splits)
    with False show "y \<noteq> 0 \<and> (\<exists>k. x = of_int k * y \<and> \<bar>k\<bar> < 10 ^ DECIMAL_PRECISION)" by blast
  next
    assume "y \<noteq> 0 \<and> (\<exists>k. x = of_int k * y \<and> \<bar>k\<bar> < 10 ^ DECIMAL_PRECISION)"
    then show "dmod x y = Inr 0" by (auto simp: dmod_def Let_def)
  qed
qed (simp add: dmod_def)

definition on_step :: "rat \<Rightarrow> rat \<Rightarrow> bool" where
  "on_step x y \<longleftrightarrow> dmod x y = Inr 0"

lemma screen_base_quantity_accepts:
  "screen_base_quantity f q = Inr None \<longleftrightarrow>
     min_base_quantity f \<le> q \<and> q \<le> max_base_quantity f \<and> on_step q (filter_lot_step f)"
  by (auto simp: screen_base_quantity_def and_then_Inr_iff on_step_def not_less)

lemma screen_quote_price_accepts:
  "screen_quote_price f r p ref = Inr None \<longleftrightarrow>
     min_quote_price f \<le> p \<and> p \<le> max_quote_price f \<and> on_step p (filter_tick_size f) \<and>
     dmul ref (fst (price_band_for f (order_side r))) \<le> p \<and> p \<le> dmul ref (snd (price_band_for f (order_side r)))"
  by (auto simp: screen_quote_price_def and_then_Inr_iff on_step_def not_less Let_def split: prod.splits if_splits)

text \<open>
  The venue accepts exactly the orders that pass every filter: a priced order on the tick
  lattice, inside the price bounds and its side's band; any order on the lot lattice, inside
  the lot bounds; and a notional of at least the floor, a market order's at the reference.
\<close>

theorem accepted_orders_pass_every_filter:
  "screen_order f r ref = Inr None \<longleftrightarrow>
    (\<forall>p. limit_quote_price r = Some p \<longrightarrow>
       min_quote_price f \<le> p \<and> p \<le> max_quote_price f \<and> on_step p (filter_tick_size f) \<and>
       dmul ref (fst (price_band_for f (order_side r))) \<le> p \<and>
       p \<le> dmul ref (snd (price_band_for f (order_side r)))) \<and>
    min_base_quantity f \<le> order_base_quantity r \<and> order_base_quantity r \<le> max_base_quantity f \<and>
    on_step (order_base_quantity r) (filter_lot_step f) \<and>
    filter_min_notional_quote f \<le> dmul (order_base_quantity r)
      (case limit_quote_price r of Some p \<Rightarrow> if order_type_of r = LIMIT then p else ref | None \<Rightarrow> ref)"
proof -
  have "screen_order f r ref = Inr None \<longleftrightarrow>
      (case limit_quote_price r of None \<Rightarrow> Inr None | Some quoted \<Rightarrow> screen_quote_price f r quoted ref) = Inr None \<and>
      screen_base_quantity f (order_base_quantity r) = Inr None \<and>
      filter_min_notional_quote f \<le> dmul (order_base_quantity r)
      (case limit_quote_price r of Some p \<Rightarrow> if order_type_of r = LIMIT then p else ref | None \<Rightarrow> ref)"
    by (auto simp: screen_order_def and_then_Inr_iff Let_def not_less split: option.splits if_splits)
  then show ?thesis
    unfolding screen_base_quantity_accepts
    by (cases "limit_quote_price r") (simp_all add: screen_quote_price_accepts)
qed

section \<open>The touch is never crossed\<close>

lemma round_to_int_down_le_up: "round_to_int ROUND_DOWN y \<le> round_to_int ROUND_UP y" if "0 \<le> y"
  using round_to_int_down_nonneg(2) [OF that] round_to_int_up_nonneg(1) [OF that] by linarith

lemma snap_Inr:
  "snap x t m = Inr y \<longleftrightarrow> t \<noteq> 0 \<and> \<bar>round_to_int m (context_round (x / t))\<bar> < 10 ^ DECIMAL_PRECISION \<and>
     y = dmul (of_int (round_to_int m (context_round (x / t)))) t"
  by (auto simp: snap_def ddiv_def quantize_one_def Let_def and_then_Inr_iff DECIMAL_PRECISION_def)

lemma round_to_int_mono_up:
  "0 \<le> y \<Longrightarrow> x \<le> y \<Longrightarrow> round_to_int ROUND_DOWN x \<le> round_to_int ROUND_UP y"
proof (cases "0 \<le> x")
  case True
  then show "0 \<le> y \<Longrightarrow> x \<le> y \<Longrightarrow> round_to_int ROUND_DOWN x \<le> round_to_int ROUND_UP y"
    using round_to_int_down_nonneg(2) [of x] round_to_int_up_nonneg(1) [of y] by linarith
next
  case False
  then have "round_to_int ROUND_DOWN x \<le> 0" by (simp add: round_to_int.simps)
  moreover assume "0 \<le> y"
  then have "0 \<le> round_to_int ROUND_UP y" using round_to_int_up_nonneg(1) [of y] by linarith
  ultimately show "round_to_int ROUND_DOWN x \<le> round_to_int ROUND_UP y" by linarith
qed

text \<open>
  Whatever the rounding does, the bid snapped down never passes the ask snapped up: the
  quote's own check of a crossed touch never fires on a bar with positive prices.
\<close>

lemma snapped_touch_ordered:
  assumes "snap x t ROUND_DOWN = Inr bid" and "snap y t ROUND_UP = Inr ask"
    and "x \<le> y" "0 \<le> y" "0 < t"
  shows "bid \<le> ask"
proof -
  have "context_round (x / t) \<le> context_round (y / t)" "0 \<le> context_round (y / t)"
    using assms(3-5) by (auto intro!: context_round_mono divide_right_mono)
  then have "of_int (round_to_int ROUND_DOWN (context_round (x / t))) \<le>
      (of_int (round_to_int ROUND_UP (context_round (y / t))) :: rat)"
    by (simp add: round_to_int_mono_up)
  then show ?thesis
    using assms(1,2,5) unfolding snap_Inr dmul_def by (auto intro!: context_round_mono mult_right_mono)
qed

lemma quote_from_bar_Inr:
  assumes "quote_from_bar b spread p = Inr q"
  shows "0 \<le> spread" "quote_instrument q = bar_instrument b" "quote_low_price q = low_quote_price b"
    "quote_high_price q = high_quote_price b" "quote_depth q = p" "quote_as_of_utc q = close_time_utc b"
    "bid_quote_price q \<le> ask_quote_price q"
  using assms
  by (auto simp: quote_from_bar_def Let_def and_then_Inr_iff touch_quote_post_init_def split: if_splits)

theorem modelled_touch_is_never_crossed:
  assumes "bar_post_init b = Inr ()" and "0 < tick_size (bar_instrument b)" and "0 \<le> spread"
  shows "quote_from_bar b spread p \<noteq> Inl (VenueSimulationError ''crossed quote'')"
proof
  assume crossed: "quote_from_bar b spread p = Inl (VenueSimulationError ''crossed quote'')"
  have bar: "0 < close_quote_price b" using assms(1) by (auto simp: post_init_defs guard_simps)
  define h where "h = context_round (context_round (dmul (close_quote_price b) spread / 10000) / 2)"
  have h: "0 \<le> h" using bar assms(3) by (simp add: h_def dmul_def)
  let ?x = "dsub (close_quote_price b) h" and ?y = "dadd (close_quote_price b) h" and ?t = "tick_size (bar_instrument b)"
  have "?x \<le> ?y" unfolding dsub_def dadd_def using h by (intro context_round_mono) simp
  moreover have "0 \<le> ?y" using h bar by (simp add: dadd_def)
  moreover have "snap z t m \<noteq> Inl (VenueSimulationError s)" for z t m s
    by (auto simp: snap_def ddiv_def quantize_one_def Let_def)
  moreover obtain bid ask where "snap ?x ?t ROUND_DOWN = Inr bid" "snap ?y ?t ROUND_UP = Inr ask" "ask < bid"
    using crossed calculation(3) assms(3)
    by (auto simp: quote_from_bar_def Let_def and_then_Inl_iff touch_quote_post_init_def ensure_def construct_def
        ddiv_def BPS_PER_UNIT_def h_def split: if_splits)
  ultimately show False using snapped_touch_ordered [of ?x ?t bid ?y ask] assms(2) by auto
qed

section \<open>The queue is earned\<close>

lemma quantize_below:
  assumes i: "valid_instrument i" "snappable (lot_step i)" and rem: "snappable rem" and q: "0 \<le> q" "q \<le> rem"
  obtains n where "quantize_base_quantity i q = Inr (of_int n * lot_step i)" "0 \<le> n"
    "of_int n * lot_step i \<le> rem" "snappable (of_int n * lot_step i)"
proof -
  let ?s = "lot_step i"
  have s: "0 < ?s" using i(1) by (rule valid_instrument_filters)
  have lat: "on_lattice ?s" using i(2) by (simp add: snappable_def)
  define n where "n = round_to_int ROUND_DOWN (context_round (q / ?s))"
  define k where "k = round_to_int ROUND_DOWN (rem / ?s)"
  have "0 \<le> context_round (q / ?s)" using q(1) s by simp
  then have n: "0 \<le> n" "of_int n \<le> context_round (q / ?s)"
    unfolding n_def by (rule round_to_int_down_nonneg)+
  have k': "k = round_to_int ROUND_DOWN (context_round (rem / ?s))"
    unfolding k_def by (rule snappable_ratio [OF rem lat s, symmetric])
  have "context_round (q / ?s) \<le> context_round (rem / ?s)"
    using q(2) s by (intro context_round_mono divide_right_mono) auto
  moreover have "context_round (rem / ?s) < of_int k + 1" unfolding k'
    using q s by (intro round_to_int_down_nonneg(3)) simp
  ultimately have "of_int n < (of_int (k + 1) :: rat)" using n(2) by simp
  then have nk: "n \<le> k" by (simp only: of_int_less_iff)
  have "of_int k \<le> rem / ?s" unfolding k_def using q s by (intro round_to_int_down_nonneg(2)) simp
  then have "of_int k * ?s \<le> rem" using s by (simp add: pos_le_divide_eq)
  moreover have "of_int n * ?s \<le> of_int k * ?s" using nk s by (intro mult_right_mono) auto
  ultimately have le: "of_int n * ?s \<le> rem" by linarith
  have pos: "0 \<le> of_int n * ?s" using n(1) s by simp
  have snap: "snappable (of_int n * ?s)"
    using le pos rem lat by (auto simp: snappable_def)
  have "snap (of_int n * ?s) ?s ROUND_DOWN = Inr (of_int n * ?s)" by (rule snap_multiple [OF snap i(2) s])
  moreover have "round_to_int ROUND_DOWN (context_round (of_int n)) = n"
    using snappable_ratio [OF snap lat s, of ROUND_DOWN] s by simp
  ultimately have "\<bar>n\<bar> < 10 ^ DECIMAL_PRECISION" "dmul (of_int n) ?s = of_int n * ?s"
    using s by (simp_all add: snap_Inr)
  then have "quantize_base_quantity i q = Inr (of_int n * ?s)"
    using s by (simp add: quantize_base_quantity_def snap_Inr n_def)
  with n(1) le snap show thesis by (intro that)
qed

abbreviation valid_bar :: "bar \<Rightarrow> bool" where
  "valid_bar b \<equiv> bar_post_init b = Inr ()"

lemma valid_barD:
  assumes "valid_bar b"
  shows "0 < low_quote_price b" "low_quote_price b \<le> high_quote_price b" "0 \<le> base_volume b"
    "low_quote_price b \<le> close_quote_price b" "close_quote_price b \<le> high_quote_price b"
  using assms by (auto simp: post_init_defs guard_simps)

definition resting_ok :: "resting_order \<Rightarrow> bool" where
  "resting_ok r \<longleftrightarrow> 0 \<le> queue_ahead_base r \<and> context_round (queue_ahead_base r) = queue_ahead_base r \<and> 0 \<le> remaining_base r \<and> snappable (remaining_base r) \<and>
     valid_instrument (order_instrument (working_order r)) \<and>
     snappable (lot_step (order_instrument (working_order r)))"

lemma volume_available:
  assumes "valid_bar b"
  obtains v where "volume_at_or_beyond b s limit = Inr v" "0 \<le> v"
    "0 < v \<longrightarrow> (if s = BUY then low_quote_price b \<le> limit else limit \<le> high_quote_price b)"
proof -
  note b = valid_barD [OF assms]
  let ?span = "dsub (high_quote_price b) (low_quote_price b)"
  have span: "0 \<le> ?span" using b(2) by (simp add: dsub_def)
  show thesis
  proof (cases "(if s = BUY then low_quote_price b \<le> limit else high_quote_price b \<ge> limit) \<and> ?span \<noteq> 0")
    case True
    let ?share = "context_round ((if s = BUY then dsub limit (low_quote_price b) else dsub (high_quote_price b) limit) / ?span)"
    have "0 \<le> (if s = BUY then dsub limit (low_quote_price b) else dsub (high_quote_price b) limit)"
      using True by (simp add: dsub_def)
    then have "0 \<le> ?share" using span by simp
    then have "0 \<le> dmul (base_volume b) (if ?share > 1 then 1 else ?share)"
      using b(3) by (simp add: dmul_def)
    with True show thesis
      by (intro that [of "dmul (base_volume b) (if ?share > 1 then 1 else ?share)"])
        (auto simp: volume_at_or_beyond_def Let_def ddiv_def)
  next
    case False
    then show thesis
      using b(3) by (intro that [of "if (if s = BUY then low_quote_price b \<le> limit else high_quote_price b \<ge> limit)
          then base_volume b else 0"]) (auto simp: volume_at_or_beyond_def Let_def split: if_splits)
  qed
qed

lemma resting_price_in_range:
  assumes "valid_bar b" and "if s = BUY then low_quote_price b \<le> limit else limit \<le> high_quote_price b"
  shows "low_quote_price b \<le> resting_fill_quote_price b s limit \<and>
    resting_fill_quote_price b s limit \<le> high_quote_price b \<and>
    (if s = BUY then resting_fill_quote_price b s limit \<le> limit else limit \<le> resting_fill_quote_price b s limit)"
  using valid_barD [OF assms(1)] assms(2) by (auto simp: resting_fill_quote_price_def)

text \<open>What one closed bar does to a resting order.\<close>

definition earned :: "resting_order \<Rightarrow> bar \<Rightarrow> queue_progress \<Rightarrow> bool" where
  "earned r b p \<longleftrightarrow>
     (let t = progress_resting p in
      working_order t = working_order r \<and> resting_limit_price t = resting_limit_price r \<and>
      queue_ahead_base t \<le> queue_ahead_base r \<and>
      remaining_base t + progress_filled p = remaining_base r \<and> 0 \<le> progress_filled p \<and>
      (\<exists>n. progress_filled p = of_int n * lot_step (order_instrument (working_order r))) \<and>
      (progress_fill_price p = None) = (progress_filled p = 0) \<and>
      resting_fill_count t = resting_fill_count r + (if progress_filled p = 0 then 0 else 1) \<and>
      (0 < progress_filled p \<longrightarrow>
        (\<exists>v. volume_at_or_beyond b (order_side (working_order r)) (resting_limit_price r) = Inr v \<and>
          queue_ahead_base r < v)) \<and>
      (\<forall>x. progress_fill_price p = Some x \<longrightarrow> low_quote_price b \<le> x \<and> x \<le> high_quote_price b \<and>
        (if order_side (working_order r) = BUY then x \<le> resting_limit_price r else resting_limit_price r \<le> x)))"

lemma consume_earned:
  assumes r: "resting_ok r" and b: "valid_bar b"
  obtains p where "consume r b = Inr p" "resting_ok (progress_resting p)" "earned r b p"
proof -
  let ?s = "order_side (working_order r)" and ?limit = "resting_limit_price r"
  let ?i = "order_instrument (working_order r)"
  obtain v where v: "volume_at_or_beyond b ?s ?limit = Inr v" "0 \<le> v"
      "0 < v \<longrightarrow> (if ?s = BUY then low_quote_price b \<le> ?limit else ?limit \<le> high_quote_price b)"
    by (rule volume_available [OF b, of ?s ?limit])
  note ok = r [unfolded resting_ok_def]
  consider "v \<le> 0" | "0 < v" "v \<le> queue_ahead_base r" | "0 < v" "queue_ahead_base r < v" by linarith
  then show thesis
  proof cases
    case 1
    with r v(1) show thesis
      by (intro that [of "\<lparr>progress_resting = r, progress_filled = 0, progress_fill_price = None\<rparr>"])
        (auto simp: consume_def earned_def intro!: exI [of _ 0])
  next
    case 2
    let ?q = "dsub (queue_ahead_base r) v"
    have "?q \<le> context_round (queue_ahead_base r)"
      unfolding dsub_def using 2 by (intro context_round_mono) simp
    moreover have "0 \<le> ?q" "context_round ?q = ?q" using 2 by (simp_all add: dsub_def context_round_idem)
    ultimately show thesis
      using 2 ok v(1)
      by (intro that [of "\<lparr>progress_resting = r\<lparr>queue_ahead_base := ?q\<rparr>, progress_filled = 0,
          progress_fill_price = None\<rparr>"])
        (auto simp: consume_def earned_def resting_ok_def intro!: exI [of _ 0])
  next
    case 3
    let ?filled = "min (dsub v (queue_ahead_base r)) (remaining_base r)"
    have "0 \<le> ?filled" "?filled \<le> remaining_base r" using 3 ok by (simp_all add: dsub_def)
    then obtain n where n: "quantize_base_quantity ?i ?filled = Inr (of_int n * lot_step ?i)" "0 \<le> n"
        "of_int n * lot_step ?i \<le> remaining_base r" "snappable (of_int n * lot_step ?i)"
      using quantize_below [of ?i "remaining_base r" ?filled] ok by blast
    have step: "0 < lot_step ?i" using ok valid_instrument_filters by blast
    let ?x = "of_int n * lot_step ?i"
    have x: "0 \<le> ?x" using n(2) step by simp
    have "on_lattice (remaining_base r - ?x)" using ok n(4) by (intro on_lattice_diff) (auto simp: snappable_def)
    moreover have "\<bar>remaining_base r - ?x\<bar> < 10 ^ 18" using ok n(3) x by (auto simp: snappable_def)
    ultimately have left: "snappable (remaining_base r - ?x)" "dsub (remaining_base r) ?x = remaining_base r - ?x"
      by (auto simp: snappable_def dsub_def intro!: lattice_exact)
    note price = resting_price_in_range [OF b mp [OF v(3) 3(1)]]
    show thesis
    proof (cases "?x \<le> 0")
      case True
      with x have "?x = 0" by linarith
      with 3 ok v(1) n(1) show thesis
        by (intro that [of "\<lparr>progress_resting = r\<lparr>queue_ahead_base := 0\<rparr>, progress_filled = 0,
            progress_fill_price = None\<rparr>"])
          (auto simp: consume_def earned_def resting_ok_def Let_def intro!: exI [of _ 0])
    next
      case False
      let ?p = "\<lparr>progress_resting = r\<lparr>queue_ahead_base := 0, remaining_base := remaining_base r - ?x,
            resting_fill_count := resting_fill_count r + 1\<rparr>, progress_filled = ?x,
          progress_fill_price = Some (resting_fill_quote_price b ?s ?limit)\<rparr>"
      have "consume r b = Inr ?p"
        using 3 v(1) n(1) False left(2) by (simp add: consume_def Let_def)
      moreover have "resting_ok (progress_resting ?p)" using ok left(1) n(3) by (simp add: resting_ok_def)
      moreover have "earned r b ?p" using 3(2) v(1) price ok False by (auto simp: earned_def)
      ultimately show thesis by (rule that)
    qed
  qed
qed

text \<open>A resting order worked through closed bars, and the prints it earned.\<close>

fun work_through :: "resting_order \<Rightarrow> bar list \<Rightarrow> (resting_order \<times> (rat \<times> rat) list) result" where
  "work_through r [] = Inr (r, [])"
| "work_through r (b # bs) =
     and_then (consume r b) (\<lambda>p.
     and_then (work_through (progress_resting p) bs) (\<lambda>(t, prints).
       Inr (t, (case progress_fill_price p of None \<Rightarrow> prints | Some x \<Rightarrow> (progress_filled p, x) # prints))))"

text \<open>
  A resting order never prints more than it asked for, nor at a price nobody traded at, nor
  beyond its limit. Whatever bars follow its arrival, working through them returns; what was
  printed and what is left make up its quantity; every print is a positive whole number of
  lots at a price inside the range of one of the bars, on the right side of the limit; and
  the queue ahead only shrinks.
\<close>

lemma work_through_earned:
  assumes "resting_ok r" and "\<forall>b \<in> set bs. valid_bar b"
  shows "\<exists>t prints. work_through r bs = Inr (t, prints) \<and> resting_ok t \<and>
    working_order t = working_order r \<and> resting_limit_price t = resting_limit_price r \<and>
    queue_ahead_base t \<le> queue_ahead_base r \<and>
    remaining_base t + sum_list (map fst prints) = remaining_base r \<and>
    (\<forall>(q, x) \<in> set prints. 0 < q \<and> (\<exists>n. q = of_int n * lot_step (order_instrument (working_order r))) \<and>
      (\<exists>b \<in> set bs. low_quote_price b \<le> x \<and> x \<le> high_quote_price b) \<and>
      (if order_side (working_order r) = BUY then x \<le> resting_limit_price r else resting_limit_price r \<le> x))"
  using assms
proof (induction bs arbitrary: r)
  case Nil
  then show ?case by simp
next
  case (Cons b bs)
  obtain p where p: "consume r b = Inr p" "resting_ok (progress_resting p)" "earned r b p"
    using consume_earned [of r b] Cons.prems by auto
  obtain t prints where t: "work_through (progress_resting p) bs = Inr (t, prints)" "resting_ok t"
      "working_order t = working_order (progress_resting p)"
      "resting_limit_price t = resting_limit_price (progress_resting p)"
      "queue_ahead_base t \<le> queue_ahead_base (progress_resting p)"
      "remaining_base t + sum_list (map fst prints) = remaining_base (progress_resting p)"
      "\<forall>(q, x) \<in> set prints. 0 < q \<and>
        (\<exists>n. q = of_int n * lot_step (order_instrument (working_order (progress_resting p)))) \<and>
        (\<exists>b \<in> set bs. low_quote_price b \<le> x \<and> x \<le> high_quote_price b) \<and>
        (if order_side (working_order (progress_resting p)) = BUY
         then x \<le> resting_limit_price (progress_resting p) else resting_limit_price (progress_resting p) \<le> x)"
    using Cons.IH [OF p(2)] Cons.prems(2) by auto
  note e = p(3) [unfolded earned_def Let_def]
  show ?case
  proof (cases "progress_fill_price p")
    case None
    with e t p(1) show ?thesis by (auto simp: split_beta)
  next
    case (Some x)
    with e have "0 < progress_filled p" by auto
    with Some e t p(1) show ?thesis by (auto simp: split_beta)
  qed
qed

end
