(* ===== verification/Venue_Simulation.thy ===== *)
theory Venue_Simulation
  imports Venue_Book "HOL-Library.Char_ord" "HOL-Library.List_Lexorder" "HOL-Library.Product_Lexorder"
begin

text \<open>
  The simulated venue of \<open>src/fking/backtest/venue/_simulation.py\<close> and the two thin venues over
  it (\<open>_venue.py\<close>): bars build the touch and pay the resting queue, a submission is screened
  at the instant it would arrive and acknowledged later, and an acknowledged order is crossed
  against the modelled depth, left to rest or refused. The simulator's state is a record; an
  operation returns the state it leaves, also when it raises. A dict is the list of its items;
  UUID version 5 is an argument; the wording of a refusal's detail is not modelled.
\<close>

section \<open>The simulator's configuration and state\<close>

record simulation_config =
  sim_cost_model :: cost_model
  sim_filters :: "(string \<times> symbol_filters) list"
  order_rate_budget :: int
  order_rate_window :: int
  sim_quantile :: spread_quantile
  sequential_fill_gap :: int

definition DEFAULT_SEQUENTIAL_FILL_GAP :: int where
  "DEFAULT_SEQUENTIAL_FILL_GAP = 5000"

record venue_fill_record =
  recorded_fill :: fill
  recorded_passive :: bool
  passive_markout_quote :: rat

record fill_simulation =
  sim_quotes :: "(string \<times> touch_quote) list"
  sim_resting :: "(nat \<times> resting_order) list"
  sim_pending :: "(nat \<times> order) list"
  recent_submissions :: "int list"
  sim_fills :: "venue_fill_record list"
  sim_rejections :: "(reject_reason \<times> nat) list"

definition simulation_init :: "simulation_config \<Rightarrow> fill_simulation result" where
  "simulation_init cfg =
     and_then (run_checks
       [ensure (0 < order_rate_budget cfg) (VenueSimulationError ''order_rate_budget''),
        ensure (0 < order_rate_window cfg) (VenueSimulationError ''order_rate_window''),
        ensure (\<not> sequential_fill_gap cfg < 0) (VenueSimulationError ''sequential_fill_gap'')]) (\<lambda>_.
     Inr \<lparr>sim_quotes = [], sim_resting = [], sim_pending = [], recent_submissions = [], sim_fills = [],
          sim_rejections = []\<rparr>)"

record venue_report =
  rejection_counts :: "(reject_reason \<times> nat) list"
  report_fills :: "venue_fill_record list"

definition count_of :: "(reject_reason \<times> nat) list \<Rightarrow> reject_reason \<Rightarrow> nat" where
  "count_of counts reason = (case map_of counts reason of None \<Rightarrow> 0 | Some n \<Rightarrow> n)"

definition simulation_report :: "fill_simulation \<Rightarrow> venue_report" where
  "simulation_report s = \<lparr>rejection_counts = map (\<lambda>reason. (reason, count_of (sim_rejections s) reason)) ALL_REASONS,
     report_fills = sim_fills s\<rparr>"

definition fill_count :: "venue_report \<Rightarrow> nat" where
  "fill_count r = length (report_fills r)"

definition rejection_total :: "venue_report \<Rightarrow> nat" where
  "rejection_total r = sum_list (map snd (rejection_counts r))"

definition passive_fill_count :: "venue_report \<Rightarrow> nat" where
  "passive_fill_count r = length (filter recorded_passive (report_fills r))"

definition report_passive_markout_quote :: "venue_report \<Rightarrow> rat" where
  "report_passive_markout_quote r = dsum (map passive_markout_quote (report_fills r))"

section \<open>Printing and refusing\<close>

fun nat_text :: "nat \<Rightarrow> string" where
  "nat_text n = (if n < 10 then [char_of (48 + n)] else nat_text (n div 10) @ [char_of (48 + n mod 10)])"

declare nat_text.simps [simp del]

text \<open>\<open>quantize(Decimal("0.00000001"), ROUND_HALF_EVEN)\<close>.\<close>

definition quantize_quote :: "rat \<Rightarrow> rat result" where
  "quantize_quote x =
     (let n = round_half_even (x * 10 ^ 8)
      in if 10 ^ DECIMAL_PRECISION \<le> \<bar>n\<bar> then Inl (InvalidOperation ''quantize'')
         else Inr (of_int n / 10 ^ 8))"

definition venue_trade_id_of :: "order \<Rightarrow> nat \<Rightarrow> string" where
  "venue_trade_id_of r nth_print = ''sim-'' @ client_order_id r @ ''-'' @ nat_text nth_print"

definition print_fill ::
  "simulation_config \<Rightarrow> (string \<Rightarrow> nat) \<Rightarrow> order \<Rightarrow> rat \<Rightarrow> rat \<Rightarrow> int \<Rightarrow> bool \<Rightarrow> nat
     \<Rightarrow> fill_simulation \<Rightarrow> fill_simulation \<times> event result" where
  "print_fill cfg uuid5 r base_quantity price at_utc is_passive nth_print s =
     (let notional = dmul base_quantity price;
          fee_bps = fee_bps_for (fees (sim_cost_model cfg)) is_passive;
          markout_bps = Costs.passive_markout_bps (partial_fills (sim_cost_model cfg));
          trade_id = venue_trade_id_of r nth_print
      in case and_then (and_then (ddiv (dmul notional fee_bps) BPS_PER_UNIT) quantize_quote) (\<lambda>fee.
              and_then (if is_passive
                        then and_then (ddiv (dmul notional markout_bps) BPS_PER_UNIT) quantize_quote
                        else Inr 0) (\<lambda>markout.
              and_then (construct fill_post_init
                \<lparr>fill_id = uuid5 trade_id, fill_order_id = order_id r, fill_venue_trade_id = trade_id,
                 fill_instrument = order_instrument r, fill_side = order_side r,
                 fill_event_time_utc = at_utc, fill_quote_price = price,
                 fill_base_quantity = base_quantity, fee_quote = fee\<rparr>) (\<lambda>f.
                Inr \<lparr>recorded_fill = f, recorded_passive = is_passive, passive_markout_quote = markout\<rparr>)))
         of Inl e \<Rightarrow> (s, Inl e)
          | Inr record \<Rightarrow> (s\<lparr>sim_fills := sim_fills s @ [record]\<rparr>, Inr (FillEvent (recorded_fill record))))"

definition reject_order ::
  "order \<Rightarrow> int \<Rightarrow> venue_rejection \<Rightarrow> fill_simulation \<Rightarrow> fill_simulation \<times> event result" where
  "reject_order r occurs_at rejection s =
     (s\<lparr>sim_rejections := AList.update (venue_reject_reason rejection)
          (count_of (sim_rejections s) (venue_reject_reason rejection) + 1) (sim_rejections s)\<rparr>,
      construct event_post_init (RejectEvent r occurs_at (as_reject_text rejection)))"

section \<open>Market data\<close>

text \<open>One resting order on a bar of its symbol: consumed, printed, then kept or dropped.\<close>

definition pay_resting ::
  "simulation_config \<Rightarrow> (string \<Rightarrow> nat) \<Rightarrow> bar \<Rightarrow> nat \<Rightarrow> resting_order
     \<Rightarrow> fill_simulation \<Rightarrow> fill_simulation \<times> event list result" where
  "pay_resting cfg uuid5 b oid r s =
     (case consume r b of
        Inl e \<Rightarrow> (s, Inl e)
      | Inr p \<Rightarrow>
          (let (t, printed) =
             (case progress_fill_price p of
                Some price \<Rightarrow>
                  if progress_filled p > 0 then
                    (case print_fill cfg uuid5 (working_order r) (progress_filled p) price (close_time_utc b)
                            True (resting_fill_count (progress_resting p)) s of
                       (t, Inl e) \<Rightarrow> (t, Inl e)
                     | (t, Inr event) \<Rightarrow> (t, Inr [event]))
                  else (s, Inr [])
              | None \<Rightarrow> (s, Inr []))
           in case printed of
                Inl e \<Rightarrow> (t, Inl e)
              | Inr events \<Rightarrow>
                  (if is_complete (progress_resting p) then t\<lparr>sim_resting := AList.delete oid (sim_resting t)\<rparr>
                   else t\<lparr>sim_resting := AList.update oid (progress_resting p) (sim_resting t)\<rparr>, Inr events)))"

fun pay_queue ::
  "simulation_config \<Rightarrow> (string \<Rightarrow> nat) \<Rightarrow> bar \<Rightarrow> nat list \<Rightarrow> fill_simulation \<Rightarrow> fill_simulation \<times> event list result" where
  "pay_queue cfg uuid5 b [] s = (s, Inr [])"
| "pay_queue cfg uuid5 b (oid # oids) s =
     (case map_of (sim_resting s) oid of
        None \<Rightarrow> (s, Inl KeyError)
      | Some r \<Rightarrow>
          if symbol (order_instrument (working_order r)) \<noteq> symbol (bar_instrument b)
          then pay_queue cfg uuid5 b oids s
          else (case pay_resting cfg uuid5 b oid r s of
                  (t, Inl e) \<Rightarrow> (t, Inl e)
                | (t, Inr events) \<Rightarrow>
                    (case pay_queue cfg uuid5 b oids t of
                       (u, Inl e) \<Rightarrow> (u, Inl e)
                     | (u, Inr events') \<Rightarrow> (u, Inr (events @ events')))))"

text \<open>The text of a UUID is its number in fixed-width hexadecimal, so sorting by it sorts the numbers.\<close>

definition sim_observe ::
  "simulation_config \<Rightarrow> (string \<Rightarrow> nat) \<Rightarrow> bar \<Rightarrow> fill_simulation \<Rightarrow> fill_simulation \<times> event list result" where
  "sim_observe cfg uuid5 b s =
     (let m = sim_cost_model cfg; name = symbol (bar_instrument b)
      in case and_then (spread_profile_for m name) (\<lambda>profile.
              and_then (spread_bps profile (hour_of (close_time_utc b)) (sim_quantile cfg)) (\<lambda>spread.
              and_then (depth_profile_for m name) (\<lambda>depth_behind. quote_from_bar b spread depth_behind))) of
           Inl e \<Rightarrow> (s, Inl e)
         | Inr q \<Rightarrow>
             pay_queue cfg uuid5 b (sort (map fst (sim_resting s)))
               (s\<lparr>sim_quotes := AList.update name q (sim_quotes s)\<rparr>))"

section \<open>The order path\<close>

record submission_schedule =
  scheduled_decided_at_utc :: int
  arrives_at_utc :: int
  acknowledged_at_utc :: int
  earliest_fill_at_utc :: int

definition schedule_for :: "simulation_config \<Rightarrow> int \<Rightarrow> submission_schedule" where
  "schedule_for cfg decided =
     (let l = latency (sim_cost_model cfg);
          arrives = decided + decision_to_send l;
          acknowledged = arrives + send_to_ack l
      in \<lparr>scheduled_decided_at_utc = decided, arrives_at_utc = arrives, acknowledged_at_utc = acknowledged,
          earliest_fill_at_utc = acknowledged + ack_to_fill l\<rparr>)"

definition within_order_rate_budget :: "simulation_config \<Rightarrow> int \<Rightarrow> fill_simulation \<Rightarrow> fill_simulation \<times> bool" where
  "within_order_rate_budget cfg arrives s =
     (let cutoff = arrives - order_rate_window cfg;
          recent = filter (\<lambda>sent. sent > cutoff) (recent_submissions s)
      in if int (length recent) \<ge> order_rate_budget cfg then (s\<lparr>recent_submissions := recent\<rparr>, False)
         else (s\<lparr>recent_submissions := recent @ [arrives]\<rparr>, True))"

definition quote_or_raise :: "order \<Rightarrow> fill_simulation \<Rightarrow> touch_quote result" where
  "quote_or_raise r s =
     (case map_of (sim_quotes s) (symbol (order_instrument r)) of
        None \<Rightarrow> Inl (VenueSimulationError ''no bar had closed'')
      | Some q \<Rightarrow> Inr q)"

definition screen_submission ::
  "simulation_config \<Rightarrow> order \<Rightarrow> int \<Rightarrow> fill_simulation \<Rightarrow> fill_simulation \<times> venue_rejection option result" where
  "screen_submission cfg r arrives s =
     (case within_order_rate_budget cfg arrives s of
        (t, False) \<Rightarrow>
          (t, Inr (Some \<lparr>venue_reject_reason = ORDER_RATE_BUDGET, reject_detail = ''budget spent''\<rparr>))
      | (t, True) \<Rightarrow>
          (t, case map_of (sim_filters cfg) (symbol (order_instrument r)) of
                None \<Rightarrow> Inl (VenueSimulationError ''no exchangeInfo filters'')
              | Some f \<Rightarrow>
                  and_then (quote_or_raise r t) (\<lambda>q.
                  and_then (ddiv (dadd (bid_quote_price q) (ask_quote_price q)) 2) (\<lambda>reference.
                    screen_order f r reference))))"

definition sim_submit ::
  "simulation_config \<Rightarrow> order \<Rightarrow> int \<Rightarrow> fill_simulation \<Rightarrow> fill_simulation \<times> event result" where
  "sim_submit cfg r decided s =
     (if decided < created_at_utc r then (s, Inl (VenueSimulationError ''decided before it was created''))
      else
        (let schedule = schedule_for cfg decided
         in case screen_submission cfg r (arrives_at_utc schedule) s of
              (t, Inl e) \<Rightarrow> (t, Inl e)
            | (t, Inr (Some rejection)) \<Rightarrow> reject_order r (acknowledged_at_utc schedule) rejection t
            | (t, Inr None) \<Rightarrow>
                (t\<lparr>sim_pending := AList.update (order_id r) r (sim_pending t)\<rparr>,
                 construct event_post_init (OrderAckEvent r (acknowledged_at_utc schedule)))))"

definition is_marketable :: "order \<Rightarrow> touch_quote \<Rightarrow> bool" where
  "is_marketable r q =
     (if order_type_of r = MARKET then True
      else (case limit_quote_price r of
              None \<Rightarrow> True
            | Some limit \<Rightarrow>
                if order_side r = BUY then limit \<ge> touch_for q (order_side r)
                else limit \<le> touch_for q (order_side r)))"

text \<open>
  An order that crosses: refused whole when it is larger than the band, otherwise a print of
  what the touch holds and one of the rest, displaced by the walk.
\<close>

definition depth_refusal :: venue_rejection where
  "depth_refusal = \<lparr>venue_reject_reason = BOOK_DEPTH, reject_detail = ''beyond the modelled band''\<rparr>"

definition displaced_price :: "order \<Rightarrow> rat \<Rightarrow> depth_walk \<Rightarrow> rat \<Rightarrow> rat result" where
  "displaced_price r touch walk beyond =
     and_then (ddiv (dmul (depth_slippage_bps walk) (order_base_quantity r)) beyond) (\<lambda>walk_bps.
       ddiv (dmul touch (dadd BPS_PER_UNIT (dmul walk_bps (signed_multiplier (order_side r))))) BPS_PER_UNIT)"

definition print_at_touch ::
  "simulation_config \<Rightarrow> (string \<Rightarrow> nat) \<Rightarrow> order \<Rightarrow> touch_quote \<Rightarrow> int \<Rightarrow> rat \<Rightarrow> fill_simulation
     \<Rightarrow> fill_simulation \<times> event list result" where
  "print_at_touch cfg uuid5 r q fill_at at_touch s =
     (if at_touch > 0 then
        (case print_fill cfg uuid5 r at_touch (clamp_into_range q (touch_for q (order_side r))) fill_at False 0 s of
           (t, Inl e) \<Rightarrow> (t, Inl e) | (t, Inr event) \<Rightarrow> (t, Inr [event]))
      else (s, Inr []))"

definition print_beyond ::
  "simulation_config \<Rightarrow> (string \<Rightarrow> nat) \<Rightarrow> order \<Rightarrow> touch_quote \<Rightarrow> int \<Rightarrow> depth_walk \<Rightarrow> rat \<Rightarrow> fill_simulation
     \<Rightarrow> fill_simulation \<times> event list result" where
  "print_beyond cfg uuid5 r q fill_at walk beyond s =
     (if beyond > 0 then
        (case displaced_price r (touch_for q (order_side r)) walk beyond of
           Inl e \<Rightarrow> (s, Inl e)
         | Inr displaced \<Rightarrow>
             (case print_fill cfg uuid5 r beyond (clamp_into_range q displaced)
                     (fill_at + sequential_fill_gap cfg) False 1 s of
                (t, Inl e) \<Rightarrow> (t, Inl e) | (t, Inr event) \<Rightarrow> (t, Inr [event])))
      else (s, Inr []))"

definition cross_order ::
  "simulation_config \<Rightarrow> (string \<Rightarrow> nat) \<Rightarrow> order \<Rightarrow> touch_quote \<Rightarrow> int \<Rightarrow> fill_simulation
     \<Rightarrow> fill_simulation \<times> event list result" where
  "cross_order cfg uuid5 r q fill_at s =
     (case walk_depth (quote_depth q) (order_base_quantity r) of
        Inl e \<Rightarrow> (s, Inl e)
      | Inr walk \<Rightarrow>
          if walk_rejection walk = Some UNFILLABLE_DEPTH then
            (case reject_order r fill_at depth_refusal s of
               (t, Inl e) \<Rightarrow> (t, Inl e) | (t, Inr event) \<Rightarrow> (t, Inr [event]))
          else
            (case quantize_base_quantity (order_instrument r)
                    (min (order_base_quantity r) (depth_at_touch_base (quote_depth q))) of
               Inl e \<Rightarrow> (s, Inl e)
             | Inr at_touch \<Rightarrow>
                 (case print_at_touch cfg uuid5 r q fill_at at_touch s of
                    (t, Inl e) \<Rightarrow> (t, Inl e)
                  | (t, Inr events) \<Rightarrow>
                      (case print_beyond cfg uuid5 r q fill_at walk (dsub (order_base_quantity r) at_touch) t of
                         (u, Inl e) \<Rightarrow> (u, Inl e)
                       | (u, Inr events') \<Rightarrow>
                           if events @ events' = [] then (u, Inl (VenueSimulationError ''crossed and produced no fill''))
                           else (u, Inr (events @ events'))))))"

definition unmarketable_refusal :: venue_rejection where
  "unmarketable_refusal = \<lparr>venue_reject_reason = BOOK_DEPTH, reject_detail = ''did not cross the touch''\<rparr>"

definition sim_resolve_ack ::
  "simulation_config \<Rightarrow> (string \<Rightarrow> nat) \<Rightarrow> order \<Rightarrow> int \<Rightarrow> fill_simulation \<Rightarrow> fill_simulation \<times> event list result" where
  "sim_resolve_ack cfg uuid5 acked occurs_at s =
     (case map_of (sim_pending s) (order_id acked) of
        None \<Rightarrow> (s, Inl (VenueSimulationError ''ack names an order the venue is not holding''))
      | Some r \<Rightarrow>
          (let t = s\<lparr>sim_pending := AList.delete (order_id acked) (sim_pending s)\<rparr>
           in case quote_or_raise r t of
                Inl e \<Rightarrow> (t, Inl e)
              | Inr q \<Rightarrow>
                  (let fill_at = occurs_at + ack_to_fill (latency (sim_cost_model cfg))
                   in if is_marketable r q then cross_order cfg uuid5 r q fill_at t
                      else (case limit_quote_price r of
                              None \<Rightarrow> (t, Inl (VenueSimulationError ''limit order with no price''))
                            | Some limit \<Rightarrow>
                                if time_in_force r = IOC \<or> time_in_force r = FOK then
                                  (case reject_order r fill_at unmarketable_refusal t of
                                     (u, Inl e) \<Rightarrow> (u, Inl e) | (u, Inr event) \<Rightarrow> (u, Inr [event]))
                                else (t\<lparr>sim_resting := AList.update (order_id r) (join_queue r limit q) (sim_resting t)\<rparr>,
                                      Inr [])))))"

definition resting_orders :: "fill_simulation \<Rightarrow> resting_order list" where
  "resting_orders s = map (\<lambda>oid. the (map_of (sim_resting s) oid)) (sort (map fst (sim_resting s)))"

section \<open>The paper venue: _venue.py\<close>

text \<open>
  \<open>BacktestVenue\<close> forwards each operation to its simulator unchanged. \<open>PaperVenue\<close> holds the
  acks until its clock reaches them; an operation's one reading of the clock is an argument.
\<close>

record paper_venue =
  paper_simulation :: fill_simulation
  paper_pending_acks :: "(order \<times> int) list"

definition paper_submit ::
  "simulation_config \<Rightarrow> order \<Rightarrow> int \<Rightarrow> int \<Rightarrow> paper_venue \<Rightarrow> paper_venue \<times> event result" where
  "paper_submit cfg r decided now v =
     (if decided > now then (v, Inl (VenueSimulationError ''decided in the future''))
      else (case sim_submit cfg r decided (paper_simulation v) of
              (s, Inr (OrderAckEvent acked occurs_at)) \<Rightarrow>
                (v\<lparr>paper_simulation := s, paper_pending_acks := paper_pending_acks v @ [(acked, occurs_at)]\<rparr>,
                 Inr (OrderAckEvent acked occurs_at))
            | (s, answer) \<Rightarrow> (v\<lparr>paper_simulation := s\<rparr>, answer)))"

definition ack_order :: "order \<times> int \<Rightarrow> int \<times> string" where
  "ack_order a = (snd a, client_order_id (fst a))"

fun resolve_all ::
  "simulation_config \<Rightarrow> (string \<Rightarrow> nat) \<Rightarrow> (order \<times> int) list \<Rightarrow> fill_simulation \<Rightarrow> fill_simulation \<times> event list result" where
  "resolve_all cfg uuid5 [] s = (s, Inr [])"
| "resolve_all cfg uuid5 ((acked, occurs_at) # acks) s =
     (case sim_resolve_ack cfg uuid5 acked occurs_at s of
        (t, Inl e) \<Rightarrow> (t, Inl e)
      | (t, Inr events) \<Rightarrow>
          (case resolve_all cfg uuid5 acks t of
             (u, Inl e) \<Rightarrow> (u, Inl e)
           | (u, Inr events') \<Rightarrow> (u, Inr (events @ events'))))"

definition due_events ::
  "simulation_config \<Rightarrow> (string \<Rightarrow> nat) \<Rightarrow> int \<Rightarrow> paper_venue \<Rightarrow> paper_venue \<times> event list result" where
  "due_events cfg uuid5 now v =
     (let due = sort_key ack_order (filter (\<lambda>a. snd a \<le> now) (paper_pending_acks v));
          (s, released) = resolve_all cfg uuid5 due (paper_simulation v)
      in (v\<lparr>paper_simulation := s, paper_pending_acks := filter (\<lambda>a. snd a > now) (paper_pending_acks v)\<rparr>, released))"

definition paper_resolve_ack ::
  "simulation_config \<Rightarrow> (string \<Rightarrow> nat) \<Rightarrow> order \<Rightarrow> int \<Rightarrow> int \<Rightarrow> paper_venue \<Rightarrow> paper_venue \<times> event list result" where
  "paper_resolve_ack cfg uuid5 acked occurs_at now v =
     (if occurs_at > now then (v, Inl (VenueSimulationError ''ack before its instant''))
      else (let (s, events) = sim_resolve_ack cfg uuid5 acked occurs_at (paper_simulation v)
            in (v\<lparr>paper_simulation := s,
                  paper_pending_acks := filter (\<lambda>held. held \<noteq> (acked, occurs_at)) (paper_pending_acks v)\<rparr>, events)))"

definition pending_acks :: "paper_venue \<Rightarrow> (order \<times> int) list" where
  "pending_acks v = sort_key ack_order (paper_pending_acks v)"

section \<open>What an operation records is what it answers\<close>

text \<open>
  The fills and the refusals of a list of events, and the simulator's report after an
  operation: every fill answered is recorded, in order, and every refusal counted once.
\<close>

fun fills_of :: "event list \<Rightarrow> fill list" where
  "fills_of [] = []"
| "fills_of (FillEvent f # es) = f # fills_of es"
| "fills_of (_ # es) = fills_of es"

fun refusals_of :: "event list \<Rightarrow> nat" where
  "refusals_of [] = 0"
| "refusals_of (RejectEvent _ _ _ # es) = Suc (refusals_of es)"
| "refusals_of (_ # es) = refusals_of es"

lemma events_append [simp]:
  "fills_of (xs @ ys) = fills_of xs @ fills_of ys" "refusals_of (xs @ ys) = refusals_of xs + refusals_of ys"
proof -
  show "fills_of (xs @ ys) = fills_of xs @ fills_of ys" by (induction xs rule: fills_of.induct) simp_all
  show "refusals_of (xs @ ys) = refusals_of xs + refusals_of ys" by (induction xs rule: refusals_of.induct) simp_all
qed

definition reports :: "fill_simulation \<Rightarrow> fill_simulation \<Rightarrow> event list \<Rightarrow> bool" where
  "reports s t events \<longleftrightarrow>
     map recorded_fill (sim_fills t) = map recorded_fill (sim_fills s) @ fills_of events \<and>
     rejection_total (simulation_report t) = rejection_total (simulation_report s) + refusals_of events"

lemma reports_trans: "reports s t xs \<Longrightarrow> reports t u ys \<Longrightarrow> reports s u (xs @ ys)"
  by (simp add: reports_def)

lemma reports_same:
  "sim_fills t = sim_fills s \<Longrightarrow> sim_rejections t = sim_rejections s \<Longrightarrow> reports s t []"
  by (simp add: reports_def rejection_total_def simulation_report_def)

lemma count_of_update:
  "count_of (AList.update k v counts) k' = (if k = k' then v else count_of counts k')"
  by (simp add: count_of_def update_conv')

lemma rejection_total_counted:
  "rejection_total (simulation_report (s\<lparr>sim_rejections := AList.update k (count_of (sim_rejections s) k + 1) (sim_rejections s)\<rparr>)) =
    Suc (rejection_total (simulation_report s))"
  by (cases k) (simp_all add: rejection_total_def simulation_report_def ALL_REASONS_def count_of_update)

lemma print_fill_reports:
  "print_fill cfg uuid5 r q p t pas n s = (u, Inr event) \<Longrightarrow> reports s u [event]"
  by (auto simp: print_fill_def Let_def reports_def rejection_total_def simulation_report_def split: sum.splits)

lemma reject_order_reports:
  "reject_order r t j s = (u, Inr event) \<Longrightarrow> reports s u [event] \<and> (\<exists>text. event = RejectEvent r t text)"
  using rejection_total_counted [of "venue_reject_reason j" s]
  by (auto simp: reject_order_def reports_def)

lemma pay_resting_reports:
  "pay_resting cfg uuid5 b oid r s = (u, Inr events) \<Longrightarrow> reports s u events"
  unfolding pay_resting_def
  by (auto simp: Let_def split: sum.splits option.splits if_splits prod.splits
      dest!: print_fill_reports intro: reports_same)
    (auto simp: reports_def rejection_total_def simulation_report_def)

lemma pay_queue_reports:
  "pay_queue cfg uuid5 b oids s = (u, Inr events) \<Longrightarrow> reports s u events"
proof (induction oids arbitrary: s u events)
  case Nil
  then show ?case by (simp add: reports_same)
next
  case (Cons oid oids)
  then show ?case
    by (auto split: option.splits if_splits prod.splits sum.splits dest!: pay_resting_reports intro: reports_trans)
qed

lemma cross_order_reports:
  assumes "cross_order cfg uuid5 r q t s = (u, Inr events)"
  shows "reports s u events"
proof -
  have touch: "print_at_touch cfg uuid5 r q t x s = (u, Inr es) \<Longrightarrow> reports s u es" for x s u es
    by (auto simp: print_at_touch_def split: if_splits prod.splits sum.splits dest!: print_fill_reports intro: reports_same)
  have beyond: "print_beyond cfg uuid5 r q t w x s = (u, Inr es) \<Longrightarrow> reports s u es" for w x s u es
    by (auto simp: print_beyond_def split: if_splits prod.splits sum.splits dest!: print_fill_reports intro: reports_same)
  show ?thesis
    using assms unfolding cross_order_def
    by (auto split: sum.splits if_splits prod.splits dest!: reject_order_reports touch beyond intro: reports_trans)
qed

lemma reports_pre: "sim_fills s' = sim_fills s \<Longrightarrow> sim_rejections s' = sim_rejections s \<Longrightarrow> reports s' t es \<Longrightarrow> reports s t es"
  by (simp add: reports_def rejection_total_def simulation_report_def)

text \<open>
  The report is complete: an operation that returns has appended to the recorded fills
  exactly the fills it answered with, in order, and counted exactly the refusals it
  answered with, whatever the bar, the order or the ack.
\<close>

theorem report_is_complete:
  "sim_observe cfg uuid5 b s = (t, Inr events) \<Longrightarrow> reports s t events"
  "sim_submit cfg r decided s = (t, Inr answer) \<Longrightarrow> reports s t [answer]"
  "sim_resolve_ack cfg uuid5 r occurs_at s = (t, Inr events) \<Longrightarrow> reports s t events"
proof -
  show "reports s t events" if "sim_observe cfg uuid5 b s = (t, Inr events)"
    using that by (auto simp: sim_observe_def Let_def split: sum.splits dest!: pay_queue_reports intro: reports_pre [rotated 2])
  have screened: "sim_fills u = sim_fills s \<and> sim_rejections u = sim_rejections s"
    if "screen_submission cfg r a s = (u, x)" for a u x
    using that by (auto simp: screen_submission_def within_order_rate_budget_def Let_def split: if_splits)
  show "reports s t [answer]" if submit: "sim_submit cfg r decided s = (t, Inr answer)"
  proof -
    obtain u x where u: "screen_submission cfg r (arrives_at_utc (schedule_for cfg decided)) s = (u, x)"
      by fastforce
    show ?thesis
      using submit screened [OF u]
      by (auto simp: sim_submit_def Let_def u split: if_splits sum.splits option.splits dest!: reject_order_reports
          intro: reports_pre [rotated 2])
        (auto simp: reports_def rejection_total_def simulation_report_def)
  qed
  show "reports s t events" if "sim_resolve_ack cfg uuid5 r occurs_at s = (t, Inr events)"
    using that
    by (auto simp: sim_resolve_ack_def Let_def split: option.splits sum.splits if_splits prod.splits
        dest!: reject_order_reports cross_order_reports intro: reports_pre [rotated 2] reports_same)
qed

section \<open>An acknowledgement is resolved once\<close>

lemma pending_kept:
  "print_fill cfg uuid5 r q p t pas n s = (u, x) \<Longrightarrow> sim_pending u = sim_pending s"
  "print_at_touch cfg uuid5 r q' t y s = (u, z) \<Longrightarrow> sim_pending u = sim_pending s"
  "print_beyond cfg uuid5 r q' t w y s = (u, z) \<Longrightarrow> sim_pending u = sim_pending s"
proof -
  have print: "sim_pending u = sim_pending s" if "print_fill cfg uuid5 r q p t pas n s = (u, x)" for q p t pas n s u x
    using that by (auto simp: print_fill_def Let_def split: sum.splits)
  show "print_fill cfg uuid5 r q p t pas n s = (u, x) \<Longrightarrow> sim_pending u = sim_pending s" by (rule print)
  show "print_at_touch cfg uuid5 r q' t y s = (u, z) \<Longrightarrow> sim_pending u = sim_pending s"
    by (auto simp: print_at_touch_def split: if_splits prod.splits sum.splits dest!: print)
  show "print_beyond cfg uuid5 r q' t w y s = (u, z) \<Longrightarrow> sim_pending u = sim_pending s"
    by (auto simp: print_beyond_def split: if_splits prod.splits sum.splits dest!: print)
qed

lemma cross_order_pending: "cross_order cfg uuid5 r q t s = (u, x) \<Longrightarrow> sim_pending u = sim_pending s"
  unfolding cross_order_def
  by (auto simp: reject_order_def split: sum.splits if_splits prod.splits dest!: pending_kept)

text \<open>
  Whatever became of an acknowledged order, printed, rested, refused or raised, its second
  resolution is refused: the simulator no longer holds it.
\<close>

theorem ack_resolves_once:
  assumes "sim_resolve_ack cfg uuid5 r occurs_at s = (t, x)"
  shows "sim_resolve_ack cfg uuid5 r occurs_at' t =
    (t, Inl (VenueSimulationError ''ack names an order the venue is not holding''))"
proof -
  have "map_of (sim_pending t) (order_id r) = None"
    using assms
    by (auto simp: sim_resolve_ack_def Let_def reject_order_def delete_conv' split: option.splits sum.splits if_splits prod.splits
        dest!: cross_order_pending)
  then show ?thesis by (simp add: sim_resolve_ack_def)
qed

section \<open>An order that crosses is filled whole\<close>

lemma print_fill_event:
  assumes "print_fill cfg uuid5 r q p t pas n s = (u, Inr event)"
  obtains f where "event = FillEvent f" "fill_base_quantity f = q" "fill_quote_price f = p"
    "fill_order_id f = order_id r" "fill_side f = order_side r" "fill_event_time_utc f = t"
  using assms by (auto simp: print_fill_def Let_def and_then_Inr_iff split: sum.splits)

lemma clamp_in_range:
  "quote_low_price q \<le> quote_high_price q \<Longrightarrow>
    quote_low_price q \<le> clamp_into_range q x \<and> clamp_into_range q x \<le> quote_high_price q"
  by (simp add: clamp_into_range_def)

definition print_of :: "order \<Rightarrow> touch_quote \<Rightarrow> fill \<Rightarrow> bool" where
  "print_of r q f \<longleftrightarrow> fill_order_id f = order_id r \<and> fill_side f = order_side r \<and>
     quote_low_price q \<le> fill_quote_price f \<and> fill_quote_price f \<le> quote_high_price q"

lemma print_at_touch_fills:
  assumes "print_at_touch cfg uuid5 r q t x s = (u, Inr es)" and "quote_low_price q \<le> quote_high_price q" and "0 \<le> x"
  shows "sum_list (map fill_base_quantity (fills_of es)) = x" "list_all (print_of r q) (fills_of es)" "length es \<le> 1"
  using assms clamp_in_range [OF assms(2)]
  by (auto simp: print_at_touch_def print_of_def split: if_splits prod.splits sum.splits elim!: print_fill_event)

lemma print_beyond_fills:
  assumes "print_beyond cfg uuid5 r q t w x s = (u, Inr es)" and "quote_low_price q \<le> quote_high_price q" and "0 \<le> x"
  shows "sum_list (map fill_base_quantity (fills_of es)) = x" "list_all (print_of r q) (fills_of es)" "length es \<le> 1"
  using assms clamp_in_range [OF assms(2)]
  by (auto simp: print_beyond_def print_of_def split: if_splits prod.splits sum.splits elim!: print_fill_event)

text \<open>
  An order that crosses is refused whole exactly when it is larger than the modelled band,
  and otherwise its one or two prints make up its whole quantity, each at a price inside the
  range the bar traded at.
\<close>

theorem crossing_fills_the_order:
  assumes "cross_order cfg uuid5 r q t s = (u, Inr events)"
    and "valid_order r" and "valid_instrument (order_instrument r)"
    and "snappable (lot_step (order_instrument r))" and "snappable (order_base_quantity r)"
    and "valid_depth (quote_depth q)" and "quote_low_price q \<le> quote_high_price q"
  shows "if band_1pct_base (quote_depth q) < order_base_quantity r
    then fills_of events = [] \<and> refusals_of events = 1
    else sum_list (map fill_base_quantity (fills_of events)) = order_base_quantity r \<and>
      list_all (print_of r q) (fills_of events) \<and> length (fills_of events) \<le> 2 \<and> refusals_of events = 0"
proof -
  let ?qty = "order_base_quantity r" and ?i = "order_instrument r"
  have qty: "0 < ?qty" using valid_orderD [OF assms(2)] by simp
  have abs: "dabs ?qty = ?qty" using dabs_lattice [OF assms(5)] qty by simp
  obtain w where w: "walk_depth (quote_depth q) ?qty = Inr w"
      "(walk_rejection w = Some UNFILLABLE_DEPTH) = (band_1pct_base (quote_depth q) < ?qty)"
    using qty valid_depthD [OF assms(6)] by (cases rule: walk_depth_cases [OF assms(6), of ?qty]) (auto simp: abs)
  show ?thesis
  proof (cases "band_1pct_base (quote_depth q) < ?qty")
    case True
    with assms(1) w show ?thesis
      by (auto simp: cross_order_def split: prod.splits sum.splits dest!: reject_order_reports)
  next
    case False
    have "0 \<le> min ?qty (depth_at_touch_base (quote_depth q))" "min ?qty (depth_at_touch_base (quote_depth q)) \<le> ?qty"
      using qty valid_depthD [OF assms(6)] by simp_all
    then obtain n where n: "quantize_base_quantity ?i (min ?qty (depth_at_touch_base (quote_depth q))) = Inr (of_int n * lot_step ?i)"
        "0 \<le> n" "of_int n * lot_step ?i \<le> ?qty" "snappable (of_int n * lot_step ?i)"
      using quantize_below [OF assms(3,4,5)] by blast
    let ?x = "of_int n * lot_step ?i"
    have x: "0 \<le> ?x" using n(2) valid_instrument_filters(2) [OF assms(3)] by (intro mult_nonneg_nonneg) auto
    have "on_lattice (?qty - ?x)" using assms(5) n(4) by (intro on_lattice_diff) (auto simp: snappable_def)
    moreover have "\<bar>?qty - ?x\<bar> < 10 ^ 18" using assms(5) n(3) x by (auto simp: snappable_def)
    ultimately have left: "dsub ?qty ?x = ?qty - ?x" by (auto simp: dsub_def intro!: lattice_exact)
    obtain v es es' where e: "print_at_touch cfg uuid5 r q t ?x s = (v, Inr es)"
        "print_beyond cfg uuid5 r q t w (?qty - ?x) v = (u, Inr es')" "events = es @ es'"
      using assms(1) w False n(1) left
      by (auto simp: cross_order_def split: prod.splits sum.splits if_splits)
    note a = print_at_touch_fills [OF e(1) assms(7) x]
    have "0 \<le> ?qty - ?x" using n(3) by simp
    note b = print_beyond_fills [OF e(2) assms(7) this]
    have "length (fills_of xs) + refusals_of xs \<le> length xs" for xs by (induction xs rule: fills_of.induct) auto
    then have "length (fills_of es) \<le> 1" "length (fills_of es') \<le> 1" using a(3) b(3) add_leD1 order_trans by blast+
    moreover have "refusals_of es = 0" "refusals_of es' = 0"
      using e(1,2) by (auto simp: print_at_touch_def print_beyond_def split: if_splits prod.splits sum.splits elim!: print_fill_event)
    ultimately show ?thesis using False a b e(3) by auto
  qed
qed

text \<open>
  The crossing does not look at the limit. A limit buy at 100.05 for 4, against a touch of 100
  that holds 2 inside a band of 10, is marketable, and the half of it beyond the touch prints
  at the walk's 100.125, which is above its limit.
\<close>

lemma crossing_ignores_the_limit:
  assumes "cross_order cfg uuid5 r q t s = (u, Inr events)"
    and "order_side r = BUY" "order_type_of r = LIMIT" "limit_quote_price r = Some (10005 / 100)"
    and "order_base_quantity r = 4" "quantize_base_quantity (order_instrument r) 2 = Inr 2"
    and "ask_quote_price q = 100" "quote_low_price q = 99" "quote_high_price q = 101"
    and "quote_depth q = \<lparr>depth_at_touch_base = 2, band_1pct_base = 10\<rparr>"
  shows "is_marketable r q" and "\<exists>f \<in> set (fills_of events). fill_quote_price f = 801 / 8"
proof -
  show "is_marketable r q" using assms by (simp add: is_marketable_def touch_for_def)
  have steps: "dabs 4 = 4" "dsub 4 2 = 2" "dsub 10 2 = 8" "dmul 100 (1 / 4) = 25" "dmul (25 / 2) 2 = 25" "dmul (25 / 4) 4 = 25"
    "dmul (25 / 2) 1 = 25 / 2" "dadd 10000 (25 / 2) = 20025 / 2" "dmul 100 (20025 / 2) = 1001250"
    by code_simp+
  have quotients: "ddiv 2 8 = Inr (1 / 4)" "ddiv 25 2 = Inr (25 / 2)" "ddiv 25 4 = Inr (25 / 4)"
    "ddiv 1001250 10000 = Inr (801 / 8)"
    by code_simp+
  have walk: "walk_depth (quote_depth q) 4 =
      Inr \<lparr>filled_base_quantity = 4, depth_slippage_bps = 25 / 4, walk_fill_count = 2, walk_rejection = None\<rparr>"
    by (simp add: assms(10) walk_depth_def steps quotients BAND_WIDTH_BPS_def)
  have displaced: "displaced_price r 100 \<lparr>filled_base_quantity = 4, depth_slippage_bps = 25 / 4,
      walk_fill_count = 2, walk_rejection = None\<rparr> (dsub 4 2) = Inr (801 / 8)"
    using assms by (simp add: displaced_price_def steps quotients BPS_PER_UNIT_def)
  let ?w = "\<lparr>filled_base_quantity = 4, depth_slippage_bps = 25 / 4, walk_fill_count = 2, walk_rejection = None\<rparr>"
  have touch: "min 4 (depth_at_touch_base (quote_depth q)) = 2" by (simp add: assms(10))
  obtain v es es' where beyond: "print_beyond cfg uuid5 r q t ?w (dsub 4 2) v = (u, Inr es')" and "events = es @ es'"
    using assms(1) unfolding cross_order_def assms(5) walk touch assms(6)
    by (auto split: prod.splits sum.splits if_splits)
  moreover have "print_beyond cfg uuid5 r q t ?w (dsub 4 2) v =
      (case print_fill cfg uuid5 r 2 (801 / 8) (t + sequential_fill_gap cfg) False 1 v of
         (t, Inl e) \<Rightarrow> (t, Inl e) | (t, Inr event) \<Rightarrow> (t, Inr [event]))"
    using displaced assms by (simp add: print_beyond_def touch_for_def clamp_into_range_def steps)
  with beyond obtain f where "es' = [FillEvent f]" "fill_quote_price f = 801 / 8"
    by (auto split: prod.splits sum.splits elim!: print_fill_event)
  ultimately show "\<exists>f \<in> set (fills_of events). fill_quote_price f = 801 / 8" by simp
qed

section \<open>The order-rate budget\<close>

datatype venue_operation = ObserveBar bar | SubmitOrder order int | ResolveAck order int

primrec venue_step :: "simulation_config \<Rightarrow> (string \<Rightarrow> nat) \<Rightarrow> fill_simulation \<Rightarrow> venue_operation \<Rightarrow> fill_simulation" where
  "venue_step cfg uuid5 s (ObserveBar b) = fst (sim_observe cfg uuid5 b s)"
| "venue_step cfg uuid5 s (SubmitOrder r decided) = fst (sim_submit cfg r decided s)"
| "venue_step cfg uuid5 s (ResolveAck r occurs_at) = fst (sim_resolve_ack cfg uuid5 r occurs_at s)"

text \<open>The instants at which the budget let a submission through, over a run.\<close>

definition let_through :: "simulation_config \<Rightarrow> fill_simulation \<Rightarrow> venue_operation \<Rightarrow> int list" where
  "let_through cfg s op =
     (case op of
        SubmitOrder r decided \<Rightarrow>
          (let a = arrives_at_utc (schedule_for cfg decided)
           in if created_at_utc r \<le> decided \<and> snd (within_order_rate_budget cfg a s) then [a] else [])
      | _ \<Rightarrow> [])"

fun let_through_all :: "simulation_config \<Rightarrow> (string \<Rightarrow> nat) \<Rightarrow> fill_simulation \<Rightarrow> venue_operation list \<Rightarrow> int list" where
  "let_through_all cfg uuid5 s [] = []"
| "let_through_all cfg uuid5 s (op # ops) =
     let_through cfg s op @ let_through_all cfg uuid5 (venue_step cfg uuid5 s op) ops"

fun decided_instants :: "venue_operation list \<Rightarrow> int list" where
  "decided_instants [] = []"
| "decided_instants (SubmitOrder r decided # ops) = decided # decided_instants ops"
| "decided_instants (_ # ops) = decided_instants ops"

lemma print_recent: "print_fill cfg uuid5 r q p t pas n s = (u, x) \<Longrightarrow> recent_submissions u = recent_submissions s"
  by (auto simp: print_fill_def Let_def split: sum.splits)

lemma pay_resting_recent: "pay_resting cfg uuid5 b oid r s = (u, x) \<Longrightarrow> recent_submissions u = recent_submissions s"
  unfolding pay_resting_def
  by (auto simp: Let_def split: sum.splits option.splits if_splits prod.splits dest!: print_recent)

lemma pay_queue_recent: "pay_queue cfg uuid5 b oids s = (u, x) \<Longrightarrow> recent_submissions u = recent_submissions s"
proof (induction oids arbitrary: s u x)
  case (Cons oid oids)
  then show ?case by (fastforce split: option.splits if_splits prod.splits sum.splits dest!: pay_resting_recent)
qed simp

lemma cross_order_recent: "cross_order cfg uuid5 r q t s = (u, x) \<Longrightarrow> recent_submissions u = recent_submissions s"
proof -
  have touch: "print_at_touch cfg uuid5 r q t y s = (u, z) \<Longrightarrow> recent_submissions u = recent_submissions s" for y s u z
    by (auto simp: print_at_touch_def split: if_splits prod.splits sum.splits dest!: print_recent)
  have beyond: "print_beyond cfg uuid5 r q t w y s = (u, z) \<Longrightarrow> recent_submissions u = recent_submissions s" for w y s u z
    by (auto simp: print_beyond_def split: if_splits prod.splits sum.splits dest!: print_recent)
  show "cross_order cfg uuid5 r q t s = (u, x) \<Longrightarrow> recent_submissions u = recent_submissions s"
    unfolding cross_order_def
    by (auto simp: reject_order_def split: sum.splits if_splits prod.splits dest!: touch beyond)
qed

lemma venue_step_recent:
  "recent_submissions (venue_step cfg uuid5 s op) =
    (case op of
       SubmitOrder r decided \<Rightarrow>
         if created_at_utc r \<le> decided
         then recent_submissions (fst (within_order_rate_budget cfg (arrives_at_utc (schedule_for cfg decided)) s))
         else recent_submissions s
     | _ \<Rightarrow> recent_submissions s)"
proof (cases op)
  case (ObserveBar b)
  then show ?thesis
    by (auto simp: sim_observe_def Let_def split: sum.splits prod.splits)
      (metis pay_queue_recent prod.collapse fill_simulation.select_convs(4) fill_simulation.update_convs(1) fill_simulation.surjective)
next
  case (SubmitOrder r decided)
  obtain t b where "within_order_rate_budget cfg (arrives_at_utc (schedule_for cfg decided)) s = (t, b)" by fastforce
  with SubmitOrder show ?thesis
    by (cases b) (auto simp: sim_submit_def screen_submission_def reject_order_def Let_def split: sum.splits option.splits)
next
  case (ResolveAck r occurs_at)
  then show ?thesis
    by (auto simp: sim_resolve_ack_def reject_order_def Let_def split: option.splits sum.splits if_splits prod.splits)
      (metis cross_order_recent fill_simulation.select_convs(4) fill_simulation.update_convs(3) fill_simulation.surjective prod.collapse)+
qed

text \<open>
  The recent submissions are the instants let through after some cutoff that no later
  arrival can reach back past.
\<close>

definition window_kept :: "simulation_config \<Rightarrow> int list \<Rightarrow> fill_simulation \<Rightarrow> int \<Rightarrow> bool" where
  "window_kept cfg history s now \<longleftrightarrow>
     (\<exists>cut. cut \<le> now - order_rate_window cfg \<and> recent_submissions s = filter (\<lambda>h. h > cut) history) \<and>
     (\<forall>h \<in> set history. h \<le> now) \<and>
     (\<forall>t. int (length (filter (\<lambda>h. t - order_rate_window cfg < h \<and> h \<le> t) history)) \<le> order_rate_budget cfg)"

lemma window_kept_cong:
  "recent_submissions s = recent_submissions s' \<Longrightarrow> window_kept cfg H s a = window_kept cfg H s' a"
  by (simp add: window_kept_def)

lemma window_kept_later: "window_kept cfg H s now \<Longrightarrow> now \<le> later \<Longrightarrow> window_kept cfg H s later"
  unfolding window_kept_def by (meson order_trans diff_right_mono)

lemma window_kept_arrival:
  assumes "window_kept cfg H s a" and "0 < order_rate_window cfg"
  shows "window_kept cfg (H @ (if snd (within_order_rate_budget cfg a s) then [a] else []))
    (fst (within_order_rate_budget cfg a s)) a"
proof -
  let ?w = "order_rate_window cfg" and ?b = "order_rate_budget cfg"
  from assms(1) obtain cut where cut: "cut \<le> a - ?w" "recent_submissions s = filter (\<lambda>h. h > cut) H"
    and le: "\<forall>h \<in> set H. h \<le> a" and bound: "\<And>t. int (length (filter (\<lambda>h. t - ?w < h \<and> h \<le> t) H)) \<le> ?b"
    by (auto simp: window_kept_def)
  have recent: "filter (\<lambda>sent. sent > a - ?w) (recent_submissions s) = filter (\<lambda>h. h > a - ?w) H"
    unfolding cut(2) filter_filter by (rule filter_cong) (use cut(1) in auto)
  show ?thesis
  proof (cases "int (length (filter (\<lambda>h. h > a - ?w) H)) \<ge> ?b")
    case True
    then have "recent_submissions (fst (within_order_rate_budget cfg a s)) = filter (\<lambda>h. h > a - ?w) H"
      and refused: "\<not> snd (within_order_rate_budget cfg a s)"
      using recent by (simp_all add: within_order_rate_budget_def Let_def)
    then have "window_kept cfg H (fst (within_order_rate_budget cfg a s)) a"
      unfolding window_kept_def by (intro conjI exI [of _ "a - ?w"]) (use le bound in auto)
    with refused show ?thesis by simp
  next
    case False
    have "int (length (filter (\<lambda>h. t - ?w < h \<and> h \<le> t) (H @ [a]))) \<le> ?b" for t
    proof (cases "t - ?w < a \<and> a \<le> t")
      case True
      have "length (filter (\<lambda>h. t - ?w < h \<and> h \<le> t) H) \<le> length (filter (\<lambda>h. h > a - ?w) H)"
        using True by (induction H) auto
      with True False show ?thesis by simp
    qed (use bound [of t] in auto)
    note bounded = this
    have kept: "recent_submissions (fst (within_order_rate_budget cfg a s)) = filter (\<lambda>h. h > a - ?w) H @ [a]"
      and through: "snd (within_order_rate_budget cfg a s)"
      using False recent by (simp_all add: within_order_rate_budget_def Let_def)
    have "window_kept cfg (H @ [a]) (fst (within_order_rate_budget cfg a s)) a"
      unfolding window_kept_def
    proof (intro conjI exI [of _ "a - ?w"])
      show "\<forall>h \<in> set (H @ [a]). h \<le> a" using le by simp
      show "\<forall>t. int (length (filter (\<lambda>h. t - ?w < h \<and> h \<le> t) (H @ [a]))) \<le> ?b" using bounded by blast
      show "recent_submissions (fst (within_order_rate_budget cfg a s)) = filter (\<lambda>h. a - ?w < h) (H @ [a])"
        using kept assms(2) by simp
    qed simp
    with through show ?thesis by simp
  qed
qed

lemma let_through_all_kept:
  assumes "window_kept cfg H s now" and "0 < order_rate_window cfg"
    and "sorted (decided_instants ops)" and "\<forall>d \<in> set (decided_instants ops). now \<le> arrives_at_utc (schedule_for cfg d)"
  shows "\<forall>t. int (length (filter (\<lambda>h. t - order_rate_window cfg < h \<and> h \<le> t)
    (H @ let_through_all cfg uuid5 s ops))) \<le> order_rate_budget cfg"
  using assms(1,3,4)
proof (induction ops arbitrary: H s now)
  case Nil
  then show ?case by (simp add: window_kept_def)
next
  case (Cons op ops)
  have same: "window_kept cfg H (venue_step cfg uuid5 s op) now" if "recent_submissions (venue_step cfg uuid5 s op) = recent_submissions s"
    using Cons.prems(1) that by (simp add: window_kept_def)
  show ?case
  proof (cases op)
    case (SubmitOrder r d)
    let ?a = "arrives_at_utc (schedule_for cfg d)"
    have later: "\<forall>d' \<in> set (decided_instants ops). ?a \<le> arrives_at_utc (schedule_for cfg d')"
      using Cons.prems(2) SubmitOrder by (auto simp: schedule_for_def Let_def)
    have now: "window_kept cfg H s ?a" using window_kept_later [OF Cons.prems(1)] Cons.prems(3) SubmitOrder by simp
    show ?thesis
    proof (cases "created_at_utc r \<le> d")
      case True
      have recent: "recent_submissions (venue_step cfg uuid5 s op) = recent_submissions (fst (within_order_rate_budget cfg ?a s))"
        by (simp add: venue_step_recent True SubmitOrder del: venue_step.simps)
      have through: "let_through cfg s op = (if snd (within_order_rate_budget cfg ?a s) then [?a] else [])"
        using True SubmitOrder by (simp add: let_through_def)
      have "window_kept cfg (H @ let_through cfg s op) (venue_step cfg uuid5 s op) ?a"
        unfolding through window_kept_cong [OF recent] by (rule window_kept_arrival [OF now assms(2)])
      from Cons.IH [OF this] Cons.prems(2) later SubmitOrder show ?thesis by simp
    next
      case False
      then have "recent_submissions (venue_step cfg uuid5 s op) = recent_submissions s"
        by (simp add: venue_step_recent SubmitOrder del: venue_step.simps)
      from window_kept_cong [OF this] now have "window_kept cfg H (venue_step cfg uuid5 s op) ?a" by simp
      from Cons.IH [OF this] Cons.prems(2) later False SubmitOrder show ?thesis by (simp add: let_through_def)
    qed
  next
    case (ObserveBar b)
    then have "recent_submissions (venue_step cfg uuid5 s op) = recent_submissions s"
      by (simp add: venue_step_recent del: venue_step.simps)
    from Cons.IH [OF same [OF this]] Cons.prems ObserveBar show ?thesis by (simp add: let_through_def)
  next
    case (ResolveAck r occurs_at)
    then have "recent_submissions (venue_step cfg uuid5 s op) = recent_submissions s"
      by (simp add: venue_step_recent del: venue_step.simps)
    from Cons.IH [OF same [OF this]] Cons.prems ResolveAck show ?thesis by (simp add: let_through_def)
  qed
qed

text \<open>
  The venue's order budget is never exceeded: however bars, submissions and acks interleave,
  whatever raises, and while decisions come in the order of their instants, no window of the
  configured length lets more submissions through than the budget.
\<close>

theorem venue_order_budget_never_exceeded:
  assumes "simulation_init cfg = Inr s0" and "sorted (decided_instants ops)"
  shows "int (length (filter (\<lambda>h. t - order_rate_window cfg < h \<and> h \<le> t) (let_through_all cfg uuid5 s0 ops)))
    \<le> order_rate_budget cfg"
proof (cases "decided_instants ops")
  case Nil
  then have "let_through_all cfg uuid5 s ops = []" for s
    by (induction ops arbitrary: s rule: decided_instants.induct) (auto simp: let_through_def)
  with assms(1) show ?thesis by (simp add: simulation_init_def and_then_Inr_iff)
next
  case (Cons d ds)
  let ?now = "arrives_at_utc (schedule_for cfg d)"
  have init: "0 < order_rate_window cfg" "0 < order_rate_budget cfg" "recent_submissions s0 = []"
    using assms(1) by (auto simp: simulation_init_def and_then_Inr_iff)
  then have "window_kept cfg [] s0 ?now" by (auto simp: window_kept_def)
  moreover have "\<forall>d' \<in> set (decided_instants ops). ?now \<le> arrives_at_utc (schedule_for cfg d')"
    using assms(2) Cons by (auto simp: schedule_for_def Let_def)
  ultimately show ?thesis using let_through_all_kept [OF _ init(1) assms(2)] by fastforce
qed

end
