(* ===== verification/Spec2Isabelle.thy ===== *)
theory Spec2Isabelle
  imports Portfolios KillSwitch Engine Drawdown Netting Throttle Lifecycle Lineage
    Partition Sizing Calibration_Fit Decision_Audits Degraded Triggers Metrics Costs Venue_Simulation
begin

text \<open>
  A verification library for the trading system under \<open>src/fking\<close>: the domain model, the
  limits and the kill switch of its risk package and the event loop of its backtest
  engine, translated definition by definition from the Python sources, with the
  properties that make each part correct.

  \<^bold>\<open>How the program is put together.\<close> \<open>domain\<close> holds frozen records whose constructors
  validate what they build; every other package builds on them. \<open>risk\<close> turns signals into
  risk decisions under limits that configuration can only tighten, and owns the kill
  switch, whose state is derived from an append-only journal. \<open>backtest\<close> drives handlers
  through simulated time over a totally ordered event queue. \<open>platform\<close> fixes the decimal
  context and the compiled-in bounds.

  \<^bold>\<open>Which theory models what.\<close>

  \<^item> \<open>Prelude\<close>: exceptions as values (\<open>exn\<close>, \<open>'a result\<close>), their sequencing, dataclass
    construction (\<open>construct\<close>: the record if its post-init hook accepts it), untyped
    Python objects, and the locales \<open>state_machine\<close>, \<open>monotone_machine\<close> and
    \<open>keyed_store\<close>.
  \<^item> \<open>Decimals\<close>: \<open>platform/numeric.py\<close>. A decimal is its rational value; every operation
    rounds to 38 significant digits, half to even (\<open>context_round\<close>). The locale
    \<open>rounding\<close> states what clients need of it.
  \<^item> \<open>Guards\<close>: \<open>domain/_guards.py\<close>.
  \<^item> \<open>Instruments\<close>, \<open>Orders\<close>, \<open>Positions\<close>, \<open>Portfolios\<close>: the modules of \<open>domain\<close> of
    those names, with \<open>money.py\<close>, \<open>market.py\<close>, \<open>signal.py\<close> and \<open>risk_decision.py\<close> in
    \<open>Orders\<close>.
  \<^item> \<open>KillSwitch\<close>: \<open>risk/_state.py\<close> and \<open>risk/_killswitch.py\<close>.
  \<^item> \<open>Risk_Limits\<close>: \<open>platform/config/_ceilings.py\<close>, \<open>risk/ceilings.py\<close>, \<open>risk/limits.py\<close>.
  \<^item> \<open>Drawdown\<close>: \<open>risk/drawdown.py\<close>.
  \<^item> \<open>EventQueues\<close>, \<open>Engine\<close>: \<open>backtest/_guards.py\<close>, \<open>_events.py\<close>, \<open>_clock.py\<close>,
    \<open>_queue.py\<close>, \<open>_config.py\<close> and \<open>_engine.py\<close>.

  \<^bold>\<open>Conventions.\<close> A class is a record, its \<open>__post_init__\<close> a list of checks run in the
  source's order; an exception is a value of \<open>exn\<close> naming the check, not its message. A
  datetime is its instant in microseconds since the epoch, a timedelta a count of them; a
  UUID is its number; a Python mapping is its list of items.

  \<^bold>\<open>What the lemmas show.\<close> Snapping is exact and conservative (C1, C2); constructors accept
  exactly the consistent records (C3 to C5); fills keep a position sound, apply once,
  conserve cash and commute (C6 to C11); a portfolio is a keyed store (C12); the kill
  switch's fold computes its abstract description and only the whole resume procedure
  reopens it (C13 to C18); the event loop is causal, complete, bounded and always
  reported (C19 to C24); limits are bounded in their dangerous direction (C25); drawdown
  state never loosens and survives a restart (C26 to C30).

  \<^bold>\<open>Bounds and fuel.\<close> The dispatch loop needs no fuel: it is a total function, since each
  iteration records an entry and the event budget bounds the entries. Exactness results on
  decimals hold for values with at most 18 decimal places below 10 to the 20, the shape of
  the database's NUMERIC(38, 18) columns.

  \<^bold>\<open>Not modelled.\<close> Input and output, persistence, telemetry, messaging and the HTTP
  clients; the floating-point statistics of calibration and validation; SHA-256 digests
  and canonical JSON, which the event loop takes as arguments; text renderings of decimals
  and instants, which the drawdown codec takes as an argument. The manifest lists the
  remaining packages with the reason for each.
\<close>

end
